(* ===== verification/Prelude.thy ===== *)
theory Prelude
  imports Main "HOL-Library.Word"
begin

text \<open>
  Shared vocabulary of the development: the fixed-width integer types of the C++ sources,
  generic lemmas on lists, options and words, and the interfaces under which the stateful
  components are verified.

  A component with state is a function that takes the state and an event and returns the new
  state (and the value the C++ method returns). The locale \<open>guarded_machine\<close> is the contract
  such a component offers: an invariant that every admissible event keeps. The locales that
  extend it add a quantity that never decreases (\<open>monotone_machine\<close>), an abstract machine that the
  component refines (\<open>simulation\<close>) and states that are never left (\<open>absorbing_machine\<close>). What holds of one step is lifted to every sequence of events once,
  here; each component interprets the locales it satisfies on its own step function.
\<close>

section \<open>Machine integers\<close>

type_synonym u8 = "8 word"
type_synonym u16 = "16 word"
type_synonym u32 = "32 word"
type_synonym u64 = "64 word"
type_synonym bytes = "8 word list"

named_theorems step_simps \<open>defining equations of the operations of the components\<close>
named_theorems inv_defs \<open>definitions of the invariants of the components\<close>

lemma unat_bounded: "unat (x :: 'a::len word) < 2 ^ LENGTH('a)"
  by (rule unsigned_less)

lemma unat_u32_bound: "unat (x :: u32) < 4294967296"
  using unat_bounded [of x] by simp

lemma unat_u64_bound: "unat (x :: u64) < 18446744073709551616"
  using unat_bounded [of x] by simp

lemma uint_u32_bound: "uint (x :: u32) < 4294967296"
  using uint_lt2p [of x] by simp

lemma unat_plus_no_wrap:
  fixes x y :: "'a::len word"
  assumes "unat x + unat y < 2 ^ LENGTH('a)"
  shows "unat (x + y) = unat x + unat y"
  using assms by (simp add: unat_word_ariths)

lemma unat_minus_le:
  fixes x y :: "'a::len word"
  assumes "y \<le> x"
  shows "unat (x - y) = unat x - unat y"
  using assms by (simp add: unat_sub)

lemma unat_of_nat_small:
  "m < 2 ^ LENGTH('a) \<Longrightarrow> unat (of_nat m :: 'a::len word) = m"
  by (simp add: unat_of_nat)

lemma unat_ucast_u32_u64 [simp]: "unat (ucast (x :: u32) :: u64) = unat x"
proof -
  have "unat x < 2 ^ 64"
    using unat_u32_bound [of x] by (rule order_less_trans) simp
  then show ?thesis
    by (simp add: unsigned_ucast_eq take_bit_nat_eq_self)
qed

lemma unat_ucast_u64_u32:
  "unat (x :: u64) < 2 ^ 32 \<Longrightarrow> unat (ucast x :: u32) = unat x"
  by (simp add: unsigned_ucast_eq take_bit_nat_eq_self)

lemma unat_Suc_of_less:
  fixes x y :: "'a::len word"
  assumes "x < y"
  shows "unat (x + 1) = Suc (unat x)"
proof -
  have "unat x + unat (1 :: 'a word) < 2 ^ LENGTH('a)"
    using assms unat_bounded [of y] unfolding word_less_nat_alt unsigned_1 by linarith
  then show ?thesis
    by (simp add: unat_plus_no_wrap)
qed

lemma word_Suc_le_iff_less:
  fixes x y :: "'a::len word"
  assumes "x < y"
  shows "x + 1 \<le> y"
  using assms by (simp add: word_le_nat_alt word_less_nat_alt unat_Suc_of_less [OF assms])

text \<open>A check that fails with an error, before the rest of a function that returns an error or a value.\<close>

lemma if_Inl_eq_Inr: "(if b then Inl e else r) = Inr x \<longleftrightarrow> \<not> b \<and> r = Inr x"
  by simp

section \<open>Lists\<close>

lemma sorted_wrt_append_mid:
  "sorted_wrt R (xs @ ys @ zs) \<Longrightarrow> sorted_wrt R (xs @ zs)"
  by (auto simp: sorted_wrt_append)

lemma find_Some_iff_first:
  "List.find P xs = Some x \<longleftrightarrow>
    (\<exists>i < length xs. xs ! i = x \<and> P x \<and> (\<forall>j < i. \<not> P (xs ! j)))"
  by (auto simp: find_Some_iff)

lemma find_SomeD: "List.find P xs = Some x \<Longrightarrow> x \<in> set xs \<and> P x"
  by (auto simp: find_Some_iff)

section \<open>Running a component over a sequence of events\<close>

definition exec :: "('s \<Rightarrow> 'e \<Rightarrow> 's) \<Rightarrow> 's \<Rightarrow> 'e list \<Rightarrow> 's" where
  "exec step s es = foldl step s es"

lemma exec_Nil [simp]: "exec step s [] = s"
  by (simp add: exec_def)

lemma exec_Cons [simp]: "exec step s (e # es) = exec step (step s e) es"
  by (simp add: exec_def)

lemma exec_append: "exec step s (es @ fs) = exec step (exec step s es) fs"
  by (simp add: exec_def)

fun admissible_run :: "('s \<Rightarrow> 'e \<Rightarrow> 's) \<Rightarrow> ('s \<Rightarrow> 'e \<Rightarrow> bool) \<Rightarrow> 's \<Rightarrow> 'e list \<Rightarrow> bool" where
  "admissible_run step ok s [] = True"
| "admissible_run step ok s (e # es) = (ok s e \<and> admissible_run step ok (step s e) es)"

lemma admissible_run_True [simp]: "admissible_run step (\<lambda>_ _. True) s es"
  by (induction es arbitrary: s) auto

locale guarded_machine =
  fixes step :: "'s \<Rightarrow> 'e \<Rightarrow> 's"
    and admissible :: "'s \<Rightarrow> 'e \<Rightarrow> bool"
    and invar :: "'s \<Rightarrow> bool"
  assumes invar_step: "invar s \<Longrightarrow> admissible s e \<Longrightarrow> invar (step s e)"
begin

lemma invar_exec:
  "invar s \<Longrightarrow> admissible_run step admissible s es \<Longrightarrow> invar (exec step s es)"
  by (induction es arbitrary: s) (auto intro: invar_step)

end

locale machine = guarded_machine step "\<lambda>_ _. True" invar
  for step :: "'s \<Rightarrow> 'e \<Rightarrow> 's" and invar :: "'s \<Rightarrow> bool"
begin

lemma invar_run: "invar s \<Longrightarrow> invar (exec step s es)"
  by (rule invar_exec) auto

end

locale monotone_machine = machine step invar
  for step :: "'s \<Rightarrow> 'e \<Rightarrow> 's" and invar :: "'s \<Rightarrow> bool" +
  fixes rank :: "'s \<Rightarrow> 'r::preorder"
  assumes rank_step: "invar s \<Longrightarrow> rank s \<le> rank (step s e)"
begin

lemma rank_run: "invar s \<Longrightarrow> rank s \<le> rank (exec step s es)"
proof (induction es arbitrary: s)
  case Nil
  then show ?case by simp
next
  case (Cons e es)
  have "rank s \<le> rank (step s e)"
    using Cons.prems by (rule rank_step)
  also have "\<dots> \<le> rank (exec step (step s e) es)"
    using Cons.prems by (intro Cons.IH invar_step) auto
  finally show ?case by simp
qed

end

locale absorbing_machine =
  fixes step :: "'s \<Rightarrow> 'e \<Rightarrow> 's"
    and absorbing :: "'s \<Rightarrow> bool"
  assumes absorbing_step: "absorbing s \<Longrightarrow> absorbing (step s e)"
begin

lemma absorbing_run: "absorbing s \<Longrightarrow> absorbing (exec step s es)"
  by (induction es arbitrary: s) (auto intro: absorbing_step)

end

text \<open>
  A refinement: the state \<open>abs s\<close> of the abstract machine follows every step of the concrete one, so
  a run of the concrete machine is one of the abstract machine.
\<close>

locale simulation = machine step invar
  for step :: "'s \<Rightarrow> 'e \<Rightarrow> 's" and invar :: "'s \<Rightarrow> bool" +
  fixes abs :: "'s \<Rightarrow> 'a"
    and abstract_step :: "'a \<Rightarrow> 'e \<Rightarrow> 'a"
  assumes abs_step: "invar s \<Longrightarrow> abs (step s e) = abstract_step (abs s) e"
begin

lemma abs_run: "invar s \<Longrightarrow> abs (exec step s es) = exec abstract_step (abs s) es"
proof (induction es arbitrary: s)
  case (Cons e es)
  then have "abs (exec step (step s e) es) = exec abstract_step (abs (step s e)) es"
    by (intro Cons.IH invar_step) auto
  with Cons.prems show ?case by (simp add: abs_step)
qed simp

end

end
