(* ===== verification/Checkpoint_Ring.thy ===== *)
theory Checkpoint_Ring
  imports Prelude
begin

text \<open>
  The checkpoints of a take: \<^verbatim>\<open>src/replay_inspection/checkpoint_ring.{h,cpp}\<close>.

  A ring keeps the initial state (frame -1) and the checkpoints taken after some frames, within
  a byte budget. The entries are kept in the order of their frames; storing evicts the oldest
  ones, never the initial one. The operations are translated with their 64-bit arithmetic; the
  lemmas show the order and accounting invariant, the byte budget, and that a lookup finds the
  latest checkpoint at or before a frame.
\<close>

section \<open>State\<close>

record checkpoint_entry =
  entry_frame :: int
  entry_size :: u64

record checkpoint_ring =
  ring_interval :: u32
  ring_budget :: u64
  ring_total :: u64
  ring_entries :: "checkpoint_entry list"

definition initial_checkpoint_frame :: int where
  "initial_checkpoint_frame = -1"

definition checkpoint_budget_bytes :: u64 where
  "checkpoint_budget_bytes = 512 * 1024 * 1024"

section \<open>Operations\<close>

definition make_ring :: "u32 \<Rightarrow> u64 \<Rightarrow> checkpoint_ring" where
  "make_ring interval budget_bytes =
     \<lparr>ring_interval = (if interval = 0 then 1 else interval), ring_budget = budget_bytes,
      ring_total = 0, ring_entries = []\<rparr>"

definition should_capture :: "checkpoint_ring \<Rightarrow> u32 \<Rightarrow> bool" where
  "should_capture r frame \<longleftrightarrow> (frame + 1) mod ring_interval r = 0"

definition has_initial :: "checkpoint_ring \<Rightarrow> bool" where
  "has_initial r \<longleftrightarrow>
     (case ring_entries r of
        [] \<Rightarrow> False
      | e # _ \<Rightarrow> entry_frame e = initial_checkpoint_frame)"

definition store_initial :: "checkpoint_ring \<Rightarrow> u64 \<Rightarrow> checkpoint_ring" where
  "store_initial r size_bytes =
     (if has_initial r then
        (let front = hd (ring_entries r);
             total = ring_total r - entry_size front
         in r\<lparr>ring_entries := front\<lparr>entry_size := size_bytes\<rparr> # tl (ring_entries r),
              ring_total := total + size_bytes\<rparr>)
      else
        r\<lparr>ring_entries :=
            \<lparr>entry_frame = initial_checkpoint_frame, entry_size = size_bytes\<rparr> # ring_entries r,
          ring_total := ring_total r + size_bytes\<rparr>)"

text \<open>The eviction loop of \<open>store\<close>: \<open>first\<close> is the index of the oldest entry it may drop.\<close>

definition erase_entry :: "nat \<Rightarrow> checkpoint_ring \<Rightarrow> checkpoint_ring" where
  "erase_entry i r =
     r\<lparr>ring_total := ring_total r - entry_size (ring_entries r ! i),
       ring_entries := take i (ring_entries r) @ drop (Suc i) (ring_entries r)\<rparr>"

function evict :: "nat \<Rightarrow> u64 \<Rightarrow> checkpoint_ring \<Rightarrow> checkpoint_ring" where
  "evict first size_bytes r =
     (if ring_budget r < ring_total r + size_bytes \<and> first < length (ring_entries r)
      then evict first size_bytes (erase_entry first r) else r)"
  by pat_completeness auto
termination
  by (relation "measure (\<lambda>(first, size_bytes, r). length (ring_entries r))")
     (auto simp: erase_entry_def)

declare evict.simps [simp del]

text \<open>\<open>std::upper_bound\<close> on a range ordered by frame: before the first later frame.\<close>

definition insert_entry :: "checkpoint_entry \<Rightarrow> checkpoint_entry list \<Rightarrow> checkpoint_entry list" where
  "insert_entry entry es =
     takeWhile (\<lambda>e. \<not> entry_frame entry < entry_frame e) es @ entry #
     dropWhile (\<lambda>e. \<not> entry_frame entry < entry_frame e) es"

definition store :: "checkpoint_ring \<Rightarrow> u32 \<Rightarrow> u64 \<Rightarrow> checkpoint_ring \<times> bool" where
  "store r frame size_bytes =
     (let initial = (if has_initial r then entry_size (hd (ring_entries r)) else 0) in
      if ring_budget r < initial \<or> ring_budget r - initial < size_bytes then (r, False)
      else
        (let first = (if has_initial r then 1 else 0);
             r' = evict first size_bytes r;
             entry = \<lparr>entry_frame = uint frame, entry_size = size_bytes\<rparr>
         in (r'\<lparr>ring_entries := insert_entry entry (ring_entries r'),
               ring_total := ring_total r' + size_bytes\<rparr>, True)))"

definition latest_at_most :: "checkpoint_ring \<Rightarrow> int \<Rightarrow> int option" where
  "latest_at_most r frame =
     fold (\<lambda>e found. if entry_frame e \<le> frame then Some (entry_frame e) else found)
       (ring_entries r) None"


section \<open>Invariant\<close>

definition ring_wf :: "checkpoint_ring \<Rightarrow> bool" where
  "ring_wf r \<longleftrightarrow>
     ring_interval r \<noteq> 0 \<and>
     sorted (map entry_frame (ring_entries r)) \<and>
     (\<forall>e \<in> set (ring_entries r). initial_checkpoint_frame \<le> entry_frame e \<and> entry_frame e < 2 ^ 32) \<and>
     (\<forall>e \<in> set (tl (ring_entries r)). 0 \<le> entry_frame e) \<and>
     ring_total r = sum_list (map entry_size (ring_entries r))"

definition ring_bytes :: "checkpoint_ring \<Rightarrow> nat" where
  "ring_bytes r = sum_list (map (\<lambda>e. unat (entry_size e)) (ring_entries r))"

definition ring_frames :: "checkpoint_ring \<Rightarrow> int set" where
  "ring_frames r = entry_frame ` set (ring_entries r)"

lemma ring_total_bytes:
  assumes "ring_total r = sum_list (map entry_size (ring_entries r))"
  shows "ring_total r = of_nat (ring_bytes r)"
proof -
  have "sum_list (map entry_size es) = of_nat (sum_list (map (\<lambda>e. unat (entry_size e)) es))"
    for es :: "checkpoint_entry list"
    by (induction es) auto
  with assms show ?thesis by (simp add: ring_bytes_def)
qed

lemma unat_ring_total:
  assumes "ring_wf r" and "ring_bytes r < 2 ^ 64"
  shows "unat (ring_total r) = ring_bytes r"
proof -
  have "unat (of_nat (ring_bytes r) :: u64) = ring_bytes r"
    using assms(2) by (simp add: unat_of_nat)
  then show ?thesis
    using ring_total_bytes [of r] assms(1) by (simp add: ring_wf_def)
qed

lemma ring_wf_make: "ring_wf (make_ring interval budget_bytes)"
  by (simp add: ring_wf_def make_ring_def)

lemma ring_wf_initial_frames:
  "ring_wf r \<Longrightarrow> \<not> has_initial r \<Longrightarrow> e \<in> set (ring_entries r) \<Longrightarrow> 0 \<le> entry_frame e"
  by (cases "ring_entries r") (auto simp: ring_wf_def has_initial_def initial_checkpoint_frame_def)

lemma ring_wf_store_initial: "ring_wf r \<Longrightarrow> ring_wf (store_initial r size_bytes)"
proof (cases "has_initial r")
  case True
  assume wf: "ring_wf r"
  from True obtain e es where es: "ring_entries r = e # es"
    by (auto simp: has_initial_def split: list.splits)
  from wf True es show ?thesis
    by (auto simp: ring_wf_def store_initial_def Let_def)
next
  case False
  assume wf: "ring_wf r"
  with False have "\<forall>e \<in> set (ring_entries r). 0 \<le> entry_frame e"
    using ring_wf_initial_frames by blast
  with wf False show ?thesis
    by (auto simp: ring_wf_def store_initial_def initial_checkpoint_frame_def)
qed

section \<open>Eviction\<close>

text \<open>
  The loop only drops a stretch of entries that starts at \<open>first\<close>; it keeps the accounting, and
  it stops because the new entry fits or because nothing is left to drop.
\<close>

lemma erase_entry_fields [simp]:
  "ring_budget (erase_entry i r) = ring_budget r"
  "ring_interval (erase_entry i r) = ring_interval r"
  "ring_entries (erase_entry i r) = take i (ring_entries r) @ drop (Suc i) (ring_entries r)"
  by (simp_all add: erase_entry_def)

lemma evict_shape:
  assumes "first \<le> length (ring_entries r)"
  shows "\<exists>k \<ge> first. ring_entries (evict first size_bytes r) =
           take first (ring_entries r) @ drop k (ring_entries r)"
  using assms
proof (induction first size_bytes r rule: evict.induct)
  case (1 first size_bytes r)
  show ?case
  proof (cases "ring_budget r < ring_total r + size_bytes \<and> first < length (ring_entries r)")
    case True
    have "first \<le> length (ring_entries (erase_entry first r))"
      using True by auto
    then obtain k where k: "first \<le> k" and
      "ring_entries (evict first size_bytes (erase_entry first r)) =
         take first (ring_entries (erase_entry first r)) @ drop k (ring_entries (erase_entry first r))"
      using "1.IH" [OF True] by blast
    moreover have "drop k (ring_entries (erase_entry first r)) = drop (Suc k) (ring_entries r)"
      using True k by simp
    moreover have "take first (ring_entries (erase_entry first r)) = take first (ring_entries r)"
      using True by simp
    ultimately show ?thesis
      using True k by (intro exI [of _ "Suc k"]) (simp add: evict.simps [of first size_bytes r])
  next
    case False
    then show ?thesis
      by (intro exI [of _ first]) (auto simp: evict.simps [of first size_bytes r])
  qed
qed

lemma evict_fields [simp]:
  "ring_budget (evict first size_bytes r) = ring_budget r"
  "ring_interval (evict first size_bytes r) = ring_interval r"
  by (induction first size_bytes r rule: evict.induct)
     (subst evict.simps; simp)+

lemma evict_stops:
  "ring_total (evict first size_bytes r) + size_bytes \<le> ring_budget r \<or>
   length (ring_entries (evict first size_bytes r)) \<le> first"
proof (induction first size_bytes r rule: evict.induct)
  case (1 first size_bytes r)
  then show ?case
    by (cases "ring_budget r < ring_total r + size_bytes \<and> first < length (ring_entries r)")
       (auto simp: evict.simps [of first size_bytes r])
qed

lemma sum_list_remove_nth:
  fixes f :: "'a \<Rightarrow> 'b::comm_monoid_add"
  assumes "i < length xs"
  shows "f (xs ! i) + sum_list (map f (take i xs @ drop (Suc i) xs)) = sum_list (map f xs)"
proof -
  have "sum_list (map f xs) = sum_list (map f (take i xs @ xs ! i # drop (Suc i) xs))"
    using assms by (simp add: id_take_nth_drop [symmetric])
  then show ?thesis by (simp add: ac_simps)
qed

lemma erase_entry_total:
  assumes "i < length (ring_entries r)"
    and "ring_total r = sum_list (map entry_size (ring_entries r))"
  shows "ring_total (erase_entry i r) = sum_list (map entry_size (ring_entries (erase_entry i r)))"
  using sum_list_remove_nth [OF assms(1), of entry_size] assms(2)
  by (simp add: erase_entry_def algebra_simps)

lemma evict_total:
  "ring_total r = sum_list (map entry_size (ring_entries r)) \<Longrightarrow>
   ring_total (evict first size_bytes r) =
     sum_list (map entry_size (ring_entries (evict first size_bytes r)))"
proof (induction first size_bytes r rule: evict.induct)
  case (1 first size_bytes r)
  then show ?case
    by (cases "ring_budget r < ring_total r + size_bytes \<and> first < length (ring_entries r)")
       (simp_all add: evict.simps [of first size_bytes r] erase_entry_total del: erase_entry_fields)
qed

lemma erase_entry_bytes:
  "i < length (ring_entries r) \<Longrightarrow> ring_bytes (erase_entry i r) \<le> ring_bytes r"
  using sum_list_remove_nth [of i "ring_entries r" "\<lambda>e. unat (entry_size e)"]
  by (simp add: ring_bytes_def)

lemma evict_bytes: "ring_bytes (evict first size_bytes r) \<le> ring_bytes r"
proof (induction first size_bytes r rule: evict.induct)
  case (1 first size_bytes r)
  then show ?case
    by (cases "ring_budget r < ring_total r + size_bytes \<and> first < length (ring_entries r)")
       (auto simp: evict.simps [of first size_bytes r] intro: order_trans [OF _ erase_entry_bytes])
qed


section \<open>Storing\<close>

lemma set_insert_entry [simp]: "set (insert_entry e es) = insert e (set es)"
  unfolding insert_entry_def
  by (metis Un_insert_right list.simps(15) set_append takeWhile_dropWhile_id)

lemma sum_list_insert_entry [simp]:
  fixes f :: "checkpoint_entry \<Rightarrow> 'b::comm_monoid_add"
  shows "sum_list (map f (insert_entry e es)) = f e + sum_list (map f es)"
proof -
  let ?P = "\<lambda>x. \<not> entry_frame e < entry_frame x"
  have "sum_list (map f es) = sum_list (map f (takeWhile ?P es @ dropWhile ?P es))"
    by simp
  then show ?thesis
    by (simp add: insert_entry_def ac_simps del: takeWhile_dropWhile_id)
qed

lemma sorted_insert_entry:
  "sorted (map entry_frame es) \<Longrightarrow> sorted (map entry_frame (insert_entry e es))"
proof (induction es)
  case Nil
  then show ?case by (simp add: insert_entry_def)
next
  case (Cons x es)
  show ?case
  proof (cases "entry_frame e < entry_frame x")
    case True
    with Cons.prems show ?thesis by (auto simp: insert_entry_def)
  next
    case False
    then have eq: "insert_entry e (x # es) = x # insert_entry e es"
      by (simp add: insert_entry_def)
    have "sorted (map entry_frame (insert_entry e es))"
      using Cons by simp
    moreover have "\<forall>y \<in> set (insert_entry e es). entry_frame x \<le> entry_frame y"
      using Cons.prems False by auto
    ultimately show ?thesis by (simp add: eq)
  qed
qed

lemma hd_insert_entry:
  "es \<noteq> [] \<Longrightarrow> entry_frame (hd es) \<le> entry_frame e \<Longrightarrow>
   hd (insert_entry e es) = hd es \<and> set (tl (insert_entry e es)) = insert e (set (tl es))"
proof (cases es)
  case (Cons x xs)
  assume "es \<noteq> []" and "entry_frame (hd es) \<le> entry_frame e"
  with Cons have "insert_entry e es = x # insert_entry e xs"
    by (simp add: insert_entry_def)
  with Cons show ?thesis by simp
qed simp

text \<open>What the eviction of \<open>store\<close> keeps: the initial entry, and a final stretch of the rest.\<close>

abbreviation evictable :: "checkpoint_ring \<Rightarrow> nat" where
  "evictable r \<equiv> (if has_initial r then 1 else 0)"

lemma evict_keeps:
  obtains k where "ring_entries (evict (evictable r) size_bytes r) =
    (if has_initial r then [hd (ring_entries r)] else []) @ drop k (ring_entries r)"
    and "evictable r \<le> k"
proof -
  have "evictable r \<le> length (ring_entries r)"
    by (auto simp: has_initial_def split: list.splits)
  then obtain k where k: "evictable r \<le> k" and
    "ring_entries (evict (evictable r) size_bytes r) =
       take (evictable r) (ring_entries r) @ drop k (ring_entries r)"
    using evict_shape by blast
  moreover have "take (evictable r) (ring_entries r) =
      (if has_initial r then [hd (ring_entries r)] else [])"
    by (cases "ring_entries r") (auto simp: has_initial_def)
  ultimately show thesis
    using that k by simp
qed

lemma has_initial_evict:
  assumes "ring_wf r"
  shows "has_initial (evict (evictable r) size_bytes r) = has_initial r"
proof -
  obtain k where k: "ring_entries (evict (evictable r) size_bytes r) =
    (if has_initial r then [hd (ring_entries r)] else []) @ drop k (ring_entries r)"
    by (rule evict_keeps)
  show ?thesis
  proof (cases "has_initial r")
    case True
    with k show ?thesis
      by (auto simp: has_initial_def split: list.splits)
  next
    case False
    have "x \<in> set (ring_entries r)" if "drop k (ring_entries r) = x # xs" for x xs
      using that by (metis in_set_dropD list.set_intros(1))
    with False k ring_wf_initial_frames [OF assms False] show ?thesis
      by (fastforce simp: has_initial_def initial_checkpoint_frame_def split: list.splits)
  qed
qed

lemma ring_wf_evict:
  assumes "ring_wf r"
  shows "ring_wf (evict (evictable r) size_bytes r)"
proof -
  obtain k where k: "ring_entries (evict (evictable r) size_bytes r) =
      (if has_initial r then [hd (ring_entries r)] else []) @ drop k (ring_entries r)"
    and ge: "evictable r \<le> k"
    by (rule evict_keeps)
  have dropped: "sorted (map entry_frame (drop k (ring_entries r)))"
    using assms by (simp add: ring_wf_def flip: drop_map)
  have later: "\<forall>e \<in> set (drop k (ring_entries r)). 0 \<le> entry_frame e"
  proof (cases "has_initial r")
    case True
    with ge have "set (drop k (ring_entries r)) \<subseteq> set (tl (ring_entries r))"
      using set_drop_subset_set_drop [of 1 k "ring_entries r"] by (simp add: drop_Suc)
    with assms show ?thesis by (auto simp: ring_wf_def)
  next
    case False
    with assms show ?thesis by (meson in_set_dropD ring_wf_initial_frames)
  qed
  have hd: "has_initial r \<Longrightarrow> entry_frame (hd (ring_entries r)) = -1"
    by (auto simp: has_initial_def initial_checkpoint_frame_def split: list.splits)
  have bounds: "\<forall>e \<in> set (drop k (ring_entries r)). entry_frame e < 2 ^ 32"
    using assms by (meson in_set_dropD ring_wf_def)
  have "\<forall>e \<in> set (tl (drop k (ring_entries r))). 0 \<le> entry_frame e"
    using later by (cases "drop k (ring_entries r)") auto
  moreover have "ring_total (evict (evictable r) size_bytes r) =
      sum_list (map entry_size (ring_entries (evict (evictable r) size_bytes r)))"
    using assms by (intro evict_total) (simp add: ring_wf_def)
  ultimately show ?thesis
    using assms dropped later hd bounds unfolding ring_wf_def k
    by (auto simp: initial_checkpoint_frame_def)
qed


lemma store_cases:
  obtains (refused) "store r frame size_bytes = (r, False)"
      "unat (ring_budget r) <
         (if has_initial r then unat (entry_size (hd (ring_entries r))) else 0) + unat size_bytes"
  | (stored) r' where "r' = evict (evictable r) size_bytes r"
      "store r frame size_bytes =
         (r'\<lparr>ring_entries := insert_entry \<lparr>entry_frame = uint frame, entry_size = size_bytes\<rparr>
                             (ring_entries r'),
             ring_total := ring_total r' + size_bytes\<rparr>, True)"
      "(if has_initial r then unat (entry_size (hd (ring_entries r))) else 0) + unat size_bytes
         \<le> unat (ring_budget r)"
proof -
  define initial :: u64 where
    "initial = (if has_initial r then entry_size (hd (ring_entries r)) else 0)"
  have unat_initial: "unat initial = (if has_initial r then unat (entry_size (hd (ring_entries r))) else 0)"
    by (simp add: initial_def)
  have fits: "(ring_budget r < initial \<or> ring_budget r - initial < size_bytes) \<longleftrightarrow>
      unat (ring_budget r) < unat initial + unat size_bytes"
    by (cases "initial \<le> ring_budget r")
       (auto simp: word_less_nat_alt word_le_nat_alt unat_minus_le)
  show thesis
  proof (cases "unat (ring_budget r) < unat initial + unat size_bytes")
    case True
    then have "store r frame size_bytes = (r, False)"
      using fits by (simp add: store_def Let_def flip: initial_def)
    with True show thesis
      using refused by (simp add: unat_initial)
  next
    case False
    then have "store r frame size_bytes =
        (let r' = evict (evictable r) size_bytes r in
         (r'\<lparr>ring_entries := insert_entry \<lparr>entry_frame = uint frame, entry_size = size_bytes\<rparr>
                             (ring_entries r'),
             ring_total := ring_total r' + size_bytes\<rparr>, True))"
      using fits by (simp add: store_def Let_def flip: initial_def)
    with False show thesis
      using stored by (simp add: unat_initial Let_def)
  qed
qed

lemma ring_wf_store:
  assumes wf: "ring_wf r"
  shows "ring_wf (fst (store r frame size_bytes))"
proof (cases rule: store_cases [of r frame size_bytes])
  case refused
  with wf show ?thesis by simp
next
  case (stored r')
  let ?e = "\<lparr>entry_frame = uint frame, entry_size = size_bytes\<rparr>"
  have wf': "ring_wf r'"
    using wf stored(1) by (simp add: ring_wf_evict)
  have "\<forall>e \<in> set (tl (insert_entry ?e (ring_entries r'))). 0 \<le> entry_frame e"
  proof (cases "ring_entries r' = [] \<or> entry_frame ?e < entry_frame (hd (ring_entries r'))")
    case True
    have "\<forall>e \<in> set (ring_entries r'). entry_frame ?e < entry_frame e"
      using True wf' by (cases "ring_entries r'") (auto simp: ring_wf_def)
    moreover have "insert_entry ?e (ring_entries r') = ?e # ring_entries r'"
      using True by (cases "ring_entries r'") (auto simp: insert_entry_def)
    moreover have "0 \<le> uint frame" by simp
    ultimately show ?thesis by (auto intro: order_trans less_imp_le)
  next
    case False
    then show ?thesis
      using hd_insert_entry [of "ring_entries r'" ?e] wf' by (auto simp: ring_wf_def)
  qed
  moreover have "uint frame < 2 ^ 32" using uint_u32_bound [of frame] by simp
  ultimately show ?thesis
    using wf' stored(2)
    by (auto simp: ring_wf_def sorted_insert_entry initial_checkpoint_frame_def
          intro: order_trans [of "-1" 0])
qed

text \<open>
  The ring's byte budget. A checkpoint is stored only when, with the initial state, it fits; the
  older ones are dropped until it does. The 64-bit sum of the loop condition does not wrap as
  long as what is stored and the new checkpoint together stay below \<open>2 ^ 64\<close> bytes.
\<close>

lemma store_within_budget:
  assumes wf: "ring_wf r" and st: "store r frame size_bytes = (r', True)"
    and no_wrap: "ring_bytes r + unat size_bytes < 2 ^ 64"
  shows "ring_bytes r' \<le> unat (ring_budget r)"
proof (cases rule: store_cases [of r frame size_bytes])
  case refused
  with st show ?thesis by simp
next
  case (stored e)
  have wfe: "ring_wf e" and bytes: "ring_bytes e \<le> ring_bytes r"
    using wf stored(1) by (simp_all add: ring_wf_evict evict_bytes)
  have r': "ring_bytes r' = unat size_bytes + ring_bytes e"
    using stored(2) st by (auto simp: ring_bytes_def)
  have total: "unat (ring_total e) = ring_bytes e"
    using wfe bytes no_wrap by (intro unat_ring_total) auto
  consider "ring_total e + size_bytes \<le> ring_budget r" | "length (ring_entries e) \<le> evictable r"
    using evict_stops stored(1) by blast
  then show ?thesis
  proof cases
    case 1
    have "unat (ring_total e + size_bytes) = ring_bytes e + unat size_bytes"
      using total bytes no_wrap by (subst unat_plus_no_wrap) auto
    with 1 r' show ?thesis by (simp add: word_le_nat_alt)
  next
    case 2
    obtain k where "ring_entries e =
        (if has_initial r then [hd (ring_entries r)] else []) @ drop k (ring_entries r)"
      using evict_keeps [of r size_bytes] stored(1) by blast
    with 2 have "ring_bytes e = (if has_initial r then unat (entry_size (hd (ring_entries r))) else 0)"
      by (auto simp: ring_bytes_def split: if_splits)
    with r' stored(3) show ?thesis by simp
  qed
qed

lemma store_has_initial:
  assumes wf: "ring_wf r" and st: "store r frame size_bytes = (r', ok)" and init: "has_initial r"
  shows "has_initial r' \<and> entry_size (hd (ring_entries r')) = entry_size (hd (ring_entries r))"
proof (cases rule: store_cases [of r frame size_bytes])
  case refused
  with st init show ?thesis by simp
next
  case (stored e)
  obtain k where k: "ring_entries e = hd (ring_entries r) # drop k (ring_entries r)"
    using evict_keeps [of r size_bytes] stored(1) init by auto
  have "entry_frame (hd (ring_entries r)) = -1"
    using init by (auto simp: has_initial_def initial_checkpoint_frame_def split: list.splits)
  then have "hd (insert_entry \<lparr>entry_frame = uint frame, entry_size = size_bytes\<rparr> (ring_entries e)) =
      hd (ring_entries r)"
    using hd_insert_entry [of "ring_entries e"] k by (simp add: order_trans [of "-1" 0])
  moreover have "insert_entry \<lparr>entry_frame = uint frame, entry_size = size_bytes\<rparr> (ring_entries e) \<noteq> []"
    by (simp add: insert_entry_def)
  ultimately show ?thesis
    using stored(2) st init \<open>entry_frame (hd (ring_entries r)) = -1\<close>
    by (cases "insert_entry \<lparr>entry_frame = uint frame, entry_size = size_bytes\<rparr> (ring_entries e)")
       (auto simp: has_initial_def initial_checkpoint_frame_def)
qed

lemma store_frames:
  assumes "store r frame size_bytes = (r', True)"
  shows "uint frame \<in> ring_frames r' \<and> ring_frames r' \<subseteq> insert (uint frame) (ring_frames r)"
proof (cases rule: store_cases [of r frame size_bytes])
  case refused
  with assms show ?thesis by simp
next
  case (stored e)
  obtain k where "ring_entries e =
      (if has_initial r then [hd (ring_entries r)] else []) @ drop k (ring_entries r)"
    using evict_keeps [of r size_bytes] stored(1) by blast
  moreover have "has_initial r \<Longrightarrow> hd (ring_entries r) \<in> set (ring_entries r)"
    by (auto simp: has_initial_def split: list.splits)
  ultimately have "set (ring_entries e) \<subseteq> set (ring_entries r)"
    by (auto dest: in_set_dropD)
  with stored(2) assms show ?thesis by (auto simp: ring_frames_def)
qed


section \<open>Lookup\<close>

text \<open>
  What the users of the ring rely on: a lookup gives the largest stored frame that is not after
  the requested one, and fails only when every stored frame is later.
\<close>

locale checkpoint_source =
  fixes latest :: "'r \<Rightarrow> int \<Rightarrow> int option"
    and frames :: "'r \<Rightarrow> int set"
    and invar :: "'r \<Rightarrow> bool"
  assumes latest_SomeD: "invar r \<Longrightarrow> latest r f = Some c \<Longrightarrow> c \<in> frames r \<and> c \<le> f"
    and latest_greatest:
      "invar r \<Longrightarrow> latest r f = Some c \<Longrightarrow> c' \<in> frames r \<Longrightarrow> c' \<le> f \<Longrightarrow> c' \<le> c"
    and latest_NoneD: "invar r \<Longrightarrow> latest r f = None \<Longrightarrow> c' \<in> frames r \<Longrightarrow> f < c'"
    and frames_bounds: "invar r \<Longrightarrow> c' \<in> frames r \<Longrightarrow> -1 \<le> c' \<and> c' < 2 ^ 32"
begin

lemma latest_None_iff: "invar r \<Longrightarrow> latest r f = None \<longleftrightarrow> (\<forall>c \<in> frames r. f < c)"
  by (metis latest_NoneD latest_SomeD leD option.exhaust)

lemma latest_unique:
  assumes "invar r" and "c \<in> frames r" and "c \<le> f"
    and "\<And>c'. c' \<in> frames r \<Longrightarrow> c' \<le> f \<Longrightarrow> c' \<le> c"
  shows "latest r f = Some c"
proof (cases "latest r f")
  case None
  with assms(1-3) show ?thesis by (auto dest: latest_NoneD)
next
  case (Some d)
  then have "d \<in> frames r" and "d \<le> f"
    using assms(1) by (auto dest: latest_SomeD)
  then have "d \<le> c" by (rule assms(4))
  moreover have "c \<le> d"
    using assms(1-3) Some latest_greatest by blast
  ultimately show ?thesis using Some by simp
qed

end

lemma latest_fold:
  assumes "sorted (map entry_frame es)"
    and "fold (\<lambda>e found. if entry_frame e \<le> f then Some (entry_frame e) else found) es acc = res"
    and "\<forall>a. acc = Some a \<longrightarrow> a \<le> f \<and> (\<forall>e \<in> set es. a \<le> entry_frame e)"
  shows "(case res of
            None \<Rightarrow> acc = None \<and> (\<forall>e \<in> set es. f < entry_frame e)
          | Some c \<Rightarrow> c \<le> f \<and> (acc = Some c \<or> c \<in> entry_frame ` set es) \<and>
              (\<forall>e \<in> set es. entry_frame e \<le> f \<longrightarrow> entry_frame e \<le> c))"
  using assms
proof (induction es arbitrary: acc)
  case Nil
  then show ?case by (auto split: option.splits)
next
  case (Cons e es)
  show ?case
  proof (cases "entry_frame e \<le> f")
    case True
    have "\<forall>a. Some (entry_frame e) = Some a \<longrightarrow> a \<le> f \<and> (\<forall>x \<in> set es. a \<le> entry_frame x)"
      using True Cons.prems(1) by auto
    from Cons.IH [OF _ _ this] Cons.prems True show ?thesis
      by (fastforce split: option.splits)
  next
    case False
    have later: "\<forall>x \<in> set es. f < entry_frame x"
      using False Cons.prems(1) by force
    have "\<forall>a. acc = Some a \<longrightarrow> a \<le> f \<and> (\<forall>x \<in> set es. a \<le> entry_frame x)"
      using Cons.prems(3) by auto
    from Cons.IH [OF _ _ this] Cons.prems False later show ?thesis
      by (fastforce split: option.splits)
  qed
qed

lemma latest_at_most_spec:
  assumes "ring_wf r"
  shows "case latest_at_most r f of
           None \<Rightarrow> \<forall>c \<in> ring_frames r. f < c
         | Some c \<Rightarrow> c \<in> ring_frames r \<and> c \<le> f \<and> (\<forall>c' \<in> ring_frames r. c' \<le> f \<longrightarrow> c' \<le> c)"
  using latest_fold [of "ring_entries r" f None "latest_at_most r f"] assms
  by (auto simp: latest_at_most_def ring_wf_def ring_frames_def split: option.splits)

interpretation ring_source: checkpoint_source latest_at_most ring_frames ring_wf
proof
  fix r f c
  assume "ring_wf r" and "latest_at_most r f = Some c"
  with latest_at_most_spec [of r f] show "c \<in> ring_frames r \<and> c \<le> f" by simp
next
  fix r f c c'
  assume "ring_wf r" and "latest_at_most r f = Some c" and "c' \<in> ring_frames r" and "c' \<le> f"
  with latest_at_most_spec [of r f] show "c' \<le> c" by simp
next
  fix r f c'
  assume "ring_wf r" and "latest_at_most r f = None" and "c' \<in> ring_frames r"
  with latest_at_most_spec [of r f] show "f < c'" by simp
next
  fix r c'
  assume "ring_wf r" and "c' \<in> ring_frames r"
  then show "-1 \<le> c' \<and> c' < 2 ^ 32"
    by (auto simp: ring_wf_def ring_frames_def initial_checkpoint_frame_def)
qed

section \<open>Sequences of operations\<close>

datatype ring_event = Ring_store_initial u64 | Ring_store u32 u64

fun ring_step :: "checkpoint_ring \<Rightarrow> ring_event \<Rightarrow> checkpoint_ring" where
  "ring_step r (Ring_store_initial size_bytes) = store_initial r size_bytes"
| "ring_step r (Ring_store frame size_bytes) = fst (store r frame size_bytes)"

interpretation ring_machine: machine ring_step ring_wf
proof
  fix r e
  assume "ring_wf r"
  then show "ring_wf (ring_step r e)"
    by (cases e) (simp_all add: ring_wf_store_initial ring_wf_store)
qed

text \<open>
  After the initial state is stored, later stores stay within the budget: the ring holds at most
  \<open>ring_budget\<close> bytes, as long as the budget itself is below \<open>2 ^ 63\<close> (it is 512 MiB in the program).
\<close>

definition ring_budgeted :: "checkpoint_ring \<Rightarrow> bool" where
  "ring_budgeted r \<longleftrightarrow>
     ring_wf r \<and> has_initial r \<and> unat (ring_budget r) < 2 ^ 63 \<and> ring_bytes r \<le> unat (ring_budget r)"

fun is_ring_store :: "ring_event \<Rightarrow> bool" where
  "is_ring_store (Ring_store _ _) = True"
| "is_ring_store _ = False"

lemma store_budget_field [simp]: "ring_budget (fst (store r frame size_bytes)) = ring_budget r"
  by (simp add: store_def Let_def)

lemma ring_budgeted_store:
  assumes "ring_budgeted r"
  shows "ring_budgeted (fst (store r frame size_bytes))"
proof -
  obtain r' ok where st: "store r frame size_bytes = (r', ok)" by fastforce
  have wf: "ring_wf r" and init: "has_initial r"
    using assms by (simp_all add: ring_budgeted_def)
  have "ring_bytes r' \<le> unat (ring_budget r)"
  proof (cases ok)
    case True
    then have "unat size_bytes \<le> unat (ring_budget r)"
      using st by (cases rule: store_cases [of r frame size_bytes]) (auto split: if_splits)
    then have "ring_bytes r + unat size_bytes < 2 ^ 64"
      using assms by (simp add: ring_budgeted_def)
    then show ?thesis
      using wf st True by (intro store_within_budget) auto
  next
    case False
    then have "r' = r"
      using st by (cases rule: store_cases [of r frame size_bytes]) auto
    then show ?thesis using assms by (simp add: ring_budgeted_def)
  qed
  moreover have "has_initial r'"
    using store_has_initial [OF wf st init] by simp
  ultimately show ?thesis
    using assms st ring_wf_store [OF wf, of frame size_bytes]
      store_budget_field [of r frame size_bytes]
    by (simp add: ring_budgeted_def)
qed

interpretation ring_budget_machine:
  guarded_machine ring_step "\<lambda>_. is_ring_store" ring_budgeted
proof
  fix r e
  assume "ring_budgeted r" and "is_ring_store e"
  then show "ring_budgeted (ring_step r e)"
    by (cases e) (simp_all add: ring_budgeted_store)
qed


section \<open>Properties\<close>

text \<open>
  C25: The ring never holds more bytes than its budget. Starting from a fresh ring whose initial
  state fits, every sequence of \<open>store\<close> calls, whatever frames and sizes it names, keeps the
  entries ordered, keeps the initial state, and keeps the sum of the stored sizes (the true sum,
  not the 64-bit counter) within the budget.
\<close>

theorem ring_run_within_budget:
  assumes "unat budget_bytes < 2 ^ 63" and "size_bytes \<le> budget_bytes"
    and "\<forall>e \<in> set es. is_ring_store e"
    and "r = exec ring_step (store_initial (make_ring interval budget_bytes) size_bytes) es"
  shows "ring_wf r \<and> has_initial r \<and> ring_bytes r \<le> unat budget_bytes \<and>
    unat (ring_total r) = ring_bytes r"
proof -
  let ?r0 = "store_initial (make_ring interval budget_bytes) size_bytes"
  have start: "ring_budgeted ?r0"
    using assms(1,2) ring_wf_store_initial [OF ring_wf_make, of interval budget_bytes size_bytes]
    by (simp add: ring_budgeted_def store_initial_def make_ring_def has_initial_def ring_bytes_def
          initial_checkpoint_frame_def word_le_nat_alt)
  have run: "admissible_run ring_step (\<lambda>_. is_ring_store) q es" for q
    using assms(3) by (induction es arbitrary: q) auto
  have inv: "ring_budgeted r"
    unfolding assms(4) using start run by (rule ring_budget_machine.invar_exec)
  have "ring_budget (ring_step q e) = ring_budget q" for q e
    by (cases e) (simp_all add: store_initial_def Let_def)
  then have "ring_budget (exec ring_step q es) = ring_budget q" for q
    by (induction es arbitrary: q) auto
  then have budget: "ring_budget r = budget_bytes"
    by (simp add: assms(4) store_initial_def make_ring_def has_initial_def)
  have "ring_bytes r < 2 ^ 64"
    using inv assms(1) by (simp add: ring_budgeted_def)
  with inv budget show ?thesis
    by (simp add: ring_budgeted_def unat_ring_total)
qed

theorem ring_run_within_budget_witness:
  "ring_bytes (exec ring_step (store_initial (make_ring 2 100) 10)
     [Ring_store 1 40, Ring_store 3 40, Ring_store 5 30]) \<le> 100"
proof -
  have "unat (100 :: u64) < 2 ^ 63" and "(10 :: u64) \<le> 100" by simp_all
  from ring_run_within_budget [OF this, where interval = 2 and
      es = "[Ring_store 1 40, Ring_store 3 40, Ring_store 5 30]"]
  show ?thesis by simp
qed

text \<open>
  \<open>store\<close> refuses exactly the checkpoints that can never fit beside the initial state, and then
  changes nothing. Otherwise it keeps the initial entry, drops a first stretch of the other
  entries (the oldest ones) and inserts the new one at the place of its frame.
\<close>

theorem store_refuses_or_inserts:
  "case store r frame size_bytes of (r', ok) \<Rightarrow>
     (ok \<longleftrightarrow> (if has_initial r then unat (entry_size (hd (ring_entries r))) else 0) + unat size_bytes
             \<le> unat (ring_budget r)) \<and>
     (if ok
      then \<exists>k. ring_entries r' =
             insert_entry \<lparr>entry_frame = uint frame, entry_size = size_bytes\<rparr>
               ((if has_initial r then [hd (ring_entries r)] else []) @ drop k (ring_entries r))
      else r' = r)"
proof (cases rule: store_cases [of r frame size_bytes])
  case refused
  then show ?thesis by simp
next
  case (stored e)
  obtain k where "ring_entries e =
      (if has_initial r then [hd (ring_entries r)] else []) @ drop k (ring_entries r)"
    using evict_keeps [of r size_bytes] stored(1) by blast
  with stored(2,3) show ?thesis by auto
qed

end
