(* ===== verification/Recovery_Planner.thy ===== *)
theory Recovery_Planner
  imports Checkpoint_Ring
begin

text \<open>
  How a frame is reached from the confirmed one:
  \<^verbatim>\<open>src/replay_inspection/recovery_planner.{h,cpp}\<close>.

  The planner relies on the ring only through its lookup, so its lemmas are proved once against
  the interface \<open>checkpoint_source\<close> and reach the ring by its interpretation. The main result is
  semantic: executing the plan gives the state that linear playback gives at the target.
\<close>

section \<open>The plan\<close>

datatype recovery_kind = Recovery_step | Recovery_restore | Recovery_impossible

record recovery_plan =
  plan_kind :: recovery_kind
  plan_checkpoint :: int
  plan_replay_from :: u32
  plan_replay_to :: u32

definition no_plan :: recovery_plan where
  "no_plan = \<lparr>plan_kind = Recovery_impossible, plan_checkpoint = initial_checkpoint_frame,
              plan_replay_from = 0, plan_replay_to = 0\<rparr>"

definition plan_recovery_with :: "(int \<Rightarrow> int option) \<Rightarrow> u32 \<Rightarrow> u32 \<Rightarrow> recovery_plan" where
  "plan_recovery_with latest confirmed target =
     (if target = confirmed + 1 then
        \<lparr>plan_kind = Recovery_step, plan_checkpoint = uint confirmed,
         plan_replay_from = target, plan_replay_to = target\<rparr>
      else
        (case latest (uint target - 1) of
           None \<Rightarrow> no_plan
         | Some checkpoint \<Rightarrow>
             \<lparr>plan_kind = Recovery_restore, plan_checkpoint = checkpoint,
              plan_replay_from = word_of_int (checkpoint + 1), plan_replay_to = target\<rparr>))"

definition plan_recovery :: "checkpoint_ring \<Rightarrow> u32 \<Rightarrow> u32 \<Rightarrow> recovery_plan" where
  "plan_recovery r confirmed target = plan_recovery_with (latest_at_most r) confirmed target"

section \<open>What executing a plan does\<close>

text \<open>
  The state of the emulation after the first \<open>n\<close> frames of a take, for any deterministic frame
  production; the state after frame \<open>k\<close> is \<open>state_after produce s0 (k + 1)\<close>, and the initial state
  is the one after frame -1. Executing a plan starts from the state after the plan's checkpoint
  and produces the frames from \<open>plan_replay_from\<close> to \<open>plan_replay_to\<close>.
\<close>

fun state_after :: "('s \<Rightarrow> int \<Rightarrow> 's) \<Rightarrow> 's \<Rightarrow> nat \<Rightarrow> 's" where
  "state_after produce s0 0 = s0"
| "state_after produce s0 (Suc n) = produce (state_after produce s0 n) (int n)"

definition state_at_frame :: "('s \<Rightarrow> int \<Rightarrow> 's) \<Rightarrow> 's \<Rightarrow> int \<Rightarrow> 's" where
  "state_at_frame produce s0 k = state_after produce s0 (nat (k + 1))"

definition execute_plan :: "('s \<Rightarrow> int \<Rightarrow> 's) \<Rightarrow> 's \<Rightarrow> recovery_plan \<Rightarrow> 's" where
  "execute_plan produce s0 p =
     foldl produce (state_at_frame produce s0 (plan_checkpoint p))
       [uint (plan_replay_from p)..uint (plan_replay_to p)]"

lemma replay_frames:
  assumes "-1 \<le> c"
  shows "foldl produce (state_at_frame produce s0 c) [c + 1..c + int n] =
    state_at_frame produce s0 (c + int n)"
proof (induction n)
  case 0
  show ?case by simp
next
  case (Suc n)
  have "[c + 1..c + int (Suc n)] = [c + 1..c + int n] @ [c + int n + 1]"
    using upto_rec2 [of "c + 1" "c + int (Suc n)"] by (simp add: algebra_simps)
  with Suc have "foldl produce (state_at_frame produce s0 c) [c + 1..c + int (Suc n)] =
      produce (state_at_frame produce s0 (c + int n)) (c + int n + 1)"
    by simp
  moreover have "nat (c + int (Suc n) + 1) = Suc (nat (c + int n + 1))"
    using assms by simp
  ultimately show ?case
    using assms by (simp add: state_at_frame_def)
qed

lemma uint_succ_u32:
  assumes "uint (x :: u32) < 2 ^ 32 - 1"
  shows "uint (x + 1) = uint x + 1"
  using assms by (simp add: uint_word_ariths)

lemma uint_of_checkpoint:
  assumes "-1 \<le> c" and "c < 2 ^ 32 - 1"
  shows "uint (word_of_int (c + 1) :: u32) = c + 1"
  using assms by (simp only: uint_word_of_int) simp

context checkpoint_source
begin

lemma plan_restore:
  assumes inv: "invar r" and kind: "plan_kind (plan_recovery_with (latest r) confirmed target) = Recovery_restore"
  obtains c where "latest r (uint target - 1) = Some c" "c \<in> frames r" "-1 \<le> c" "c < uint target"
    "plan_recovery_with (latest r) confirmed target =
       \<lparr>plan_kind = Recovery_restore, plan_checkpoint = c,
        plan_replay_from = word_of_int (c + 1), plan_replay_to = target\<rparr>"
    "uint (plan_replay_from (plan_recovery_with (latest r) confirmed target)) = c + 1"
proof -
  from kind obtain c where c: "target \<noteq> confirmed + 1" "latest r (uint target - 1) = Some c"
    by (auto simp: plan_recovery_with_def no_plan_def split: if_splits option.splits)
  have "c \<in> frames r" and le: "c \<le> uint target - 1"
    using inv c latest_SomeD by blast+
  moreover have "-1 \<le> c"
    using inv \<open>c \<in> frames r\<close> frames_bounds by blast
  moreover have "c < 2 ^ 32 - 1"
    using order_le_less_trans [OF le, of "2 ^ 32 - 1"] uint_u32_bound [of target] by simp
  ultimately show thesis
    using that c uint_of_checkpoint [of c] by (simp add: plan_recovery_with_def)
qed

lemma plan_reaches:
  assumes inv: "invar r" and confirmed: "uint confirmed < 2 ^ 32 - 1"
    and possible: "plan_kind (plan_recovery_with (latest r) confirmed target) \<noteq> Recovery_impossible"
  shows "execute_plan produce s0 (plan_recovery_with (latest r) confirmed target) =
    state_at_frame produce s0 (uint target)"
proof (cases "plan_kind (plan_recovery_with (latest r) confirmed target)")
  case Recovery_step
  then have target: "target = confirmed + 1"
    by (auto simp: plan_recovery_with_def no_plan_def split: if_splits option.splits)
  then have "uint target = uint confirmed + 1"
    using confirmed by (simp add: uint_succ_u32)
  then show ?thesis
    using replay_frames [of "uint confirmed" produce s0 1] target
    by (simp add: execute_plan_def plan_recovery_with_def order_trans [of "-1" 0])
next
  case Recovery_restore
  with inv obtain c where c: "-1 \<le> c" "c < uint target"
    "plan_recovery_with (latest r) confirmed target =
       \<lparr>plan_kind = Recovery_restore, plan_checkpoint = c,
        plan_replay_from = word_of_int (c + 1), plan_replay_to = target\<rparr>"
    "uint (plan_replay_from (plan_recovery_with (latest r) confirmed target)) = c + 1"
    by (rule plan_restore)
  moreover have "uint target = c + int (nat (uint target - c))"
    using c(2) by simp
  ultimately show ?thesis
    using replay_frames [of c produce s0 "nat (uint target - c)"]
    by (simp add: execute_plan_def)
next
  case Recovery_impossible
  with possible show ?thesis by simp
qed

lemma plan_impossible_iff:
  assumes "invar r"
  shows "plan_kind (plan_recovery_with (latest r) confirmed target) = Recovery_impossible \<longleftrightarrow>
    target \<noteq> confirmed + 1 \<and> (\<forall>c \<in> frames r. uint target \<le> c)"
proof -
  have "plan_kind (plan_recovery_with (latest r) confirmed target) = Recovery_impossible \<longleftrightarrow>
      target \<noteq> confirmed + 1 \<and> latest r (uint target - 1) = None"
    by (auto simp: plan_recovery_with_def no_plan_def split: option.splits)
  moreover have "(\<forall>c \<in> frames r. uint target - 1 < c) \<longleftrightarrow> (\<forall>c \<in> frames r. uint target \<le> c)"
    by auto
  ultimately show ?thesis
    using latest_None_iff [OF assms] by simp
qed

lemma plan_shortest:
  assumes inv: "invar r" and kind: "plan_kind (plan_recovery_with (latest r) confirmed target) = Recovery_restore"
    and stored: "c' \<in> frames r" "c' < uint target"
  shows "c' \<le> plan_checkpoint (plan_recovery_with (latest r) confirmed target)"
proof -
  obtain c where c: "latest r (uint target - 1) = Some c"
    "plan_recovery_with (latest r) confirmed target =
       \<lparr>plan_kind = Recovery_restore, plan_checkpoint = c,
        plan_replay_from = word_of_int (c + 1), plan_replay_to = target\<rparr>"
    using inv kind by (rule plan_restore)
  from stored(2) have "c' \<le> uint target - 1" by simp
  with inv c(1) stored(1) have "c' \<le> c" by (rule latest_greatest)
  with c(2) show ?thesis by simp
qed

end

section \<open>Properties\<close>

lemma initial_frame_stored: "has_initial r \<Longrightarrow> initial_checkpoint_frame \<in> ring_frames r"
  by (force simp: has_initial_def ring_frames_def split: list.splits)

text \<open>
  C5: Executing the plan of \<open>plan_recovery\<close> gives exactly the state that producing the take
  linearly up to the target gives, for every deterministic production of frames: a step produces
  the target from the confirmed state, and a restore replays from the chosen checkpoint.
\<close>

theorem plan_recovery_reaches_target:
  assumes "ring_wf r" and "uint confirmed < 2 ^ 32 - 1"
    and "plan_kind (plan_recovery r confirmed target) \<noteq> Recovery_impossible"
  shows "execute_plan produce s0 (plan_recovery r confirmed target) =
    state_at_frame produce s0 (uint target)"
  using assms unfolding plan_recovery_def by (rule ring_source.plan_reaches)

definition example_ring :: checkpoint_ring where
  "example_ring = exec ring_step (make_ring 2 100)
     [Ring_store_initial 10, Ring_store 1 40, Ring_store 3 40, Ring_store 5 30]"

lemma example_ring_entries:
  "ring_entries example_ring =
     [\<lparr>entry_frame = -1, entry_size = 10\<rparr>, \<lparr>entry_frame = 3, entry_size = 40\<rparr>,
      \<lparr>entry_frame = 5, entry_size = 30\<rparr>]"
  by (simp add: example_ring_def make_ring_def store_initial_def store_def has_initial_def
        initial_checkpoint_frame_def evict.simps erase_entry_def insert_entry_def Let_def)

lemma example_ring_wf: "ring_wf example_ring"
  unfolding example_ring_def by (rule ring_machine.invar_run [OF ring_wf_make])

theorem plan_recovery_reaches_target_witness:
  "execute_plan (\<lambda>s k. k # s) [] (plan_recovery example_ring 9 5) = [5, 4, 3, 2, 1, 0]"
proof -
  have kind: "plan_kind (plan_recovery example_ring 9 5) \<noteq> Recovery_impossible"
    by (simp add: plan_recovery_def plan_recovery_with_def latest_at_most_def example_ring_entries)
  have "uint (9 :: u32) < 2 ^ 32 - 1" by simp
  from plan_recovery_reaches_target [OF example_ring_wf this kind]
  have "execute_plan (\<lambda>s k. k # s) [] (plan_recovery example_ring 9 5) =
      state_at_frame (\<lambda>s k. k # s) [] (uint (5 :: u32))" .
  also have "\<dots> = [5, 4, 3, 2, 1, 0]"
    by (simp add: state_at_frame_def) (simp add: eval_nat_numeral)
  finally show ?thesis .
qed



end
