(* ===== verification/Key_Router.thy ===== *)
theory Key_Router
  imports Prelude
begin

text \<open>
  The keys of the inspection window: \<^verbatim>\<open>src/replay_inspection/key_router.{h,cpp}\<close>.

  A router turns presses into actions, at most one per physical press. The two C++ arrays indexed
  by key are functions from keys here; the events of the window (a key going down, a key going up,
  the focus changing) are the events of the machine.
\<close>

section \<open>State and operations\<close>

datatype key = Key_space | Key_left | Key_right | Key_up | Key_down | Key_info | Key_other

datatype key_action = Action_toggle | Action_left | Action_right | Action_info

record key_router =
  pressed :: "key \<Rightarrow> bool"
  blocked :: "key \<Rightarrow> bool"
  focused :: bool
  arrows_locked :: bool

definition make_key_router :: key_router where
  "make_key_router =
     \<lparr>pressed = (\<lambda>_. False), blocked = (\<lambda>_. False), focused = True, arrows_locked = False\<rparr>"

fun other_arrow :: "key \<Rightarrow> key" where
  "other_arrow k = (if k = Key_left then Key_right else Key_left)"

text \<open>The \<open>switch\<close> of \<open>key_down\<close>, on the router with the press already recorded.\<close>

fun press_action :: "key_router \<Rightarrow> key \<Rightarrow> key_router \<times> key_action option" where
  "press_action r Key_space = (r, Some Action_toggle)"
| "press_action r Key_info = (r, Some Action_info)"
| "press_action r Key_left =
     (let r' = (if pressed r Key_right then r\<lparr>arrows_locked := True\<rparr> else r)
      in (r', if arrows_locked r' then None else Some Action_left))"
| "press_action r Key_right =
     (let r' = (if pressed r Key_left then r\<lparr>arrows_locked := True\<rparr> else r)
      in (r', if arrows_locked r' then None else Some Action_right))"
| "press_action r Key_up = (r, None)"
| "press_action r Key_down = (r, None)"
| "press_action r Key_other = (r, None)"

definition key_down :: "key_router \<Rightarrow> key \<Rightarrow> bool \<Rightarrow> bool \<Rightarrow> key_router \<times> key_action option" where
  "key_down r k repeat captured =
     (if k = Key_other then (r, None)
      else
        (let already_pressed = pressed r k;
             r' = r\<lparr>pressed := (pressed r)(k := True)\<rparr>
         in if repeat \<or> already_pressed \<or> \<not> focused r' \<or> blocked r' k then (r', None)
            else if captured then (r'\<lparr>blocked := (blocked r')(k := True)\<rparr>, None)
            else press_action r' k))"

definition key_up :: "key_router \<Rightarrow> key \<Rightarrow> key_router" where
  "key_up r k =
     (if k = Key_other then r
      else
        (let r' = r\<lparr>pressed := (pressed r)(k := False), blocked := (blocked r)(k := False)\<rparr>
         in if \<not> pressed r' Key_left \<and> \<not> pressed r' Key_right
            then r'\<lparr>arrows_locked := False\<rparr> else r'))"

definition focus :: "key_router \<Rightarrow> bool \<Rightarrow> key_router" where
  "focus r value =
     (let r' = (if value \<and> \<not> focused r then r\<lparr>blocked := pressed r\<rparr> else r)
      in r'\<lparr>focused := value\<rparr>)"

datatype key_event = Down key bool bool | Up key | Focus bool

fun key_event_step :: "key_router \<Rightarrow> key_event \<Rightarrow> key_router \<times> key_action option" where
  "key_event_step r (Down k repeat captured) = key_down r k repeat captured"
| "key_event_step r (Up k) = (key_up r k, None)"
| "key_event_step r (Focus value) = (focus r value, None)"

definition router_next :: "key_router \<Rightarrow> key_event \<Rightarrow> key_router" where
  "router_next r e = fst (key_event_step r e)"

fun actions :: "key_router \<Rightarrow> key_event list \<Rightarrow> key_action list" where
  "actions r [] = []"
| "actions r (e # es) =
     (case snd (key_event_step r e) of None \<Rightarrow> [] | Some a \<Rightarrow> [a]) @ actions (router_next r e) es"

lemmas router_defs = key_down_def key_up_def focus_def Let_def router_next_def

section \<open>Invariant\<close>

text \<open>
  A key that is blocked is held, and while the arrows are locked at least one of them is held.
\<close>

definition router_wf :: "key_router \<Rightarrow> bool" where
  "router_wf r \<longleftrightarrow>
     (\<forall>k. blocked r k \<longrightarrow> pressed r k) \<and>
     \<not> pressed r Key_other \<and>
     (arrows_locked r \<longrightarrow> pressed r Key_left \<or> pressed r Key_right)"

lemma router_wf_init: "router_wf make_key_router"
  by (simp add: router_wf_def make_key_router_def)

lemma press_action_fields [simp]:
  "pressed (fst (press_action r k)) = pressed r"
  "blocked (fst (press_action r k)) = blocked r"
  "focused (fst (press_action r k)) = focused r"
  by (cases k; simp add: Let_def)+

lemma press_action_locked:
  "arrows_locked (fst (press_action r k)) \<longleftrightarrow>
     arrows_locked r \<or> k = Key_left \<and> pressed r Key_right \<or> k = Key_right \<and> pressed r Key_left"
  by (cases k) (auto simp: Let_def)

lemma router_wf_step: "router_wf r \<Longrightarrow> router_wf (router_next r e)"
  by (cases e) (auto simp: router_defs router_wf_def press_action_locked)

interpretation router_machine: machine router_next router_wf
  by unfold_locales (rule router_wf_step)

section \<open>Which press gives which action\<close>

lemma action_key:
  assumes "snd (key_down r k repeat captured) = Some a"
  shows "\<not> repeat \<and> \<not> captured \<and> focused r \<and> \<not> pressed r k \<and> \<not> blocked r k \<and>
    a = (case k of Key_space \<Rightarrow> Action_toggle | Key_left \<Rightarrow> Action_left | Key_right \<Rightarrow> Action_right
         | _ \<Rightarrow> Action_info) \<and> k \<in> {Key_space, Key_left, Key_right, Key_info} \<and>
    (k \<in> {Key_left, Key_right} \<longrightarrow> \<not> arrows_locked r \<and> \<not> pressed r (other_arrow k))"
  using assms
  by (cases k) (auto simp: key_down_def Let_def split: if_splits)

lemma pressed_after_event:
  "pressed (router_next r e) k \<longleftrightarrow>
     (case e of
        Down k' _ _ \<Rightarrow> k = k' \<and> k \<noteq> Key_other \<or> pressed r k
      | Up k' \<Rightarrow> pressed r k \<and> (k \<noteq> k' \<or> k = Key_other)
      | Focus _ \<Rightarrow> pressed r k)"
  by (cases e) (auto simp: router_defs)

lemma pressed_step:
  "pressed r k \<Longrightarrow> k \<noteq> Key_other \<Longrightarrow> Up k \<noteq> e \<Longrightarrow> pressed (router_next r e) k"
  by (auto simp: pressed_after_event split: key_event.splits)

lemma pressed_stays:
  assumes "pressed r k" and "k \<noteq> Key_other" and "Up k \<notin> set es"
  shows "pressed (exec router_next r es) k"
  using assms
  by (induction es arbitrary: r) (auto intro: pressed_step)

text \<open>While a key is held no further press of it gives an action.\<close>

fun event_key :: "key_event \<Rightarrow> key option" where
  "event_key (Down k _ _) = Some k"
| "event_key _ = None"

lemma held_key_silent:
  assumes "pressed r k" and "event_key e = Some k"
  shows "snd (key_event_step r e) = None"
  using assms by (cases e) (auto simp: key_down_def Let_def)

section \<open>Properties\<close>

text \<open>
  C37: At most one action per physical press. After a key went down, no event of that key gives an
  action until the key is released, whatever happens in between (repeats, other keys, focus
  changes).
\<close>

theorem one_action_per_press:
  assumes "k \<noteq> Key_other" and "Up k \<notin> set es" and "event_key e = Some k"
  shows "snd (key_event_step (exec router_next (router_next r (Down k repeat captured)) es) e) = None"
proof -
  have "pressed (router_next r (Down k repeat captured)) k"
    using assms(1) by (simp add: pressed_after_event)
  then have "pressed (exec router_next (router_next r (Down k repeat captured)) es) k"
    using assms(1,2) by (intro pressed_stays)
  then show ?thesis
    using assms(3) by (rule held_key_silent)
qed

theorem one_action_per_press_witness:
  "snd (key_event_step (exec router_next
     (router_next make_key_router (Down Key_space False False)) [Focus False, Focus True])
     (Down Key_space False False)) = None"
  using one_action_per_press [of Key_space "[Focus False, Focus True]" "Down Key_space False False"]
  by simp

text \<open>
  Keys held when the window regains the focus, and keys whose press a control of the window
  took, give no action until they are released; without the focus nothing gives an action; and
  only Space, the horizontal arrows and I ever do.
\<close>

theorem only_fresh_focused_presses_act:
  assumes "router_wf r" and "snd (key_event_step r e) = Some a"
  shows "\<exists>k. e = Down k False False \<and> k \<in> {Key_space, Key_left, Key_right, Key_info} \<and>
    focused r \<and> \<not> pressed r k \<and> \<not> blocked r k \<and>
    (a = Action_left \<longrightarrow> k = Key_left \<and> \<not> pressed r Key_right) \<and>
    (a = Action_right \<longrightarrow> k = Key_right \<and> \<not> pressed r Key_left)"
proof (cases e)
  case (Down k repeat captured)
  with assms(2) action_key [of r k repeat captured a] show ?thesis
    by (cases k) auto
qed (use assms(2) in auto)

theorem only_fresh_focused_presses_act_witness:
  "focused make_key_router \<and> snd (key_event_step make_key_router (Down Key_left False False)) = Some Action_left"
proof -
  have "snd (key_event_step make_key_router (Down Key_left False False)) = Some Action_left"
    by (simp add: make_key_router_def key_down_def Let_def)
  with only_fresh_focused_presses_act [OF router_wf_init this] show ?thesis by blast
qed


text \<open>
  The lock of the arrows: once both were held together, no arrow gives an action as long as one of
  them stays held; it ends only when both have been released.
\<close>

fun arrow_held_throughout :: "key_router \<Rightarrow> key_event list \<Rightarrow> bool" where
  "arrow_held_throughout r [] = True"
| "arrow_held_throughout r (e # es) =
     ((pressed (router_next r e) Key_left \<or> pressed (router_next r e) Key_right) \<and>
      arrow_held_throughout (router_next r e) es)"

lemma locked_step:
  assumes "arrows_locked r"
    and "pressed (router_next r e) Key_left \<or> pressed (router_next r e) Key_right"
  shows "arrows_locked (router_next r e)"
  using assms by (cases e) (auto simp: router_defs press_action_locked split: if_splits)

lemma locked_no_arrow:
  "arrows_locked r \<Longrightarrow> snd (key_event_step r e) \<noteq> Some Action_left \<and>
     snd (key_event_step r e) \<noteq> Some Action_right"
proof (cases e)
  case (Down k repeat captured)
  assume "arrows_locked r"
  with Down show ?thesis
    using action_key [of r k repeat captured] by (cases k) fastforce+
qed auto

lemma both_held_locks:
  assumes "snd (key_event_step r e) = None" and "e = Down k False False"
    and "k \<in> {Key_left, Key_right}" and "focused r" and "\<not> pressed r k" and "\<not> blocked r k"
  shows "arrows_locked (router_next r e)"
  using assms by (auto simp: router_defs split: if_splits)

text \<open>
  After both arrows were held together no arrow moves the take until both are released: from a
  locked router, as long as one arrow stays held, no sequence of events yields an arrow action.
\<close>

theorem locked_arrows_silent:
  assumes "arrows_locked r" and "arrow_held_throughout r es"
  shows "Action_left \<notin> set (actions r es) \<and> Action_right \<notin> set (actions r es)"
  using assms
proof (induction es arbitrary: r)
  case Nil
  then show ?case by simp
next
  case (Cons e es)
  have "arrows_locked (router_next r e)"
    using Cons.prems by (auto intro: locked_step)
  with Cons show ?case
    using locked_no_arrow [of r e] by (auto split: option.splits)
qed

theorem locked_arrows_silent_witness:
  "Action_right \<notin> set (actions
     (exec router_next make_key_router [Down Key_left False False, Down Key_right False False])
     [Up Key_right, Down Key_right False False])"
proof -
  let ?r = "exec router_next make_key_router [Down Key_left False False, Down Key_right False False]"
  have "arrows_locked ?r"
    and "arrow_held_throughout ?r [Up Key_right, Down Key_right False False]"
    by (simp_all add: router_defs make_key_router_def)
  from locked_arrows_silent [OF this] show ?thesis by simp
qed

end
