(* ===== verification/Inspection_State.thy ===== *)
theory Inspection_State
  imports Key_Router
begin

text \<open>
  The inspection state machine: \<^verbatim>\<open>src/replay_inspection/inspection_state.{h,cpp}\<close>.

  The controller receives routed keys, frame completions, recovery results, the health of the
  presentation and the cancellation, and returns the orders for the adapter. Every method is one
  function from a controller to a controller and the commands the method returns; the guards and
  early returns are the ones of the code. The cadence of the playback and the decision to start a
  frame are at the end.
\<close>

section \<open>State\<close>

datatype inspection_phase =
  Preparing | Playing | Pausing | Paused | Recovering | Interrupted | Closing | Failed

datatype command_kind =
  Present_frame | Recover_frame | Pause_audio | Resume_audio | Notice_command | Toggle_debug |
  Inspection_event | Confirm_linear_result | Advance_take | Finish_traversal | Close_command

datatype notice =
  Notice_none | Not_available | Busy | Recovery_failed | Notice_interrupted | No_next_frame

record command =
  command_kind :: command_kind
  command_frame :: u32
  command_notice :: notice
  command_control :: string

datatype recovery_outcome = Presented | Failed_restored | Failed_unrecoverable

datatype frame_activity = Between_frames | Producing

record controller =
  frames :: u32
  last_take :: bool
  phase :: inspection_phase
  position :: "u32 option"
  target :: "u32 option"
  debug_visible :: bool
  inspected :: bool
  ended_naturally :: bool
  take_end_pending_flag :: bool
  interruption_cause :: string

definition make_controller :: "u32 \<Rightarrow> bool \<Rightarrow> controller" where
  "make_controller n is_last =
     \<lparr>frames = n, last_take = is_last, phase = Preparing, position = None, target = None,
      debug_visible = False, inspected = False, ended_naturally = False,
      take_end_pending_flag = False, interruption_cause = ''''\<rparr>"

definition may_run_frame :: "controller \<Rightarrow> bool" where
  "may_run_frame c \<longleftrightarrow> phase c = Playing \<and> \<not> take_end_pending_flag c"

definition take_end_pending :: "controller \<Rightarrow> bool" where
  "take_end_pending c \<longleftrightarrow> phase c = Playing \<and> take_end_pending_flag c"

definition next_frame :: "controller \<Rightarrow> u32" where
  "next_frame c = (case position c of Some p \<Rightarrow> p + 1 | None \<Rightarrow> 0)"

definition position_or_0 :: "controller \<Rightarrow> u32" where
  "position_or_0 c = (case position c of Some p \<Rightarrow> p | None \<Rightarrow> 0)"

section \<open>Operations\<close>

definition order :: "command_kind \<Rightarrow> u32 \<Rightarrow> command" where
  "order kind frame =
     \<lparr>command_kind = kind, command_frame = frame, command_notice = Notice_none, command_control = ''''\<rparr>"

definition notice_command :: "notice \<Rightarrow> command" where
  "notice_command value =
     \<lparr>command_kind = Notice_command, command_frame = 0, command_notice = value, command_control = ''''\<rparr>"

definition event :: "string \<Rightarrow> u32 \<Rightarrow> command list" where
  "event control frame =
     [\<lparr>command_kind = Inspection_event, command_frame = frame, command_notice = Notice_none,
       command_control = control\<rparr>]"

definition prepared :: "controller \<Rightarrow> controller \<times> command list" where
  "prepared c = (if phase c = Preparing then c\<lparr>phase := Playing\<rparr> else c, [])"

definition pause_at :: "controller \<Rightarrow> u32 \<Rightarrow> controller \<times> command list" where
  "pause_at c frame =
     (c\<lparr>phase := Paused, position := Some frame\<rparr>,
      [order Present_frame frame, order Pause_audio frame] @ event ''pause'' frame)"

text \<open>The part of \<open>key\<close> that follows the \<open>switch\<close>: the take is paused.\<close>

definition key_paused :: "controller \<Rightarrow> key_action \<Rightarrow> controller \<times> command list" where
  "key_paused c action =
     (let frame = position_or_0 c in
      if action = Action_toggle then
        if frame + 1 < frames c \<and> \<not> ended_naturally c then
          (c\<lparr>phase := Playing\<rparr>, order Resume_audio (frame + 1) # event ''resume'' frame)
        else if \<not> last_take c then
          (c\<lparr>phase := Closing\<rparr>, event ''advance_take'' frame @ [order Advance_take frame])
        else (c, [notice_command No_next_frame])
      else
        (let back = (action = Action_left) in
         if back \<and> frame = 0 \<or> \<not> back \<and> frames c \<le> frame + 1 then (c, [])
         else
           (let goal = (if back then frame - 1 else frame + 1)
            in (c\<lparr>target := Some goal, phase := Recovering, inspected := True\<rparr>,
                order Recover_frame goal #
                event (if back then ''step_back'' else ''step_forward'') goal))))"

definition key :: "controller \<Rightarrow> key_action \<Rightarrow> frame_activity \<Rightarrow> controller \<times> command list" where
  "key c action activity =
     (if phase c = Closing \<or> phase c = Failed then (c, [])
      else if action = Action_info then
        if phase c = Preparing then (c, [])
        else (c\<lparr>debug_visible := \<not> debug_visible c\<rparr>, [order Toggle_debug (position_or_0 c)])
      else
        (case phase c of
           Preparing \<Rightarrow> (c, if action = Action_toggle then [notice_command Not_available] else [])
         | Playing \<Rightarrow>
             if action \<noteq> Action_toggle then (c, [])
             else
               (case (activity, position c) of
                  (Between_frames, Some p) \<Rightarrow> pause_at c p
                | _ \<Rightarrow> (c\<lparr>phase := Pausing\<rparr>, []))
         | Pausing \<Rightarrow> (c, if action = Action_toggle then [notice_command Not_available] else [])
         | Recovering \<Rightarrow> (c, [notice_command Busy])
         | Interrupted \<Rightarrow> (c, if action = Action_toggle then [notice_command Notice_interrupted] else [])
         | Paused \<Rightarrow> key_paused c action
         | Closing \<Rightarrow> (c, [])
         | Failed \<Rightarrow> (c, [])))"

definition frame_completed :: "controller \<Rightarrow> u32 \<Rightarrow> controller \<times> command list" where
  "frame_completed c frame =
     (if phase c \<noteq> Playing \<and> phase c \<noteq> Pausing then (c, [])
      else
        (let pause_pending = (phase c = Pausing); c1 = c\<lparr>position := Some frame\<rparr> in
         if frame + 1 < frames c1 then (if pause_pending then pause_at c1 frame else (c1, []))
         else
           (let c2 = c1\<lparr>ended_naturally := True\<rparr> in
            if pause_pending then pause_at c2 frame
            else if \<not> last_take c2 then (c2\<lparr>take_end_pending_flag := True\<rparr>, [])
            else
              (c2\<lparr>phase := Paused\<rparr>,
               [order Confirm_linear_result frame, order Present_frame frame,
                order Pause_audio frame]))))"

definition recovery_finished :: "controller \<Rightarrow> recovery_outcome \<Rightarrow> controller \<times> command list" where
  "recovery_finished c outcome =
     (case target c of
        None \<Rightarrow> (c, [])
      | Some goal \<Rightarrow>
          if phase c \<noteq> Recovering then (c, [])
          else
            (let c1 = c\<lparr>target := None\<rparr> in
             case outcome of
               Presented \<Rightarrow>
                 (c1\<lparr>phase := Paused, position := Some goal\<rparr>, [order Present_frame goal])
             | Failed_restored \<Rightarrow>
                 (c1\<lparr>phase := Paused\<rparr>,
                  [notice_command Recovery_failed, order Present_frame (position_or_0 c1)])
             | Failed_unrecoverable \<Rightarrow>
                 (c1\<lparr>phase := Failed\<rparr>, [order Finish_traversal (position_or_0 c1)])))"

definition presentation_interrupted :: "controller \<Rightarrow> string \<Rightarrow> controller \<times> command list" where
  "presentation_interrupted c cause =
     (if phase c = Closing \<or> phase c = Failed then (c, [])
      else (c\<lparr>phase := Interrupted, target := None, interruption_cause := cause\<rparr>,
            event ''interrupted'' (position_or_0 c)))"

definition presentation_recovered :: "controller \<Rightarrow> controller \<times> command list" where
  "presentation_recovered c =
     (if phase c \<noteq> Interrupted then (c, [])
      else (c\<lparr>phase := Paused\<rparr>,
            event ''recovered'' (position_or_0 c) @ [order Present_frame (position_or_0 c)]))"

definition take_slot_reached :: "controller \<Rightarrow> controller \<times> command list" where
  "take_slot_reached c =
     (if \<not> take_end_pending c then (c, [])
      else (c\<lparr>take_end_pending_flag := False, phase := Closing\<rparr>,
            [order Advance_take (position_or_0 c)]))"

definition cancel :: "controller \<Rightarrow> controller \<times> command list" where
  "cancel c = (c\<lparr>phase := Closing, target := None\<rparr>, [order Close_command (position_or_0 c)])"

datatype inspection_event =
  Prepared_event
| Key_event key_action frame_activity
| Frame_event u32
| Slot_event
| Recovery_event recovery_outcome
| Interrupted_event string
| Recovered_event
| Cancel_event

fun react :: "controller \<Rightarrow> inspection_event \<Rightarrow> controller \<times> command list" where
  "react c Prepared_event = prepared c"
| "react c (Key_event action activity) = key c action activity"
| "react c (Frame_event frame) = frame_completed c frame"
| "react c Slot_event = take_slot_reached c"
| "react c (Recovery_event outcome) = recovery_finished c outcome"
| "react c (Interrupted_event cause) = presentation_interrupted c cause"
| "react c Recovered_event = presentation_recovered c"
| "react c Cancel_event = cancel c"

definition advance :: "controller \<Rightarrow> inspection_event \<Rightarrow> controller" where
  "advance c e = fst (react c e)"

fun commands :: "controller \<Rightarrow> inspection_event list \<Rightarrow> command list" where
  "commands c [] = []"
| "commands c (e # es) = snd (react c e) @ commands (advance c e) es"

lemma commands_append: "commands c (es @ fs) = commands c es @ commands (exec advance c es) fs"
  by (induction es arbitrary: c) auto

lemmas operation_defs =
  prepared_def key_def key_paused_def pause_at_def frame_completed_def recovery_finished_def
  presentation_interrupted_def presentation_recovered_def take_slot_reached_def cancel_def
  take_end_pending_def Let_def

lemmas command_defs = order_def notice_command_def event_def

declare operation_defs [step_simps]


section \<open>Invariant\<close>

text \<open>
  The contract of the adapter (\<^verbatim>\<open>src/audio_qa_runtime_session.cpp\<close>): it completes only the
  next frame, and neither produces a frame nor reports one in progress while the next take waits for
  its cadence slot.
\<close>

fun adapter_event :: "controller \<Rightarrow> inspection_event \<Rightarrow> bool" where
  "adapter_event c (Frame_event frame) = (frame = next_frame c \<and> \<not> take_end_pending c)"
| "adapter_event c (Key_event _ Producing) = (\<not> take_end_pending c)"
| "adapter_event c _ = True"

definition target_wf :: "controller \<Rightarrow> bool" where
  "target_wf c \<longleftrightarrow>
     (case target c of
        None \<Rightarrow> phase c \<noteq> Recovering
      | Some t \<Rightarrow> phase c = Recovering \<and> t < frames c \<and>
          (t + 1 = position_or_0 c \<or> t = position_or_0 c + 1))"

definition end_wf :: "controller \<Rightarrow> bool" where
  "end_wf c \<longleftrightarrow>
     (take_end_pending_flag c \<longrightarrow> ended_naturally c \<and> \<not> last_take c) \<and>
     (ended_naturally c \<longrightarrow>
        position c \<noteq> None \<and> phase c \<noteq> Preparing \<and> phase c \<noteq> Pausing \<and>
        (phase c = Playing \<longrightarrow> take_end_pending_flag c))"

definition controller_wf :: "controller \<Rightarrow> bool" where
  "controller_wf c \<longleftrightarrow>
     0 < frames c \<and> (\<forall>p. position c = Some p \<longrightarrow> p < frames c) \<and> target_wf c \<and> end_wf c \<and>
     (phase c \<in> {Playing, Pausing} \<and> \<not> ended_naturally c \<longrightarrow> next_frame c < frames c) \<and>
     (phase c = Preparing \<longrightarrow> position c = None)"

declare controller_wf_def [inv_defs] target_wf_def [inv_defs] end_wf_def [inv_defs]

lemma make_controller_fields [simp]:
  "frames (make_controller n is_last) = n"
  "last_take (make_controller n is_last) = is_last"
  "ended_naturally (make_controller n is_last) = False"
  by (simp_all add: make_controller_def)

lemma controller_wf_make: "0 < n \<Longrightarrow> controller_wf (make_controller n is_last)"
  by (simp add: inv_defs make_controller_def)

lemma frame_before:
  assumes "(frame :: u32) \<noteq> 0" and "frame < n"
  shows "frame - 1 < n" and "frame - 1 + 1 = frame"
  using assms by (simp_all add: word_less_nat_alt unat_minus_one)

lemma wf_prepared: "controller_wf c \<Longrightarrow> controller_wf (fst (prepared c))"
  by (auto simp: step_simps inv_defs next_frame_def position_or_0_def split: option.splits)

lemma wf_pause_at:
  "controller_wf c \<Longrightarrow> phase c \<noteq> Recovering \<Longrightarrow> frame < frames c \<Longrightarrow> controller_wf (fst (pause_at c frame))"
  by (auto simp: step_simps inv_defs next_frame_def split: option.splits)

lemma wf_key_paused: "controller_wf c \<Longrightarrow> phase c = Paused \<Longrightarrow> controller_wf (fst (key_paused c action))"
  by (auto simp: key_paused_def Let_def inv_defs next_frame_def position_or_0_def not_le
        frame_before split: option.splits)

lemma wf_key:
  assumes "controller_wf c" and "adapter_event c (Key_event action activity)"
  shows "controller_wf (fst (key c action activity))"
proof (cases "phase c = Paused \<and> action \<noteq> Action_info")
  case True
  with assms(1) show ?thesis by (simp add: key_def wf_key_paused)
next
  case False
  with assms show ?thesis
    by (cases "phase c"; cases activity; cases "position c")
       (auto simp: key_def pause_at_def inv_defs next_frame_def position_or_0_def take_end_pending_def
          split: option.splits)
qed

lemma wf_frame_completed:
  assumes wf: "controller_wf c" and ok: "adapter_event c (Frame_event frame)"
  shows "controller_wf (fst (frame_completed c frame))"
proof (cases "phase c = Playing \<or> phase c = Pausing")
  case True
  have "\<not> ended_naturally c"
    using wf ok True by (auto simp: inv_defs take_end_pending_def)
  then have "frame < frames c"
    using wf ok True by (auto simp: inv_defs)
  then show ?thesis
    using wf ok True \<open>\<not> ended_naturally c\<close>
    by (auto simp: frame_completed_def pause_at_def inv_defs next_frame_def Let_def
          split: option.splits)
next
  case False
  with wf show ?thesis by (simp add: frame_completed_def)
qed

lemma wf_recovery_finished: "controller_wf c \<Longrightarrow> controller_wf (fst (recovery_finished c outcome))"
  by (cases outcome)
     (auto simp: recovery_finished_def inv_defs next_frame_def position_or_0_def Let_def split: option.splits)

lemma wf_presentation_interrupted:
  "controller_wf c \<Longrightarrow> controller_wf (fst (presentation_interrupted c cause))"
  by (auto simp: presentation_interrupted_def inv_defs split: option.splits)

lemma wf_presentation_recovered:
  "controller_wf c \<Longrightarrow> controller_wf (fst (presentation_recovered c))"
  by (auto simp: presentation_recovered_def inv_defs split: option.splits)

lemma wf_take_slot_reached: "controller_wf c \<Longrightarrow> controller_wf (fst (take_slot_reached c))"
  by (auto simp: take_slot_reached_def take_end_pending_def inv_defs split: option.splits)

lemma wf_cancel: "controller_wf c \<Longrightarrow> controller_wf (fst (cancel c))"
  by (auto simp: cancel_def inv_defs)

lemmas wf_operations =
  wf_prepared wf_key wf_frame_completed wf_recovery_finished wf_presentation_interrupted
  wf_presentation_recovered wf_take_slot_reached wf_cancel

interpretation inspection_machine: guarded_machine advance adapter_event controller_wf
proof
  fix c e
  assume "controller_wf c" and "adapter_event c e"
  then show "controller_wf (advance c e)"
    by (cases e) (simp_all add: advance_def wf_operations)
qed

lemma take_fields_step:
  "frames (advance c e) = frames c" "last_take (advance c e) = last_take c"
  by (cases e; auto simp: advance_def step_simps split: option.splits inspection_phase.splits
        recovery_outcome.splits frame_activity.splits)+


section \<open>What single operations do\<close>

lemma playing_position:
  "controller_wf c \<Longrightarrow> phase c = Playing \<Longrightarrow> \<not> take_end_pending c \<Longrightarrow> \<not> ended_naturally c"
  by (auto simp: inv_defs take_end_pending_def)

text \<open>Which events can give which orders.\<close>

lemma confirm_only_at_end:
  assumes "x \<in> set (snd (react c e))" and "command_kind x = Confirm_linear_result"
  shows "\<exists>frame. e = Frame_event frame \<and> phase c = Playing \<and> last_take c \<and>
    \<not> frame + 1 < frames c \<and> command_frame x = frame \<and>
    ended_naturally (advance c e) \<and> phase (advance c e) = Paused"
  using assms
  by (cases e)
     (auto simp: advance_def step_simps command_defs split: if_splits option.splits
        inspection_phase.splits recovery_outcome.splits frame_activity.splits)

lemma advance_take_closes:
  assumes "x \<in> set (snd (react c e))" and "command_kind x = Advance_take"
  shows "phase (advance c e) = Closing \<and> (take_end_pending c \<or> \<not> last_take c) \<and>
    (take_end_pending c \<or> phase c = Paused)"
  using assms
  by (cases e)
     (auto simp: advance_def step_simps command_defs split: if_splits option.splits
        inspection_phase.splits recovery_outcome.splits frame_activity.splits)

lemma closing_step:
  "phase c = Closing \<Longrightarrow> phase (advance c e) = Closing \<and>
     (\<forall>x \<in> set (snd (react c e)). command_kind x = Close_command)"
  by (cases e) (auto simp: advance_def step_simps command_defs split: option.splits)

interpretation closing_machine: absorbing_machine advance "\<lambda>c. phase c = Closing"
  by unfold_locales (simp add: closing_step)

lemma closing_commands:
  "phase c = Closing \<Longrightarrow> x \<in> set (commands c es) \<Longrightarrow> command_kind x = Close_command"
proof (induction es arbitrary: c)
  case (Cons e es)
  then show ?case using closing_step [of c e] by auto
qed simp

lemma ended_step:
  "controller_wf c \<Longrightarrow> ended_naturally c \<Longrightarrow> ended_naturally (advance c e)"
  by (cases e)
     (auto simp: advance_def step_simps split: option.splits
        inspection_phase.splits recovery_outcome.splits frame_activity.splits)

lemma ended_no_confirm:
  assumes "controller_wf c" and "ended_naturally c" and "x \<in> set (snd (react c e))"
  shows "command_kind x \<noteq> Confirm_linear_result"
proof
  assume "command_kind x = Confirm_linear_result"
  with assms(3) have "phase c = Playing" and "last_take c"
    using confirm_only_at_end by blast+
  with assms(1,2) show False by (auto simp: inv_defs)
qed

abbreviation confirmations :: "command list \<Rightarrow> command list" where
  "confirmations \<equiv> filter (\<lambda>x. command_kind x = Confirm_linear_result)"

lemma one_confirmation: "length (confirmations (snd (react c e))) \<le> 1"
  by (cases e)
     (auto simp: step_simps command_defs split: option.splits
        inspection_phase.splits recovery_outcome.splits frame_activity.splits)

lemma confirmations_run:
  assumes "controller_wf c" and "admissible_run advance adapter_event c es"
  shows "length (confirmations (commands c es)) \<le> (if ended_naturally c then 0 else 1)"
  using assms
proof (induction es arbitrary: c)
  case (Cons e es)
  have wf: "controller_wf (advance c e)"
    using Cons.prems by (auto intro: inspection_machine.invar_step)
  with Cons have rest: "length (confirmations (commands (advance c e) es)) \<le>
      (if ended_naturally (advance c e) then 0 else 1)"
    by simp
  show ?case
  proof (cases "confirmations (snd (react c e)) = []")
    case True
    with rest ended_step [of c e] Cons.prems(1) show ?thesis by (auto split: if_splits)
  next
    case False
    then obtain x where "x \<in> set (snd (react c e))" and "command_kind x = Confirm_linear_result"
      by (auto simp: filter_empty_conv)
    then have "ended_naturally (advance c e)" and "\<not> ended_naturally c"
      using confirm_only_at_end ended_no_confirm Cons.prems(1) by blast+
    with rest one_confirmation [of c e] show ?thesis by simp
  qed
qed simp

lemma confirmation_frame:
  assumes "controller_wf c" and "adapter_event c e" and "x \<in> set (confirmations (snd (react c e)))"
  shows "last_take c \<and> command_frame x = frames c - 1"
proof -
  from assms(3) obtain frame where e: "e = Frame_event frame" and "phase c = Playing"
    and lst: "last_take c" and fin: "\<not> frame + 1 < frames c" and x: "command_frame x = frame"
    using confirm_only_at_end [of x c e] by auto
  have "\<not> ended_naturally c"
    using assms \<open>phase c = Playing\<close> e by (auto simp: inv_defs take_end_pending_def)
  then have "frame < frames c"
    using assms \<open>phase c = Playing\<close> e by (auto simp: inv_defs)
  then have "frame + 1 = frames c"
    using fin word_Suc_le_iff_less by force
  then have "frame = frames c - 1"
    by (metis add_diff_cancel_right')
  with lst x show ?thesis by simp
qed

lemma confirmations_frame:
  assumes "controller_wf c" and "admissible_run advance adapter_event c es"
    and "x \<in> set (confirmations (commands c es))"
  shows "last_take c \<and> command_frame x = frames c - 1"
  using assms
proof (induction es arbitrary: c)
  case (Cons e es)
  have wf: "controller_wf (advance c e)"
    using Cons.prems by (auto intro: inspection_machine.invar_step)
  from Cons.prems(3) consider "x \<in> set (confirmations (snd (react c e)))"
    | "x \<in> set (confirmations (commands (advance c e) es))"
    by auto
  then show ?case
  proof cases
    case 1
    with Cons.prems show ?thesis by (auto dest: confirmation_frame)
  next
    case 2
    with Cons.IH [OF wf] Cons.prems show ?thesis by (simp add: take_fields_step)
  qed
qed simp

section \<open>Properties\<close>

text \<open>
  C2: The take's position and the recovery target always stay inside the take. In every state the
  adapter can reach, the position is a frame of the take, a recovery has a target of the take that is
  one frame away from the position, a frame the controller lets run is a frame of the take, and a
  take that ended naturally plays no further frame.
\<close>

theorem inspection_stays_in_take:
  assumes "0 < n" and "admissible_run advance adapter_event (make_controller n is_last) es"
    and "c = exec advance (make_controller n is_last) es"
  shows "frames c = n \<and>
    (\<forall>p. position c = Some p \<longrightarrow> p < n) \<and>
    (\<forall>t. target c = Some t \<longrightarrow> phase c = Recovering \<and> t < n \<and>
       (t + 1 = position_or_0 c \<or> t = position_or_0 c + 1)) \<and>
    (phase c = Recovering \<longrightarrow> target c \<noteq> None) \<and>
    (may_run_frame c \<or> phase c = Pausing \<longrightarrow> \<not> ended_naturally c \<and> next_frame c < n)"
proof -
  have wf: "controller_wf c"
    unfolding assms(3) using controller_wf_make [OF assms(1)] assms(2)
    by (rule inspection_machine.invar_exec)
  have "frames (exec advance d fs) = frames d" for d fs
    by (induction fs arbitrary: d) (simp_all add: take_fields_step)
  then have "frames c = n"
    by (simp add: assms(3) make_controller_def)
  with wf show ?thesis
    by (auto simp: inv_defs may_run_frame_def split: option.splits)
qed

theorem inspection_stays_in_take_witness:
  "position (exec advance (make_controller 3 True)
     [Prepared_event, Frame_event 0, Frame_event 1, Key_event Action_toggle Between_frames,
      Key_event Action_left Between_frames, Recovery_event Presented]) = Some 0 \<and> (0 :: u32) < 3"
proof -
  let ?es = "[Prepared_event, Frame_event 0, Frame_event 1, Key_event Action_toggle Between_frames,
      Key_event Action_left Between_frames, Recovery_event Presented]"
  have n: "(0 :: u32) < 3" by simp
  have run: "admissible_run advance adapter_event (make_controller 3 True) ?es"
    by (simp add: advance_def make_controller_def step_simps next_frame_def position_or_0_def)
  have "position (exec advance (make_controller 3 True) ?es) = Some 0"
    by (simp add: advance_def make_controller_def step_simps next_frame_def position_or_0_def)
  with inspection_stays_in_take [OF n run refl] show ?thesis by blast
qed

text \<open>
  C3: The linear result of a take is confirmed at most once, and only by the natural end of the last
  take: the order is given when the last frame completes in playback, and no later event repeats
  it, whatever pauses, navigation and interruptions follow.
\<close>

theorem linear_result_confirmed_once:
  assumes "0 < n" and "admissible_run advance adapter_event (make_controller n is_last) es"
  shows "length (confirmations (commands (make_controller n is_last) es)) \<le> 1 \<and>
    (\<forall>x \<in> set (confirmations (commands (make_controller n is_last) es)).
       is_last \<and> command_frame x = n - 1)"
proof -
  have wf: "controller_wf (make_controller n is_last)"
    using assms(1) by (rule controller_wf_make)
  from confirmations_run [OF wf assms(2)] confirmations_frame [OF wf assms(2)]
  show ?thesis by auto
qed

theorem linear_result_confirmed_once_witness:
  "length (confirmations (commands (make_controller 2 True)
     [Prepared_event, Frame_event 0, Frame_event 1, Key_event Action_toggle Between_frames])) = 1"
proof -
  let ?es = "[Prepared_event, Frame_event 0, Frame_event 1, Key_event Action_toggle Between_frames]"
  have n: "(0 :: u32) < 2" by simp
  have run: "admissible_run advance adapter_event (make_controller 2 True) ?es"
    by (simp add: advance_def make_controller_def step_simps next_frame_def position_or_0_def)
  have "0 < length (confirmations (commands (make_controller 2 True) ?es))"
    by (simp add: advance_def make_controller_def step_simps command_defs next_frame_def position_or_0_def)
  moreover have "length (confirmations (commands (make_controller 2 True) ?es)) \<le> 1"
    using linear_result_confirmed_once [OF n run] by (rule conjunct1)
  ultimately show ?thesis by linarith
qed



text \<open>
  A step of the navigation in pause moves exactly one frame and stays in the take. When the
  recovery is presented the take is paused at the neighbouring frame; when it fails but the position
  is restored the take is paused where it was; at the borders of the take nothing happens.
\<close>

theorem navigation_moves_one_frame:
  assumes "controller_wf c" and "phase c = Paused" and "position c = Some p"
    and "action = Action_left \<and> q + 1 = p \<and> p \<noteq> 0 \<or> action = Action_right \<and> q = p + 1 \<and> q < frames c"
  shows "position (exec advance c [Key_event action activity, Recovery_event Presented]) = Some q \<and>
    position (exec advance c [Key_event action activity, Recovery_event Failed_restored]) = Some p \<and>
    phase (exec advance c [Key_event action activity, Recovery_event Presented]) = Paused \<and>
    phase (exec advance c [Key_event action activity, Recovery_event Failed_restored]) = Paused \<and>
    commands c [Key_event action activity, Recovery_event Presented] =
      [order Recover_frame q] @
      event (if action = Action_left then ''step_back'' else ''step_forward'') q @
      [order Present_frame q]"
  using assms
  by (auto simp: advance_def key_def key_paused_def recovery_finished_def position_or_0_def Let_def
        event_def not_le dest: frame_before)

theorem navigation_moves_one_frame_witness:
  "position (exec advance ((make_controller 3 True)\<lparr>phase := Paused, position := Some 2\<rparr>)
     [Key_event Action_left Between_frames, Recovery_event Presented]) = Some 1"
proof -
  let ?c = "(make_controller 3 True)\<lparr>phase := Paused, position := Some 2\<rparr>"
  have "controller_wf ?c" and "phase ?c = Paused" and "position ?c = Some 2"
    by (simp_all add: make_controller_def inv_defs)
  from navigation_moves_one_frame [OF this, of Action_left 1] show ?thesis by simp
qed


text \<open>
  An interruption of the presentation stops the take without losing its place. Until the
  presentation is recovered or the request is cancelled the controller stays interrupted at the same
  position; recovering pauses the take there and presents that frame again.
\<close>

theorem interruption_keeps_position:
  assumes "phase c \<noteq> Closing" and "phase c \<noteq> Failed"
    and "\<forall>e \<in> set es. e \<noteq> Recovered_event \<and> e \<noteq> Cancel_event"
    and "d = exec advance (advance c (Interrupted_event cause)) es"
  shows "phase d = Interrupted \<and> position d = position c \<and> target d = None \<and>
    phase (advance d Recovered_event) = Paused \<and> position (advance d Recovered_event) = position c \<and>
    order Present_frame (position_or_0 c) \<in> set (snd (react d Recovered_event))"
proof -
  have step: "phase (advance x e) = Interrupted \<and> position (advance x e) = position x \<and>
      target (advance x e) = None"
    if "phase x = Interrupted" "target x = None" "e \<noteq> Recovered_event" "e \<noteq> Cancel_event" for x e
    using that by (cases e) (auto simp: advance_def step_simps)
  have "phase (exec advance x es) = Interrupted \<and> position (exec advance x es) = position x \<and>
      target (exec advance x es) = None"
    if "phase x = Interrupted" "target x = None" for x
    using assms(3) that by (induction es arbitrary: x) (simp_all add: step)
  moreover have "phase (advance c (Interrupted_event cause)) = Interrupted"
    "position (advance c (Interrupted_event cause)) = position c"
    "target (advance c (Interrupted_event cause)) = None"
    using assms(1,2) by (auto simp: advance_def presentation_interrupted_def)
  ultimately have "phase d = Interrupted \<and> position d = position c \<and> target d = None"
    by (simp add: assms(4))
  then show ?thesis
    by (simp add: advance_def presentation_recovered_def position_or_0_def)
qed

theorem interruption_keeps_position_witness:
  "position (advance (exec advance (advance (exec advance (make_controller 3 True)
     [Prepared_event, Frame_event 0]) (Interrupted_event ''device'')) [Frame_event 1])
     Recovered_event) = Some 0"
proof -
  let ?c = "exec advance (make_controller 3 True) [Prepared_event, Frame_event 0]"
  have "phase ?c \<noteq> Closing" and "phase ?c \<noteq> Failed" and "position ?c = Some 0"
    and "\<forall>e \<in> set [Frame_event 1]. e \<noteq> Recovered_event \<and> e \<noteq> Cancel_event"
    by (simp_all add: advance_def make_controller_def step_simps)
  with interruption_keeps_position [OF this(1,2,4) refl] show ?thesis by metis
qed

text \<open>The states of an undisturbed playback: after \<open>k\<close> frames the controller plays at frame \<open>k - 1\<close>.\<close>

definition playing_after :: "u32 \<Rightarrow> bool \<Rightarrow> nat \<Rightarrow> controller" where
  "playing_after n is_last k =
     (make_controller n is_last)
       \<lparr>phase := Playing, position := (if k = 0 then None else Some (of_nat (k - 1)))\<rparr>"

lemma of_nat_frame_bounds:
  assumes "Suc k < unat (n :: u32)"
  shows "(of_nat k :: u32) + 1 < n"
proof -
  have "unat (of_nat (Suc k) :: u32) = Suc k"
    using order_less_trans [OF assms, of "2 ^ 32"] unat_u32_bound [of n]
    by (intro unat_of_nat_small) simp
  then have "(of_nat (Suc k) :: u32) < n"
    using assms by (simp only: word_less_nat_alt)
  then show ?thesis by (simp add: add.commute)
qed

lemma undisturbed_frames:
  assumes "k < unat n"
  shows "exec advance (playing_after n is_last 0) (map (\<lambda>i. Frame_event (of_nat i)) [0..<k]) =
      playing_after n is_last k \<and>
    commands (playing_after n is_last 0) (map (\<lambda>i. Frame_event (of_nat i)) [0..<k]) = []"
  using assms
proof (induction k)
  case (Suc k)
  have "react (playing_after n is_last k) (Frame_event (of_nat k)) = (playing_after n is_last (Suc k), [])"
    using Suc.prems of_nat_frame_bounds [of k n]
    by (simp add: frame_completed_def playing_after_def make_controller_def)
  with Suc show ?case
    by (simp add: exec_append commands_append advance_def [of "playing_after n is_last k"])
qed simp

text \<open>
  An undisturbed take reaches its end. Completing the \<open>n\<close> frames of a prepared take ends it
  naturally at frame \<open>n - 1\<close>: the last take confirms its linear result, presents the last frame and
  stays paused there; any other take waits for its cadence slot and then gives way to the next take.
\<close>

theorem undisturbed_take_ends:
  assumes "0 < n"
    and "es = Prepared_event # map (\<lambda>i. Frame_event (of_nat i)) [0..<unat n]"
    and "c = exec advance (make_controller n is_last) es"
  shows "ended_naturally c \<and> position c = Some (n - 1) \<and>
    (is_last \<longrightarrow> phase c = Paused \<and> commands (make_controller n is_last) es =
       [order Confirm_linear_result (n - 1), order Present_frame (n - 1), order Pause_audio (n - 1)]) \<and>
    (\<not> is_last \<longrightarrow> take_end_pending c \<and> \<not> may_run_frame c \<and>
       commands (make_controller n is_last) (es @ [Slot_event]) = [order Advance_take (n - 1)] \<and>
       phase (advance c Slot_event) = Closing)"
proof -
  obtain k where k: "unat n = Suc k"
    using assms(1) by (cases "unat n") (auto simp: word_less_nat_alt)
  have nk: "(of_nat k :: u32) = n - 1"
    using k by (metis add_diff_cancel_left' of_nat_Suc of_nat_unat ucast_id)
  define m where "m = playing_after n is_last k"
  have upto: "map (\<lambda>i. Frame_event (of_nat i)) [0..<unat n] =
      map (\<lambda>i. Frame_event (of_nat i)) [0..<k] @ [Frame_event (n - 1)]"
    by (simp add: k nk)
  have prep: "react (make_controller n is_last) Prepared_event = (playing_after n is_last 0, [])"
    by (simp add: prepared_def playing_after_def make_controller_def)
  have frames: "exec advance (playing_after n is_last 0) (map (\<lambda>i. Frame_event (of_nat i)) [0..<k]) = m"
    "commands (playing_after n is_last 0) (map (\<lambda>i. Frame_event (of_nat i)) [0..<k]) = []"
    using undisturbed_frames [of k n is_last] k by (simp_all add: m_def)
  have c: "c = advance m (Frame_event (n - 1))"
    using frames(1) prep by (simp add: assms(2,3) upto exec_append advance_def [of "make_controller n is_last"])
  have out: "commands (make_controller n is_last) (es @ fs) =
      snd (react m (Frame_event (n - 1))) @ commands c fs" for fs
    using frames prep c by (simp add: assms(2) upto commands_append exec_append
        advance_def [of "make_controller n is_last"])
  have "n - 1 + 1 = n" by simp
  then show ?thesis
    using out [of "[]"] out [of "[Slot_event]"]
    by (auto simp: c m_def playing_after_def make_controller_def advance_def frame_completed_def Let_def
          take_end_pending_def may_run_frame_def take_slot_reached_def position_or_0_def)
qed

theorem undisturbed_take_ends_witness:
  "phase (exec advance (make_controller 3 True)
     (Prepared_event # map (\<lambda>i. Frame_event (of_nat i)) [0..<unat (3 :: u32)])) = Paused"
proof -
  have "(0 :: u32) < 3" by simp
  note ends = undisturbed_take_ends [OF this refl refl, of True]
  show ?thesis
    using ends [THEN conjunct2, THEN conjunct2, THEN conjunct1, THEN mp, OF TrueI] by (rule conjunct1)
qed


section \<open>The cadence of the playback\<close>

text \<open>
  Times are the integer ticks of the steady clock. The code uses signed arithmetic on them, whose
  overflow is undefined, so the integers are unbounded here.
\<close>

record cadence =
  cadence_period :: int
  cadence_next :: int
  cadence_anchored :: bool

definition make_cadence :: "int \<Rightarrow> int \<Rightarrow> cadence" where
  "make_cadence period now =
     \<lparr>cadence_period = period, cadence_next = now, cadence_anchored = False\<rparr>"

definition cadence_restart :: "cadence \<Rightarrow> int \<Rightarrow> cadence" where
  "cadence_restart c now = c\<lparr>cadence_next := now, cadence_anchored := True\<rparr>"

definition cadence_frame_completed :: "cadence \<Rightarrow> int \<Rightarrow> cadence \<times> bool" where
  "cadence_frame_completed c completed =
     (if \<not> cadence_anchored c then
        (c\<lparr>cadence_anchored := True, cadence_next := completed + cadence_period c\<rparr>, False)
      else
        (let c' = c\<lparr>cadence_next := cadence_next c + cadence_period c\<rparr>
         in (c', cadence_next c' + cadence_period c' < completed)))"

definition start_frame_now :: "inspection_phase \<Rightarrow> int \<Rightarrow> int \<Rightarrow> bool" where
  "start_frame_now ph now due \<longleftrightarrow> ph = Pausing \<or> ph = Playing \<and> due \<le> now"

fun cadence_run :: "cadence \<Rightarrow> int list \<Rightarrow> cadence \<times> bool list" where
  "cadence_run c [] = (c, [])"
| "cadence_run c (t # ts) =
     (let (c1, late) = cadence_frame_completed c t; (c2, lates) = cadence_run c1 ts
      in (c2, late # lates))"

lemma cadence_run_anchored:
  assumes "cadence_anchored c"
  shows "cadence_next (fst (cadence_run c ts)) =
      cadence_next c + int (length ts) * cadence_period c \<and>
    snd (cadence_run c ts) =
      map (\<lambda>(i, t). cadence_next c + int (i + 2) * cadence_period c < t) (enumerate 0 ts)"
  using assms
proof (induction ts arbitrary: c)
  case (Cons t ts)
  define c1 where "c1 = c\<lparr>cadence_next := cadence_next c + cadence_period c\<rparr>"
  have "enumerate 0 (t # ts) = (0, t) # map (apfst Suc) (enumerate 0 ts)"
    by (simp add: enumerate_Suc_eq)
  moreover have "cadence_anchored c1"
    using Cons.prems by (simp add: c1_def)
  note Cons.IH [OF this]
  moreover have "cadence_run c (t # ts) =
      (fst (cadence_run c1 ts), (cadence_next c + 2 * cadence_period c < t) # snd (cadence_run c1 ts))"
    using Cons.prems
    by (simp add: cadence_frame_completed_def c1_def Let_def split_beta algebra_simps)
  ultimately show ?case
    by (simp add: c1_def algebra_simps split_beta o_def)
qed simp

text \<open>
  The playback cadence does not drift and does not catch up. After a resume at time \<open>t0\<close> the turn
  of the frame that follows \<open>n\<close> completed frames is \<open>t0 + n * period\<close>, however late the frames
  completed, and the \<open>i\<close>-th completed frame is reported late exactly when it completed more than one
  period after the turn that follows it. From a fresh cadence the first completed frame anchors the
  turn and is never late.
\<close>

theorem cadence_no_drift:
  "cadence_next (fst (cadence_run (cadence_restart c t0) ts)) =
     t0 + int (length ts) * cadence_period c \<and>
   snd (cadence_run (cadence_restart c t0) ts) =
     map (\<lambda>(i, t). t0 + int (i + 2) * cadence_period c < t) (enumerate 0 ts) \<and>
   fst (cadence_frame_completed (make_cadence period now) t0) =
     cadence_restart (make_cadence period now) (t0 + period) \<and>
   \<not> snd (cadence_frame_completed (make_cadence period now) t0)"
  using cadence_run_anchored [of "cadence_restart c t0" ts]
  by (simp add: cadence_restart_def cadence_frame_completed_def make_cadence_def)

end
