(* ===== verification/Presentation_Health.thy ===== *)
theory Presentation_Health
  imports Prelude
begin

text \<open>
  The health of the visible presentation:
  \<^verbatim>\<open>src/replay_inspection/presentation_health.{h,cpp}\<close>.

  Losses of the video, of the audio device and of the window interrupt the presentation; each poll
  tries to recover; a lost graphics device is never recovered. The lemmas show when a recovery is
  possible, that the loss of the device is final, and that the incidents counted are exactly the
  losses of a healthy presentation.
\<close>

section \<open>State and operations\<close>

datatype presentation_state = Healthy | Interrupted_state | Lost

datatype video_result = Frame_presented | Acquire_failed | Present_failed | Device_lost

datatype recovery_attempt = Attempt_healthy | Recovered | Still_interrupted | Unrecoverable

record health =
  health_state :: presentation_state
  health_cause :: string
  incidents :: u32
  video_lost :: bool
  audio_lost :: bool
  minimized :: bool

definition make_health :: health where
  "make_health = \<lparr>health_state = Healthy, health_cause = '''', incidents = 0, video_lost = False,
                  audio_lost = False, minimized = False\<rparr>"

definition interrupt :: "health \<Rightarrow> string \<Rightarrow> health" where
  "interrupt h cause =
     (if health_state h = Lost then h
      else
        (let h' = (if health_state h = Healthy
                   then h\<lparr>incidents := incidents h + 1, health_cause := cause\<rparr> else h)
         in h'\<lparr>health_state := Interrupted_state\<rparr>))"

fun frame_result :: "health \<Rightarrow> video_result \<Rightarrow> health" where
  "frame_result h Frame_presented = h"
| "frame_result h Acquire_failed = interrupt (h\<lparr>video_lost := True\<rparr>) ''video_acquire_failed''"
| "frame_result h Present_failed = interrupt (h\<lparr>video_lost := True\<rparr>) ''video_present_failed''"
| "frame_result h Device_lost =
     (let h' = (if health_state h = Healthy then h\<lparr>incidents := incidents h + 1\<rparr> else h)
      in h'\<lparr>health_cause := ''device_lost'', health_state := Lost\<rparr>)"

definition audio_device_removed :: "health \<Rightarrow> bool \<Rightarrow> health" where
  "audio_device_removed h in_use =
     (if \<not> in_use then h else interrupt (h\<lparr>audio_lost := True\<rparr>) ''audio_device_removed'')"

definition audio_device_added :: "health \<Rightarrow> health" where
  "audio_device_added h = h"

definition set_minimized :: "health \<Rightarrow> bool \<Rightarrow> health" where
  "set_minimized h value =
     (let h' = h\<lparr>minimized := value\<rparr>
      in if value then interrupt h' ''window_minimized'' else h')"

definition health_focus :: "health \<Rightarrow> bool \<Rightarrow> health" where
  "health_focus h value = h"

definition poll :: "health \<Rightarrow> bool \<Rightarrow> bool \<Rightarrow> health \<times> recovery_attempt" where
  "poll h swapchain_ready audio_ready =
     (case health_state h of
        Healthy \<Rightarrow> (h, Attempt_healthy)
      | Lost \<Rightarrow> (h, Unrecoverable)
      | Interrupted_state \<Rightarrow>
          if minimized h \<or> video_lost h \<and> \<not> swapchain_ready \<or> audio_lost h \<and> \<not> audio_ready
          then (h, Still_interrupted)
          else (h\<lparr>video_lost := False, audio_lost := False, health_state := Healthy\<rparr>, Recovered))"

datatype health_event =
  Frame_result video_result
| Audio_removed bool
| Audio_added
| Minimized bool
| Health_focus bool
| Poll bool bool

fun health_step :: "health \<Rightarrow> health_event \<Rightarrow> health" where
  "health_step h (Frame_result v) = frame_result h v"
| "health_step h (Audio_removed in_use) = audio_device_removed h in_use"
| "health_step h Audio_added = audio_device_added h"
| "health_step h (Minimized value) = set_minimized h value"
| "health_step h (Health_focus value) = health_focus h value"
| "health_step h (Poll swapchain_ready audio_ready) = fst (poll h swapchain_ready audio_ready)"

lemmas health_defs =
  interrupt_def audio_device_removed_def audio_device_added_def set_minimized_def
  health_focus_def poll_def Let_def

section \<open>Invariant\<close>

text \<open>A healthy presentation has no loss pending.\<close>

definition health_wf :: "health \<Rightarrow> bool" where
  "health_wf h \<longleftrightarrow>
     (health_state h = Healthy \<longrightarrow> \<not> video_lost h \<and> \<not> audio_lost h \<and> \<not> minimized h)"

lemma health_wf_make: "health_wf make_health"
  by (simp add: health_wf_def make_health_def)

lemma health_wf_step: "health_wf h \<Longrightarrow> health_wf (health_step h e)"
proof (cases e)
  case (Frame_result v)
  assume "health_wf h"
  with Frame_result show ?thesis by (cases v) (auto simp: health_defs health_wf_def)
qed (auto simp: health_defs health_wf_def split: presentation_state.splits)

interpretation health_machine: machine health_step health_wf
  by unfold_locales (rule health_wf_step)

lemma lost_step: "health_state h = Lost \<Longrightarrow> health_state (health_step h e) = Lost"
proof (cases e)
  case (Frame_result v)
  assume "health_state h = Lost"
  with Frame_result show ?thesis by (cases v) (auto simp: health_defs)
qed (auto simp: health_defs)

interpretation lost_machine: absorbing_machine health_step "\<lambda>h. health_state h = Lost"
  by unfold_locales (rule lost_step)

text \<open>A step opens an incident when it takes a healthy presentation out of health.\<close>

definition opens_incident :: "health \<Rightarrow> health_event \<Rightarrow> bool" where
  "opens_incident h e \<longleftrightarrow> health_state h = Healthy \<and> health_state (health_step h e) \<noteq> Healthy"

fun incidents_of :: "health \<Rightarrow> health_event list \<Rightarrow> nat" where
  "incidents_of h [] = 0"
| "incidents_of h (e # es) = (if opens_incident h e then 1 else 0) + incidents_of (health_step h e) es"

lemma incidents_step:
  "incidents (health_step h e) = incidents h + (if opens_incident h e then 1 else 0)"
proof (cases e)
  case (Frame_result v)
  then show ?thesis by (cases v) (auto simp: health_defs opens_incident_def)
qed (auto simp: health_defs opens_incident_def split: presentation_state.splits)

section \<open>Properties\<close>

text \<open>
  Every loss of a healthy presentation is one incident and nothing else is: after any sequence
  of events the counter (a 32-bit number) is the number of times the presentation left health.
\<close>

theorem incidents_counted:
  "incidents (exec health_step make_health es) = of_nat (incidents_of make_health es)"
proof -
  have "incidents (exec health_step h es) = incidents h + of_nat (incidents_of h es)" for h
    by (induction es arbitrary: h) (simp_all add: incidents_step)
  then show ?thesis by (simp add: make_health_def)
qed

text \<open>
  The loss of the graphics device is final. Whatever happens afterwards, the presentation stays
  lost and every poll answers that it cannot be recovered.
\<close>

theorem device_loss_is_final:
  "snd (poll (exec health_step (frame_result h Device_lost) es) swapchain_ready audio_ready) =
     Unrecoverable"
proof -
  have "health_state (frame_result h Device_lost) = Lost" by (simp add: Let_def)
  then have "health_state (exec health_step (frame_result h Device_lost) es) = Lost"
    by (rule lost_machine.absorbing_run)
  then show ?thesis by (simp add: poll_def)
qed

text \<open>
  An interruption ends exactly when every loss behind it is repaired. From a reachable state that
  is interrupted, a poll recovers if and only if the window is not minimised, a lost video has its
  swapchain back and a lost audio device is open again; a recovered presentation has no loss pending.
\<close>

theorem poll_recovers_iff_repaired:
  assumes "h = exec health_step make_health es" and "health_state h = Interrupted_state"
    and "poll h swapchain_ready audio_ready = (h', attempt)"
  shows "(attempt = Recovered \<longleftrightarrow> \<not> minimized h \<and> (video_lost h \<longrightarrow> swapchain_ready) \<and>
      (audio_lost h \<longrightarrow> audio_ready)) \<and>
    (attempt = Recovered \<longrightarrow> health_state h' = Healthy \<and> \<not> video_lost h' \<and> \<not> audio_lost h' \<and>
       \<not> minimized h') \<and>
    (attempt \<noteq> Recovered \<longrightarrow> attempt = Still_interrupted \<and> h' = h)"
  using assms(2,3) by (auto simp: poll_def split: if_splits)

theorem poll_recovers_iff_repaired_witness:
  "snd (poll (exec health_step make_health [Audio_removed True, Minimized True, Minimized False])
     False True) = Recovered"
proof -
  let ?h = "exec health_step make_health [Audio_removed True, Minimized True, Minimized False]"
  have state: "health_state ?h = Interrupted_state"
    and "\<not> minimized ?h \<and> (video_lost ?h \<longrightarrow> False) \<and> (audio_lost ?h \<longrightarrow> True)"
    by (simp_all add: health_defs make_health_def)
  moreover obtain h' attempt where "poll ?h False True = (h', attempt)" by fastforce
  ultimately show ?thesis
    using poll_recovers_iff_repaired [OF refl state] by simp
qed

end
