(* ===== verification/Double_Rounding.thy ===== *)
theory Double_Rounding
  imports Complex_Main Prelude
begin

text \<open>
  The \<open>double\<close> arithmetic of the sources. Every operation on doubles is the exact operation on
  reals followed by a rounding \<open>rnd\<close>, an argument of the definitions that use it. The theorems
  assume of it what IEEE-754 rounding to nearest documents for the finite range the code uses:
  it is monotone, and it keeps the integers below \<open>2 ^ 53\<close> (so zero, and the casts of 32-bit
  numbers, are exact).
\<close>

definition double_rounding :: "(real \<Rightarrow> real) \<Rightarrow> bool" where
  "double_rounding rnd \<longleftrightarrow> mono rnd \<and> (\<forall>n::nat. n < 2 ^ 53 \<longrightarrow> rnd (real n) = real n)"

lemma double_rounding_id [simp]: "double_rounding (\<lambda>x. x)"
  by (simp add: double_rounding_def mono_def)

lemma rounding_mono: "double_rounding rnd \<Longrightarrow> x \<le> y \<Longrightarrow> rnd x \<le> rnd y"
  unfolding double_rounding_def by (blast dest: monoD)

lemma rounding_nat: "double_rounding rnd \<Longrightarrow> n < 2 ^ 53 \<Longrightarrow> rnd (real n) = real n"
  unfolding double_rounding_def by blast

lemma rounding_zero: "double_rounding rnd \<Longrightarrow> rnd 0 = 0"
  using rounding_nat [of rnd 0] by simp

lemma rounding_nonneg: "double_rounding rnd \<Longrightarrow> 0 \<le> x \<Longrightarrow> 0 \<le> rnd x"
  using rounding_zero [of rnd] rounding_mono [of rnd 0 x] by simp

lemma rounding_u32:
  assumes "double_rounding rnd"
  shows "rnd (real (unat (w :: u32))) = real (unat w)"
proof -
  have "unat w < 2 ^ 53"
    using unat_u32_bound [of w] by (rule order_less_le_trans) simp
  with assms show ?thesis by (rule rounding_nat)
qed

end
