(* ===== verification/Frame_Record.thy ===== *)
theory Frame_Record
  imports Double_Rounding
begin

text \<open>
  The debug record of one visit to one frame: \<^verbatim>\<open>src/replay_inspection/render_observation.{h,cpp}\<close>
  (the owned copy of the Engine's borrowed view) and \<^verbatim>\<open>src/replay_inspection/frame_record.{h,cpp}\<close>
  (the record built from it, and the time measurements).

  The enumerations come from the Engine's public header. Their types have the values that the
  sources name and one constructor for any other value the Engine may send. The view records
  hold the fields of the Engine's view that the code reads; a text field of the view holds a
  text or some other variant, which is \<open>None\<close> here.
\<close>

section \<open>Engine values\<close>

datatype availability = Known | Unknown | Other_availability nat

datatype composability = Composable | Not_composable nat

datatype occurrence_status =
  Replaced | Original_unassigned | Assigned_not_applied | Hidden_by_author | Other_status nat

datatype draw_outcome = In_pass | Partitioned | Lane | Discarded | Other_draw nat

datatype texture_state = Pending | Other_texture nat

record occurrence_id =
  id_index :: u16
  id_slot :: u8
  id_chain :: u8

record field_view =
  fv_availability :: availability
  fv_text :: "string option"

record occurrence_view =
  ov_id :: occurrence_id
  ov_identity_hash :: u64
  ov_status :: occurrence_status
  ov_replacement :: "32 word"
  ov_pose :: field_view
  ov_not_applied_reason :: field_view

record replacement_view =
  rv_index :: u32
  rv_kind :: string
  rv_pose_key :: string
  rv_asset :: string
  rv_members :: "occurrence_id list"
  rv_render_availability :: availability
  rv_draw :: draw_outcome
  rv_texture :: texture_state

record render_frame_view =
  vw_frame_availability :: availability
  vw_emulation_frame :: u64
  vw_composability :: composability
  vw_occurrences :: "occurrence_view list"
  vw_replacements :: "replacement_view list"
  vw_occurrences_total :: nat
  vw_replacements_total :: nat

section \<open>The owned observation\<close>

record text_field =
  tf_availability :: availability
  tf_value :: string

record observed_occurrence =
  oo_id :: occurrence_id
  oo_identity_hash :: u64
  oo_status :: occurrence_status
  oo_replacement :: "32 word"
  oo_pose :: text_field
  oo_not_applied_reason :: text_field

record observed_replacement =
  or_index :: u32
  or_kind :: string
  or_pose_key :: string
  or_asset :: string
  or_members :: "u16 list"
  or_render_availability :: availability
  or_draw :: draw_outcome
  or_texture :: texture_state

record render_observation =
  ro_frame_known :: bool
  ro_emulation_frame :: u64
  ro_composability :: composability
  ro_occurrences :: "observed_occurrence list"
  ro_replacements :: "observed_replacement list"
  ro_occurrences_total :: nat
  ro_replacements_total :: nat

definition copy_text :: "field_view \<Rightarrow> text_field" where
  "copy_text field =
     (if fv_availability field \<noteq> Known then \<lparr>tf_availability = fv_availability field, tf_value = []\<rparr>
      else
        (case fv_text field of
           Some value \<Rightarrow> \<lparr>tf_availability = Known, tf_value = value\<rparr>
         | None \<Rightarrow> \<lparr>tf_availability = Unknown, tf_value = []\<rparr>))"

definition copy_occurrence :: "occurrence_view \<Rightarrow> observed_occurrence" where
  "copy_occurrence v =
     \<lparr>oo_id = ov_id v, oo_identity_hash = ov_identity_hash v, oo_status = ov_status v,
      oo_replacement = ov_replacement v, oo_pose = copy_text (ov_pose v),
      oo_not_applied_reason = copy_text (ov_not_applied_reason v)\<rparr>"

definition copy_replacement :: "replacement_view \<Rightarrow> observed_replacement" where
  "copy_replacement v =
     \<lparr>or_index = rv_index v, or_kind = rv_kind v, or_pose_key = rv_pose_key v,
      or_asset = rv_asset v, or_members = map id_index (rv_members v),
      or_render_availability = rv_render_availability v, or_draw = rv_draw v,
      or_texture = rv_texture v\<rparr>"

definition copy_observation :: "render_frame_view \<Rightarrow> render_observation" where
  "copy_observation view =
     (let frame_known = vw_frame_availability view = Known
      in \<lparr>ro_frame_known = frame_known,
          ro_emulation_frame = (if frame_known then vw_emulation_frame view else 0),
          ro_composability = vw_composability view,
          ro_occurrences = map copy_occurrence (vw_occurrences view),
          ro_replacements = map copy_replacement (vw_replacements view),
          ro_occurrences_total = vw_occurrences_total view,
          ro_replacements_total = vw_replacements_total view\<rparr>)"

section \<open>The frame record\<close>

definition max_record_rows :: nat where
  "max_record_rows = 256"

record frame_general =
  gen_rom :: string
  gen_take :: string
  gen_pack :: "string option"
  gen_phase :: string
  gen_total_frames :: u32
  gen_buttons :: string
  gen_step :: string

definition pack_label :: "frame_general \<Rightarrow> string" where
  "pack_label g = (case gen_pack g of Some p \<Rightarrow> p | None \<Rightarrow> ''Sin pack'')"

record occurrence_row =
  row_index :: u16
  row_slot :: u8
  row_chain :: u8
  row_identity :: u64
  row_status :: occurrence_status
  row_pose :: "string option"
  row_asset :: "string option"
  row_draw :: "draw_outcome option"
  row_reason :: "string option"

record measurements =
  processing_ms :: "real option"
  fps_instant :: "real option"

record row_overflow =
  rows_total :: nat
  rows_limit :: nat

record frame_record =
  rec_frame :: u32
  rec_visit :: u32
  rec_general :: frame_general
  rec_not_composable :: "composability option"
  rec_rows :: "occurrence_row list"
  rec_measurements :: measurements
  rec_overflow :: "row_overflow option"

definition known :: "text_field \<Rightarrow> string option" where
  "known field = (if tf_availability field \<noteq> Known then None else Some (tf_value field))"

definition occurrence_replacement ::
    "render_observation \<Rightarrow> observed_occurrence \<Rightarrow> observed_replacement option" where
  "occurrence_replacement observation occurrence =
     (if oo_status occurrence = Replaced \<and> 0 \<le> sint (oo_replacement occurrence) \<and>
         nat (sint (oo_replacement occurrence)) < length (ro_replacements observation)
      then Some (ro_replacements observation ! nat (sint (oo_replacement occurrence)))
      else None)"

definition make_row :: "render_observation \<Rightarrow> observed_occurrence \<Rightarrow> occurrence_row" where
  "make_row observation occurrence =
     (let row =
        \<lparr>row_index = id_index (oo_id occurrence), row_slot = id_slot (oo_id occurrence),
         row_chain = id_chain (oo_id occurrence), row_identity = oo_identity_hash occurrence,
         row_status = oo_status occurrence, row_pose = known (oo_pose occurrence),
         row_asset = None, row_draw = None, row_reason = None\<rparr>;
        row =
          (case occurrence_replacement observation occurrence of
             None \<Rightarrow> row
           | Some replacement \<Rightarrow>
               row\<lparr>row_asset := Some (or_asset replacement),
                   row_pose :=
                     (if row_pose row = None \<and> or_pose_key replacement \<noteq> []
                      then Some (or_pose_key replacement) else row_pose row),
                   row_draw :=
                     (if or_render_availability replacement = Known
                      then Some (or_draw replacement) else None)\<rparr>)
      in if oo_status occurrence = Assigned_not_applied
         then row\<lparr>row_reason := known (oo_not_applied_reason occurrence)\<rparr> else row)"

definition make_frame_record ::
    "u32 \<Rightarrow> u32 \<Rightarrow> frame_general \<Rightarrow> render_observation \<Rightarrow> measurements \<Rightarrow> frame_record" where
  "make_frame_record frame visit general observation ms =
     (let total = max (ro_occurrences_total observation) (length (ro_occurrences observation));
          kept = min (length (ro_occurrences observation)) max_record_rows
      in \<lparr>rec_frame = frame, rec_visit = visit, rec_general = general,
          rec_not_composable =
            (if ro_composability observation \<noteq> Composable
             then Some (ro_composability observation) else None),
          rec_rows = map (make_row observation) (take kept (ro_occurrences observation)),
          rec_measurements = ms,
          rec_overflow =
            (if max_record_rows < total
             then Some \<lparr>rows_total = total, rows_limit = max_record_rows\<rparr> else None)\<rparr>)"

section \<open>Measurements\<close>

datatype frame_context = Continuous | After_pause | Navigation

record frame_timing =
  tm_frame :: u32
  tm_input_started_ms :: real
  tm_composed_ms :: real
  tm_presented_ms :: real

type_synonym frame_measurer = "frame_timing option"

definition measure_frame ::
    "(real \<Rightarrow> real) \<Rightarrow> frame_measurer \<Rightarrow> frame_timing \<Rightarrow> frame_context \<Rightarrow> frame_measurer \<times> measurements" where
  "measure_frame rnd previous timing ctxt =
     (let processing =
            (if tm_input_started_ms timing \<le> tm_composed_ms timing
             then Some (rnd (tm_composed_ms timing - tm_input_started_ms timing)) else None);
          fps =
            (case previous of
               Some p \<Rightarrow>
                 if ctxt = Continuous \<and> tm_frame p + 1 = tm_frame timing \<and>
                    tm_presented_ms p < tm_presented_ms timing
                 then Some (rnd (1000 / rnd (tm_presented_ms timing - tm_presented_ms p))) else None
             | None \<Rightarrow> None)
      in (if ctxt = Navigation then None else Some timing,
          \<lparr>processing_ms = processing, fps_instant = fps\<rparr>))"

section \<open>Properties\<close>

lemma known_copy_text:
  "known (copy_text field) = Some value \<longleftrightarrow> fv_availability field = Known \<and> fv_text field = Some value"
  by (auto simp: known_def copy_text_def split: option.splits)

lemma make_row_copied [simp]:
  "row_index (make_row obs occ) = id_index (oo_id occ)"
  "row_slot (make_row obs occ) = id_slot (oo_id occ)"
  "row_chain (make_row obs occ) = id_chain (oo_id occ)"
  "row_identity (make_row obs occ) = oo_identity_hash occ"
  "row_status (make_row obs occ) = oo_status occ"
  by (simp_all add: make_row_def Let_def split: option.splits)

lemma make_row_asset: "row_asset (make_row obs occ) = map_option or_asset (occurrence_replacement obs occ)"
  by (simp add: make_row_def Let_def split: option.splits)

lemma make_row_reason:
  "row_reason (make_row obs occ) =
     (if oo_status occ = Assigned_not_applied then known (oo_not_applied_reason occ) else None)"
  by (simp add: make_row_def Let_def split: option.splits)

lemma make_row_pose:
  "row_pose (make_row obs occ) = Some p \<Longrightarrow>
     known (oo_pose occ) = Some p \<or>
     (known (oo_pose occ) = None \<and> p \<noteq> [] \<and>
      map_option or_pose_key (occurrence_replacement obs occ) = Some p)"
  by (auto simp: make_row_def Let_def split: option.splits if_splits)

lemma occurrence_replacement_SomeD:
  "occurrence_replacement obs occ = Some r \<Longrightarrow> oo_status occ = Replaced \<and> r \<in> set (ro_replacements obs)"
  by (auto simp: occurrence_replacement_def split: if_splits)

lemma record_row_at:
  assumes "i < length (rec_rows (make_frame_record f v g (copy_observation view) ms))"
  shows "rec_rows (make_frame_record f v g (copy_observation view) ms) ! i =
      make_row (copy_observation view) (copy_occurrence (vw_occurrences view ! i)) \<and>
    i < length (vw_occurrences view)"
  using assms by (auto simp: make_frame_record_def copy_observation_def Let_def)

text \<open>
  A frame record says only what the Engine said of that frame. It keeps the first 256 rows in
  the order of the view, reports an overflow exactly when the Engine counted more, each row
  carries the identity and status of its occurrence, an asset only when the occurrence is
  replaced and only the asset of one of this frame's replacements, a reason only for an
  assigned occurrence whose reason the Engine marked known, and a pose only when the Engine
  knows it or a replacement of this frame names it.
\<close>

theorem frame_record_faithful:
  assumes "r = make_frame_record frame visit general (copy_observation view) ms"
    and "i < length (rec_rows r)"
  shows "length (rec_rows r) = min (length (vw_occurrences view)) 256 \<and>
    (rec_overflow r \<noteq> None \<longleftrightarrow> 256 < max (vw_occurrences_total view) (length (vw_occurrences view))) \<and>
    row_identity (rec_rows r ! i) = ov_identity_hash (vw_occurrences view ! i) \<and>
    row_status (rec_rows r ! i) = ov_status (vw_occurrences view ! i) \<and>
    (\<forall>asset. row_asset (rec_rows r ! i) = Some asset \<longrightarrow>
       ov_status (vw_occurrences view ! i) = Replaced \<and>
       asset \<in> rv_asset ` set (vw_replacements view)) \<and>
    (\<forall>reason. row_reason (rec_rows r ! i) = Some reason \<longleftrightarrow>
       ov_status (vw_occurrences view ! i) = Assigned_not_applied \<and>
       fv_availability (ov_not_applied_reason (vw_occurrences view ! i)) = Known \<and>
       fv_text (ov_not_applied_reason (vw_occurrences view ! i)) = Some reason) \<and>
    (\<forall>pose. row_pose (rec_rows r ! i) = Some pose \<longrightarrow>
       fv_availability (ov_pose (vw_occurrences view ! i)) = Known \<and>
       fv_text (ov_pose (vw_occurrences view ! i)) = Some pose \<or>
       ov_status (vw_occurrences view ! i) = Replaced \<and> pose \<in> rv_pose_key ` set (vw_replacements view))"
proof -
  define obs where "obs = copy_observation view"
  define occ where "occ = copy_occurrence (vw_occurrences view ! i)"
  have row: "rec_rows r ! i = make_row obs occ"
    using record_row_at assms by (simp add: obs_def occ_def)
  have occ_simps: "oo_identity_hash occ = ov_identity_hash (vw_occurrences view ! i)"
      "oo_status occ = ov_status (vw_occurrences view ! i)"
      "oo_pose occ = copy_text (ov_pose (vw_occurrences view ! i))"
      "oo_not_applied_reason occ = copy_text (ov_not_applied_reason (vw_occurrences view ! i))"
    by (simp_all add: occ_def copy_occurrence_def)
  have reps: "ro_replacements obs = map copy_replacement (vw_replacements view)"
    by (simp add: obs_def copy_observation_def Let_def)
  have replaced: "ov_status (vw_occurrences view ! i) = Replaced \<and>
      or_asset rep \<in> rv_asset ` set (vw_replacements view) \<and>
      or_pose_key rep \<in> rv_pose_key ` set (vw_replacements view)"
    if "occurrence_replacement obs occ = Some rep" for rep
    using occurrence_replacement_SomeD [OF that]
    by (auto simp: reps occ_simps copy_replacement_def)
  have size: "length (rec_rows r) = min (length (vw_occurrences view)) 256"
      "rec_overflow r \<noteq> None \<longleftrightarrow>
         256 < max (vw_occurrences_total view) (length (vw_occurrences view))"
    by (auto simp: assms(1) make_frame_record_def copy_observation_def Let_def max_record_rows_def)
  have asset: "row_asset (rec_rows r ! i) = Some a \<longrightarrow>
       ov_status (vw_occurrences view ! i) = Replaced \<and> a \<in> rv_asset ` set (vw_replacements view)" for a
    using replaced by (auto simp: row make_row_asset)
  have pose: "row_pose (rec_rows r ! i) = Some p \<longrightarrow>
       fv_availability (ov_pose (vw_occurrences view ! i)) = Known \<and>
       fv_text (ov_pose (vw_occurrences view ! i)) = Some p \<or>
       ov_status (vw_occurrences view ! i) = Replaced \<and> p \<in> rv_pose_key ` set (vw_replacements view)" for p
    using replaced make_row_pose [of obs occ p] by (auto simp: row occ_simps known_copy_text)
  show ?thesis
    using size asset pose
    by (simp add: row occ_simps make_row_reason known_copy_text)
qed

definition example_view :: render_frame_view where
  "example_view =
     \<lparr>vw_frame_availability = Known, vw_emulation_frame = 7, vw_composability = Composable,
      vw_occurrences =
        [\<lparr>ov_id = \<lparr>id_index = 3, id_slot = 1, id_chain = 0\<rparr>, ov_identity_hash = 99,
          ov_status = Replaced, ov_replacement = 0,
          ov_pose = \<lparr>fv_availability = Known, fv_text = None\<rparr>,
          ov_not_applied_reason = \<lparr>fv_availability = Unknown, fv_text = None\<rparr>\<rparr>],
      vw_replacements =
        [\<lparr>rv_index = 0, rv_kind = ''sprite'', rv_pose_key = ''run'', rv_asset = ''run.png'',
          rv_members = [], rv_render_availability = Known, rv_draw = In_pass, rv_texture = Pending\<rparr>],
      vw_occurrences_total = 300, vw_replacements_total = 1\<rparr>"

definition example_general :: frame_general where
  "example_general =
     \<lparr>gen_rom = ''rom.md'', gen_take = ''take'', gen_pack = None, gen_phase = ''playing'',
      gen_total_frames = 60, gen_buttons = ''a'', gen_step = []\<rparr>"

theorem frame_record_faithful_witness:
  "rec_overflow (make_frame_record 4 1 example_general (copy_observation example_view)
     \<lparr>processing_ms = None, fps_instant = None\<rparr>) \<noteq> None \<and>
   row_asset (rec_rows (make_frame_record 4 1 example_general (copy_observation example_view)
     \<lparr>processing_ms = None, fps_instant = None\<rparr>) ! 0) = Some ''run.png''"
proof -
  let ?r = "make_frame_record 4 1 example_general (copy_observation example_view)
     \<lparr>processing_ms = None, fps_instant = None\<rparr>"
  have "0 < length (rec_rows ?r)"
    by (simp add: make_frame_record_def copy_observation_def example_view_def Let_def max_record_rows_def)
  from frame_record_faithful [OF refl this]
  have "rec_overflow ?r \<noteq> None" by (simp add: example_view_def)
  then show ?thesis
    by (simp add: make_frame_record_def copy_observation_def example_view_def Let_def
        max_record_rows_def make_row_def occurrence_replacement_def copy_occurrence_def
        copy_replacement_def)
qed

subsection \<open>Instantaneous FPS\<close>

fun measure_run ::
    "(real \<Rightarrow> real) \<Rightarrow> frame_measurer \<Rightarrow> (frame_timing \<times> frame_context) list \<Rightarrow> measurements list" where
  "measure_run rnd previous [] = []"
| "measure_run rnd previous ((timing, ctxt) # es) =
     (case measure_frame rnd previous timing ctxt of
        (previous', m) \<Rightarrow> m # measure_run rnd previous' es)"

definition follows :: "frame_timing \<times> frame_context \<Rightarrow> frame_timing \<times> frame_context \<Rightarrow> bool" where
  "follows p e \<longleftrightarrow> snd e = Continuous \<and> snd p \<noteq> Navigation \<and>
     tm_frame (fst p) + 1 = tm_frame (fst e) \<and> tm_presented_ms (fst p) < tm_presented_ms (fst e)"

lemma measure_run_length [simp]: "length (measure_run rnd previous es) = length es"
  by (induction rnd previous es rule: measure_run.induct) (auto split: prod.splits)

lemma measure_run_fps:
  "Suc i < length es \<Longrightarrow>
     fps_instant (measure_run rnd previous es ! Suc i) =
       (if follows (es ! i) (es ! Suc i)
        then Some (rnd (1000 / rnd (tm_presented_ms (fst (es ! Suc i)) - tm_presented_ms (fst (es ! i)))))
        else None)"
proof (induction i arbitrary: previous es)
  case 0
  then obtain p c t d es' where "es = (p, c) # (t, d) # es'"
    by (cases es rule: remdups_adj.cases) auto
  then show ?case by (auto simp: measure_frame_def follows_def Let_def)
next
  case (Suc i)
  then obtain p c es' where "es = (p, c) # es'" by (cases es) auto
  with Suc show ?case by (simp add: measure_frame_def Let_def)
qed

text \<open>
  An instantaneous FPS is measured only between two consecutive presentations of continuous
  playback. In every sequence of measured frames that starts with a fresh measurer, the first
  has no FPS, and a later one has it exactly when it is continuous, the one before it was not a
  navigation, it is the next frame and was presented later; the value is 1000 over that interval.
\<close>

theorem fps_between_consecutive_frames:
  assumes "i < length es"
  shows "fps_instant (measure_run rnd None es ! i) =
    (if 0 < i \<and> follows (es ! (i - 1)) (es ! i)
     then Some (rnd (1000 / rnd (tm_presented_ms (fst (es ! i)) - tm_presented_ms (fst (es ! (i - 1))))))
     else None)"
proof (cases i)
  case 0
  with assms obtain t c es' where "es = (t, c) # es'" by (cases es) auto
  with 0 show ?thesis by (simp add: measure_frame_def Let_def)
next
  case (Suc j)
  with assms measure_run_fps [of j es rnd None] show ?thesis by simp
qed

theorem fps_between_consecutive_frames_witness:
  "fps_instant (measure_run (\<lambda>x. x) None
      [(\<lparr>tm_frame = 4, tm_input_started_ms = 0, tm_composed_ms = 5, tm_presented_ms = 10\<rparr>, Continuous),
       (\<lparr>tm_frame = 5, tm_input_started_ms = 20, tm_composed_ms = 25, tm_presented_ms = 30\<rparr>, Continuous)] ! 1)
   = Some 50"
  by (subst fps_between_consecutive_frames) (simp_all add: follows_def)

end
