(* ===== verification/Take_Clock.thy ===== *)
theory Take_Clock
  imports Double_Rounding
begin

text \<open>
  The conversion between the frames and the times of a take:
  \<^verbatim>\<open>src/replay_inspection/take_clock.{h,cpp}\<close>.

  Doubles are reals under the rounding of theory Double_Rounding. The value of \<open>timing_fps\<close> is
  \<open>None\<close> when it is not finite.
\<close>

section \<open>State and operations\<close>

record take_times =
  times_frame :: "u32 option"
  elapsed_ms :: real
  remaining_ms :: real

record take_clock =
  clock_frames :: u32
  period_ms :: real

definition make_clock :: "(real \<Rightarrow> real) \<Rightarrow> u32 \<Rightarrow> real option \<Rightarrow> take_clock" where
  "make_clock rnd frame_count timing_fps =
     \<lparr>clock_frames = frame_count,
      period_ms =
        (case timing_fps of
           Some fps \<Rightarrow> if 0 < fps then rnd (1000 / fps) else 0
         | None \<Rightarrow> 0)\<rparr>"

definition before_first :: "(real \<Rightarrow> real) \<Rightarrow> take_clock \<Rightarrow> take_times" where
  "before_first rnd c =
     \<lparr>times_frame = None, elapsed_ms = 0,
      remaining_ms = rnd (rnd (real (unat (clock_frames c))) * period_ms c)\<rparr>"

definition clock_at :: "(real \<Rightarrow> real) \<Rightarrow> take_clock \<Rightarrow> u32 \<Rightarrow> take_times" where
  "clock_at rnd c frame =
     (if clock_frames c \<le> frame then before_first rnd c
      else
        (let elapsed = rnd (rnd (real (unat (frame + 1))) * period_ms c);
             total = rnd (rnd (real (unat (clock_frames c))) * period_ms c)
         in \<lparr>times_frame = Some frame, elapsed_ms = elapsed,
             remaining_ms = (if frame + 1 = clock_frames c then 0 else rnd (total - elapsed))\<rparr>))"

definition take_frame_from_engine :: "take_clock \<Rightarrow> u64 \<Rightarrow> u32 option" where
  "take_frame_from_engine c frame_index =
     (if frame_index = 0 \<or> ucast (clock_frames c) < frame_index then None
      else Some (ucast (frame_index - 1)))"

section \<open>Properties\<close>

lemma period_nonneg: "double_rounding rnd \<Longrightarrow> 0 \<le> period_ms (make_clock rnd n fps)"
  by (auto simp: make_clock_def intro: rounding_nonneg split: option.splits)

lemma unat_next_frame:
  "frame < n \<Longrightarrow> unat (frame + 1) = Suc (unat frame)" for frame n :: u32
  by (rule unat_Suc_of_less)

text \<open>
  The times of a take are coherent for every frame. In a take of \<open>n\<close> frames, at each frame the
  elapsed time is not negative and never exceeds the total, the remaining time is not negative,
  at the last frame nothing remains, and a later frame never has a smaller elapsed time.
\<close>

theorem take_times_coherent:
  assumes "double_rounding rnd" and "c = make_clock rnd n fps"
    and "frame < n" and "later < n" and "frame \<le> later"
  shows "times_frame (clock_at rnd c frame) = Some frame \<and>
    0 \<le> elapsed_ms (clock_at rnd c frame) \<and>
    elapsed_ms (clock_at rnd c frame) \<le> remaining_ms (before_first rnd c) \<and>
    0 \<le> remaining_ms (clock_at rnd c frame) \<and>
    (frame + 1 = n \<longrightarrow> remaining_ms (clock_at rnd c frame) = 0) \<and>
    elapsed_ms (clock_at rnd c frame) \<le> elapsed_ms (clock_at rnd c later)"
proof -
  have frames: "clock_frames c = n" by (simp add: assms(2) make_clock_def)
  have period: "0 \<le> period_ms c" using assms(1,2) by (simp add: period_nonneg)
  have mono: "mono rnd" using assms(1) by (simp add: double_rounding_def)
  have elapsed: "elapsed_ms (clock_at rnd c k) = rnd (real (Suc (unat k)) * period_ms c)"
    if "k < n" for k
    using that rounding_u32 [OF assms(1), of "k + 1"]
    by (auto simp: clock_at_def Let_def frames unat_next_frame [OF that])
  have total: "remaining_ms (before_first rnd c) = rnd (real (unat n) * period_ms c)"
    using rounding_u32 [OF assms(1), of n] by (simp add: before_first_def frames)
  have le_total: "elapsed_ms (clock_at rnd c frame) \<le> remaining_ms (before_first rnd c)"
    unfolding elapsed [OF assms(3)] total
  proof (intro monoD [OF mono] mult_right_mono period)
    have "Suc (unat frame) \<le> unat n"
      using assms(3) unfolding word_less_nat_alt by (rule Suc_leI)
    then show "real (Suc (unat frame)) \<le> real (unat n)" by (rule of_nat_mono)
  qed
  have "elapsed_ms (clock_at rnd c frame) \<le> elapsed_ms (clock_at rnd c later)"
    unfolding elapsed [OF assms(3)] elapsed [OF assms(4)]
  proof (intro monoD [OF mono] mult_right_mono period)
    have "Suc (unat frame) \<le> Suc (unat later)"
      using assms(5) unfolding word_le_nat_alt by (rule Suc_le_mono [THEN iffD2])
    then show "real (Suc (unat frame)) \<le> real (Suc (unat later))" by (rule of_nat_mono)
  qed
  moreover have "0 \<le> elapsed_ms (clock_at rnd c frame)"
    unfolding elapsed [OF assms(3)] by (intro rounding_nonneg [OF assms(1)] mult_nonneg_nonneg period of_nat_0_le_iff)
  moreover have "remaining_ms (clock_at rnd c frame) =
      (if frame + 1 = n then 0
       else rnd (remaining_ms (before_first rnd c) - elapsed_ms (clock_at rnd c frame)))"
    using assms(3) by (simp add: clock_at_def before_first_def Let_def frames not_le [symmetric])
  then have "0 \<le> remaining_ms (clock_at rnd c frame) \<and>
      (frame + 1 = n \<longrightarrow> remaining_ms (clock_at rnd c frame) = 0)"
    using rounding_nonneg [OF assms(1), of "remaining_ms (before_first rnd c) - elapsed_ms (clock_at rnd c frame)"]
      le_total by simp
  moreover have "times_frame (clock_at rnd c frame) = Some frame"
    using assms(3) by (simp add: clock_at_def Let_def frames not_le [symmetric])
  ultimately show ?thesis
    using le_total by blast
qed

theorem take_times_coherent_witness:
  "remaining_ms (clock_at (\<lambda>x. x) (make_clock (\<lambda>x. x) 3 (Some 50)) 2) = 0 \<and>
   elapsed_ms (clock_at (\<lambda>x. x) (make_clock (\<lambda>x. x) 3 (Some 50)) 2) = 60"
proof -
  from take_times_coherent [OF double_rounding_id refl, where n = 3 and frame = 2 and later = 2]
  have "remaining_ms (clock_at (\<lambda>x. x) (make_clock (\<lambda>x. x) 3 (Some 50)) 2) = 0" by simp
  then show ?thesis by (simp add: clock_at_def make_clock_def)
qed

text \<open>
  The Engine's frame index and the take's frame correspond one to one: index \<open>k + 1\<close> is frame
  \<open>k\<close> for every frame of the take, and every other index has no frame.
\<close>

theorem take_frame_from_engine_exact:
  "take_frame_from_engine c frame_index = Some frame \<longleftrightarrow>
     frame < clock_frames c \<and> unat frame_index = Suc (unat frame)"
proof (cases "frame_index = 0 \<or> ucast (clock_frames c) < frame_index")
  case True
  then have "unat frame_index = 0 \<or> unat (clock_frames c) < unat frame_index"
    by (auto simp: word_less_nat_alt)
  with True show ?thesis by (auto simp: take_frame_from_engine_def word_less_nat_alt)
next
  case False
  then have pos: "0 < unat frame_index" and le: "unat frame_index \<le> unat (clock_frames c)"
    by (auto simp: word_less_nat_alt unat_gt_0)
  have pred: "unat (frame_index - 1) = unat frame_index - 1"
    using False by (simp add: unat_minus_one)
  then have "unat (ucast (frame_index - 1) :: u32) = unat frame_index - 1"
    using le unat_u32_bound [of "clock_frames c"] by (subst unat_ucast_u64_u32) auto
  then show ?thesis
    using False le pos
    by (auto simp: take_frame_from_engine_def word_less_nat_alt word_unat_eq_iff)
qed

end
