(* ===== verification/Replay_Messages.thy ===== *)
theory Replay_Messages
  imports Prelude
begin

text \<open>
  The texts of the replay window: \<^verbatim>\<open>src/replay_inspection/replay_messages.{h,cpp}\<close>. A text is the
  list of its bytes in UTF-8.
\<close>

datatype replay_language = Spanish | English

datatype replay_message =
  Phase_preparing
  | Phase_playing
  | Phase_pausing
  | Phase_paused
  | Phase_recovering
  | Phase_interrupted
  | Phase_ended
  | Phase_closing
  | Busy_text
  | Not_available_text
  | No_next_frame_text
  | Recovery_failed_text
  | Recovering_text
  | Cause_video_lost
  | Cause_audio_device_removed
  | Cause_window_minimized
  | Cause_device_lost
  | Cause_unknown
  | No_pack_text
  | Label_rom
  | Label_take
  | Label_pack
  | Label_phase
  | Label_frame
  | Label_total_frames
  | Label_elapsed
  | Label_remaining
  | Label_processing
  | Label_fps
  | Label_occurrences
  | Label_overflow
  | Debug_hidden_hint
  | Label_time
  | Label_buttons
  | Label_step
  | End_hint

record message_text =
  msg_key :: replay_message
  msg_spanish :: string
  msg_english :: string

definition texts :: "message_text list" where
  "texts =
     [\<lparr>msg_key = Phase_preparing,
       msg_spanish = ''Preparando'',
       msg_english = ''Preparing''\<rparr>,
      \<lparr>msg_key = Phase_playing,
       msg_spanish = ''Reproduciendo'',
       msg_english = ''Playing''\<rparr>,
      \<lparr>msg_key = Phase_pausing,
       msg_spanish = ''Pausando'',
       msg_english = ''Pausing''\<rparr>,
      \<lparr>msg_key = Phase_paused,
       msg_spanish = ''En pausa'',
       msg_english = ''Paused''\<rparr>,
      \<lparr>msg_key = Phase_recovering,
       msg_spanish = ''Recuperando la posici'' @ [CHR 0xC3, CHR 0xB3] @ ''n'',
       msg_english = ''Recovering the position''\<rparr>,
      \<lparr>msg_key = Phase_interrupted,
       msg_spanish = ''Interrumpido'',
       msg_english = ''Interrupted''\<rparr>,
      \<lparr>msg_key = Phase_ended,
       msg_spanish = ''Fin de la toma'',
       msg_english = ''End of the take''\<rparr>,
      \<lparr>msg_key = Phase_closing,
       msg_spanish = ''Cerrando'',
       msg_english = ''Closing''\<rparr>,
      \<lparr>msg_key = Busy_text,
       msg_spanish = ''Ocupado'',
       msg_english = ''Busy''\<rparr>,
      \<lparr>msg_key = Not_available_text,
       msg_spanish = ''No disponible'',
       msg_english = ''Not available''\<rparr>,
      \<lparr>msg_key = No_next_frame_text,
       msg_spanish = ''Sin frame siguiente'',
       msg_english = ''No next frame''\<rparr>,
      \<lparr>msg_key = Recovery_failed_text,
       msg_spanish = ''No se pudo recuperar ese frame; se mantiene la posici'' @ [CHR 0xC3, CHR 0xB3] @ ''n'',
       msg_english = ''That frame could not be recovered; the position is kept''\<rparr>,
      \<lparr>msg_key = Recovering_text,
       msg_spanish = ''Recuperando'' @ [CHR 0xE2, CHR 0x80, CHR 0xA6],
       msg_english = ''Recovering'' @ [CHR 0xE2, CHR 0x80, CHR 0xA6]\<rparr>,
      \<lparr>msg_key = Cause_video_lost,
       msg_spanish = ''Se perdi'' @ [CHR 0xC3, CHR 0xB3] @ '' la imagen'',
       msg_english = ''The image was lost''\<rparr>,
      \<lparr>msg_key = Cause_audio_device_removed,
       msg_spanish = ''Se retir'' @ [CHR 0xC3, CHR 0xB3] @ '' el dispositivo de audio'',
       msg_english = ''The audio device was removed''\<rparr>,
      \<lparr>msg_key = Cause_window_minimized,
       msg_spanish = ''La ventana est'' @ [CHR 0xC3, CHR 0xA1] @ '' minimizada'',
       msg_english = ''The window is minimized''\<rparr>,
      \<lparr>msg_key = Cause_device_lost,
       msg_spanish = ''Se perdi'' @ [CHR 0xC3, CHR 0xB3] @ '' el dispositivo gr'' @ [CHR 0xC3, CHR 0xA1] @ ''fico; cancele desde el launcher'',
       msg_english = ''The graphics device was lost; cancel from the launcher''\<rparr>,
      \<lparr>msg_key = Cause_unknown,
       msg_spanish = ''Presentaci'' @ [CHR 0xC3, CHR 0xB3] @ ''n interrumpida'',
       msg_english = ''Presentation interrupted''\<rparr>,
      \<lparr>msg_key = No_pack_text,
       msg_spanish = ''Sin pack'',
       msg_english = ''No pack''\<rparr>,
      \<lparr>msg_key = Label_rom,
       msg_spanish = ''ROM'',
       msg_english = ''ROM file''\<rparr>,
      \<lparr>msg_key = Label_take,
       msg_spanish = ''Toma'',
       msg_english = ''Take''\<rparr>,
      \<lparr>msg_key = Label_pack,
       msg_spanish = ''Pack'',
       msg_english = ''HD pack''\<rparr>,
      \<lparr>msg_key = Label_phase,
       msg_spanish = ''Fase'',
       msg_english = ''Phase''\<rparr>,
      \<lparr>msg_key = Label_frame,
       msg_spanish = ''Frame'',
       msg_english = ''Frame number''\<rparr>,
      \<lparr>msg_key = Label_total_frames,
       msg_spanish = ''Frames totales'',
       msg_english = ''Total frames''\<rparr>,
      \<lparr>msg_key = Label_elapsed,
       msg_spanish = ''Transcurrido (ms)'',
       msg_english = ''Elapsed (ms)''\<rparr>,
      \<lparr>msg_key = Label_remaining,
       msg_spanish = ''Restante (ms)'',
       msg_english = ''Remaining (ms)''\<rparr>,
      \<lparr>msg_key = Label_processing,
       msg_spanish = ''Procesamiento (ms)'',
       msg_english = ''Processing (ms)''\<rparr>,
      \<lparr>msg_key = Label_fps,
       msg_spanish = ''Instant'' @ [CHR 0xC3, CHR 0xA1] @ ''neos (FPS)'',
       msg_english = ''Instantaneous (FPS)''\<rparr>,
      \<lparr>msg_key = Label_occurrences,
       msg_spanish = ''Ocurrencias'',
       msg_english = ''Occurrences''\<rparr>,
      \<lparr>msg_key = Label_overflow,
       msg_spanish = ''Filas no mostradas'',
       msg_english = ''Rows not shown''\<rparr>,
      \<lparr>msg_key = Debug_hidden_hint,
       msg_spanish = ''Pulse I para la depuraci'' @ [CHR 0xC3, CHR 0xB3] @ ''n'',
       msg_english = ''Press I for debug''\<rparr>,
      \<lparr>msg_key = Label_time,
       msg_spanish = ''Tiempo (s)'',
       msg_english = ''Time (s)''\<rparr>,
      \<lparr>msg_key = Label_buttons,
       msg_spanish = ''Mando'',
       msg_english = ''Pad''\<rparr>,
      \<lparr>msg_key = Label_step,
       msg_spanish = ''Paso'',
       msg_english = ''Step''\<rparr>,
      \<lparr>msg_key = End_hint,
       msg_spanish = ''Fin de la reproducci'' @ [CHR 0xC3, CHR 0xB3] @ ''n. Flechas: inspeccionar '' @ [CHR 0xC2, CHR 0xB7] @ '' Esc: cerrar la ventana'',
       msg_english = ''End of the replay. Arrows: inspect '' @ [CHR 0xC2, CHR 0xB7] @ '' Esc: close the window''\<rparr>]"

definition all_replay_messages :: "replay_message list" where
  "all_replay_messages = map msg_key texts"

definition replay_message_text :: "replay_language \<Rightarrow> replay_message \<Rightarrow> string" where
  "replay_message_text language message =
     (case List.find (\<lambda>t. msg_key t = message) texts of
        Some t \<Rightarrow> if language = English then msg_english t else msg_spanish t
      | None \<Rightarrow> [])"

definition parse_replay_language :: "string \<Rightarrow> replay_language" where
  "parse_replay_language code = (if code = ''en'' then English else Spanish)"

definition interruption_cause_message :: "string \<Rightarrow> replay_message" where
  "interruption_cause_message cause =
     (if cause = ''video_acquire_failed'' \<or> cause = ''video_present_failed'' then Cause_video_lost
      else if cause = ''audio_device_removed'' then Cause_audio_device_removed
      else if cause = ''window_minimized'' then Cause_window_minimized
      else if cause = ''device_lost'' then Cause_device_lost
      else Cause_unknown)"

section \<open>Properties\<close>

lemma all_replay_messages_eq:
  "all_replay_messages =
     [Phase_preparing, Phase_playing, Phase_pausing, Phase_paused, Phase_recovering,
     Phase_interrupted, Phase_ended, Phase_closing, Busy_text, Not_available_text,
     No_next_frame_text, Recovery_failed_text, Recovering_text, Cause_video_lost,
     Cause_audio_device_removed, Cause_window_minimized, Cause_device_lost, Cause_unknown,
     No_pack_text, Label_rom, Label_take, Label_pack, Label_phase, Label_frame,
     Label_total_frames, Label_elapsed, Label_remaining, Label_processing, Label_fps,
     Label_occurrences, Label_overflow, Debug_hidden_hint, Label_time, Label_buttons,
     Label_step, End_hint]"
  unfolding all_replay_messages_def texts_def by (simp only: list.map message_text.simps)

lemma all_messages_listed: "message \<in> set all_replay_messages"
  unfolding all_replay_messages_eq by (cases message) simp_all

lemma all_messages_distinct: "distinct all_replay_messages"
  unfolding all_replay_messages_eq by simp

lemma texts_filled: "\<forall>t \<in> set texts. msg_spanish t \<noteq> [] \<and> msg_english t \<noteq> []"
  by (simp add: texts_def)

lemma texts_differ: "\<forall>t \<in> set texts. msg_spanish t \<noteq> msg_english t"
  by (simp add: texts_def)

lemma text_of_message:
  obtains t where "t \<in> set texts" and "msg_key t = message"
    and "List.find (\<lambda>t. msg_key t = message) texts = Some t"
proof -
  obtain u where "u \<in> set texts" "msg_key u = message"
    using all_messages_listed [of message] by (auto simp: all_replay_messages_def)
  then have "List.find (\<lambda>t. msg_key t = message) texts \<noteq> None"
    by (auto simp: find_None_iff)
  then obtain t where found: "List.find (\<lambda>t. msg_key t = message) texts = Some t"
    by blast
  from find_SomeD [OF found] show thesis
    by (intro that [OF _ _ found]) simp_all
qed

lemma replay_message_text_nonempty: "replay_message_text language message \<noteq> []"
proof -
  obtain t where "t \<in> set texts" "List.find (\<lambda>t. msg_key t = message) texts = Some t"
    by (rule text_of_message)
  then show ?thesis using texts_filled by (simp add: replay_message_text_def)
qed

text \<open>
  The catalogue of the replay window is complete. Every message appears exactly once in the
  list of all messages, it has a text in both languages, the two texts differ, and so the window
  never draws an empty label; any language code other than en is Spanish.
\<close>

theorem replay_catalogue_complete:
  "set all_replay_messages = UNIV \<and> distinct all_replay_messages \<and>
   replay_message_text language message \<noteq> [] \<and>
   replay_message_text Spanish message \<noteq> replay_message_text English message \<and>
   (parse_replay_language code = English \<longleftrightarrow> code = ''en'')"
proof -
  obtain t where "t \<in> set texts" "List.find (\<lambda>t. msg_key t = message) texts = Some t"
    by (rule text_of_message)
  then have "replay_message_text Spanish message \<noteq> replay_message_text English message"
    using texts_differ by (simp add: replay_message_text_def)
  moreover have "set all_replay_messages = UNIV"
    using all_messages_listed by blast
  ultimately show ?thesis
    using all_messages_distinct replay_message_text_nonempty
    by (simp add: parse_replay_language_def)
qed

end
