(* ===== verification/Text_Scan.thy ===== *)
theory Text_Scan
  imports Prelude
begin

text \<open>
  The text routines that the parsers and printers of the sources share: the blank-separated words
  of a line, the lines of a text, \<^verbatim>\<open>std::from_chars\<close> and \<^verbatim>\<open>std::to_string\<close> on unsigned integers.
  A text is a list of characters.

  \<open>from_chars\<close> reads the longest run of digits; it fails on an empty run (invalid_argument) and on
  a value outside the type (result_out_of_range). The results proved here are the round trips
  that the printers of the components rely on: a printed number is read back, and the words of
  a line printed with single blanks are the words it was printed from.
\<close>

section \<open>Digits and numbers\<close>

definition is_digit :: "char \<Rightarrow> bool" where
  "is_digit c \<longleftrightarrow> 48 \<le> (of_char c :: nat) \<and> (of_char c :: nat) \<le> 57"

definition digit_value :: "char \<Rightarrow> nat" where
  "digit_value c = of_char c - 48"

definition digits_value :: "string \<Rightarrow> nat" where
  "digits_value ds = foldl (\<lambda>acc d. 10 * acc + digit_value d) 0 ds"

definition from_chars :: "nat \<Rightarrow> string \<Rightarrow> (nat \<times> string) option" where
  "from_chars limit text =
     (let ds = takeWhile is_digit text
      in if ds = [] \<or> limit \<le> digits_value ds then None
         else Some (digits_value ds, dropWhile is_digit text))"

definition parse_number :: "nat \<Rightarrow> string \<Rightarrow> nat option" where
  "parse_number limit text =
     (case from_chars limit text of
        Some (v, []) \<Rightarrow> Some v
      | _ \<Rightarrow> None)"

definition digit_char :: "nat \<Rightarrow> char" where
  "digit_char d = char_of (48 + d)"

fun to_string :: "nat \<Rightarrow> string" where
  "to_string n = (if n < 10 then [digit_char n] else to_string (n div 10) @ [digit_char (n mod 10)])"

declare to_string.simps [simp del]

lemma of_digit_char [simp]: "d < 10 \<Longrightarrow> (of_char (digit_char d) :: nat) = 48 + d"
  by (simp add: digit_char_def of_char_mod_256)

lemma is_digit_digit_char [simp]: "d < 10 \<Longrightarrow> is_digit (digit_char d)"
  by (simp add: is_digit_def)

lemma digit_value_digit_char [simp]: "d < 10 \<Longrightarrow> digit_value (digit_char d) = d"
  by (simp add: digit_value_def)

lemma digits_value_snoc [simp]:
  "digits_value (ds @ [d]) = 10 * digits_value ds + digit_value d"
  by (simp add: digits_value_def)

lemma digits_value_Nil [simp]: "digits_value [] = 0"
  by (simp add: digits_value_def)

lemma digits_value_single [simp]: "digits_value [d] = digit_value d"
  by (simp add: digits_value_def)

lemma to_string_not_Nil [simp]: "to_string n \<noteq> []"
  by (subst to_string.simps) simp

lemma to_string_digits: "c \<in> set (to_string n) \<Longrightarrow> is_digit c"
proof (induction n rule: to_string.induct)
  case (1 n)
  then show ?case
    by (subst (asm) to_string.simps) (auto split: if_splits)
qed

lemma digits_value_to_string [simp]: "digits_value (to_string n) = n"
proof (induction n rule: to_string.induct)
  case (1 n)
  then show ?case
    by (subst to_string.simps) (simp add: mult.commute)
qed

lemma length_to_string: "n < 10 ^ k \<Longrightarrow> 0 < k \<Longrightarrow> length (to_string n) \<le> k"
proof (induction k arbitrary: n)
  case (Suc k)
  show ?case
  proof (cases "n < 10")
    case True
    then show ?thesis by (subst to_string.simps) simp
  next
    case False
    with Suc.prems have "n div 10 < 10 ^ k" and "0 < k"
      by (auto intro!: less_mult_imp_div_less simp: mult.commute elim: not0_implies_Suc) (cases k; simp)
    then show ?thesis using Suc.IH [of "n div 10"] False by (subst to_string.simps) simp
  qed
qed simp

lemma from_chars_to_string:
  assumes "n < limit" and "rest = [] \<or> \<not> is_digit (hd rest)"
  shows "from_chars limit (to_string n @ rest) = Some (n, rest)"
proof -
  have "takeWhile is_digit (to_string n @ rest) = to_string n \<and>
        dropWhile is_digit (to_string n @ rest) = rest"
    using assms(2) to_string_digits [of _ n] by (cases rest) (auto simp: takeWhile_append dropWhile_append)
  with assms(1) show ?thesis
    by (simp add: from_chars_def)
qed

lemma parse_number_to_string [simp]: "n < limit \<Longrightarrow> parse_number limit (to_string n) = Some n"
  using from_chars_to_string [of n limit "[]"] by (simp add: parse_number_def)

lemma parse_number_bound: "parse_number limit text = Some n \<Longrightarrow> n < limit"
  by (auto simp: parse_number_def from_chars_def Let_def split: if_splits option.splits list.splits)

section \<open>Words of a line\<close>

function split_words :: "(char \<Rightarrow> bool) \<Rightarrow> string \<Rightarrow> string list" where
  "split_words blank line =
     (let rest = dropWhile blank line
      in if rest = [] then []
         else takeWhile (\<lambda>c. \<not> blank c) rest # split_words blank (dropWhile (\<lambda>c. \<not> blank c) rest))"
  by pat_completeness auto

termination
proof (relation "measure (length \<circ> snd)")
  fix blank :: "char \<Rightarrow> bool" and line rest
  assume rest: "rest = dropWhile blank line" "rest \<noteq> []"
  then obtain c cs where cs: "rest = c # cs" "\<not> blank c"
    by (metis hd_dropWhile list.exhaust_sel)
  then have "length (dropWhile (\<lambda>c. \<not> blank c) rest) \<le> length cs"
    by (simp add: length_dropWhile_le)
  also have "length cs < length line"
    using length_dropWhile_le [of blank line] cs rest by simp
  finally show "((blank, dropWhile (\<lambda>c. \<not> blank c) rest), blank, line) \<in> measure (length \<circ> snd)"
    by simp
qed simp

declare split_words.simps [simp del]

fun join_words :: "char \<Rightarrow> string list \<Rightarrow> string" where
  "join_words sep [] = []"
| "join_words sep [w] = w"
| "join_words sep (w # ws) = w @ [sep] @ join_words sep ws"

definition solid :: "(char \<Rightarrow> bool) \<Rightarrow> string \<Rightarrow> bool" where
  "solid blank w \<longleftrightarrow> w \<noteq> [] \<and> (\<forall>c \<in> set w. \<not> blank c)"

lemma split_words_solid:
  assumes "solid blank w" and "rest = [] \<or> blank (hd rest)"
  shows "split_words blank (w @ rest) = w # split_words blank rest"
proof -
  obtain c cs where w: "w = c # cs" "\<not> blank c"
    using assms(1) by (cases w) (auto simp: solid_def)
  have "takeWhile (\<lambda>c. \<not> blank c) (w @ rest) = w \<and> dropWhile (\<lambda>c. \<not> blank c) (w @ rest) = rest"
    using assms by (cases rest) (auto simp: solid_def takeWhile_append dropWhile_append)
  with w show ?thesis
    by (subst split_words.simps) simp
qed

lemma split_words_Nil [simp]: "split_words blank [] = []"
  by (subst split_words.simps) simp

lemma split_words_blank: "blank c \<Longrightarrow> split_words blank (c # cs) = split_words blank cs"
  by (subst (1 2) split_words.simps) simp

lemma split_join_words:
  "blank sep \<Longrightarrow> \<forall>w \<in> set ws. solid blank w \<Longrightarrow> split_words blank (join_words sep ws) = ws"
proof (induction ws rule: join_words.induct)
  case (2 sep w)
  then show ?case using split_words_solid [of blank w "[]"] by simp
next
  case (3 sep w v vs)
  then have "split_words blank (w @ sep # join_words sep (v # vs)) = w # split_words blank (sep # join_words sep (v # vs))"
    by (intro split_words_solid) auto
  with 3 show ?case by (simp add: split_words_blank)
qed simp

lemma split_words_are_solid: "w \<in> set (split_words blank line) \<Longrightarrow> solid blank w"
proof (induction blank line rule: split_words.induct)
  case (1 blank line)
  let ?rest = "dropWhile blank line"
  show ?case
  proof (cases "?rest = []")
    case True
    with 1(2) show ?thesis by (subst (asm) split_words.simps) simp
  next
    case False
    then have "solid blank (takeWhile (\<lambda>c. \<not> blank c) ?rest)"
      using hd_dropWhile [of blank line]
      by (cases ?rest) (auto simp: solid_def dest: set_takeWhileD)
    moreover have "split_words blank line =
        takeWhile (\<lambda>c. \<not> blank c) ?rest # split_words blank (dropWhile (\<lambda>c. \<not> blank c) ?rest)"
      using False by (subst split_words.simps) (simp add: Let_def)
    ultimately show ?thesis
      using 1(1) [OF refl False] 1(2) by auto
  qed
qed

section \<open>Lines of a text\<close>

text \<open>
  The loops over lines find the next newline, take what stands before it and continue after it
  while any text is left: a final newline opens no further line.
\<close>

function split_lines :: "string \<Rightarrow> string list" where
  "split_lines text =
     (if text = [] then []
      else takeWhile (\<lambda>c. c \<noteq> CHR 0x0A) text # split_lines (drop 1 (dropWhile (\<lambda>c. c \<noteq> CHR 0x0A) text)))"
  by pat_completeness auto

termination
proof (relation "measure length")
  fix t :: string
  assume "t \<noteq> []"
  then show "(drop 1 (dropWhile (\<lambda>c. c \<noteq> CHR 0x0A) t), t) \<in> measure length"
    using length_dropWhile_le [of "\<lambda>c. c \<noteq> CHR 0x0A" t] by (cases t) auto
qed simp

declare split_lines.simps [simp del]

lemma split_lines_Nil [simp]: "split_lines [] = []"
  by (subst split_lines.simps) simp

lemma split_lines_line:
  assumes "CHR 0x0A \<notin> set line"
  shows "split_lines (line @ CHR 0x0A # rest) = line # split_lines rest"
proof -
  have "takeWhile (\<lambda>c. c \<noteq> CHR 0x0A) (line @ CHR 0x0A # rest) = line \<and>
        dropWhile (\<lambda>c. c \<noteq> CHR 0x0A) (line @ CHR 0x0A # rest) = CHR 0x0A # rest"
    using assms by (auto simp: takeWhile_append dropWhile_append)
  then show ?thesis
    by (subst split_lines.simps) simp
qed

lemma split_lines_concat:
  "\<forall>line \<in> set ls. CHR 0x0A \<notin> set line \<Longrightarrow>
     split_lines (concat (map (\<lambda>line. line @ [CHR 0x0A]) ls)) = ls"
  by (induction ls) (auto simp: split_lines_line)

end
