(* ===== verification/Debug_View.thy ===== *)
theory Debug_View
  imports Frame_Record Take_Clock Replay_Messages Text_Scan
begin

text \<open>
  The lines that the debug overlay draws for a frame record, and its scrolling:
  \<^verbatim>\<open>src/replay_inspection/debug_view.{h,cpp}\<close>.

  \<open>decimal\<close> prints into a buffer of 64 characters; \<^verbatim>\<open>snprintf\<close> returns the length the whole text
  would have, so a text that does not fit makes the code read past what was written. That case
  is \<open>None\<close> here, and the theorem on the lines shows it does not happen for values the window can
  show. Sizes are natural numbers: the scroll position is clamped after every operation, so its
  sums stay far below the width of \<^verbatim>\<open>size_t\<close>.
\<close>

unbundle bit_operations_syntax

section \<open>Lines\<close>

record debug_line =
  line_label :: string
  line_value :: string

definition round_half_even :: "real \<Rightarrow> int" where
  "round_half_even y =
     (let f = \<lfloor>y\<rfloor>; d = y - of_int f
      in if d < 1 / 2 \<or> d = 1 / 2 \<and> even f then f else f + 1)"

definition fixed2 :: "real \<Rightarrow> string" where
  "fixed2 x =
     (let m = nat (round_half_even (100 * \<bar>x\<bar>))
      in (if x < 0 then ''-'' else []) @ to_string (m div 100) @ ''.'' @
         [digit_char (m div 10 mod 10), digit_char (m mod 10)])"

definition decimal :: "real \<Rightarrow> string option" where
  "decimal x = (if length (fixed2 x) < 64 then Some (fixed2 x) else None)"

definition hex_digit :: "u64 \<Rightarrow> char" where
  "hex_digit d = ''0123456789abcdef'' ! unat (d AND 15)"

definition hexadecimal :: "u64 \<Rightarrow> string" where
  "hexadecimal value = map (\<lambda>i. hex_digit (drop_bit (4 * i) value)) (rev [0..<16])"

fun status_code :: "occurrence_status \<Rightarrow> string" where
  "status_code Replaced = ''replaced''"
| "status_code Original_unassigned = ''original_unassigned''"
| "status_code Assigned_not_applied = ''assigned_not_applied''"
| "status_code Hidden_by_author = ''hidden_by_author''"
| "status_code (Other_status _) = ''unknown''"

fun draw_code :: "draw_outcome \<Rightarrow> string" where
  "draw_code In_pass = ''in_pass''"
| "draw_code Partitioned = ''partitioned''"
| "draw_code Lane = ''lane''"
| "draw_code Discarded = ''discarded''"
| "draw_code (Other_draw _) = ''unknown''"

definition message_line :: "replay_language \<Rightarrow> replay_message \<Rightarrow> string \<Rightarrow> debug_line" where
  "message_line language message v =
     \<lparr>line_label = replay_message_text language message, line_value = v\<rparr>"

definition decimal_line :: "replay_language \<Rightarrow> replay_message \<Rightarrow> real \<Rightarrow> debug_line list option" where
  "decimal_line language message x =
     map_option (\<lambda>v. [message_line language message v]) (decimal x)"

fun optional_text :: "string \<Rightarrow> string option \<Rightarrow> string" where
  "optional_text prefix None = []"
| "optional_text prefix (Some v) = prefix @ v"

definition row_line :: "occurrence_row \<Rightarrow> debug_line" where
  "row_line row =
     \<lparr>line_label = ''#'' @ to_string (unat (row_index row)),
      line_value =
        ''slot '' @ to_string (unat (row_slot row)) @ '' chain '' @ to_string (unat (row_chain row)) @
        '' id '' @ hexadecimal (row_identity row) @ '' '' @ status_code (row_status row) @
        optional_text '' pose '' (row_pose row) @
        optional_text '' asset '' (row_asset row) @
        optional_text '' draw '' (map_option draw_code (row_draw row)) @
        optional_text '' reason '' (row_reason row)\<rparr>"

definition overflow_line :: "replay_language \<Rightarrow> row_overflow \<Rightarrow> debug_line" where
  "overflow_line language v =
     message_line language Label_overflow
       (to_string (rows_total v - rows_limit v) @ '' ('' @ to_string (rows_total v) @ '' > '' @
        to_string (rows_limit v) @ '')'')"

fun concat_parts :: "'a list option list \<Rightarrow> 'a list option" where
  "concat_parts [] = Some []"
| "concat_parts (None # ps) = None"
| "concat_parts (Some p # ps) = map_option (\<lambda>rest. p @ rest) (concat_parts ps)"

definition measure_part :: "replay_language \<Rightarrow> replay_message \<Rightarrow> real option \<Rightarrow> debug_line list option" where
  "measure_part language message value =
     (case value of Some x \<Rightarrow> decimal_line language message x | None \<Rightarrow> Some [])"

definition debug_lines ::
    "(real \<Rightarrow> real) \<Rightarrow> frame_record \<Rightarrow> take_clock \<Rightarrow> replay_language \<Rightarrow> debug_line list option" where
  "debug_lines rnd r clock language =
     (let times = clock_at rnd clock (rec_frame r); g = rec_general r; m = rec_measurements r
      in concat_parts
        [Some
           [message_line language Label_rom (gen_rom g),
            message_line language Label_take (gen_take g),
            message_line language Label_pack
              (case gen_pack g of Some p \<Rightarrow> p | None \<Rightarrow> replay_message_text language No_pack_text),
            message_line language Label_phase (gen_phase g),
            message_line language Label_frame (to_string (unat (rec_frame r))),
            message_line language Label_total_frames (to_string (unat (gen_total_frames g)))],
         decimal_line language Label_elapsed (elapsed_ms times),
         decimal_line language Label_remaining (remaining_ms times),
         Some (if gen_buttons g \<noteq> [] then [message_line language Label_buttons (gen_buttons g)] else []),
         Some (if gen_step g \<noteq> [] then [message_line language Label_step (gen_step g)] else []),
         measure_part language Label_processing (processing_ms m),
         measure_part language Label_fps (fps_instant m),
         Some [message_line language Label_occurrences (to_string (length (rec_rows r)))],
         Some (map row_line (rec_rows r)),
         Some (case rec_overflow r of Some v \<Rightarrow> [overflow_line language v] | None \<Rightarrow> [])])"

section \<open>Scrolling\<close>

datatype scroll_key = Wheel_up | Wheel_down | Page_up | Page_down | Home_key | End_key

definition scroll_key_of_name :: "string \<Rightarrow> scroll_key option" where
  "scroll_key_of_name name =
     map_of [(''wheel_up'', Wheel_up), (''wheel_down'', Wheel_down), (''page_up'', Page_up),
             (''page_down'', Page_down), (''home'', Home_key), (''end'', End_key)] name"

definition scroll_apply :: "nat \<Rightarrow> scroll_key \<Rightarrow> nat \<Rightarrow> nat \<Rightarrow> nat" where
  "scroll_apply first k visible_lines total_lines =
     (let last_first = (if visible_lines < total_lines then total_lines - visible_lines else 0);
          page = max visible_lines 1;
          moved =
            (case k of
               Wheel_up \<Rightarrow> if 3 < first then first - 3 else 0
             | Wheel_down \<Rightarrow> first + 3
             | Page_up \<Rightarrow> if page < first then first - page else 0
             | Page_down \<Rightarrow> first + page
             | Home_key \<Rightarrow> 0
             | End_key \<Rightarrow> last_first)
      in min moved last_first)"

definition scroll_reset :: "nat \<Rightarrow> nat" where
  "scroll_reset first = 0"

section \<open>Properties\<close>

lemma round_half_even_le: "0 \<le> y \<Longrightarrow> real (nat (round_half_even y)) \<le> y + 1"
  by (simp add: round_half_even_def Let_def) linarith

lemma decimal_prints:
  assumes "\<bar>x\<bar> < 10 ^ 50"
  shows "decimal x = Some (fixed2 x)"
proof -
  define m where "m = nat (round_half_even (100 * \<bar>x\<bar>))"
  have "real m \<le> 100 * \<bar>x\<bar> + 1"
    unfolding m_def by (rule round_half_even_le) simp
  also have "\<dots> < real (10 ^ 55)"
    using assms by simp
  finally have "m < 10 ^ 55"
    by (simp only: of_nat_less_iff)
  then have "length (to_string (m div 100)) \<le> 55"
    by (intro length_to_string) (auto intro: le_less_trans [OF div_le_dividend])
  moreover have "length (fixed2 x) \<le> length (to_string (m div 100)) + 4"
    by (simp add: fixed2_def Let_def m_def)
  ultimately show ?thesis
    by (simp add: decimal_def)
qed

lemma decimal_line_prints:
  "\<bar>x\<bar> < 10 ^ 50 \<Longrightarrow> decimal_line language message x = Some [message_line language message (fixed2 x)]"
  by (simp add: decimal_line_def decimal_prints)

lemma message_line_label [simp]: "line_label (message_line language message v) \<noteq> []"
  by (simp add: message_line_def replay_message_text_nonempty)

lemma measure_part_prints:
  "(case x of Some v \<Rightarrow> \<bar>v\<bar> < 10 ^ 50 | None \<Rightarrow> True) \<Longrightarrow>
   measure_part language message x =
     Some (case x of Some v \<Rightarrow> [message_line language message (fixed2 v)] | None \<Rightarrow> [])"
  by (simp add: measure_part_def decimal_line_prints split: option.splits)

lemma row_line_label [simp]: "line_label (row_line row) \<noteq> []"
  by (simp add: row_line_def)

lemma overflow_line_label [simp]: "line_label (overflow_line language v) \<noteq> []"
  by (simp add: overflow_line_def)

definition drawable :: "(real \<Rightarrow> real) \<Rightarrow> frame_record \<Rightarrow> take_clock \<Rightarrow> bool" where
  "drawable rnd r clock \<longleftrightarrow>
     \<bar>elapsed_ms (clock_at rnd clock (rec_frame r))\<bar> < 10 ^ 50 \<and>
     \<bar>remaining_ms (clock_at rnd clock (rec_frame r))\<bar> < 10 ^ 50 \<and>
     (case processing_ms (rec_measurements r) of Some x \<Rightarrow> \<bar>x\<bar> < 10 ^ 50 | None \<Rightarrow> True) \<and>
     (case fps_instant (rec_measurements r) of Some x \<Rightarrow> \<bar>x\<bar> < 10 ^ 50 | None \<Rightarrow> True)"

definition given :: "'a option \<Rightarrow> nat" where
  "given x = (if x = None then 0 else 1)"

lemma length_optional_line: "length (case x of None \<Rightarrow> [] | Some v \<Rightarrow> [f v]) = given x"
  by (simp add: given_def split: option.split)

text \<open>
  The overlay draws every known fact of a record and nothing else. For a record whose times
  fit the number format, the lines exist, every line has a label, and there is one line for each
  of the eight general values and the row count, one for each row, and one for the pad, the
  step, each measurement and the overflow exactly when the record has it.
\<close>

theorem debug_lines_complete:
  assumes "drawable rnd r clock"
  shows "\<exists>ls. debug_lines rnd r clock language = Some ls \<and>
    (\<forall>l \<in> set ls. line_label l \<noteq> []) \<and>
    length ls = 9 + length (rec_rows r) +
      (if gen_buttons (rec_general r) = [] then 0 else 1) + (if gen_step (rec_general r) = [] then 0 else 1) +
      given (processing_ms (rec_measurements r)) + given (fps_instant (rec_measurements r)) +
      given (rec_overflow r)"
proof -
  let ?times = "clock_at rnd clock (rec_frame r)" and ?m = "rec_measurements r"
  have "\<bar>elapsed_ms ?times\<bar> < 10 ^ 50" and "\<bar>remaining_ms ?times\<bar> < 10 ^ 50"
    and "case processing_ms ?m of Some x \<Rightarrow> \<bar>x\<bar> < 10 ^ 50 | None \<Rightarrow> True"
    and "case fps_instant ?m of Some x \<Rightarrow> \<bar>x\<bar> < 10 ^ 50 | None \<Rightarrow> True"
    using assms unfolding drawable_def by blast+
  note printed = decimal_line_prints [OF this(1)] decimal_line_prints [OF this(2)]
    measure_part_prints [OF this(3)] measure_part_prints [OF this(4)]
  define ls where "ls = the (debug_lines rnd r clock language)"
  have lines: "debug_lines rnd r clock language = Some ls"
    unfolding ls_def debug_lines_def Let_def printed concat_parts.simps option.map option.sel ..
  have "\<forall>l \<in> set ls. line_label l \<noteq> []"
    unfolding ls_def debug_lines_def Let_def printed concat_parts.simps option.map option.sel
      set_append ball_Un
    by (intro conjI) (auto split: option.split)
  moreover have "length ls = 9 + length (rec_rows r) +
      (if gen_buttons (rec_general r) = [] then 0 else 1) + (if gen_step (rec_general r) = [] then 0 else 1) +
      given (processing_ms ?m) + given (fps_instant ?m) + given (rec_overflow r)"
    unfolding ls_def debug_lines_def Let_def printed concat_parts.simps option.map option.sel length_append
    by (simp add: length_optional_line)
  ultimately show ?thesis using lines by blast
qed

theorem debug_lines_complete_witness:
  "\<exists>ls. debug_lines (\<lambda>x. x)
      (make_frame_record 4 1 example_general (copy_observation example_view)
        \<lparr>processing_ms = Some 5, fps_instant = None\<rparr>)
      (make_clock (\<lambda>x. x) 60 (Some 50)) English = Some ls \<and> length ls = 13"
proof -
  let ?r = "make_frame_record 4 1 example_general (copy_observation example_view)
        \<lparr>processing_ms = Some 5, fps_instant = None\<rparr>"
  have "drawable (\<lambda>x. x) ?r (make_clock (\<lambda>x. x) 60 (Some 50))"
    by (simp add: drawable_def make_frame_record_def clock_at_def make_clock_def Let_def)
  from debug_lines_complete [OF this, of English] show ?thesis
    by (simp add: make_frame_record_def copy_observation_def example_view_def example_general_def
        Let_def max_record_rows_def given_def) blast
qed

text \<open>
  Scrolling never leaves the text and never skips a line. After any scroll key the first
  visible line is at most the number of hidden lines (so the last page is always full and a text
  that fits is not scrolled), Home and End reach the ends, and a page moves by at most the lines
  that were visible.
\<close>

theorem scroll_within_text:
  "scroll_apply first k v t \<le> t - v \<and>
   scroll_apply first Home_key v t = 0 \<and> scroll_apply first End_key v t = t - v \<and>
   scroll_apply first Page_down v t \<le> first + max v 1 \<and>
   min first (t - v) \<le> scroll_apply first Page_up v t + max v 1 \<and>
   (first < t - v \<longrightarrow> first < scroll_apply first Wheel_down v t \<and> first < scroll_apply first Page_down v t) \<and>
   (0 < first \<longrightarrow> scroll_apply first Wheel_up v t < first \<and> scroll_apply first Page_up v t < first)"
  by (cases k) (auto simp: scroll_apply_def Let_def)

theorem scroll_within_text_witness:
  "scroll_apply 10 Page_down 5 22 = 15 \<and> scroll_apply 15 Wheel_down 5 22 \<le> 17 \<and>
   15 < scroll_apply 15 Wheel_down 5 22"
proof -
  have "15 < (22::nat) - 5" by simp
  then have "15 < scroll_apply 15 Wheel_down 5 22 \<and> scroll_apply 15 Wheel_down 5 22 \<le> 17"
    using scroll_within_text [of 15 Wheel_down 5 22] by simp
  then show ?thesis by (simp add: scroll_apply_def)
qed

end
