(* ===== verification/Input_Script.thy ===== *)
theory Input_Script
  imports Debug_View Key_Router
begin

text \<open>
  The scripted input of the QA sessions: \<^verbatim>\<open>src/replay_inspection/input_script.{h,cpp}\<close>, its parser
  and its evaluation against the state of the take.

  Numbers of a script are natural numbers below \<open>2 ^ 64\<close>, which the parser enforces. The times of
  the evaluation are doubles (theory Double_Rounding). An absent \<^verbatim>\<open>last_fired_ms_\<close> is never read:
  \<open>due\<close> sets it before its loop.
\<close>

section \<open>Data\<close>

datatype script_trigger_kind = Trigger_frame | Trigger_paused | Trigger_after_ms

record script_trigger =
  trig_kind :: script_trigger_kind
  trig_value :: nat
  trig_retry_ms :: "nat option"

datatype script_action_kind =
  Act_key_down | Act_key_up | Act_key_repeat | Act_focus_lost | Act_focus_gained | Act_minimize
  | Act_restore | Act_video_fail | Act_audio_removed | Act_audio_added | Act_close
  | Act_corrupt_checkpoints | Act_corrupt_visual_state | Act_scroll

record script_action =
  act_kind :: script_action_kind
  act_key :: key
  act_count :: nat
  act_scroll :: scroll_key
  act_retry :: bool

record script_step =
  step_trigger :: script_trigger
  step_action :: script_action

definition make_action :: "script_action_kind \<Rightarrow> key \<Rightarrow> nat \<Rightarrow> script_action" where
  "make_action kind k count =
     \<lparr>act_kind = kind, act_key = k, act_count = count, act_scroll = Home_key, act_retry = False\<rparr>"

type_synonym script_error = "nat \<times> string"

section \<open>Parser\<close>

definition script_blank :: "char \<Rightarrow> bool" where
  "script_blank c \<longleftrightarrow> c = CHR '' '' \<or> c = CHR 0x09"

definition script_words :: "string \<Rightarrow> string list" where
  "script_words line = split_words script_blank line"

definition script_number :: "string \<Rightarrow> nat option" where
  "script_number t = parse_number (2 ^ 64) t"

definition starts_with :: "string \<Rightarrow> string \<Rightarrow> bool" where
  "starts_with p t \<longleftrightarrow> take (length p) t = p"

fun first_trigger :: "(string \<times> script_trigger_kind) list \<Rightarrow> string \<Rightarrow> script_trigger option" where
  "first_trigger [] t = None"
| "first_trigger ((p, kind) # ks) t =
     (if starts_with p t then
        (case script_number (drop (length p) t) of
           Some v \<Rightarrow> Some \<lparr>trig_kind = kind, trig_value = v, trig_retry_ms = None\<rparr>
         | None \<Rightarrow> first_trigger ks t)
      else first_trigger ks t)"

definition parse_trigger :: "string \<Rightarrow> script_trigger option" where
  "parse_trigger t =
     first_trigger
       [(''frame='', Trigger_frame), (''paused='', Trigger_paused), (''after='', Trigger_after_ms)] t"

definition script_key :: "string \<Rightarrow> key option" where
  "script_key t =
     map_of [(''space'', Key_space), (''left'', Key_left), (''right'', Key_right), (''up'', Key_up),
             (''down'', Key_down), (''i'', Key_info), (''other'', Key_other)] t"

definition simple_action :: "string \<Rightarrow> script_action_kind option" where
  "simple_action name =
     map_of [(''minimize'', Act_minimize), (''restore'', Act_restore),
             (''audio_removed'', Act_audio_removed), (''audio_added'', Act_audio_added),
             (''close'', Act_close), (''corrupt_checkpoints'', Act_corrupt_checkpoints),
             (''corrupt_visual_state'', Act_corrupt_visual_state)] name"

definition parse_action :: "string list \<Rightarrow> script_action option" where
  "parse_action parts =
     (let name = parts ! 1; count = length parts - 2
      in if name = ''key'' \<and> count = 2 then
           (case script_key (parts ! 2) of
              None \<Rightarrow> None
            | Some k \<Rightarrow>
                if parts ! 3 = ''down'' then Some (make_action Act_key_down k 0)
                else if parts ! 3 = ''up'' then Some (make_action Act_key_up k 0)
                else if parts ! 3 = ''repeat'' then Some (make_action Act_key_repeat k 0)
                else None)
         else if name = ''focus'' \<and> count = 1 then
           (if parts ! 2 = ''on'' then Some (make_action Act_focus_gained Key_other 0)
            else if parts ! 2 = ''off'' then Some (make_action Act_focus_lost Key_other 0)
            else None)
         else if name = ''scroll'' \<and> count = 1 then
           map_option (\<lambda>scroll. (make_action Act_scroll Key_other 0)\<lparr>act_scroll := scroll\<rparr>)
             (scroll_key_of_name (parts ! 2))
         else if name = ''video_fail'' \<and> count = 1 then
           (case script_number (parts ! 2) of
              None \<Rightarrow> None
            | Some failures \<Rightarrow>
                if failures = 0 \<or> 1000 < failures then None
                else Some (make_action Act_video_fail Key_other failures))
         else if count \<noteq> 0 then None
         else map_option (\<lambda>kind. make_action kind Key_other 0) (simple_action name))"

definition clean_line :: "string \<Rightarrow> string" where
  "clean_line line =
     (let l = takeWhile (\<lambda>c. c \<noteq> CHR ''#'') line
      in if l \<noteq> [] \<and> last l = CHR 0x0D then butlast l else l)"

definition parse_retry :: "script_trigger \<Rightarrow> string list \<Rightarrow> (script_trigger \<times> string list) option" where
  "parse_retry when parts =
     (if 2 \<le> length parts \<and> starts_with ''retry='' (parts ! 1) then
        (case script_number (drop 6 (parts ! 1)) of
           Some retry \<Rightarrow>
             if trig_kind when \<noteq> Trigger_paused then None
             else Some (when\<lparr>trig_retry_ms := Some retry\<rparr>, parts ! 0 # drop 2 parts)
         | None \<Rightarrow> None)
      else Some (when, parts))"

definition parse_line :: "string list \<Rightarrow> string + script_step" where
  "parse_line parts =
     (case parse_trigger (parts ! 0) of
        None \<Rightarrow> Inl ''invalid_trigger''
      | Some when \<Rightarrow>
          (case parse_retry when parts of
             None \<Rightarrow> Inl ''invalid_retry''
           | Some (when', rest) \<Rightarrow>
               if length rest < 2 then Inl ''missing_action''
               else
                 (case parse_action rest of
                    None \<Rightarrow> Inl ''invalid_action''
                  | Some what \<Rightarrow> Inr \<lparr>step_trigger = when', step_action = what\<rparr>)))"

fun parse_lines :: "nat \<Rightarrow> string list \<Rightarrow> script_step list \<Rightarrow> script_error + script_step list" where
  "parse_lines n [] steps = Inr steps"
| "parse_lines n (line # ls) steps =
     (let parts = script_words (clean_line line)
      in if parts = [] then parse_lines (n + 1) ls steps
         else
           (case parse_line parts of
              Inl reason \<Rightarrow> Inl (n + 1, reason)
            | Inr step \<Rightarrow> parse_lines (n + 1) ls (steps @ [step])))"

definition parse_input_script :: "string \<Rightarrow> script_error + script_step list" where
  "parse_input_script t = parse_lines 0 (split_lines t) []"

section \<open>Evaluation\<close>

record script_state =
  st_position :: "u32 option"
  st_paused :: bool
  st_now_ms :: real

record input_script =
  scr_steps :: "script_step list"
  scr_next :: nat
  scr_last_fired_ms :: "real option"
  scr_last_key :: "key option"
  scr_retried_ms :: "real option"
  scr_retries :: nat
  scr_abandoned :: bool

definition make_script :: "script_step list \<Rightarrow> input_script" where
  "make_script steps =
     \<lparr>scr_steps = steps, scr_next = 0, scr_last_fired_ms = None, scr_last_key = None,
      scr_retried_ms = None, scr_retries = 0, scr_abandoned = False\<rparr>"

definition finished :: "input_script \<Rightarrow> bool" where
  "finished s \<longleftrightarrow> length (scr_steps s) \<le> scr_next s"

definition waited :: "(real \<Rightarrow> real) \<Rightarrow> real option \<Rightarrow> real \<Rightarrow> nat \<Rightarrow> bool" where
  "waited rnd since now ms =
     (case since of None \<Rightarrow> False | Some t \<Rightarrow> rnd (real ms) \<le> rnd (now - t))"

definition trigger_ready :: "(real \<Rightarrow> real) \<Rightarrow> input_script \<Rightarrow> script_state \<Rightarrow> script_trigger \<Rightarrow> bool" where
  "trigger_ready rnd s st trig =
     (case trig_kind trig of
        Trigger_frame \<Rightarrow>
          (case st_position st of Some p \<Rightarrow> trig_value trig \<le> unat p | None \<Rightarrow> False)
      | Trigger_paused \<Rightarrow>
          st_paused st \<and>
          (case st_position st of
             Some p \<Rightarrow>
               if scr_retried_ms s \<noteq> None then trig_value trig \<le> unat p else unat p = trig_value trig
           | None \<Rightarrow> False)
      | Trigger_after_ms \<Rightarrow> waited rnd (scr_last_fired_ms s) (st_now_ms st) (trig_value trig))"

definition not_ready ::
    "(real \<Rightarrow> real) \<Rightarrow> input_script \<Rightarrow> script_state \<Rightarrow> script_trigger \<Rightarrow> input_script \<times> script_action list" where
  "not_ready rnd s st trig =
     (case (trig_kind trig, trig_retry_ms trig) of
        (Trigger_paused, Some wait) \<Rightarrow>
          (case (scr_retried_ms s, scr_last_key s) of
             (None, Some k) \<Rightarrow>
               if waited rnd (scr_last_fired_ms s) (st_now_ms st) wait
               then (s\<lparr>scr_retried_ms := Some (st_now_ms st), scr_retries := scr_retries s + 1\<rparr>,
                     [(make_action Act_key_down k 0)\<lparr>act_retry := True\<rparr>,
                      (make_action Act_key_up k 0)\<lparr>act_retry := True\<rparr>])
               else (s, [])
           | (None, None) \<Rightarrow> (s, [])
           | (Some t, _) \<Rightarrow>
               if waited rnd (Some t) (st_now_ms st) wait
               then (s\<lparr>scr_abandoned := True, scr_next := length (scr_steps s)\<rparr>, [])
               else (s, []))
      | _ \<Rightarrow> (s, []))"

definition fire :: "input_script \<Rightarrow> script_state \<Rightarrow> script_action \<Rightarrow> input_script" where
  "fire s st a =
     s\<lparr>scr_last_key := (if act_kind a = Act_key_down then Some (act_key a) else scr_last_key s),
       scr_last_fired_ms := Some (st_now_ms st), scr_retried_ms := None, scr_next := scr_next s + 1\<rparr>"

function due_loop ::
    "(real \<Rightarrow> real) \<Rightarrow> input_script \<Rightarrow> script_state \<Rightarrow> input_script \<times> script_action list" where
  "due_loop rnd s st =
     (if scr_next s < length (scr_steps s) then
        (let step = scr_steps s ! scr_next s
         in if trigger_ready rnd s st (step_trigger step)
            then map_prod id (\<lambda>as. step_action step # as)
                   (due_loop rnd (fire s st (step_action step)) st)
            else not_ready rnd s st (step_trigger step))
      else (s, []))"
  by pat_completeness auto

termination
  by (relation "measure (\<lambda>(rnd, s, st). length (scr_steps s) - scr_next s)") (auto simp: fire_def)

declare due_loop.simps [simp del]

definition due ::
    "(real \<Rightarrow> real) \<Rightarrow> input_script \<Rightarrow> script_state \<Rightarrow> input_script \<times> script_action list" where
  "due rnd s st =
     due_loop rnd
       (if scr_last_fired_ms s = None then s\<lparr>scr_last_fired_ms := Some (st_now_ms st)\<rparr> else s) st"

section \<open>Steps fire in order\<close>

fun due_run ::
    "(real \<Rightarrow> real) \<Rightarrow> input_script \<Rightarrow> script_state list \<Rightarrow> input_script \<times> script_action list" where
  "due_run rnd s [] = (s, [])"
| "due_run rnd s (st # sts) =
     (case due rnd s st of
        (s', as) \<Rightarrow> (case due_run rnd s' sts of (s'', bs) \<Rightarrow> (s'', as @ bs)))"

definition script_ok :: "script_step list \<Rightarrow> nat \<Rightarrow> input_script \<Rightarrow> bool" where
  "script_ok steps k s \<longleftrightarrow>
     scr_steps s = steps \<and> k \<le> length steps \<and>
     scr_next s = (if scr_abandoned s then length steps else k) \<and>
     scr_retries s \<le> k + (if scr_retried_ms s = None then 0 else 1)"

abbreviation step_actions :: "script_step list \<Rightarrow> nat \<Rightarrow> nat \<Rightarrow> script_action list" where
  "step_actions steps k k' \<equiv> map step_action (drop k (take k' steps))"

lemma drop_take_Suc:
  "k < length xs \<Longrightarrow> Suc k \<le> k' \<Longrightarrow> drop k (take k' xs) = xs ! k # drop (Suc k) (take k' xs)"
  by (subst Cons_nth_drop_Suc [symmetric]) auto

lemma drop_take_join:
  assumes "k \<le> k'" and "k' \<le> k''"
  shows "drop k (take k' xs) @ drop k' (take k'' xs) = drop k (take k'' xs)"
proof -
  have "k'' - k = (k' - k) + (k'' - k')" and "k' = (k' - k) + k"
    using assms by simp_all
  then show ?thesis
    by (metis drop_drop drop_take take_add)
qed

lemma not_ready_keeps_order:
  assumes "script_ok steps k s" and "not_ready rnd s st trig = (s', as)"
  shows "script_ok steps k s' \<and> filter (\<lambda>a. \<not> act_retry a) as = [] \<and>
    length (filter act_retry as) + 2 * scr_retries s = 2 * scr_retries s'"
  using assms
  by (auto simp: not_ready_def script_ok_def make_action_def
      split: script_trigger_kind.splits option.splits if_splits)

lemma due_loop_keeps_order:
  "script_ok steps k s \<Longrightarrow> \<forall>step \<in> set steps. \<not> act_retry (step_action step) \<Longrightarrow>
   due_loop rnd s st = (s', as) \<Longrightarrow>
   \<exists>k'. k \<le> k' \<and> script_ok steps k' s' \<and>
     filter (\<lambda>a. \<not> act_retry a) as = step_actions steps k k' \<and>
     length (filter act_retry as) + 2 * scr_retries s = 2 * scr_retries s'"
proof (induction rnd s st arbitrary: k s' as rule: due_loop.induct)
  case (1 rnd s st)
  show ?case
  proof (cases "scr_next s < length (scr_steps s)")
    case False
    with 1(4) have "s' = s" "as = []" by (simp_all add: due_loop.simps [of rnd s st])
    with 1(2) show ?thesis by (intro exI [of _ k]) simp
  next
    case more: True
    let ?step = "scr_steps s ! scr_next s"
    have next_k: "scr_next s = k" "k < length steps" "scr_steps s = steps"
      using 1(2) more by (auto simp: script_ok_def split: if_splits)
    show ?thesis
    proof (cases "trigger_ready rnd s st (step_trigger ?step)")
      case False
      with more 1(4) have "not_ready rnd s st (step_trigger ?step) = (s', as)"
        by (simp add: due_loop.simps [of rnd s st] Let_def)
      from not_ready_keeps_order [OF 1(2) this] show ?thesis
        by (intro exI [of _ k]) simp
    next
      case True
      let ?s = "fire s st (step_action ?step)"
      obtain bs where rest: "due_loop rnd ?s st = (s', bs)" and as: "as = step_action ?step # bs"
        using more True 1(4)
        by (cases "due_loop rnd ?s st") (auto simp: due_loop.simps [of rnd s st] Let_def)
      have "script_ok steps (Suc k) ?s"
        using 1(2) next_k by (auto simp: script_ok_def fire_def split: if_splits)
      from 1(1) [OF more refl True this 1(3) rest] obtain k' where
        "Suc k \<le> k'" "script_ok steps k' s'"
        "filter (\<lambda>a. \<not> act_retry a) bs = step_actions steps (Suc k) k'"
        "length (filter act_retry bs) + 2 * scr_retries ?s = 2 * scr_retries s'" by blast
      moreover have "\<not> act_retry (step_action ?step)" "scr_retries ?s = scr_retries s"
        using 1(3) next_k by (auto simp: fire_def)
      ultimately show ?thesis
        using next_k as by (intro exI [of _ k']) (simp add: drop_take_Suc)
    qed
  qed
qed

lemma due_keeps_order:
  assumes "script_ok steps k s" "\<forall>step \<in> set steps. \<not> act_retry (step_action step)"
    and "due rnd s st = (s', as)"
  shows "\<exists>k'. k \<le> k' \<and> script_ok steps k' s' \<and>
     filter (\<lambda>a. \<not> act_retry a) as = step_actions steps k k' \<and>
     length (filter act_retry as) + 2 * scr_retries s = 2 * scr_retries s'"
proof -
  let ?s = "if scr_last_fired_ms s = None then s\<lparr>scr_last_fired_ms := Some (st_now_ms st)\<rparr> else s"
  have "script_ok steps k ?s" and "scr_retries ?s = scr_retries s"
    using assms(1) by (auto simp: script_ok_def)
  with due_loop_keeps_order [OF _ assms(2), of k ?s] assms(3) show ?thesis
    unfolding due_def by metis
qed

lemma due_run_keeps_order:
  "script_ok steps k s \<Longrightarrow> \<forall>step \<in> set steps. \<not> act_retry (step_action step) \<Longrightarrow>
   due_run rnd s sts = (s', as) \<Longrightarrow>
   \<exists>k'. k \<le> k' \<and> script_ok steps k' s' \<and>
     filter (\<lambda>a. \<not> act_retry a) as = step_actions steps k k' \<and>
     length (filter act_retry as) + 2 * scr_retries s = 2 * scr_retries s'"
proof (induction sts arbitrary: k s s' as)
  case Nil
  then show ?case by (intro exI [of _ k]) simp
next
  case (Cons st sts)
  obtain s1 bs cs where first: "due rnd s st = (s1, bs)" and rest: "due_run rnd s1 sts = (s', cs)"
    and as: "as = bs @ cs"
    using Cons.prems(3) by (auto split: prod.splits)
  obtain k1 where k1: "k \<le> k1" "script_ok steps k1 s1"
      "filter (\<lambda>a. \<not> act_retry a) bs = step_actions steps k k1"
      "length (filter act_retry bs) + 2 * scr_retries s = 2 * scr_retries s1"
    using due_keeps_order [OF Cons.prems(1,2) first] by blast
  obtain k2 where k2: "k1 \<le> k2" "script_ok steps k2 s'"
      "filter (\<lambda>a. \<not> act_retry a) cs = step_actions steps k1 k2"
      "length (filter act_retry cs) + 2 * scr_retries s1 = 2 * scr_retries s'"
    using Cons.IH [OF k1(2) Cons.prems(2) rest] by blast
  show ?case
    using k1 k2 as drop_take_join [OF k1(1) k2(1), of steps]
    by (intro exI [of _ k2]) (simp flip: map_append)
qed


definition example_script :: "script_step list" where
  "example_script =
     [\<lparr>step_trigger = \<lparr>trig_kind = Trigger_frame, trig_value = 2, trig_retry_ms = None\<rparr>,
       step_action = make_action Act_key_down Key_space 0\<rparr>,
      \<lparr>step_trigger = \<lparr>trig_kind = Trigger_paused, trig_value = 2, trig_retry_ms = Some 100\<rparr>,
       step_action = make_action Act_close Key_other 0\<rparr>]"

definition example_states :: "script_state list" where
  "example_states =
     [\<lparr>st_position = Some 2, st_paused = False, st_now_ms = 0\<rparr>,
      \<lparr>st_position = Some 3, st_paused = False, st_now_ms = 200\<rparr>,
      \<lparr>st_position = Some 5, st_paused = True, st_now_ms = 220\<rparr>]"


section \<open>A printed script is read back\<close>

fun key_name :: "key \<Rightarrow> string" where
  "key_name Key_space = ''space''"
| "key_name Key_left = ''left''"
| "key_name Key_right = ''right''"
| "key_name Key_up = ''up''"
| "key_name Key_down = ''down''"
| "key_name Key_info = ''i''"
| "key_name Key_other = ''other''"

fun scroll_name :: "scroll_key \<Rightarrow> string" where
  "scroll_name Wheel_up = ''wheel_up''"
| "scroll_name Wheel_down = ''wheel_down''"
| "scroll_name Page_up = ''page_up''"
| "scroll_name Page_down = ''page_down''"
| "scroll_name Home_key = ''home''"
| "scroll_name End_key = ''end''"

fun trigger_prefix :: "script_trigger_kind \<Rightarrow> string" where
  "trigger_prefix Trigger_frame = ''frame=''"
| "trigger_prefix Trigger_paused = ''paused=''"
| "trigger_prefix Trigger_after_ms = ''after=''"

definition action_words :: "script_action \<Rightarrow> string list" where
  "action_words a =
     (case act_kind a of
        Act_key_down \<Rightarrow> [''key'', key_name (act_key a), ''down'']
      | Act_key_up \<Rightarrow> [''key'', key_name (act_key a), ''up'']
      | Act_key_repeat \<Rightarrow> [''key'', key_name (act_key a), ''repeat'']
      | Act_focus_lost \<Rightarrow> [''focus'', ''off'']
      | Act_focus_gained \<Rightarrow> [''focus'', ''on'']
      | Act_minimize \<Rightarrow> [''minimize'']
      | Act_restore \<Rightarrow> [''restore'']
      | Act_video_fail \<Rightarrow> [''video_fail'', to_string (act_count a)]
      | Act_audio_removed \<Rightarrow> [''audio_removed'']
      | Act_audio_added \<Rightarrow> [''audio_added'']
      | Act_close \<Rightarrow> [''close'']
      | Act_corrupt_checkpoints \<Rightarrow> [''corrupt_checkpoints'']
      | Act_corrupt_visual_state \<Rightarrow> [''corrupt_visual_state'']
      | Act_scroll \<Rightarrow> [''scroll'', scroll_name (act_scroll a)])"

definition retry_words :: "script_trigger \<Rightarrow> string list" where
  "retry_words t = (case trig_retry_ms t of Some r \<Rightarrow> [''retry='' @ to_string r] | None \<Rightarrow> [])"

definition trigger_word :: "script_trigger \<Rightarrow> string" where
  "trigger_word t = trigger_prefix (trig_kind t) @ to_string (trig_value t)"

definition step_words :: "script_step \<Rightarrow> string list" where
  "step_words step =
     trigger_word (step_trigger step) # retry_words (step_trigger step) @ action_words (step_action step)"

definition script_text :: "script_step list \<Rightarrow> string" where
  "script_text steps = concat (map (\<lambda>step. join_words (CHR '' '') (step_words step) @ [CHR 0x0A]) steps)"

definition wf_trigger :: "script_trigger \<Rightarrow> bool" where
  "wf_trigger t \<longleftrightarrow> trig_value t < 2 ^ 64 \<and>
     (case trig_retry_ms t of Some r \<Rightarrow> trig_kind t = Trigger_paused \<and> r < 2 ^ 64 | None \<Rightarrow> True)"

definition wf_action :: "script_action \<Rightarrow> bool" where
  "wf_action a \<longleftrightarrow> \<not> act_retry a \<and>
     (act_kind a \<in> {Act_key_down, Act_key_up, Act_key_repeat} \<or> act_key a = Key_other) \<and>
     (if act_kind a = Act_video_fail then 0 < act_count a \<and> act_count a \<le> 1000 else act_count a = 0) \<and>
     (act_kind a = Act_scroll \<or> act_scroll a = Home_key)"

lemma script_key_name [simp]: "script_key (key_name k) = Some k"
  by (cases k) (simp_all add: script_key_def)

lemma scroll_key_of_scroll_name [simp]: "scroll_key_of_name (scroll_name k) = Some k"
  by (cases k) (simp_all add: scroll_key_of_name_def)

lemma parse_trigger_word:
  "trig_value t < 2 ^ 64 \<Longrightarrow> parse_trigger (trigger_word t) = Some (t\<lparr>trig_retry_ms := None\<rparr>)"
  by (cases "trig_kind t")
    (simp_all add: parse_trigger_def trigger_word_def starts_with_def script_number_def)

lemma parse_action_words:
  assumes "wf_action a"
  shows "parse_action (w # action_words a) = Some a"
  using assms
  by (cases a, cases "act_kind a")
    (simp_all add: wf_action_def parse_action_def action_words_def make_action_def simple_action_def
      script_number_def)

lemma action_words_not_retry:
  "action_words a \<noteq> [] \<and> \<not> starts_with ''retry='' (hd (action_words a))"
  by (cases "act_kind a") (simp_all add: action_words_def starts_with_def)

lemma parse_retry_words:
  assumes "wf_trigger t" and "ws \<noteq> []" and "\<not> starts_with ''retry='' (hd ws)"
  shows "parse_retry (t\<lparr>trig_retry_ms := None\<rparr>) (w # retry_words t @ ws) = Some (t, w # ws)"
  using assms
  by (cases ws; cases t; cases "trig_retry_ms t")
    (simp_all add: parse_retry_def retry_words_def wf_trigger_def starts_with_def script_number_def
      Suc_le_eq)

lemma parse_step_words:
  assumes "wf_trigger (step_trigger step)" and "wf_action (step_action step)"
  shows "parse_line (step_words step) = Inr step"
proof -
  have "parse_trigger (step_words step ! 0) = Some ((step_trigger step)\<lparr>trig_retry_ms := None\<rparr>)"
    using assms(1) by (simp add: step_words_def parse_trigger_word wf_trigger_def)
  moreover have "parse_retry ((step_trigger step)\<lparr>trig_retry_ms := None\<rparr>) (step_words step) =
      Some (step_trigger step, trigger_word (step_trigger step) # action_words (step_action step))"
    using action_words_not_retry [of "step_action step"] assms(1)
    unfolding step_words_def by (intro parse_retry_words) auto
  ultimately show ?thesis
    using parse_action_words [OF assms(2)] action_words_not_retry [of "step_action step"]
    by (cases "action_words (step_action step)") (auto simp: parse_line_def)
qed

definition plain :: "char \<Rightarrow> bool" where
  "plain c \<longleftrightarrow> is_digit c \<or> c \<in> set ''abcdefghijklmnopqrstuvwxyz_=''"

definition plain_word :: "string \<Rightarrow> bool" where
  "plain_word w \<longleftrightarrow> w \<noteq> [] \<and> (\<forall>c \<in> set w. plain c)"

lemma plain_digit: "is_digit c \<Longrightarrow> plain c"
  by (simp add: plain_def)

lemma clean_line_id:
  assumes "\<forall>c \<in> set l. c \<noteq> CHR ''#'' \<and> c \<noteq> CHR 0x0D"
  shows "clean_line l = l"
proof -
  have "takeWhile (\<lambda>c. c \<noteq> CHR ''#'') l = l"
    using assms by (simp add: takeWhile_eq_all_conv)
  moreover have "last l \<noteq> CHR 0x0D" if "l \<noteq> []"
    using assms last_in_set [OF that] by blast
  ultimately show ?thesis
    unfolding clean_line_def Let_def by (metis (full_types))
qed

lemma plain_word_number: "p = [] \<or> plain_word p \<Longrightarrow> plain_word (p @ to_string n)"
  by (auto simp: plain_word_def intro: plain_digit dest: to_string_digits)

lemma plain_names [simp]:
  "plain_word (key_name k)" "plain_word (scroll_name sc)" "plain_word (trigger_prefix tk)"
  by (cases k; simp add: plain_word_def plain_def) (cases sc; simp add: plain_word_def plain_def;
      cases tk; simp add: plain_word_def plain_def)+

lemma plain_step_words: "w \<in> set (step_words step) \<Longrightarrow> plain_word w"
proof -
  have retry: "plain_word (''retry='' @ to_string n)" for n
    by (rule plain_word_number) (simp add: plain_word_def plain_def)
  have trig: "plain_word (trigger_word t)" for t
    unfolding trigger_word_def by (rule plain_word_number) simp
  have count: "plain_word (to_string n)" for n
    using plain_word_number [of "[]" n] by simp
  have act: "\<forall>w \<in> set (action_words a). plain_word w" for a
    by (cases "act_kind a") (simp_all add: action_words_def count, simp_all add: plain_word_def plain_def)
  assume "w \<in> set (step_words step)"
  then show ?thesis
    using retry trig act by (auto simp: step_words_def retry_words_def split: option.splits)
qed

lemma plain_not_special:
  "plain c \<Longrightarrow> \<not> script_blank c \<and> c \<noteq> CHR ''#'' \<and> c \<noteq> CHR 0x0A \<and> c \<noteq> CHR 0x0D"
  by (auto simp: plain_def script_blank_def is_digit_def)

lemma set_join_words: "set (join_words sep ws) \<subseteq> insert sep (\<Union> (set ` set ws))"
  by (induction ws rule: join_words.induct) auto

lemma step_line_chars:
  assumes "c \<in> set (join_words (CHR '' '') (step_words step))"
  shows "c = CHR '' '' \<or> plain c"
  using assms set_join_words [of "CHR '' ''" "step_words step"] plain_step_words [of _ step]
  by (auto simp: plain_word_def)

lemma last_join_words: "ws \<noteq> [] \<Longrightarrow> \<forall>w \<in> set ws. w \<noteq> [] \<Longrightarrow> join_words sep ws \<noteq> []"
  by (induction ws rule: join_words.induct) auto

lemma script_words_line:
  "script_words (clean_line (join_words (CHR '' '') (step_words step))) = step_words step"
proof -
  let ?l = "join_words (CHR '' '') (step_words step)"
  have "\<forall>c \<in> set ?l. c \<noteq> CHR ''#'' \<and> c \<noteq> CHR 0x0D"
    using step_line_chars [of _ step] plain_not_special by fastforce
  then have "clean_line ?l = ?l"
    by (rule clean_line_id)
  then show ?thesis
    unfolding script_words_def
    using plain_step_words [of _ step] plain_not_special
    by (simp add: split_join_words solid_def plain_word_def script_blank_def)
qed

lemma parse_lines_of_steps:
  "\<forall>step \<in> set steps. wf_trigger (step_trigger step) \<and> wf_action (step_action step) \<Longrightarrow>
   parse_lines n (map (\<lambda>step. join_words (CHR '' '') (step_words step)) steps) acc = Inr (acc @ steps)"
proof (induction steps arbitrary: n acc)
  case (Cons step steps)
  have "step_words step \<noteq> []" by (simp add: step_words_def)
  with Cons show ?case by (simp add: script_words_line parse_step_words Let_def)
qed simp

text \<open>
  C36: Every script can be written down and is read back as it was meant. For every list of steps
  whose numbers are in range (64-bit values, at most 1000 failed presentations, retries only on
  a paused trigger), the text in the documented syntax parses to exactly those steps, so the
  parser accepts each trigger, each action and each optional retry of the grammar.
\<close>

theorem input_script_roundtrip:
  assumes "\<forall>step \<in> set steps. wf_trigger (step_trigger step) \<and> wf_action (step_action step)"
  shows "parse_input_script (script_text steps) = Inr steps"
proof -
  have "CHR 0x0A \<notin> set (join_words (CHR '' '') (step_words step))" for step
    using step_line_chars [of "CHR 0x0A" step] plain_not_special [of "CHR 0x0A"] by auto
  then have "split_lines (script_text steps) = map (\<lambda>step. join_words (CHR '' '') (step_words step)) steps"
    using split_lines_concat [of "map (\<lambda>step. join_words (CHR '' '') (step_words step)) steps"]
    by (simp add: script_text_def comp_def)
  then show ?thesis
    using parse_lines_of_steps [OF assms] by (simp add: parse_input_script_def)
qed

theorem input_script_roundtrip_witness:
  "parse_input_script (script_text example_script) = Inr example_script \<and> length example_script = 2"
proof -
  have "\<forall>step \<in> set example_script. wf_trigger (step_trigger step) \<and> wf_action (step_action step)"
    by (simp add: example_script_def wf_trigger_def wf_action_def make_action_def)
  from input_script_roundtrip [OF this] show ?thesis by (simp add: example_script_def)
qed

end
