(* ===== verification/Av_Sync.thy ===== *)
theory Av_Sync
  imports Double_Rounding
begin

text \<open>
  The offset between the image and the audio of the first frame after a resume:
  \<^verbatim>\<open>src/replay_inspection/av_sync.{h,cpp}\<close>. Times are doubles (theory Double_Rounding), sample
  positions 64-bit words.
\<close>

record resume_mark =
  res_frame_index :: u64
  res_presented_ms :: real

record frame_boundary_mark =
  bnd_emulation_frame :: u64
  bnd_output_position :: u64
  bnd_sample_rate :: u32
  bnd_valid :: bool

record pcm_block_mark =
  blk_at_ms :: real
  blk_begin :: u64
  blk_end :: u64
  blk_sample_rate :: u32

record resume_offset =
  off_measured :: bool
  off_output_sample :: u64
  off_audio_ms :: real
  off_offset_ms :: real

definition block_holds :: "frame_boundary_mark \<Rightarrow> pcm_block_mark \<Rightarrow> bool" where
  "block_holds boundary m \<longleftrightarrow>
     blk_sample_rate m = bnd_sample_rate boundary \<and> blk_begin m \<le> bnd_output_position boundary \<and>
     bnd_output_position boundary < blk_end m"

definition audio_time :: "(real \<Rightarrow> real) \<Rightarrow> frame_boundary_mark \<Rightarrow> pcm_block_mark \<Rightarrow> real" where
  "audio_time rnd boundary block =
     rnd (blk_at_ms block +
       rnd (rnd (rnd (real (unat (bnd_output_position boundary - blk_begin block))) * 1000) /
            rnd (real (unat (blk_sample_rate block)))))"

definition resume_offset_of ::
    "(real \<Rightarrow> real) \<Rightarrow> frame_boundary_mark list \<Rightarrow> pcm_block_mark list \<Rightarrow> resume_mark \<Rightarrow> resume_offset" where
  "resume_offset_of rnd boundaries blocks resume =
     (let unmeasured = \<lparr>off_measured = False, off_output_sample = 0, off_audio_ms = 0, off_offset_ms = 0\<rparr>
      in case List.find (\<lambda>m. bnd_emulation_frame m = res_frame_index resume) boundaries of
           None \<Rightarrow> unmeasured
         | Some boundary \<Rightarrow>
             if bnd_valid boundary \<and> bnd_sample_rate boundary \<noteq> 0 then
               (case List.find (block_holds boundary) blocks of
                  None \<Rightarrow> unmeasured
                | Some block \<Rightarrow>
                    \<lparr>off_measured = True, off_output_sample = bnd_output_position boundary,
                     off_audio_ms = audio_time rnd boundary block,
                     off_offset_ms = rnd (audio_time rnd boundary block - res_presented_ms resume)\<rparr>)
             else unmeasured)"

definition resume_offsets ::
    "(real \<Rightarrow> real) \<Rightarrow> resume_mark list \<Rightarrow> frame_boundary_mark list \<Rightarrow> pcm_block_mark list \<Rightarrow>
     resume_offset list" where
  "resume_offsets rnd resumes boundaries blocks = map (resume_offset_of rnd boundaries blocks) resumes"

section \<open>Properties\<close>

lemma audio_time_after_block:
  assumes "double_rounding rnd" and "rnd (blk_at_ms block) = blk_at_ms block"
  shows "blk_at_ms block \<le> audio_time rnd boundary block"
proof -
  have "0 \<le> rnd (rnd (rnd (real (unat (bnd_output_position boundary - blk_begin block))) * 1000) /
            rnd (real (unat (blk_sample_rate block))))"
    by (intro rounding_nonneg [OF assms(1)] divide_nonneg_nonneg mult_nonneg_nonneg of_nat_0_le_iff) simp
  then show ?thesis
    unfolding audio_time_def
    using rounding_mono [OF assms(1), of "blk_at_ms block"] assms(2) by force
qed

lemma find_distinct_key:
  assumes "distinct (map f xs)" and "x \<in> set xs" and "f x = k"
  shows "List.find (\<lambda>y. f y = k) xs = Some x"
  using assms by (induction xs) (auto simp: image_iff)

text \<open>
  An offset is measured exactly when it can be trusted. With one boundary per frame, the result
  for a resumed frame is measured if and only if its boundary is valid, has a sample rate and a
  block of the same rate contains its output sample; the audio time is then not before the block
  was handed over, and the offset is that time minus the presentation time.
\<close>

theorem resume_offset_trusted:
  assumes "double_rounding rnd" and "distinct (map bnd_emulation_frame boundaries)"
    and "\<forall>block \<in> set blocks. rnd (blk_at_ms block) = blk_at_ms block"
    and "i < length resumes"
  shows "length (resume_offsets rnd resumes boundaries blocks) = length resumes \<and>
    (off_measured (resume_offsets rnd resumes boundaries blocks ! i) \<longleftrightarrow>
       (\<exists>b \<in> set boundaries. bnd_emulation_frame b = res_frame_index (resumes ! i) \<and> bnd_valid b \<and>
          bnd_sample_rate b \<noteq> 0 \<and> (\<exists>block \<in> set blocks. block_holds b block))) \<and>
    (off_measured (resume_offsets rnd resumes boundaries blocks ! i) \<longrightarrow>
       (\<exists>b \<in> set boundaries. \<exists>block \<in> set blocks. block_holds b block \<and>
          off_output_sample (resume_offsets rnd resumes boundaries blocks ! i) = bnd_output_position b \<and>
          blk_at_ms block \<le> off_audio_ms (resume_offsets rnd resumes boundaries blocks ! i) \<and>
          off_offset_ms (resume_offsets rnd resumes boundaries blocks ! i) =
            rnd (off_audio_ms (resume_offsets rnd resumes boundaries blocks ! i) -
                 res_presented_ms (resumes ! i))))"
proof -
  define r where "r = resumes ! i"
  have nth: "resume_offsets rnd resumes boundaries blocks ! i = resume_offset_of rnd boundaries blocks r"
    using assms(4) by (simp add: resume_offsets_def r_def)
  show ?thesis
  proof (cases "List.find (\<lambda>m. bnd_emulation_frame m = res_frame_index r) boundaries")
    case None
    then have "\<forall>b \<in> set boundaries. bnd_emulation_frame b \<noteq> res_frame_index r"
      by (auto simp: find_None_iff)
    with None show ?thesis
      unfolding nth by (auto simp: resume_offset_of_def resume_offsets_def r_def)
  next
    case (Some b)
    note b = find_SomeD [OF Some]
    have unique: "b' = b" if "b' \<in> set boundaries" "bnd_emulation_frame b' = res_frame_index r" for b'
      using find_distinct_key [OF assms(2) that] Some by simp
    show ?thesis
    proof (cases "List.find (block_holds b) blocks")
      case None
      then have "\<forall>block \<in> set blocks. \<not> block_holds b block"
        by (auto simp: find_None_iff)
      then show ?thesis
        unfolding nth using Some None unique
        by (auto simp: resume_offset_of_def resume_offsets_def Let_def simp flip: r_def)
    next
      case (Some block)
      note block = find_SomeD [OF Some]
      have late: "blk_at_ms block \<le> audio_time rnd b block"
        using assms(1,3) block by (intro audio_time_after_block) auto
      have offset: "resume_offset_of rnd boundaries blocks r =
          (if bnd_valid b \<and> bnd_sample_rate b \<noteq> 0
           then \<lparr>off_measured = True, off_output_sample = bnd_output_position b,
                 off_audio_ms = audio_time rnd b block,
                 off_offset_ms = rnd (audio_time rnd b block - res_presented_ms r)\<rparr>
           else \<lparr>off_measured = False, off_output_sample = 0, off_audio_ms = 0, off_offset_ms = 0\<rparr>)"
        using \<open>List.find _ boundaries = Some b\<close> Some by (simp add: resume_offset_of_def Let_def)
      show ?thesis
        unfolding nth offset r_def [symmetric] using b block unique late
        by (auto simp: resume_offsets_def)
    qed
  qed
qed

theorem resume_offset_trusted_witness:
  "off_measured (resume_offsets (\<lambda>x. x)
     [\<lparr>res_frame_index = 5, res_presented_ms = 90\<rparr>]
     [\<lparr>bnd_emulation_frame = 5, bnd_output_position = 1100, bnd_sample_rate = 48000, bnd_valid = True\<rparr>]
     [\<lparr>blk_at_ms = 100, blk_begin = 1000, blk_end = 2000, blk_sample_rate = 48000\<rparr>] ! 0)"
  by (subst resume_offset_trusted [THEN conjunct2, THEN conjunct1]) (simp_all add: block_holds_def)

end
