(* ===== verification/Byte_Codec.thy ===== *)
theory Byte_Codec
  imports Prelude
begin

text \<open>
  Little-endian integers in byte buffers, as the sources write and read them: a writer appends the
  low byte first, a reader joins the bytes with shifts and \<open>OR\<close>. The locale \<open>fixed_codec\<close> is the
  contract of such a pair of routines: a fixed width, and a value written anywhere in a buffer is
  read back. It is interpreted on the 16, 32 and 64-bit routines; the file formats above it rely
  on its lemmas only.
\<close>

unbundle bit_operations_syntax

section \<open>Routines\<close>

definition put_le :: "nat \<Rightarrow> 'a::len word \<Rightarrow> bytes" where
  "put_le n w = map (\<lambda>i. ucast (drop_bit (8 * i) w)) [0..<n]"

definition get_le :: "nat \<Rightarrow> bytes \<Rightarrow> nat \<Rightarrow> 'a::len word" where
  "get_le n bs off = foldl (\<lambda>v i. v OR push_bit (8 * i) (ucast (bs ! (off + i)))) 0 [0..<n]"

abbreviation put_u16 :: "u16 \<Rightarrow> bytes" where "put_u16 \<equiv> put_le 2"
abbreviation put_u32 :: "u32 \<Rightarrow> bytes" where "put_u32 \<equiv> put_le 4"
abbreviation put_u64 :: "u64 \<Rightarrow> bytes" where "put_u64 \<equiv> put_le 8"
abbreviation get_u16 :: "bytes \<Rightarrow> nat \<Rightarrow> u16" where "get_u16 \<equiv> get_le 2"
abbreviation get_u32 :: "bytes \<Rightarrow> nat \<Rightarrow> u32" where "get_u32 \<equiv> get_le 4"
abbreviation get_u64 :: "bytes \<Rightarrow> nat \<Rightarrow> u64" where "get_u64 \<equiv> get_le 8"

lemma length_put_le [simp]: "length (put_le n w) = n"
  by (simp add: put_le_def)

lemma nth_put_le [simp]: "i < n \<Longrightarrow> put_le n w ! i = ucast (drop_bit (8 * i) w)"
  by (simp add: put_le_def)

lemma bit_get_le:
  "bit (get_le n bs off :: 'a::len word) k \<longleftrightarrow>
     k < LENGTH('a) \<and> k div 8 < n \<and> bit (bs ! (off + k div 8)) (k mod 8)"
proof (induction n)
  case 0
  then show ?case by (simp add: get_le_def)
next
  case (Suc n)
  have "get_le (Suc n) bs off =
      (get_le n bs off OR push_bit (8 * n) (ucast (bs ! (off + n))) :: 'a word)"
    by (simp add: get_le_def)
  moreover have "8 * n \<le> k \<and> bit (bs ! (off + n)) (k - 8 * n) \<longleftrightarrow>
      k div 8 = n \<and> bit (bs ! (off + k div 8)) (k mod 8)"
  proof (cases "8 * n \<le> k \<and> k - 8 * n < 8")
    case True
    then have "k div 8 = n" and "k mod 8 = k - 8 * n"
      by (auto simp: div_nat_eqI modulo_nat_def)
    with True show ?thesis by simp
  next
    case False
    then have "\<not> (8 * n \<le> k \<and> bit (bs ! (off + n)) (k - 8 * n))"
      using bit_imp_le_length [of "bs ! (off + n)" "k - 8 * n"] by auto
    moreover have "k div 8 \<noteq> n"
      using False by auto
    ultimately show ?thesis by blast
  qed
  ultimately show ?case
    using Suc.IH by (auto simp: bit_simps less_Suc_eq)
qed

lemma get_put_le:
  fixes w :: "'a::len word"
  assumes "LENGTH('a) \<le> 8 * n" and "n \<le> length bs - off" and "take n (drop off bs) = put_le n w"
  shows "get_le n bs off = w"
proof (rule bit_word_eqI)
  fix k
  assume k: "k < LENGTH('a)"
  then have small: "k div 8 < n" using assms(1) by auto
  then have "bs ! (off + k div 8) = take n (drop off bs) ! (k div 8)"
    using assms(2) by simp
  also have "\<dots> = ucast (drop_bit (8 * (k div 8)) w)"
    using small by (simp add: assms(3))
  finally have "bit (bs ! (off + k div 8)) (k mod 8) = bit w (8 * (k div 8) + k mod 8)"
    by (simp add: bit_simps)
  with k small show "bit (get_le n bs off :: 'a word) k = bit w k"
    by (simp add: bit_get_le)
qed

lemma put_get_le:
  fixes w :: "'a::len word"
  assumes "LENGTH('a) = 8 * n" and "off + n \<le> length bs" and "w = get_le n bs off"
  shows "put_le n w = take n (drop off bs)"
proof (rule nth_equalityI)
  show "length (put_le n w) = length (take n (drop off bs))"
    using assms(2) by simp
next
  fix i
  assume "i < length (put_le n w)"
  then have i: "i < n" by simp
  have "(ucast (drop_bit (8 * i) w) :: 8 word) = bs ! (off + i)"
  proof (rule bit_word_eqI)
    fix k
    assume "k < LENGTH(8)"
    then have k: "k < 8" by simp
    then have "(8 * i + k) div 8 = i" "(8 * i + k) mod 8 = k" by simp_all
    moreover from i k have "8 * i + k < 8 * n" by linarith
    ultimately show "bit (ucast (drop_bit (8 * i) w) :: 8 word) k = bit (bs ! (off + i)) k"
      using i k assms(1) by (simp add: bit_simps assms(3) bit_get_le)
  qed
  with i assms(2) show "put_le n w ! i = take n (drop off bs) ! i" by simp
qed

section \<open>Contract\<close>

locale fixed_codec =
  fixes put :: "'w \<Rightarrow> bytes" and get :: "bytes \<Rightarrow> nat \<Rightarrow> 'w" and width :: nat
  assumes put_width: "length (put w) = width"
    and get_put: "width \<le> length bs - off \<Longrightarrow> take width (drop off bs) = put w \<Longrightarrow> get bs off = w"
    and put_get: "off + width \<le> length bs \<Longrightarrow> put (get bs off) = take width (drop off bs)"
begin

lemma get_eq_iff: "off + width \<le> length bs \<Longrightarrow> get bs off = w \<longleftrightarrow> take width (drop off bs) = put w"
  using get_put [of bs off w] put_get [of off bs] by auto

lemma get_after: "get (pre @ put w @ post) (length pre) = w"
  by (rule get_put) (simp_all add: put_width)

lemma get_first: "get (put w @ post) 0 = w"
  using get_after [of "[]" w post] by simp

lemma put_inj: "put v = put w \<Longrightarrow> v = w"
  using get_first [of v "[]"] get_first [of w "[]"] by simp

end

interpretation le16: fixed_codec put_u16 get_u16 2
  by unfold_locales (auto intro: get_put_le put_get_le)

interpretation le32: fixed_codec put_u32 get_u32 4
  by unfold_locales (auto intro: get_put_le put_get_le)

interpretation le64: fixed_codec put_u64 get_u64 8
  by unfold_locales (auto intro: get_put_le put_get_le)

end
