(* ===== verification/Recording.thy ===== *)
theory Recording
  imports Byte_Codec
begin

text \<open>
  Recorded takes: \<^verbatim>\<open>tools/audio_qa/recording_header.{h,cpp}\<close> (the header, the layout and the FM
  register shadow at the end of a take) and \<^verbatim>\<open>tools/audio_qa/recording_input_source.{h,cpp}\<close> (the
  inputs of a take, frame by frame).

  Offsets and sizes are natural numbers. The 64-bit sums of the code do not wrap: a cursor is
  advanced only by an amount that was checked to fit below the limit, the limit is a file size,
  and the largest product is a 32-bit number times twelve.
\<close>

section \<open>Header\<close>

definition recording_fixed_header_bytes :: nat where "recording_fixed_header_bytes = 8"
definition oldest_supported_recording_version :: u32 where "oldest_supported_recording_version = 2"
definition current_recording_version :: u32 where "current_recording_version = 10"
definition recording_fm_registers_version :: u32 where "recording_fm_registers_version = 9"
definition recording_fm_register_bytes :: nat where "recording_fm_register_bytes = 512"
definition take_id_recording_version :: u32 where "take_id_recording_version = 10"
definition take_id_bytes :: nat where "take_id_bytes = 8"
definition max_recording_bytes :: nat where "max_recording_bytes = 67108864"
definition max_recording_state_bytes :: nat where "max_recording_state_bytes = 67108864"
definition min_recording_frames :: nat where "min_recording_frames = 1"
definition max_recording_frames :: nat where "max_recording_frames = 54000"

datatype recording_header_error =
  Header_none | Empty_take | Truncated_header | Invalid_magic | Unsupported_version

record header_result =
  hdr_error :: recording_header_error
  hdr_version :: u32

record byte_range =
  range_offset :: nat
  range_size :: nat

record recording_layout =
  lay_version :: u32
  lay_game_id :: byte_range
  lay_name :: byte_range
  lay_frame_count :: u32
  lay_raw_state_bytes :: u32
  lay_compressed_state :: byte_range
  lay_inputs :: byte_range

datatype recording_layout_error =
  Layout_none | Invalid_header | Take_too_large | Truncated_content | Invalid_frame_count
  | Empty_initial_state | Initial_state_too_large | Empty_compressed_state

record layout_result =
  lr_error :: recording_layout_error
  lr_header_error :: recording_header_error
  lr_layout :: recording_layout

definition read_u32_le :: "bytes \<Rightarrow> nat \<Rightarrow> u32" where
  "read_u32_le bs off = get_u32 bs off"

definition has_bytes :: "nat \<Rightarrow> nat \<Rightarrow> nat \<Rightarrow> bool" where
  "has_bytes off count limit \<longleftrightarrow> off \<le> limit \<and> count \<le> limit - off"

definition recording_magic :: bytes where
  "recording_magic = [0x41, 0x52, 0x50, 0x31]"

definition decode_recording_header :: "bytes \<Rightarrow> header_result" where
  "decode_recording_header bs =
     (if bs = [] then \<lparr>hdr_error = Empty_take, hdr_version = 0\<rparr>
      else if length bs < recording_fixed_header_bytes then \<lparr>hdr_error = Truncated_header, hdr_version = 0\<rparr>
      else if take 4 bs \<noteq> recording_magic then \<lparr>hdr_error = Invalid_magic, hdr_version = 0\<rparr>
      else
        (let version = read_u32_le bs 4
         in if version < oldest_supported_recording_version \<or> current_recording_version < version
            then \<lparr>hdr_error = Unsupported_version, hdr_version = version\<rparr>
            else \<lparr>hdr_error = Header_none, hdr_version = version\<rparr>))"

fun recording_header_error_code :: "recording_header_error \<Rightarrow> string" where
  "recording_header_error_code Header_none = ''none''"
| "recording_header_error_code Empty_take = ''empty_take''"
| "recording_header_error_code Truncated_header = ''truncated_header''"
| "recording_header_error_code Invalid_magic = ''invalid_magic''"
| "recording_header_error_code Unsupported_version = ''unsupported_version''"

section \<open>Layout\<close>

definition empty_range :: byte_range where
  "empty_range = \<lparr>range_offset = 0, range_size = 0\<rparr>"

definition empty_layout :: recording_layout where
  "empty_layout =
     \<lparr>lay_version = 0, lay_game_id = empty_range, lay_name = empty_range, lay_frame_count = 0,
      lay_raw_state_bytes = 0, lay_compressed_state = empty_range, lay_inputs = empty_range\<rparr>"

definition layout_failure :: "recording_layout_error \<Rightarrow> layout_result" where
  "layout_failure e = \<lparr>lr_error = e, lr_header_error = Header_none, lr_layout = empty_layout\<rparr>"

definition read_field :: "bytes \<Rightarrow> nat \<Rightarrow> nat \<Rightarrow> u32 option" where
  "read_field header_bytes total_bytes off =
     (if \<not> has_bytes off 4 total_bytes \<or> \<not> has_bytes off 4 (length header_bytes) then None
      else Some (read_u32_le header_bytes off))"

definition read_text :: "bytes \<Rightarrow> nat \<Rightarrow> nat \<Rightarrow> (byte_range \<times> nat) option" where
  "read_text header_bytes total_bytes cursor =
     (case read_field header_bytes total_bytes cursor of
        None \<Rightarrow> None
      | Some len \<Rightarrow>
          (let cursor' = cursor + 4; n = unat len
           in if \<not> has_bytes cursor' n total_bytes \<or> \<not> has_bytes cursor' n (length header_bytes) then None
              else Some (\<lparr>range_offset = cursor', range_size = n\<rparr>, cursor' + n)))"

definition decode_state_and_inputs ::
    "nat \<Rightarrow> u32 \<Rightarrow> byte_range \<Rightarrow> byte_range \<Rightarrow> nat \<Rightarrow> u32 \<Rightarrow> u32 \<Rightarrow> u32 \<Rightarrow> layout_result" where
  "decode_state_and_inputs total_bytes version game_id name cursor frame_count raw_state compressed =
     (if unat frame_count < min_recording_frames \<or> max_recording_frames < unat frame_count
      then layout_failure Invalid_frame_count
      else if raw_state = 0 then layout_failure Empty_initial_state
      else if max_recording_state_bytes < unat raw_state then layout_failure Initial_state_too_large
      else if compressed = 0 then layout_failure Empty_compressed_state
      else if \<not> has_bytes cursor (unat compressed) total_bytes then layout_failure Truncated_content
      else
        (let cursor' = cursor + unat compressed; input_bytes = unat frame_count * 2
         in if \<not> has_bytes cursor' input_bytes total_bytes then layout_failure Truncated_content
            else
              \<lparr>lr_error = Layout_none, lr_header_error = Header_none,
               lr_layout =
                 \<lparr>lay_version = version, lay_game_id = game_id, lay_name = name,
                  lay_frame_count = frame_count, lay_raw_state_bytes = raw_state,
                  lay_compressed_state = \<lparr>range_offset = cursor, range_size = unat compressed\<rparr>,
                  lay_inputs = \<lparr>range_offset = cursor', range_size = input_bytes\<rparr>\<rparr>\<rparr>))"

definition decode_recording_layout_of :: "bytes \<Rightarrow> nat \<Rightarrow> layout_result" where
  "decode_recording_layout_of header_bytes total_bytes =
     (if max_recording_bytes < total_bytes then layout_failure Take_too_large
      else
        (let h = decode_recording_header header_bytes
         in if hdr_error h \<noteq> Header_none
            then \<lparr>lr_error = Invalid_header, lr_header_error = hdr_error h, lr_layout = empty_layout\<rparr>
            else
              (case read_text header_bytes total_bytes recording_fixed_header_bytes of
                 None \<Rightarrow> layout_failure Truncated_content
               | Some (game_id, c1) \<Rightarrow>
                   (case read_text header_bytes total_bytes c1 of
                      None \<Rightarrow> layout_failure Truncated_content
                    | Some (name, c2) \<Rightarrow>
                        (case (read_field header_bytes total_bytes c2, read_field header_bytes total_bytes (c2 + 4),
                               read_field header_bytes total_bytes (c2 + 8)) of
                           (Some frame_count, Some raw_state, Some compressed) \<Rightarrow>
                             decode_state_and_inputs total_bytes (hdr_version h) game_id name (c2 + 12)
                               frame_count raw_state compressed
                         | _ \<Rightarrow> layout_failure Truncated_content)))))"

definition decode_recording_layout :: "bytes \<Rightarrow> layout_result" where
  "decode_recording_layout bs = decode_recording_layout_of bs (length bs)"

fun recording_layout_error_code :: "recording_layout_error \<Rightarrow> string" where
  "recording_layout_error_code Layout_none = ''none''"
| "recording_layout_error_code Invalid_header = ''invalid_header''"
| "recording_layout_error_code Take_too_large = ''take_too_large''"
| "recording_layout_error_code Truncated_content = ''truncated_content''"
| "recording_layout_error_code Invalid_frame_count = ''invalid_frame_count''"
| "recording_layout_error_code Empty_initial_state = ''empty_initial_state''"
| "recording_layout_error_code Initial_state_too_large = ''initial_state_too_large''"
| "recording_layout_error_code Empty_compressed_state = ''empty_compressed_state''"

section \<open>FM register shadow\<close>

datatype fm_registers_error =
  Fm_none | Fm_invalid_layout | Fm_truncated_content | Fm_invalid_section | Fm_invalid_size
  | Fm_trailing_content

record fm_registers_result =
  fm_error :: fm_registers_error
  fm_registers :: bytes

definition cursor_read_u32 :: "bytes \<Rightarrow> nat \<Rightarrow> (u32 \<times> nat) option" where
  "cursor_read_u32 bs off =
     (if has_bytes off 4 (length bs) then Some (read_u32_le bs off, off + 4) else None)"

definition cursor_skip :: "bytes \<Rightarrow> nat \<Rightarrow> nat \<Rightarrow> nat option" where
  "cursor_skip bs count off = (if has_bytes off count (length bs) then Some (off + count) else None)"

definition skip_hash_history :: "bytes \<Rightarrow> nat \<Rightarrow> nat \<Rightarrow> nat option" where
  "skip_hash_history bs frames off =
     (case cursor_read_u32 bs off of
        None \<Rightarrow> None
      | Some (hashes, off') \<Rightarrow>
          Option.bind (cursor_skip bs (unat hashes * 8) off') (cursor_skip bs (frames * 4)))"

fun skip_keyframes :: "bytes \<Rightarrow> nat \<Rightarrow> nat \<Rightarrow> nat \<Rightarrow> fm_registers_error + nat" where
  "skip_keyframes bs frames 0 off = Inr off"
| "skip_keyframes bs frames (Suc n) off =
     (case cursor_read_u32 bs off of
        None \<Rightarrow> Inl Fm_truncated_content
      | Some (frame, o1) \<Rightarrow>
          (case cursor_read_u32 bs o1 of
             None \<Rightarrow> Inl Fm_truncated_content
           | Some (raw_size, o2) \<Rightarrow>
               (case cursor_read_u32 bs o2 of
                  None \<Rightarrow> Inl Fm_truncated_content
                | Some (compressed_size, o3) \<Rightarrow>
                    if frames < unat frame \<or> raw_size = 0 then Inl Fm_invalid_section
                    else
                      (case cursor_skip bs (unat compressed_size) o3 of
                         None \<Rightarrow> Inl Fm_truncated_content
                       | Some o4 \<Rightarrow> skip_keyframes bs frames n o4))))"

definition fm_failure :: "fm_registers_error \<Rightarrow> fm_registers_result" where
  "fm_failure e = \<lparr>fm_error = e, fm_registers = []\<rparr>"

definition decode_shadow :: "bytes \<Rightarrow> u32 \<Rightarrow> nat \<Rightarrow> fm_registers_result" where
  "decode_shadow bs version off =
     (case cursor_read_u32 bs off of
        None \<Rightarrow> fm_failure Fm_truncated_content
      | Some (size_word, begin_at) \<Rightarrow>
          (let n = unat size_word
           in if n \<noteq> 0 \<and> n \<noteq> recording_fm_register_bytes then fm_failure Fm_invalid_size
              else
                (case cursor_skip bs n begin_at of
                   None \<Rightarrow> fm_failure Fm_truncated_content
                 | Some after \<Rightarrow>
                     (case (if take_id_recording_version \<le> version
                            then cursor_skip bs take_id_bytes after else Some after) of
                        None \<Rightarrow> fm_failure Fm_truncated_content
                      | Some at_last \<Rightarrow>
                          if at_last \<noteq> length bs then fm_failure Fm_trailing_content
                          else \<lparr>fm_error = Fm_none, fm_registers = take n (drop begin_at bs)\<rparr>))))"

definition decode_recording_fm_registers :: "bytes \<Rightarrow> recording_layout \<Rightarrow> fm_registers_result" where
  "decode_recording_fm_registers recording layout =
     (if lay_version layout < recording_fm_registers_version then fm_failure Fm_none
      else if length recording < range_offset (lay_inputs layout) \<or>
              length recording - range_offset (lay_inputs layout) < range_size (lay_inputs layout)
      then fm_failure Fm_invalid_layout
      else
        (let frames = unat (lay_frame_count layout);
             start = range_offset (lay_inputs layout) + range_size (lay_inputs layout)
         in case Option.bind (Option.bind (cursor_skip recording 8 start) (cursor_skip recording (frames * 12)))
                   (skip_hash_history recording frames) of
              None \<Rightarrow> fm_failure Fm_truncated_content
            | Some o1 \<Rightarrow>
                (case cursor_read_u32 recording o1 of
                   None \<Rightarrow> fm_failure Fm_truncated_content
                 | Some (keyframe_count, o2) \<Rightarrow>
                     if lay_frame_count layout + 1 < keyframe_count then fm_failure Fm_invalid_section
                     else
                       (case skip_keyframes recording frames (unat keyframe_count) o2 of
                          Inl e \<Rightarrow> fm_failure e
                        | Inr o3 \<Rightarrow>
                            (case Option.bind (skip_hash_history recording frames o3) (cursor_skip recording 4) of
                               None \<Rightarrow> fm_failure Fm_truncated_content
                             | Some o4 \<Rightarrow> decode_shadow recording (lay_version layout) o4)))))"

fun fm_registers_error_code :: "fm_registers_error \<Rightarrow> string" where
  "fm_registers_error_code Fm_none = ''none''"
| "fm_registers_error_code Fm_invalid_layout = ''invalid_layout''"
| "fm_registers_error_code Fm_truncated_content = ''truncated_content''"
| "fm_registers_error_code Fm_invalid_section = ''invalid_section''"
| "fm_registers_error_code Fm_invalid_size = ''invalid_size''"
| "fm_registers_error_code Fm_trailing_content = ''trailing_content''"

section \<open>Input source\<close>

unbundle bit_operations_syntax

record frame_input =
  fi_frame :: u32
  fi_buttons :: u16

datatype input_source_error =
  Source_none | Source_invalid_frame_count | Source_invalid_input_range | Source_truncated_input_range

record input_source =
  src_bytes :: bytes
  src_frame_count :: u32
  src_cursor :: u32

definition empty_source :: input_source where
  "empty_source = \<lparr>src_bytes = [], src_frame_count = 0, src_cursor = 0\<rparr>"

definition range_contained :: "bytes \<Rightarrow> byte_range \<Rightarrow> bool" where
  "range_contained bs r \<longleftrightarrow> range_offset r \<le> length bs \<and> range_size r \<le> length bs - range_offset r"

definition make_recording_input_source ::
    "bytes \<Rightarrow> recording_layout \<Rightarrow> input_source_error \<times> input_source" where
  "make_recording_input_source recording layout =
     (if unat (lay_frame_count layout) < min_recording_frames \<or>
         max_recording_frames < unat (lay_frame_count layout)
      then (Source_invalid_frame_count, empty_source)
      else if range_size (lay_inputs layout) \<noteq> unat (lay_frame_count layout) * 2
      then (Source_invalid_input_range, empty_source)
      else if \<not> range_contained recording (lay_inputs layout)
      then (Source_truncated_input_range, empty_source)
      else
        (Source_none,
         \<lparr>src_bytes = take (range_size (lay_inputs layout)) (drop (range_offset (lay_inputs layout)) recording),
          src_frame_count = lay_frame_count layout, src_cursor = 0\<rparr>))"

definition exhausted :: "input_source \<Rightarrow> bool" where
  "exhausted s \<longleftrightarrow> src_frame_count s \<le> src_cursor s"

definition next_input :: "input_source \<Rightarrow> input_source \<times> frame_input option" where
  "next_input s =
     (if exhausted s then (s, None)
      else
        (let off = unat (src_cursor s) * 2;
             low = ucast (src_bytes s ! off) :: u16;
             high = ucast (src_bytes s ! (off + 1)) :: u16
         in (s\<lparr>src_cursor := src_cursor s + 1\<rparr>,
             Some \<lparr>fi_frame = src_cursor s, fi_buttons = low OR push_bit 8 high\<rparr>)))"

section \<open>Properties\<close>

lemma has_bytes_iff: "has_bytes off count limit \<longleftrightarrow> off + count \<le> limit"
  by (auto simp: has_bytes_def)

subsection \<open>Reading the inputs\<close>

fun drain_inputs :: "nat \<Rightarrow> input_source \<Rightarrow> frame_input list" where
  "drain_inputs 0 s = []"
| "drain_inputs (Suc fuel) s =
     (case next_input s of
        (s', Some i) \<Rightarrow> i # drain_inputs fuel s'
      | (s', None) \<Rightarrow> [])"

lemma next_input_buttons:
  "(ucast (bs ! off) :: u16) OR push_bit 8 (ucast (bs ! (off + 1))) = get_u16 bs off"
  by (simp add: get_le_def numeral_2_eq_2)

lemma drain_inputs_from:
  assumes "unat (src_frame_count s) - unat (src_cursor s) < fuel"
  shows "drain_inputs fuel s =
    map (\<lambda>i. \<lparr>fi_frame = of_nat i, fi_buttons = get_u16 (src_bytes s) (i * 2)\<rparr>)
      [unat (src_cursor s)..<unat (src_frame_count s)]"
  using assms
proof (induction fuel arbitrary: s)
  case (Suc fuel)
  show ?case
  proof (cases "exhausted s")
    case True
    then show ?thesis by (simp add: next_input_def exhausted_def word_le_nat_alt)
  next
    case False
    then have less: "src_cursor s < src_frame_count s" by (simp add: exhausted_def)
    let ?s = "s\<lparr>src_cursor := src_cursor s + 1\<rparr>"
    have cursor: "unat (src_cursor ?s) = Suc (unat (src_cursor s))"
      using unat_Suc_of_less [OF less] by simp
    have "unat (src_cursor s) < unat (src_frame_count s)"
      using less by (simp add: word_less_nat_alt)
    then have "[unat (src_cursor s)..<unat (src_frame_count s)] =
        unat (src_cursor s) # [unat (src_cursor ?s)..<unat (src_frame_count s)]"
      using cursor by (simp add: upt_conv_Cons)
    moreover have "unat (src_frame_count ?s) - unat (src_cursor ?s) < fuel"
      using Suc.prems cursor \<open>unat (src_cursor s) < _\<close> by simp
    ultimately show ?thesis
      using Suc.IH [of ?s] False
      by (simp add: next_input_def Let_def next_input_buttons [simplified])
  qed
qed simp

subsection \<open>Layout\<close>

definition range_end :: "byte_range \<Rightarrow> nat" where
  "range_end r = range_offset r + range_size r"

definition layout_ok :: "nat \<Rightarrow> recording_layout \<Rightarrow> bool" where
  "layout_ok size_bytes l \<longleftrightarrow>
     range_offset (lay_game_id l) = 12 \<and>
     range_offset (lay_name l) = range_end (lay_game_id l) + 4 \<and>
     range_offset (lay_compressed_state l) = range_end (lay_name l) + 12 \<and>
     range_offset (lay_inputs l) = range_end (lay_compressed_state l) \<and>
     range_end (lay_inputs l) \<le> size_bytes \<and> size_bytes \<le> max_recording_bytes \<and>
     range_size (lay_inputs l) = 2 * unat (lay_frame_count l) \<and>
     1 \<le> unat (lay_frame_count l) \<and> unat (lay_frame_count l) \<le> 54000 \<and>
     0 < range_size (lay_compressed_state l) \<and> 2 \<le> lay_version l \<and> lay_version l \<le> 10"

lemma read_text_SomeD:
  "read_text hb t c = Some (r, c') \<Longrightarrow>
     range_offset r = c + 4 \<and> c' = range_end r \<and> range_end r \<le> t"
  by (auto simp: read_text_def Let_def range_end_def has_bytes_iff split: option.splits if_splits)

lemma decode_header_okD:
  "hdr_error (decode_recording_header bs) = Header_none \<Longrightarrow>
     2 \<le> hdr_version (decode_recording_header bs) \<and> hdr_version (decode_recording_header bs) \<le> 10"
  by (auto simp: decode_recording_header_def Let_def oldest_supported_recording_version_def
      current_recording_version_def not_less split: if_splits)

lemma decode_state_and_inputs_ok:
  assumes "lr_error (decode_state_and_inputs t v g n c fc rs cs) = Layout_none"
    and "range_offset g = 12" "range_offset n = range_end g + 4" "c = range_end n + 12"
    and "t \<le> max_recording_bytes" "2 \<le> v" "v \<le> 10"
  shows "layout_ok t (lr_layout (decode_state_and_inputs t v g n c fc rs cs))"
proof -
  have "cs \<noteq> 0" "1 \<le> unat fc" "unat fc \<le> 54000" "c + unat cs + unat fc * 2 \<le> t"
    and l: "lr_layout (decode_state_and_inputs t v g n c fc rs cs) =
      \<lparr>lay_version = v, lay_game_id = g, lay_name = n, lay_frame_count = fc, lay_raw_state_bytes = rs,
       lay_compressed_state = \<lparr>range_offset = c, range_size = unat cs\<rparr>,
       lay_inputs = \<lparr>range_offset = c + unat cs, range_size = unat fc * 2\<rparr>\<rparr>"
    using assms(1)
    by (auto simp: decode_state_and_inputs_def layout_failure_def Let_def has_bytes_iff
        min_recording_frames_def max_recording_frames_def split: if_splits)
  moreover have "0 < unat cs" using \<open>cs \<noteq> 0\<close> by (simp add: unat_gt_0)
  ultimately show ?thesis
    using assms(2-) by (simp add: layout_ok_def range_end_def)
qed

lemma decode_layout_ok:
  assumes "lr_error (decode_recording_layout_of hb t) = Layout_none"
  shows "layout_ok t (lr_layout (decode_recording_layout_of hb t))"
proof -
  let ?h = "decode_recording_header hb"
  have t: "t \<le> max_recording_bytes" and h: "hdr_error ?h = Header_none"
    using assms by (auto simp: decode_recording_layout_of_def layout_failure_def Let_def split: if_splits)
  obtain g c1 where g: "read_text hb t recording_fixed_header_bytes = Some (g, c1)"
    using assms t h by (auto simp: decode_recording_layout_of_def layout_failure_def split: option.splits)
  obtain n c2 where n: "read_text hb t c1 = Some (n, c2)"
    using assms t h g by (auto simp: decode_recording_layout_of_def layout_failure_def split: option.splits)
  obtain fc rs cs where decoded: "decode_recording_layout_of hb t =
      decode_state_and_inputs t (hdr_version ?h) g n (c2 + 12) fc rs cs"
    using assms t h g n by (auto simp: decode_recording_layout_of_def layout_failure_def split: option.splits)
  show ?thesis
    unfolding decoded
    using assms decoded t decode_header_okD [OF h] read_text_SomeD [OF g] read_text_SomeD [OF n]
    by (intro decode_state_and_inputs_ok) (simp_all add: recording_fixed_header_bytes_def)
qed

subsection \<open>Images of takes\<close>

text \<open>A take as the format lays it out, up to the inputs; \<open>rest\<close> is what later versions append.\<close>

definition inputs_image :: "u16 list \<Rightarrow> bytes" where
  "inputs_image masks = concat (map put_u16 masks)"

definition take_image :: "u32 \<Rightarrow> bytes \<Rightarrow> bytes \<Rightarrow> u32 \<Rightarrow> bytes \<Rightarrow> u16 list \<Rightarrow> bytes \<Rightarrow> bytes" where
  "take_image version game name raw_state state masks rest =
     recording_magic @ put_u32 version @
     put_u32 (of_nat (length game)) @ game @ put_u32 (of_nat (length name)) @ name @
     put_u32 (of_nat (length masks)) @ put_u32 raw_state @ put_u32 (of_nat (length state)) @
     state @ inputs_image masks @ rest"

definition take_wf :: "u32 \<Rightarrow> bytes \<Rightarrow> bytes \<Rightarrow> u32 \<Rightarrow> bytes \<Rightarrow> u16 list \<Rightarrow> bytes \<Rightarrow> bool" where
  "take_wf version game name raw_state state masks rest \<longleftrightarrow>
     2 \<le> version \<and> version \<le> 10 \<and> raw_state \<noteq> 0 \<and> unat raw_state \<le> max_recording_state_bytes \<and>
     state \<noteq> [] \<and> masks \<noteq> [] \<and> length masks \<le> max_recording_frames \<and>
     length (take_image version game name raw_state state masks rest) \<le> max_recording_bytes"

lemma length_inputs_image [simp]: "length (inputs_image masks) = 2 * length masks"
  by (induction masks) (simp_all add: inputs_image_def)

lemma inputs_image_at:
  "i < length masks \<Longrightarrow> get_u16 (pre @ inputs_image masks @ post) (length pre + i * 2) = masks ! i"
proof (induction masks arbitrary: pre i)
  case (Cons m masks)
  show ?case
  proof (cases i)
    case 0
    then show ?thesis
      using le16.get_after [of pre m "inputs_image masks @ post"] by (simp add: inputs_image_def)
  next
    case (Suc j)
    with Cons.prems show ?thesis
      using Cons.IH [of j "pre @ put_u16 m"] by (simp add: inputs_image_def add.assoc)
  qed
qed simp

lemma read_field_at:
  "read_field (pre @ put_u32 w @ post) (length (pre @ put_u32 w @ post)) (length pre) = Some w"
  by (simp add: read_field_def has_bytes_iff read_u32_le_def le32.get_after)

lemma read_text_at:
  assumes "hb = pre @ put_u32 (of_nat (length x)) @ x @ post" and "length hb \<le> max_recording_bytes"
    and "c = length pre"
  shows "read_text hb (length hb) c =
    Some (\<lparr>range_offset = c + 4, range_size = length x\<rparr>, c + 4 + length x)"
proof -
  have "length x < 2 ^ 32"
    using assms(1,2) by (simp add: max_recording_bytes_def)
  then have "unat (of_nat (length x) :: u32) = length x"
    by (intro unat_of_nat_small) simp
  then show ?thesis
    using read_field_at [of pre "of_nat (length x)" "x @ post"] assms
    by (simp add: read_text_def has_bytes_iff Let_def)
qed

lemma length_magic [simp]: "length recording_magic = 4"
  by (simp add: recording_magic_def)

lemma magic_not_Nil [simp]: "recording_magic \<noteq> []"
  by (simp add: recording_magic_def)

lemma header_of_take_image:
  assumes "2 \<le> version" "version \<le> 10"
  shows "decode_recording_header (take_image version game name raw_state state masks rest) =
    \<lparr>hdr_error = Header_none, hdr_version = version\<rparr>"
proof -
  let ?post = "put_u32 (of_nat (length game)) @ game @ put_u32 (of_nat (length name)) @ name @
     put_u32 (of_nat (length masks)) @ put_u32 raw_state @ put_u32 (of_nat (length state)) @
     state @ inputs_image masks @ rest"
  have image: "take_image version game name raw_state state masks rest = recording_magic @ put_u32 version @ ?post"
    by (simp add: take_image_def)
  have "read_u32_le (recording_magic @ put_u32 version @ ?post) 4 = version"
    using le32.get_after [of recording_magic version ?post] by (simp add: read_u32_le_def)
  then show ?thesis
    unfolding image using assms magic_not_Nil
    by (simp add: decode_recording_header_def recording_fixed_header_bytes_def Let_def
        oldest_supported_recording_version_def current_recording_version_def not_less)
qed

definition image_layout :: "u32 \<Rightarrow> bytes \<Rightarrow> bytes \<Rightarrow> u32 \<Rightarrow> bytes \<Rightarrow> u16 list \<Rightarrow> recording_layout" where
  "image_layout version game name raw_state state masks =
     (let state_at = 28 + length game + length name
      in \<lparr>lay_version = version, lay_game_id = \<lparr>range_offset = 12, range_size = length game\<rparr>,
          lay_name = \<lparr>range_offset = 16 + length game, range_size = length name\<rparr>,
          lay_frame_count = of_nat (length masks), lay_raw_state_bytes = raw_state,
          lay_compressed_state = \<lparr>range_offset = state_at, range_size = length state\<rparr>,
          lay_inputs = \<lparr>range_offset = state_at + length state, range_size = length masks * 2\<rparr>\<rparr>)"

lemma decode_take_image:
  assumes "take_wf version game name raw_state state masks rest"
  shows "decode_recording_layout (take_image version game name raw_state state masks rest) =
    \<lparr>lr_error = Layout_none, lr_header_error = Header_none,
     lr_layout = image_layout version game name raw_state state masks\<rparr>"
proof -
  let ?b = "take_image version game name raw_state state masks rest"
  let ?p1 = "recording_magic @ put_u32 version"
  let ?p2 = "?p1 @ put_u32 (of_nat (length game)) @ game"
  let ?p3 = "?p2 @ put_u32 (of_nat (length name)) @ name"
  note wf = assms [unfolded take_wf_def]
  have len: "length ?p1 = 8" "length ?p2 = 12 + length game" "length ?p3 = 16 + length game + length name"
    by (simp_all add: recording_magic_def)
  have fits: "length ?b \<le> max_recording_bytes" using wf by simp
  have g: "read_text ?b (length ?b) 8 =
      Some (\<lparr>range_offset = 12, range_size = length game\<rparr>, 12 + length game)"
    using read_text_at [OF _ fits, of ?p1 game _ 8] len by (simp add: take_image_def add.assoc)
  have n: "read_text ?b (length ?b) (12 + length game) =
      Some (\<lparr>range_offset = 16 + length game, range_size = length name\<rparr>, 16 + length game + length name)"
    using read_text_at [OF _ fits, of ?p2 name _ "12 + length game"] len by (simp add: take_image_def add.assoc)
  have f: "read_field ?b (length ?b) (16 + length game + length name) = Some (of_nat (length masks))"
    using read_field_at [of ?p3 "of_nat (length masks)"
        "put_u32 raw_state @ put_u32 (of_nat (length state)) @ state @ inputs_image masks @ rest"] len
    by (simp add: take_image_def add.assoc)
  have r: "read_field ?b (length ?b) (20 + length game + length name) = Some raw_state"
    using read_field_at [of "?p3 @ put_u32 (of_nat (length masks))" raw_state
        "put_u32 (of_nat (length state)) @ state @ inputs_image masks @ rest"] len
    by (simp add: take_image_def add.assoc)
  have c: "read_field ?b (length ?b) (24 + length game + length name) = Some (of_nat (length state))"
    using read_field_at [of "?p3 @ put_u32 (of_nat (length masks)) @ put_u32 raw_state"
        "of_nat (length state)" "state @ inputs_image masks @ rest"] len
    by (simp add: take_image_def add.assoc)
  have size: "length ?b = 28 + length game + length name + length state + 2 * length masks + length rest"
    by (simp add: take_image_def recording_magic_def)
  then have "length state < 2 ^ 32" "length masks < 2 ^ 32"
    using fits by (simp_all add: max_recording_bytes_def)
  then have words: "unat (of_nat (length state) :: u32) = length state"
      "unat (of_nat (length masks) :: u32) = length masks"
    by (auto intro: unat_of_nat_small)
  then have "of_nat (length state) \<noteq> (0 :: u32)"
    using wf by (metis length_0_conv unsigned_0)
  then show ?thesis
    using wf words size g n f r c
    by (simp add: decode_recording_layout_def decode_recording_layout_of_def header_of_take_image
        recording_fixed_header_bytes_def decode_state_and_inputs_def has_bytes_iff image_layout_def Let_def
        min_recording_frames_def ac_simps Suc_le_eq not_less)
qed

lemma drain_image_inputs:
  assumes "make_recording_input_source recording layout = (err, source)"
    and "recording = pre @ inputs_image masks @ post" and "length masks < fuel"
    and "lay_inputs layout = \<lparr>range_offset = length pre, range_size = length masks * 2\<rparr>"
    and "lay_frame_count layout = of_nat (length masks)"
    and "masks \<noteq> []" and "length masks \<le> max_recording_frames"
  shows "err = Source_none \<and>
    drain_inputs fuel source =
      map (\<lambda>i. \<lparr>fi_frame = of_nat i, fi_buttons = masks ! i\<rparr>) [0..<length masks]"
proof -
  have count: "unat (lay_frame_count layout) = length masks"
    using assms(5,7) by (simp add: max_recording_frames_def unat_of_nat_small)
  have source: "err = Source_none \<and>
      source = \<lparr>src_bytes = inputs_image masks, src_frame_count = lay_frame_count layout, src_cursor = 0\<rparr>"
    using assms(1,2,4,6,7) count
    by (auto simp: make_recording_input_source_def range_contained_def min_recording_frames_def
        Suc_le_eq not_less split: if_splits)
  have "get_u16 (inputs_image masks) (i * 2) = masks ! i" if "i < length masks" for i
    using inputs_image_at [OF that, of "[]" "[]"] by simp
  with source count assms(3) show ?thesis
    by (subst drain_inputs_from) simp_all
qed

subsection \<open>Claims\<close>

text \<open>
  C30: A decoded take layout is safe to use. When the layout of a take decodes, its sections follow
  one another without overlap and lie inside the take, which has at most 64 MiB and between 1
  and 54000 frames; the input source built on it is accepted, and reading it to the end gives
  each frame of the take once, in order, and then stops.
\<close>

theorem recording_layout_safe:
  assumes "lr_error (decode_recording_layout recording) = Layout_none"
    and "layout = lr_layout (decode_recording_layout recording)"
    and "make_recording_input_source recording layout = (err, source)"
    and "54000 < fuel"
  shows "layout_ok (length recording) layout \<and> err = Source_none \<and>
    map fi_frame (drain_inputs fuel source) = map of_nat [0..<unat (lay_frame_count layout)]"
proof -
  have ok: "layout_ok (length recording) layout"
    using assms(1,2) decode_layout_ok by (simp add: decode_recording_layout_def)
  then have source: "err = Source_none \<and> src_frame_count source = lay_frame_count layout \<and> src_cursor source = 0"
    using assms(3)
    by (auto simp: make_recording_input_source_def layout_ok_def range_end_def range_contained_def
        min_recording_frames_def max_recording_frames_def split: if_splits)
  have "drain_inputs fuel source =
      map (\<lambda>i. \<lparr>fi_frame = of_nat i, fi_buttons = get_u16 (src_bytes source) (i * 2)\<rparr>)
        [0..<unat (lay_frame_count layout)]"
    using ok source assms(4) by (subst drain_inputs_from) (auto simp: layout_ok_def)
  then show ?thesis using ok source by (simp add: comp_def)
qed

definition example_take :: bytes where
  "example_take = take_image 9 [83] [84, 85] 100 [1, 2, 3] [0x0081, 0x0100] [7]"

lemma example_take_wf: "take_wf 9 [83] [84, 85] 100 [1, 2, 3] [0x0081, 0x0100] [7]"
  by (simp add: take_wf_def take_image_def recording_magic_def max_recording_state_bytes_def
      max_recording_frames_def max_recording_bytes_def inputs_image_def word_le_nat_alt)

theorem recording_layout_safe_witness:
  "map fi_frame (drain_inputs 54001
     (snd (make_recording_input_source example_take (lr_layout (decode_recording_layout example_take))))) = [0, 1]"
proof -
  note decoded = decode_take_image [OF example_take_wf, folded example_take_def]
  have "lr_error (decode_recording_layout example_take) = Layout_none" by (simp add: decoded)
  from recording_layout_safe [OF this refl surjective_pairing, of 54001]
  have "map fi_frame (drain_inputs 54001
      (snd (make_recording_input_source example_take (lr_layout (decode_recording_layout example_take))))) =
    map of_nat [0..<unat (lay_frame_count (lr_layout (decode_recording_layout example_take)))]" by simp
  moreover have "lay_frame_count (lr_layout (decode_recording_layout example_take)) = 2"
    by (simp add: decoded image_layout_def Let_def)
  ultimately show ?thesis by (simp add: upt_rec)
qed

text \<open>
  C31: The decoder reads the format as it is laid out. For every take of a supported version that
  respects the size limits, decoding its bytes gives the ranges of its game id, name, compressed
  state and inputs, and reading the inputs gives exactly the recorded pad mask of every frame,
  whatever later sections follow.
\<close>

theorem recording_roundtrip:
  assumes "take_wf version game name raw_state state masks rest"
    and "recording = take_image version game name raw_state state masks rest"
    and "54000 < fuel"
  shows "decode_recording_layout recording =
      \<lparr>lr_error = Layout_none, lr_header_error = Header_none,
       lr_layout = image_layout version game name raw_state state masks\<rparr> \<and>
    map fi_buttons (drain_inputs fuel (snd (make_recording_input_source recording
      (lr_layout (decode_recording_layout recording))))) = masks"
proof -
  let ?pre = "recording_magic @ put_u32 version @
     put_u32 (of_nat (length game)) @ game @ put_u32 (of_nat (length name)) @ name @
     put_u32 (of_nat (length masks)) @ put_u32 raw_state @ put_u32 (of_nat (length state)) @ state"
  let ?layout = "image_layout version game name raw_state state masks"
  have decoded: "decode_recording_layout recording =
      \<lparr>lr_error = Layout_none, lr_header_error = Header_none, lr_layout = ?layout\<rparr>"
    using assms(1) by (simp add: assms(2) decode_take_image)
  have "drain_inputs fuel (snd (make_recording_input_source recording ?layout)) =
      map (\<lambda>i. \<lparr>fi_frame = of_nat i, fi_buttons = masks ! i\<rparr>) [0..<length masks]"
    using assms
    by (intro drain_image_inputs [OF surjective_pairing, where pre = ?pre and post = rest, THEN conjunct2])
      (simp_all add: take_image_def image_layout_def Let_def take_wf_def recording_magic_def
        max_recording_frames_def)
  then show ?thesis
    by (simp add: decoded comp_def map_nth)
qed

theorem recording_roundtrip_witness:
  "map fi_buttons (drain_inputs 54001 (snd (make_recording_input_source example_take
      (lr_layout (decode_recording_layout example_take))))) = [0x0081, 0x0100]"
  by (rule recording_roundtrip [OF example_take_wf example_take_def, THEN conjunct2]) simp

subsection \<open>FM registers\<close>

lemma cursor_skip_SomeD: "cursor_skip bs n off = Some off' \<Longrightarrow> off' = off + n \<and> off' \<le> length bs"
  by (auto simp: cursor_skip_def has_bytes_iff split: if_splits)

lemma cursor_read_SomeD: "cursor_read_u32 bs off = Some (w, off') \<Longrightarrow> off' = off + 4 \<and> off' \<le> length bs"
  by (auto simp: cursor_read_u32_def has_bytes_iff split: if_splits)

lemma skip_hash_history_SomeD: "skip_hash_history bs frames off = Some off' \<Longrightarrow> off \<le> off'"
  by (auto simp: skip_hash_history_def Option.bind_eq_Some_conv split: option.splits
      dest!: cursor_skip_SomeD cursor_read_SomeD)

lemma skip_keyframes_InrD: "skip_keyframes bs frames n off = Inr off' \<Longrightarrow> off \<le> off'"
  by (induction n arbitrary: off)
    (fastforce split: option.splits if_splits dest!: cursor_skip_SomeD cursor_read_SomeD)+

lemma skip_keyframes_fails: "skip_keyframes bs frames n off = Inl e \<Longrightarrow> e \<noteq> Fm_none"
  by (induction n arbitrary: off) (auto split: option.splits if_splits)

lemma decode_shadow_ok:
  assumes "decode_shadow bs version off = r" and "fm_error r = Fm_none"
  shows "\<exists>at_byte n. (n = 0 \<or> n = 512) \<and> off \<le> at_byte \<and>
    fm_registers r = take n (drop at_byte bs) \<and>
    at_byte + n + (if 10 \<le> version then 8 else 0) = length bs"
proof -
  obtain w at_byte where w: "cursor_read_u32 bs off = Some (w, at_byte)"
    using assms by (auto simp: decode_shadow_def fm_failure_def split: option.splits)
  then have n: "unat w = 0 \<or> unat w = 512"
    using assms by (auto simp: decode_shadow_def fm_failure_def Let_def recording_fm_register_bytes_def split: if_splits)
  obtain after where after: "cursor_skip bs (unat w) at_byte = Some after"
    using assms w n by (auto simp: decode_shadow_def fm_failure_def Let_def recording_fm_register_bytes_def split: option.splits)
  obtain at_last where at_last: "(if take_id_recording_version \<le> version
        then cursor_skip bs take_id_bytes after else Some after) = Some at_last"
    using assms w n after
    by (cases "if take_id_recording_version \<le> version then cursor_skip bs take_id_bytes after else Some after")
      (auto simp: decode_shadow_def fm_failure_def Let_def recording_fm_register_bytes_def)
  have "at_last = length bs" and "fm_registers r = take (unat w) (drop at_byte bs)"
    using assms w n after at_last
    by (auto simp: decode_shadow_def fm_failure_def Let_def recording_fm_register_bytes_def split: if_splits)
  moreover have "at_last = after + (if 10 \<le> version then 8 else 0)"
    using at_last cursor_skip_SomeD [of bs take_id_bytes after at_last]
    by (auto simp: take_id_recording_version_def take_id_bytes_def split: if_splits)
  ultimately show ?thesis
    using n cursor_skip_SomeD [OF after] cursor_read_SomeD [OF w]
    by (intro exI [of _ at_byte] exI [of _ "unat w"]) simp
qed

text \<open>
  The FM register shadow of a take is the right slice of the file. When the decoder accepts a
  take of version 9 or later it returns either no registers or the 512 bytes that end the take
  (before the 8-byte take id from version 10 on), and that slice lies after the inputs, the trim
  marks and the per-frame summaries; an older take gives no registers and no error.
\<close>

theorem fm_registers_slice:
  assumes "fm_error (decode_recording_fm_registers recording layout) = Fm_none"
    and "regs = fm_registers (decode_recording_fm_registers recording layout)"
  shows "if lay_version layout < 9 then regs = []
    else \<exists>at_byte n. (n = 0 \<or> n = 512) \<and> length regs = n \<and> regs = take n (drop at_byte recording) \<and>
      at_byte + n + (if 10 \<le> lay_version layout then 8 else 0) = length recording \<and>
      range_end (lay_inputs layout) + 8 + 12 * unat (lay_frame_count layout) \<le> at_byte"
proof (cases "lay_version layout < 9")
  case True
  then show ?thesis
    using assms by (simp add: decode_recording_fm_registers_def recording_fm_registers_version_def fm_failure_def)
next
  case False
  let ?frames = "unat (lay_frame_count layout)" and ?d = "decode_recording_fm_registers recording layout"
  note unfolded = decode_recording_fm_registers_def recording_fm_registers_version_def fm_failure_def Let_def
  obtain o1 where o1: "Option.bind (Option.bind (cursor_skip recording 8 (range_end (lay_inputs layout)))
      (cursor_skip recording (?frames * 12))) (skip_hash_history recording ?frames) = Some o1"
    using assms(1) False by (auto simp: unfolded range_end_def split: option.splits if_splits)
  then have after: "range_end (lay_inputs layout) + 8 + 12 * ?frames \<le> o1"
    by (auto simp: Option.bind_eq_Some_conv dest!: cursor_skip_SomeD skip_hash_history_SomeD)
  obtain k o2 where k: "cursor_read_u32 recording o1 = Some (k, o2)"
    using assms(1) False o1 by (auto simp: unfolded range_end_def split: option.splits if_splits)
  obtain o3 where o3: "skip_keyframes recording ?frames (unat k) o2 = Inr o3"
    using assms(1) False o1 k
    by (cases "skip_keyframes recording ?frames (unat k) o2")
      (auto simp: unfolded range_end_def split: if_splits dest: skip_keyframes_fails)
  obtain o4 where o4: "Option.bind (skip_hash_history recording ?frames o3) (cursor_skip recording 4) = Some o4"
    using assms(1) False o1 k o3 by (auto simp: unfolded range_end_def split: option.splits if_splits)
  have "?d = decode_shadow recording (lay_version layout) o4"
    using assms(1) False o1 k o3 o4 by (auto simp: unfolded range_end_def split: if_splits)
  moreover have "o1 \<le> o4"
    using cursor_read_SomeD [OF k] skip_keyframes_InrD [OF o3] o4
    by (auto simp: Option.bind_eq_Some_conv dest!: cursor_skip_SomeD skip_hash_history_SomeD)
  ultimately show ?thesis
    using decode_shadow_ok [of recording "lay_version layout" o4 ?d] assms after False
    by fastforce
qed

definition example_shadow_take :: bytes where
  "example_shadow_take =
     replicate 2 0 @ replicate 20 0 @ replicate 8 0 @ put_u32 0 @ replicate 8 0 @ put_u32 0 @
     put_u32 512 @ replicate 512 7"

definition example_shadow_layout :: recording_layout where
  "example_shadow_layout =
     empty_layout\<lparr>lay_version := 9, lay_frame_count := 1,
       lay_inputs := \<lparr>range_offset = 0, range_size = 2\<rparr>\<rparr>"

theorem fm_registers_slice_witness:
  "fm_error (decode_recording_fm_registers example_shadow_take example_shadow_layout) = Fm_none \<and>
   length (fm_registers (decode_recording_fm_registers example_shadow_take example_shadow_layout)) = 512 \<and>
   (\<exists>at_byte n. (n = 0 \<or> n = 512) \<and> at_byte + n = length example_shadow_take)"
proof -
  have ok: "fm_error (decode_recording_fm_registers example_shadow_take example_shadow_layout) = Fm_none"
    by code_simp
  moreover have "length (fm_registers (decode_recording_fm_registers example_shadow_take example_shadow_layout)) = 512"
    by code_simp
  moreover have "\<not> lay_version example_shadow_layout < 9" "\<not> 10 \<le> lay_version example_shadow_layout"
    by (simp_all add: example_shadow_layout_def)
  with fm_registers_slice [OF ok refl]
  have "\<exists>at_byte n. (n = 0 \<or> n = 512) \<and> at_byte + n = length example_shadow_take" by auto
  ultimately show ?thesis by blast
qed

end
