(* ===== verification/Pad_Timeline.thy ===== *)
theory Pad_Timeline
  imports Recording Text_Scan Double_Rounding "HOL-Library.Code_Target_Nat"
begin

text \<open>
  Pad timelines: \<^verbatim>\<open>tools/audio_qa/pad_timeline.{h,cpp}\<close>, a text that drives the game instead of a
  recorded take. Its parser, its compilation to one pad mask per frame, the position of a frame
  in the timeline and the texts the window shows.

  Seconds and fps are doubles (theory Double_Rounding); a value that is not finite is \<open>None\<close>.
  \<open>from_chars\<close> for doubles reads digits with an optional fraction and exponent and rounds the exact
  decimal value; the code rejects the results it reports out of range, which the range check on
  seconds rejects here. Frame numbers and sizes are natural numbers, which the limit of 54000
  frames keeps far below the 32 bits of the code.
\<close>

unbundle bit_operations_syntax

section \<open>Data\<close>

definition max_timeline_bytes :: nat where "max_timeline_bytes = 65536"
definition max_timeline_steps :: nat where "max_timeline_steps = 4096"
definition default_press_frames :: nat where "default_press_frames = 4"

definition genesis_buttons :: "(string \<times> u16) list" where
  "genesis_buttons =
     [(''a'', 0x0002), (''b'', 0x0001), (''c'', 0x0100), (''x'', 0x0400), (''y'', 0x0200),
      (''z'', 0x0800), (''start'', 0x0008), (''mode'', 0x0004), (''up'', 0x0010),
      (''down'', 0x0020), (''left'', 0x0040), (''right'', 0x0080)]"

datatype timeline_start = Start_power_on | Start_state string

datatype timeline_step_kind = Step_wait | Step_press | Step_down | Step_up

datatype timeline_duration = Duration_seconds real | Duration_frames nat

record timeline_step =
  ts_kind :: timeline_step_kind
  ts_buttons :: u16
  ts_duration :: "timeline_duration option"
  ts_line :: nat

record pad_timeline =
  tl_start :: timeline_start
  tl_steps :: "timeline_step list"

datatype timeline_parse_error =
  File_too_large | Unknown_keyword | Unknown_button | Invalid_duration | Missing_duration
  | Unexpected_argument | Invalid_start | Start_not_first | Start_repeated | Button_already_down
  | Button_not_down | Too_many_steps | No_steps

section \<open>Lexical routines\<close>

definition is_space :: "char \<Rightarrow> bool" where
  "is_space c \<longleftrightarrow> c = CHR '' '' \<or> c = CHR 0x09 \<or> c = CHR 0x0D \<or> c = CHR 0x0C \<or> c = CHR 0x0B"

definition trim :: "string \<Rightarrow> string" where
  "trim t = rev (dropWhile is_space (rev (dropWhile is_space t)))"

definition lower_char :: "char \<Rightarrow> char" where
  "lower_char c =
     (if 65 \<le> (of_char c :: nat) \<and> (of_char c :: nat) \<le> 90 then char_of ((of_char c :: nat) + 32) else c)"

definition lowered :: "string \<Rightarrow> string" where
  "lowered t = map lower_char t"

fun without_comment_from :: "bool \<Rightarrow> bool \<Rightarrow> string \<Rightarrow> string" where
  "without_comment_from quoted after_blank [] = []"
| "without_comment_from quoted after_blank (c # cs) =
     (if c = CHR 0x22 then c # without_comment_from (\<not> quoted) False cs
      else if \<not> quoted \<and> c = CHR ''#'' \<and> after_blank then []
      else c # without_comment_from quoted (is_space c) cs)"

definition without_comment :: "string \<Rightarrow> string" where
  "without_comment line = without_comment_from False True line"

definition split_token :: "string \<Rightarrow> string \<times> string" where
  "split_token t =
     (takeWhile (\<lambda>c. \<not> is_space c) (trim t), trim (dropWhile (\<lambda>c. \<not> is_space c) (trim t)))"

definition unquoted :: "string \<Rightarrow> string" where
  "unquoted t =
     (if 2 \<le> length t \<and> hd t = CHR 0x22 \<and> last t = CHR 0x22 then butlast (tl t) else t)"

definition ends_with :: "string \<Rightarrow> string \<Rightarrow> bool" where
  "ends_with suffix t \<longleftrightarrow> length suffix \<le> length t \<and> drop (length t - length suffix) t = suffix"

definition remove_suffix :: "nat \<Rightarrow> string \<Rightarrow> string" where
  "remove_suffix n t = take (length t - n) t"

definition parse_exponent :: "string \<Rightarrow> int option" where
  "parse_exponent t =
     (case t of
        [] \<Rightarrow> Some 0
      | c # r \<Rightarrow>
          if c \<noteq> CHR ''e'' then None
          else
            (let sign = (if r \<noteq> [] \<and> hd r = CHR ''-'' then - 1 else 1 :: int);
                 ds = (if r \<noteq> [] \<and> (hd r = CHR ''-'' \<or> hd r = CHR ''+'') then tl r else r)
             in if ds = [] \<or> (\<exists>d \<in> set ds. \<not> is_digit d) then None
                else Some (sign * int (digits_value ds))))"

definition parse_decimal :: "string \<Rightarrow> real option" where
  "parse_decimal t =
     (let ip = takeWhile is_digit t; r1 = dropWhile is_digit t;
          dotted = r1 \<noteq> [] \<and> hd r1 = CHR ''.'';
          fp = (if dotted then takeWhile is_digit (tl r1) else []);
          r2 = (if dotted then dropWhile is_digit (tl r1) else r1)
      in if ip = [] \<and> fp = [] then None
         else
           (case parse_exponent r2 of
              None \<Rightarrow> None
            | Some e \<Rightarrow>
                Some (real (digits_value (ip @ fp)) / 10 ^ length fp *
                      (if 0 \<le> e then 10 ^ nat e else 1 / 10 ^ nat (- e)))))"

definition max_step_seconds :: real where
  "max_step_seconds = 1000000"

definition parse_seconds :: "(real \<Rightarrow> real) \<Rightarrow> bool \<Rightarrow> string \<Rightarrow> timeline_duration option" where
  "parse_seconds rnd milliseconds number =
     (case parse_decimal number of
        None \<Rightarrow> None
      | Some v \<Rightarrow>
          (let s = (if milliseconds then rnd (rnd v * rnd (1 / 1000)) else rnd v)
           in if s \<le> 0 \<or> max_step_seconds < s then None else Some (Duration_seconds s)))"

definition parse_frames :: "string \<Rightarrow> timeline_duration option" where
  "parse_frames number =
     (case parse_number (2 ^ 32) number of
        None \<Rightarrow> None
      | Some frames \<Rightarrow>
          if frames < min_recording_frames \<or> max_recording_frames < frames then None
          else Some (Duration_frames frames))"

definition signed_or_empty :: "string \<Rightarrow> bool" where
  "signed_or_empty number \<longleftrightarrow> number = [] \<or> hd number = CHR ''-'' \<or> hd number = CHR ''+''"

definition parse_duration :: "(real \<Rightarrow> real) \<Rightarrow> string \<Rightarrow> timeline_duration option" where
  "parse_duration rnd t =
     (let value = lowered t
      in if ends_with ''ms'' value then
           (if signed_or_empty (remove_suffix 2 value) then None
            else parse_seconds rnd True (remove_suffix 2 value))
         else if ends_with ''s'' value then
           (if signed_or_empty (remove_suffix 1 value) then None
            else parse_seconds rnd False (remove_suffix 1 value))
         else if ends_with ''f'' value then
           (if signed_or_empty (remove_suffix 1 value) then None
            else parse_frames (remove_suffix 1 value))
         else None)"

section \<open>Buttons\<close>

definition button_mask :: "string \<Rightarrow> u16" where
  "button_mask name =
     foldl (\<lambda>found (n, m). if n = name then m else found) 0 genesis_buttons"

function parse_buttons_from :: "u16 \<Rightarrow> string \<Rightarrow> u16 option" where
  "parse_buttons_from pad_mask rest =
     (if rest = [] then Some pad_mask
      else
        (let name = lowered (takeWhile (\<lambda>c. c \<noteq> CHR ''+'') rest);
             after = dropWhile (\<lambda>c. c \<noteq> CHR ''+'') rest;
             rest' = drop 1 after;
             found = button_mask name
         in if found = 0 \<or> pad_mask AND found \<noteq> 0 then None
            else if after \<noteq> [] \<and> rest' = [] then None
            else parse_buttons_from (pad_mask OR found) rest'))"
  by pat_completeness auto

termination
proof (relation "measure (length \<circ> snd)")
  fix pad_mask :: u16 and rest name after rest' found
  assume "rest \<noteq> []" and after: "after = dropWhile (\<lambda>c. c \<noteq> CHR ''+'') rest" and "rest' = drop 1 after"
  then show "((pad_mask OR found, rest'), pad_mask, rest) \<in> measure (length \<circ> snd)"
    using length_dropWhile_le [of "\<lambda>c. c \<noteq> CHR ''+''" rest] by (cases rest) auto
qed simp

declare parse_buttons_from.simps [simp del]

definition parse_timeline_buttons :: "string \<Rightarrow> u16 option" where
  "parse_timeline_buttons t = (if t = [] then None else parse_buttons_from 0 t)"

section \<open>Parser\<close>

record timeline_parser =
  tp_start :: timeline_start
  tp_steps :: "timeline_step list"
  tp_start_seen :: bool
  tp_held :: u16

definition make_parser :: timeline_parser where
  "make_parser = \<lparr>tp_start = Start_power_on, tp_steps = [], tp_start_seen = False, tp_held = 0\<rparr>"

definition parse_start_line :: "timeline_parser \<Rightarrow> string \<Rightarrow> timeline_parse_error + timeline_parser" where
  "parse_start_line p arguments =
     (if tp_start_seen p then Inl Start_repeated
      else if tp_steps p \<noteq> [] then Inl Start_not_first
      else
        (case split_token arguments of
           (kind_text, path) \<Rightarrow>
             (let kind = lowered kind_text
              in if kind = ''power_on'' then
                   (if path \<noteq> [] then Inl Unexpected_argument
                    else Inr (p\<lparr>tp_start_seen := True, tp_start := Start_power_on\<rparr>))
                 else if kind = ''state'' then
                   (if unquoted path = [] then Inl Invalid_start
                    else Inr (p\<lparr>tp_start_seen := True, tp_start := Start_state (unquoted path)\<rparr>))
                 else Inl Invalid_start)))"

definition push_step :: "timeline_parser \<Rightarrow> timeline_step \<Rightarrow> timeline_parser" where
  "push_step p step = p\<lparr>tp_steps := tp_steps p @ [step]\<rparr>"

definition parse_wait_line ::
    "(real \<Rightarrow> real) \<Rightarrow> nat \<Rightarrow> timeline_parser \<Rightarrow> string \<Rightarrow> timeline_parse_error + timeline_parser" where
  "parse_wait_line rnd line p arguments =
     (case split_token arguments of
        (duration_text, rest) \<Rightarrow>
          if duration_text = [] then Inl Missing_duration
          else if rest \<noteq> [] then Inl Unexpected_argument
          else
            (case parse_duration rnd duration_text of
               None \<Rightarrow> Inl Invalid_duration
             | Some d \<Rightarrow>
                 Inr (push_step p
                   \<lparr>ts_kind = Step_wait, ts_buttons = 0, ts_duration = Some d, ts_line = line\<rparr>)))"

definition parse_press_line ::
    "(real \<Rightarrow> real) \<Rightarrow> nat \<Rightarrow> timeline_parser \<Rightarrow> bool \<Rightarrow> u16 \<Rightarrow> string \<Rightarrow>
     timeline_parse_error + timeline_parser" where
  "parse_press_line rnd line p hold buttons duration_text =
     (let duration =
        (if duration_text = [] then
           (if hold then Inl Missing_duration else Inr (Duration_frames default_press_frames))
         else
           (case parse_duration rnd duration_text of
              None \<Rightarrow> Inl Invalid_duration
            | Some d \<Rightarrow> Inr d))
      in case duration of
           Inl e \<Rightarrow> Inl e
         | Inr d \<Rightarrow>
             Inr (push_step p
               \<lparr>ts_kind = Step_press, ts_buttons = buttons, ts_duration = Some d, ts_line = line\<rparr>))"

definition parse_held_line ::
    "nat \<Rightarrow> timeline_parser \<Rightarrow> bool \<Rightarrow> u16 \<Rightarrow> string \<Rightarrow> timeline_parse_error + timeline_parser" where
  "parse_held_line line p down buttons duration_text =
     (if duration_text \<noteq> [] then Inl Unexpected_argument
      else if down then
        (if tp_held p AND buttons \<noteq> 0 then Inl Button_already_down
         else
           Inr (push_step (p\<lparr>tp_held := tp_held p OR buttons\<rparr>)
             \<lparr>ts_kind = Step_down, ts_buttons = buttons, ts_duration = None, ts_line = line\<rparr>))
      else
        (if tp_held p AND buttons \<noteq> buttons then Inl Button_not_down
         else
           Inr (push_step (p\<lparr>tp_held := tp_held p AND NOT buttons\<rparr>)
             \<lparr>ts_kind = Step_up, ts_buttons = buttons, ts_duration = None, ts_line = line\<rparr>)))"

definition parse_buttons_line ::
    "(real \<Rightarrow> real) \<Rightarrow> nat \<Rightarrow> timeline_parser \<Rightarrow> string \<Rightarrow> string \<Rightarrow>
     timeline_parse_error + timeline_parser" where
  "parse_buttons_line rnd line p keyword arguments =
     (if keyword \<notin> set [''press'', ''hold'', ''down'', ''up''] then Inl Unknown_keyword
      else
        (case split_token arguments of
           (buttons_text, after_buttons) \<Rightarrow>
             if buttons_text = [] then Inl Unknown_button
             else
               (case parse_timeline_buttons buttons_text of
                  None \<Rightarrow> Inl Unknown_button
                | Some buttons \<Rightarrow>
                    (case split_token after_buttons of
                       (duration_text, rest) \<Rightarrow>
                         if rest \<noteq> [] then Inl Unexpected_argument
                         else if keyword = ''press'' \<or> keyword = ''hold''
                         then parse_press_line rnd line p (keyword = ''hold'') buttons duration_text
                         else parse_held_line line p (keyword = ''down'') buttons duration_text))))"

definition parse_timeline_line ::
    "(real \<Rightarrow> real) \<Rightarrow> nat \<Rightarrow> timeline_parser \<Rightarrow> string \<Rightarrow> timeline_parse_error + timeline_parser" where
  "parse_timeline_line rnd line p content =
     (case split_token content of
        (keyword_text, arguments) \<Rightarrow>
          (let keyword = lowered keyword_text
           in if keyword = ''start'' then parse_start_line p arguments
              else if length (tp_steps p) = max_timeline_steps then Inl Too_many_steps
              else if keyword = ''wait'' then parse_wait_line rnd line p arguments
              else parse_buttons_line rnd line p keyword arguments))"

fun parse_timeline_lines ::
    "(real \<Rightarrow> real) \<Rightarrow> nat \<Rightarrow> timeline_parser \<Rightarrow> string list \<Rightarrow>
     (timeline_parse_error \<times> nat) + timeline_parser" where
  "parse_timeline_lines rnd n p [] = Inr p"
| "parse_timeline_lines rnd n p (raw # ls) =
     (let content = trim (without_comment raw)
      in if content = [] then parse_timeline_lines rnd (n + 1) p ls
         else
           (case parse_timeline_line rnd (n + 1) p content of
              Inl e \<Rightarrow> Inl (e, n + 1)
            | Inr p' \<Rightarrow> parse_timeline_lines rnd (n + 1) p' ls))"

definition parse_pad_timeline ::
    "(real \<Rightarrow> real) \<Rightarrow> string \<Rightarrow> (timeline_parse_error \<times> nat) + pad_timeline" where
  "parse_pad_timeline rnd t =
     (if max_timeline_bytes < length t then Inl (File_too_large, 0)
      else
        (case parse_timeline_lines rnd 0 make_parser (split_lines t) of
           Inl e \<Rightarrow> Inl e
         | Inr p \<Rightarrow>
             if tp_steps p = [] then Inl (No_steps, 0)
             else Inr \<lparr>tl_start = tp_start p, tl_steps = tp_steps p\<rparr>))"

fun timeline_parse_error_code :: "timeline_parse_error option \<Rightarrow> string" where
  "timeline_parse_error_code None = ''none''"
| "timeline_parse_error_code (Some File_too_large) = ''file_too_large''"
| "timeline_parse_error_code (Some Unknown_keyword) = ''unknown_keyword''"
| "timeline_parse_error_code (Some Unknown_button) = ''unknown_button''"
| "timeline_parse_error_code (Some Invalid_duration) = ''invalid_duration''"
| "timeline_parse_error_code (Some Missing_duration) = ''missing_duration''"
| "timeline_parse_error_code (Some Unexpected_argument) = ''unexpected_argument''"
| "timeline_parse_error_code (Some Invalid_start) = ''invalid_start''"
| "timeline_parse_error_code (Some Start_not_first) = ''start_not_first''"
| "timeline_parse_error_code (Some Start_repeated) = ''start_repeated''"
| "timeline_parse_error_code (Some Button_already_down) = ''button_already_down''"
| "timeline_parse_error_code (Some Button_not_down) = ''button_not_down''"
| "timeline_parse_error_code (Some Too_many_steps) = ''too_many_steps''"
| "timeline_parse_error_code (Some No_steps) = ''no_steps''"

section \<open>Compilation\<close>

datatype timeline_compile_error =
  Invalid_fps | Duration_rounds_to_zero | Too_many_frames | No_frames

record step_span =
  span_step :: nat
  span_first_frame :: nat
  span_frames :: nat

record compiled_timeline =
  ct_buttons :: "u16 list"
  ct_spans :: "step_span list"
  ct_input_bytes :: bytes
  ct_fps :: real
  ct_frames :: nat

definition llround :: "real \<Rightarrow> int" where
  "llround y = (if 0 \<le> y then \<lfloor>y + 1 / 2\<rfloor> else - \<lfloor>- y + 1 / 2\<rfloor>)"

definition duration_frames :: "(real \<Rightarrow> real) \<Rightarrow> real \<Rightarrow> timeline_duration option \<Rightarrow> nat" where
  "duration_frames rnd fps d =
     (case (case d of Some v \<Rightarrow> v | None \<Rightarrow> Duration_frames default_press_frames) of
        Duration_frames n \<Rightarrow> n
      | Duration_seconds s \<Rightarrow>
          (let rounded = llround (rnd (s * fps)) in if rounded \<le> 0 then 0 else nat rounded))"

fun compile_steps ::
    "(real \<Rightarrow> real) \<Rightarrow> real \<Rightarrow> nat \<Rightarrow> u16 \<Rightarrow> u16 list \<Rightarrow> step_span list \<Rightarrow> timeline_step list \<Rightarrow>
     (timeline_compile_error \<times> nat) + (u16 list \<times> step_span list)" where
  "compile_steps rnd fps index held buttons spans [] = Inr (buttons, spans)"
| "compile_steps rnd fps index held buttons spans (step # steps) =
     (if ts_kind step = Step_down
      then compile_steps rnd fps (index + 1) (held OR ts_buttons step) buttons spans steps
      else if ts_kind step = Step_up
      then compile_steps rnd fps (index + 1) (held AND NOT (ts_buttons step)) buttons spans steps
      else
        (let frames = duration_frames rnd fps (ts_duration step)
         in if frames = 0 then Inl (Duration_rounds_to_zero, ts_line step)
            else if max_recording_frames < length buttons + frames then Inl (Too_many_frames, ts_line step)
            else
              (let pad_mask = (if ts_kind step = Step_press then held OR ts_buttons step else held)
               in compile_steps rnd fps (index + 1) held (buttons @ replicate frames pad_mask)
                    (spans @ [\<lparr>span_step = index, span_first_frame = length buttons, span_frames = frames\<rparr>])
                    steps)))"

definition mask_bytes :: "u16 \<Rightarrow> bytes" where
  "mask_bytes m = [ucast (m AND 0xff), ucast (drop_bit 8 m)]"

definition compile_pad_timeline ::
    "(real \<Rightarrow> real) \<Rightarrow> pad_timeline \<Rightarrow> real option \<Rightarrow> (timeline_compile_error \<times> nat) + compiled_timeline" where
  "compile_pad_timeline rnd timeline fps =
     (case fps of
        None \<Rightarrow> Inl (Invalid_fps, 0)
      | Some f \<Rightarrow>
          if f \<le> 0 \<or> 1000 < f then Inl (Invalid_fps, 0)
          else
            (case compile_steps rnd f 0 0 [] [] (tl_steps timeline) of
               Inl e \<Rightarrow> Inl e
             | Inr (buttons, spans) \<Rightarrow>
                 if length buttons < min_recording_frames then Inl (No_frames, 0)
                 else
                   Inr \<lparr>ct_buttons = buttons, ct_spans = spans,
                        ct_input_bytes = concat (map mask_bytes buttons), ct_fps = f,
                        ct_frames = length buttons\<rparr>))"

fun timeline_compile_error_code :: "timeline_compile_error option \<Rightarrow> string" where
  "timeline_compile_error_code None = ''none''"
| "timeline_compile_error_code (Some Invalid_fps) = ''invalid_fps''"
| "timeline_compile_error_code (Some Duration_rounds_to_zero) = ''duration_rounds_to_zero''"
| "timeline_compile_error_code (Some Too_many_frames) = ''too_many_frames''"
| "timeline_compile_error_code (Some No_frames) = ''no_frames''"

record timeline_position =
  pos_span :: nat
  pos_step :: nat
  pos_frames_left :: nat

fun position_from :: "nat \<Rightarrow> step_span list \<Rightarrow> nat \<Rightarrow> timeline_position option" where
  "position_from index [] frame = None"
| "position_from index (sp # sps) frame =
     (if span_first_frame sp \<le> frame \<and> frame - span_first_frame sp < span_frames sp
      then Some \<lparr>pos_span = index, pos_step = span_step sp,
                 pos_frames_left = span_first_frame sp + span_frames sp - frame\<rparr>
      else position_from (index + 1) sps frame)"

definition timeline_position_at :: "compiled_timeline \<Rightarrow> nat \<Rightarrow> timeline_position option" where
  "timeline_position_at compiled frame = position_from 0 (ct_spans compiled) frame"

definition timeline_input_layout :: "compiled_timeline \<Rightarrow> recording_layout" where
  "timeline_input_layout compiled =
     empty_layout\<lparr>lay_version := current_recording_version,
       lay_frame_count := of_nat (ct_frames compiled),
       lay_inputs := \<lparr>range_offset = 0, range_size = ct_frames compiled * 2\<rparr>\<rparr>"

definition make_timeline_input_source :: "compiled_timeline \<Rightarrow> input_source_error \<times> input_source" where
  "make_timeline_input_source compiled =
     make_recording_input_source (ct_input_bytes compiled) (timeline_input_layout compiled)"

section \<open>Texts\<close>

definition describe_timeline_buttons :: "u16 \<Rightarrow> string" where
  "describe_timeline_buttons pad_mask =
     (let names =
        foldl (\<lambda>names (n, m). if pad_mask AND m = 0 then names
                              else if names \<noteq> [] then names @ ''+'' @ n else names @ n)
          [] genesis_buttons
      in if names = [] then ''-'' else names)"

fun step_keyword :: "timeline_step_kind \<Rightarrow> string" where
  "step_keyword Step_wait = ''wait''"
| "step_keyword Step_press = ''press''"
| "step_keyword Step_down = ''down''"
| "step_keyword Step_up = ''up''"

text \<open>The text of a duration in seconds is \<^verbatim>\<open>snprintf "%gs"\<close>, an argument here.\<close>

definition describe_timeline_step :: "(real \<Rightarrow> string) \<Rightarrow> timeline_step \<Rightarrow> string" where
  "describe_timeline_step print_g step =
     step_keyword (ts_kind step) @
     (if ts_kind step \<noteq> Step_wait then '' '' @ describe_timeline_buttons (ts_buttons step) else []) @
     (case ts_duration step of
        None \<Rightarrow> []
      | Some (Duration_frames n) \<Rightarrow> '' '' @ to_string n @ ''f''
      | Some (Duration_seconds s) \<Rightarrow> '' '' @ print_g s @ ''s'')"

section \<open>What the parser accepts\<close>

fun duration_wf :: "timeline_duration \<Rightarrow> bool" where
  "duration_wf (Duration_frames n) \<longleftrightarrow> 1 \<le> n \<and> n \<le> 54000"
| "duration_wf (Duration_seconds x) \<longleftrightarrow> 0 < x \<and> x \<le> 1000000"

definition buttons_wf :: "u16 \<Rightarrow> bool" where
  "buttons_wf b \<longleftrightarrow> b \<noteq> 0 \<and> b AND NOT 0x0fff = 0"

definition step_wf :: "timeline_step \<Rightarrow> bool" where
  "step_wf step \<longleftrightarrow>
     (case ts_kind step of
        Step_wait \<Rightarrow> ts_buttons step = 0 \<and> (\<exists>d. ts_duration step = Some d \<and> duration_wf d)
      | Step_press \<Rightarrow> buttons_wf (ts_buttons step) \<and> (\<exists>d. ts_duration step = Some d \<and> duration_wf d)
      | _ \<Rightarrow> buttons_wf (ts_buttons step) \<and> ts_duration step = None)"

text \<open>The buttons held after a list of steps, when each press and release is legal.\<close>

fun held_run :: "u16 \<Rightarrow> timeline_step list \<Rightarrow> u16 option" where
  "held_run held [] = Some held"
| "held_run held (step # steps) =
     (case ts_kind step of
        Step_down \<Rightarrow>
          if held AND ts_buttons step \<noteq> 0 then None else held_run (held OR ts_buttons step) steps
      | Step_up \<Rightarrow>
          if held AND ts_buttons step \<noteq> ts_buttons step then None
          else held_run (held AND NOT (ts_buttons step)) steps
      | _ \<Rightarrow> held_run held steps)"

lemma held_run_append:
  "held_run h (xs @ ys) = Option.bind (held_run h xs) (\<lambda>h'. held_run h' ys)"
  by (induction xs arbitrary: h) (auto split: timeline_step_kind.splits)

lemma parse_duration_wf: "parse_duration rnd t = Some d \<Longrightarrow> duration_wf d"
  by (auto simp: parse_duration_def parse_seconds_def parse_frames_def Let_def min_recording_frames_def
      max_recording_frames_def max_step_seconds_def split: if_splits option.splits)

lemma button_mask_in_table: "button_mask name \<in> insert 0 (snd ` set genesis_buttons)"
  by (simp add: button_mask_def genesis_buttons_def)

lemma button_mask_bits: "button_mask name AND NOT 0x0fff = 0"
  using button_mask_in_table [of name] by (auto simp: genesis_buttons_def)

lemma or_and_eq_0: "(a OR b) AND m = 0 \<longleftrightarrow> a AND m = 0 \<and> b AND m = 0" for a b m :: u16
  by (simp only: bit.conj_disj_distrib2 or_eq_0_iff)

lemma parse_buttons_from_wf:
  "parse_buttons_from acc rest = Some r \<Longrightarrow> acc AND NOT 0x0fff = 0 \<Longrightarrow> acc \<noteq> 0 \<or> rest \<noteq> [] \<Longrightarrow>
     buttons_wf r"
proof (induction acc rest rule: parse_buttons_from.induct)
  case (1 acc rest)
  let ?name = "lowered (takeWhile (\<lambda>c. c \<noteq> CHR ''+'') rest)"
    and ?after = "dropWhile (\<lambda>c. c \<noteq> CHR ''+'') rest"
  show ?case
  proof (cases "rest = []")
    case True
    with 1(2-4) show ?thesis by (simp add: parse_buttons_from.simps [of acc "[]"] buttons_wf_def)
  next
    case False
    with 1(2) have "button_mask ?name \<noteq> 0" "\<not> (button_mask ?name = 0 \<or> acc AND button_mask ?name \<noteq> 0)"
      "\<not> (?after \<noteq> [] \<and> drop 1 ?after = [])"
      "parse_buttons_from (acc OR button_mask ?name) (drop 1 ?after) = Some r"
      by (simp_all add: parse_buttons_from.simps [of acc rest] Let_def split: if_splits)
    with 1(1) [OF False refl refl refl refl] 1(3) button_mask_bits [of ?name] show ?thesis
      by (simp add: or_and_eq_0 or_eq_0_iff)
  qed
qed

lemma parse_timeline_buttons_wf: "parse_timeline_buttons t = Some b \<Longrightarrow> buttons_wf b"
  by (auto simp: parse_timeline_buttons_def split: if_splits intro: parse_buttons_from_wf)

definition parser_wf :: "nat \<Rightarrow> timeline_parser \<Rightarrow> bool" where
  "parser_wf n p \<longleftrightarrow>
     length (tp_steps p) \<le> 4096 \<and> (\<forall>step \<in> set (tp_steps p). step_wf step \<and> ts_line step \<le> n) \<and>
     held_run 0 (tp_steps p) = Some (tp_held p) \<and> sorted_wrt (<) (map ts_line (tp_steps p))"

lemma push_step_wf:
  assumes "parser_wf n p" and "length (tp_steps p) \<noteq> 4096" and "step_wf step" and "ts_line step = Suc n"
    and "held_run (tp_held p) [step] = Some h"
  shows "parser_wf (Suc n) (push_step (p\<lparr>tp_held := h\<rparr>) step)"
  using assms
  by (auto simp: parser_wf_def push_step_def held_run_append sorted_wrt_append less_Suc_eq_le
      intro: le_SucI)

lemma parse_timeline_line_wf:
  assumes "parser_wf n p" and "parse_timeline_line rnd (Suc n) p content = Inr p'"
  shows "parser_wf (Suc n) p'"
proof (cases "length (tp_steps p) = 4096 \<or> lowered (fst (split_token content)) = ''start''")
  case True
  then have "tp_steps p' = tp_steps p \<and> tp_held p' = tp_held p"
    using assms(2)
    by (auto simp: parse_timeline_line_def parse_start_line_def max_timeline_steps_def Let_def
        split: prod.splits if_splits)
  with assms(1) show ?thesis by (auto simp: parser_wf_def intro: le_SucI)
next
  case False
  have same: "p = p\<lparr>tp_held := tp_held p\<rparr>" by simp
  consider
    (timed) kind buttons d where "p' = push_step p
        \<lparr>ts_kind = kind, ts_buttons = buttons, ts_duration = Some d, ts_line = Suc n\<rparr>"
      "duration_wf d" "kind = Step_wait \<and> buttons = 0 \<or> kind = Step_press \<and> buttons_wf buttons"
  | (down) buttons where "p' = push_step (p\<lparr>tp_held := tp_held p OR buttons\<rparr>)
        \<lparr>ts_kind = Step_down, ts_buttons = buttons, ts_duration = None, ts_line = Suc n\<rparr>"
      "buttons_wf buttons" "tp_held p AND buttons = 0"
  | (up) buttons where "p' = push_step (p\<lparr>tp_held := tp_held p AND NOT buttons\<rparr>)
        \<lparr>ts_kind = Step_up, ts_buttons = buttons, ts_duration = None, ts_line = Suc n\<rparr>"
      "buttons_wf buttons" "tp_held p AND buttons = buttons"
    using assms(2) False
    by (auto simp: parse_timeline_line_def parse_wait_line_def parse_buttons_line_def parse_press_line_def
        parse_held_line_def Let_def default_press_frames_def
        split: prod.splits if_splits option.splits
        dest!: parse_duration_wf parse_timeline_buttons_wf)
  then show ?thesis
  proof cases
    case timed
    have "parser_wf (Suc n) (push_step (p\<lparr>tp_held := tp_held p\<rparr>)
        \<lparr>ts_kind = kind, ts_buttons = buttons, ts_duration = Some d, ts_line = Suc n\<rparr>)"
      using assms(1) False timed by (intro push_step_wf) (auto simp: step_wf_def)
    then show ?thesis using timed same by simp
  next
    case down
    then show ?thesis using assms(1) False by (auto intro!: push_step_wf simp: step_wf_def)
  next
    case up
    then show ?thesis using assms(1) False by (auto intro!: push_step_wf simp: step_wf_def)
  qed
qed

lemma parse_timeline_lines_wf:
  "parser_wf n p \<Longrightarrow> parse_timeline_lines rnd n p ls = Inr p' \<Longrightarrow> parser_wf (n + length ls) p'"
proof (induction ls arbitrary: n p)
  case (Cons raw ls)
  show ?case
  proof (cases "trim (without_comment raw) = []")
    case True
    moreover have "parser_wf (Suc n) p"
      using Cons.prems(1) by (auto simp: parser_wf_def intro: le_SucI)
    ultimately show ?thesis using Cons.IH [of "Suc n" p] Cons.prems(2) by simp
  next
    case False
    then obtain p1 where p1: "parse_timeline_line rnd (Suc n) p (trim (without_comment raw)) = Inr p1"
      and rest: "parse_timeline_lines rnd (Suc n) p1 ls = Inr p'"
      using Cons.prems(2) by (auto simp: Let_def split: sum.splits)
    show ?thesis
      using Cons.IH [OF parse_timeline_line_wf [OF Cons.prems(1) p1] rest] by simp
  qed
qed simp


definition example_timeline_text :: string where
  "example_timeline_text =
     ''start power_on'' @ [CHR 0x0A] @ ''  Down A  # hold it'' @ [CHR 0x0A] @
     ''press b+START 0.5s'' @ [CHR 0x0A] @ ''wait 3f'' @ [CHR 0x0A] @ ''up a'' @ [CHR 0x0A] @ ''press c''"

definition example_timeline :: pad_timeline where
  "example_timeline =
     \<lparr>tl_start = Start_power_on,
      tl_steps =
        [\<lparr>ts_kind = Step_down, ts_buttons = 2, ts_duration = None, ts_line = 2\<rparr>,
         \<lparr>ts_kind = Step_press, ts_buttons = 9, ts_duration = Some (Duration_seconds (1 / 2)), ts_line = 3\<rparr>,
         \<lparr>ts_kind = Step_wait, ts_buttons = 0, ts_duration = Some (Duration_frames 3), ts_line = 4\<rparr>,
         \<lparr>ts_kind = Step_up, ts_buttons = 2, ts_duration = None, ts_line = 5\<rparr>,
         \<lparr>ts_kind = Step_press, ts_buttons = 256, ts_duration = Some (Duration_frames 4), ts_line = 6\<rparr>]\<rparr>"


section \<open>What the compiled frames mean\<close>

definition held_update :: "u16 \<Rightarrow> timeline_step \<Rightarrow> u16" where
  "held_update held step =
     (case ts_kind step of
        Step_down \<Rightarrow> held OR ts_buttons step
      | Step_up \<Rightarrow> held AND NOT (ts_buttons step)
      | _ \<Rightarrow> held)"

definition held_before :: "timeline_step list \<Rightarrow> nat \<Rightarrow> u16" where
  "held_before steps i = foldl held_update 0 (take i steps)"

definition step_mask :: "timeline_step list \<Rightarrow> nat \<Rightarrow> u16" where
  "step_mask steps i =
     (if ts_kind (steps ! i) = Step_press then held_before steps i OR ts_buttons (steps ! i)
      else held_before steps i)"

fun tiled :: "nat \<Rightarrow> step_span list \<Rightarrow> nat \<Rightarrow> bool" where
  "tiled a [] b \<longleftrightarrow> a = b"
| "tiled a (sp # sps) b \<longleftrightarrow>
     span_first_frame sp = a \<and> 0 < span_frames sp \<and> tiled (a + span_frames sp) sps b"

lemma tiled_append: "tiled a (xs @ ys) b \<longleftrightarrow> (\<exists>m. tiled a xs m \<and> tiled m ys b)"
  by (induction xs arbitrary: a) auto

lemma tiled_le: "tiled a sps b \<Longrightarrow> a \<le> b"
  by (induction sps arbitrary: a) force+

lemma tiled_span_le: "tiled a sps b \<Longrightarrow> sp \<in> set sps \<Longrightarrow> span_first_frame sp + span_frames sp \<le> b"
  by (induction sps arbitrary: a) (auto dest: tiled_le)

lemma position_in_tiling:
  "tiled a sps b \<Longrightarrow> a \<le> frame \<Longrightarrow> frame < b \<Longrightarrow>
     \<exists>sp \<in> set sps. \<exists>pos. position_from i sps frame = Some pos \<and> pos_step pos = span_step sp \<and>
       span_first_frame sp \<le> frame \<and> frame < span_first_frame sp + span_frames sp \<and>
       pos_frames_left pos = span_first_frame sp + span_frames sp - frame"
proof (induction sps arbitrary: a i)
  case (Cons sp sps)
  show ?case
  proof (cases "frame < a + span_frames sp")
    case True
    with Cons.prems show ?thesis by (intro bexI [of _ sp]) auto
  next
    case False
    with Cons.prems Cons.IH [of "a + span_frames sp" "i + 1"] show ?thesis by auto
  qed
qed simp

lemma no_position_after: "tiled a sps b \<Longrightarrow> b \<le> frame \<Longrightarrow> position_from i sps frame = None"
proof (induction sps arbitrary: a i)
  case (Cons sp sps)
  then have "a + span_frames sp \<le> frame" using tiled_le [of "a + span_frames sp" sps b] by simp
  with Cons show ?case by auto
qed simp

definition compile_inv ::
    "(real \<Rightarrow> real) \<Rightarrow> real \<Rightarrow> timeline_step list \<Rightarrow> nat \<Rightarrow> u16 list \<Rightarrow> step_span list \<Rightarrow> bool" where
  "compile_inv rnd fps steps i buttons spans \<longleftrightarrow>
     tiled 0 spans (length buttons) \<and> length buttons \<le> max_recording_frames \<and>
     (\<forall>sp \<in> set spans. span_step sp < i \<and> ts_kind (steps ! span_step sp) \<in> {Step_wait, Step_press} \<and>
        span_frames sp = duration_frames rnd fps (ts_duration (steps ! span_step sp)) \<and>
        (\<forall>frame. span_first_frame sp \<le> frame \<and> frame < span_first_frame sp + span_frames sp \<longrightarrow>
           buttons ! frame = step_mask steps (span_step sp)))"

lemma compile_inv_skip: "compile_inv rnd fps steps i bs sps \<Longrightarrow> compile_inv rnd fps steps (Suc i) bs sps"
  by (auto simp: compile_inv_def less_Suc_eq)

lemma compile_inv_extend:
  assumes "compile_inv rnd fps steps i bs sps" and "n = duration_frames rnd fps (ts_duration (steps ! i))"
    and "0 < n" and "length bs + n \<le> max_recording_frames"
    and "ts_kind (steps ! i) \<in> {Step_wait, Step_press}"
  shows "compile_inv rnd fps steps (Suc i) (bs @ replicate n (step_mask steps i))
    (sps @ [\<lparr>span_step = i, span_first_frame = length bs, span_frames = n\<rparr>])"
proof -
  have old: "(bs @ replicate n (step_mask steps i)) ! frame = bs ! frame"
    if "sp \<in> set sps" "frame < span_first_frame sp + span_frames sp" for sp frame
    using that assms(1) tiled_span_le [of 0 sps "length bs" sp]
    by (auto simp: compile_inv_def nth_append)
  have new: "(bs @ replicate n (step_mask steps i)) ! frame = step_mask steps i"
    if "length bs \<le> frame" "frame < length bs + n" for frame
    using that by (auto simp: nth_append)
  show ?thesis
    using assms old new unfolding compile_inv_def tiled_append by auto
qed

lemma held_before_Suc:
  "i < length steps \<Longrightarrow> held_before steps (Suc i) = held_update (held_before steps i) (steps ! i)"
  by (simp add: held_before_def take_Suc_conv_app_nth)

lemma compile_steps_inv:
  "compile_steps rnd fps i (held_before steps i) bs sps (drop i steps) = Inr (bs', sps') \<Longrightarrow>
   i \<le> length steps \<Longrightarrow> compile_inv rnd fps steps i bs sps \<Longrightarrow>
   compile_inv rnd fps steps (length steps) bs' sps'"
proof (induction "length steps - i" arbitrary: i bs sps)
  case 0
  then show ?case by simp
next
  case (Suc k)
  then have i: "i < length steps" by simp
  let ?step = "steps ! i"
  have drop_i: "drop i steps = ?step # drop (Suc i) steps"
    using i by (simp add: Cons_nth_drop_Suc)
  have IH: "compile_inv rnd fps steps (length steps) bs' sps'"
    if "compile_steps rnd fps (Suc i) (held_before steps (Suc i)) bs1 sps1 (drop (Suc i) steps) = Inr (bs', sps')"
      and "compile_inv rnd fps steps (Suc i) bs1 sps1" for bs1 sps1
    using Suc.hyps that i by (intro Suc.hyps(1)) auto
  show ?case
  proof (cases "ts_kind ?step \<in> {Step_wait, Step_press}")
    case False
    then have "compile_steps rnd fps (Suc i) (held_before steps (Suc i)) bs sps (drop (Suc i) steps) = Inr (bs', sps')"
      using Suc.prems(1) i
      by (cases "ts_kind ?step") (simp_all add: drop_i held_before_Suc held_update_def)
    then show ?thesis using compile_inv_skip [OF Suc.prems(3)] by (rule IH)
  next
    case True
    define n where "n = duration_frames rnd fps (ts_duration ?step)"
    have held: "held_before steps (Suc i) = held_before steps i"
      using True i by (auto simp: held_before_Suc held_update_def)
    have "0 < n" "length bs + n \<le> max_recording_frames"
      "compile_steps rnd fps (Suc i) (held_before steps (Suc i)) (bs @ replicate n (step_mask steps i))
         (sps @ [\<lparr>span_step = i, span_first_frame = length bs, span_frames = n\<rparr>]) (drop (Suc i) steps)
       = Inr (bs', sps')"
      using Suc.prems(1) True
      by (auto simp: drop_i held n_def step_mask_def Let_def split: if_splits)
    then show ?thesis
      using compile_inv_extend [OF Suc.prems(3) n_def _ _ True] by (intro IH) auto
  qed
qed

lemma compiled_inv:
  assumes "compile_pad_timeline rnd timeline fps = Inr compiled"
  shows "\<exists>f. fps = Some f \<and> compile_inv rnd f (tl_steps timeline) (length (tl_steps timeline))
      (ct_buttons compiled) (ct_spans compiled) \<and>
    ct_frames compiled = length (ct_buttons compiled) \<and> 1 \<le> ct_frames compiled \<and>
    ct_input_bytes compiled = concat (map mask_bytes (ct_buttons compiled))"
proof -
  obtain f bs sps where f: "fps = Some f"
    and steps: "compile_steps rnd f 0 0 [] [] (tl_steps timeline) = Inr (bs, sps)"
    and ok: "\<not> length bs < min_recording_frames"
    and compiled: "compiled = \<lparr>ct_buttons = bs, ct_spans = sps, ct_input_bytes = concat (map mask_bytes bs),
        ct_fps = f, ct_frames = length bs\<rparr>"
    using assms by (auto simp: compile_pad_timeline_def split: option.splits if_splits sum.splits prod.splits)
  have "compile_inv rnd f (tl_steps timeline) 0 [] []"
    by (simp add: compile_inv_def)
  then have "compile_inv rnd f (tl_steps timeline) (length (tl_steps timeline)) bs sps"
    using steps by (intro compile_steps_inv [of rnd f 0]) (simp_all add: held_before_def)
  with f ok show ?thesis by (simp add: compiled min_recording_frames_def Suc_le_eq)
qed

text \<open>
  C32: A compiled timeline plays the script frame by frame. It has between 1 and 54000 frames, one
  mask each; every frame belongs to a wait or a press of the script, the window finds that step,
  the mask of the frame is what is held at that step together with the pressed buttons, and the
  frames left are those of the step still to run; frames after the last have no position.
\<close>

theorem compiled_timeline_meaning:
  assumes "compile_pad_timeline rnd timeline fps = Inr compiled" and "frame < ct_frames compiled"
    and "ct_frames compiled \<le> beyond"
  shows "ct_frames compiled = length (ct_buttons compiled) \<and> 1 \<le> ct_frames compiled \<and>
    ct_frames compiled \<le> 54000 \<and>
    (\<exists>pos. timeline_position_at compiled frame = Some pos \<and> pos_step pos < length (tl_steps timeline) \<and>
       ts_kind (tl_steps timeline ! pos_step pos) \<in> {Step_wait, Step_press} \<and>
       ct_buttons compiled ! frame = step_mask (tl_steps timeline) (pos_step pos) \<and>
       1 \<le> pos_frames_left pos \<and>
       pos_frames_left pos \<le>
         duration_frames rnd (the fps) (ts_duration (tl_steps timeline ! pos_step pos))) \<and>
    timeline_position_at compiled beyond = None"
proof -
  obtain f where f: "fps = Some f"
    and inv: "compile_inv rnd f (tl_steps timeline) (length (tl_steps timeline))
      (ct_buttons compiled) (ct_spans compiled)"
    and size: "ct_frames compiled = length (ct_buttons compiled)" "1 \<le> ct_frames compiled"
    using compiled_inv [OF assms(1)] by blast
  have tiled: "tiled 0 (ct_spans compiled) (ct_frames compiled)"
    using inv size by (simp add: compile_inv_def)
  obtain sp pos where sp: "sp \<in> set (ct_spans compiled)"
    and pos: "timeline_position_at compiled frame = Some pos" "pos_step pos = span_step sp"
      "pos_frames_left pos = span_first_frame sp + span_frames sp - frame"
    and frame_in: "span_first_frame sp \<le> frame" "frame < span_first_frame sp + span_frames sp"
    using position_in_tiling [OF tiled, of frame 0] assms(2) unfolding timeline_position_at_def by auto
  have "timeline_position_at compiled beyond = None"
    unfolding timeline_position_at_def using no_position_after [OF tiled assms(3)] .
  moreover have "span_step sp < length (tl_steps timeline)"
    "ts_kind (tl_steps timeline ! span_step sp) \<in> {Step_wait, Step_press}"
    "span_frames sp = duration_frames rnd f (ts_duration (tl_steps timeline ! span_step sp))"
    "ct_buttons compiled ! frame = step_mask (tl_steps timeline) (span_step sp)"
    "length (ct_buttons compiled) \<le> 54000"
    using inv sp frame_in unfolding compile_inv_def max_recording_frames_def by blast+
  ultimately show ?thesis
    using f size pos frame_in by auto
qed

definition example_compiled :: compiled_timeline where
  "example_compiled =
     (case compile_pad_timeline (\<lambda>x. x) example_timeline (Some 10) of Inr c \<Rightarrow> c)"

lemma example_compiles:
  "compile_pad_timeline (\<lambda>x. x) example_timeline (Some 10) = Inr example_compiled \<and>
   ct_buttons example_compiled = [11, 11, 11, 11, 11, 2, 2, 2, 256, 256, 256, 256] \<and>
   ct_frames example_compiled = 12"
  unfolding example_compiled_def by code_simp

theorem compiled_timeline_meaning_witness:
  "timeline_position_at example_compiled 6 \<noteq> None \<and> timeline_position_at example_compiled 12 = None"
  using compiled_timeline_meaning [of "\<lambda>x. x" example_timeline "Some 10" example_compiled 6 12] example_compiles
  by auto

section \<open>A timeline is read like a take\<close>

lemma mask_bytes_put: "mask_bytes = put_u16"
proof
  fix m :: u16
  have "m AND 0xff = take_bit 8 m"
    by (simp add: take_bit_eq_mask mask_eq_exp_minus_1)
  moreover have "(ucast (take_bit 8 m) :: u8) = ucast m"
    by (rule bit_word_eqI) (auto simp: bit_simps)
  ultimately show "mask_bytes m = put_u16 m"
    by (simp add: mask_bytes_def put_le_def numeral_2_eq_2)
qed

text \<open>
  A timeline is played like a recorded take. The input source built on a compiled timeline is
  accepted, and reading it to the end gives, for each frame in order, exactly the mask the
  timeline was compiled to.
\<close>

theorem timeline_source_roundtrip:
  assumes "compile_pad_timeline rnd timeline fps = Inr compiled"
    and "make_timeline_input_source compiled = (err, source)" and "54000 < fuel"
  shows "err = Source_none \<and>
    drain_inputs fuel source =
      map (\<lambda>i. \<lparr>fi_frame = of_nat i, fi_buttons = ct_buttons compiled ! i\<rparr>) [0..<ct_frames compiled]"
proof -
  obtain f where "compile_inv rnd f (tl_steps timeline) (length (tl_steps timeline))
      (ct_buttons compiled) (ct_spans compiled)"
    and size: "ct_frames compiled = length (ct_buttons compiled)" "1 \<le> ct_frames compiled"
    and image: "ct_input_bytes compiled = [] @ inputs_image (ct_buttons compiled) @ []"
    using compiled_inv [OF assms(1)] by (auto simp: inputs_image_def mask_bytes_put)
  then have "length (ct_buttons compiled) \<le> 54000"
    by (simp add: compile_inv_def max_recording_frames_def)
  with assms(2,3) size image show ?thesis
    using drain_image_inputs [OF assms(2) [unfolded make_timeline_input_source_def] image, of fuel]
    by (cases "ct_buttons compiled") (auto simp: timeline_input_layout_def max_recording_frames_def)
qed

theorem timeline_source_roundtrip_witness:
  "map fi_buttons (drain_inputs 54001 (snd (make_timeline_input_source example_compiled))) =
     [11, 11, 11, 11, 11, 2, 2, 2, 256, 256, 256, 256]"
proof -
  have "drain_inputs 54001 (snd (make_timeline_input_source example_compiled)) =
      map (\<lambda>i. \<lparr>fi_frame = of_nat i, fi_buttons = ct_buttons example_compiled ! i\<rparr>) [0..<ct_frames example_compiled]"
    using example_compiles
    by (intro timeline_source_roundtrip [THEN conjunct2, OF _ surjective_pairing]) auto
  then show ?thesis
    using example_compiles by (simp add: comp_def upt_rec)
qed

end
