(* ===== verification/Save_State.thy ===== *)
theory Save_State
  imports Byte_Codec "HOL-Library.Code_Target_Nat"
begin

text \<open>
  Saved states: \<^verbatim>\<open>src/save_state_store.{h,cpp}\<close>. The envelope of a state (magic, version, length,
  checksum, payload), the names of the files, and the load and save operations over a file system.

  A file system is a map from paths (their components) to contents. What the operating system
  answers is an argument: whether a query fails, whether the complete file was read, how far a
  write got, whether the rename succeeded. A rename that succeeds replaces the name at once, one
  that fails changes nothing. Diagnostic texts are left out; the wall clock is the argument
  \<open>now\<close>.
\<close>

unbundle bit_operations_syntax

section \<open>Envelope\<close>

datatype save_state_status =
  Saved | Loaded | Missing | Invalid | Unsupported_version_state | Io_error | Target_exists

datatype write_fault = Fault_none | Fault_disk_full | Fault_before_publish

datatype runtime_error_code = State_restore_failed | State_save_failed | Persistence_io_failed

record load_result =
  load_status :: save_state_status
  load_version :: u32
  load_bytes :: bytes

type_synonym path = "string list"

record write_result =
  write_status :: save_state_status
  write_path :: path
  write_error :: runtime_error_code

definition save_state_format_version :: u32 where
  "save_state_format_version = 1"

definition save_state_magic :: bytes where
  "save_state_magic = [65, 89, 84, 72, 83, 84, 65, 84]"

definition save_state_header_size :: nat where
  "save_state_header_size = 24"

definition checksum_step :: "u32 \<Rightarrow> u8 \<Rightarrow> u32" where
  "checksum_step value byte = (value XOR ucast byte) * 16777619"

definition checksum :: "bytes \<Rightarrow> u32" where
  "checksum bs = foldl checksum_step 2166136261 bs"

fun append_little_endian :: "nat \<Rightarrow> 'a::len word \<Rightarrow> bytes" where
  "append_little_endian 0 value = []"
| "append_little_endian (Suc n) value = ucast (value AND 0xff) # append_little_endian n (drop_bit 8 value)"

definition read_little_endian :: "nat \<Rightarrow> bytes \<Rightarrow> nat \<Rightarrow> 'a::len word" where
  "read_little_endian n bs off = get_le n bs off"

definition encode_state :: "bytes \<Rightarrow> bytes" where
  "encode_state payload =
     save_state_magic @ append_little_endian 4 save_state_format_version @
     append_little_endian 8 (of_nat (length payload) :: u64) @ append_little_endian 4 (checksum payload) @
     payload"

definition decode_state :: "bytes \<Rightarrow> load_result" where
  "decode_state bs =
     (if \<not> (length save_state_magic \<le> length bs \<and> take (length save_state_magic) bs = save_state_magic)
      then \<lparr>load_status = Loaded, load_version = 0, load_bytes = bs\<rparr>
      else if length bs < save_state_header_size
      then \<lparr>load_status = Invalid, load_version = 0, load_bytes = []\<rparr>
      else
        (let version = read_little_endian 4 bs 8 :: u32
         in if version \<noteq> save_state_format_version
            then \<lparr>load_status = Unsupported_version_state, load_version = version, load_bytes = []\<rparr>
            else
              (let payload_size = read_little_endian 8 bs 12 :: u64;
                   expected_checksum = read_little_endian 4 bs 20 :: u32;
                   payload = drop 24 bs
               in if unat payload_size \<noteq> length bs - 24
                  then \<lparr>load_status = Invalid, load_version = version, load_bytes = []\<rparr>
                  else if checksum payload \<noteq> expected_checksum
                  then \<lparr>load_status = Invalid, load_version = version, load_bytes = []\<rparr>
                  else \<lparr>load_status = Loaded, load_version = version, load_bytes = payload\<rparr>)))"

section \<open>Names\<close>

definition is_alnum :: "char \<Rightarrow> bool" where
  "is_alnum c \<longleftrightarrow>
     (let n = of_char c :: nat in 48 \<le> n \<and> n \<le> 57 \<or> 65 \<le> n \<and> n \<le> 90 \<or> 97 \<le> n \<and> n \<le> 122)"

definition safe_char :: "char \<Rightarrow> bool" where
  "safe_char c \<longleftrightarrow> is_alnum c \<or> c = CHR ''-'' \<or> c = CHR ''_''"

definition sanitize_component :: "string \<Rightarrow> string" where
  "sanitize_component value =
     (let sanitized = map (\<lambda>c. if safe_char c then c else CHR ''_'') value
      in if sanitized = [] then ''sin_nombre'' else sanitized)"

definition to_lower :: "char \<Rightarrow> char" where
  "to_lower c =
     (let n = of_char c :: nat in if 65 \<le> n \<and> n \<le> 90 then char_of (n + 32) else c)"

definition or_default :: "string \<Rightarrow> string \<Rightarrow> string" where
  "or_default fallback value = (if value = [] then fallback else value)"

definition state_directory :: "path \<Rightarrow> string \<Rightarrow> string \<Rightarrow> path" where
  "state_directory root game_id profile =
     root @ [sanitize_component (or_default ''unknown'' game_id),
             sanitize_component (or_default ''original'' profile)]"

definition state_file_name :: "string \<Rightarrow> string \<Rightarrow> string \<Rightarrow> string" where
  "state_file_name now timestamp_utc rom_revision =
     ''estado-'' @ (if timestamp_utc = [] then now else sanitize_component timestamp_utc) @ ''-'' @
     map to_lower (sanitize_component (or_default ''sinrev'' rom_revision)) @ ''.bin''"

section \<open>Load and save\<close>

type_synonym files = "path \<Rightarrow> bytes option"

record load_io =
  io_exists_fails :: bool
  io_size_fails :: bool
  io_read_fails :: bool

datatype write_outcome = Write_ok | Open_failed | Write_stopped nat

record save_io =
  io_create_fails :: bool
  io_write :: write_outcome
  io_rename_fails :: bool
  io_remove_fails :: bool

definition load_state :: "load_io \<Rightarrow> files \<Rightarrow> path \<Rightarrow> load_result" where
  "load_state io fs p =
     (let failed = (\<lambda>status. \<lparr>load_status = status, load_version = 0, load_bytes = []\<rparr>)
      in if io_exists_fails io then failed Io_error
         else
           (case fs p of
              None \<Rightarrow> failed Missing
            | Some bs \<Rightarrow>
                if io_size_fails io \<or> bs = [] then failed Invalid
                else if io_read_fails io then failed Io_error
                else decode_state bs))"

definition publish ::
    "write_fault \<Rightarrow> save_io \<Rightarrow> files \<Rightarrow> path \<Rightarrow> path \<Rightarrow> bytes \<Rightarrow> files \<times> bool" where
  "publish fault io fs temporary destination encoded =
     (let (fs1, written) =
            (case io_write io of
               Write_ok \<Rightarrow> (fs(temporary := Some encoded), True)
             | Open_failed \<Rightarrow> (fs, False)
             | Write_stopped n \<Rightarrow> (fs(temporary := Some (take n encoded)), False));
          written = (written \<and> fault \<noteq> Fault_before_publish);
          (fs2, written) =
            (if written \<and> \<not> io_rename_fails io
             then (fs1(destination := fs1 temporary, temporary := None), True)
             else (fs1, False))
      in if written then (fs2, True)
         else (if io_remove_fails io then fs2 else fs2(temporary := None), False))"

definition save_state ::
    "write_fault \<Rightarrow> save_io \<Rightarrow> string \<Rightarrow> files \<Rightarrow> path \<Rightarrow> string \<Rightarrow> string \<Rightarrow> string \<Rightarrow> bytes \<Rightarrow> string \<Rightarrow>
     files \<times> write_result" where
  "save_state fault io now fs root game_id profile rom_revision bs timestamp_utc =
     (if root = [] \<or> bs = []
      then (fs, \<lparr>write_status = Invalid, write_path = [], write_error = State_save_failed\<rparr>)
      else if fault = Fault_disk_full
      then (fs, \<lparr>write_status = Io_error, write_path = [], write_error = Persistence_io_failed\<rparr>)
      else if io_create_fails io
      then (fs, \<lparr>write_status = Io_error, write_path = [], write_error = Persistence_io_failed\<rparr>)
      else
        (let directory = state_directory root game_id profile;
             name = state_file_name now timestamp_utc rom_revision;
             destination = directory @ [name];
             temporary = directory @ [name @ ''.tmp'']
         in if fs destination \<noteq> None
            then (fs, \<lparr>write_status = Target_exists, write_path = destination, write_error = State_save_failed\<rparr>)
            else
              (case publish fault io fs temporary destination (encode_state bs) of
                 (fs', True) \<Rightarrow>
                   (fs', \<lparr>write_status = Saved, write_path = destination, write_error = State_save_failed\<rparr>)
               | (fs', False) \<Rightarrow>
                   (fs', \<lparr>write_status = Io_error, write_path = destination,
                          write_error = Persistence_io_failed\<rparr>))))"

section \<open>Envelope properties\<close>

lemma append_little_endian_put: "append_little_endian n w = put_le n w"
proof (induction n arbitrary: w)
  case 0
  then show ?case by (simp add: put_le_def)
next
  case (Suc n)
  have "w AND 0xff = take_bit 8 w"
    by (simp add: take_bit_eq_mask mask_eq_exp_minus_1)
  moreover have "(ucast (take_bit 8 w) :: u8) = ucast w"
    by (rule bit_word_eqI) (auto simp: bit_simps)
  moreover have "[0..<Suc n] = 0 # map Suc [0..<n]"
    by (simp add: map_Suc_upt upt_conv_Cons del: upt_Suc)
  ultimately show ?case
    using Suc.IH [of "drop_bit 8 w"] by (simp add: put_le_def drop_bit_drop_bit add.commute del: upt_Suc)
qed

lemma length_magic_state [simp]: "length save_state_magic = 8"
  by (simp add: save_state_magic_def)

definition envelope :: "u32 \<Rightarrow> u64 \<Rightarrow> u32 \<Rightarrow> bytes \<Rightarrow> bytes" where
  "envelope version size_word check payload =
     save_state_magic @ put_u32 version @ put_u64 size_word @ put_u32 check @ payload"

lemma encode_state_envelope:
  "encode_state payload = envelope 1 (of_nat (length payload)) (checksum payload) payload"
  by (simp add: encode_state_def envelope_def append_little_endian_put save_state_format_version_def)

lemma length_envelope [simp]: "length (envelope v s c payload) = 24 + length payload"
  by (simp add: envelope_def)

lemma decode_envelope:
  "decode_state (envelope version size_word check payload) =
     (if version \<noteq> 1
      then \<lparr>load_status = Unsupported_version_state, load_version = version, load_bytes = []\<rparr>
      else if unat size_word \<noteq> length payload \<or> checksum payload \<noteq> check
      then \<lparr>load_status = Invalid, load_version = 1, load_bytes = []\<rparr>
      else \<lparr>load_status = Loaded, load_version = 1, load_bytes = payload\<rparr>)"
proof -
  define e where "e = envelope version size_word check payload"
  have v: "get_u32 e 8 = version"
    using le32.get_after [of save_state_magic version "put_u64 size_word @ put_u32 check @ payload"]
    by (simp add: e_def envelope_def)
  have s: "get_u64 e 12 = size_word"
    using le64.get_after [of "save_state_magic @ put_u32 version" size_word "put_u32 check @ payload"]
    by (simp add: e_def envelope_def)
  have c: "get_u32 e 20 = check"
    using le32.get_after [of "save_state_magic @ put_u32 version @ put_u64 size_word" check payload]
    by (simp add: e_def envelope_def)
  have len: "length e = 24 + length payload"
    by (simp add: e_def)
  have p: "drop 24 e = payload" and m: "take 8 e = save_state_magic"
    by (simp_all add: e_def envelope_def)
  show ?thesis
    unfolding e_def [symmetric]
    by (simp add: decode_state_def read_little_endian_def save_state_header_size_def
        save_state_format_version_def v s c p m len Let_def)
qed

lemma decode_encode:
  assumes "length payload < 2 ^ 64"
  shows "decode_state (encode_state payload) =
    \<lparr>load_status = Loaded, load_version = 1, load_bytes = payload\<rparr>"
  using assms by (simp add: encode_state_envelope decode_envelope unat_of_nat_small)

subsection \<open>The checksum sees every single byte\<close>

lemma checksum_multiplier_invertible: "(x :: u32) * 16777619 * 899433627 = x"
proof -
  have "(16777619 :: u32) * 899433627 = 1" by code_simp
  then show ?thesis by (simp only: mult.assoc mult_1_right)
qed

lemma checksum_step_inj_value: "checksum_step v b = checksum_step w b \<Longrightarrow> v = w"
proof -
  assume "checksum_step v b = checksum_step w b"
  then have "(v XOR ucast b) * 16777619 * 899433627 = (w XOR ucast b) * 16777619 * 899433627"
    by (simp add: checksum_step_def)
  then have "v XOR ucast b = w XOR ucast b"
    by (simp only: checksum_multiplier_invertible)
  then have "(v XOR ucast b) XOR ucast b = (w XOR ucast b) XOR ucast b"
    by (rule arg_cong)
  then show "v = w"
    by (simp add: xor.assoc)
qed

lemma checksum_step_inj_byte: "checksum_step v a = checksum_step v b \<Longrightarrow> a = b"
proof -
  assume "checksum_step v a = checksum_step v b"
  then have "(v XOR ucast a) * 16777619 * 899433627 = (v XOR ucast b) * 16777619 * 899433627"
    by (simp add: checksum_step_def)
  then have "v XOR (ucast a :: u32) = v XOR ucast b"
    by (simp only: checksum_multiplier_invertible)
  then have "v XOR (v XOR (ucast a :: u32)) = v XOR (v XOR ucast b)"
    by (rule arg_cong)
  then have "(ucast a :: u32) = ucast b"
    by (simp add: xor.assoc [symmetric])
  then have "unat (ucast a :: u32) = unat (ucast b :: u32)"
    by simp
  then show "a = b"
    by (simp add: unsigned_ucast_eq take_bit_nat_eq_self unsigned_less [THEN order_less_le_trans]
        word_unat_eq_iff)
qed

lemma checksum_rest_inj: "foldl checksum_step v bs = foldl checksum_step w bs \<Longrightarrow> v = w"
  by (induction bs arbitrary: v w) (auto dest: checksum_step_inj_value)

lemma checksum_detects_byte:
  assumes "i < length payload" and "b \<noteq> payload ! i"
  shows "checksum (payload[i := b]) \<noteq> checksum payload"
proof
  assume "checksum (payload[i := b]) = checksum payload"
  moreover have "payload = take i payload @ payload ! i # drop (Suc i) payload"
    using assms(1) by (rule id_take_nth_drop)
  ultimately have "foldl checksum_step 2166136261 (take i payload @ b # drop (Suc i) payload) =
      foldl checksum_step 2166136261 (take i payload @ payload ! i # drop (Suc i) payload)"
    unfolding checksum_def using assms(1) by (simp add: upd_conv_take_nth_drop)
  then have "checksum_step (foldl checksum_step 2166136261 (take i payload)) b =
      checksum_step (foldl checksum_step 2166136261 (take i payload)) (payload ! i)"
    by (auto dest: checksum_rest_inj)
  with assms(2) show False by (auto dest: checksum_step_inj_byte)
qed

lemma envelope_split:
  obtains head where "length head = 24" and "\<And>payload. envelope v s c payload = head @ payload"
  by (rule that [of "save_state_magic @ put_u32 v @ put_u64 s @ put_u32 c"]) (simp_all add: envelope_def)

lemma nth_envelope: "24 \<le> i \<Longrightarrow> envelope v s c payload ! i = payload ! (i - 24)"
  by (rule envelope_split [of v s c]) (simp add: nth_append)

lemma envelope_update:
  "24 \<le> i \<Longrightarrow> (envelope v s c payload)[i := b] = envelope v s c (payload[i - 24 := b])"
  by (rule envelope_split [of v s c]) (simp add: list_update_append)

lemma envelope_truncated:
  "24 \<le> n \<Longrightarrow> take n (envelope v s c payload) = envelope v s c (take (n - 24) payload)"
  by (rule envelope_split [of v s c]) simp

lemma envelope_extended: "envelope v s c payload @ extra = envelope v s c (payload @ extra)"
  by (simp add: envelope_def)

lemma load_readable:
  assumes "fs p = Some bs" and "bs \<noteq> []"
  shows "load_state \<lparr>io_exists_fails = False, io_size_fails = False, io_read_fails = False\<rparr> fs p = decode_state bs"
  using assms by (simp add: load_state_def)

lemma envelope_not_Nil [simp]: "envelope v s c payload \<noteq> []"
  by (metis length_envelope add_is_0 list.size(3) zero_neq_numeral)

definition readable :: load_io where
  "readable = \<lparr>io_exists_fails = False, io_size_fails = False, io_read_fails = False\<rparr>"

text \<open>
  A damaged state file is never loaded as a state. When a file that held an encoded state has
  one payload byte changed, is cut at any point after its magic, or has bytes appended, loading
  it reports an invalid file and returns no bytes.
\<close>

theorem damaged_state_rejected:
  assumes "length payload < 2 ^ 64" and "encoded = encode_state payload"
    and "(\<exists>i b. 24 \<le> i \<and> i < length encoded \<and> b \<noteq> encoded ! i \<and> damaged = encoded[i := b]) \<or>
      (\<exists>n. 8 \<le> n \<and> n < length encoded \<and> damaged = take n encoded) \<or>
      (\<exists>extra. extra \<noteq> [] \<and> damaged = encoded @ extra)"
    and "fs p = Some damaged"
  shows "load_status (load_state readable fs p) = Invalid \<and> load_bytes (load_state readable fs p) = []"
proof -
  let ?s = "of_nat (length payload) :: u64" and ?c = "checksum payload"
  have size: "unat ?s = length payload"
    using assms(1) by (simp add: unat_of_nat_small)
  have encoded: "encoded = envelope 1 ?s ?c payload"
    by (simp add: assms(2) encode_state_envelope)
  have "damaged \<noteq> [] \<and> load_status (decode_state damaged) = Invalid \<and> load_bytes (decode_state damaged) = []"
    using assms(3)
  proof (elim disjE exE conjE)
    fix i b
    assume i: "24 \<le> i" "i < length encoded" "b \<noteq> encoded ! i" "damaged = encoded[i := b]"
    then have "i - 24 < length payload" "b \<noteq> payload ! (i - 24)"
      by (auto simp: encoded nth_envelope)
    with i show ?thesis
      by (simp add: encoded envelope_update decode_envelope checksum_detects_byte)
  next
    fix n
    assume n: "8 \<le> n" "n < length encoded" "damaged = take n encoded"
    show ?thesis
    proof (cases "24 \<le> n")
      case True
      with n show ?thesis by (auto simp: encoded envelope_truncated decode_envelope size)
    next
      case False
      have "take 8 damaged = save_state_magic"
        using n by (simp add: encoded envelope_def min_def)
      with False n show ?thesis
        by (auto simp: encoded decode_state_def save_state_header_size_def)
    qed
  next
    fix extra :: bytes
    assume "extra \<noteq> []" "damaged = encoded @ extra"
    then show ?thesis by (simp add: encoded envelope_extended decode_envelope size)
  qed
  then show ?thesis
    using load_readable [of fs p damaged] assms(4) by (simp add: readable_def)
qed

theorem damaged_state_rejected_witness:
  "load_status (load_state readable [[''f''] \<mapsto> (encode_state [1, 2, 3])[25 := 9]] [''f'']) = Invalid"
proof -
  have "length (encode_state [1, 2, 3]) = 27" by (simp add: encode_state_envelope)
  moreover have "encode_state [1, 2, 3] ! 25 = 2"
    by (simp add: encode_state_envelope nth_envelope)
  ultimately have "\<exists>i b. 24 \<le> i \<and> i < length (encode_state [1, 2, 3]) \<and> b \<noteq> encode_state [1, 2, 3] ! i \<and>
      (encode_state [1, 2, 3])[25 := 9] = (encode_state [1, 2, 3])[i := b]"
    by (intro exI [of _ 25] exI [of _ 9]) simp
  then show ?thesis
    by (intro damaged_state_rejected [THEN conjunct1, OF _ refl, of "[1, 2, 3]"] disjI1) simp_all
qed

section \<open>Saving\<close>

lemma sanitize_safe: "sanitize_component v \<noteq> [] \<and> (\<forall>c \<in> set (sanitize_component v). safe_char c)"
  by (auto simp: sanitize_component_def Let_def safe_char_def is_alnum_def)

lemma publish_True:
  assumes "publish fault io fs temporary destination encoded = (fs', True)" and "temporary \<noteq> destination"
  shows "fs' = fs(destination := Some encoded, temporary := None)"
  using assms by (auto simp: publish_def Let_def split: write_outcome.splits if_splits)

lemma publish_False:
  assumes "publish fault io fs temporary destination encoded = (fs', False)" and "q \<noteq> temporary"
  shows "fs' q = fs q"
  using assms by (auto simp: publish_def Let_def split: write_outcome.splits if_splits)


definition working_io :: save_io where
  "working_io = \<lparr>io_create_fails = False, io_write = Write_ok, io_rename_fails = False, io_remove_fails = False\<rparr>"


end
