(* ===== verification/Input_Map.thy ===== *)
theory Input_Map
  imports Prelude
begin

text \<open>
  The mapping from SDL inputs to RetroPad actions: \<^verbatim>\<open>src/input_map.{h,cpp}\<close>.

  The Engine's buttons, SDL's scancodes and gamepad buttons are the values the sources name, with
  one constructor for every other value. The TOML parser and SDL's name tables are arguments: a
  parsed document is a tree of tables, whose entries come in the order of the table. The content
  of the file is an argument too, absent when it cannot be opened or read.
\<close>

section \<open>Data\<close>

datatype joypad_button =
  Joy_up | Joy_down | Joy_left | Joy_right | Joy_b | Joy_a | Joy_y | Joy_x | Joy_l | Joy_r
  | Joy_start | Joy_select | Joy_l2 | Joy_r2 | Joy_l3 | Joy_r3

datatype scancode =
  SC_unknown | SC_up | SC_down | SC_left | SC_right | SC_z | SC_x | SC_a | SC_s | SC_q | SC_w
  | SC_return | SC_rshift | SC_backspace | SC_other nat

datatype pad_button =
  Pad_invalid | Pad_south | Pad_east | Pad_west | Pad_north | Pad_left_shoulder
  | Pad_right_shoulder | Pad_start | Pad_back | Pad_dpad_up | Pad_dpad_down | Pad_dpad_left
  | Pad_dpad_right | Pad_other nat

record keyboard_binding =
  kb_action :: joypad_button
  kb_scancode :: scancode

record gamepad_binding =
  gp_action :: joypad_button
  gp_button :: pad_button

record input_map =
  map_keyboard :: "keyboard_binding list"
  map_gamepad :: "gamepad_binding list"
  legacy_select_backspace :: bool

datatype input_map_error_code =
  Map_io_error | Map_parse_error | Map_unknown_section | Map_unknown_action
  | Map_unsupported_gamepad_action | Map_invalid_value_type | Map_invalid_keyboard_name
  | Map_invalid_gamepad_name | Map_duplicate_keyboard_binding | Map_duplicate_gamepad_binding

record input_map_error =
  me_code :: input_map_error_code
  me_path :: string
  me_section :: string
  me_key :: string
  me_value :: string
  me_detail :: string

datatype toml_node = Toml_string string | Toml_table "(string \<times> toml_node) list" | Toml_other

type_synonym toml_table = "(string \<times> toml_node) list"

section \<open>Names\<close>

fun input_action_key :: "joypad_button \<Rightarrow> string" where
  "input_action_key Joy_up = ''up''"
| "input_action_key Joy_down = ''down''"
| "input_action_key Joy_left = ''left''"
| "input_action_key Joy_right = ''right''"
| "input_action_key Joy_b = ''b''"
| "input_action_key Joy_a = ''a''"
| "input_action_key Joy_y = ''y''"
| "input_action_key Joy_x = ''x''"
| "input_action_key Joy_l = ''l''"
| "input_action_key Joy_r = ''r''"
| "input_action_key Joy_start = ''start''"
| "input_action_key Joy_select = ''select''"
| "input_action_key _ = []"

definition named_actions :: "joypad_button list" where
  "named_actions =
     [Joy_up, Joy_down, Joy_left, Joy_right, Joy_b, Joy_a, Joy_y, Joy_x, Joy_l, Joy_r, Joy_start,
      Joy_select]"

definition action_from_key :: "string \<Rightarrow> joypad_button option" where
  "action_from_key k = List.find (\<lambda>action. input_action_key action = k) named_actions"

definition gamepad_button_from_contract :: "string \<Rightarrow> pad_button option" where
  "gamepad_button_from_contract name =
     (if name = ''south'' then Some Pad_south
      else if name = ''east'' then Some Pad_east
      else if name = ''west'' then Some Pad_west
      else if name = ''north'' then Some Pad_north
      else if name = ''leftshoulder'' then Some Pad_left_shoulder
      else if name = ''rightshoulder'' then Some Pad_right_shoulder
      else if name = ''start'' then Some Pad_start
      else if name = ''back'' then Some Pad_back
      else None)"

fun gamepad_button_contract_name :: "pad_button \<Rightarrow> string" where
  "gamepad_button_contract_name Pad_south = ''south''"
| "gamepad_button_contract_name Pad_east = ''east''"
| "gamepad_button_contract_name Pad_west = ''west''"
| "gamepad_button_contract_name Pad_north = ''north''"
| "gamepad_button_contract_name Pad_left_shoulder = ''leftshoulder''"
| "gamepad_button_contract_name Pad_right_shoulder = ''rightshoulder''"
| "gamepad_button_contract_name Pad_start = ''start''"
| "gamepad_button_contract_name Pad_back = ''back''"
| "gamepad_button_contract_name _ = []"

definition make_error ::
    "input_map_error_code \<Rightarrow> string \<Rightarrow> string \<Rightarrow> string \<Rightarrow> string \<Rightarrow> string \<Rightarrow> input_map_error" where
  "make_error code file section_name k value detail =
     \<lparr>me_code = code, me_path = file, me_section = section_name, me_key = k, me_value = value,
      me_detail = detail\<rparr>"

section \<open>Maps\<close>

definition default_map :: input_map where
  "default_map =
     \<lparr>map_keyboard =
        [\<lparr>kb_action = Joy_up, kb_scancode = SC_up\<rparr>,
         \<lparr>kb_action = Joy_down, kb_scancode = SC_down\<rparr>,
         \<lparr>kb_action = Joy_left, kb_scancode = SC_left\<rparr>,
         \<lparr>kb_action = Joy_right, kb_scancode = SC_right\<rparr>,
         \<lparr>kb_action = Joy_b, kb_scancode = SC_z\<rparr>,
         \<lparr>kb_action = Joy_a, kb_scancode = SC_x\<rparr>,
         \<lparr>kb_action = Joy_y, kb_scancode = SC_a\<rparr>,
         \<lparr>kb_action = Joy_x, kb_scancode = SC_s\<rparr>,
         \<lparr>kb_action = Joy_l, kb_scancode = SC_q\<rparr>,
         \<lparr>kb_action = Joy_r, kb_scancode = SC_w\<rparr>,
         \<lparr>kb_action = Joy_start, kb_scancode = SC_return\<rparr>,
         \<lparr>kb_action = Joy_select, kb_scancode = SC_rshift\<rparr>],
      map_gamepad =
        [\<lparr>gp_action = Joy_b, gp_button = Pad_south\<rparr>,
         \<lparr>gp_action = Joy_a, gp_button = Pad_east\<rparr>,
         \<lparr>gp_action = Joy_y, gp_button = Pad_west\<rparr>,
         \<lparr>gp_action = Joy_x, gp_button = Pad_north\<rparr>,
         \<lparr>gp_action = Joy_l, gp_button = Pad_left_shoulder\<rparr>,
         \<lparr>gp_action = Joy_r, gp_button = Pad_right_shoulder\<rparr>,
         \<lparr>gp_action = Joy_start, gp_button = Pad_start\<rparr>,
         \<lparr>gp_action = Joy_select, gp_button = Pad_back\<rparr>],
      legacy_select_backspace = True\<rparr>"

definition keyboard_scancode :: "input_map \<Rightarrow> joypad_button \<Rightarrow> scancode" where
  "keyboard_scancode m action =
     (case List.find (\<lambda>b. kb_action b = action) (map_keyboard m) of
        None \<Rightarrow> SC_unknown | Some b \<Rightarrow> kb_scancode b)"

definition gamepad_button :: "input_map \<Rightarrow> joypad_button \<Rightarrow> pad_button option" where
  "gamepad_button m action =
     map_option gp_button (List.find (\<lambda>b. gp_action b = action) (map_gamepad m))"

text \<open>The write through the pointer that \<open>find_keyboard\<close> and \<open>find_gamepad\<close> return.\<close>

fun bind_keyboard :: "joypad_button \<Rightarrow> scancode \<Rightarrow> keyboard_binding list \<Rightarrow> keyboard_binding list option" where
  "bind_keyboard action sc [] = None"
| "bind_keyboard action sc (b # bs) =
     (if kb_action b = action then Some (b\<lparr>kb_scancode := sc\<rparr> # bs)
      else map_option (Cons b) (bind_keyboard action sc bs))"

fun bind_gamepad :: "joypad_button \<Rightarrow> pad_button \<Rightarrow> gamepad_binding list \<Rightarrow> gamepad_binding list option" where
  "bind_gamepad action pb [] = None"
| "bind_gamepad action pb (b # bs) =
     (if gp_action b = action then Some (b\<lparr>gp_button := pb\<rparr> # bs)
      else map_option (Cons b) (bind_gamepad action pb bs))"

definition parse_keyboard_entry ::
    "(string \<Rightarrow> scancode) \<Rightarrow> string \<Rightarrow> input_map \<Rightarrow> string \<Rightarrow> toml_node \<Rightarrow> input_map_error + input_map" where
  "parse_keyboard_entry scancode_from_name file m k node =
     (case action_from_key k of
        None \<Rightarrow> Inl (make_error Map_unknown_action file ''keyboard'' k [] [])
      | Some action \<Rightarrow>
          (case node of
             Toml_string value \<Rightarrow>
               (let sc = scancode_from_name value
                in if sc = SC_unknown
                   then Inl (make_error Map_invalid_keyboard_name file ''keyboard'' k value [])
                   else
                     (case bind_keyboard action sc (map_keyboard m) of
                        None \<Rightarrow> Inl (make_error Map_unknown_action file ''keyboard'' k value [])
                      | Some bs \<Rightarrow> Inr (m\<lparr>map_keyboard := bs\<rparr>)))
           | _ \<Rightarrow> Inl (make_error Map_invalid_value_type file ''keyboard'' k [] [])))"

definition parse_gamepad_entry ::
    "string \<Rightarrow> input_map \<Rightarrow> string \<Rightarrow> toml_node \<Rightarrow> input_map_error + input_map" where
  "parse_gamepad_entry file m k node =
     (case action_from_key k of
        None \<Rightarrow> Inl (make_error Map_unknown_action file ''gamepad'' k [] [])
      | Some action \<Rightarrow>
          (case node of
             Toml_string value \<Rightarrow>
               (if List.find (\<lambda>b. gp_action b = action) (map_gamepad m) = None
                then Inl (make_error Map_unsupported_gamepad_action file ''gamepad'' k value [])
                else
                  (case gamepad_button_from_contract value of
                     None \<Rightarrow> Inl (make_error Map_invalid_gamepad_name file ''gamepad'' k value [])
                   | Some pb \<Rightarrow>
                       (case bind_gamepad action pb (map_gamepad m) of
                          None \<Rightarrow> Inl (make_error Map_unsupported_gamepad_action file ''gamepad'' k value [])
                        | Some bs \<Rightarrow> Inr (m\<lparr>map_gamepad := bs\<rparr>))))
           | _ \<Rightarrow> Inl (make_error Map_invalid_value_type file ''gamepad'' k [] [])))"

fun parse_keyboard_table ::
    "(string \<Rightarrow> scancode) \<Rightarrow> string \<Rightarrow> input_map \<Rightarrow> toml_table \<Rightarrow> input_map_error + input_map" where
  "parse_keyboard_table scancode_from_name file m [] = Inr m"
| "parse_keyboard_table scancode_from_name file m ((k, node) # rest) =
     (case parse_keyboard_entry scancode_from_name file m k node of
        Inl e \<Rightarrow> Inl e
      | Inr m' \<Rightarrow> parse_keyboard_table scancode_from_name file m' rest)"

fun parse_gamepad_table :: "string \<Rightarrow> input_map \<Rightarrow> toml_table \<Rightarrow> input_map_error + input_map" where
  "parse_gamepad_table file m [] = Inr m"
| "parse_gamepad_table file m ((k, node) # rest) =
     (case parse_gamepad_entry file m k node of
        Inl e \<Rightarrow> Inl e
      | Inr m' \<Rightarrow> parse_gamepad_table file m' rest)"

fun first_duplicate :: "('b \<Rightarrow> 'k) \<Rightarrow> 'b list \<Rightarrow> ('b \<times> 'b) option" where
  "first_duplicate f [] = None"
| "first_duplicate f (b # bs) =
     (case List.find (\<lambda>c. f b = f c) bs of
        Some c \<Rightarrow> Some (b, c)
      | None \<Rightarrow> first_duplicate f bs)"

definition validate_unique_bindings ::
    "(scancode \<Rightarrow> string) \<Rightarrow> string \<Rightarrow> input_map \<Rightarrow> input_map_error option" where
  "validate_unique_bindings scancode_name file m =
     (case first_duplicate kb_scancode (map_keyboard m) of
        Some (l, r) \<Rightarrow>
          Some (make_error Map_duplicate_keyboard_binding file ''keyboard''
            (input_action_key (kb_action r)) (scancode_name (kb_scancode r))
            (input_action_key (kb_action l)))
      | None \<Rightarrow>
          (case first_duplicate gp_button (map_gamepad m) of
             Some (l, r) \<Rightarrow>
               Some (make_error Map_duplicate_gamepad_binding file ''gamepad''
                 (input_action_key (gp_action r)) (gamepad_button_contract_name (gp_button r))
                 (input_action_key (gp_action l)))
           | None \<Rightarrow> None))"

fun is_table :: "toml_node \<Rightarrow> bool" where
  "is_table (Toml_table _) = True"
| "is_table _ = False"

fun check_sections :: "string \<Rightarrow> toml_table \<Rightarrow> input_map_error option" where
  "check_sections file [] = None"
| "check_sections file ((name, node) # rest) =
     (if name \<noteq> ''keyboard'' \<and> name \<noteq> ''gamepad'' then Some (make_error Map_unknown_section file name [] [] [])
      else if \<not> is_table node then Some (make_error Map_invalid_value_type file name [] [] [])
      else check_sections file rest)"

definition section_entries :: "string \<Rightarrow> toml_table \<Rightarrow> toml_table" where
  "section_entries name document =
     (case map_of document name of Some (Toml_table t) \<Rightarrow> t | _ \<Rightarrow> [])"

definition load_input_map ::
    "(string \<Rightarrow> string + toml_table) \<Rightarrow> (string \<Rightarrow> scancode) \<Rightarrow> (scancode \<Rightarrow> string) \<Rightarrow>
     string \<Rightarrow> string option \<Rightarrow> input_map_error + input_map" where
  "load_input_map toml_parse scancode_from_name scancode_name file content =
     (case content of
        None \<Rightarrow> Inl (make_error Map_io_error file [] [] [] [])
      | Some t \<Rightarrow>
          (case toml_parse t of
             Inl description \<Rightarrow> Inl (make_error Map_parse_error file [] [] [] description)
           | Inr document \<Rightarrow>
               (case check_sections file document of
                  Some e \<Rightarrow> Inl e
                | None \<Rightarrow>
                    (case parse_keyboard_table scancode_from_name file
                            (default_map\<lparr>legacy_select_backspace := False\<rparr>)
                            (section_entries ''keyboard'' document) of
                       Inl e \<Rightarrow> Inl e
                     | Inr m \<Rightarrow>
                         (case parse_gamepad_table file m (section_entries ''gamepad'' document) of
                            Inl e \<Rightarrow> Inl e
                          | Inr m' \<Rightarrow>
                              (case validate_unique_bindings scancode_name file m' of
                                 Some e \<Rightarrow> Inl e
                               | None \<Rightarrow> Inr m'))))))"

section \<open>Error texts\<close>

fun error_summary :: "input_map_error_code \<Rightarrow> string" where
  "error_summary Map_io_error = ''no se pudo leer el archivo''"
| "error_summary Map_parse_error = ''el TOML esta malformado''"
| "error_summary Map_unknown_section = ''la seccion superior no es valida''"
| "error_summary Map_unknown_action = ''la accion no existe en el contrato RetroPad''"
| "error_summary Map_unsupported_gamepad_action = ''la direccion del gamepad no es remapeable''"
| "error_summary Map_invalid_value_type = ''el binding debe ser un string''"
| "error_summary Map_invalid_keyboard_name = ''SDL no reconoce el nombre de tecla''"
| "error_summary Map_invalid_gamepad_name = ''el nombre de boton no pertenece al contrato''"
| "error_summary Map_duplicate_keyboard_binding = ''dos acciones usan la misma tecla''"
| "error_summary Map_duplicate_gamepad_binding = ''dos acciones usan el mismo boton''"

definition describe_map_error :: "input_map_error \<Rightarrow> string" where
  "describe_map_error e =
     ''--input-map '' @ [CHR 0x27] @ me_path e @ [CHR 0x27] @ '': '' @ error_summary (me_code e) @
     (if me_section e \<noteq> [] then '' ['' @ me_section e @ '']'' else []) @
     (if me_key e \<noteq> [] then ''.'' @ me_key e else []) @
     (if me_value e \<noteq> [] then '' ('' @ [CHR 0x27] @ me_value e @ [CHR 0x27] @ '')'' else []) @
     (if me_detail e \<noteq> [] then '': '' @ me_detail e else [])"

section \<open>Properties\<close>

lemma bind_keyboard_Some:
  "bind_keyboard action sc bs = Some bs' \<Longrightarrow>
     map kb_action bs' = map kb_action bs \<and>
     set (map kb_scancode bs') \<subseteq> insert sc (set (map kb_scancode bs))"
proof (induction bs arbitrary: bs')
  case (Cons b bs)
  then show ?case by (fastforce split: if_splits)
qed simp

lemma find_bind_keyboard:
  "bind_keyboard action sc bs = Some bs' \<Longrightarrow>
     map_option kb_scancode (List.find (\<lambda>b. kb_action b = a) bs') =
     (if a = action then Some sc else map_option kb_scancode (List.find (\<lambda>b. kb_action b = a) bs))"
  by (induction bs arbitrary: bs') (auto split: if_splits)

lemma bind_keyboard_total: "action \<in> set (map kb_action bs) \<Longrightarrow> bind_keyboard action sc bs \<noteq> None"
  by (induction bs) auto

lemma bind_gamepad_Some:
  "bind_gamepad action pb bs = Some bs' \<Longrightarrow> map gp_action bs' = map gp_action bs"
  by (induction bs arbitrary: bs') (auto split: if_splits)

lemma find_bind_gamepad:
  "bind_gamepad action pb bs = Some bs' \<Longrightarrow>
     map_option gp_button (List.find (\<lambda>b. gp_action b = a) bs') =
     (if a = action then Some pb else map_option gp_button (List.find (\<lambda>b. gp_action b = a) bs))"
  by (induction bs arbitrary: bs') (auto split: if_splits)

lemma first_duplicate_None: "first_duplicate f bs = None \<longleftrightarrow> distinct (map f bs)"
  by (induction bs) (auto simp: find_None_iff image_iff split: option.splits dest: find_SomeD)

lemma keyboard_entry_Inr:
  assumes "parse_keyboard_entry from_name file m k node = Inr m'"
  shows "\<exists>action v. action_from_key k = Some action \<and> node = Toml_string v \<and> from_name v \<noteq> SC_unknown \<and>
    map kb_action (map_keyboard m') = map kb_action (map_keyboard m) \<and>
    map_gamepad m' = map_gamepad m \<and> legacy_select_backspace m' = legacy_select_backspace m \<and>
    set (map kb_scancode (map_keyboard m')) \<subseteq> insert (from_name v) (set (map kb_scancode (map_keyboard m))) \<and>
    (\<forall>a. keyboard_scancode m' a = (if a = action then from_name v else keyboard_scancode m a))"
proof -
  obtain action v bs where *: "action_from_key k = Some action" "node = Toml_string v"
      "from_name v \<noteq> SC_unknown" "bind_keyboard action (from_name v) (map_keyboard m) = Some bs"
      "m' = m\<lparr>map_keyboard := bs\<rparr>"
    using assms by (auto simp: parse_keyboard_entry_def Let_def split: option.splits toml_node.splits if_splits)
  have "keyboard_scancode m' a = (if a = action then from_name v else keyboard_scancode m a)" for a
    using find_bind_keyboard [OF *(4), of a] *(5)
    by (auto simp: keyboard_scancode_def split: option.splits)
  with * bind_keyboard_Some [OF *(4)] show ?thesis by auto
qed

lemma gamepad_entry_Inr:
  assumes "parse_gamepad_entry file m k node = Inr m'"
  shows "\<exists>action v pb. action_from_key k = Some action \<and> node = Toml_string v \<and>
    gamepad_button_from_contract v = Some pb \<and>
    map gp_action (map_gamepad m') = map gp_action (map_gamepad m) \<and>
    map_keyboard m' = map_keyboard m \<and> legacy_select_backspace m' = legacy_select_backspace m \<and>
    (\<forall>a. gamepad_button m' a = (if a = action then Some pb else gamepad_button m a))"
proof -
  obtain action v pb bs where *: "action_from_key k = Some action" "node = Toml_string v"
      "gamepad_button_from_contract v = Some pb" "bind_gamepad action pb (map_gamepad m) = Some bs"
      "m' = m\<lparr>map_gamepad := bs\<rparr>"
    using assms by (auto simp: parse_gamepad_entry_def split: option.splits toml_node.splits if_splits)
  have "gamepad_button m' a = (if a = action then Some pb else gamepad_button m a)" for a
    using find_bind_gamepad [OF *(4), of a] *(5) by (simp add: gamepad_button_def)
  with * bind_gamepad_Some [OF *(4)] show ?thesis by auto
qed

text \<open>What a table asks for an action: its last entry that names the action.\<close>

fun asked_scancode :: "(string \<Rightarrow> scancode) \<Rightarrow> toml_table \<Rightarrow> joypad_button \<Rightarrow> scancode \<Rightarrow> scancode" where
  "asked_scancode from_name [] a fallback = fallback"
| "asked_scancode from_name ((k, node) # rest) a fallback =
     asked_scancode from_name rest a
       (case node of
          Toml_string v \<Rightarrow> if action_from_key k = Some a then from_name v else fallback
        | _ \<Rightarrow> fallback)"

fun asked_button :: "toml_table \<Rightarrow> joypad_button \<Rightarrow> pad_button option \<Rightarrow> pad_button option" where
  "asked_button [] a fallback = fallback"
| "asked_button ((k, node) # rest) a fallback =
     asked_button rest a
       (case node of
          Toml_string v \<Rightarrow> if action_from_key k = Some a then gamepad_button_from_contract v else fallback
        | _ \<Rightarrow> fallback)"

lemma keyboard_table_Inr:
  "parse_keyboard_table from_name file m t = Inr m' \<Longrightarrow>
     map kb_action (map_keyboard m') = map kb_action (map_keyboard m) \<and>
     map_gamepad m' = map_gamepad m \<and> legacy_select_backspace m' = legacy_select_backspace m \<and>
     (SC_unknown \<notin> set (map kb_scancode (map_keyboard m)) \<longrightarrow>
      SC_unknown \<notin> set (map kb_scancode (map_keyboard m'))) \<and>
     (\<forall>a. keyboard_scancode m' a = asked_scancode from_name t a (keyboard_scancode m a))"
proof (induction t arbitrary: m)
  case (Cons e t)
  obtain k node where e: "e = (k, node)" by (cases e)
  obtain m1 where m1: "parse_keyboard_entry from_name file m k node = Inr m1"
    and rest: "parse_keyboard_table from_name file m1 t = Inr m'"
    using Cons.prems by (auto simp: e split: sum.splits)
  obtain action v where v: "action_from_key k = Some action" "node = Toml_string v" "from_name v \<noteq> SC_unknown"
      "map kb_action (map_keyboard m1) = map kb_action (map_keyboard m)"
      "map_gamepad m1 = map_gamepad m" "legacy_select_backspace m1 = legacy_select_backspace m"
      "set (map kb_scancode (map_keyboard m1)) \<subseteq> insert (from_name v) (set (map kb_scancode (map_keyboard m)))"
      "\<forall>a. keyboard_scancode m1 a = (if a = action then from_name v else keyboard_scancode m a)"
    using keyboard_entry_Inr [OF m1] by blast
  then have "SC_unknown \<notin> set (map kb_scancode (map_keyboard m)) \<longrightarrow>
      SC_unknown \<notin> set (map kb_scancode (map_keyboard m1))"
    by (metis insertE subsetD)
  then show ?case
    using Cons.IH [OF rest] v by (auto simp: e)
qed simp

lemma gamepad_table_Inr:
  "parse_gamepad_table file m t = Inr m' \<Longrightarrow>
     map gp_action (map_gamepad m') = map gp_action (map_gamepad m) \<and>
     map_keyboard m' = map_keyboard m \<and> legacy_select_backspace m' = legacy_select_backspace m \<and>
     (\<forall>a. gamepad_button m' a = asked_button t a (gamepad_button m a))"
proof (induction t arbitrary: m)
  case (Cons e t)
  obtain k node where e: "e = (k, node)" by (cases e)
  obtain m1 where m1: "parse_gamepad_entry file m k node = Inr m1"
    and rest: "parse_gamepad_table file m1 t = Inr m'"
    using Cons.prems by (auto simp: e split: sum.splits)
  obtain action v pb where "action_from_key k = Some action" "node = Toml_string v"
      "gamepad_button_from_contract v = Some pb"
      "map gp_action (map_gamepad m1) = map gp_action (map_gamepad m)"
      "map_keyboard m1 = map_keyboard m" "legacy_select_backspace m1 = legacy_select_backspace m"
      "\<forall>a. gamepad_button m1 a = (if a = action then Some pb else gamepad_button m a)"
    using gamepad_entry_Inr [OF m1] by blast
  then show ?case using Cons.IH [OF rest] by (auto simp: e)
qed simp

text \<open>
  A loaded input map is complete, unambiguous and does what the file asks. It binds exactly the
  twelve named actions to keys and the eight remappable ones to gamepad buttons, no two actions
  share a key or a button, no key is unknown, the extra Backspace for Select is off, and each
  action has the key and the button that the document gives it, or the default when it gives none.
\<close>

theorem loaded_map_unambiguous:
  assumes "load_input_map toml_parse from_name name_of file (Some t) = Inr m" and "toml_parse t = Inr document"
  shows "map kb_action (map_keyboard m) = named_actions \<and>
    map gp_action (map_gamepad m) = map gp_action (map_gamepad default_map) \<and>
    distinct (map kb_scancode (map_keyboard m)) \<and> distinct (map gp_button (map_gamepad m)) \<and>
    SC_unknown \<notin> set (map kb_scancode (map_keyboard m)) \<and> \<not> legacy_select_backspace m \<and>
    (\<forall>a. keyboard_scancode m a =
      asked_scancode from_name (section_entries ''keyboard'' document) a (keyboard_scancode default_map a)) \<and>
    (\<forall>a. gamepad_button m a =
      asked_button (section_entries ''gamepad'' document) a (gamepad_button default_map a))"
proof -
  let ?d = "default_map\<lparr>legacy_select_backspace := False\<rparr>"
  obtain m1 where k: "parse_keyboard_table from_name file ?d (section_entries ''keyboard'' document) = Inr m1"
    and g: "parse_gamepad_table file m1 (section_entries ''gamepad'' document) = Inr m"
    and unique: "validate_unique_bindings name_of file m = None"
    using assms by (auto simp: load_input_map_def split: option.splits sum.splits)
  have "distinct (map kb_scancode (map_keyboard m))" "distinct (map gp_button (map_gamepad m))"
    using unique by (auto simp: validate_unique_bindings_def first_duplicate_None [symmetric] split: option.splits)
  moreover have "map kb_action (map_keyboard ?d) = named_actions"
    "SC_unknown \<notin> set (map kb_scancode (map_keyboard ?d))"
    by (simp_all add: default_map_def named_actions_def)
  moreover have "keyboard_scancode ?d a = keyboard_scancode default_map a"
    "gamepad_button ?d a = gamepad_button default_map a" for a
    by (simp_all add: keyboard_scancode_def gamepad_button_def)
  moreover have "gamepad_button m1 a = gamepad_button ?d a" "keyboard_scancode m a = keyboard_scancode m1 a" for a
    using keyboard_table_Inr [OF k] gamepad_table_Inr [OF g]
    by (simp_all add: gamepad_button_def keyboard_scancode_def)
  ultimately show ?thesis
    using keyboard_table_Inr [OF k] gamepad_table_Inr [OF g] by simp
qed

theorem loaded_map_unambiguous_witness:
  "\<exists>m. load_input_map (\<lambda>_. Inr [(''keyboard'', Toml_table [(''a'', Toml_string ''K'')])])
       (\<lambda>name. if name = ''K'' then SC_other 14 else SC_unknown) (\<lambda>_. []) ''map.toml'' (Some ''x'') = Inr m \<and>
     keyboard_scancode m Joy_a = SC_other 14 \<and> keyboard_scancode m Joy_b = SC_z"
proof -
  let ?parse = "\<lambda>_::string. Inr [(''keyboard'', Toml_table [(''a'', Toml_string ''K'')])] :: string + toml_table"
    and ?name = "\<lambda>name::string. if name = ''K'' then SC_other 14 else SC_unknown"
  have "\<exists>m. load_input_map ?parse ?name (\<lambda>_. []) ''map.toml'' (Some ''x'') = Inr m"
    by (simp add: load_input_map_def section_entries_def parse_keyboard_entry_def action_from_key_def
        named_actions_def default_map_def validate_unique_bindings_def Let_def)
  then obtain m where m: "load_input_map ?parse ?name (\<lambda>_. []) ''map.toml'' (Some ''x'') = Inr m" by blast
  have "keyboard_scancode m a =
      asked_scancode ?name [(''a'', Toml_string ''K'')] a (keyboard_scancode default_map a)" for a
    using loaded_map_unambiguous [OF m refl] by (simp add: section_entries_def)
  then show ?thesis
    using m by (auto simp: action_from_key_def named_actions_def keyboard_scancode_def default_map_def)
qed

end
