(* ===== verification/Game_Input.thy ===== *)
theory Game_Input
  imports Input_Map
begin

text \<open>
  The input of the game: \<^verbatim>\<open>src/game_input.{h,cpp}\<close>. The live keyboard and gamepad are folded into
  the set of pressed RetroPad buttons (the Engine's \<^verbatim>\<open>InputState\<close>), and the resume gate keeps the
  buttons held when the pause menu closes out of the game until they are released.

  SDL is an argument: the state of its keyboard, of the open gamepad and the result of opening one.
  The fixed arrays of the code are lists, of the lengths of the bindings.
\<close>

section \<open>State and operations\<close>

record mapped_input =
  in_keyboard :: "bool list"
  in_gamepad :: "bool list"
  in_dpad_up :: bool
  in_dpad_down :: bool
  in_dpad_left :: bool
  in_dpad_right :: bool
  in_left_x :: int
  in_left_y :: int

definition no_input :: mapped_input where
  "no_input =
     \<lparr>in_keyboard = replicate 12 False, in_gamepad = replicate 8 False, in_dpad_up = False,
      in_dpad_down = False, in_dpad_left = False, in_dpad_right = False, in_left_x = 0, in_left_y = 0\<rparr>"

definition set_button :: "joypad_button set \<Rightarrow> joypad_button \<Rightarrow> bool \<Rightarrow> joypad_button set" where
  "set_button input button is_pressed = (if is_pressed then insert button input else input)"

definition axis_deadzone :: int where
  "axis_deadzone = 16000"

definition compose_input_state :: "input_map \<Rightarrow> mapped_input \<Rightarrow> joypad_button set" where
  "compose_input_state m st =
     (let input = foldl (\<lambda>input (b, p). set_button input (kb_action b) p) {}
            (zip (map_keyboard m) (in_keyboard st));
          input = foldl (\<lambda>input (b, p). set_button input (gp_action b) p) input
            (zip (map_gamepad m) (in_gamepad st));
          input = set_button input Joy_up (in_dpad_up st);
          input = set_button input Joy_down (in_dpad_down st);
          input = set_button input Joy_left (in_dpad_left st);
          input = set_button input Joy_right (in_dpad_right st);
          input = set_button input Joy_left (in_left_x st < - axis_deadzone);
          input = set_button input Joy_right (axis_deadzone < in_left_x st);
          input = set_button input Joy_up (in_left_y st < - axis_deadzone)
      in set_button input Joy_down (axis_deadzone < in_left_y st))"

text \<open>The gate on one digital input: the mask it had and its value now.\<close>

definition gate :: "bool \<Rightarrow> bool \<Rightarrow> bool \<times> bool" where
  "gate masked value =
     (if masked then (if value then (True, False) else (False, value)) else (False, value))"

definition arm :: "mapped_input \<Rightarrow> mapped_input" where
  "arm held = held\<lparr>in_left_x := 0, in_left_y := 0\<rparr>"

definition gate_filter :: "mapped_input \<Rightarrow> mapped_input \<Rightarrow> mapped_input \<times> mapped_input" where
  "gate_filter held now =
     (let keys = map2 gate (in_keyboard held) (in_keyboard now);
          pads = map2 gate (in_gamepad held) (in_gamepad now);
          up = gate (in_dpad_up held) (in_dpad_up now);
          down = gate (in_dpad_down held) (in_dpad_down now);
          left = gate (in_dpad_left held) (in_dpad_left now);
          right = gate (in_dpad_right held) (in_dpad_right now)
      in (held\<lparr>in_keyboard := map fst keys, in_gamepad := map fst pads, in_dpad_up := fst up,
               in_dpad_down := fst down, in_dpad_left := fst left, in_dpad_right := fst right\<rparr>,
          now\<lparr>in_keyboard := map snd keys, in_gamepad := map snd pads, in_dpad_up := snd up,
              in_dpad_down := snd down, in_dpad_left := snd left, in_dpad_right := snd right\<rparr>))"

definition gate_active :: "mapped_input \<Rightarrow> bool" where
  "gate_active held \<longleftrightarrow>
     True \<in> set (in_keyboard held) \<or> True \<in> set (in_gamepad held) \<or>
     in_dpad_up held \<or> in_dpad_down held \<or> in_dpad_left held \<or> in_dpad_right held"

section \<open>Devices\<close>

record devices =
  dev_keyboard :: "(scancode \<Rightarrow> bool) option"
  dev_button :: "pad_button \<Rightarrow> bool"
  dev_left_x :: int
  dev_left_y :: int

record game_input =
  gi_map :: input_map
  gi_gamepad :: "nat option"
  gi_gate :: mapped_input

datatype pad_event = Gamepad_added nat | Gamepad_removed nat | Other_event

text \<open>\<open>opens\<close> tells whether SDL can open the gamepad; the handle is the id it was opened with.\<close>

definition make_game_input :: "input_map \<Rightarrow> (nat \<Rightarrow> bool) \<Rightarrow> nat list \<Rightarrow> game_input" where
  "make_game_input m opens connected =
     \<lparr>gi_map = m,
      gi_gamepad = (case connected of [] \<Rightarrow> None | i # _ \<Rightarrow> if opens i then Some i else None),
      gi_gate = no_input\<rparr>"

fun handle_event :: "(nat \<Rightarrow> bool) \<Rightarrow> game_input \<Rightarrow> pad_event \<Rightarrow> game_input" where
  "handle_event opens g (Gamepad_added i) =
     (if gi_gamepad g = None then g\<lparr>gi_gamepad := (if opens i then Some i else None)\<rparr> else g)"
| "handle_event opens g (Gamepad_removed i) =
     (if gi_gamepad g = Some i then g\<lparr>gi_gamepad := None\<rparr> else g)"
| "handle_event opens g Other_event = g"

definition read_raw :: "game_input \<Rightarrow> devices \<Rightarrow> mapped_input" where
  "read_raw g d =
     (let st =
        (case dev_keyboard d of
           None \<Rightarrow> no_input
         | Some down \<Rightarrow>
             no_input\<lparr>in_keyboard :=
               map (\<lambda>b. down (kb_scancode b) \<or>
                        legacy_select_backspace (gi_map g) \<and> kb_action b = Joy_select \<and> down SC_backspace)
                 (map_keyboard (gi_map g))\<rparr>)
      in case gi_gamepad g of
           None \<Rightarrow> st
         | Some _ \<Rightarrow>
             st\<lparr>in_gamepad := map (\<lambda>b. dev_button d (gp_button b)) (map_gamepad (gi_map g)),
                in_dpad_up := dev_button d Pad_dpad_up, in_dpad_down := dev_button d Pad_dpad_down,
                in_dpad_left := dev_button d Pad_dpad_left, in_dpad_right := dev_button d Pad_dpad_right,
                in_left_x := dev_left_x d, in_left_y := dev_left_y d\<rparr>)"

definition poll_input :: "game_input \<Rightarrow> devices \<Rightarrow> game_input \<times> joypad_button set" where
  "poll_input g d =
     (case gate_filter (gi_gate g) (read_raw g d) of
        (held, out) \<Rightarrow> (g\<lparr>gi_gate := held\<rparr>, compose_input_state (gi_map g) out))"

definition arm_resume_gate :: "game_input \<Rightarrow> devices \<Rightarrow> game_input" where
  "arm_resume_gate g d = g\<lparr>gi_gate := arm (read_raw g d)\<rparr>"

section \<open>Composition\<close>

lemma mem_set_button [simp]: "a \<in> set_button s b p \<longleftrightarrow> a \<in> s \<or> p \<and> a = b"
  by (auto simp: set_button_def)

lemma mem_fold_buttons:
  "a \<in> foldl (\<lambda>input (b, p). set_button input (f b) p) s xs \<longleftrightarrow>
     a \<in> s \<or> (\<exists>(b, p) \<in> set xs. p \<and> f b = a)"
proof (induction xs arbitrary: s)
  case (Cons x xs)
  obtain b p where "x = (b, p)" by (cases x)
  with Cons.IH [of "set_button s (f b) p"] show ?case by auto
qed simp

lemma mem_compose:
  "a \<in> compose_input_state m st \<longleftrightarrow>
     (\<exists>(b, p) \<in> set (zip (map_keyboard m) (in_keyboard st)). p \<and> kb_action b = a) \<or>
     (\<exists>(b, p) \<in> set (zip (map_gamepad m) (in_gamepad st)). p \<and> gp_action b = a) \<or>
     a = Joy_up \<and> (in_dpad_up st \<or> in_left_y st < - 16000) \<or>
     a = Joy_down \<and> (in_dpad_down st \<or> 16000 < in_left_y st) \<or>
     a = Joy_left \<and> (in_dpad_left st \<or> in_left_x st < - 16000) \<or>
     a = Joy_right \<and> (in_dpad_right st \<or> 16000 < in_left_x st)"
  unfolding compose_input_state_def Let_def mem_set_button mem_fold_buttons axis_deadzone_def
  by blast

section \<open>The resume gate\<close>

text \<open>A digital input of a mapped state, by its place.\<close>

datatype digital = Keyboard_bit nat | Gamepad_bit nat | Dpad_up | Dpad_down | Dpad_left | Dpad_right

fun digital_in :: "digital \<Rightarrow> mapped_input \<Rightarrow> bool" where
  "digital_in (Keyboard_bit i) st \<longleftrightarrow> i < length (in_keyboard st) \<and> in_keyboard st ! i"
| "digital_in (Gamepad_bit i) st \<longleftrightarrow> i < length (in_gamepad st) \<and> in_gamepad st ! i"
| "digital_in Dpad_up st \<longleftrightarrow> in_dpad_up st"
| "digital_in Dpad_down st \<longleftrightarrow> in_dpad_down st"
| "digital_in Dpad_left st \<longleftrightarrow> in_dpad_left st"
| "digital_in Dpad_right st \<longleftrightarrow> in_dpad_right st"

definition same_shape :: "mapped_input \<Rightarrow> mapped_input \<Rightarrow> bool" where
  "same_shape s t \<longleftrightarrow>
     length (in_keyboard s) = length (in_keyboard t) \<and> length (in_gamepad s) = length (in_gamepad t)"

lemma gate_eq: "gate masked value = (masked \<and> value, value \<and> \<not> masked)"
  by (simp add: gate_def)

lemma gate_filter_digital:
  assumes "same_shape held now" and "gate_filter held now = (held', out)"
  shows "digital_in x held' = (digital_in x held \<and> digital_in x now) \<and>
    digital_in x out = (digital_in x now \<and> \<not> digital_in x held) \<and>
    same_shape held' held \<and> in_left_x out = in_left_x now \<and> in_left_y out = in_left_y now"
  using assms by (cases x) (auto simp: gate_filter_def Let_def same_shape_def gate_eq)

fun gate_run :: "mapped_input \<Rightarrow> mapped_input list \<Rightarrow> mapped_input \<times> mapped_input list" where
  "gate_run held [] = (held, [])"
| "gate_run held (now # later) =
     (case gate_filter held now of
        (held', out) \<Rightarrow> (case gate_run held' later of (held'', outs) \<Rightarrow> (held'', out # outs)))"

lemma gate_run_nth:
  "\<forall>now \<in> set nows. same_shape held now \<Longrightarrow> gate_run held nows = (held', outs) \<Longrightarrow> i < length nows \<Longrightarrow>
     length outs = length nows \<and>
     digital_in x (outs ! i) =
       (digital_in x (nows ! i) \<and> (digital_in x held \<longrightarrow> (\<exists>j < i. \<not> digital_in x (nows ! j)))) \<and>
     in_left_x (outs ! i) = in_left_x (nows ! i) \<and> in_left_y (outs ! i) = in_left_y (nows ! i)"
proof (induction nows arbitrary: held outs i)
  case (Cons now later)
  obtain h out os where first: "gate_filter held now = (h, out)"
    and rest: "gate_run h later = (held', os)" and outs: "outs = out # os"
    using Cons.prems(2) by (auto split: prod.splits)
  have shape: "same_shape held now" using Cons.prems(1) by simp
  note step = gate_filter_digital [OF shape first, of x]
  have shapes: "\<forall>n \<in> set later. same_shape h n"
    using Cons.prems(1) step by (auto simp: same_shape_def)
  have len: "length os = length later"
    using Cons.IH [OF shapes rest, of 0] rest by (cases later) auto
  show ?case
  proof (cases i)
    case 0
    with step outs len show ?thesis by simp
  next
    case (Suc j)
    have "digital_in x (os ! j) =
        (digital_in x (later ! j) \<and> (digital_in x h \<longrightarrow> (\<exists>l < j. \<not> digital_in x (later ! l)))) \<and>
      in_left_x (os ! j) = in_left_x (later ! j) \<and> in_left_y (os ! j) = in_left_y (later ! j)"
      using Cons.IH [OF shapes rest, of j] Cons.prems(3) Suc by simp
    moreover have "(\<exists>l < Suc j. \<not> digital_in x ((now # later) ! l)) \<longleftrightarrow>
        \<not> digital_in x now \<or> (\<exists>l < j. \<not> digital_in x (later ! l))"
      by (auto simp: less_Suc_eq_0_disj)
    ultimately show ?thesis using step Suc outs len by auto
  qed
qed simp

lemma gate_run_inactive:
  "\<forall>now \<in> set nows. same_shape held now \<Longrightarrow> gate_run held nows = (held', outs) \<Longrightarrow>
     digital_in x held' = (digital_in x held \<and> (\<forall>now \<in> set nows. digital_in x now)) \<and> same_shape held' held"
proof (induction nows arbitrary: held outs)
  case (Cons now later)
  obtain h out os where first: "gate_filter held now = (h, out)" and rest: "gate_run h later = (held', os)"
    using Cons.prems(2) by (auto split: prod.splits)
  have shape: "same_shape held now" using Cons.prems(1) by simp
  note step = gate_filter_digital [OF shape first, of x]
  have "\<forall>n \<in> set later. same_shape h n"
    using Cons.prems(1) step by (auto simp: same_shape_def)
  from Cons.IH [OF this rest] step show ?case by (auto simp: same_shape_def)
qed (simp add: same_shape_def)

lemma gate_active_digital: "gate_active held \<longleftrightarrow> (\<exists>x. digital_in x held)"
proof
  assume "gate_active held"
  then show "\<exists>x. digital_in x held"
    by (auto simp: gate_active_def in_set_conv_nth intro: exI [of _ Dpad_up] exI [of _ Dpad_down]
        exI [of _ Dpad_left] exI [of _ Dpad_right]) (metis digital_in.simps(1,2))+
next
  assume "\<exists>x. digital_in x held"
  then obtain x where "digital_in x held" by blast
  then show "gate_active held"
    by (cases x) (auto simp: gate_active_def in_set_conv_nth)
qed

text \<open>
  A button held when the menu closes never reaches the game as a new press. After the gate is
  armed, over every sequence of polls, a digital input is passed on exactly when it is down and
  either was up when the gate was armed or has been seen up in an earlier poll; the sticks always
  pass, and the gate is active exactly while some input has been down ever since.
\<close>

theorem resume_gate_masks_held:
  assumes "\<forall>now \<in> set nows. same_shape armed now" and "gate_run (arm armed) nows = (held, outs)"
    and "i < length nows"
  shows "digital_in x (outs ! i) =
      (digital_in x (nows ! i) \<and> (digital_in x armed \<longrightarrow> (\<exists>j < i. \<not> digital_in x (nows ! j)))) \<and>
    in_left_x (outs ! i) = in_left_x (nows ! i) \<and> in_left_y (outs ! i) = in_left_y (nows ! i) \<and>
    (gate_active held \<longleftrightarrow> (\<exists>y. digital_in y armed \<and> (\<forall>now \<in> set nows. digital_in y now)))"
proof -
  have armed: "digital_in y (arm armed) = digital_in y armed" for y
    by (cases y) (simp_all add: arm_def)
  have shapes: "\<forall>now \<in> set nows. same_shape (arm armed) now"
    using assms(1) by (simp add: same_shape_def arm_def)
  show ?thesis
    using gate_run_nth [OF shapes assms(2,3), of x] gate_run_inactive [OF shapes assms(2)] armed
    by (simp add: gate_active_digital)
qed

theorem resume_gate_masks_held_witness:
  "digital_in Dpad_up (snd (gate_run (arm (no_input\<lparr>in_dpad_up := True\<rparr>))
     [no_input\<lparr>in_dpad_up := True\<rparr>, no_input, no_input\<lparr>in_dpad_up := True\<rparr>]) ! 2) \<and>
   \<not> digital_in Dpad_up (snd (gate_run (arm (no_input\<lparr>in_dpad_up := True\<rparr>))
     [no_input\<lparr>in_dpad_up := True\<rparr>, no_input, no_input\<lparr>in_dpad_up := True\<rparr>]) ! 0)"
proof -
  let ?a = "no_input\<lparr>in_dpad_up := True\<rparr>"
  have shapes: "\<forall>now \<in> set [?a, no_input, ?a]. same_shape ?a now"
    by (simp add: same_shape_def)
  have at2: "digital_in Dpad_up (snd (gate_run (arm ?a) [?a, no_input, ?a]) ! 2)"
    using resume_gate_masks_held [OF shapes surjective_pairing, of 2 Dpad_up]
    by (auto simp: no_input_def intro: exI [of _ 1])
  have at0: "\<not> digital_in Dpad_up (snd (gate_run (arm ?a) [?a, no_input, ?a]) ! 0)"
    using resume_gate_masks_held [OF shapes surjective_pairing, of 0 Dpad_up] by (simp add: no_input_def)
  show ?thesis using at2 at0 by blast
qed

end
