(* ===== verification/Music_Backend.thy ===== *)
theory Music_Backend
  imports Prelude
begin

text \<open>
  The delivery of music samples across a restore: \<^verbatim>\<open>src/music_pcm_backend.h\<close> (the queue of samples of
  one generation), \<^verbatim>\<open>src/music_backend_drain.h\<close> (the record of one drain) and
  \<^verbatim>\<open>src/music_restore_transaction.h\<close> (the publication of the restored state).

  Generations, frames and boundaries are 64-bit words. The samples of the queue are of any type;
  the theorem on generations uses samples that carry the generation they were enqueued for.
\<close>

section \<open>The PCM backend\<close>

record 'a pcm_backend =
  pb_queue :: "'a list"
  pb_active_generation :: u64
  pb_request_frame :: u64
  pb_confirmation_frame :: u64
  pb_first_output_frame :: u64
  pb_discarded_frames :: u64
  pb_deliveries_stopped :: bool
  pb_drain_performed :: bool
  pb_confirmed :: bool

record 'a pcm_output =
  po_generation :: u64
  po_first_frame :: u64
  po_samples :: "'a list"

definition make_backend :: "'a pcm_backend" where
  "make_backend =
     \<lparr>pb_queue = [], pb_active_generation = 0, pb_request_frame = 0, pb_confirmation_frame = 0,
      pb_first_output_frame = 0, pb_discarded_frames = 0, pb_deliveries_stopped = False,
      pb_drain_performed = False, pb_confirmed = False\<rparr>"

definition enqueue :: "'a pcm_backend \<Rightarrow> u64 \<Rightarrow> 'a list \<Rightarrow> 'a pcm_backend \<times> bool" where
  "enqueue b generation samples =
     (if generation = 0 \<or> samples = [] \<or>
         pb_active_generation b \<noteq> 0 \<and> generation \<noteq> pb_active_generation b \<or> pb_deliveries_stopped b
      then (b, False)
      else (b\<lparr>pb_active_generation := generation, pb_queue := pb_queue b @ samples\<rparr>, True))"

definition stop_deliveries :: "'a pcm_backend \<Rightarrow> u64 \<Rightarrow> 'a pcm_backend \<times> bool" where
  "stop_deliveries b request_frame =
     (if pb_deliveries_stopped b \<or> request_frame = 0 then (b, False)
      else (b\<lparr>pb_deliveries_stopped := True, pb_request_frame := request_frame\<rparr>, True))"

definition invalidate_and_drain :: "'a pcm_backend \<Rightarrow> u64 \<Rightarrow> 'a pcm_backend \<times> bool" where
  "invalidate_and_drain b generation =
     (if \<not> pb_deliveries_stopped b \<or> generation \<noteq> pb_active_generation b then (b, False)
      else (b\<lparr>pb_discarded_frames := pb_discarded_frames b + of_nat (length (pb_queue b)),
              pb_queue := [], pb_drain_performed := True\<rparr>, True))"

definition confirm_drained :: "'a pcm_backend \<Rightarrow> u64 \<Rightarrow> 'a pcm_backend \<times> bool" where
  "confirm_drained b confirmation_frame =
     (if \<not> pb_deliveries_stopped b \<or> \<not> pb_drain_performed b \<or> pb_queue b \<noteq> [] \<or>
         confirmation_frame < pb_request_frame b
      then (b, False)
      else (b\<lparr>pb_confirmed := True, pb_confirmation_frame := confirmation_frame\<rparr>, True))"

definition publish_generation :: "'a pcm_backend \<Rightarrow> u64 \<Rightarrow> u64 \<Rightarrow> 'a pcm_backend \<times> bool" where
  "publish_generation b generation boundary =
     (if \<not> pb_confirmed b \<or> generation \<le> pb_active_generation b \<or> boundary < pb_confirmation_frame b
      then (b, False)
      else (b\<lparr>pb_active_generation := generation, pb_first_output_frame := boundary,
              pb_deliveries_stopped := False, pb_confirmed := False, pb_drain_performed := False\<rparr>, True))"

definition rollback :: "'a pcm_backend \<Rightarrow> u64 \<Rightarrow> 'a pcm_backend \<times> bool" where
  "rollback b generation =
     (if \<not> pb_deliveries_stopped b \<or> generation \<noteq> pb_active_generation b then (b, False)
      else (b\<lparr>pb_deliveries_stopped := False, pb_confirmed := False, pb_drain_performed := False\<rparr>, True))"

definition consume :: "'a pcm_backend \<Rightarrow> 'a pcm_backend \<times> 'a pcm_output" where
  "consume b =
     (if pb_deliveries_stopped b then (b, \<lparr>po_generation = 0, po_first_frame = 0, po_samples = []\<rparr>)
      else (b\<lparr>pb_queue := []\<rparr>,
            \<lparr>po_generation = pb_active_generation b, po_first_frame = pb_first_output_frame b,
             po_samples = pb_queue b\<rparr>))"

section \<open>Runs\<close>

datatype 'a backend_event =
  Enqueue u64 "'a list" | Stop u64 | Drain u64 | Confirm u64 | Publish u64 u64 | Rollback u64 | Consume

fun backend_step :: "'a pcm_backend \<Rightarrow> 'a backend_event \<Rightarrow> 'a pcm_backend" where
  "backend_step b (Enqueue g samples) = fst (enqueue b g samples)"
| "backend_step b (Stop frame) = fst (stop_deliveries b frame)"
| "backend_step b (Drain g) = fst (invalidate_and_drain b g)"
| "backend_step b (Confirm frame) = fst (confirm_drained b frame)"
| "backend_step b (Publish g boundary) = fst (publish_generation b g boundary)"
| "backend_step b (Rollback g) = fst (rollback b g)"
| "backend_step b Consume = fst (consume b)"

fun backend_output :: "'a pcm_backend \<Rightarrow> 'a backend_event \<Rightarrow> 'a pcm_output list" where
  "backend_output b Consume = [snd (consume b)]"
| "backend_output b _ = []"

fun outputs :: "'a pcm_backend \<Rightarrow> 'a backend_event list \<Rightarrow> 'a pcm_output list" where
  "outputs b [] = []"
| "outputs b (e # es) = backend_output b e @ outputs (backend_step b e) es"

lemmas backend_ops = enqueue_def stop_deliveries_def invalidate_and_drain_def confirm_drained_def
  publish_generation_def rollback_def consume_def

text \<open>Samples that carry the generation they belong to.\<close>

fun tagged :: "(u64 \<times> 'a) backend_event \<Rightarrow> bool" where
  "tagged (Enqueue g samples) \<longleftrightarrow> (\<forall>s \<in> set samples. fst s = g)"
| "tagged _ \<longleftrightarrow> True"

definition backend_wf :: "(u64 \<times> 'a) pcm_backend \<Rightarrow> bool" where
  "backend_wf b \<longleftrightarrow>
     (\<forall>s \<in> set (pb_queue b). fst s = pb_active_generation b) \<and>
     (pb_active_generation b = 0 \<longrightarrow> pb_queue b = []) \<and>
     (pb_confirmed b \<longrightarrow> pb_deliveries_stopped b \<and> pb_queue b = [])"

lemma backend_wf_step:
  "backend_wf b \<Longrightarrow> tagged e \<Longrightarrow> backend_wf (backend_step b e)"
  by (cases e) (auto simp: backend_ops backend_wf_def split: if_splits)

interpretation pcm: guarded_machine backend_step "\<lambda>_ e. tagged e" backend_wf
  by unfold_locales (rule backend_wf_step)

lemma confirmed_step:
  "pb_confirmed b \<longrightarrow> pb_deliveries_stopped b \<Longrightarrow>
   pb_confirmed (backend_step b e) \<longrightarrow> pb_deliveries_stopped (backend_step b e)"
  by (cases e) (auto simp: backend_ops)

lemma generation_step: "pb_active_generation b \<le> pb_active_generation (backend_step b e)"
  by (cases e) (auto simp: backend_ops)

interpretation pcm_order: monotone_machine backend_step
    "\<lambda>b. pb_confirmed b \<longrightarrow> pb_deliveries_stopped b" pb_active_generation
  by unfold_locales (auto intro: generation_step confirmed_step [rule_format])

lemma output_generation:
  "x \<in> set (backend_output b e) \<Longrightarrow> po_samples x \<noteq> [] \<Longrightarrow>
     po_generation x = pb_active_generation b \<and> po_samples x = pb_queue b \<and> \<not> pb_deliveries_stopped b"
  by (cases e) (auto simp: consume_def split: if_splits)

lemma outputs_tagged:
  "backend_wf b \<Longrightarrow> \<forall>e \<in> set es. tagged e \<Longrightarrow> x \<in> set (outputs b es) \<Longrightarrow> s \<in> set (po_samples x) \<Longrightarrow>
     fst s = po_generation x"
proof (induction es arbitrary: b)
  case (Cons e es)
  show ?case
  proof (cases "x \<in> set (backend_output b e)")
    case True
    then show ?thesis
      using output_generation [of x b e] Cons.prems by (cases "po_samples x") (auto simp: backend_wf_def)
  next
    case False
    then show ?thesis
      using Cons.IH [of "backend_step b e"] backend_wf_step [of b e] Cons.prems by auto
  qed
qed simp

lemma outputs_from_active:
  "x \<in> set (outputs b es) \<Longrightarrow> po_samples x \<noteq> [] \<Longrightarrow> pb_active_generation b \<le> po_generation x"
proof (induction es arbitrary: b)
  case (Cons e es)
  then show ?case
    using output_generation [of x b e] generation_step [of b e]
    by (auto intro: order_trans)
qed simp

lemma outputs_sorted:
  "sorted_wrt (\<lambda>x y. po_samples x \<noteq> [] \<longrightarrow> po_samples y \<noteq> [] \<longrightarrow> po_generation x \<le> po_generation y)
     (outputs b es)"
proof (induction es arbitrary: b)
  case (Cons e es)
  have "po_generation x \<le> po_generation y"
    if "x \<in> set (backend_output b e)" "y \<in> set (outputs (backend_step b e) es)"
      "po_samples x \<noteq> []" "po_samples y \<noteq> []" for x y
    using output_generation [OF that(1,3)] outputs_from_active [OF that(2,4)] generation_step [of b e]
    by auto
  moreover have "sorted_wrt R (backend_output b e)" for R
    by (cases e) auto
  ultimately show ?case
    using Cons.IH [of "backend_step b e"] by (auto simp: sorted_wrt_append)
qed simp

text \<open>
  C21: Samples of different generations never mix. Over every sequence of operations on a new
  backend, each delivered block holds only samples enqueued for the generation it names, and the
  generations of the delivered blocks never go back: once a newer generation has been published,
  no sample of an older one is delivered.
\<close>

theorem generations_never_mix:
  assumes "\<forall>e \<in> set es. tagged e"
  shows "(\<forall>x \<in> set (outputs make_backend es). \<forall>s \<in> set (po_samples x). fst s = po_generation x) \<and>
    sorted_wrt (\<lambda>x y. po_samples x \<noteq> [] \<longrightarrow> po_samples y \<noteq> [] \<longrightarrow> po_generation x \<le> po_generation y)
      (outputs make_backend es) \<and>
    pb_active_generation (exec backend_step make_backend es) \<le>
      pb_active_generation (exec backend_step make_backend (es @ later))"
proof -
  have "backend_wf make_backend" by (simp add: backend_wf_def make_backend_def)
  moreover have "pb_active_generation (exec backend_step make_backend es) \<le>
      pb_active_generation (exec backend_step make_backend (es @ later))"
    unfolding exec_append
    by (rule pcm_order.rank_run, rule pcm_order.invar_run) (simp add: make_backend_def)
  ultimately show ?thesis
    using assms outputs_tagged outputs_sorted by blast
qed

definition example_backend_run :: "(u64 \<times> nat) backend_event list" where
  "example_backend_run =
     [Enqueue 1 [(1, 10), (1, 11)], Consume, Enqueue 1 [(1, 12)], Stop 5, Consume, Drain 1, Confirm 6,
      Publish 2 8, Enqueue 1 [(1, 13)], Enqueue 2 [(2, 20)], Consume]"

theorem generations_never_mix_witness:
  "map (map snd \<circ> po_samples) (outputs make_backend example_backend_run) = [[10, 11], [], [20]] \<and>
   fst (last (po_samples (last (outputs make_backend example_backend_run)))) =
     po_generation (last (outputs make_backend example_backend_run))"
proof -
  let ?out = "outputs make_backend example_backend_run"
  have "\<forall>e \<in> set example_backend_run. tagged e"
    by (simp add: example_backend_run_def)
  from generations_never_mix [OF this]
  have all: "\<forall>x \<in> set ?out. \<forall>s \<in> set (po_samples x). fst s = po_generation x"
    by blast
  have samples: "map (map snd \<circ> po_samples) ?out = [[10, 11], [], [20]]"
    by code_simp
  have "length ?out = 3"
    using arg_cong [OF samples, of length] by simp
  then have out: "?out \<noteq> []" by fastforce
  have "map snd (po_samples (last ?out)) = last (map (map snd \<circ> po_samples) ?out)"
    by (simp only: last_map [OF out] comp_apply)
  then have "map snd (po_samples (last ?out)) = [20]"
    unfolding samples by simp
  then have "po_samples (last ?out) \<noteq> []" by fastforce
  then have "last (po_samples (last ?out)) \<in> set (po_samples (last ?out))" by (rule last_in_set)
  then have "fst (last (po_samples (last ?out))) = po_generation (last ?out)"
    using all last_in_set [OF out] by blast
  with samples show ?thesis by blast
qed

section \<open>The drain record\<close>

record backend_drain =
  dr_requested :: bool
  dr_confirmed :: bool
  dr_published :: bool
  dr_discard_traced :: bool
  dr_request_frame :: u64
  dr_confirmation_frame :: u64
  dr_boundary_frame :: u64
  dr_old_generation :: u64
  dr_new_generation :: u64
  dr_emitted_irreversible_frames :: u64
  dr_discarded_frames :: u64

definition drain_request :: "backend_drain \<Rightarrow> u64 \<Rightarrow> u64 \<Rightarrow> backend_drain \<times> bool" where
  "drain_request d frame generation =
     (if dr_requested d \<or> frame = 0 \<or> generation = 0 then (d, False)
      else (d\<lparr>dr_requested := True, dr_request_frame := frame, dr_old_generation := generation\<rparr>, True))"

definition record_emitted :: "backend_drain \<Rightarrow> u64 \<Rightarrow> backend_drain" where
  "record_emitted d frames =
     (if dr_requested d \<and> \<not> dr_published d
      then d\<lparr>dr_emitted_irreversible_frames := dr_emitted_irreversible_frames d + frames\<rparr> else d)"

definition record_discarded :: "backend_drain \<Rightarrow> u64 \<Rightarrow> backend_drain" where
  "record_discarded d frames =
     (if dr_requested d \<and> \<not> dr_published d
      then d\<lparr>dr_discarded_frames := dr_discarded_frames d + frames,
             dr_discard_traced := (dr_discard_traced d \<or> frames \<noteq> 0)\<rparr>
      else d)"

definition drain_confirm :: "backend_drain \<Rightarrow> u64 \<Rightarrow> u64 \<Rightarrow> backend_drain \<times> bool" where
  "drain_confirm d confirmation_frame boundary_frame =
     (if \<not> dr_requested d \<or> dr_confirmed d \<or> confirmation_frame < dr_request_frame d \<or>
         boundary_frame < confirmation_frame
      then (d, False)
      else (d\<lparr>dr_confirmed := True, dr_confirmation_frame := confirmation_frame,
              dr_boundary_frame := boundary_frame\<rparr>, True))"

definition drain_publish :: "backend_drain \<Rightarrow> u64 \<Rightarrow> backend_drain \<times> bool" where
  "drain_publish d generation =
     (if \<not> dr_confirmed d \<or> dr_published d \<or> generation \<le> dr_old_generation d then (d, False)
      else (d\<lparr>dr_published := True, dr_new_generation := generation\<rparr>, True))"

definition make_drain :: backend_drain where
  "make_drain =
     \<lparr>dr_requested = False, dr_confirmed = False, dr_published = False, dr_discard_traced = False,
      dr_request_frame = 0, dr_confirmation_frame = 0, dr_boundary_frame = 0, dr_old_generation = 0,
      dr_new_generation = 0, dr_emitted_irreversible_frames = 0, dr_discarded_frames = 0\<rparr>"

datatype drain_event =
  Drain_request u64 u64 | Emitted u64 | Discarded_frames u64 | Drain_confirm u64 u64 | Drain_publish u64

fun drain_step :: "backend_drain \<Rightarrow> drain_event \<Rightarrow> backend_drain" where
  "drain_step d (Drain_request frame g) = fst (drain_request d frame g)"
| "drain_step d (Emitted n) = record_emitted d n"
| "drain_step d (Discarded_frames n) = record_discarded d n"
| "drain_step d (Drain_confirm c b) = fst (drain_confirm d c b)"
| "drain_step d (Drain_publish g) = fst (drain_publish d g)"

lemmas drain_ops = drain_request_def record_emitted_def record_discarded_def drain_confirm_def
  drain_publish_def

definition drain_wf :: "backend_drain \<Rightarrow> bool" where
  "drain_wf d \<longleftrightarrow>
     (dr_confirmed d \<longrightarrow> dr_requested d \<and> dr_request_frame d \<le> dr_confirmation_frame d \<and>
        dr_confirmation_frame d \<le> dr_boundary_frame d) \<and>
     (dr_requested d \<longrightarrow> dr_request_frame d \<noteq> 0 \<and> dr_old_generation d \<noteq> 0) \<and>
     (dr_published d \<longrightarrow> dr_confirmed d \<and> dr_old_generation d < dr_new_generation d)"

lemma drain_wf_step: "drain_wf d \<Longrightarrow> drain_wf (drain_step d e)"
  by (cases e) (auto simp: drain_ops drain_wf_def split: if_splits)

interpretation drain_machine: machine drain_step drain_wf
  by unfold_locales (rule drain_wf_step)

interpretation drain_published: absorbing_machine drain_step dr_published
proof
  show "dr_published (drain_step d e)" if "dr_published d" for d e
    using that by (cases e) (auto simp: drain_ops)
qed

section \<open>The restore transaction\<close>

record restore_transaction =
  tr_visible_generation :: u64
  tr_visible_boundary :: u64
  tr_prepared_generation :: u64
  tr_prepared_boundary :: u64
  tr_host_paused :: bool
  tr_game_music_paused :: bool
  tr_prepared_game_music_paused :: bool
  tr_prepared :: bool
  tr_published :: bool
  tr_states_visible_together :: bool
  tr_link_active :: bool

definition make_transaction :: "u64 \<Rightarrow> u64 \<Rightarrow> bool \<Rightarrow> bool \<Rightarrow> restore_transaction" where
  "make_transaction generation boundary host_paused game_music_paused =
     \<lparr>tr_visible_generation = generation, tr_visible_boundary = boundary, tr_prepared_generation = 0,
      tr_prepared_boundary = 0, tr_host_paused = host_paused, tr_game_music_paused = game_music_paused,
      tr_prepared_game_music_paused = False, tr_prepared = False, tr_published = False,
      tr_states_visible_together = False, tr_link_active = False\<rparr>"

definition transaction_prepare ::
    "restore_transaction \<Rightarrow> u64 \<Rightarrow> u64 \<Rightarrow> bool \<Rightarrow> restore_transaction \<times> bool" where
  "transaction_prepare t generation boundary destination_game_music_running =
     (if tr_prepared t \<or> tr_published t \<or> generation \<le> tr_visible_generation t \<or>
         boundary \<le> tr_visible_boundary t
      then (t, False)
      else (t\<lparr>tr_prepared := True, tr_prepared_generation := generation, tr_prepared_boundary := boundary,
              tr_prepared_game_music_paused := \<not> destination_game_music_running\<rparr>, True))"

definition transaction_publish :: "restore_transaction \<Rightarrow> u64 \<Rightarrow> restore_transaction \<times> bool" where
  "transaction_publish t boundary =
     (if \<not> tr_prepared t \<or> tr_published t \<or> boundary \<noteq> tr_prepared_boundary t then (t, False)
      else (t\<lparr>tr_visible_generation := tr_prepared_generation t, tr_visible_boundary := tr_prepared_boundary t,
              tr_game_music_paused := tr_prepared_game_music_paused t, tr_link_active := False,
              tr_published := True, tr_states_visible_together := True\<rparr>, True))"

definition set_link_active :: "restore_transaction \<Rightarrow> bool \<Rightarrow> restore_transaction" where
  "set_link_active t active = t\<lparr>tr_link_active := active\<rparr>"

definition accepts_decision :: "restore_transaction \<Rightarrow> u64 \<Rightarrow> bool" where
  "accepts_decision t generation \<longleftrightarrow> tr_published t \<and> generation = tr_visible_generation t"

definition accepts_pcm :: "restore_transaction \<Rightarrow> u64 \<Rightarrow> u64 \<Rightarrow> bool" where
  "accepts_pcm t generation frame \<longleftrightarrow>
     tr_published t \<and> generation = tr_visible_generation t \<and> tr_visible_boundary t \<le> frame"

datatype transaction_event = Prepare_restore u64 u64 bool | Publish_restore u64 | Set_link bool

fun transaction_step :: "restore_transaction \<Rightarrow> transaction_event \<Rightarrow> restore_transaction" where
  "transaction_step t (Prepare_restore g b running) = fst (transaction_prepare t g b running)"
| "transaction_step t (Publish_restore b) = fst (transaction_publish t b)"
| "transaction_step t (Set_link active) = set_link_active t active"

lemmas transaction_ops = transaction_prepare_def transaction_publish_def set_link_active_def

definition transaction_wf :: "u64 \<Rightarrow> u64 \<Rightarrow> bool \<Rightarrow> restore_transaction \<Rightarrow> bool" where
  "transaction_wf g b host t \<longleftrightarrow>
     tr_host_paused t = host \<and>
     (tr_prepared t \<longrightarrow> g < tr_prepared_generation t \<and> b < tr_prepared_boundary t) \<and>
     (if tr_published t
      then tr_prepared t \<and> tr_states_visible_together t \<and>
        tr_visible_generation t = tr_prepared_generation t \<and> tr_visible_boundary t = tr_prepared_boundary t
      else \<not> tr_states_visible_together t \<and> tr_visible_generation t = g \<and> tr_visible_boundary t = b)"

lemma transaction_wf_step: "transaction_wf g b host t \<Longrightarrow> transaction_wf g b host (transaction_step t e)"
  by (cases e) (auto simp: transaction_ops transaction_wf_def split: if_splits)

interpretation transaction: machine transaction_step "transaction_wf g b host" for g b host
  by unfold_locales (rule transaction_wf_step)



end
