(* ===== verification/Music_Bundle.thy ===== *)
theory Music_Bundle
  imports Save_State
begin

text \<open>
  The bundle of a game state and its music state: \<^verbatim>\<open>src/music_state_bundle_store.h\<close>. Its format, and
  its store, which writes a temporary file, checks it, keeps the previous bundle as a backup while
  it publishes the new one, and restores the backup when that fails.

  A text is its bytes. Decoding can read outside the file: the sum of the three sizes wraps in 64
  bits, and the code then copies slices that do not lie in the payload. That behaviour, undefined
  in the language, is \<open>None\<close> here. As in theory Save_State the answers of the file system are
  arguments; paths are strings, because the store appends to them.
\<close>

unbundle bit_operations_syntax

section \<open>Format\<close>

record music_bundle =
  mb_game_state :: bytes
  mb_hd_state :: bytes
  mb_pack_revision :: bytes

datatype bundle_status =
  Bundle_saved | Bundle_loaded | Bundle_missing | Bundle_invalid | Bundle_unsupported_version
  | Bundle_io_error

datatype bundle_fault = Bundle_fault_none | Bundle_disk_full | Bundle_before_publish

record bundle_result =
  br_status :: bundle_status
  br_bundle :: music_bundle

definition empty_bundle :: music_bundle where
  "empty_bundle = \<lparr>mb_game_state = [], mb_hd_state = [], mb_pack_revision = []\<rparr>"

definition bundle_failure :: "bundle_status \<Rightarrow> bundle_result" where
  "bundle_failure s = \<lparr>br_status = s, br_bundle = empty_bundle\<rparr>"

definition music_state_bundle_version :: u32 where
  "music_state_bundle_version = 1"

definition bundle_magic :: bytes where
  "bundle_magic = [65, 89, 77, 85, 83, 73, 67, 83]"

definition bundle_checksum :: "bytes \<Rightarrow> u32" where
  "bundle_checksum bs = foldl (\<lambda>value byte. (value XOR ucast byte) * 16777619) 2166136261 bs"

definition encode_bundle :: "music_bundle \<Rightarrow> bytes" where
  "encode_bundle b =
     (let payload = mb_game_state b @ mb_hd_state b @ mb_pack_revision b
      in bundle_magic @ append_little_endian 4 music_state_bundle_version @
         append_little_endian 8 (of_nat (length (mb_game_state b)) :: u64) @
         append_little_endian 8 (of_nat (length (mb_hd_state b)) :: u64) @
         append_little_endian 4 (of_nat (length (mb_pack_revision b)) :: u32) @
         append_little_endian 4 (bundle_checksum payload) @ payload)"

text \<open>The copies of the three slices; \<open>None\<close> when one of them leaves the payload.\<close>

definition copy_slices :: "bytes \<Rightarrow> u64 \<Rightarrow> u64 \<Rightarrow> u32 \<Rightarrow> bundle_result option" where
  "copy_slices payload game_size hd_size pack_size =
     (if length payload < unat game_size + unat hd_size + unat pack_size then None
      else
        Some \<lparr>br_status = Bundle_loaded,
              br_bundle =
                \<lparr>mb_game_state = take (unat game_size) payload,
                 mb_hd_state = take (unat hd_size) (drop (unat game_size) payload),
                 mb_pack_revision = take (unat pack_size) (drop (unat game_size + unat hd_size) payload)\<rparr>\<rparr>)"

definition decode_bundle :: "bytes \<Rightarrow> bundle_result option" where
  "decode_bundle bs =
     (if length bs < 36 \<or> take 8 bs \<noteq> bundle_magic then Some (bundle_failure Bundle_invalid)
      else if (read_little_endian 4 bs 8 :: u32) \<noteq> music_state_bundle_version
      then Some (bundle_failure Bundle_unsupported_version)
      else
        (let game_size = read_little_endian 8 bs 12 :: u64;
             hd_size = read_little_endian 8 bs 20 :: u64;
             pack_size = read_little_endian 4 bs 28 :: u32;
             expected = read_little_endian 4 bs 32 :: u32;
             payload = drop 36 bs
         in if game_size + hd_size + ucast pack_size \<noteq> of_nat (length bs - 36)
            then Some (bundle_failure Bundle_invalid)
            else if bundle_checksum payload \<noteq> expected then Some (bundle_failure Bundle_invalid)
            else copy_slices payload game_size hd_size pack_size))"

section \<open>Store\<close>

type_synonym bundle_files = "string \<Rightarrow> bytes option"

record bundle_io =
  bio_create_fails :: bool
  bio_write :: write_outcome
  bio_reread_fails :: bool
  bio_backup_fails :: bool
  bio_publish_fails :: bool
  bio_restore_fails :: bool
  bio_remove_temporary_fails :: bool
  bio_remove_old_backup_fails :: bool
  bio_remove_backup_fails :: bool

definition load_bundle :: "bool \<Rightarrow> bundle_files \<Rightarrow> string \<Rightarrow> bundle_result option" where
  "load_bundle open_fails fs p =
     (case fs p of
        None \<Rightarrow> Some (bundle_failure Bundle_missing)
      | Some bs \<Rightarrow> if open_fails then Some (bundle_failure Bundle_io_error) else decode_bundle bs)"

definition move_file :: "bundle_files \<Rightarrow> string \<Rightarrow> string \<Rightarrow> bundle_files" where
  "move_file fs from_path to_path = fs(to_path := fs from_path, from_path := None)"

definition remove_file :: "bool \<Rightarrow> bundle_files \<Rightarrow> string \<Rightarrow> bundle_files" where
  "remove_file fails fs p = (if fails then fs else fs(p := None))"

definition write_temporary :: "bundle_io \<Rightarrow> bundle_files \<Rightarrow> string \<Rightarrow> bytes \<Rightarrow> bundle_files \<times> bool" where
  "write_temporary io fs temporary bs =
     (case bio_write io of
        Write_ok \<Rightarrow> (fs(temporary := Some bs), True)
      | Open_failed \<Rightarrow> (fs, False)
      | Write_stopped n \<Rightarrow> (fs(temporary := Some (take n bs)), False))"

definition publish_bundle :: "bundle_io \<Rightarrow> bundle_files \<Rightarrow> string \<Rightarrow> bundle_files \<times> bool" where
  "publish_bundle io fs p =
     (let temporary = p @ ''.tmp''; backup = p @ ''.bak'';
          had_previous = fs p \<noteq> None;
          fs1 = remove_file (bio_remove_old_backup_fails io) fs backup
      in if had_previous \<and> bio_backup_fails io
         then (remove_file (bio_remove_temporary_fails io) fs1 temporary, False)
         else
           (let fs2 = (if had_previous then move_file fs1 p backup else fs1)
            in if bio_publish_fails io then
                 (let fs3 = (if had_previous \<and> \<not> bio_restore_fails io then move_file fs2 backup p else fs2)
                  in (remove_file (bio_remove_temporary_fails io) fs3 temporary, False))
               else (remove_file (bio_remove_backup_fails io) (move_file fs2 temporary p) backup, True)))"

definition save_bundle ::
    "bundle_fault \<Rightarrow> bundle_io \<Rightarrow> bundle_files \<Rightarrow> string \<Rightarrow> music_bundle \<Rightarrow> bundle_files \<times> bundle_result" where
  "save_bundle fault io fs p b =
     (if fault = Bundle_disk_full \<or> mb_game_state b = [] \<or> mb_hd_state b = [] \<or> mb_pack_revision b = []
      then (fs, bundle_failure (if fault = Bundle_disk_full then Bundle_io_error else Bundle_invalid))
      else if bio_create_fails io then (fs, bundle_failure Bundle_io_error)
      else
        (let temporary = p @ ''.tmp''
         in case write_temporary io fs temporary (encode_bundle b) of
              (fs1, written) \<Rightarrow>
                if \<not> written \<or> fault = Bundle_before_publish \<or> bio_reread_fails io \<or>
                   map_option br_status (decode_bundle (the (fs1 temporary))) \<noteq> Some Bundle_loaded
                then (remove_file (bio_remove_temporary_fails io) fs1 temporary, bundle_failure Bundle_io_error)
                else
                  (case publish_bundle io fs1 p of
                     (fs2, True) \<Rightarrow> (fs2, \<lparr>br_status = Bundle_saved, br_bundle = b\<rparr>)
                   | (fs2, False) \<Rightarrow> (fs2, bundle_failure Bundle_io_error))))"

section \<open>Properties\<close>

lemma bundle_checksum_eq: "bundle_checksum = checksum"
  by (simp add: bundle_checksum_def checksum_def checksum_step_def [abs_def] fun_eq_iff)

definition bundle_image :: "u64 \<Rightarrow> u64 \<Rightarrow> u32 \<Rightarrow> u32 \<Rightarrow> bytes \<Rightarrow> bytes" where
  "bundle_image g h p c payload =
     bundle_magic @ put_u32 1 @ put_u64 g @ put_u64 h @ put_u32 p @ put_u32 c @ payload"

lemma length_bundle_magic [simp]: "length bundle_magic = 8"
  by (simp add: bundle_magic_def)

lemma decode_bundle_image:
  "decode_bundle (bundle_image g h p c payload) =
     (if g + h + ucast p \<noteq> of_nat (length payload) \<or> bundle_checksum payload \<noteq> c
      then Some (bundle_failure Bundle_invalid) else copy_slices payload g h p)"
proof -
  define e where "e = bundle_image g h p c payload"
  let ?m = "bundle_magic"
  have v: "get_u32 e 8 = 1"
    using le32.get_after [of ?m 1 "put_u64 g @ put_u64 h @ put_u32 p @ put_u32 c @ payload"]
    by (simp add: e_def bundle_image_def)
  have g: "get_u64 e 12 = g"
    using le64.get_after [of "?m @ put_u32 1" g "put_u64 h @ put_u32 p @ put_u32 c @ payload"]
    by (simp add: e_def bundle_image_def)
  have h: "get_u64 e 20 = h"
    using le64.get_after [of "?m @ put_u32 1 @ put_u64 g" h "put_u32 p @ put_u32 c @ payload"]
    by (simp add: e_def bundle_image_def)
  have p: "get_u32 e 28 = p"
    using le32.get_after [of "?m @ put_u32 1 @ put_u64 g @ put_u64 h" p "put_u32 c @ payload"]
    by (simp add: e_def bundle_image_def)
  have c: "get_u32 e 32 = c"
    using le32.get_after [of "?m @ put_u32 1 @ put_u64 g @ put_u64 h @ put_u32 p" c payload]
    by (simp add: e_def bundle_image_def)
  have e: "length e = 36 + length payload" "drop 36 e = payload" "take 8 e = bundle_magic"
    by (simp_all add: e_def bundle_image_def)
  show ?thesis
    unfolding e_def [symmetric]
    by (simp add: decode_bundle_def read_little_endian_def music_state_bundle_version_def v g h p c e Let_def)
qed

definition bundle_fits :: "music_bundle \<Rightarrow> bool" where
  "bundle_fits b \<longleftrightarrow>
     length (mb_game_state b) + length (mb_hd_state b) + length (mb_pack_revision b) < 2 ^ 64 \<and>
     length (mb_pack_revision b) < 2 ^ 32"

lemma decode_encode_bundle:
  assumes "bundle_fits b"
  shows "decode_bundle (encode_bundle b) = Some \<lparr>br_status = Bundle_loaded, br_bundle = b\<rparr>"
proof -
  let ?g = "mb_game_state b" and ?h = "mb_hd_state b" and ?p = "mb_pack_revision b"
  have image: "encode_bundle b =
      bundle_image (of_nat (length ?g)) (of_nat (length ?h)) (of_nat (length ?p))
        (bundle_checksum (?g @ ?h @ ?p)) (?g @ ?h @ ?p)"
    by (simp add: encode_bundle_def bundle_image_def append_little_endian_put
        music_state_bundle_version_def Let_def)
  have sizes: "unat (of_nat (length ?g) :: u64) = length ?g" "unat (of_nat (length ?h) :: u64) = length ?h"
      "unat (of_nat (length ?p) :: u32) = length ?p"
    using assms by (auto simp: bundle_fits_def intro!: unat_of_nat_small)
  have "unat (ucast (of_nat (length ?p) :: u32) :: u64) = unat (of_nat (length ?p) :: u64)"
    using assms by (simp add: sizes(3) bundle_fits_def unat_of_nat_small)
  then have "(ucast (of_nat (length ?p) :: u32) :: u64) = of_nat (length ?p)"
    by (simp add: word_unat_eq_iff)
  then show ?thesis
    unfolding image decode_bundle_image
    by (simp add: copy_slices_def sizes)
qed

lemma suffixes_differ [simp]:
  "p @ ''.tmp'' \<noteq> p" "p @ ''.bak'' \<noteq> p" "p @ ''.tmp'' \<noteq> p @ ''.bak''" "p @ ''.bak'' \<noteq> p @ ''.tmp''"
  "p \<noteq> p @ ''.tmp''" "p \<noteq> p @ ''.bak''"
  by simp_all

lemma publish_bundle_True:
  assumes "publish_bundle io fs p = (fs', True)"
  shows "fs' p = fs (p @ ''.tmp'')"
  using assms
  by (auto simp: publish_bundle_def Let_def remove_file_def move_file_def split: if_splits)

lemma publish_bundle_False:
  assumes "publish_bundle io fs p = (fs', False)"
  shows "fs' p = fs p \<or> fs' p = None \<and> bio_publish_fails io \<and> bio_restore_fails io \<and> fs' (p @ ''.bak'') = fs p"
  using assms
  by (auto simp: publish_bundle_def Let_def remove_file_def move_file_def split: if_splits)

lemma publish_bundle_frame:
  assumes "publish_bundle io fs p = (fs', ok)" and "q \<noteq> p" "q \<noteq> p @ ''.tmp''" "q \<noteq> p @ ''.bak''"
  shows "fs' q = fs q"
  using assms
  by (auto simp: publish_bundle_def Let_def remove_file_def move_file_def split: if_splits)

lemma write_temporary_frame:
  assumes "write_temporary io fs temporary bs = (fs', written)"
  shows "q \<noteq> temporary \<longrightarrow> fs' q = fs q" and "written \<longrightarrow> fs' temporary = Some bs"
  using assms by (auto simp: write_temporary_def split: write_outcome.splits)

text \<open>
  C28: Saving a bundle never loses one. Whatever the file system answers, a save that reports success
  leaves a file that loads as exactly the bundle given; a save that fails leaves the previous file
  as it was, or, when publishing failed and restoring the backup failed too, leaves the previous
  content in the backup file. No file other than the bundle, its temporary and its backup changes.
\<close>

theorem bundle_never_lost:
  assumes "save_bundle fault io fs p b = (fs', r)" and "bundle_fits b"
  shows "(br_status r = Bundle_saved \<longrightarrow>
       load_bundle False fs' p = Some \<lparr>br_status = Bundle_loaded, br_bundle = b\<rparr>) \<and>
    (br_status r \<noteq> Bundle_saved \<longrightarrow>
       fs' p = fs p \<or>
       fs' p = None \<and> bio_publish_fails io \<and> bio_restore_fails io \<and> fs' (p @ ''.bak'') = fs p) \<and>
    (\<forall>q. q \<noteq> p \<and> q \<noteq> p @ ''.tmp'' \<and> q \<noteq> p @ ''.bak'' \<longrightarrow> fs' q = fs q)"
proof (cases "fault = Bundle_disk_full \<or> mb_game_state b = [] \<or> mb_hd_state b = [] \<or>
    mb_pack_revision b = [] \<or> bio_create_fails io")
  case True
  with assms(1) show ?thesis
    by (auto simp: save_bundle_def bundle_failure_def split: if_splits)
next
  case False
  let ?t = "p @ ''.tmp''"
  obtain fs1 written where w: "write_temporary io fs ?t (encode_bundle b) = (fs1, written)"
    by fastforce
  have keep: "fs1 q = fs q" if "q \<noteq> ?t" for q
    using write_temporary_frame(1) [OF w] that by blast
  show ?thesis
  proof (cases "\<not> written \<or> fault = Bundle_before_publish \<or> bio_reread_fails io \<or>
      map_option br_status (decode_bundle (the (fs1 ?t))) \<noteq> Some Bundle_loaded")
    case True
    then have "fs' = remove_file (bio_remove_temporary_fails io) fs1 ?t" "r = bundle_failure Bundle_io_error"
      using assms(1) False w by (auto simp: save_bundle_def Let_def)
    then show ?thesis using keep by (auto simp: remove_file_def bundle_failure_def)
  next
    case written: False
    obtain ok where published: "publish_bundle io fs1 p = (fs', ok)"
      and r: "r = (if ok then \<lparr>br_status = Bundle_saved, br_bundle = b\<rparr> else bundle_failure Bundle_io_error)"
      using assms(1) False w written
      by (auto simp: save_bundle_def Let_def split: prod.splits bool.splits)
    have temp: "fs1 ?t = Some (encode_bundle b)" using write_temporary_frame(2) [OF w] written by blast
    have frame: "fs' q = fs q" if "q \<noteq> p" "q \<noteq> ?t" "q \<noteq> p @ ''.bak''" for q
      using publish_bundle_frame [OF published that] keep [of q] that by simp
    show ?thesis
    proof (cases ok)
      case True
      then have "fs' p = Some (encode_bundle b)"
        using publish_bundle_True [of io fs1 p fs'] published temp by simp
      then have "load_bundle False fs' p = Some \<lparr>br_status = Bundle_loaded, br_bundle = b\<rparr>"
        by (simp add: load_bundle_def decode_encode_bundle [OF assms(2)])
      with True r frame show ?thesis by simp
    next
      case False
      then show ?thesis
        using publish_bundle_False [of io fs1 p fs'] published r frame keep [of p]
        by (auto simp: bundle_failure_def)
    qed
  qed
qed

definition working_bundle_io :: bundle_io where
  "working_bundle_io =
     \<lparr>bio_create_fails = False, bio_write = Write_ok, bio_reread_fails = False, bio_backup_fails = False,
      bio_publish_fails = False, bio_restore_fails = False, bio_remove_temporary_fails = False,
      bio_remove_old_backup_fails = False, bio_remove_backup_fails = False\<rparr>"

definition example_bundle :: music_bundle where
  "example_bundle = \<lparr>mb_game_state = [1, 2], mb_hd_state = [3], mb_pack_revision = [114, 49]\<rparr>"

lemma example_bundle_fits: "bundle_fits example_bundle"
  by (simp add: bundle_fits_def example_bundle_def)

theorem bundle_never_lost_witness:
  "\<exists>fs' r. save_bundle Bundle_fault_none working_bundle_io Map.empty ''b'' example_bundle = (fs', r) \<and>
     br_status r = Bundle_saved \<and>
     load_bundle False fs' ''b'' = Some \<lparr>br_status = Bundle_loaded, br_bundle = example_bundle\<rparr>"
proof -
  obtain fs' r where saved:
      "save_bundle Bundle_fault_none working_bundle_io Map.empty ''b'' example_bundle = (fs', r)"
    by fastforce
  moreover have "br_status r = Bundle_saved"
    using saved decode_encode_bundle [OF example_bundle_fits]
    by (auto simp: save_bundle_def working_bundle_io_def write_temporary_def publish_bundle_def Let_def
        remove_file_def move_file_def example_bundle_def)
  ultimately show ?thesis
    using bundle_never_lost [OF saved example_bundle_fits] by blast
qed

text \<open>
  C39: The length check of a bundle can be passed by sizes that wrap. There is a file of 36 bytes,
  with the right magic, version and checksum, whose three sizes add up to the empty payload only
  modulo \<open>2 ^ 64\<close>: every check accepts it and the copies then read outside the file.
\<close>

theorem bundle_sizes_wrap:
  "\<exists>bs. length bs = 36 \<and> decode_bundle bs = None"
proof (intro exI conjI)
  let ?bs = "bundle_image (- 1) 1 0 (bundle_checksum []) []"
  show "length ?bs = 36" by (simp add: bundle_image_def)
  show "decode_bundle ?bs = None"
    by (simp add: decode_bundle_image copy_slices_def)
qed

end
