(* ===== verification/Music_Restore.thy ===== *)
theory Music_Restore
  imports Prelude
begin

text \<open>
  The decisions around a music restore: what is admitted (\<^verbatim>\<open>src/music_restore_preparation.h\<close>,
  \<^verbatim>\<open>src/music_restore_budget.h\<close>), how an attempt is classified
  (\<^verbatim>\<open>src/music_restore_classification.h\<close>), where the music continues
  (\<^verbatim>\<open>src/music_restore_position.h\<close>) and what happens when it fails
  (\<^verbatim>\<open>src/music_restore_recovery.h\<close>). All numbers are 64-bit words with wrap-around.
\<close>

section \<open>Preparation\<close>

definition restore_preparation_limit_ms :: u64 where "restore_preparation_limit_ms = 5000"
definition restore_state_limit_bytes :: u64 where "restore_state_limit_bytes = 67108864"
definition restore_increment_limit_bytes :: u64 where "restore_increment_limit_bytes = 134217728"

record preparation_input =
  pi_game_valid :: bool
  pi_core_compatible :: bool
  pi_pack_valid :: bool
  pi_assets_valid :: bool
  pi_schema_valid :: bool
  pi_ranges_valid :: bool
  pi_elapsed_ms :: u64
  pi_game_state_bytes :: u64
  pi_hd_state_bytes :: u64
  pi_resource_increment_bytes :: u64

datatype preparation_status = Preparation_prepared | Preparation_rejected

definition sum_exceeds :: "u64 \<Rightarrow> u64 \<Rightarrow> u64 \<Rightarrow> bool" where
  "sum_exceeds left right limit \<longleftrightarrow> limit < left \<or> limit - left < right"

definition prepare :: "preparation_input \<Rightarrow> preparation_status \<times> string" where
  "prepare i =
     (if \<not> pi_game_valid i \<or> \<not> pi_core_compatible i then (Preparation_rejected, ''restore_game_incompatible'')
      else if \<not> pi_pack_valid i \<or> \<not> pi_assets_valid i \<or> \<not> pi_schema_valid i \<or> \<not> pi_ranges_valid i
      then (Preparation_rejected, ''restore_hd_invalid'')
      else if restore_preparation_limit_ms < pi_elapsed_ms i
      then (Preparation_rejected, ''restore_preparation_timeout'')
      else if sum_exceeds (pi_game_state_bytes i) (pi_hd_state_bytes i) restore_state_limit_bytes
      then (Preparation_rejected, ''restore_state_limit'')
      else if sum_exceeds (pi_game_state_bytes i + pi_hd_state_bytes i) (pi_resource_increment_bytes i)
                restore_increment_limit_bytes
      then (Preparation_rejected, ''restore_memory_limit'')
      else (Preparation_prepared, []))"

definition prepare_from_audio_thread :: "preparation_input \<Rightarrow> preparation_status \<times> string" where
  "prepare_from_audio_thread i = (Preparation_rejected, ''restore_preparation_on_audio_thread'')"

section \<open>Budget\<close>

record budget_input =
  bi_preparation_elapsed_ms :: u64
  bi_transaction_elapsed_ms :: u64
  bi_game_state_bytes :: u64
  bi_hd_state_bytes :: u64
  bi_resource_increment_bytes :: u64
  bi_recoverable :: bool

datatype budget_status = Within_limits | Budget_rejected | Budget_rolled_back | Budget_fatal_closed

definition budget_timeout :: "bool \<Rightarrow> string \<Rightarrow> budget_status \<times> string" where
  "budget_timeout recoverable reason =
     (if recoverable then (Budget_rolled_back, reason)
      else (Budget_fatal_closed, ''restore_failed_state_unknown''))"

definition evaluate_budget :: "budget_input \<Rightarrow> budget_status \<times> string" where
  "evaluate_budget i =
     (if sum_exceeds (bi_game_state_bytes i) (bi_hd_state_bytes i) (64 * (1024 * 1024))
      then (Budget_rejected, ''restore_state_limit'')
      else if sum_exceeds (bi_game_state_bytes i + bi_hd_state_bytes i) (bi_resource_increment_bytes i)
                (128 * (1024 * 1024))
      then (Budget_rejected, ''restore_memory_limit'')
      else if 5000 < bi_preparation_elapsed_ms i
      then budget_timeout (bi_recoverable i) ''restore_preparation_timeout''
      else if 2000 < bi_transaction_elapsed_ms i
      then budget_timeout (bi_recoverable i) ''restore_transaction_timeout''
      else (Within_limits, []))"

section \<open>Classification\<close>

record restore_input =
  ri_game_valid :: bool
  ri_core_compatible :: bool
  ri_pack_required :: bool
  ri_pack_valid :: bool
  ri_hd_present :: bool
  ri_hd_complete :: bool
  ri_hd_compatible :: bool
  ri_apply_failed :: bool
  ri_session_active :: bool

datatype restore_outcome = Outcome_prepared | Outcome_fresh_hd | Outcome_rejected | Outcome_rollback

record classification =
  cl_outcome :: restore_outcome
  cl_original_audio :: bool
  cl_session_preserved :: bool
  cl_rollback_required :: bool
  cl_diagnostic :: string

definition classify :: "restore_input \<Rightarrow> classification" where
  "classify i =
     (if \<not> ri_game_valid i \<or> \<not> ri_core_compatible i
      then \<lparr>cl_outcome = Outcome_rejected, cl_original_audio = False, cl_session_preserved = ri_session_active i,
            cl_rollback_required = False, cl_diagnostic = ''restore_game_incompatible''\<rparr>
      else if ri_pack_required i \<and> \<not> ri_pack_valid i
      then \<lparr>cl_outcome = Outcome_rejected, cl_original_audio = False, cl_session_preserved = ri_session_active i,
            cl_rollback_required = False, cl_diagnostic = ''restore_pack_invalid''\<rparr>
      else if \<not> ri_hd_present i \<or> \<not> ri_hd_complete i \<or> \<not> ri_hd_compatible i
      then \<lparr>cl_outcome = Outcome_fresh_hd, cl_original_audio = True, cl_session_preserved = ri_session_active i,
            cl_rollback_required = False, cl_diagnostic = ''restore_hd_fresh''\<rparr>
      else if ri_apply_failed i
      then \<lparr>cl_outcome = Outcome_rollback, cl_original_audio = False, cl_session_preserved = ri_session_active i,
            cl_rollback_required = True, cl_diagnostic = ''restore_apply_failed''\<rparr>
      else \<lparr>cl_outcome = Outcome_prepared, cl_original_audio = False, cl_session_preserved = ri_session_active i,
            cl_rollback_required = False, cl_diagnostic = []\<rparr>)"

section \<open>Position\<close>

datatype music_node = Node_intro | Node_loop | Node_link

record position_input =
  pos_old_generation :: u64
  pos_new_generation :: u64
  pos_occurrence :: u64
  pos_appearance :: u64
  pos_visit :: u64
  pos_iteration :: u64
  pos_node :: music_node
  pos_source_cursor :: u64
  pos_envelope_cursor :: u64
  pos_source_rate :: u64
  pos_output_rate :: u64
  pos_host_paused :: bool

record restored_position =
  rp_generation :: u64
  rp_occurrence :: u64
  rp_appearance :: u64
  rp_visit :: u64
  rp_iteration :: u64
  rp_node :: music_node
  rp_output_cursor :: u64
  rp_envelope_cursor :: u64
  rp_rational_numerator :: u64
  rp_rational_denominator :: u64
  rp_conversion_error_samples :: u64
  rp_host_paused :: bool
  rp_new_visit :: bool
  rp_new_trigger :: bool

definition restore_position :: "position_input \<Rightarrow> restored_position option" where
  "restore_position i =
     (if pos_new_generation i \<le> pos_old_generation i \<or> pos_occurrence i = 0 \<or> pos_appearance i = 0 \<or>
         pos_source_rate i = 0 \<or> pos_output_rate i = 0 \<or>
         (- 1) div pos_output_rate i < pos_source_cursor i
      then None
      else
        (let numerator = pos_source_cursor i * pos_output_rate i;
             quotient = numerator div pos_source_rate i;
             remainder = numerator mod pos_source_rate i;
             rounded = quotient + (if (pos_source_rate i + 1) div 2 \<le> remainder then 1 else 0)
         in Some \<lparr>rp_generation = pos_new_generation i, rp_occurrence = pos_occurrence i,
                  rp_appearance = pos_appearance i, rp_visit = pos_visit i, rp_iteration = pos_iteration i,
                  rp_node = pos_node i, rp_output_cursor = rounded, rp_envelope_cursor = pos_envelope_cursor i,
                  rp_rational_numerator = numerator, rp_rational_denominator = pos_source_rate i,
                  rp_conversion_error_samples = (if remainder = 0 then 0 else 1),
                  rp_host_paused = pos_host_paused i, rp_new_visit = False, rp_new_trigger = False\<rparr>))"

section \<open>Recovery\<close>

datatype failure_stage = Stage_preparation | Stage_application | Stage_backend_drain

datatype recovery_status = Rolled_back | Fatal_closed

record restore_recovery =
  rr_visible_generation :: u64
  rr_session_closed :: bool
  rr_deliveries_enabled :: bool
  rr_provisional_pcm_published :: bool

definition make_recovery :: "u64 \<Rightarrow> restore_recovery" where
  "make_recovery generation =
     \<lparr>rr_visible_generation = generation, rr_session_closed = False, rr_deliveries_enabled = True,
      rr_provisional_pcm_published = False\<rparr>"

definition recovery_fail ::
    "restore_recovery \<Rightarrow> failure_stage \<Rightarrow> bool \<Rightarrow> restore_recovery \<times> recovery_status \<times> failure_stage \<times> string" where
  "recovery_fail r stage rollback_verified =
     (let r = r\<lparr>rr_deliveries_enabled := False, rr_provisional_pcm_published := False\<rparr>
      in if rollback_verified \<and> rr_visible_generation r \<noteq> 0
         then (r\<lparr>rr_deliveries_enabled := True\<rparr>, Rolled_back, stage, ''restore_failed_rolled_back'')
         else (r\<lparr>rr_visible_generation := 0, rr_session_closed := True\<rparr>, Fatal_closed, stage,
               ''restore_failed_state_unknown''))"

section \<open>Properties\<close>

lemma sum_exceeds_iff: "sum_exceeds left right limit \<longleftrightarrow> unat limit < unat left + unat right"
proof (cases "limit < left")
  case True
  then show ?thesis by (auto simp: sum_exceeds_def word_less_nat_alt)
next
  case False
  then have "unat (limit - left) = unat limit - unat left" "unat left \<le> unat limit"
    by (simp_all add: unat_minus_le not_less word_le_nat_alt)
  with False show ?thesis by (auto simp: sum_exceeds_def word_less_nat_alt)
qed

lemma state_sum:
  assumes "\<not> sum_exceeds left right limit"
  shows "unat (left + right) = unat left + unat right"
proof (rule unat_plus_no_wrap)
  show "unat left + unat right < 2 ^ LENGTH(64)"
    using assms unat_u64_bound [of limit] by (simp add: sum_exceeds_iff)
qed

text \<open>
  A restore is admitted exactly within its limits. The preparation succeeds if and only if the
  game, the core, the pack, the assets, the schema and the ranges are valid, at most 5000 ms
  passed, and the true sums of the sizes, not their wrapped values, are at most 64 MiB of state
  and 128 MiB in all; the budget of the transaction accepts the same sizes and times, with at most
  2000 ms for the transaction.
\<close>

theorem restore_admitted_iff_within_limits:
  "(fst (prepare i) = Preparation_prepared \<longleftrightarrow>
      pi_game_valid i \<and> pi_core_compatible i \<and> pi_pack_valid i \<and> pi_assets_valid i \<and>
      pi_schema_valid i \<and> pi_ranges_valid i \<and> unat (pi_elapsed_ms i) \<le> 5000 \<and>
      unat (pi_game_state_bytes i) + unat (pi_hd_state_bytes i) \<le> 67108864 \<and>
      unat (pi_game_state_bytes i) + unat (pi_hd_state_bytes i) + unat (pi_resource_increment_bytes i)
        \<le> 134217728) \<and>
   (fst (evaluate_budget b) = Within_limits \<longleftrightarrow>
      unat (bi_preparation_elapsed_ms b) \<le> 5000 \<and> unat (bi_transaction_elapsed_ms b) \<le> 2000 \<and>
      unat (bi_game_state_bytes b) + unat (bi_hd_state_bytes b) \<le> 67108864 \<and>
      unat (bi_game_state_bytes b) + unat (bi_hd_state_bytes b) + unat (bi_resource_increment_bytes b)
        \<le> 134217728)"
proof -
  have "fst (prepare i) = Preparation_prepared \<longleftrightarrow>
      pi_game_valid i \<and> pi_core_compatible i \<and> pi_pack_valid i \<and> pi_assets_valid i \<and>
      pi_schema_valid i \<and> pi_ranges_valid i \<and> unat (pi_elapsed_ms i) \<le> 5000 \<and>
      \<not> sum_exceeds (pi_game_state_bytes i) (pi_hd_state_bytes i) restore_state_limit_bytes \<and>
      \<not> sum_exceeds (pi_game_state_bytes i + pi_hd_state_bytes i) (pi_resource_increment_bytes i)
          restore_increment_limit_bytes"
    by (auto simp: prepare_def restore_preparation_limit_ms_def word_less_nat_alt not_less)
  moreover have "fst (evaluate_budget b) = Within_limits \<longleftrightarrow>
      \<not> sum_exceeds (bi_game_state_bytes b) (bi_hd_state_bytes b) (64 * (1024 * 1024)) \<and>
      \<not> sum_exceeds (bi_game_state_bytes b + bi_hd_state_bytes b) (bi_resource_increment_bytes b)
          (128 * (1024 * 1024)) \<and>
      unat (bi_preparation_elapsed_ms b) \<le> 5000 \<and> unat (bi_transaction_elapsed_ms b) \<le> 2000"
    by (auto simp: evaluate_budget_def budget_timeout_def word_less_nat_alt not_less)
  ultimately show ?thesis
    using state_sum [of "pi_game_state_bytes i" "pi_hd_state_bytes i" restore_state_limit_bytes]
      state_sum [of "bi_game_state_bytes b" "bi_hd_state_bytes b" "64 * (1024 * 1024)"]
    by (auto simp: sum_exceeds_iff restore_state_limit_bytes_def restore_increment_limit_bytes_def not_less)
qed

lemma unat_max_u64: "unat (- 1 :: u64) = 2 ^ 64 - 1"
  by (simp add: unsigned_minus_1_eq_mask mask_eq_exp_minus_1)

lemma rounding_nearest:
  fixes n r :: nat
  assumes "0 < r" and "q = n div r + (if (r + 1) div 2 \<le> n mod r then 1 else 0)"
  shows "2 * \<bar>int q * int r - int n\<bar> \<le> int r"
proof -
  have n: "int n = int (n div r) * int r + int (n mod r)"
    using div_mult_mod_eq [of n r] by (simp flip: of_nat_mult of_nat_add)
  have less: "n mod r < r" using assms(1) by simp
  show ?thesis
  proof (cases "(r + 1) div 2 \<le> n mod r")
    case True
    then have "int q * int r - int n = int r - int (n mod r)"
      using assms(2) n by (simp add: algebra_simps)
    with True less show ?thesis by simp
  next
    case False
    then have "int q * int r - int n = - int (n mod r)"
      using assms(2) n by simp
    with False show ?thesis by simp
  qed
qed

lemma restore_position_numerator:
  assumes "restore_position i = Some p"
  shows "unat (rp_rational_numerator p) = unat (pos_source_cursor i) * unat (pos_output_rate i) \<and>
    unat (pos_source_rate i) \<noteq> 0"
proof -
  have rate: "pos_output_rate i \<noteq> 0" "pos_source_rate i \<noteq> 0"
    and cursor: "\<not> (- 1) div pos_output_rate i < pos_source_cursor i"
    and p: "rp_rational_numerator p = pos_source_cursor i * pos_output_rate i"
    using assms by (auto simp: restore_position_def Let_def split: if_splits)
  have "unat (pos_source_cursor i) \<le> (2 ^ 64 - 1) div unat (pos_output_rate i)"
    using cursor by (simp add: not_less word_le_nat_alt unat_div unat_max_u64)
  then have "unat (pos_source_cursor i) * unat (pos_output_rate i) \<le> 2 ^ 64 - 1"
    by (metis div_times_less_eq_dividend le_trans mult_le_mono1)
  then show ?thesis
    using p rate by (simp add: unat_word_ariths unat_eq_zero)
qed

text \<open>
  The restored position is the nearest output sample. For every source rate below the largest
  64-bit number, the output cursor differs from the exact rational position by at most half a
  sample, the reported conversion error is zero exactly when the position is exact, and the
  occurrence, visit, iteration and node are those of the saved position in the new generation.
\<close>

theorem restored_position_nearest:
  assumes "restore_position i = Some p" and "pos_source_rate i \<noteq> - 1"
  shows "2 * \<bar>int (unat (rp_output_cursor p)) * int (unat (pos_source_rate i)) -
        int (unat (pos_source_cursor i) * unat (pos_output_rate i))\<bar> \<le> int (unat (pos_source_rate i)) \<and>
    (rp_conversion_error_samples p = 0 \<longleftrightarrow>
       unat (pos_source_rate i) dvd unat (pos_source_cursor i) * unat (pos_output_rate i)) \<and>
    rp_generation p = pos_new_generation i \<and> rp_occurrence p = pos_occurrence i \<and>
    rp_visit p = pos_visit i \<and> rp_iteration p = pos_iteration i \<and> rp_node p = pos_node i \<and>
    \<not> rp_new_visit p \<and> \<not> rp_new_trigger p"
proof -
  let ?r = "unat (pos_source_rate i)" and ?n = "unat (pos_source_cursor i) * unat (pos_output_rate i)"
  have num: "unat (rp_rational_numerator p) = ?n" and pos: "0 < ?r"
    using restore_position_numerator [OF assms(1)] by auto
  have p: "rp_rational_numerator p = pos_source_cursor i * pos_output_rate i"
    "rp_output_cursor p = rp_rational_numerator p div pos_source_rate i +
       (if (pos_source_rate i + 1) div 2 \<le> rp_rational_numerator p mod pos_source_rate i then 1 else 0)"
    "rp_conversion_error_samples p = (if rp_rational_numerator p mod pos_source_rate i = 0 then 0 else 1)"
    and copied: "rp_generation p = pos_new_generation i \<and> rp_occurrence p = pos_occurrence i \<and>
      rp_visit p = pos_visit i \<and> rp_iteration p = pos_iteration i \<and> rp_node p = pos_node i \<and>
      \<not> rp_new_visit p \<and> \<not> rp_new_trigger p"
    using assms(1) unfolding restore_position_def Let_def
    by (auto split: if_splits del: mod_0_imp_dvd)
  have "?r \<noteq> 2 ^ 64 - 1"
    using assms(2) by (metis unat_max_u64 word_unat_eq_iff)
  then have suc: "unat (pos_source_rate i + 1) = ?r + 1"
    using unat_u64_bound [of "pos_source_rate i"] by (simp add: unat_word_ariths)
  have up: "(pos_source_rate i + 1) div 2 \<le> rp_rational_numerator p mod pos_source_rate i \<longleftrightarrow>
      (?r + 1) div 2 \<le> ?n mod ?r"
    by (simp add: word_le_nat_alt unat_div unat_mod suc num)
  have "?n div ?r + 1 < 2 ^ 64" if "(?r + 1) div 2 \<le> ?n mod ?r"
  proof -
    have "2 \<le> ?r"
      using that pos by (cases "?r = 1") auto
    then have "?n div ?r \<le> ?n div 2" by (intro div_le_mono2) auto
    moreover have "?n < 2 ^ 64"
      using num unat_u64_bound [of "rp_rational_numerator p"] by simp
    ultimately show ?thesis by simp
  qed
  then have "unat (rp_output_cursor p) = ?n div ?r + (if (?r + 1) div 2 \<le> ?n mod ?r then 1 else 0)"
    using p(2) up num by (auto simp: unat_plus_no_wrap unat_div)
  then have "2 * \<bar>int (unat (rp_output_cursor p)) * int ?r - int ?n\<bar> \<le> int ?r"
    using pos by (rule rounding_nearest [rotated])
  moreover have "rp_conversion_error_samples p = 0 \<longleftrightarrow> ?r dvd ?n"
    using p(3) num by (simp add: word_unat_eq_iff unat_mod dvd_eq_mod_eq_0)
  ultimately show ?thesis using copied by simp
qed

definition example_position :: position_input where
  "example_position =
     \<lparr>pos_old_generation = 1, pos_new_generation = 2, pos_occurrence = 1, pos_appearance = 1, pos_visit = 4,
      pos_iteration = 0, pos_node = Node_loop, pos_source_cursor = 1000, pos_envelope_cursor = 0,
      pos_source_rate = 44100, pos_output_rate = 48000, pos_host_paused = False\<rparr>"

theorem restored_position_nearest_witness:
  "\<exists>p. restore_position example_position = Some p \<and> rp_output_cursor p = 1088 \<and> rp_visit p = 4"
proof -
  have "map_option rp_output_cursor (restore_position example_position) = Some 1088"
    by code_simp
  then obtain p where p: "restore_position example_position = Some p" "rp_output_cursor p = 1088" by auto
  have "pos_source_rate example_position \<noteq> - 1" by (simp add: example_position_def)
  from restored_position_nearest [OF p(1) this] have "rp_visit p = 4"
    by (simp add: example_position_def)
  with p show ?thesis by blast
qed

text \<open>
  With the largest source rate the rounding threshold wraps to zero. A source at rate
  \<open>2 ^ 64 - 1\<close> and cursor 0 is restored at output sample 1, although its exact position is 0 and the
  reported conversion error is 0.
\<close>

theorem restored_position_rate_wraps:
  "\<exists>i p. pos_source_rate i = - 1 \<and> pos_source_cursor i = 0 \<and> restore_position i = Some p \<and>
     rp_output_cursor p = 1 \<and> rp_conversion_error_samples p = 0"
proof -
  let ?i = "example_position\<lparr>pos_source_cursor := 0, pos_source_rate := - 1\<rparr>"
  have "map_option (\<lambda>p. (rp_output_cursor p, rp_conversion_error_samples p)) (restore_position ?i) = Some (1, 0)"
    by code_simp
  then show ?thesis
    by (intro exI [of _ ?i]) auto
qed

subsection \<open>Recovery\<close>

fun recovery_step :: "restore_recovery \<Rightarrow> failure_stage \<times> bool \<Rightarrow> restore_recovery" where
  "recovery_step r (stage, verified) = fst (recovery_fail r stage verified)"

definition recovery_wf :: "restore_recovery \<Rightarrow> bool" where
  "recovery_wf r \<longleftrightarrow> \<not> rr_provisional_pcm_published r \<and>
     (rr_session_closed r \<longrightarrow> rr_visible_generation r = 0 \<and> \<not> rr_deliveries_enabled r)"

lemma recovery_wf_step: "recovery_wf r \<Longrightarrow> recovery_wf (recovery_step r e)"
  by (cases e) (auto simp: recovery_fail_def recovery_wf_def Let_def)

interpretation recovery_machine: machine recovery_step recovery_wf
  by unfold_locales (rule recovery_wf_step)

interpretation recovery_closed: absorbing_machine recovery_step
    "\<lambda>r. rr_session_closed r \<and> rr_visible_generation r = 0 \<and> \<not> rr_deliveries_enabled r"
proof
  fix r :: restore_recovery and e
  assume "rr_session_closed r \<and> rr_visible_generation r = 0 \<and> \<not> rr_deliveries_enabled r"
  then show "rr_session_closed (recovery_step r e) \<and> rr_visible_generation (recovery_step r e) = 0 \<and>
      \<not> rr_deliveries_enabled (recovery_step r e)"
    by (cases e) (auto simp: recovery_fail_def Let_def)
qed

lemma closed_session_stays_closed:
  assumes "snd (recovery_fail r stage verified) = (Fatal_closed, stage, reason)"
    and "r' = exec recovery_step (fst (recovery_fail r stage verified)) es"
  shows "rr_session_closed r' \<and> rr_visible_generation r' = 0 \<and> \<not> rr_deliveries_enabled r'"
  unfolding assms(2)
  by (rule recovery_closed.absorbing_run)
    (use assms(1) in \<open>auto simp: recovery_fail_def Let_def split: if_splits\<close>)

end
