(* ===== verification/Replay_Progress.thy ===== *)
theory Replay_Progress
  imports Prelude
begin

text \<open>
  The progress that a replay publishes to its observer:
  \<^verbatim>\<open>tools/audio_qa/replay_progress.{h,cpp}\<close>.

  Every method is a function from a publisher to the publisher after it, the events it hands to
  the observer and the value it returns; a null observer is the flag \<open>pr_observed\<close>. The main
  result describes everything an observer can ever see: whatever methods are called, in whatever
  order, the events form a prefix of one well-shaped trace.
\<close>

section \<open>State\<close>

datatype progress_kind =
  Request_accepted | Replay_started | Input_consumed | Frame_completed | Replay_finished

record progress_event =
  pe_kind :: progress_kind
  pe_total_inputs :: u32
  pe_inputs_consumed :: u32
  pe_frames_completed :: u32
  pe_recording_frame :: u32
  pe_engine_frame :: u64

datatype progress_state = Progress_pending | Progress_accepted | Progress_started | Progress_finished

record replay_progress =
  pr_total_inputs :: u32
  pr_observed :: bool
  pr_state :: progress_state
  pr_inputs_consumed :: u32
  pr_frames_completed :: u32
  pr_last_engine_frame :: u64

definition make_progress :: "u32 \<Rightarrow> bool \<Rightarrow> replay_progress" where
  "make_progress total_inputs observed =
     \<lparr>pr_total_inputs = total_inputs, pr_observed = observed, pr_state = Progress_pending,
      pr_inputs_consumed = 0, pr_frames_completed = 0, pr_last_engine_frame = 0\<rparr>"

definition progress_emit :: "replay_progress \<Rightarrow> progress_kind \<Rightarrow> u32 \<Rightarrow> u64 \<Rightarrow> progress_event list" where
  "progress_emit p kind recording_frame engine_frame =
     [\<lparr>pe_kind = kind, pe_total_inputs = pr_total_inputs p, pe_inputs_consumed = pr_inputs_consumed p,
       pe_frames_completed = pr_frames_completed p, pe_recording_frame = recording_frame,
       pe_engine_frame = engine_frame\<rparr>]"

section \<open>Operations\<close>

type_synonym progress_result = "replay_progress \<times> progress_event list \<times> bool"

definition publish_acceptance :: "replay_progress \<Rightarrow> progress_result" where
  "publish_acceptance p =
     (if \<not> pr_observed p \<or> pr_total_inputs p = 0 \<or> pr_state p \<noteq> Progress_pending then (p, [], False)
      else (let p' = p\<lparr>pr_state := Progress_accepted\<rparr>
            in (p', progress_emit p' Request_accepted 0 0, True)))"

definition publish_start :: "replay_progress \<Rightarrow> progress_result" where
  "publish_start p =
     (if pr_state p \<noteq> Progress_accepted then (p, [], False)
      else (let p' = p\<lparr>pr_state := Progress_started\<rparr>
            in (p', progress_emit p' Replay_started 0 0, True)))"

definition publish_input :: "replay_progress \<Rightarrow> u32 \<Rightarrow> progress_result" where
  "publish_input p recording_frame =
     (if pr_state p \<noteq> Progress_started \<or> recording_frame \<noteq> pr_inputs_consumed p \<or>
         pr_total_inputs p \<le> pr_inputs_consumed p \<or> pr_inputs_consumed p \<noteq> pr_frames_completed p
      then (p, [], False)
      else (let p' = p\<lparr>pr_inputs_consumed := pr_inputs_consumed p + 1\<rparr>
            in (p', progress_emit p' Input_consumed recording_frame 0, True)))"

definition publish_frame :: "replay_progress \<Rightarrow> u32 \<Rightarrow> u64 \<Rightarrow> progress_result" where
  "publish_frame p recording_frame engine_frame =
     (if pr_state p \<noteq> Progress_started \<or> recording_frame \<noteq> pr_frames_completed p \<or>
         pr_inputs_consumed p \<noteq> pr_frames_completed p + 1
      then (p, [], False)
      else (let p' = p\<lparr>pr_frames_completed := pr_frames_completed p + 1,
                       pr_last_engine_frame := engine_frame\<rparr>
            in (p', progress_emit p' Frame_completed recording_frame engine_frame, True)))"

definition publish_finish :: "replay_progress \<Rightarrow> progress_result" where
  "publish_finish p =
     (if pr_state p \<noteq> Progress_started \<or> pr_inputs_consumed p \<noteq> pr_total_inputs p \<or>
         pr_frames_completed p \<noteq> pr_total_inputs p
      then (p, [], False)
      else (let p' = p\<lparr>pr_state := Progress_finished\<rparr>
            in (p', progress_emit p' Replay_finished (pr_total_inputs p) 0, True)))"

definition progress_was_accepted :: "replay_progress \<Rightarrow> bool" where
  "progress_was_accepted p \<longleftrightarrow> pr_state p \<noteq> Progress_pending"

definition progress_was_started :: "replay_progress \<Rightarrow> bool" where
  "progress_was_started p \<longleftrightarrow> pr_state p = Progress_started \<or> pr_state p = Progress_finished"

definition progress_was_finished :: "replay_progress \<Rightarrow> bool" where
  "progress_was_finished p \<longleftrightarrow> pr_state p = Progress_finished"

lemmas progress_ops = publish_acceptance_def publish_start_def publish_input_def publish_frame_def
  publish_finish_def progress_emit_def

section \<open>Runs\<close>

datatype progress_call =
  Publish_acceptance | Publish_start | Publish_input u32 | Publish_frame u32 u64 | Publish_finish

fun progress_react :: "replay_progress \<Rightarrow> progress_call \<Rightarrow> progress_result" where
  "progress_react p Publish_acceptance = publish_acceptance p"
| "progress_react p Publish_start = publish_start p"
| "progress_react p (Publish_input frame) = publish_input p frame"
| "progress_react p (Publish_frame frame engine_frame) = publish_frame p frame engine_frame"
| "progress_react p Publish_finish = publish_finish p"

definition progress_step :: "replay_progress \<Rightarrow> progress_call \<Rightarrow> replay_progress" where
  "progress_step p c = fst (progress_react p c)"

fun progress_log :: "replay_progress \<Rightarrow> progress_call list \<Rightarrow> progress_event list" where
  "progress_log p [] = []"
| "progress_log p (c # cs) = fst (snd (progress_react p c)) @ progress_log (progress_step p c) cs"

section \<open>The trace an observer sees\<close>

text \<open>
  The abstract account of a replay of \<open>n\<close> inputs in which the frames with the Engine indices
  \<open>engine_frames\<close> are complete: the acceptance, the start, one pair of events per complete frame,
  the input of a frame in production, and the end.
\<close>

definition trace_event :: "u32 \<Rightarrow> progress_kind \<Rightarrow> nat \<Rightarrow> nat \<Rightarrow> nat \<Rightarrow> u64 \<Rightarrow> progress_event" where
  "trace_event n kind inputs frames frame engine_frame =
     \<lparr>pe_kind = kind, pe_total_inputs = n, pe_inputs_consumed = of_nat inputs,
      pe_frames_completed = of_nat frames, pe_recording_frame = of_nat frame,
      pe_engine_frame = engine_frame\<rparr>"

definition frame_events :: "u32 \<Rightarrow> u64 list \<Rightarrow> progress_event list" where
  "frame_events n engine_frames =
     concat (map (\<lambda>(i, g). [trace_event n Input_consumed (Suc i) i i 0,
                           trace_event n Frame_completed (Suc i) (Suc i) i g]) (enumerate 0 engine_frames))"

fun replay_trace :: "u32 \<Rightarrow> progress_state \<Rightarrow> u64 list \<Rightarrow> bool \<Rightarrow> progress_event list" where
  "replay_trace n Progress_pending engine_frames producing = []"
| "replay_trace n Progress_accepted engine_frames producing = [trace_event n Request_accepted 0 0 0 0]"
| "replay_trace n Progress_started engine_frames producing =
     [trace_event n Request_accepted 0 0 0 0, trace_event n Replay_started 0 0 0 0] @
     frame_events n engine_frames @
     (if producing
      then [trace_event n Input_consumed (Suc (length engine_frames)) (length engine_frames)
              (length engine_frames) 0] else [])"
| "replay_trace n Progress_finished engine_frames producing =
     [trace_event n Request_accepted 0 0 0 0, trace_event n Replay_started 0 0 0 0] @
     frame_events n engine_frames @
     [trace_event n Replay_finished (length engine_frames) (length engine_frames)
        (length engine_frames) 0]"

lemma frame_events_snoc:
  "frame_events n (gs @ [g]) =
     frame_events n gs @
     [trace_event n Input_consumed (Suc (length gs)) (length gs) (length gs) 0,
      trace_event n Frame_completed (Suc (length gs)) (Suc (length gs)) (length gs) g]"
  by (simp add: frame_events_def enumerate_append_eq)

text \<open>The publisher and what it has emitted so far are described by the frames that are complete.\<close>

definition progress_describes :: "replay_progress \<Rightarrow> u64 list \<Rightarrow> bool \<Rightarrow> bool" where
  "progress_describes p gs producing \<longleftrightarrow>
     pr_frames_completed p = of_nat (length gs) \<and>
     pr_inputs_consumed p = of_nat (length gs + (if producing then 1 else 0)) \<and>
     length gs + (if producing then 1 else 0) \<le> unat (pr_total_inputs p) \<and>
     (pr_state p \<in> {Progress_pending, Progress_accepted} \<longrightarrow> gs = [] \<and> \<not> producing) \<and>
     (pr_state p = Progress_finished \<longrightarrow> length gs = unat (pr_total_inputs p) \<and> \<not> producing) \<and>
     (gs \<noteq> [] \<longrightarrow> pr_last_engine_frame p = last gs)"

lemma progress_describes_make: "progress_describes (make_progress n observed) [] False"
  by (simp add: progress_describes_def make_progress_def)

text \<open>Counts below the total are not confused by the wrap-around of the counters.\<close>

lemma count_eq_iff:
  assumes "k \<le> unat (n :: u32)" and "m \<le> unat n"
  shows "(of_nat k :: u32) = of_nat m \<longleftrightarrow> k = m"
  using assms unat_u32_bound [of n] by (simp add: word_unat_eq_iff unat_of_nat_small)

lemma count_eq_total:
  assumes "k \<le> unat (n :: u32)"
  shows "of_nat k = n \<longleftrightarrow> k = unat n"
  using count_eq_iff [OF assms, of "unat n"] by simp

lemma progress_call_keeps_trace:
  assumes "progress_describes p gs producing" and n: "pr_total_inputs p = n"
  shows "\<exists>gs' producing'. progress_describes (progress_step p c) gs' producing' \<and>
    replay_trace n (pr_state p) gs producing @ fst (snd (progress_react p c)) =
      replay_trace n (pr_state (progress_step p c)) gs' producing'"
proof -
  let ?k = "length gs"
  note describes = assms(1) [unfolded progress_describes_def]
  have silent: ?thesis if "progress_react p c = (p, [], ok)" for ok
    using that assms by (auto simp: progress_step_def)
  show ?thesis
  proof (cases c)
    case Publish_acceptance
    then show ?thesis using describes n silent
      by (auto simp: progress_step_def progress_ops progress_describes_def Let_def trace_event_def
          intro!: exI [of _ gs] exI [of _ producing] split: if_splits)
  next
    case Publish_start
    then show ?thesis using describes n silent
      by (auto simp: progress_step_def progress_ops progress_describes_def Let_def trace_event_def
          frame_events_def intro!: exI [of _ gs] exI [of _ producing] split: if_splits)
  next
    case (Publish_input frame)
    show ?thesis
    proof (cases "snd (snd (publish_input p frame))")
      case False
      with Publish_input silent show ?thesis by (auto simp: publish_input_def Let_def split: if_splits)
    next
      case True
      then have st: "pr_state p = Progress_started" "frame = pr_inputs_consumed p"
        "pr_inputs_consumed p = pr_frames_completed p" "\<not> pr_total_inputs p \<le> pr_inputs_consumed p"
        by (auto simp: publish_input_def Let_def split: if_splits)
      have "\<not> producing"
        using st(3) describes count_eq_iff [of "?k + 1" n ?k] n by (auto split: if_splits)
      moreover have "?k < unat n"
        using st(4) describes n \<open>\<not> producing\<close> unat_u32_bound [of n]
        by (simp add: word_le_nat_alt unat_of_nat)
      ultimately show ?thesis using describes n st Publish_input
        by (intro exI [of _ gs] exI [of _ True])
           (auto simp: progress_step_def progress_ops progress_describes_def Let_def trace_event_def)
    qed
  next
    case (Publish_frame frame engine_frame)
    show ?thesis
    proof (cases "snd (snd (publish_frame p frame engine_frame))")
      case False
      with Publish_frame silent show ?thesis by (auto simp: publish_frame_def Let_def split: if_splits)
    next
      case True
      then have st: "pr_state p = Progress_started" "frame = pr_frames_completed p"
        "pr_inputs_consumed p = pr_frames_completed p + 1"
        by (auto simp: publish_frame_def Let_def split: if_splits)
      have "producing"
        using st(3) describes by (auto split: if_splits)
      then show ?thesis using describes n st Publish_frame
        by (intro exI [of _ "gs @ [engine_frame]"] exI [of _ False])
           (auto simp: progress_step_def progress_ops progress_describes_def Let_def trace_event_def
             frame_events_snoc)
    qed
  next
    case Publish_finish
    show ?thesis
    proof (cases "snd (snd (publish_finish p))")
      case False
      with Publish_finish silent show ?thesis by (auto simp: publish_finish_def Let_def split: if_splits)
    next
      case True
      then have st: "pr_state p = Progress_started" "pr_inputs_consumed p = n" "pr_frames_completed p = n"
        using n by (auto simp: publish_finish_def Let_def split: if_splits)
      have full: "?k = unat n"
        using st(3) describes n count_eq_total [of ?k n] by (auto split: if_splits)
      then show ?thesis using describes n st Publish_finish
        by (intro exI [of _ gs] exI [of _ False])
           (auto simp: progress_step_def progress_ops progress_describes_def Let_def trace_event_def
             split: if_splits)
    qed
  qed
qed

lemma progress_total_step: "pr_total_inputs (progress_step p c) = pr_total_inputs p"
  by (cases c) (auto simp: progress_step_def progress_ops Let_def)

lemma progress_total_run: "pr_total_inputs (exec progress_step p cs) = pr_total_inputs p"
  by (induction cs arbitrary: p) (auto simp: progress_total_step)

lemma progress_run_trace:
  assumes "progress_describes p gs producing" and "pr_total_inputs p = n"
  shows "\<exists>gs' producing'. progress_describes (exec progress_step p cs) gs' producing' \<and>
    replay_trace n (pr_state p) gs producing @ progress_log p cs =
      replay_trace n (pr_state (exec progress_step p cs)) gs' producing'"
  using assms
proof (induction cs arbitrary: p gs producing)
  case (Cons c cs)
  obtain gs1 producing1 where step: "progress_describes (progress_step p c) gs1 producing1"
    "replay_trace n (pr_state p) gs producing @ fst (snd (progress_react p c)) =
       replay_trace n (pr_state (progress_step p c)) gs1 producing1"
    using progress_call_keeps_trace [OF Cons.prems] by blast
  with Cons.IH [OF step(1)] Cons.prems(2) show ?case
    by (simp add: progress_total_step flip: append_assoc)
qed auto

text \<open>
  C23: What an observer of a replay sees is always a prefix of one well-shaped trace. Whatever methods
  are called on a new publisher, in whatever order and with whatever arguments, there are Engine
  frame indices such that the events are the acceptance, the start, then for each complete frame its
  input and its completion in order, possibly one more input, and the end only after all frames; the
  counters in the events and in the publisher are the ones of that trace and never exceed the total.
\<close>

theorem progress_trace_well_shaped:
  "\<exists>engine_frames producing.
     progress_log (make_progress n observed) cs =
       replay_trace n (pr_state (exec progress_step (make_progress n observed) cs)) engine_frames producing \<and>
     unat (pr_frames_completed (exec progress_step (make_progress n observed) cs)) = length engine_frames \<and>
     length engine_frames + (if producing then 1 else 0) \<le> unat n \<and>
     (progress_was_finished (exec progress_step (make_progress n observed) cs) \<longrightarrow>
        length engine_frames = unat n)"
proof -
  obtain gs producing where "progress_describes (exec progress_step (make_progress n observed) cs) gs producing"
    and trace: "progress_log (make_progress n observed) cs =
      replay_trace n (pr_state (exec progress_step (make_progress n observed) cs)) gs producing"
    using progress_run_trace [OF progress_describes_make [of n observed], of n cs]
    by (auto simp: make_progress_def)
  moreover have "pr_total_inputs (exec progress_step (make_progress n observed) cs) = n"
    by (simp add: progress_total_run) (simp add: make_progress_def)
  ultimately show ?thesis
    using unat_u32_bound [of n]
    by (intro exI [of _ gs] exI [of _ producing])
       (auto simp: progress_describes_def make_progress_def unat_of_nat_small progress_was_finished_def
         split: if_splits)
qed

theorem progress_trace_well_shaped_witness:
  "unat (pr_frames_completed (exec progress_step (make_progress 1 True)
     [Publish_acceptance, Publish_start, Publish_input 0, Publish_frame 0 7, Publish_finish])) = 1"
proof -
  let ?cs = "[Publish_acceptance, Publish_start, Publish_input 0, Publish_frame 0 7, Publish_finish]"
  have "progress_was_finished (exec progress_step (make_progress 1 True) ?cs)"
    by (simp add: progress_was_finished_def progress_step_def progress_ops make_progress_def Let_def)
  with progress_trace_well_shaped [of 1 True ?cs] show ?thesis by auto
qed

end
