(* ===== verification/Replay_Loop.thy ===== *)
theory Replay_Loop
  imports Replay_Progress Recording
begin

text \<open>
  The linear production of a take: \<^verbatim>\<open>tools/audio_qa/recording_replay_loop.{h,cpp}\<close> and the
  publication of the initial state that permits it, \<^verbatim>\<open>initial_state_publication.{h,cpp}\<close>.

  The loop drives the Engine through two function pointers; a pointer is an option, and the context
  they work on is a value of any type that they return changed. The publication, the inputs and the
  progress that the loop refers to are fields of its state.
\<close>

section \<open>Publication of the initial state\<close>

datatype publication_status = Publication_pending | Publication_acknowledged | Publication_failed

datatype publication_error =
  Publication_no_error | Invalid_state | Incomplete_state | Consumer_unavailable | Consumer_rejected

record publication =
  pub_status :: publication_status
  pub_error :: publication_error

definition make_publication :: publication where
  "make_publication = \<lparr>pub_status = Publication_pending, pub_error = Publication_no_error\<rparr>"

definition refuse_publication :: "publication \<Rightarrow> publication_error \<Rightarrow> publication \<times> bool" where
  "refuse_publication p e = (p\<lparr>pub_status := Publication_failed, pub_error := e\<rparr>, False)"

text \<open>
  The three judgements on the state (well formed, restored, completely described) and the answer of
  the consumer, \<open>None\<close> for a null one, are arguments.
\<close>

definition publish_initial_state ::
    "publication \<Rightarrow> bool \<Rightarrow> bool \<Rightarrow> bool \<Rightarrow> bool option \<Rightarrow> publication \<times> bool" where
  "publish_initial_state p formed restored described consumer =
     (if pub_status p = Publication_acknowledged then (p, True)
      else if pub_status p = Publication_failed then (p, False)
      else if \<not> formed then refuse_publication p Invalid_state
      else if \<not> restored \<or> \<not> described then refuse_publication p Incomplete_state
      else
        (case consumer of
           None \<Rightarrow> refuse_publication p Consumer_unavailable
         | Some False \<Rightarrow> refuse_publication p Consumer_rejected
         | Some True \<Rightarrow> (p\<lparr>pub_status := Publication_acknowledged\<rparr>, True)))"

definition input_permitted :: "publication \<Rightarrow> bool" where
  "input_permitted p \<longleftrightarrow> pub_status p = Publication_acknowledged"

definition publication_next_input :: "publication \<Rightarrow> input_source \<Rightarrow> input_source \<times> frame_input option" where
  "publication_next_input p s = (if \<not> input_permitted p then (s, None) else next_input s)"

section \<open>The loop\<close>

record operation_result =
  or_succeeded :: bool
  or_engine_frame :: u64
  or_code :: string
  or_detail :: string

record 'c frame_operations =
  op_set_input :: "('c \<Rightarrow> u32 \<Rightarrow> u16 \<Rightarrow> 'c \<times> operation_result) option"
  op_step :: "('c \<Rightarrow> 'c \<times> operation_result) option"

datatype replay_frame_error =
  Frame_none | Initial_state_not_acknowledged | Operations_unavailable | Invalid_input_position
  | Input_exhausted | Set_input_failed | Step_failed | Loop_failed | Progress_failed

record frame_result =
  fr_error :: replay_frame_error
  fr_input :: "frame_input option"
  fr_engine_frame :: u64
  fr_operation_code :: string
  fr_operation_detail :: string

record replay_loop =
  lp_publication :: publication
  lp_inputs :: input_source
  lp_progress :: "replay_progress option"
  lp_frames_completed :: u32
  lp_failed :: bool

definition make_loop :: "publication \<Rightarrow> input_source \<Rightarrow> replay_progress option \<Rightarrow> replay_loop" where
  "make_loop p inputs progress =
     \<lparr>lp_publication = p, lp_inputs = inputs, lp_progress = progress, lp_frames_completed = 0,
      lp_failed = False\<rparr>"

definition frame_outcome :: "replay_frame_error \<Rightarrow> frame_input option \<Rightarrow> u64 \<Rightarrow> string \<Rightarrow> string \<Rightarrow> frame_result" where
  "frame_outcome e i engine_frame code detail =
     \<lparr>fr_error = e, fr_input = i, fr_engine_frame = engine_frame, fr_operation_code = code,
      fr_operation_detail = detail\<rparr>"

text \<open>A call on the progress publisher, when there is one.\<close>

definition loop_publish :: "(replay_progress \<Rightarrow> progress_result) \<Rightarrow> replay_loop \<Rightarrow> replay_loop \<times> progress_event list \<times> bool" where
  "loop_publish f l =
     (case lp_progress l of
        None \<Rightarrow> (l, [], True)
      | Some p \<Rightarrow> (case f p of (p', es, ok) \<Rightarrow> (l\<lparr>lp_progress := Some p'\<rparr>, es, ok)))"

definition start_unless_started :: "replay_progress \<Rightarrow> progress_result" where
  "start_unless_started p = (if progress_was_started p then (p, [], True) else publish_start p)"

definition finish_unless_finished :: "replay_progress \<Rightarrow> progress_result" where
  "finish_unless_finished p = (if progress_was_finished p then (p, [], True) else publish_finish p)"

type_synonym 'c loop_result = "replay_loop \<times> 'c \<times> progress_event list \<times> frame_result"

text \<open>The production of one frame: the input is known, its position is right.\<close>

definition produce_frame ::
    "('c \<Rightarrow> u32 \<Rightarrow> u16 \<Rightarrow> 'c \<times> operation_result) \<Rightarrow> ('c \<Rightarrow> 'c \<times> operation_result) \<Rightarrow>
     replay_loop \<Rightarrow> 'c \<Rightarrow> progress_event list \<Rightarrow> frame_input \<Rightarrow> 'c loop_result" where
  "produce_frame set_input step l c log i =
     (case set_input c (fi_frame i) (fi_buttons i) of
        (c1, s) \<Rightarrow>
          if \<not> or_succeeded s
          then (l\<lparr>lp_failed := True\<rparr>, c1, log,
                frame_outcome Set_input_failed (Some i) (or_engine_frame s) (or_code s) (or_detail s))
          else
            (case step c1 of
               (c2, t) \<Rightarrow>
                 if \<not> or_succeeded t
                 then (l\<lparr>lp_failed := True\<rparr>, c2, log,
                       frame_outcome Step_failed (Some i) (or_engine_frame t) (or_code t) (or_detail t))
                 else
                   (case loop_publish (\<lambda>p. publish_frame p (fi_frame i) (or_engine_frame t))
                           (l\<lparr>lp_frames_completed := lp_frames_completed l + 1\<rparr>) of
                      (l', es, ok) \<Rightarrow>
                        if \<not> ok
                        then (l'\<lparr>lp_failed := True\<rparr>, c2, log @ es,
                              frame_outcome Progress_failed (Some i) (or_engine_frame t)
                                ''frame_progress_publication_failed'' [])
                        else (l', c2, log @ es,
                              frame_outcome Frame_none (Some i) (or_engine_frame t) (or_code t) (or_detail t)))))"

definition execute_next :: "'c frame_operations \<Rightarrow> replay_loop \<Rightarrow> 'c \<Rightarrow> 'c loop_result" where
  "execute_next ops l c =
     (if lp_failed l
      then (l, c, [], frame_outcome Loop_failed None 0 ''loop_failed'' ''a previous frame operation failed'')
      else if \<not> input_permitted (lp_publication l)
      then (l, c, [], frame_outcome Initial_state_not_acknowledged None 0 ''initial_state_not_acknowledged'' [])
      else
        (case (op_set_input ops, op_step ops) of
           (Some set_input, Some step) \<Rightarrow>
             (if src_cursor (lp_inputs l) \<noteq> lp_frames_completed l
              then (l\<lparr>lp_failed := True\<rparr>, c, [],
                    frame_outcome Invalid_input_position None 0 ''input_position_mismatch'' [])
              else
                (case loop_publish start_unless_started l of
                   (l1, es1, ok1) \<Rightarrow>
                     if \<not> ok1
                     then (l1\<lparr>lp_failed := True\<rparr>, c, es1,
                           frame_outcome Progress_failed None 0 ''replay_start_publication_failed'' [])
                     else
                       (case publication_next_input (lp_publication l1) (lp_inputs l1) of
                          (s, None) \<Rightarrow>
                            (case loop_publish finish_unless_finished (l1\<lparr>lp_inputs := s\<rparr>) of
                               (l2, es2, ok2) \<Rightarrow>
                                 if \<not> ok2
                                 then (l2\<lparr>lp_failed := True\<rparr>, c, es1 @ es2,
                                       frame_outcome Progress_failed None 0 ''replay_finish_publication_failed'' [])
                                 else (l2, c, es1 @ es2,
                                       frame_outcome Input_exhausted None 0 ''input_exhausted'' []))
                        | (s, Some i) \<Rightarrow>
                            if fi_frame i \<noteq> lp_frames_completed l1
                            then (l1\<lparr>lp_inputs := s, lp_failed := True\<rparr>, c, es1,
                                  frame_outcome Invalid_input_position (Some i) 0 ''input_frame_mismatch'' [])
                            else
                              (case loop_publish (\<lambda>p. publish_input p (fi_frame i)) (l1\<lparr>lp_inputs := s\<rparr>) of
                                 (l2, es2, ok2) \<Rightarrow>
                                   if \<not> ok2
                                   then (l2\<lparr>lp_failed := True\<rparr>, c, es1 @ es2,
                                         frame_outcome Progress_failed (Some i) 0
                                           ''input_progress_publication_failed'' [])
                                   else produce_frame set_input step l2 c (es1 @ es2) i))))
         | _ \<Rightarrow> (l\<lparr>lp_failed := True\<rparr>, c, [],
                 frame_outcome Operations_unavailable None 0 ''frame_operations_unavailable'' [])))"

section \<open>Properties\<close>

subsection \<open>What one call does\<close>

definition progress_at :: "u32 \<Rightarrow> u32 \<Rightarrow> replay_progress \<Rightarrow> bool" where
  "progress_at n k p \<longleftrightarrow>
     pr_total_inputs p = n \<and> pr_inputs_consumed p = k \<and> pr_frames_completed p = k \<and>
     (pr_state p = Progress_finished \<longrightarrow> k = n)"

definition progress_in_frame :: "u32 \<Rightarrow> u32 \<Rightarrow> replay_progress \<Rightarrow> bool" where
  "progress_in_frame n k p \<longleftrightarrow>
     pr_total_inputs p = n \<and> pr_inputs_consumed p = k + 1 \<and> pr_frames_completed p = k \<and>
     pr_state p = Progress_started"

lemma progress_at_start:
  "start_unless_started p = (p', es, ok) \<Longrightarrow> progress_at n k p \<Longrightarrow> progress_at n k p'"
  by (auto simp: start_unless_started_def progress_ops progress_at_def Let_def split: if_splits)

lemma progress_at_finish:
  "finish_unless_finished p = (p', es, ok) \<Longrightarrow> progress_at n k p \<Longrightarrow> progress_at n k p'"
  by (auto simp: finish_unless_finished_def progress_ops progress_at_def Let_def split: if_splits)

lemma progress_at_input:
  "publish_input p k = (p', es, True) \<Longrightarrow> progress_at n k p \<Longrightarrow> progress_in_frame n k p'"
  by (auto simp: progress_ops progress_at_def progress_in_frame_def Let_def split: if_splits)

lemma progress_at_frame:
  "publish_frame p k g = (p', es, ok) \<Longrightarrow> progress_in_frame n k p \<Longrightarrow> ok \<and> progress_at n (k + 1) p'"
  by (auto simp: progress_ops progress_at_def progress_in_frame_def Let_def split: if_splits)

definition loop_wf :: "u32 \<Rightarrow> replay_loop \<Rightarrow> bool" where
  "loop_wf n l \<longleftrightarrow>
     src_frame_count (lp_inputs l) = n \<and> lp_frames_completed l \<le> n \<and>
     (\<not> lp_failed l \<longrightarrow>
        src_cursor (lp_inputs l) = lp_frames_completed l \<and>
        pred_option (progress_at n (lp_frames_completed l)) (lp_progress l))"

lemma loop_publish_frame_rule:
  assumes "loop_publish f l = (l', es, ok)"
  shows "l' = l\<lparr>lp_progress := lp_progress l'\<rparr>"
    and "lp_progress l = None \<Longrightarrow> ok \<and> lp_progress l' = None \<and> es = []"
    and "lp_progress l = Some p \<Longrightarrow> \<exists>p'. f p = (p', es, ok) \<and> lp_progress l' = Some p'"
  using assms by (auto simp: loop_publish_def split: option.splits prod.splits)

lemma loop_publish_keeps:
  assumes "loop_publish f l = (l', es, ok)" and "pred_option P (lp_progress l)"
    and "\<And>p p' es. f p = (p', es, ok) \<Longrightarrow> P p \<Longrightarrow> Q p'"
  shows "pred_option Q (lp_progress l')"
  using assms by (auto simp: loop_publish_def split: option.splits prod.splits)

definition recorded_input :: "input_source \<Rightarrow> u32 \<Rightarrow> frame_input" where
  "recorded_input s k = \<lparr>fi_frame = k, fi_buttons = get_u16 (src_bytes s) (unat k * 2)\<rparr>"

text \<open>The effect of one frame on the context: the input is set and the Engine steps once.\<close>

definition drive :: "'c frame_operations \<Rightarrow> 'c \<Rightarrow> frame_input \<Rightarrow> 'c" where
  "drive ops c i =
     (case (op_set_input ops, op_step ops) of
        (Some set_input, Some step) \<Rightarrow> fst (step (fst (set_input c (fi_frame i) (fi_buttons i))))
      | _ \<Rightarrow> c)"

definition drive_input :: "'c frame_operations \<Rightarrow> 'c \<Rightarrow> frame_input \<Rightarrow> 'c \<times> bool" where
  "drive_input ops c i =
     (case op_set_input ops of
        None \<Rightarrow> (c, False)
      | Some set_input \<Rightarrow> (case set_input c (fi_frame i) (fi_buttons i) of (c1, s) \<Rightarrow> (c1, or_succeeded s)))"

definition drive_ok :: "'c frame_operations \<Rightarrow> 'c \<Rightarrow> frame_input \<Rightarrow> bool" where
  "drive_ok ops c i \<longleftrightarrow>
     snd (drive_input ops c i) \<and> (case op_step ops of None \<Rightarrow> False
       | Some step \<Rightarrow> or_succeeded (snd (step (fst (drive_input ops c i)))))"

text \<open>A call that fails leaves the context alone or stops at the operation that failed.\<close>

definition drive_failed :: "'c frame_operations \<Rightarrow> 'c \<Rightarrow> frame_input \<Rightarrow> 'c \<Rightarrow> bool" where
  "drive_failed ops c i c' \<longleftrightarrow>
     c' = c \<or> drive_input ops c i = (c', False) \<or> (c' = drive ops c i \<and> \<not> drive_ok ops c i)"

lemma next_input_recorded:
  "next_input s =
     (if src_frame_count s \<le> src_cursor s then (s, None)
      else (s\<lparr>src_cursor := src_cursor s + 1\<rparr>, Some (recorded_input s (src_cursor s))))"
  by (simp add: next_input_def exhausted_def recorded_input_def next_input_buttons [simplified] Let_def)

lemma produce_frame_result:
  assumes "produce_frame set_input step l c log i = (l', c', es, r)"
    and "op_set_input ops = Some set_input" and "op_step ops = Some step"
    and "pred_option (progress_in_frame n (fi_frame i)) (lp_progress l)"
    and "lp_frames_completed l = fi_frame i"
  shows "fr_error r \<in> {Frame_none, Set_input_failed, Step_failed} \<and>
    lp_inputs l' = lp_inputs l \<and>
    (if fr_error r = Frame_none
     then lp_failed l' = lp_failed l \<and> lp_frames_completed l' = fi_frame i + 1 \<and>
       pred_option (progress_at n (fi_frame i + 1)) (lp_progress l') \<and>
       fr_input r = Some i \<and> c' = drive ops c i \<and> drive_ok ops c i
     else lp_failed l' \<and> lp_frames_completed l' = fi_frame i \<and> drive_failed ops c i c')"
proof -
  obtain c1 s where set: "set_input c (fi_frame i) (fi_buttons i) = (c1, s)" by fastforce
  obtain c2 u where step: "step c1 = (c2, u)" by fastforce
  obtain l1 es1 ok where publish: "loop_publish (\<lambda>p. publish_frame p (fi_frame i) (or_engine_frame u))
      (l\<lparr>lp_frames_completed := lp_frames_completed l + 1\<rparr>) = (l1, es1, ok)"
    using prod_cases3 by blast
  have at: "pred_option (progress_at n (fi_frame i + 1)) (lp_progress l1)"
    using assms(4)
    by (intro loop_publish_keeps [where P = "progress_in_frame n (fi_frame i)", OF publish])
       (auto dest: progress_at_frame)
  have ok: "ok"
    using publish assms(4)
    by (auto simp: loop_publish_def split: option.splits prod.splits dest: progress_at_frame)
  have "l1 = l\<lparr>lp_frames_completed := fi_frame i + 1, lp_progress := lp_progress l1\<rparr>"
    using loop_publish_frame_rule(1) [OF publish] assms(5) by simp
  then have "lp_inputs l1 = lp_inputs l \<and> lp_failed l1 = lp_failed l \<and> lp_frames_completed l1 = fi_frame i + 1"
    by (metis (no_types, lifting) replay_loop.select_convs replay_loop.simps replay_loop.surjective)
  with assms(1,2,3,5) set step publish at ok show ?thesis
    by (auto simp: produce_frame_def frame_outcome_def drive_def
        drive_ok_def drive_input_def drive_failed_def split: if_splits)
qed

lemma loop_publish_fields:
  assumes "loop_publish f l = (l', es, ok)"
  shows "lp_publication l' = lp_publication l \<and> lp_inputs l' = lp_inputs l \<and>
    lp_frames_completed l' = lp_frames_completed l \<and> lp_failed l' = lp_failed l"
  using assms by (auto simp: loop_publish_def split: option.splits prod.splits)

lemma execute_next_result:
  assumes "execute_next ops l c = (l', c', es, r)" and "loop_wf n l"
  shows "loop_wf n l' \<and> src_bytes (lp_inputs l') = src_bytes (lp_inputs l) \<and>
    (if fr_error r = Frame_none
     then \<not> lp_failed l \<and> \<not> lp_failed l' \<and> lp_frames_completed l < n \<and>
       lp_frames_completed l' = lp_frames_completed l + 1 \<and>
       fr_input r = Some (recorded_input (lp_inputs l) (lp_frames_completed l)) \<and>
       c' = drive ops c (recorded_input (lp_inputs l) (lp_frames_completed l)) \<and>
       drive_ok ops c (recorded_input (lp_inputs l) (lp_frames_completed l))
     else lp_frames_completed l' = lp_frames_completed l \<and> (\<not> lp_failed l' \<longrightarrow> c' = c) \<and>
       drive_failed ops c (recorded_input (lp_inputs l) (lp_frames_completed l)) c') \<and>
    (lp_failed l \<longrightarrow> l' = l \<and> c' = c \<and> fr_error r = Loop_failed)"
proof (cases "lp_failed l \<or> \<not> input_permitted (lp_publication l) \<or> op_set_input ops = None \<or> op_step ops = None")
  case True
  with assms show ?thesis
    by (auto simp: execute_next_def loop_wf_def frame_outcome_def drive_failed_def split: option.splits if_splits)
next
  case False
  then obtain set_input step where ops: "op_set_input ops = Some set_input" "op_step ops = Some step"
    and live: "\<not> lp_failed l" "input_permitted (lp_publication l)"
    by auto
  let ?k = "lp_frames_completed l"
  have wf: "src_frame_count (lp_inputs l) = n" "?k \<le> n" "src_cursor (lp_inputs l) = ?k"
    "pred_option (progress_at n ?k) (lp_progress l)"
    using assms(2) live(1) by (auto simp: loop_wf_def)
  obtain l1 es1 ok1 where start: "loop_publish start_unless_started l = (l1, es1, ok1)"
    using prod_cases3 by blast
  note l1 = loop_publish_fields [OF start]
  have at1: "pred_option (progress_at n ?k) (lp_progress l1)"
    using loop_publish_keeps [OF start wf(4)] progress_at_start by blast
  show ?thesis
  proof (cases "ok1")
    case not_started: False
    with assms(1) ops live wf start l1 show ?thesis
      by (auto simp: execute_next_def loop_wf_def frame_outcome_def drive_failed_def)
  next
    case started: True
    show ?thesis
    proof (cases "n \<le> ?k")
      case True
      let ?l1 = "l1\<lparr>lp_inputs := lp_inputs l1\<rparr>"
      obtain l2 es2 ok2 where finish: "loop_publish finish_unless_finished ?l1 = (l2, es2, ok2)"
        using prod_cases3 by blast
      have "pred_option (progress_at n ?k) (lp_progress l2)"
        using loop_publish_keeps [OF finish, of "progress_at n ?k" "progress_at n ?k"] at1 progress_at_finish
        by simp
      with assms(1) ops live wf start l1 started True finish loop_publish_fields [OF finish] show ?thesis
        by (auto simp: execute_next_def loop_wf_def frame_outcome_def drive_failed_def publication_next_input_def
            next_input_recorded split: if_splits)
    next
      case False
      let ?i = "recorded_input (lp_inputs l) ?k"
      let ?s = "(lp_inputs l)\<lparr>src_cursor := ?k + 1\<rparr>"
      have i: "fi_frame ?i = ?k" by (simp add: recorded_input_def)
      obtain l2 es2 ok2 where input: "loop_publish (\<lambda>p. publish_input p ?k) (l1\<lparr>lp_inputs := ?s\<rparr>) = (l2, es2, ok2)"
        using prod_cases3 by blast
      note l2 = loop_publish_fields [OF input]
      have read: "publication_next_input (lp_publication l1) (lp_inputs l1) = (?s, Some ?i)"
        using False live wf l1 by (simp add: publication_next_input_def next_input_recorded)
      have less: "?k < n" using False by simp
      show ?thesis
      proof (cases ok2)
        case False
        with assms(1) ops live wf start l1 started read input i l2 show ?thesis
          by (auto simp: execute_next_def loop_wf_def frame_outcome_def drive_failed_def)
      next
        case True
        have "pred_option (progress_in_frame n ?k) (lp_progress l2)"
          using at1 True
          by (intro loop_publish_keeps [where P = "progress_at n ?k", OF input])
             (auto dest: progress_at_input)
        moreover have produce: "produce_frame set_input step l2 c (es1 @ es2) ?i = (l', c', es, r)"
          using assms(1) ops live wf start l1 started read input i True
          by (simp add: execute_next_def)
        ultimately have "fr_error r \<in> {Frame_none, Set_input_failed, Step_failed} \<and>
            lp_inputs l' = lp_inputs l2 \<and>
            (if fr_error r = Frame_none
             then lp_failed l' = lp_failed l2 \<and> lp_frames_completed l' = ?k + 1 \<and>
               pred_option (progress_at n (?k + 1)) (lp_progress l') \<and>
               fr_input r = Some ?i \<and> c' = drive ops c ?i \<and> drive_ok ops c ?i
             else lp_failed l' \<and> lp_frames_completed l' = ?k \<and> drive_failed ops c ?i c')"
          using produce_frame_result [OF produce ops, of n, unfolded i] l1 l2 by simp
        moreover have "?k + 1 \<le> n" using less by (rule word_Suc_le_iff_less)
        ultimately show ?thesis
          using live(1) wf l1 l2 less by (auto simp: loop_wf_def split: if_splits)
      qed
    qed
  qed
qed

interpretation loop_machine: machine "\<lambda>(l, c) ops. case execute_next ops l c of (l', c', es, r) \<Rightarrow> (l', c')"
    "\<lambda>(l, c). loop_wf n l" for n
  by unfold_locales (auto split: prod.splits dest: execute_next_result)

subsection \<open>What a sequence of calls does\<close>

fun run_loop :: "nat \<Rightarrow> 'c frame_operations \<Rightarrow> replay_loop \<Rightarrow> 'c \<Rightarrow> replay_loop \<times> 'c \<times> frame_result list" where
  "run_loop 0 ops l c = (l, c, [])"
| "run_loop (Suc m) ops l c =
     (case execute_next ops l c of
        (l1, c1, es, r) \<Rightarrow> (case run_loop m ops l1 c1 of (l2, c2, rs) \<Rightarrow> (l2, c2, r # rs)))"

abbreviation produced :: "frame_result list \<Rightarrow> frame_input list" where
  "produced rs \<equiv> map (the \<circ> fr_input) (filter (\<lambda>r. fr_error r = Frame_none) rs)"

definition recorded_inputs :: "input_source \<Rightarrow> nat \<Rightarrow> nat \<Rightarrow> frame_input list" where
  "recorded_inputs s k m = map (\<lambda>i. recorded_input s (of_nat i)) [k..<m]"

lemma recorded_inputs_cong:
  "src_bytes s = src_bytes s' \<Longrightarrow> recorded_inputs s k m = recorded_inputs s' k m"
  by (simp add: recorded_inputs_def recorded_input_def)

lemma recorded_inputs_Cons:
  "k < m \<Longrightarrow> recorded_inputs s k m = recorded_input s (of_nat k) # recorded_inputs s (Suc k) m"
  by (simp add: recorded_inputs_def upt_conv_Cons)

lemma run_loop_result:
  assumes "run_loop m ops l c = (l', c', rs)" and "loop_wf n l"
  shows "loop_wf n l' \<and> lp_frames_completed l \<le> lp_frames_completed l' \<and>
    produced rs = recorded_inputs (lp_inputs l) (unat (lp_frames_completed l)) (unat (lp_frames_completed l')) \<and>
    (\<not> lp_failed l' \<longrightarrow> c' = foldl (drive ops) c
      (recorded_inputs (lp_inputs l) (unat (lp_frames_completed l)) (unat (lp_frames_completed l')))) \<and>
    (lp_failed l \<longrightarrow> lp_failed l' \<and> c' = c)"
  using assms
proof (induction m arbitrary: l c rs)
  case 0
  then show ?case by (simp add: recorded_inputs_def)
next
  case (Suc m)
  obtain l1 c1 es r where one: "execute_next ops l c = (l1, c1, es, r)"
    using prod_cases4 by blast
  obtain rs' where rest: "run_loop m ops l1 c1 = (l', c', rs')" and rs: "rs = r # rs'"
    using Suc.prems(1) one by (auto split: prod.splits)
  note step = execute_next_result [OF one Suc.prems(2)]
  note IH = Suc.IH [OF rest conjunct1 [OF step]]
  have same: "recorded_inputs (lp_inputs l1) k m' = recorded_inputs (lp_inputs l) k m'" for k m'
    using step by (intro recorded_inputs_cong) simp
  show ?case
  proof (cases "fr_error r = Frame_none")
    case True
    have k: "unat (lp_frames_completed l1) = Suc (unat (lp_frames_completed l))"
      using step True unat_Suc_of_less by (metis (no_types))
    then have "unat (lp_frames_completed l) < unat (lp_frames_completed l')"
      using IH by (simp add: word_le_nat_alt)
    with IH step True k same rs show ?thesis
      by (simp add: recorded_inputs_Cons word_le_nat_alt)
  next
    case False
    with IH step same rs show ?thesis by auto
  qed
qed

lemma loop_wf_make:
  assumes "src_cursor s = 0" and "pred_option (\<lambda>p. p = make_progress (src_frame_count s) observed \<or>
      p = fst (publish_acceptance (make_progress (src_frame_count s) observed))) progress"
  shows "loop_wf (src_frame_count s) (make_loop publication s progress)"
proof -
  have "progress_at n 0 (make_progress n observed)"
    "progress_at n 0 (fst (publish_acceptance (make_progress n observed)))" for n
    by (simp_all add: progress_at_def make_progress_def publish_acceptance_def Let_def)
  then have "pred_option (progress_at (src_frame_count s) 0) progress"
    using assms(2) by (cases progress) auto
  with assms(1) show ?thesis by (simp add: loop_wf_def make_loop_def)
qed

text \<open>
  The linear production drives the Engine with exactly the recorded inputs. However often the
  loop is called and whatever the Engine answers, the frames it reports as produced are the frames of
  the take from the first one on, each once, in order and with its recorded buttons, as many as it
  counts as completed and never more than the take has; and as long as no operation failed, the
  Engine has been driven with exactly these inputs and nothing else.
\<close>

theorem replay_loop_in_order:
  assumes "run_loop m ops (make_loop publication s progress) c = (l, c', rs)" and "src_cursor s = 0"
    and "pred_option (\<lambda>p. p = make_progress (src_frame_count s) observed \<or>
      p = fst (publish_acceptance (make_progress (src_frame_count s) observed))) progress"
  shows "produced rs = recorded_inputs s 0 (unat (lp_frames_completed l)) \<and>
    lp_frames_completed l \<le> src_frame_count s \<and>
    (\<not> lp_failed l \<longrightarrow> c' = foldl (drive ops) c (produced rs))"
proof -
  have "lp_inputs (make_loop publication s progress) = s \<and>
      unat (lp_frames_completed (make_loop publication s progress)) = 0"
    by (simp add: make_loop_def)
  then show ?thesis
    using run_loop_result [OF assms(1) loop_wf_make [OF assms(2,3)]] by (auto simp: loop_wf_def)
qed

definition example_operations :: "u16 list frame_operations" where
  "example_operations =
     \<lparr>op_set_input = Some (\<lambda>c frame buttons. (c @ [buttons],
        \<lparr>or_succeeded = True, or_engine_frame = 0, or_code = ''ok'', or_detail = []\<rparr>)),
      op_step = Some (\<lambda>c. (c,
        \<lparr>or_succeeded = True, or_engine_frame = of_nat (length c), or_code = ''ok'', or_detail = []\<rparr>))\<rparr>"

definition example_source :: input_source where
  "example_source = \<lparr>src_bytes = [129, 0, 0, 1], src_frame_count = 2, src_cursor = 0\<rparr>"

definition acknowledged :: publication where
  "acknowledged = fst (publish_initial_state make_publication True True True (Some True))"

definition example_loop :: replay_loop where
  "example_loop = make_loop acknowledged example_source
     (Some (fst (publish_acceptance (make_progress (src_frame_count example_source) True))))"

theorem replay_loop_in_order_witness:
  "\<exists>l rs. run_loop 3 example_operations example_loop [] = (l, [0x0081, 0x0100], rs) \<and>
     map fi_buttons (produced rs) = [0x0081, 0x0100]"
proof -
  obtain l c rs where run: "run_loop 3 example_operations example_loop [] = (l, c, rs)"
    using prod_cases3 by blast
  have "src_cursor example_source = 0" by (simp add: example_source_def)
  from replay_loop_in_order [OF run [unfolded example_loop_def] this, of True]
  have "produced rs = recorded_inputs example_source 0 (unat (lp_frames_completed l))"
    and "\<not> lp_failed l \<longrightarrow> c = foldl (drive example_operations) [] (produced rs)"
    by simp_all
  moreover have "(\<lambda>(l, c, rs). (lp_frames_completed l, lp_failed l))
      (run_loop 3 example_operations example_loop []) = (2, False)"
    by code_simp
  moreover have "map fi_buttons (recorded_inputs example_source 0 2) = [0x0081, 0x0100]"
    "foldl (drive example_operations) [] (recorded_inputs example_source 0 2) = [0x0081, 0x0100]"
    by code_simp+
  ultimately show ?thesis using run by (simp del: map_map)
qed

subsection \<open>The whole take\<close>

definition operations_succeed :: "'c frame_operations \<Rightarrow> bool" where
  "operations_succeed ops \<longleftrightarrow>
     (\<exists>set_input step. op_set_input ops = Some set_input \<and> op_step ops = Some step \<and>
        (\<forall>c frame buttons. or_succeeded (snd (set_input c frame buttons))) \<and>
        (\<forall>c. or_succeeded (snd (step c))))"

definition loop_ready :: "replay_loop \<Rightarrow> bool" where
  "loop_ready l \<longleftrightarrow> \<not> lp_failed l \<and> input_permitted (lp_publication l) \<and>
     pred_option (\<lambda>p. pr_state p = Progress_accepted \<or> pr_state p = Progress_started) (lp_progress l)"

lemma loop_publish_ok:
  assumes "loop_publish f l = (l', es, ok)" and "pred_option P (lp_progress l)"
    and "\<And>p p' es ok. f p = (p', es, ok) \<Longrightarrow> P p \<Longrightarrow> ok \<and> Q p'"
  shows "ok \<and> pred_option Q (lp_progress l')"
  using assms by (auto simp: loop_publish_def split: option.splits prod.splits)

abbreviation progress_ready :: "u32 \<Rightarrow> u32 \<Rightarrow> replay_progress \<Rightarrow> bool" where
  "progress_ready n k p \<equiv>
     progress_at n k p \<and> (pr_state p = Progress_accepted \<or> pr_state p = Progress_started)"

abbreviation progress_running :: "u32 \<Rightarrow> u32 \<Rightarrow> replay_progress \<Rightarrow> bool" where
  "progress_running n k p \<equiv> progress_at n k p \<and> pr_state p = Progress_started"

lemma ready_start:
  "start_unless_started p = (p', es, ok) \<Longrightarrow> progress_ready n k p \<Longrightarrow> ok \<and> progress_running n k p'"
  by (auto simp: start_unless_started_def progress_was_started_def progress_ops progress_at_def Let_def
      split: if_splits)

lemma running_input:
  "publish_input p k = (p', es, ok) \<Longrightarrow> k < n \<and> progress_running n k p \<Longrightarrow> ok \<and> progress_in_frame n k p'"
  by (auto simp: progress_ops progress_at_def progress_in_frame_def Let_def split: if_splits)

lemma in_frame_completed:
  "publish_frame p k g = (p', es, ok) \<Longrightarrow> progress_in_frame n k p \<Longrightarrow> ok \<and> progress_running n (k + 1) p'"
  by (auto simp: progress_ops progress_at_def progress_in_frame_def Let_def split: if_splits)

lemma running_finish:
  "finish_unless_finished p = (p', es, ok) \<Longrightarrow> progress_running n n p \<Longrightarrow>
     ok \<and> pr_state p' = Progress_finished"
  by (auto simp: finish_unless_finished_def progress_was_finished_def progress_ops progress_at_def Let_def
      split: if_splits)

lemma produce_frame_ready:
  assumes "produce_frame set_input step l c log i = (l', c', es, r)"
    and good: "\<And>x f b. or_succeeded (snd (set_input x f b))" "\<And>x. or_succeeded (snd (step x))"
    and "pred_option (progress_in_frame n (fi_frame i)) (lp_progress l)"
  shows "fr_error r = Frame_none \<and> lp_publication l' = lp_publication l \<and>
    pred_option (progress_running n (fi_frame i + 1)) (lp_progress l')"
proof -
  obtain c1 s where set: "set_input c (fi_frame i) (fi_buttons i) = (c1, s)" by fastforce
  obtain c2 u where step: "step c1 = (c2, u)" by fastforce
  obtain l1 es1 ok where publish: "loop_publish (\<lambda>p. publish_frame p (fi_frame i) (or_engine_frame u))
      (l\<lparr>lp_frames_completed := lp_frames_completed l + 1\<rparr>) = (l1, es1, ok)"
    using prod_cases3 by blast
  have "ok \<and> pred_option (progress_running n (fi_frame i + 1)) (lp_progress l1)"
    using assms(4)
    by (intro loop_publish_ok [where P = "progress_in_frame n (fi_frame i)", OF publish])
       (auto dest: in_frame_completed)
  moreover have "or_succeeded s" "or_succeeded u"
    using good(1) [of c "fi_frame i" "fi_buttons i"] good(2) [of c1] set step by simp_all
  ultimately show ?thesis
    using assms(1) set step publish loop_publish_fields [OF publish]
    by (auto simp: produce_frame_def frame_outcome_def)
qed

lemma execute_next_ready:
  assumes "execute_next ops l c = (l', c', es, r)" and "loop_wf n l" and "loop_ready l"
    and "operations_succeed ops"
  shows "if lp_frames_completed l < n then fr_error r = Frame_none \<and> loop_ready l'
    else fr_error r = Input_exhausted \<and> c' = c \<and>
      pred_option (\<lambda>p. pr_state p = Progress_finished) (lp_progress l')"
proof -
  let ?k = "lp_frames_completed l"
  obtain set_input step where ops: "op_set_input ops = Some set_input" "op_step ops = Some step"
    and good: "\<And>x f b. or_succeeded (snd (set_input x f b))" "\<And>x. or_succeeded (snd (step x))"
    using assms(4) by (auto simp: operations_succeed_def)
  have live: "\<not> lp_failed l" "input_permitted (lp_publication l)" "src_frame_count (lp_inputs l) = n"
    "src_cursor (lp_inputs l) = ?k" "?k \<le> n" "pred_option (progress_ready n ?k) (lp_progress l)"
    using assms(2,3) by (auto simp: loop_wf_def loop_ready_def pred_option_def)
  obtain l1 es1 ok1 where start: "loop_publish start_unless_started l = (l1, es1, ok1)"
    using prod_cases3 by blast
  note l1 = loop_publish_fields [OF start]
  have ok1: "ok1" "pred_option (progress_running n ?k) (lp_progress l1)"
    using loop_publish_ok [OF start live(6), of "progress_running n ?k"] ready_start by blast+
  show ?thesis
  proof (cases "?k < n")
    case True
    let ?i = "recorded_input (lp_inputs l) ?k"
    let ?s = "(lp_inputs l)\<lparr>src_cursor := ?k + 1\<rparr>"
    have i: "fi_frame ?i = ?k" by (simp add: recorded_input_def)
    obtain l2 es2 ok2 where input: "loop_publish (\<lambda>p. publish_input p ?k) (l1\<lparr>lp_inputs := ?s\<rparr>) = (l2, es2, ok2)"
      using prod_cases3 by blast
    have ok2: "ok2 \<and> pred_option (progress_in_frame n ?k) (lp_progress l2)"
      using ok1(2) True
      by (intro loop_publish_ok [where P = "\<lambda>p. ?k < n \<and> progress_running n ?k p", OF input])
         (auto simp: pred_option_def dest: running_input)
    have read: "publication_next_input (lp_publication l1) (lp_inputs l1) = (?s, Some ?i)"
      using True live l1 by (simp add: publication_next_input_def next_input_recorded not_le)
    have produce: "produce_frame set_input step l2 c (es1 @ es2) ?i = (l', c', es, r)"
      using assms(1) ops live start l1 ok1 read input i ok2 by (simp add: execute_next_def)
    have "fr_error r = Frame_none \<and> lp_publication l' = lp_publication l2 \<and>
        pred_option (progress_running n (?k + 1)) (lp_progress l')"
      using produce_frame_ready [OF produce good, of n, unfolded i] ok2 by blast
    moreover have "\<not> lp_failed l'"
      using execute_next_result [OF assms(1,2)] calculation by simp
    ultimately show ?thesis
      using True live l1 loop_publish_fields [OF input] by (auto simp: loop_ready_def pred_option_def)
  next
    case False
    then have k: "?k = n" using live(5) by simp
    obtain l2 es2 ok2 where finish: "loop_publish finish_unless_finished (l1\<lparr>lp_inputs := lp_inputs l1\<rparr>) = (l2, es2, ok2)"
      using prod_cases3 by blast
    have "ok2 \<and> pred_option (\<lambda>p. pr_state p = Progress_finished) (lp_progress l2)"
      using ok1(2) k
      by (intro loop_publish_ok [where P = "progress_running n n", OF finish]) (auto dest: running_finish)
    moreover have "publication_next_input (lp_publication l1) (lp_inputs l1) = (lp_inputs l1, None)"
      using k live l1 by (simp add: publication_next_input_def next_input_recorded)
    ultimately show ?thesis
      using assms(1) ops live start l1 ok1 finish k
      by (auto simp: execute_next_def frame_outcome_def)
  qed
qed

lemma run_loop_ready:
  assumes "run_loop m ops l c = (l', c', rs)" and "loop_wf n l" and "loop_ready l"
    and "operations_succeed ops" and "unat (lp_frames_completed l) + m \<le> unat n"
  shows "loop_ready l' \<and> unat (lp_frames_completed l') = unat (lp_frames_completed l) + m \<and>
    list_all (\<lambda>r. fr_error r = Frame_none) rs"
  using assms
proof (induction m arbitrary: l c rs)
  case (Suc m)
  obtain l1 c1 es r where one: "execute_next ops l c = (l1, c1, es, r)"
    using prod_cases4 by blast
  obtain rs' where rest: "run_loop m ops l1 c1 = (l', c', rs')" and rs: "rs = r # rs'"
    using Suc.prems(1) one by (auto split: prod.splits)
  have less: "lp_frames_completed l < n"
    using Suc.prems(5) by (simp add: word_less_nat_alt)
  then have ok: "fr_error r = Frame_none" "loop_ready l1"
    using execute_next_ready [OF one Suc.prems(2-4)] by simp_all
  moreover have "loop_wf n l1" "unat (lp_frames_completed l1) = Suc (unat (lp_frames_completed l))"
    using execute_next_result [OF one Suc.prems(2)] ok(1) unat_Suc_of_less [OF less] by auto
  ultimately show ?case
    using Suc.IH [OF rest] Suc.prems(4,5) rs by simp
qed simp

lemma loop_publish_observed:
  "loop_publish f l = (l', es, ok) \<Longrightarrow> lp_progress l' = None \<longleftrightarrow> lp_progress l = None"
  by (auto simp: loop_publish_def split: option.splits prod.splits)

lemma produce_frame_observed:
  "produce_frame set_input step l c log i = (l', c', es, r) \<Longrightarrow>
     lp_progress l' = None \<longleftrightarrow> lp_progress l = None"
  by (auto simp: produce_frame_def split: prod.splits if_splits dest: loop_publish_observed)

lemma execute_next_observed:
  "execute_next ops l c = (l', c', es, r) \<Longrightarrow> lp_progress l' = None \<longleftrightarrow> lp_progress l = None"
  by (auto simp: execute_next_def split: prod.splits option.splits if_splits
      dest!: loop_publish_observed produce_frame_observed)

lemma run_loop_observed:
  "run_loop m ops l c = (l', c', rs) \<Longrightarrow> lp_progress l' = None \<longleftrightarrow> lp_progress l = None"
  by (induction m arbitrary: l c rs) (auto split: prod.splits dest: execute_next_observed)

text \<open>
  C8: An undisturbed take is produced to its end. When the initial state was acknowledged, the
  progress accepted and the Engine never fails, calling the loop once per frame of the take succeeds
  every time, drives the Engine with all recorded inputs in order, and the next call reports that the
  input is exhausted, leaves the Engine alone and publishes the end of the replay.
\<close>

theorem replay_loop_completes:
  assumes "run_loop (unat (src_frame_count s)) ops (make_loop publication s progress) c = (l, c', rs)"
    and "execute_next ops l c' = (l2, c2, es, r)" and "src_cursor s = 0"
    and "input_permitted publication" and "operations_succeed ops" and "src_frame_count s \<noteq> 0"
    and "progress = Some (fst (publish_acceptance (make_progress (src_frame_count s) True)))"
  shows "list_all (\<lambda>r. fr_error r = Frame_none) rs \<and>
    c' = foldl (drive ops) c (recorded_inputs s 0 (unat (src_frame_count s))) \<and>
    fr_error r = Input_exhausted \<and> c2 = c' \<and>
    map_option pr_state (lp_progress l2) = Some Progress_finished"
proof -
  let ?l = "make_loop publication s progress" and ?n = "src_frame_count s"
  have wf: "loop_wf ?n ?l"
    using loop_wf_make [OF assms(3), of True] assms(7) by simp
  have ready: "loop_ready ?l"
    using assms(4,6,7)
    by (simp add: loop_ready_def make_loop_def publish_acceptance_def make_progress_def Let_def)
  have start: "lp_frames_completed ?l = 0" "lp_inputs ?l = s" by (simp_all add: make_loop_def)
  note run = run_loop_ready [OF assms(1) wf ready assms(5)]
  note result = run_loop_result [OF assms(1) wf]
  have all: "lp_frames_completed l = ?n"
    using run start by (simp add: word_unat_eq_iff)
  have "fr_error r = Input_exhausted \<and> c2 = c' \<and>
      pred_option (\<lambda>p. pr_state p = Progress_finished) (lp_progress l2)"
    using execute_next_ready [OF assms(2), of ?n] result run start all assms(5) by simp
  moreover have "lp_progress l2 \<noteq> None"
    using execute_next_observed [OF assms(2)] run_loop_observed [OF assms(1)] assms(7)
    by (simp add: make_loop_def)
  ultimately show ?thesis
    using run result start all by (auto simp: loop_ready_def)
qed

theorem replay_loop_completes_witness:
  "\<exists>l rs. run_loop 2 example_operations example_loop [] = (l, [0x0081, 0x0100], rs) \<and>
     list_all (\<lambda>r. fr_error r = Frame_none) rs"
proof -
  have n: "unat (src_frame_count example_source) = 2" by (simp add: example_source_def)
  obtain l c rs where run: "run_loop (unat (src_frame_count example_source)) example_operations example_loop [] = (l, c, rs)"
    using prod_cases3 by blast
  obtain l2 c2 es r where last: "execute_next example_operations l c = (l2, c2, es, r)"
    using prod_cases4 by blast
  have "src_cursor example_source = 0" "input_permitted acknowledged" "operations_succeed example_operations"
    "src_frame_count example_source \<noteq> 0"
    by (simp_all add: example_source_def example_operations_def operations_succeed_def acknowledged_def
        publish_initial_state_def make_publication_def input_permitted_def)
  from replay_loop_completes [OF run [unfolded example_loop_def] last this refl]
  have "list_all (\<lambda>r. fr_error r = Frame_none) rs"
    "c = foldl (drive example_operations) [] (recorded_inputs example_source 0 2)"
    using n by simp_all
  moreover have "foldl (drive example_operations) [] (recorded_inputs example_source 0 2) = [0x0081, 0x0100]"
    by code_simp
  ultimately show ?thesis using run n by simp
qed

end
