(* ===== verification/Session_Checkpoints.thy ===== *)
theory Session_Checkpoints
  imports Checkpoint_Ring
begin

text \<open>
  The checkpoints of a session: \<open>CheckpointStore\<close> of \<^verbatim>\<open>src/audio_qa_inspection.{h,cpp}\<close>.

  The Engine session is an external library: a value \<open>'s\<close> and a record of its operations. An
  operation that can throw returns \<open>None\<close> for that; one that changes the session returns it changed.
  The vectors of Engine structures whose bytes the code counts are the bytes they occupy, and a shared
  buffer of samples has an address, because the code compares the pointers.
\<close>

section \<open>The Engine's states\<close>

type_synonym samples = "16 word list"

record shared_pcm =
  sp_address :: nat
  sp_samples :: samples

record visual_state =
  vs_identity :: string
  vs_emulation_frame :: u64
  vs_payload :: bytes

record audio_header =
  ah_identity :: string
  ah_emulation_frame :: u64

record detector_windows =
  dw_detector :: bytes
  dw_windows :: bytes

record voices_state =
  vo_voices :: bytes
  vo_pcm_assets :: "samples list"

record pending_requests =
  rq_requests :: bytes
  rq_fired_requests :: bytes
  rq_main_pcm :: bytes
  rq_main_batches :: bytes
  rq_original_batches :: bytes
  rq_frame_mute_hashes :: bytes
  rq_user_mute_hashes :: bytes

record 's session_engine =
  se_serialize :: "'s \<Rightarrow> bytes option"
  se_export_visual :: "'s \<Rightarrow> visual_state option"
  se_identity :: "'s \<Rightarrow> string option"
  se_detector :: "'s \<Rightarrow> detector_windows option"
  se_voices :: "'s \<Rightarrow> (voices_state \<times> (u64 \<times> shared_pcm option) list) option"
  se_requests :: "'s \<Rightarrow> pending_requests option"
  se_unserialize :: "'s \<Rightarrow> bytes \<Rightarrow> 's \<times> bool option"
  se_restore_visual :: "'s \<Rightarrow> visual_state \<Rightarrow> string \<Rightarrow> u64 \<Rightarrow> 's \<times> bool option"
  se_restore_detector :: "'s \<Rightarrow> audio_header \<Rightarrow> string \<Rightarrow> detector_windows \<Rightarrow> 's \<times> bool option"
  se_restore_voices :: "'s \<Rightarrow> audio_header \<Rightarrow> string \<Rightarrow> voices_state \<Rightarrow> 's \<times> bool option"
  se_restore_requests :: "'s \<Rightarrow> audio_header \<Rightarrow> string \<Rightarrow> pending_requests \<Rightarrow> 's \<times> bool option"

section \<open>The store\<close>

record checkpoint =
  ck_core_state :: bytes
  ck_visual :: visual_state
  ck_audio_header :: audio_header
  ck_detector_windows :: detector_windows
  ck_voices :: voices_state
  ck_requests :: pending_requests
  ck_shared_pcm :: "(u64 \<times> shared_pcm) list"

type_synonym pcm_pool = "u64 \<times> nat \<rightharpoonup> shared_pcm"

record checkpoint_store =
  st_ring :: checkpoint_ring
  st_checkpoints :: "int \<rightharpoonup> checkpoint"
  st_pool :: pcm_pool
  st_pending_audio_not_restored :: bool

datatype restore_result =
  Restored | Missing | Core_rejected | Visual_rejected | Audio_detector_rejected | Audio_voices_rejected

definition make_store :: "u32 \<Rightarrow> u64 \<Rightarrow> checkpoint_store" where
  "make_store interval budget_bytes =
     \<lparr>st_ring = make_ring interval budget_bytes, st_checkpoints = Map.empty, st_pool = Map.empty,
      st_pending_audio_not_restored = False\<rparr>"

definition bytes_of :: "'a list \<Rightarrow> u64" where
  "bytes_of xs = of_nat (length xs)"

definition bytes_of_samples :: "samples \<Rightarrow> u64" where
  "bytes_of_samples xs = of_nat (length xs) * 2"

definition pending_bytes :: "pending_requests \<Rightarrow> u64" where
  "pending_bytes q =
     bytes_of (rq_requests q) + bytes_of (rq_fired_requests q) + bytes_of (rq_main_pcm q) +
     bytes_of (rq_main_batches q) + bytes_of (rq_original_batches q) +
     bytes_of (rq_frame_mute_hashes q) + bytes_of (rq_user_mute_hashes q)"

section \<open>Capture\<close>

text \<open>One shared asset: a buffer the pool does not hold yet is charged and pooled.\<close>

definition pool_asset :: "pcm_pool \<Rightarrow> u64 \<Rightarrow> shared_pcm \<Rightarrow> u64 \<Rightarrow> pcm_pool \<times> u64 \<times> shared_pcm" where
  "pool_asset pool identity samples size_bytes =
     (let key = (identity, length (sp_samples samples)) in
      case pool key of
        Some pooled \<Rightarrow>
          if sp_address pooled = sp_address samples then (pool, size_bytes, pooled)
          else (pool(key \<mapsto> samples), size_bytes + bytes_of_samples (sp_samples samples), samples)
      | None \<Rightarrow> (pool(key \<mapsto> samples), size_bytes + bytes_of_samples (sp_samples samples), samples))"

text \<open>
  The loop over the shared assets. The result is \<open>None\<close> when an asset has no samples; the pool keeps
  what was pooled before it.
\<close>

fun pool_assets ::
    "pcm_pool \<Rightarrow> (u64 \<times> shared_pcm option) list \<Rightarrow> u64 \<Rightarrow> pcm_pool \<times> (u64 \<times> (u64 \<times> shared_pcm) list) option" where
  "pool_assets pool [] size_bytes = (pool, Some (size_bytes, []))"
| "pool_assets pool ((identity, None) # assets) size_bytes = (pool, None)"
| "pool_assets pool ((identity, Some samples) # assets) size_bytes =
     (case pool_asset pool identity samples size_bytes of
        (pool1, size1, pooled) \<Rightarrow>
          (case pool_assets pool1 assets size1 of
             (pool2, None) \<Rightarrow> (pool2, None)
           | (pool2, Some (charged, shared)) \<Rightarrow> (pool2, Some (charged, (identity, pooled) # shared))))"

definition keep_ring_frames :: "checkpoint_ring \<Rightarrow> (int \<rightharpoonup> checkpoint) \<Rightarrow> int \<rightharpoonup> checkpoint" where
  "keep_ring_frames r checkpoints =
     (\<lambda>frame. if \<exists>e \<in> set (ring_entries r). entry_frame e = frame then checkpoints frame else None)"

definition store_checkpoint ::
    "checkpoint_store \<Rightarrow> int \<Rightarrow> u64 \<Rightarrow> checkpoint \<Rightarrow> checkpoint_store \<times> bool" where
  "store_checkpoint st frame size_bytes c =
     (if frame = initial_checkpoint_frame then
        (let r = store_initial (st_ring st) size_bytes
         in (st\<lparr>st_ring := r, st_checkpoints := keep_ring_frames r ((st_checkpoints st)(frame \<mapsto> c))\<rparr>, True))
      else if frame < 0 then (st, False)
      else
        (case store (st_ring st) (word_of_int frame) size_bytes of
           (r, False) \<Rightarrow> (st\<lparr>st_ring := r\<rparr>, False)
         | (r, True) \<Rightarrow>
             (st\<lparr>st_ring := r, st_checkpoints := keep_ring_frames r ((st_checkpoints st)(frame \<mapsto> c))\<rparr>, True)))"

definition capture :: "'s session_engine \<Rightarrow> checkpoint_store \<Rightarrow> 's \<Rightarrow> int \<Rightarrow> checkpoint_store \<times> bool" where
  "capture en st s frame =
     (case (se_serialize en s, se_export_visual en s, se_identity en s, se_detector en s, se_voices en s,
            se_requests en s) of
        (Some core, Some visual, Some identity, Some detector, Some (voices, shared), Some requests) \<Rightarrow>
          (if core = [] \<or> identity = [] \<or> vs_identity visual \<noteq> identity \<or>
              length shared \<noteq> length (vo_pcm_assets voices)
           then (st, False)
           else
             (let size_bytes = bytes_of core + bytes_of (vs_payload visual) + bytes_of (dw_detector detector) +
                     bytes_of (dw_windows detector) + bytes_of (vo_voices voices) + pending_bytes requests
              in case pool_assets (st_pool st) shared size_bytes of
                   (pool, None) \<Rightarrow> (st\<lparr>st_pool := pool\<rparr>, False)
                 | (pool, Some (charged, pcm)) \<Rightarrow>
                     store_checkpoint (st\<lparr>st_pool := pool\<rparr>) frame charged
                       \<lparr>ck_core_state = core, ck_visual = visual,
                        ck_audio_header = \<lparr>ah_identity = identity, ah_emulation_frame = vs_emulation_frame visual\<rparr>,
                        ck_detector_windows = detector, ck_voices = voices, ck_requests = requests,
                        ck_shared_pcm = pcm\<rparr>))
      | _ \<Rightarrow> (st, False))"

section \<open>Restore\<close>

definition with_shared_pcm :: "voices_state \<Rightarrow> (u64 \<times> shared_pcm) list \<Rightarrow> voices_state" where
  "with_shared_pcm voices shared =
     voices\<lparr>vo_pcm_assets :=
       map (\<lambda>i. if i < length shared then sp_samples (snd (shared ! i)) else vo_pcm_assets voices ! i)
         [0..<length (vo_pcm_assets voices)]\<rparr>"

definition restore_audio ::
    "'s session_engine \<Rightarrow> checkpoint_store \<Rightarrow> 's \<Rightarrow> checkpoint \<Rightarrow> string \<Rightarrow> bool \<Rightarrow>
     checkpoint_store \<times> 's \<times> restore_result" where
  "restore_audio en st s c identity audio =
     (case se_restore_detector en s (ck_audio_header c) identity (ck_detector_windows c) of
        (s1, None) \<Rightarrow> (st, s1, Core_rejected)
      | (s1, Some False) \<Rightarrow> (st, s1, if audio then Audio_detector_rejected else Restored)
      | (s1, Some True) \<Rightarrow>
          (case se_restore_voices en s1 (ck_audio_header c) identity
                  (with_shared_pcm (ck_voices c) (ck_shared_pcm c)) of
             (s2, None) \<Rightarrow> (st, s2, Core_rejected)
           | (s2, Some False) \<Rightarrow> (st, s2, if audio then Audio_voices_rejected else Restored)
           | (s2, Some True) \<Rightarrow>
               (case se_restore_requests en s2 (ck_audio_header c) identity (ck_requests c) of
                  (s3, None) \<Rightarrow> (st, s3, Core_rejected)
                | (s3, Some False) \<Rightarrow> (st\<lparr>st_pending_audio_not_restored := True\<rparr>, s3, Restored)
                | (s3, Some True) \<Rightarrow> (st, s3, Restored))))"

definition restore ::
    "'s session_engine \<Rightarrow> checkpoint_store \<Rightarrow> 's \<Rightarrow> int \<Rightarrow> bool \<Rightarrow> checkpoint_store \<times> 's \<times> restore_result" where
  "restore en st s frame audio =
     (case st_checkpoints st frame of
        None \<Rightarrow> (st, s, Missing)
      | Some c \<Rightarrow>
          (case se_unserialize en s (ck_core_state c) of
             (s1, None) \<Rightarrow> (st, s1, Core_rejected)
           | (s1, Some False) \<Rightarrow> (st, s1, Core_rejected)
           | (s1, Some True) \<Rightarrow>
               (case se_identity en s1 of
                  None \<Rightarrow> (st, s1, Core_rejected)
                | Some identity \<Rightarrow>
                    (case se_restore_visual en s1 (ck_visual c) identity (vs_emulation_frame (ck_visual c)) of
                       (s2, None) \<Rightarrow> (st, s2, Core_rejected)
                     | (s2, Some False) \<Rightarrow> (st, s2, Visual_rejected)
                     | (s2, Some True) \<Rightarrow> restore_audio en st s2 c identity audio))))"

section \<open>Damage for tests\<close>

definition corrupt_all_for_test :: "checkpoint_store \<Rightarrow> checkpoint_store" where
  "corrupt_all_for_test st =
     st\<lparr>st_checkpoints := \<lambda>frame. map_option (\<lambda>c. c\<lparr>ck_core_state := map (\<lambda>_. 0) (ck_core_state c)\<rparr>)
        (st_checkpoints st frame)\<rparr>"

definition corrupt_visual_states_for_test :: "checkpoint_store \<Rightarrow> checkpoint_store" where
  "corrupt_visual_states_for_test st =
     st\<lparr>st_checkpoints := \<lambda>frame. map_option (\<lambda>c. c\<lparr>ck_visual := (ck_visual c)\<lparr>vs_identity := ''corrupt''\<rparr>\<rparr>)
        (st_checkpoints st frame)\<rparr>"

section \<open>Properties\<close>

subsection \<open>The store holds what the ring keeps\<close>

definition store_wf :: "checkpoint_store \<Rightarrow> bool" where
  "store_wf st \<longleftrightarrow> ring_wf (st_ring st) \<and> dom (st_checkpoints st) = ring_frames (st_ring st)"

datatype store_event = Capture int | Corrupt_all | Corrupt_visual_states

fun store_step :: "'s session_engine \<Rightarrow> checkpoint_store \<Rightarrow> 's \<times> store_event \<Rightarrow> checkpoint_store" where
  "store_step en st (s, Capture frame) = fst (capture en st s frame)"
| "store_step en st (s, Corrupt_all) = corrupt_all_for_test st"
| "store_step en st (s, Corrupt_visual_states) = corrupt_visual_states_for_test st"

fun store_event_ok :: "checkpoint_store \<Rightarrow> 's \<times> store_event \<Rightarrow> bool" where
  "store_event_ok st (s, Capture frame) = (frame < 2 ^ 32)"
| "store_event_ok st _ = True"

lemma dom_keep_ring_frames: "dom (keep_ring_frames r m) = dom m \<inter> ring_frames r"
  by (auto simp: keep_ring_frames_def ring_frames_def split: if_splits)

lemma ring_frames_store_initial:
  "ring_frames (store_initial r size_bytes) = insert initial_checkpoint_frame (ring_frames r)"
  by (cases "ring_entries r")
     (auto simp: store_initial_def has_initial_def ring_frames_def Let_def)

lemma store_wf_store_checkpoint:
  assumes wf: "store_wf st" and frame: "frame < 2 ^ 32"
  shows "store_wf (fst (store_checkpoint st frame size_bytes c))"
proof (cases "frame < 0")
  case True
  with wf show ?thesis
    by (auto simp: store_checkpoint_def store_wf_def Let_def ring_wf_store_initial dom_keep_ring_frames
        ring_frames_store_initial)
next
  case False
  then have fit: "uint (word_of_int frame :: u32) = frame"
    using frame by (simp add: uint_word_of_int)
  obtain r ok where st: "store (st_ring st) (word_of_int frame) size_bytes = (r, ok)" by fastforce
  have "ring_wf r"
    using ring_wf_store [of "st_ring st" "word_of_int frame" size_bytes] wf st by (simp add: store_wf_def)
  moreover have "\<not> ok \<Longrightarrow> r = st_ring st"
    using st by (cases rule: store_cases [of "st_ring st" "word_of_int frame" size_bytes]) auto
  moreover have "ok \<Longrightarrow> frame \<in> ring_frames r \<and> ring_frames r \<subseteq> insert frame (ring_frames (st_ring st))"
    using store_frames [of "st_ring st" "word_of_int frame" size_bytes r] st fit by simp
  ultimately show ?thesis
    using False st wf
    by (cases ok) (auto simp: store_checkpoint_def store_wf_def dom_keep_ring_frames
        initial_checkpoint_frame_def)
qed

lemma store_wf_pool [simp]: "store_wf (st\<lparr>st_pool := pool\<rparr>) = store_wf st"
  by (simp add: store_wf_def)

lemma store_wf_capture:
  assumes "store_wf st" and "frame < 2 ^ 32"
  shows "store_wf (fst (capture en st s frame))"
  using assms
  by (auto simp: capture_def Let_def store_wf_store_checkpoint split: option.split prod.split)

lemma store_wf_make: "store_wf (make_store interval budget_bytes)"
  by (simp add: store_wf_def make_store_def ring_wf_make) (simp add: make_ring_def ring_frames_def)

lemma store_wf_corrupt:
  "store_wf (corrupt_all_for_test st) = store_wf st"
  "store_wf (corrupt_visual_states_for_test st) = store_wf st"
  by (auto simp: store_wf_def corrupt_all_for_test_def corrupt_visual_states_for_test_def dom_def)

lemma store_wf_step: "store_wf st \<Longrightarrow> store_event_ok st e \<Longrightarrow> store_wf (store_step en st e)"
  by (cases "(en, st, e)" rule: store_step.cases) (auto simp: store_wf_capture store_wf_corrupt)

interpretation store_machine: guarded_machine "store_step en" store_event_ok store_wf for en :: "'s session_engine"
  by unfold_locales (rule store_wf_step)

subsection \<open>What a checkpoint holds\<close>

text \<open>
  A buffer of samples that the Engine shares does not change while somebody holds it, so an address
  names one content.
\<close>

definition buffers_stable :: "'s session_engine \<Rightarrow> (nat \<Rightarrow> samples) \<Rightarrow> bool" where
  "buffers_stable en heap \<longleftrightarrow>
     (\<forall>s voices shared identity p. se_voices en s = Some (voices, shared) \<longrightarrow>
        (identity, Some p) \<in> set shared \<longrightarrow> sp_samples p = heap (sp_address p))"

definition pool_stable :: "pcm_pool \<Rightarrow> (nat \<Rightarrow> samples) \<Rightarrow> bool" where
  "pool_stable pool heap \<longleftrightarrow> (\<forall>key p. pool key = Some p \<longrightarrow> sp_samples p = heap (sp_address p))"

definition checkpoint_of :: "'s session_engine \<Rightarrow> 's \<Rightarrow> checkpoint \<Rightarrow> bool" where
  "checkpoint_of en s c \<longleftrightarrow>
     se_serialize en s = Some (ck_core_state c) \<and> se_export_visual en s = Some (ck_visual c) \<and>
     se_identity en s = Some (vs_identity (ck_visual c)) \<and>
     ck_audio_header c =
       \<lparr>ah_identity = vs_identity (ck_visual c), ah_emulation_frame = vs_emulation_frame (ck_visual c)\<rparr> \<and>
     se_detector en s = Some (ck_detector_windows c) \<and> se_requests en s = Some (ck_requests c) \<and>
     (\<exists>shared. se_voices en s = Some (ck_voices c, shared) \<and>
        vo_pcm_assets (with_shared_pcm (ck_voices c) (ck_shared_pcm c)) =
          map (\<lambda>(identity, p). sp_samples (the p)) shared)"

lemma pool_assets_result:
  assumes "pool_assets pool assets n = (pool', result)" and "pool_stable pool heap"
    and "\<forall>(identity, p) \<in> set assets. \<forall>q. p = Some q \<longrightarrow> sp_samples q = heap (sp_address q)"
  shows "pool_stable pool' heap \<and>
    (\<forall>m shared. result = Some (m, shared) \<longrightarrow>
       map (\<lambda>(identity, q). sp_samples q) shared = map (\<lambda>(identity, p). sp_samples (the p)) assets)"
  using assms
proof (induction pool assets n arbitrary: pool' result rule: pool_assets.induct)
  case (3 pool identity samples assets n)
  obtain pool1 n1 q where one: "pool_asset pool identity samples n = (pool1, n1, q)"
    using prod_cases3 by blast
  obtain pool2 r where rest: "pool_assets pool1 assets n1 = (pool2, r)" by fastforce
  have "pool_stable pool1 heap" and "sp_samples q = sp_samples samples"
    using one "3.prems"(2,3)
    by (auto simp: pool_asset_def Let_def pool_stable_def split: option.splits if_splits)
  with "3.IH" [OF one [symmetric] refl rest] "3.prems"(3)
  have "pool_stable pool2 heap \<and>
      (\<forall>m shared. r = Some (m, shared) \<longrightarrow>
         map (\<lambda>(identity, q). sp_samples q) shared = map (\<lambda>(identity, p). sp_samples (the p)) assets)"
    and "sp_samples q = sp_samples samples"
    by simp_all
  with "3.prems"(1) one rest show ?case
    by (auto split: option.splits)
qed auto

lemma with_shared_pcm_assets:
  assumes "length shared = length (vo_pcm_assets voices)"
  shows "vo_pcm_assets (with_shared_pcm voices shared) = map (\<lambda>(identity, q). sp_samples q) shared"
  using assms by (auto simp: with_shared_pcm_def case_prod_beta intro!: nth_equalityI)

lemma store_checkpoint_result:
  "store_checkpoint st frame size_bytes c = (st', ok) \<Longrightarrow>
     st_pool st' = st_pool st \<and>
     (if ok then st_checkpoints st' = keep_ring_frames (st_ring st') ((st_checkpoints st)(frame \<mapsto> c))
      else st_checkpoints st' = st_checkpoints st)"
  by (auto simp: store_checkpoint_def Let_def split: if_splits prod.splits bool.splits)

lemma capture_result:
  assumes "capture en st s frame = (st', ok)" and "buffers_stable en heap" and "pool_stable (st_pool st) heap"
  shows "pool_stable (st_pool st') heap \<and>
    (if ok then \<exists>c. checkpoint_of en s c \<and>
        st_checkpoints st' = keep_ring_frames (st_ring st') ((st_checkpoints st)(frame \<mapsto> c))
     else st_checkpoints st' = st_checkpoints st)"
proof (cases "(se_serialize en s, se_export_visual en s, se_identity en s, se_detector en s, se_voices en s,
    se_requests en s)")
  case (fields core visual identity detector voices requests)
  show ?thesis
  proof (cases "\<exists>c0 v0 i0 d0 w0 sh0 q0. core = Some c0 \<and> visual = Some v0 \<and> identity = Some i0 \<and>
      detector = Some d0 \<and> voices = Some (w0, sh0) \<and> requests = Some q0 \<and>
      c0 \<noteq> [] \<and> i0 \<noteq> [] \<and> vs_identity v0 = i0 \<and> length sh0 = length (vo_pcm_assets w0)")
    case False
    with fields assms(1,3) show ?thesis
      by (auto simp: capture_def split: option.splits if_splits)
  next
    case True
    then obtain c0 v0 i0 d0 w0 sh0 q0 where f: "core = Some c0" "visual = Some v0" "identity = Some i0"
      "detector = Some d0" "voices = Some (w0, sh0)" "requests = Some q0"
      "c0 \<noteq> []" "i0 \<noteq> []" "vs_identity v0 = i0" "length sh0 = length (vo_pcm_assets w0)"
      by blast
    define n where "n = bytes_of c0 + bytes_of (vs_payload v0) + bytes_of (dw_detector d0) +
      bytes_of (dw_windows d0) + bytes_of (vo_voices w0) + pending_bytes q0"
    obtain pool result where pooled: "pool_assets (st_pool st) sh0 n = (pool, result)" by fastforce
    have "\<forall>(identity, p) \<in> set sh0. \<forall>q. p = Some q \<longrightarrow> sp_samples q = heap (sp_address q)"
      using assms(2) fields f(5) unfolding buffers_stable_def by fast
    note pool = pool_assets_result [OF pooled assms(3) this]
    show ?thesis
    proof (cases result)
      case None
      with fields f assms(1) pooled pool show ?thesis
        by (auto simp: capture_def Let_def n_def)
    next
      case (Some r)
      obtain m shared where r: "r = (m, shared)" by fastforce
      define c where "c = \<lparr>ck_core_state = c0, ck_visual = v0,
        ck_audio_header = \<lparr>ah_identity = i0, ah_emulation_frame = vs_emulation_frame v0\<rparr>,
        ck_detector_windows = d0, ck_voices = w0, ck_requests = q0, ck_shared_pcm = shared\<rparr>"
      have st': "store_checkpoint (st\<lparr>st_pool := pool\<rparr>) frame m c = (st', ok)"
        using fields f assms(1) pooled Some r by (simp add: capture_def Let_def n_def c_def)
      have contents: "map (\<lambda>(identity, q). sp_samples q) shared = map (\<lambda>(identity, p). sp_samples (the p)) sh0"
        using pool Some r by simp
      then have "length shared = length (vo_pcm_assets w0)"
        using f(10) by (metis length_map)
      then have "checkpoint_of en s c"
        using fields f contents by (simp add: checkpoint_of_def c_def with_shared_pcm_assets)
      with store_checkpoint_result [OF st'] pool show ?thesis by auto
    qed
  qed
qed

definition captured_by :: "'s session_engine \<Rightarrow> (int \<Rightarrow> 's \<Rightarrow> bool) \<Rightarrow> checkpoint_store \<Rightarrow> bool" where
  "captured_by en R st \<longleftrightarrow>
     (\<forall>frame c. st_checkpoints st frame = Some c \<longrightarrow> (\<exists>s. R frame s \<and> checkpoint_of en s c))"

lemma capture_keeps_captured:
  assumes "capture en st s frame = (st', ok)" and "buffers_stable en heap" and "pool_stable (st_pool st) heap"
    and "captured_by en R st" and "R frame s"
  shows "captured_by en R st' \<and> pool_stable (st_pool st') heap"
  using capture_result [OF assms(1-3)] assms(4,5)
  by (auto simp: captured_by_def keep_ring_frames_def split: if_splits)

lemma captured_by_mono:
  "captured_by en R st \<Longrightarrow> (\<And>frame s. R frame s \<Longrightarrow> Q frame s) \<Longrightarrow> captured_by en Q st"
  by (fastforce simp: captured_by_def)

lemma capture_run_captured:
  assumes "buffers_stable en heap" and "pool_stable (st_pool st) heap"
    and "captured_by en (\<lambda>f s. (s, Capture f) \<in> set es0) st"
    and "\<forall>(s, e) \<in> set es. \<exists>f. e = Capture f"
  shows "captured_by en (\<lambda>f s. (s, Capture f) \<in> set (es0 @ es)) (exec (store_step en) st es)"
  using assms(2-4)
proof (induction es arbitrary: st es0)
  case (Cons x es)
  obtain s f where x: "x = (s, Capture f)" using Cons.prems(3) by auto
  obtain st' ok where st': "capture en st s f = (st', ok)" by fastforce
  have "captured_by en (\<lambda>f s. (s, Capture f) \<in> set (es0 @ [x])) st"
    using Cons.prems(2) by (rule captured_by_mono) auto
  then have "captured_by en (\<lambda>f s. (s, Capture f) \<in> set (es0 @ [x])) st'" "pool_stable (st_pool st') heap"
    using capture_keeps_captured [OF st' assms(1) Cons.prems(1)] x by auto
  then show ?case
    using Cons.IH [of st' "es0 @ [x]"] Cons.prems(3) st' x by simp
qed simp

text \<open>
  C7: The store holds exactly the checkpoints the ring keeps, and each is complete. Over every
  sequence of captures on a new store, of any session states and whatever the Engine answers, the
  frames with a checkpoint are the frames of the ring, and every checkpoint holds the core, visual and
  audio state of one session that was captured for its frame, with the samples of every shared asset
  as that session had them.
\<close>

theorem checkpoints_mirror_ring:
  assumes "buffers_stable en heap" and "\<forall>(s, e) \<in> set es. \<exists>f. e = Capture f \<and> f < 2 ^ 32"
    and "st = exec (store_step en) (make_store interval budget_bytes) es"
  shows "dom (st_checkpoints st) = ring_frames (st_ring st) \<and>
    (\<forall>frame c. st_checkpoints st frame = Some c \<longrightarrow> (\<exists>s. (s, Capture frame) \<in> set es \<and> checkpoint_of en s c))"
proof -
  have "admissible_run (store_step en) store_event_ok q es" for q
    using assms(2) by (induction es arbitrary: q) auto
  then have "store_wf st"
    unfolding assms(3) using store_wf_make by (intro store_machine.invar_exec)
  moreover have "captured_by en (\<lambda>f s. (s, Capture f) \<in> set ([] @ es)) st"
    unfolding assms(3)
    by (rule capture_run_captured [OF assms(1)])
       (use assms(2) in \<open>auto simp: pool_stable_def make_store_def captured_by_def\<close>)
  ultimately show ?thesis by (auto simp: store_wf_def captured_by_def)
qed

text \<open>
  An Engine for examples: its session is a core state and the address of a shared buffer, whose
  length is the address; restoring sets the core and accepts the rest but the pending audio.
\<close>

definition example_heap :: "nat \<Rightarrow> samples" where
  "example_heap address = replicate address 0"

definition example_engine :: "(bytes \<times> nat) session_engine" where
  "example_engine =
     \<lparr>se_serialize = \<lambda>(core, p). Some core,
      se_export_visual = \<lambda>s. Some \<lparr>vs_identity = ''id'', vs_emulation_frame = 0, vs_payload = []\<rparr>,
      se_identity = \<lambda>s. Some ''id'',
      se_detector = \<lambda>s. Some \<lparr>dw_detector = [], dw_windows = []\<rparr>,
      se_voices = \<lambda>(core, p). Some (\<lparr>vo_voices = [], vo_pcm_assets = [[]]\<rparr>,
        [(1, Some \<lparr>sp_address = p, sp_samples = example_heap p\<rparr>)]),
      se_requests = \<lambda>s. Some \<lparr>rq_requests = [], rq_fired_requests = [], rq_main_pcm = [],
        rq_main_batches = [], rq_original_batches = [], rq_frame_mute_hashes = [], rq_user_mute_hashes = []\<rparr>,
      se_unserialize = \<lambda>(core, p) bs. ((bs, p), Some True),
      se_restore_visual = \<lambda>s v identity frame. (s, Some (vs_identity v = identity)),
      se_restore_detector = \<lambda>s header identity d. (s, Some True),
      se_restore_voices = \<lambda>s header identity w. (s, Some True),
      se_restore_requests = \<lambda>s header identity q. (s, Some False)\<rparr>"

definition example_captures :: "((bytes \<times> nat) \<times> store_event) list" where
  "example_captures =
     [(([1], 0), Capture (-1)), (([2], 30), Capture 1), (([3], 30), Capture 3), (([4], 31), Capture 5)]"

definition example_store :: checkpoint_store where
  "example_store = exec (store_step example_engine) (make_store 2 100) example_captures"

lemma example_buffers_stable: "buffers_stable example_engine example_heap"
  by (auto simp: buffers_stable_def example_engine_def)

lemma example_store_core:
  "map_option ck_core_state (st_checkpoints example_store 3) = Some [3] \<and>
   st_checkpoints example_store 1 = None"
  by code_simp

theorem checkpoints_mirror_ring_witness:
  "3 \<in> ring_frames (st_ring example_store) \<and> 1 \<notin> ring_frames (st_ring example_store)"
proof -
  have "\<forall>(s, e) \<in> set example_captures. \<exists>f. e = Capture f \<and> f < 2 ^ 32"
    by (simp add: example_captures_def)
  from checkpoints_mirror_ring [OF example_buffers_stable this example_store_def]
  have "dom (st_checkpoints example_store) = ring_frames (st_ring example_store)" by blast
  with example_store_core show ?thesis by auto
qed

text \<open>
  Restoring gives back the captured game. For an Engine that documents that reading back a
  serialized core gives the same game, and that the visual and audio parts never touch it, a restore
  that reports success leaves the game of the session that the checkpoint was captured from,
  whatever the session was before and whether or not the audio was accepted.
\<close>

theorem restore_gives_back_game:
  assumes "restore en st s0 frame audio = (st', s', Restored)"
    and "st_checkpoints st frame = Some c" and "checkpoint_of en s c"
    and core: "\<And>x y bs z. se_serialize en x = Some bs \<Longrightarrow> se_unserialize en y bs = (z, Some True) \<Longrightarrow>
      game z = game x"
    and visual: "\<And>x v i f. game (fst (se_restore_visual en x v i f)) = game x"
    and detector: "\<And>x h i d. game (fst (se_restore_detector en x h i d)) = game x"
    and voices: "\<And>x h i w. game (fst (se_restore_voices en x h i w)) = game x"
    and requests: "\<And>x h i q. game (fst (se_restore_requests en x h i q)) = game x"
  shows "game s' = game s"
proof -
  obtain s1 identity s2 where one: "se_unserialize en s0 (ck_core_state c) = (s1, Some True)"
    and two: "se_restore_visual en s1 (ck_visual c) identity (vs_emulation_frame (ck_visual c)) = (s2, Some True)"
    and rest: "restore_audio en st s2 c identity audio = (st', s', Restored)"
    using assms(1,2) by (auto simp: restore_def split: option.splits prod.splits bool.splits)
  have "game s1 = game s"
    using one assms(3) by (intro core) (auto simp: checkpoint_of_def)
  moreover have "game s2 = game s1"
    using visual [of s1] two by (metis fst_conv)
  moreover have "game s' = game s2"
    using rest detector [of s2 "ck_audio_header c" identity "ck_detector_windows c"]
      voices [of _ "ck_audio_header c" identity "with_shared_pcm (ck_voices c) (ck_shared_pcm c)"]
      requests [of _ "ck_audio_header c" identity "ck_requests c"]
    by (auto simp: restore_audio_def split: prod.splits option.splits bool.splits) (metis fst_conv)+
  ultimately show ?thesis by simp
qed


theorem restore_gives_back_game_witness:
  "fst (snd (restore example_engine example_store ([9], 5) 3 True)) = ([3], 5)"
proof -
  obtain c where c: "st_checkpoints example_store 3 = Some c" "ck_core_state c = [3]"
    using example_store_core by auto
  obtain st' s' r where run: "restore example_engine example_store ([9], 5) 3 True = (st', s', r)"
    using prod_cases3 by blast
  have "(\<lambda>(st', s', r). (r, snd s')) (restore example_engine example_store ([9], 5) 3 True) = (Restored, 5)"
    by code_simp
  then have r: "r = Restored" "snd s' = 5" using run by simp_all
  have "captured_by example_engine (\<lambda>f s. (s, Capture f) \<in> set ([] @ example_captures)) example_store"
    unfolding example_store_def
    by (rule capture_run_captured [OF example_buffers_stable])
       (auto simp: pool_stable_def make_store_def captured_by_def example_captures_def)
  then obtain s where s: "checkpoint_of example_engine s c"
    using c(1) unfolding captured_by_def by blast
  then have "fst s = [3]"
    using c(2) by (cases s) (auto simp: checkpoint_of_def example_engine_def)
  moreover have "fst s' = fst s"
    by (rule restore_gives_back_game [OF run [unfolded r(1)] c(1) s])
       (auto simp: example_engine_def split: prod.splits)
  ultimately have "s' = ([3], 5)" using r(2) by (cases s') simp
  with run show ?thesis by simp
qed


text \<open>
  An Engine whose visual restore throws: the result is \<open>Core_rejected\<close>, which the recovery takes for
  an untouched session, although the core has been replaced.
\<close>

theorem restore_exception_not_untouched:
  "\<exists>(en :: (bytes \<times> nat) session_engine) st s0 st' s'.
     restore en st s0 3 True = (st', s', Core_rejected) \<and> s' \<noteq> s0"
proof -
  let ?en = "example_engine\<lparr>se_restore_visual := \<lambda>s v identity frame. (s, None)\<rparr>"
  obtain st' s' r where run: "restore ?en example_store ([9], 5) 3 True = (st', s', r)"
    using prod_cases3 by blast
  have "(\<lambda>(st', s', r). (r, s')) (restore ?en example_store ([9], 5) 3 True) = (Core_rejected, ([3], 5))"
    by code_simp
  with run have "r = Core_rejected" "s' \<noteq> ([9], 5)" by auto
  with run show ?thesis by blast
qed

end
