(* ===== verification/Replay_Session.thy ===== *)
theory Replay_Session
  imports Replay_Loop Session_Checkpoints Recovery_Planner Inspection_State
begin

text \<open>
  The inspectable replay of a take: the session loop of \<^verbatim>\<open>src/audio_qa_runtime_session.cpp\<close>, where
  the controller, the planner, the checkpoints and the linear loop meet one Engine session.

  The Engine is an external library: a session of any type \<open>'s\<close> with its operations. The wall clock
  enters only through \<open>late\<close>, which says after which frame a recovery has used up its time. The
  window, the evidence and the texts of the overlay change nothing of this state and are left out, and
  so are the scripted actions that damage the checkpoints for a test.
\<close>

section \<open>State\<close>

datatype audio_call = Set_output_audible bool | Resume_transport | Pause_after_drain | Freeze_production

record 's replay_engine =
  re_states :: "'s session_engine"
  re_set_input :: "'s \<Rightarrow> u16 \<Rightarrow> 's"
  re_step :: "'s \<Rightarrow> 's \<times> u64 option"
  re_audio :: "'s \<Rightarrow> audio_call \<Rightarrow> 's"
  re_rearm :: "'s option \<times> bool"

record 's replay_session =
  rs_session :: "'s option"
  rs_view :: "u64 option"
  rs_loop :: replay_loop
  rs_recorded_buttons :: "u16 list"
  rs_store :: checkpoint_store
  rs_inspectable :: bool
  rs_close_at_end :: bool
  rs_engine_base :: "u64 option"
  rs_session_frame :: "u32 option"
  rs_audible :: bool
  rs_controller :: controller
  rs_confirmed_linear :: bool
  rs_post_end_runs :: u32
  rs_done :: bool
  rs_failed :: bool

definition audio :: "'s replay_engine \<Rightarrow> 's replay_session \<Rightarrow> audio_call \<Rightarrow> 's replay_session" where
  "audio en rs call = rs\<lparr>rs_session := map_option (\<lambda>s. re_audio en s call) (rs_session rs)\<rparr>"

definition set_audible :: "'s replay_engine \<Rightarrow> 's replay_session \<Rightarrow> bool \<Rightarrow> 's replay_session" where
  "set_audible en rs audible =
     (if rs_audible rs = audible then rs
      else audio en (rs\<lparr>rs_audible := audible\<rparr>) (Set_output_audible audible))"

section \<open>Producing a frame\<close>

text \<open>The two operations the linear loop drives; its context is the session and its last view.\<close>

definition stepper_operations :: "'s replay_engine \<Rightarrow> ('s \<times> u64 option) frame_operations" where
  "stepper_operations en =
     \<lparr>op_set_input = Some (\<lambda>(s, view) frame buttons. ((re_set_input en s buttons, view),
        \<lparr>or_succeeded = True, or_engine_frame = 0, or_code = ''ok'', or_detail = []\<rparr>)),
      op_step = Some (\<lambda>(s, view).
        case re_step en s of
          (s', Some index) \<Rightarrow> ((s', Some index),
            \<lparr>or_succeeded = True, or_engine_frame = index, or_code = ''ok'', or_detail = []\<rparr>)
        | (s', None) \<Rightarrow> ((s', view),
            \<lparr>or_succeeded = False, or_engine_frame = 0, or_code = ''replay_step_failed'', or_detail = []\<rparr>))\<rparr>"

definition check_engine_frame :: "'s replay_session \<Rightarrow> u32 \<Rightarrow> 's replay_session \<times> bool" where
  "check_engine_frame rs frame =
     (case rs_view rs of
        None \<Rightarrow> (rs, False)
      | Some index \<Rightarrow>
          (let base = (case rs_engine_base rs of None \<Rightarrow> index - ucast frame - 1 | Some b \<Rightarrow> b);
               rs' = rs\<lparr>rs_engine_base := Some base\<rparr>
           in if index \<noteq> base + ucast frame + 1 then (rs', False)
              else (rs'\<lparr>rs_session_frame := Some frame\<rparr>, True)))"

definition produce :: "'s replay_engine \<Rightarrow> 's replay_session \<Rightarrow> u32 \<Rightarrow> 's replay_session \<times> bool" where
  "produce en rs frame =
     (case rs_session rs of
        None \<Rightarrow> (rs, False)
      | Some s \<Rightarrow>
          if frame = lp_frames_completed (rs_loop rs) then
            (case execute_next (stepper_operations en) (rs_loop rs) (s, rs_view rs) of
               (l, (s', view), es, r) \<Rightarrow>
                 (let rs' = rs\<lparr>rs_loop := l, rs_session := Some s', rs_view := view\<rparr>
                  in if fr_error r \<noteq> Frame_none then (rs', False) else check_engine_frame rs' frame))
          else if frame < lp_frames_completed (rs_loop rs) \<and> unat frame < length (rs_recorded_buttons rs) then
            (case re_step en (re_set_input en s (rs_recorded_buttons rs ! unat frame)) of
               (s', None) \<Rightarrow> (rs\<lparr>rs_session := Some s'\<rparr>, False)
             | (s', Some index) \<Rightarrow>
                 check_engine_frame (rs\<lparr>rs_session := Some s', rs_view := Some index\<rparr>) frame)
          else (rs, False))"

section \<open>Recovery\<close>

text \<open>The loop from the first frame to replay to the goal, with the limit checked after each frame.\<close>

fun produce_range ::
    "'s replay_engine \<Rightarrow> (u32 \<Rightarrow> bool) \<Rightarrow> 's replay_session \<Rightarrow> u32 list \<Rightarrow> 's replay_session \<times> bool" where
  "produce_range en late rs [] = (rs, True)"
| "produce_range en late rs (frame # rest) =
     (case produce en rs frame of
        (rs', False) \<Rightarrow> (rs', False)
      | (rs', True) \<Rightarrow> if late frame then (rs', False) else produce_range en late rs' rest)"

definition frame_range :: "u32 \<Rightarrow> u32 \<Rightarrow> u32 list" where
  "frame_range first to_frame = map of_nat [unat first..<Suc (unat to_frame)]"

definition recovery_plan_for :: "'s replay_session \<Rightarrow> u32 \<Rightarrow> recovery_plan" where
  "recovery_plan_for rs goal =
     (case rs_session_frame rs of
        Some frame \<Rightarrow> plan_recovery (st_ring (rs_store rs)) frame goal
      | None \<Rightarrow>
          (case latest_at_most (st_ring (rs_store rs)) (uint goal - 1) of
             None \<Rightarrow> no_plan
           | Some c \<Rightarrow> \<lparr>plan_kind = Recovery_restore, plan_checkpoint = c,
                        plan_replay_from = word_of_int (c + 1), plan_replay_to = goal\<rparr>))"

definition restore_checkpoint :: "'s replay_engine \<Rightarrow> 's replay_session \<Rightarrow> int \<Rightarrow> 's replay_session \<times> bool" where
  "restore_checkpoint en rs c =
     (case rs_session rs of
        None \<Rightarrow> (rs, False)
      | Some s \<Rightarrow>
          (case restore (re_states en) (rs_store rs) s c (rs_post_end_runs rs = 0) of
             (st, s', result) \<Rightarrow>
               (let rs' = rs\<lparr>rs_store := st, rs_session := Some s'\<rparr>
                in if result = Restored
                   then (rs'\<lparr>rs_session_frame := (if c < 0 then None else Some (word_of_int c)), rs_view := None\<rparr>, True)
                   else if result \<noteq> Missing \<and> result \<noteq> Core_rejected
                   then (rs'\<lparr>rs_session_frame := None, rs_view := None\<rparr>, False)
                   else (rs', False))))"

definition reach :: "'s replay_engine \<Rightarrow> (u32 \<Rightarrow> bool) \<Rightarrow> 's replay_session \<Rightarrow> u32 \<Rightarrow> 's replay_session \<times> bool" where
  "reach en late rs goal =
     (let plan = recovery_plan_for rs goal in
      if plan_kind plan = Recovery_impossible then (rs, False)
      else
        (case (if plan_kind plan = Recovery_step then (rs, rs_session_frame rs = Some (goal - 1))
               else restore_checkpoint en rs (plan_checkpoint plan)) of
           (rs1, False) \<Rightarrow> (rs1, False)
         | (rs1, True) \<Rightarrow>
             (case produce_range en late rs1 (frame_range (plan_replay_from plan) (plan_replay_to plan)) of
                (rs2, False) \<Rightarrow> (rs2, False)
              | (rs2, True) \<Rightarrow> (rs2, rs_session_frame rs2 = Some goal))))"

text \<open>The re-arming of a session for a post-end inspection: its preparation is the Engine's.\<close>

definition rearm :: "'s replay_engine \<Rightarrow> 's replay_session \<Rightarrow> 's replay_session \<times> bool" where
  "rearm en rs =
     (case re_rearm en of
        (s, ok) \<Rightarrow>
          (let rs' = rs\<lparr>rs_post_end_runs := rs_post_end_runs rs + 1, rs_session := s\<rparr>
           in if \<not> ok then (rs', False)
              else (set_audible en (rs'\<lparr>rs_view := None, rs_session_frame := None, rs_audible := True\<rparr>) False, True)))"

definition recover_at ::
    "'s replay_engine \<Rightarrow> (u32 \<Rightarrow> bool) \<Rightarrow> (u32 \<Rightarrow> bool) \<Rightarrow> 's replay_session \<Rightarrow> u32 \<Rightarrow> u32 \<Rightarrow>
     's replay_session \<times> recovery_outcome" where
  "recover_at en late late_back rs confirmed goal =
     (case reach en late (audio en (set_audible en rs False) Resume_transport) goal of
        (rs1, reached) \<Rightarrow>
          (let rs2 = audio en rs1 Pause_after_drain
           in if reached then (rs2, Presented)
              else
                (let rs3 = audio en rs2 Resume_transport in
                 case (if rs_session_frame rs3 = Some confirmed then (rs3, True)
                       else reach en late_back rs3 confirmed) of
                   (rs4, restored) \<Rightarrow>
                     (audio en rs4 Pause_after_drain, if restored then Failed_restored else Failed_unrecoverable))))"

definition recover ::
    "'s replay_engine \<Rightarrow> (u32 \<Rightarrow> bool) \<Rightarrow> (u32 \<Rightarrow> bool) \<Rightarrow> 's replay_session \<Rightarrow> u32 \<Rightarrow>
     's replay_session \<times> recovery_outcome" where
  "recover en late late_back rs goal =
     (let confirmed = position_or_0 (rs_controller rs) in
      case (if rs_confirmed_linear rs \<and> rs_post_end_runs rs = 0 then rearm en rs else (rs, True)) of
        (rs1, False) \<Rightarrow> (rs1, Failed_unrecoverable)
      | (rs1, True) \<Rightarrow>
          (if rs_session rs1 = None then (rs1, Failed_unrecoverable)
           else recover_at en late late_back rs1 confirmed goal))"

section \<open>Commands of the controller\<close>

text \<open>
  The end of the linear production, \<open>finish\<close> with the window kept: the exhausted input is confirmed
  and the production is frozen. It reports by its exit code only; the window stays either way.
\<close>

definition finish_linear :: "'s replay_engine \<Rightarrow> 's replay_session \<Rightarrow> 's replay_session" where
  "finish_linear en rs =
     (let rs1 = audio en (set_audible en rs True) Resume_transport in
      case rs_session rs1 of
        None \<Rightarrow> rs1
      | Some s \<Rightarrow>
          (if ended_naturally (rs_controller rs1) \<and>
              lp_frames_completed (rs_loop rs1) = frames (rs_controller rs1)
           then
             (case execute_next (stepper_operations en) (rs_loop rs1) (s, rs_view rs1) of
                (l, (s', view), es, r) \<Rightarrow>
                  (let rs2 = rs1\<lparr>rs_loop := l, rs_session := Some s', rs_view := view\<rparr>
                   in if fr_error r \<noteq> Input_exhausted then rs2 else audio en rs2 Freeze_production))
           else audio en rs1 Freeze_production))"

definition apply_command :: "'s replay_engine \<Rightarrow> 's replay_session \<Rightarrow> command \<Rightarrow> 's replay_session" where
  "apply_command en rs c =
     (case command_kind c of
        Pause_audio \<Rightarrow> if rs_confirmed_linear rs then rs else audio en rs Pause_after_drain
      | Resume_audio \<Rightarrow> audio en (set_audible en rs True) Resume_transport
      | Confirm_linear_result \<Rightarrow>
          (let rs1 = (finish_linear en rs)\<lparr>rs_confirmed_linear := True\<rparr>
           in if rs_session rs1 = None \<or> rs_close_at_end rs1 then rs1\<lparr>rs_done := True\<rparr> else rs1)
      | Advance_take \<Rightarrow> rs\<lparr>rs_done := True\<rparr>
      | Finish_traversal \<Rightarrow> rs\<lparr>rs_done := True\<rparr>
      | Close_command \<Rightarrow> rs\<lparr>rs_done := True\<rparr>
      | _ \<Rightarrow> rs)"

definition apply_commands :: "'s replay_engine \<Rightarrow> 's replay_session \<Rightarrow> controller \<times> command list \<Rightarrow> 's replay_session" where
  "apply_commands en rs result = foldl (apply_command en) (rs\<lparr>rs_controller := fst result\<rparr>) (snd result)"

section \<open>The turns of the loop\<close>

text \<open>A turn in which the controller plays or is pausing and a frame starts.\<close>

definition frame_turn :: "'s replay_engine \<Rightarrow> 's replay_session \<Rightarrow> 's replay_session" where
  "frame_turn en rs =
     (let frame = next_frame (rs_controller rs) in
      case produce en (set_audible en rs True) frame of
        (rs1, False) \<Rightarrow> rs1\<lparr>rs_failed := True, rs_done := True\<rparr>
      | (rs1, True) \<Rightarrow>
          (let rs2 =
             (case rs_session rs1 of
                Some s \<Rightarrow>
                  if rs_inspectable rs1 \<and> should_capture (st_ring (rs_store rs1)) frame \<and>
                     frame + 1 = lp_frames_completed (rs_loop rs1)
                  then rs1\<lparr>rs_store := fst (capture (re_states en) (rs_store rs1) s (uint frame))\<rparr>
                  else rs1
              | None \<Rightarrow> rs1)
           in apply_commands en rs2 (frame_completed (rs_controller rs2) frame)))"

text \<open>A turn in which the controller is recovering.\<close>

definition recovery_turn ::
    "'s replay_engine \<Rightarrow> (u32 \<Rightarrow> bool) \<Rightarrow> (u32 \<Rightarrow> bool) \<Rightarrow> 's replay_session \<Rightarrow> 's replay_session" where
  "recovery_turn en late late_back rs =
     (let goal = (case target (rs_controller rs) of Some g \<Rightarrow> g | None \<Rightarrow> 0) in
      case recover en late late_back rs goal of
        (rs1, outcome) \<Rightarrow> apply_commands en rs1 (recovery_finished (rs_controller rs1) outcome))"

definition turn ::
    "'s replay_engine \<Rightarrow> bool \<Rightarrow> (u32 \<Rightarrow> bool) \<Rightarrow> (u32 \<Rightarrow> bool) \<Rightarrow> 's replay_session \<Rightarrow> 's replay_session" where
  "turn en due late late_back rs =
     (case phase (rs_controller rs) of
        Playing \<Rightarrow>
          if take_end_pending (rs_controller rs)
          then (if due then apply_commands en rs (take_slot_reached (rs_controller rs)) else rs)
          else if due then frame_turn en rs else rs
      | Pausing \<Rightarrow> frame_turn en rs
      | Recovering \<Rightarrow> recovery_turn en late late_back rs
      | _ \<Rightarrow> rs)"

text \<open>
  What the loop does between two polls: a key the router let through, a cancellation or a closed
  window, a lost or recovered presentation, and the turn itself, with whether the cadence is due.
\<close>

datatype session_event =
  Session_prepared
| Session_key key_action
| Session_cancelled
| Session_interrupted string
| Session_recovered
| Session_turn bool "u32 \<Rightarrow> bool" "u32 \<Rightarrow> bool"

fun session_react :: "'s replay_engine \<Rightarrow> 's replay_session \<Rightarrow> session_event \<Rightarrow> 's replay_session" where
  "session_react en rs Session_prepared = apply_commands en rs (prepared (rs_controller rs))"
| "session_react en rs (Session_key action) = apply_commands en rs (key (rs_controller rs) action Between_frames)"
| "session_react en rs Session_cancelled = apply_commands en rs (cancel (rs_controller rs))"
| "session_react en rs (Session_interrupted cause) =
     (if phase (rs_controller rs) = Interrupted \<or> phase (rs_controller rs) = Closing then rs
      else apply_commands en rs (presentation_interrupted (rs_controller rs) cause))"
| "session_react en rs Session_recovered = apply_commands en rs (presentation_recovered (rs_controller rs))"
| "session_react en rs (Session_turn due late late_back) = turn en due late late_back rs"

definition session_step :: "'s replay_engine \<Rightarrow> 's replay_session \<Rightarrow> session_event \<Rightarrow> 's replay_session" where
  "session_step en rs e = (if rs_done rs then rs else session_react en rs e)"

text \<open>The session as the loop finds it: the take is ready, its initial checkpoint captured.\<close>

definition make_replay_session ::
    "'s replay_engine \<Rightarrow> 's \<Rightarrow> publication \<Rightarrow> input_source \<Rightarrow> replay_progress option \<Rightarrow> bool \<Rightarrow> bool \<Rightarrow> bool \<Rightarrow>
     u32 \<Rightarrow> u64 \<Rightarrow> 's replay_session \<times> bool" where
  "make_replay_session en s publication inputs progress inspectable close_at_end is_last interval budget_bytes =
     (case (if inspectable then capture (re_states en) (make_store interval budget_bytes) s initial_checkpoint_frame
            else (make_store interval budget_bytes, True)) of
        (st, ok) \<Rightarrow>
          (\<lparr>rs_session = Some s, rs_view = None, rs_loop = make_loop publication inputs progress,
            rs_recorded_buttons = map fi_buttons (drain_inputs (Suc (unat (src_frame_count inputs))) inputs),
            rs_store = st, rs_inspectable = inspectable, rs_close_at_end = close_at_end, rs_engine_base = None, rs_session_frame = None,
            rs_audible = True, rs_controller = make_controller (src_frame_count inputs) is_last,
            rs_confirmed_linear = False, rs_post_end_runs = 0, rs_done = False, rs_failed = False\<rparr>, ok))"

section \<open>Properties\<close>

subsection \<open>The Engine the session relies on\<close>

text \<open>
  What the code relies on, for the part of a session that decides the game (\<open>game\<close>): a step is a
  function of the game and the buttons and increments the Engine's frame index; reading back a
  serialized core gives its game; sound, pictures and voices never touch it; a call that fails or
  throws leaves the game as it was; and the calls that restore pictures and sound do not throw.
\<close>

definition faithful_engine ::
    "'s replay_engine \<Rightarrow> ('s \<Rightarrow> 'g) \<Rightarrow> ('g \<Rightarrow> u16 \<Rightarrow> 'g) \<Rightarrow> ('g \<Rightarrow> u64) \<Rightarrow> (nat \<Rightarrow> samples) \<Rightarrow> bool" where
  "faithful_engine en game gstep index heap \<longleftrightarrow>
     buffers_stable (re_states en) heap \<and>
     (\<forall>s b s' i. re_step en (re_set_input en s b) = (s', Some i) \<longrightarrow>
        game s' = gstep (game s) b \<and> i = index (game s')) \<and>
     (\<forall>s b s'. re_step en (re_set_input en s b) = (s', None) \<longrightarrow> game s' = game s) \<and>
     (\<forall>g b. index (gstep g b) = index g + 1) \<and>
     (\<forall>s call. game (re_audio en s call) = game s) \<and>
     (\<forall>x y bs z. se_serialize (re_states en) x = Some bs \<longrightarrow>
        se_unserialize (re_states en) y bs = (z, Some True) \<longrightarrow> game z = game x) \<and>
     (\<forall>y bs z r. se_unserialize (re_states en) y bs = (z, r) \<longrightarrow> r \<noteq> Some True \<longrightarrow> game z = game y) \<and>
     (\<forall>s. se_identity (re_states en) s \<noteq> None) \<and>
     (\<forall>s v i f. game (fst (se_restore_visual (re_states en) s v i f)) = game s \<and>
        snd (se_restore_visual (re_states en) s v i f) \<noteq> None) \<and>
     (\<forall>s h i d. game (fst (se_restore_detector (re_states en) s h i d)) = game s \<and>
        snd (se_restore_detector (re_states en) s h i d) \<noteq> None) \<and>
     (\<forall>s h i w. game (fst (se_restore_voices (re_states en) s h i w)) = game s \<and>
        snd (se_restore_voices (re_states en) s h i w) \<noteq> None) \<and>
     (\<forall>s h i q. game (fst (se_restore_requests (re_states en) s h i q)) = game s \<and>
        snd (se_restore_requests (re_states en) s h i q) \<noteq> None)"

text \<open>The game that producing the take linearly gives after a frame; frame -1 is the start.\<close>

definition linear_game :: "('g \<Rightarrow> u16 \<Rightarrow> 'g) \<Rightarrow> 'g \<Rightarrow> u16 list \<Rightarrow> int \<Rightarrow> 'g" where
  "linear_game gstep g0 bs frame = state_at_frame (\<lambda>g k. gstep g (bs ! nat k)) g0 frame"

lemma linear_game_start [simp]: "linear_game gstep g0 bs (- 1) = g0"
  by (simp add: linear_game_def state_at_frame_def)

lemma linear_game_next:
  assumes "0 \<le> frame"
  shows "linear_game gstep g0 bs frame = gstep (linear_game gstep g0 bs (frame - 1)) (bs ! nat frame)"
proof -
  have "nat (frame + 1) = Suc (nat frame)" using assms by simp
  then show ?thesis using assms by (simp add: linear_game_def state_at_frame_def)
qed

lemma linear_game_index:
  assumes "\<forall>g b. index (gstep g b) = (index g :: u64) + 1"
  shows "index (linear_game gstep g0 bs (int k - 1)) = index g0 + of_nat k"
proof (induction k)
  case (Suc k)
  have "linear_game gstep g0 bs (int (Suc k) - 1) = gstep (linear_game gstep g0 bs (int k - 1)) (bs ! k)"
    using linear_game_next [of "int k" gstep g0 bs] by simp
  with Suc assms show ?case by simp
qed simp

lemma faithful_engineD:
  assumes "faithful_engine en game gstep index heap"
  shows "buffers_stable (re_states en) heap"
    and "re_step en (re_set_input en s b) = (s', Some i) \<Longrightarrow> game s' = gstep (game s) b \<and> i = index (game s')"
    and "re_step en (re_set_input en s b) = (s', None) \<Longrightarrow> game s' = game s"
    and "index (gstep g b) = index g + 1"
    and "game (re_audio en s call) = game s"
proof -
  have next_index: "\<forall>g b. index (gstep g b) = index g + 1"
    and sound: "\<forall>s call. game (re_audio en s call) = game s"
    and stepped: "\<forall>s b s' i. re_step en (re_set_input en s b) = (s', Some i) \<longrightarrow>
      game s' = gstep (game s) b \<and> i = index (game s')"
    and refused: "\<forall>s b s'. re_step en (re_set_input en s b) = (s', None) \<longrightarrow> game s' = game s"
    and stable: "buffers_stable (re_states en) heap"
    using assms unfolding faithful_engine_def by - (elim conjE, assumption)+
  show "index (gstep g b) = index g + 1" and "game (re_audio en s call) = game s"
    by (simp_all only: next_index sound)
  show "re_step en (re_set_input en s b) = (s', Some i) \<Longrightarrow> game s' = gstep (game s) b \<and> i = index (game s')"
    using stepped by blast
  show "re_step en (re_set_input en s b) = (s', None) \<Longrightarrow> game s' = game s"
    using refused by blast
  show "buffers_stable (re_states en) heap"
    by (rule stable)
qed

subsection \<open>One restore\<close>

lemma restore_audio_game:
  assumes "faithful_engine en game gstep index heap"
    and "restore_audio (re_states en) st s c identity flag = (st', s', r)"
  shows "game s' = game s \<and> st_ring st' = st_ring st \<and> st_checkpoints st' = st_checkpoints st \<and>
    st_pool st' = st_pool st \<and> r \<noteq> Missing \<and> r \<noteq> Core_rejected"
proof -
  have d: "game (fst (se_restore_detector (re_states en) s h i d)) = game s \<and>
      snd (se_restore_detector (re_states en) s h i d) \<noteq> None" for s h i d
    using assms(1) by (simp add: faithful_engine_def)
  have w: "game (fst (se_restore_voices (re_states en) s h i w)) = game s \<and>
      snd (se_restore_voices (re_states en) s h i w) \<noteq> None" for s h i w
    using assms(1) by (simp add: faithful_engine_def)
  have q: "game (fst (se_restore_requests (re_states en) s h i q)) = game s \<and>
      snd (se_restore_requests (re_states en) s h i q) \<noteq> None" for s h i q
    using assms(1) by (simp add: faithful_engine_def)
  obtain s1 r1 where 1: "se_restore_detector (re_states en) s (ck_audio_header c) identity (ck_detector_windows c) = (s1, r1)"
    by fastforce
  obtain s2 r2 where 2: "se_restore_voices (re_states en) s1 (ck_audio_header c) identity
      (with_shared_pcm (ck_voices c) (ck_shared_pcm c)) = (s2, r2)"
    by fastforce
  obtain s3 r3 where 3: "se_restore_requests (re_states en) s2 (ck_audio_header c) identity (ck_requests c) = (s3, r3)"
    by fastforce
  have g1: "game s1 = game s" "r1 \<noteq> None" using d [of s] 1 by (metis fst_conv snd_conv)+
  have g2: "game s2 = game s1" "r2 \<noteq> None" using w [of s1] 2 by (metis fst_conv snd_conv)+
  have g3: "game s3 = game s2" "r3 \<noteq> None" using q [of s2] 3 by (metis fst_conv snd_conv)+
  obtain b1 b2 b3 where "r1 = Some b1" "r2 = Some b2" "r3 = Some b3"
    using g1 g2 g3 by blast
  with assms(2) 1 2 3 g1 g2 g3 show ?thesis
    by (cases b1; cases b2; cases b3) (auto simp: restore_audio_def split: if_splits)
qed

lemma restore_game:
  assumes "faithful_engine en game gstep index heap"
    and "restore (re_states en) st s frame flag = (st', s', r)"
    and "captured_by (re_states en) (\<lambda>f s. game s = L f) st"
  shows "st_ring st' = st_ring st \<and> st_checkpoints st' = st_checkpoints st \<and> st_pool st' = st_pool st \<and>
    (r = Restored \<longrightarrow> game s' = L frame) \<and> (r = Missing \<or> r = Core_rejected \<longrightarrow> game s' = game s) \<and>
    (r = Restored \<longrightarrow> frame \<in> dom (st_checkpoints st))"
proof (cases "st_checkpoints st frame")
  case None
  with assms(2) show ?thesis by (simp add: restore_def)
next
  case (Some c)
  obtain s1 r1 where core: "se_unserialize (re_states en) s (ck_core_state c) = (s1, r1)" by fastforce
  obtain x where x: "game x = L frame" "checkpoint_of (re_states en) x c"
    using assms(3) Some by (auto simp: captured_by_def)
  have ok: "r1 = Some True \<Longrightarrow> game s1 = L frame" and bad: "r1 \<noteq> Some True \<Longrightarrow> game s1 = game s"
    using assms(1) core x by (auto simp: faithful_engine_def checkpoint_of_def)
  show ?thesis
  proof (cases "r1 = Some True")
    case False
    then have "st' = st \<and> s' = s1 \<and> r = Core_rejected"
      using assms(2) Some core by (auto simp: restore_def split: option.splits bool.splits)
    with bad False show ?thesis by simp
  next
    case True
    obtain identity where identity: "se_identity (re_states en) s1 = Some identity"
      using assms(1) by (fastforce simp: faithful_engine_def)
    obtain s2 r2 where visual: "se_restore_visual (re_states en) s1 (ck_visual c) identity
        (vs_emulation_frame (ck_visual c)) = (s2, r2)"
      by fastforce
    have "game (fst (se_restore_visual (re_states en) s1 v i f)) = game s1 \<and>
        snd (se_restore_visual (re_states en) s1 v i f) \<noteq> None" for v i f
      using assms(1) by (simp add: faithful_engine_def)
    then have same: "game s2 = game s1" "r2 \<noteq> None"
      using visual by (metis fst_conv snd_conv)+
    then obtain b2 where "r2 = Some b2" by blast
    with assms(2) Some core True identity visual ok same show ?thesis
      by (cases b2) (auto simp: restore_def dest!: restore_audio_game [OF assms(1)])
  qed
qed

subsection \<open>The invariant of the session\<close>

definition session_at :: "('s \<Rightarrow> 'g) \<Rightarrow> (int \<Rightarrow> 'g) \<Rightarrow> 's replay_session \<Rightarrow> int \<Rightarrow> bool" where
  "session_at game L rs f \<longleftrightarrow> (\<exists>s. rs_session rs = Some s \<and> game s = L f)"

definition loop_of_take :: "u16 list \<Rightarrow> replay_loop \<Rightarrow> bool" where
  "loop_of_take bs l \<longleftrightarrow>
     loop_wf (of_nat (length bs)) l \<and> length bs < 2 ^ 32 \<and>
     (\<forall>k. unat k < length bs \<longrightarrow> fi_buttons (recorded_input (lp_inputs l) k) = bs ! unat k)"

definition store_of_take ::
    "'s session_engine \<Rightarrow> ('s \<Rightarrow> 'g) \<Rightarrow> (int \<Rightarrow> 'g) \<Rightarrow> (nat \<Rightarrow> samples) \<Rightarrow> nat \<Rightarrow> checkpoint_store \<Rightarrow> bool" where
  "store_of_take en game L heap n st \<longleftrightarrow>
     store_wf st \<and> pool_stable (st_pool st) heap \<and>
     captured_by en (\<lambda>f s. game s = L f \<and> f < int n) st"

definition session_inv ::
    "'s replay_engine \<Rightarrow> ('s \<Rightarrow> 'g) \<Rightarrow> ('g \<Rightarrow> u16 \<Rightarrow> 'g) \<Rightarrow> ('g \<Rightarrow> u64) \<Rightarrow> (nat \<Rightarrow> samples) \<Rightarrow> 'g \<Rightarrow>
     u16 list \<Rightarrow> 's replay_session \<Rightarrow> bool" where
  "session_inv en game gstep index heap g0 bs rs \<longleftrightarrow>
     loop_of_take bs (rs_loop rs) \<and> rs_recorded_buttons rs = bs \<and>
     store_of_take (re_states en) game (linear_game gstep g0 bs) heap (length bs) (rs_store rs) \<and>
     rs_engine_base rs \<in> {None, Some (index g0)} \<and>
     (rs_engine_base rs = None \<longrightarrow>
        rs_session_frame rs = None \<and> (\<forall>c \<in> dom (st_checkpoints (rs_store rs)). c < 0)) \<and>
     (\<forall>k. rs_session_frame rs = Some k \<longrightarrow>
        unat k < length bs \<and> session_at game (linear_game gstep g0 bs) rs (uint k))"

text \<open>What the steps below the turns leave alone.\<close>

definition same_control :: "'s replay_session \<Rightarrow> 's replay_session \<Rightarrow> bool" where
  "same_control rs rs' \<longleftrightarrow> rs_controller rs' = rs_controller rs \<and> rs_done rs' = rs_done rs"

lemma same_control_refl [simp]: "same_control rs rs"
  by (simp add: same_control_def)

lemma same_control_trans [trans]: "same_control a b \<Longrightarrow> same_control b c \<Longrightarrow> same_control a c"
  by (simp add: same_control_def)

lemma audio_fields [simp]:
  "rs_loop (audio en rs call) = rs_loop rs" "rs_store (audio en rs call) = rs_store rs"
  "rs_recorded_buttons (audio en rs call) = rs_recorded_buttons rs"
  "rs_engine_base (audio en rs call) = rs_engine_base rs"
  "rs_session_frame (audio en rs call) = rs_session_frame rs"
  "rs_controller (audio en rs call) = rs_controller rs" "rs_done (audio en rs call) = rs_done rs"
  "rs_post_end_runs (audio en rs call) = rs_post_end_runs rs"
  "rs_view (audio en rs call) = rs_view rs"
  "rs_session (audio en rs call) = None \<longleftrightarrow> rs_session rs = None"
  by (simp_all add: audio_def)

lemma set_audible_fields [simp]:
  "rs_loop (set_audible en rs b) = rs_loop rs" "rs_store (set_audible en rs b) = rs_store rs"
  "rs_recorded_buttons (set_audible en rs b) = rs_recorded_buttons rs"
  "rs_engine_base (set_audible en rs b) = rs_engine_base rs"
  "rs_session_frame (set_audible en rs b) = rs_session_frame rs"
  "rs_controller (set_audible en rs b) = rs_controller rs" "rs_done (set_audible en rs b) = rs_done rs"
  "rs_view (set_audible en rs b) = rs_view rs"
  "rs_session (set_audible en rs b) = None \<longleftrightarrow> rs_session rs = None"
  by (simp_all add: set_audible_def)

lemma same_control_audio [simp]:
  "same_control rs (audio en rs call)" "same_control rs (set_audible en rs b)"
  by (simp_all add: same_control_def)

lemma session_at_audio:
  assumes "faithful_engine en game gstep index heap"
  shows "session_at game L (audio en rs call) f = session_at game L rs f"
    and "session_at game L (set_audible en rs b) f = session_at game L rs f"
proof -
  have "session_at game L (audio en rs call) f = session_at game L rs f" for rs call
    by (auto simp: session_at_def audio_def faithful_engineD(5) [OF assms])
  then show "session_at game L (audio en rs call) f = session_at game L rs f"
    and "session_at game L (set_audible en rs b) f = session_at game L rs f"
    by (simp_all add: set_audible_def) (simp add: session_at_def)
qed

lemma session_inv_audio:
  assumes "faithful_engine en game gstep index heap"
  shows "session_inv en game gstep index heap g0 bs (audio en rs call) = session_inv en game gstep index heap g0 bs rs"
    and "session_inv en game gstep index heap g0 bs (set_audible en rs b) = session_inv en game gstep index heap g0 bs rs"
  using session_at_audio [OF assms] by (simp_all add: session_inv_def)

subsection \<open>One frame\<close>

lemma linear_game_step:
  assumes "unat frame < length bs"
  shows "linear_game gstep g0 bs (uint (frame :: u32)) = gstep (linear_game gstep g0 bs (uint frame - 1)) (bs ! unat frame)"
  using linear_game_next [of "uint frame" gstep g0 bs] by simp

lemma linear_game_position:
  assumes "faithful_engine en game gstep index heap"
  shows "index (linear_game gstep g0 bs (uint (frame :: u32))) = index g0 + ucast frame + 1"
proof -
  have "index (linear_game gstep g0 bs (int (Suc (unat frame)) - 1)) = index g0 + of_nat (Suc (unat frame))"
    by (rule linear_game_index) (simp add: faithful_engineD(4) [OF assms])
  moreover have "int (Suc (unat frame)) - 1 = uint frame" by simp
  ultimately show ?thesis by (simp add: add.assoc)
qed

lemma check_engine_frame_at:
  assumes "faithful_engine en game gstep index heap"
    and "rs_view rs = Some (index (linear_game gstep g bs (uint frame)))"
    and "rs_engine_base rs \<in> {None, Some (index g)}"
  shows "check_engine_frame rs frame =
    (rs\<lparr>rs_engine_base := Some (index g), rs_session_frame := Some frame\<rparr>, True)"
  using assms(2,3) linear_game_position [OF assms(1), of g bs frame]
  by (auto simp: check_engine_frame_def)

lemma stepper_drive:
  assumes "faithful_engine en game gstep index heap"
  shows "drive_ok (stepper_operations en) (s, view) i \<Longrightarrow>
      \<exists>s'. drive (stepper_operations en) (s, view) i = (s', Some (index (game s'))) \<and>
        game s' = gstep (game s) (fi_buttons i)"
    and "drive_failed (stepper_operations en) (s, view) i (s', view') \<Longrightarrow> game s' = game s \<and> view' = view"
proof -
  obtain s1 r where step: "re_step en (re_set_input en s (fi_buttons i)) = (s1, r)" by fastforce
  have ok: "r = Some k \<Longrightarrow> game s1 = gstep (game s) (fi_buttons i) \<and> k = index (game s1)" for k
    using faithful_engineD(2) [OF assms, of s "fi_buttons i" s1 k] step by simp
  have bad: "r = None \<Longrightarrow> game s1 = game s"
    using faithful_engineD(3) [OF assms, of s "fi_buttons i" s1] step by simp
  show "drive_ok (stepper_operations en) (s, view) i \<Longrightarrow>
      \<exists>s'. drive (stepper_operations en) (s, view) i = (s', Some (index (game s'))) \<and>
        game s' = gstep (game s) (fi_buttons i)"
    using step ok by (auto simp: drive_ok_def drive_input_def drive_def stepper_operations_def split: option.splits)
  show "drive_failed (stepper_operations en) (s, view) i (s', view') \<Longrightarrow> game s' = game s \<and> view' = view"
    using step bad
    by (auto simp: drive_failed_def drive_ok_def drive_input_def drive_def stepper_operations_def split: option.splits)
qed

lemma session_inv_advance:
  assumes "session_inv en game gstep index heap g0 bs rs"
    and "loop_of_take bs l" and "unat frame < length bs" and "game s = linear_game gstep g0 bs (uint frame)"
  shows "session_inv en game gstep index heap g0 bs
    (rs\<lparr>rs_loop := l, rs_session := Some s, rs_view := v, rs_engine_base := Some (index g0),
       rs_session_frame := Some frame\<rparr>)"
  using assms by (simp add: session_inv_def session_at_def)

lemma produce_at:
  assumes "faithful_engine en game gstep index heap"
    and "session_inv en game gstep index heap g0 bs rs"
    and "session_at game (linear_game gstep g0 bs) rs (uint frame - 1)"
    and "produce en rs frame = (rs', ok)"
  shows "session_inv en game gstep index heap g0 bs rs' \<and> same_control rs rs' \<and>
    (ok \<longrightarrow> rs_session_frame rs' = Some frame)"
proof -
  let ?L = "linear_game gstep g0 bs"
  let ?inv = "session_inv en game gstep index heap g0 bs"
  obtain s where s: "rs_session rs = Some s" "game s = ?L (uint frame - 1)"
    using assms(3) by (auto simp: session_at_def)
  have bs: "rs_recorded_buttons rs = bs" "loop_of_take bs (rs_loop rs)"
    and base: "rs_engine_base rs \<in> {None, Some (index g0)}"
    using assms(2) by (auto simp: session_inv_def)
  have stay: "?inv (rs\<lparr>rs_loop := l, rs_session := Some s', rs_view := v\<rparr>)"
    if "loop_of_take bs l" "game s' = game s" for l s' v
    using assms(2) that s by (auto simp: session_inv_def session_at_def)
  consider (live) "frame = lp_frames_completed (rs_loop rs)"
    | (again) "frame \<noteq> lp_frames_completed (rs_loop rs)"
        "frame < lp_frames_completed (rs_loop rs) \<and> unat frame < length bs"
    | (refused) "frame \<noteq> lp_frames_completed (rs_loop rs)"
        "\<not> (frame < lp_frames_completed (rs_loop rs) \<and> unat frame < length bs)"
    by blast
  then show ?thesis
  proof cases
    case live
    obtain l c es r where run: "execute_next (stepper_operations en) (rs_loop rs) (s, rs_view rs) = (l, c, es, r)"
      using prod_cases4 by blast
    obtain s' view where c: "c = (s', view)" by fastforce
    let ?n = "of_nat (length bs) :: u32"
    let ?i = "recorded_input (lp_inputs (rs_loop rs)) frame"
    have wf: "loop_wf ?n (rs_loop rs)" and len: "unat ?n = length bs"
      using bs(2) by (auto simp: loop_of_take_def unat_of_nat_small)
    note result = execute_next_result [OF run wf, folded live]
    have l: "loop_of_take bs l"
      using result bs(2) by (auto simp: loop_of_take_def recorded_input_def)
    show ?thesis
    proof (cases "fr_error r = Frame_none")
      case True
      then have less: "unat frame < length bs" and drive: "c = drive (stepper_operations en) (s, rs_view rs) ?i"
        "drive_ok (stepper_operations en) (s, rs_view rs) ?i"
        using result len by (auto simp: word_less_nat_alt)
      moreover have "fi_buttons ?i = bs ! unat frame"
        using bs(2) less by (simp add: loop_of_take_def)
      ultimately have at: "game s' = ?L (uint frame)" "view = Some (index (?L (uint frame)))"
        using stepper_drive(1) [OF assms(1) drive(2)] c s linear_game_step [OF less, of gstep g0] by auto
      have "check_engine_frame (rs\<lparr>rs_loop := l, rs_session := Some s', rs_view := view\<rparr>) frame = (rs', ok)"
        using assms(4) s run c live True by (simp add: produce_def)
      then have "rs' = rs\<lparr>rs_loop := l, rs_session := Some s', rs_view := view, rs_engine_base := Some (index g0),
          rs_session_frame := Some frame\<rparr>"
        using base at by (simp add: check_engine_frame_at [OF assms(1), where g = g0 and bs = bs])
      then show ?thesis
        using session_inv_advance [OF assms(2) l less at(1)] by (simp add: same_control_def)
    next
      case False
      then have "game s' = game s"
        using result c stepper_drive(2) [OF assms(1)] by auto
      moreover have "rs' = rs\<lparr>rs_loop := l, rs_session := Some s', rs_view := view\<rparr>" "\<not> ok"
        using assms(4) s run c live False by (auto simp: produce_def)
      ultimately show ?thesis using stay [OF l] by (simp add: same_control_def)
    qed
  next
    case again
    obtain s' r where step: "re_step en (re_set_input en s (bs ! unat frame)) = (s', r)" by fastforce
    show ?thesis
    proof (cases r)
      case None
      have "game s' = game s" using faithful_engineD(3) [OF assms(1)] step None by blast
      moreover have "rs' = rs\<lparr>rs_session := Some s'\<rparr>" "\<not> ok"
        using assms(4) s again step None bs by (auto simp: produce_def)
      ultimately show ?thesis
        using stay [OF bs(2), of s' "rs_view rs"] by (simp add: same_control_def)
    next
      case (Some k)
      have at: "game s' = ?L (uint frame)" "k = index (?L (uint frame))"
        using faithful_engineD(2) [OF assms(1) step [unfolded Some]] s linear_game_step [of frame bs gstep g0] again by simp_all
      have "check_engine_frame (rs\<lparr>rs_session := Some s', rs_view := Some k\<rparr>) frame = (rs', ok)"
        using assms(4) s again step Some bs by (auto simp: produce_def)
      then have "rs' = rs\<lparr>rs_session := Some s', rs_view := Some k, rs_engine_base := Some (index g0),
          rs_session_frame := Some frame\<rparr>"
        using base at by (simp add: check_engine_frame_at [OF assms(1), where g = g0 and bs = bs])
      then show ?thesis
        using session_inv_advance [OF assms(2) bs(2) _ at(1), of "Some k"] again by (simp add: same_control_def)
    qed
  next
    case refused
    with assms(2,4) s bs show ?thesis by (auto simp: produce_def)
  qed
qed

lemma produce_range_at:
  assumes "faithful_engine en game gstep index heap"
    and "session_inv en game gstep index heap g0 bs rs"
    and "session_at game (linear_game gstep g0 bs) rs (int a - 1)" and "b \<le> 2 ^ 32"
    and "produce_range en late rs (map of_nat [a..<b]) = (rs', ok)"
  shows "session_inv en game gstep index heap g0 bs rs' \<and> same_control rs rs'"
  using assms(2-5)
proof (induction "b - a" arbitrary: a rs)
  case 0
  then show ?case by simp
next
  case (Suc m)
  have less: "a < b" and m: "m = b - Suc a" using Suc.hyps(2) by simp_all
  have a: "uint (of_nat a :: u32) = int a"
    using less Suc.prems(3) by (simp add: unsigned_of_nat take_bit_nat_eq_self)
  obtain rs1 ok1 where one: "produce en rs (of_nat a) = (rs1, ok1)" by fastforce
  note at = produce_at [OF assms(1) Suc.prems(1) Suc.prems(2) [folded a] one]
  show ?case
  proof (cases "ok1 \<and> \<not> late (of_nat a)")
    case True
    then have rest: "produce_range en late rs1 (map of_nat [Suc a..<b]) = (rs', ok)"
      using Suc.prems(4) less one by (simp add: upt_conv_Cons)
    have "session_at game (linear_game gstep g0 bs) rs1 (int (Suc a) - 1)"
      using at True a by (auto simp: session_inv_def)
    then show ?thesis
      using Suc.hyps(1) [OF m _ _ Suc.prems(3) rest] at same_control_trans by blast
  next
    case False
    then have "rs' = rs1"
      using Suc.prems(4) less one by (auto simp: upt_conv_Cons split: bool.splits)
    with at show ?thesis by simp
  qed
qed

subsection \<open>Recovery\<close>

lemma checkpoint_below:
  assumes "ring_wf r" and "latest_at_most r (uint (goal :: u32) - 1) = Some c"
  shows "- 1 \<le> c" and "c < uint goal" and "uint (word_of_int (c + 1) :: u32) = c + 1"
    and "0 \<le> c \<Longrightarrow> uint (word_of_int c :: u32) = c"
proof -
  have "c \<in> ring_frames r" and le: "c \<le> uint goal - 1"
    using ring_source.latest_SomeD [OF assms] by blast+
  then show low: "- 1 \<le> c"
    using ring_source.frames_bounds [OF assms(1)] by blast
  show "c < uint goal" using le by simp
  have "c < 2 ^ 32 - 1"
    using order_le_less_trans [OF le, of "2 ^ 32 - 1"] uint_u32_bound [of goal] by simp
  with low show "uint (word_of_int (c + 1) :: u32) = c + 1"
    by (rule uint_of_checkpoint)
  show "0 \<le> c \<Longrightarrow> uint (word_of_int c :: u32) = c"
    using \<open>c < 2 ^ 32 - 1\<close> by (simp add: uint_word_of_int)
qed

lemma restore_checkpoint_at:
  assumes "faithful_engine en game gstep index heap"
    and "session_inv en game gstep index heap g0 bs rs"
    and "0 \<le> c \<Longrightarrow> uint (word_of_int c :: u32) = c"
    and "restore_checkpoint en rs c = (rs', ok)"
  shows "session_inv en game gstep index heap g0 bs rs' \<and> same_control rs rs' \<and>
    (ok \<longrightarrow> session_at game (linear_game gstep g0 bs) rs' c)"
proof (cases "rs_session rs")
  case None
  with assms(2,4) show ?thesis by (auto simp: restore_checkpoint_def)
next
  case (Some s)
  let ?L = "linear_game gstep g0 bs"
  obtain st s' r where run: "restore (re_states en) (rs_store rs) s c (rs_post_end_runs rs = 0) = (st, s', r)"
    using prod_cases3 by blast
  have store: "store_of_take (re_states en) game ?L heap (length bs) (rs_store rs)"
    using assms(2) by (simp add: session_inv_def)
  then have "captured_by (re_states en) (\<lambda>f s. game s = ?L f) (rs_store rs)"
    by (auto simp: store_of_take_def elim: captured_by_mono)
  note restored = restore_game [OF assms(1) run this]
  have st: "store_of_take (re_states en) game ?L heap (length bs) st"
    using store restored by (simp add: store_of_take_def store_wf_def captured_by_def)
  have small: "r = Restored \<Longrightarrow> c < int (length bs)"
    using restored store by (auto simp: store_of_take_def captured_by_def)
  consider "r = Restored" | "r = Missing \<or> r = Core_rejected" | "r \<notin> {Restored, Missing, Core_rejected}"
    by blast
  then show ?thesis
  proof cases
    case 1
    have "rs' = rs\<lparr>rs_store := st, rs_session := Some s',
        rs_session_frame := (if c < 0 then None else Some (word_of_int c)), rs_view := None\<rparr>"
      using assms(4) Some run 1 by (auto simp: restore_checkpoint_def Let_def)
    with assms(2,3) st restored small 1 show ?thesis
      by (auto simp: session_inv_def session_at_def same_control_def nat_less_iff simp flip: nat_uint_eq)
  next
    case 2
    then have "rs' = rs\<lparr>rs_store := st, rs_session := Some s'\<rparr>" "\<not> ok"
      using assms(4) Some run by (auto simp: restore_checkpoint_def Let_def)
    with assms(2) Some st restored 2 show ?thesis
      by (auto simp: session_inv_def session_at_def same_control_def)
  next
    case 3
    then have "rs' = rs\<lparr>rs_store := st, rs_session := Some s', rs_session_frame := None, rs_view := None\<rparr>" "\<not> ok"
      using assms(4) Some run by (auto simp: restore_checkpoint_def Let_def)
    with assms(2) st restored show ?thesis
      by (auto simp: session_inv_def session_at_def same_control_def)
  qed
qed

lemma frame_range_upt:
  "frame_range first goal = map of_nat [unat first..<Suc (unat goal)]" "Suc (unat (goal :: u32)) \<le> 2 ^ 32"
  using unsigned_less [of goal, where ?'a = nat] by (simp_all add: frame_range_def)

lemma recovery_plan_for_cases:
  assumes "session_inv en game gstep index heap g0 bs rs"
  obtains "plan_kind (recovery_plan_for rs goal) = Recovery_impossible"
  | "recovery_plan_for rs goal =
      \<lparr>plan_kind = Recovery_step, plan_checkpoint = uint (goal - 1), plan_replay_from = goal,
       plan_replay_to = goal\<rparr>"
  | c where "ring_wf (st_ring (rs_store rs))" "latest_at_most (st_ring (rs_store rs)) (uint goal - 1) = Some c"
    "recovery_plan_for rs goal =
      \<lparr>plan_kind = Recovery_restore, plan_checkpoint = c,
       plan_replay_from = word_of_int (c + 1), plan_replay_to = goal\<rparr>"
proof -
  have "ring_wf (st_ring (rs_store rs))"
    using assms by (simp add: session_inv_def store_of_take_def store_wf_def)
  note wf = this
  show thesis
  proof (cases "\<exists>frame. rs_session_frame rs = Some frame \<and> goal = frame + 1")
    case True
    then show thesis
      by (intro that(2)) (auto simp: recovery_plan_for_def plan_recovery_def plan_recovery_with_def)
  next
    case False
    then have plan: "recovery_plan_for rs goal =
        (case latest_at_most (st_ring (rs_store rs)) (uint goal - 1) of
           None \<Rightarrow> no_plan
         | Some c \<Rightarrow> \<lparr>plan_kind = Recovery_restore, plan_checkpoint = c,
                      plan_replay_from = word_of_int (c + 1), plan_replay_to = goal\<rparr>)"
      by (auto simp: recovery_plan_for_def plan_recovery_def plan_recovery_with_def split: option.split)
    show thesis
    proof (cases "latest_at_most (st_ring (rs_store rs)) (uint goal - 1)")
      case None
      with plan show thesis by (intro that(1)) (simp add: no_plan_def)
    next
      case (Some c)
      with plan wf show thesis by (intro that(3)) simp_all
    qed
  qed
qed

lemma reach_at:
  assumes "faithful_engine en game gstep index heap"
    and "session_inv en game gstep index heap g0 bs rs"
    and "reach en late rs goal = (rs', ok)"
  shows "session_inv en game gstep index heap g0 bs rs' \<and> same_control rs rs' \<and>
    (ok \<longrightarrow> rs_session_frame rs' = Some goal)"
proof -
  let ?L = "linear_game gstep g0 bs" and ?inv = "session_inv en game gstep index heap g0 bs"
  have replay: "?inv rs' \<and> same_control rs rs' \<and> (ok \<longrightarrow> rs_session_frame rs' = Some goal)"
    if first: "?inv rs1" "same_control rs rs1" "session_at game ?L rs1 (uint first - 1)"
      and run: "(case produce_range en late rs1 (frame_range first goal) of
              (rs2, False) \<Rightarrow> (rs2, False)
            | (rs2, True) \<Rightarrow> (rs2, rs_session_frame rs2 = Some goal)) = (rs', ok)"
    for rs1 first
  proof -
    obtain rs2 ok2 where two: "produce_range en late rs1 (frame_range first goal) = (rs2, ok2)" by fastforce
    have at: "session_at game ?L rs1 (int (unat first) - 1)"
      using first(3) by simp
    note range = produce_range_at [OF assms(1) first(1) at frame_range_upt(2) two [unfolded frame_range_upt]]
    have "rs' = rs2" "ok \<longrightarrow> rs_session_frame rs' = Some goal"
      using run two by (auto split: bool.splits)
    with range first(2) same_control_trans show ?thesis by blast
  qed
  from assms(2) show ?thesis
  proof (rule recovery_plan_for_cases [where goal = goal])
    assume "plan_kind (recovery_plan_for rs goal) = Recovery_impossible"
    with assms(2,3) show ?thesis by (simp add: reach_def)
  next
    assume plan: "recovery_plan_for rs goal =
      \<lparr>plan_kind = Recovery_step, plan_checkpoint = uint (goal - 1), plan_replay_from = goal,
       plan_replay_to = goal\<rparr>"
    show ?thesis
    proof (cases "rs_session_frame rs = Some (goal - 1)")
      case True
      have k: "unat (goal - 1) < length bs" "session_at game ?L rs (uint (goal - 1))" "length bs < 2 ^ 32"
        using assms(2) True by (auto simp: session_inv_def loop_of_take_def)
      have "goal \<noteq> 0"
      proof
        assume "goal = 0"
        moreover have "unat (- 1 :: u32) = 2 ^ 32 - 1" by (simp add: unsigned_minus_1_eq_mask mask_eq_exp_minus_1)
        ultimately show False using k by simp
      qed
      then have "int (unat (goal - 1)) = int (unat goal) - 1"
        using unat_gt_0 [of goal] by (simp add: unat_minus_one of_nat_diff Suc_le_eq)
      then have "uint (goal - 1) = uint goal - 1" by simp
      with replay [of rs goal] assms(2,3) plan True k show ?thesis
        by (simp add: reach_def)
    next
      case False
      with assms(2,3) plan show ?thesis by (auto simp: reach_def)
    qed
  next
    fix c
    assume ring: "ring_wf (st_ring (rs_store rs))" "latest_at_most (st_ring (rs_store rs)) (uint goal - 1) = Some c"
      and plan: "recovery_plan_for rs goal =
        \<lparr>plan_kind = Recovery_restore, plan_checkpoint = c,
         plan_replay_from = word_of_int (c + 1), plan_replay_to = goal\<rparr>"
    note c = checkpoint_below [OF ring]
    obtain rs1 ok1 where one: "restore_checkpoint en rs c = (rs1, ok1)" by fastforce
    note at = restore_checkpoint_at [OF assms(1,2) c(4) one]
    show ?thesis
    proof (cases ok1)
      case True
      then show ?thesis
        using replay [of rs1 "word_of_int (c + 1)"] at c(3) assms(3) plan one by (simp add: reach_def)
    next
      case False
      then show ?thesis using at assms(3) plan one by (simp add: reach_def)
    qed
  qed
qed

lemma session_inv_rearmed:
  assumes "session_inv en game gstep index heap g0 bs rs" and "rearm en rs = (rs', ok)"
    and "faithful_engine en game gstep index heap"
  shows "same_control rs rs' \<and> (ok \<longrightarrow> session_inv en game gstep index heap g0 bs rs')"
proof -
  obtain s b where prepared: "re_rearm en = (s, b)" by fastforce
  define rs1 where "rs1 = rs\<lparr>rs_post_end_runs := rs_post_end_runs rs + 1, rs_session := s, rs_view := None,
    rs_session_frame := None, rs_audible := True\<rparr>"
  have "session_inv en game gstep index heap g0 bs rs1"
    using assms(1) by (simp add: session_inv_def rs1_def)
  moreover have "same_control rs rs1" by (simp add: same_control_def rs1_def)
  moreover have "rs' = (if b then set_audible en rs1 False else
      rs\<lparr>rs_post_end_runs := rs_post_end_runs rs + 1, rs_session := s\<rparr>)" "ok = b"
    using assms(2) prepared by (auto simp: rearm_def rs1_def Let_def split: if_splits)
  ultimately show ?thesis
    using session_inv_audio(2) [OF assms(3)] by (auto simp: same_control_def)
qed

lemma recover_at_result:
  assumes "faithful_engine en game gstep index heap"
    and "session_inv en game gstep index heap g0 bs rs"
    and "recover_at en late late_back rs confirmed goal = (rs', outcome)"
  shows "session_inv en game gstep index heap g0 bs rs' \<and> same_control rs rs' \<and>
    (outcome = Presented \<longrightarrow> rs_session_frame rs' = Some goal) \<and>
    (outcome = Failed_restored \<longrightarrow> rs_session_frame rs' = Some confirmed)"
proof -
  let ?inv = "session_inv en game gstep index heap g0 bs"
  note audio_inv = session_inv_audio [OF assms(1), of g0 bs]
  let ?rs0 = "audio en (set_audible en rs False) Resume_transport"
  obtain rs1 reached where one: "reach en late ?rs0 goal = (rs1, reached)" by fastforce
  have at1: "?inv rs1 \<and> same_control rs rs1 \<and> (reached \<longrightarrow> rs_session_frame rs1 = Some goal)"
    using reach_at [OF assms(1) _ one, of g0 bs] assms(2) audio_inv by (auto simp: same_control_def)
  show ?thesis
  proof (cases reached)
    case True
    with assms(3) one at1 audio_inv show ?thesis
      by (auto simp: recover_at_def same_control_def)
  next
    case False
    let ?rs3 = "audio en (audio en rs1 Pause_after_drain) Resume_transport"
    obtain rs4 restored where four:
      "(if rs_session_frame ?rs3 = Some confirmed then (?rs3, True) else reach en late_back ?rs3 confirmed) = (rs4, restored)"
      by fastforce
    have "?inv rs4 \<and> same_control rs rs4 \<and> (restored \<longrightarrow> rs_session_frame rs4 = Some confirmed)"
    proof (cases "rs_session_frame ?rs3 = Some confirmed")
      case True
      with four at1 audio_inv show ?thesis by (auto simp: same_control_def)
    next
      case False
      then have "reach en late_back ?rs3 confirmed = (rs4, restored)" using four by simp
      from reach_at [OF assms(1) _ this, of g0 bs] at1 audio_inv show ?thesis
        by (auto simp: same_control_def)
    qed
    moreover have "rs' = audio en rs4 Pause_after_drain"
      "outcome = (if restored then Failed_restored else Failed_unrecoverable)"
      using assms(3) one False four by (auto simp: recover_at_def)
    ultimately show ?thesis
      using audio_inv by (auto simp: same_control_def)
  qed
qed

lemma recover_result:
  assumes "faithful_engine en game gstep index heap"
    and "session_inv en game gstep index heap g0 bs rs"
    and "recover en late late_back rs goal = (rs', outcome)"
  shows "same_control rs rs' \<and>
    (outcome \<noteq> Failed_unrecoverable \<longrightarrow> session_inv en game gstep index heap g0 bs rs') \<and>
    (outcome = Presented \<longrightarrow> rs_session_frame rs' = Some goal) \<and>
    (outcome = Failed_restored \<longrightarrow> rs_session_frame rs' = Some (position_or_0 (rs_controller rs)))"
proof -
  obtain rs1 ok where one: "(if rs_confirmed_linear rs \<and> rs_post_end_runs rs = 0 then rearm en rs else (rs, True)) = (rs1, ok)"
    by fastforce
  have at1: "same_control rs rs1 \<and> (ok \<longrightarrow> session_inv en game gstep index heap g0 bs rs1)"
    using one session_inv_rearmed [OF assms(2) _ assms(1)] assms(2) by (auto split: if_splits)
  show ?thesis
  proof (cases "ok \<and> rs_session rs1 \<noteq> None")
    case True
    then have "recover_at en late late_back rs1 (position_or_0 (rs_controller rs)) goal = (rs', outcome)"
      using assms(3) one by (auto simp: recover_def Let_def)
    from recover_at_result [OF assms(1) _ this, of g0 bs] at1 True show ?thesis
      using same_control_trans by blast
  next
    case False
    then have "rs' = rs1 \<and> outcome = Failed_unrecoverable"
      using assms(3) one by (auto simp: recover_def Let_def split: bool.splits)
    with at1 show ?thesis by simp
  qed
qed

subsection \<open>Commands and turns\<close>

definition coherent :: "('s \<Rightarrow> 'g) \<Rightarrow> (int \<Rightarrow> 'g) \<Rightarrow> 's replay_session \<Rightarrow> bool" where
  "coherent game L rs \<longleftrightarrow>
     (case position (rs_controller rs) of
        Some p \<Rightarrow> rs_session_frame rs = Some p
      | None \<Rightarrow> rs_session_frame rs = Some 0 \<or> (rs_session_frame rs = None \<and> session_at game L rs (- 1)))"

definition turn_inv ::
    "'s replay_engine \<Rightarrow> ('s \<Rightarrow> 'g) \<Rightarrow> ('g \<Rightarrow> u16 \<Rightarrow> 'g) \<Rightarrow> ('g \<Rightarrow> u64) \<Rightarrow> (nat \<Rightarrow> samples) \<Rightarrow> 'g \<Rightarrow>
     u16 list \<Rightarrow> 's replay_session \<Rightarrow> bool" where
  "turn_inv en game gstep index heap g0 bs rs \<longleftrightarrow>
     session_inv en game gstep index heap g0 bs rs \<and> coherent game (linear_game gstep g0 bs) rs \<and>
     controller_wf (rs_controller rs) \<and> frames (rs_controller rs) = of_nat (length bs)"

lemma turn_inv_audio:
  assumes "faithful_engine en game gstep index heap"
  shows "turn_inv en game gstep index heap g0 bs (audio en rs call) = turn_inv en game gstep index heap g0 bs rs"
    and "turn_inv en game gstep index heap g0 bs (set_audible en rs b) = turn_inv en game gstep index heap g0 bs rs"
  using session_inv_audio [OF assms] session_at_audio [OF assms]
  by (simp_all add: turn_inv_def coherent_def split: option.split)

lemma finish_linear_at:
  assumes "faithful_engine en game gstep index heap" and "turn_inv en game gstep index heap g0 bs rs"
  shows "turn_inv en game gstep index heap g0 bs (finish_linear en rs)"
proof -
  let ?inv = "turn_inv en game gstep index heap g0 bs"
  define rs1 where "rs1 = audio en (set_audible en rs True) Resume_transport"
  have inv: "?inv rs1" using assms by (simp add: rs1_def turn_inv_audio)
  show ?thesis
  proof (cases "rs_session rs1 = None \<or> \<not> (ended_naturally (rs_controller rs1) \<and>
      lp_frames_completed (rs_loop rs1) = frames (rs_controller rs1))")
    case True
    with inv show ?thesis
      by (auto simp: finish_linear_def rs1_def [symmetric] Let_def turn_inv_audio [OF assms(1)] split: option.splits)
  next
    case False
    then obtain s where s: "rs_session rs1 = Some s" by auto
    obtain l c es r where run: "execute_next (stepper_operations en) (rs_loop rs1) (s, rs_view rs1) = (l, c, es, r)"
      using prod_cases4 by blast
    obtain s' view where c: "c = (s', view)" by fastforce
    let ?n = "of_nat (length bs) :: u32"
    have wf: "loop_wf ?n (rs_loop rs1)" and finished: "lp_frames_completed (rs_loop rs1) = ?n"
      using inv False by (auto simp: turn_inv_def session_inv_def loop_of_take_def)
    note result = execute_next_result [OF run wf]
    have "fr_error r \<noteq> Frame_none"
      using result finished by auto
    then have "game s' = game s"
      using result c stepper_drive(2) [OF assms(1)] by auto
    moreover have "loop_of_take bs l"
      using result inv by (auto simp: turn_inv_def session_inv_def loop_of_take_def recorded_input_def)
    ultimately have "?inv (rs1\<lparr>rs_loop := l, rs_session := Some s', rs_view := view\<rparr>)"
      using inv s by (auto simp: turn_inv_def session_inv_def coherent_def session_at_def split: option.splits)
    then show ?thesis
      using s False run c
      by (auto simp: finish_linear_def rs1_def [symmetric] Let_def turn_inv_audio [OF assms(1)])
  qed
qed

lemma turn_inv_flags [simp]:
  "turn_inv en game gstep index heap g0 bs (rs\<lparr>rs_done := b\<rparr>) = turn_inv en game gstep index heap g0 bs rs"
  "turn_inv en game gstep index heap g0 bs (rs\<lparr>rs_confirmed_linear := b\<rparr>) = turn_inv en game gstep index heap g0 bs rs"
  by (simp_all add: turn_inv_def session_inv_def coherent_def session_at_def split: option.split)

lemma apply_command_at:
  assumes "faithful_engine en game gstep index heap" and "turn_inv en game gstep index heap g0 bs rs"
  shows "turn_inv en game gstep index heap g0 bs (apply_command en rs c)"
  using assms by (cases "command_kind c") (auto simp: apply_command_def turn_inv_audio finish_linear_at Let_def)

lemma apply_commands_at:
  assumes "faithful_engine en game gstep index heap"
    and "turn_inv en game gstep index heap g0 bs (rs\<lparr>rs_controller := fst result\<rparr>)"
  shows "turn_inv en game gstep index heap g0 bs (apply_commands en rs result)"
proof -
  have "turn_inv en game gstep index heap g0 bs (foldl (apply_command en) q cs)"
    if "turn_inv en game gstep index heap g0 bs q" for q cs
    using that by (induction cs arbitrary: q) (auto simp: apply_command_at [OF assms(1)])
  with assms(2) show ?thesis by (simp add: apply_commands_def)
qed

text \<open>The events of the controller that leave the position alone.\<close>

lemma position_react:
  assumes "\<And>frame. e \<noteq> Frame_event frame" and "e \<noteq> Recovery_event Presented"
  shows "position (fst (react c e)) = position c"
  using assms
  by (cases e) (auto simp: step_simps split: option.splits inspection_phase.splits
      recovery_outcome.splits frame_activity.splits)

lemma react_at:
  assumes "faithful_engine en game gstep index heap" and "turn_inv en game gstep index heap g0 bs rs"
    and "adapter_event (rs_controller rs) e"
    and "\<And>frame. e \<noteq> Frame_event frame" and "e \<noteq> Recovery_event Presented"
  shows "turn_inv en game gstep index heap g0 bs (apply_commands en rs (react (rs_controller rs) e))"
proof (rule apply_commands_at [OF assms(1)])
  let ?c = "fst (react (rs_controller rs) e)"
  have "controller_wf ?c"
    using inspection_machine.invar_step [OF _ assms(3)] assms(2) by (simp add: turn_inv_def advance_def)
  moreover have "frames ?c = frames (rs_controller rs)"
    using take_fields_step(1) by (simp add: advance_def)
  moreover have "position ?c = position (rs_controller rs)"
    using assms(4,5) by (rule position_react)
  ultimately show "turn_inv en game gstep index heap g0 bs (rs\<lparr>rs_controller := ?c\<rparr>)"
    using assms(2)
    by (cases "position (rs_controller rs)") (auto simp: turn_inv_def session_inv_def coherent_def session_at_def)
qed

lemma produce_stale:
  assumes "faithful_engine en game gstep index heap"
    and "session_inv en game gstep index heap g0 bs rs" and "rs_session_frame rs = Some 0"
    and "produce en rs 0 = (rs', ok)"
  shows "\<not> ok"
proof
  assume ok
  have base: "rs_engine_base rs = Some (index g0)"
    and at: "session_at game (linear_game gstep g0 bs) rs 0" and bs: "rs_recorded_buttons rs = bs"
    using assms(2,3) by (auto simp: session_inv_def)
  have two: "index (gstep (linear_game gstep g0 bs 0) b) = index g0 + 2" for b
    using linear_game_position [OF assms(1), of g0 bs 0] by (simp add: faithful_engineD(4) [OF assms(1)])
  obtain s where s: "rs_session rs = Some s" "game s = linear_game gstep g0 bs 0"
    using at by (auto simp: session_at_def)
  show False
  proof (cases "lp_frames_completed (rs_loop rs) = 0")
    case True
    obtain l c es r where run: "execute_next (stepper_operations en) (rs_loop rs) (s, rs_view rs) = (l, c, es, r)"
      using prod_cases4 by blast
    obtain s' view where c: "c = (s', view)" by fastforce
    have "loop_wf (of_nat (length bs)) (rs_loop rs)"
      using assms(2) by (simp add: session_inv_def loop_of_take_def)
    moreover have frame: "fr_error r = Frame_none"
      using assms(4) s run c True \<open>ok\<close> by (auto simp: produce_def Let_def split: if_splits)
    ultimately have "c = drive (stepper_operations en) (s, rs_view rs) (recorded_input (lp_inputs (rs_loop rs)) 0)"
      "drive_ok (stepper_operations en) (s, rs_view rs) (recorded_input (lp_inputs (rs_loop rs)) 0)"
      using execute_next_result [OF run] True by auto
    then have "view = Some (index g0 + 2)"
      using stepper_drive(1) [OF assms(1), of s "rs_view rs"] c s two by fastforce
    with assms(4) s run c True frame base \<open>ok\<close> show False
      by (simp add: produce_def check_engine_frame_def Let_def)
  next
    case False
    obtain s' r where step: "re_step en (re_set_input en s (bs ! 0)) = (s', r)" by fastforce
    obtain k where k: "r = Some k"
      using assms(4) s False step bs \<open>ok\<close> by (cases r) (auto simp: produce_def split: if_splits)
    then have "k = index g0 + 2"
      using faithful_engineD(2) [OF assms(1) step [unfolded k]] s two by simp
    with assms(4) s False step k bs base \<open>ok\<close> show False
      by (auto simp: produce_def check_engine_frame_def Let_def split: if_splits)
  qed
qed

lemma next_frame_at:
  assumes "turn_inv en game gstep index heap g0 bs rs"
    and "rs_session_frame rs = None \<or> position (rs_controller rs) \<noteq> None"
  shows "session_at game (linear_game gstep g0 bs) rs (uint (next_frame (rs_controller rs)) - 1)"
proof (cases "position (rs_controller rs)")
  case None
  with assms show ?thesis by (simp add: turn_inv_def coherent_def next_frame_def)
next
  case (Some p)
  with assms have p: "session_at game (linear_game gstep g0 bs) rs (uint p)"
    and wf: "controller_wf (rs_controller rs)"
    by (auto simp: turn_inv_def coherent_def session_inv_def)
  have "p < frames (rs_controller rs)" using wf Some by (simp add: controller_wf_def)
  then have "uint p < 2 ^ 32 - 1"
    using uint_u32_bound [of "frames (rs_controller rs)"] by (simp add: word_less_def)
  with p Some show ?thesis by (simp add: next_frame_def uint_succ_u32)
qed

lemma capture_at:
  assumes "faithful_engine en game gstep index heap"
    and "session_inv en game gstep index heap g0 bs rs"
    and "rs_session rs = Some s" and "rs_session_frame rs = Some frame"
  shows "session_inv en game gstep index heap g0 bs
    (rs\<lparr>rs_store := fst (capture (re_states en) (rs_store rs) s (uint frame))\<rparr>)"
proof -
  obtain st ok where run: "capture (re_states en) (rs_store rs) s (uint frame) = (st, ok)" by fastforce
  have at: "game s = linear_game gstep g0 bs (uint frame)" "unat frame < length bs"
    and base: "rs_engine_base rs = Some (index g0)"
    and store: "store_of_take (re_states en) game (linear_game gstep g0 bs) heap (length bs) (rs_store rs)"
    using assms(2-4) by (auto simp: session_inv_def session_at_def)
  then have small: "uint frame < int (length bs)"
    by (simp add: nat_less_iff flip: nat_uint_eq)
  have "captured_by (re_states en) (\<lambda>f s. game s = linear_game gstep g0 bs f \<and> f < int (length bs)) st \<and>
      pool_stable (st_pool st) heap"
    using store at small faithful_engineD(1) [OF assms(1)]
    by (intro capture_keeps_captured [OF run]) (auto simp: store_of_take_def)
  moreover have "store_wf st"
    using store_wf_capture [of "rs_store rs" "uint frame" "re_states en" s] store run
      uint_u32_bound [of frame]
    by (simp add: store_of_take_def)
  ultimately show ?thesis
    using assms(2) run base by (simp add: session_inv_def store_of_take_def session_at_def)
qed

lemma frame_turn_at:
  assumes "faithful_engine en game gstep index heap" and "turn_inv en game gstep index heap g0 bs rs"
    and phase: "phase (rs_controller rs) = Playing \<or> phase (rs_controller rs) = Pausing"
    and "\<not> take_end_pending (rs_controller rs)"
  shows "rs_done (frame_turn en rs) \<or> turn_inv en game gstep index heap g0 bs (frame_turn en rs)"
proof -
  let ?c = "rs_controller rs" and ?L = "linear_game gstep g0 bs" and ?inv = "session_inv en game gstep index heap g0 bs"
  define frame where "frame = next_frame ?c"
  define rs0 where "rs0 = set_audible en rs True"
  have inv0: "turn_inv en game gstep index heap g0 bs rs0"
    using assms(1,2) by (simp add: rs0_def turn_inv_audio)
  have c0: "rs_controller rs0 = ?c" by (simp add: rs0_def)
  obtain rs1 ok where one: "produce en rs0 frame = (rs1, ok)" by fastforce
  show ?thesis
  proof (cases ok)
    case False
    with one show ?thesis by (simp add: frame_turn_def rs0_def [symmetric] frame_def)
  next
    case True
    have "rs_session_frame rs0 = None \<or> position ?c \<noteq> None"
    proof (rule ccontr)
      assume "\<not> ?thesis"
      then have "rs_session_frame rs0 = Some 0" "frame = 0"
        using inv0 c0 by (auto simp: turn_inv_def coherent_def frame_def next_frame_def)
      then show False
        using produce_stale [OF assms(1), of g0 bs rs0 rs1 ok] inv0 one True by (simp add: turn_inv_def)
    qed
    then have "session_at game ?L rs0 (uint frame - 1)"
      using next_frame_at [OF inv0] c0 by (simp add: frame_def)
    then have at1: "?inv rs1" "rs_controller rs1 = ?c" "rs_session_frame rs1 = Some frame"
      using produce_at [OF assms(1) _ _ one, of g0 bs] inv0 c0 True by (auto simp: turn_inv_def same_control_def)
    define rs2 where "rs2 =
      (case rs_session rs1 of
         Some s \<Rightarrow>
           if rs_inspectable rs1 \<and> should_capture (st_ring (rs_store rs1)) frame \<and>
              frame + 1 = lp_frames_completed (rs_loop rs1)
           then rs1\<lparr>rs_store := fst (capture (re_states en) (rs_store rs1) s (uint frame))\<rparr>
           else rs1
       | None \<Rightarrow> rs1)"
    have at2: "?inv rs2" "rs_controller rs2 = ?c" "rs_session_frame rs2 = Some frame"
      using at1 capture_at [OF assms(1) at1(1) _ at1(3)] by (auto simp: rs2_def split: option.splits)
    have "frame_turn en rs = apply_commands en rs2 (frame_completed ?c frame)"
      using one True at2(2)
      by (simp add: frame_turn_def rs0_def [symmetric] frame_def [symmetric] rs2_def [symmetric] Let_def)
    moreover have "turn_inv en game gstep index heap g0 bs (apply_commands en rs2 (frame_completed ?c frame))"
    proof (rule apply_commands_at [OF assms(1)])
      let ?d = "fst (frame_completed ?c frame)"
      have "controller_wf ?d"
        using inspection_machine.invar_step [of ?c "Frame_event frame"] assms(2,4)
        by (simp add: turn_inv_def advance_def frame_def)
      moreover have "frames ?d = frames ?c"
        using take_fields_step(1) [of ?c "Frame_event frame"] by (simp add: advance_def)
      moreover have "position ?d = Some frame"
        using phase by (auto simp: frame_completed_def pause_at_def Let_def)
      ultimately show "turn_inv en game gstep index heap g0 bs (rs2\<lparr>rs_controller := ?d\<rparr>)"
        using at2 assms(2) by (simp add: turn_inv_def session_inv_def coherent_def session_at_def)
    qed
    ultimately show ?thesis by simp
  qed
qed

lemma done_run: "rs_done rs \<Longrightarrow> exec (session_step en) rs es = rs"
  by (induction es) (auto simp: session_step_def)

lemma apply_commands_done: "rs_done rs \<Longrightarrow> rs_done (apply_commands en rs result)"
proof -
  have "rs_done (apply_command en q c)" if "rs_done q" for q c
    using that
    by (cases "command_kind c") (auto simp: apply_command_def finish_linear_def Let_def split: option.splits prod.splits)
  then have "rs_done (foldl (apply_command en) q cs)" if "rs_done q" for q cs
    using that by (induction cs arbitrary: q) auto
  then show "rs_done rs \<Longrightarrow> rs_done (apply_commands en rs result)"
    by (simp add: apply_commands_def)
qed

lemma recovery_turn_at:
  assumes "faithful_engine en game gstep index heap" and "turn_inv en game gstep index heap g0 bs rs"
    and phase: "phase (rs_controller rs) = Recovering"
  shows "rs_done (recovery_turn en late late_back rs) \<or>
    turn_inv en game gstep index heap g0 bs (recovery_turn en late late_back rs)"
proof -
  let ?c = "rs_controller rs" and ?inv = "session_inv en game gstep index heap g0 bs"
  obtain goal where goal: "target ?c = Some goal"
    using assms(2) phase by (auto simp: turn_inv_def controller_wf_def target_wf_def split: option.splits)
  obtain rs1 outcome where one: "recover en late late_back rs goal = (rs1, outcome)" by fastforce
  have at1: "rs_controller rs1 = ?c" "outcome \<noteq> Failed_unrecoverable \<Longrightarrow> ?inv rs1"
    "outcome = Presented \<Longrightarrow> rs_session_frame rs1 = Some goal"
    "outcome = Failed_restored \<Longrightarrow> rs_session_frame rs1 = Some (position_or_0 ?c)"
    using recover_result [OF assms(1) _ one, of g0 bs] assms(2) by (auto simp: turn_inv_def same_control_def)
  let ?d = "fst (recovery_finished ?c outcome)"
  have turn: "recovery_turn en late late_back rs = apply_commands en rs1 (recovery_finished ?c outcome)"
    using one goal at1(1) by (simp add: recovery_turn_def)
  show ?thesis
  proof (cases "outcome = Failed_unrecoverable")
    case True
    then have "rs_done (apply_commands en rs1 (recovery_finished ?c outcome))"
      using goal phase by (simp add: recovery_finished_def Let_def apply_commands_def apply_command_def order_def)
    with turn show ?thesis by simp
  next
    case False
    have "controller_wf ?d"
      using inspection_machine.invar_step [of ?c "Recovery_event outcome"] assms(2)
      by (simp add: turn_inv_def advance_def)
    moreover have "frames ?d = frames ?c"
      using take_fields_step(1) [of ?c "Recovery_event outcome"] by (simp add: advance_def)
    moreover have "position ?d = (if outcome = Presented then Some goal else position ?c)"
      using False goal phase by (cases outcome) (simp_all add: recovery_finished_def Let_def)
    ultimately have "turn_inv en game gstep index heap g0 bs (rs1\<lparr>rs_controller := ?d\<rparr>)"
      using False at1 assms(2)
      by (cases outcome; cases "position ?c")
         (auto simp: turn_inv_def session_inv_def coherent_def session_at_def position_or_0_def)
    with turn show ?thesis
      using apply_commands_at [OF assms(1)] by simp
  qed
qed

lemma session_step_at:
  assumes "faithful_engine en game gstep index heap"
    and "rs_done rs \<or> turn_inv en game gstep index heap g0 bs rs"
  shows "rs_done (session_step en rs e) \<or> turn_inv en game gstep index heap g0 bs (session_step en rs e)"
proof (cases "rs_done rs")
  case True
  then show ?thesis by (simp add: session_step_def)
next
  case False
  then have inv: "turn_inv en game gstep index heap g0 bs rs" using assms(2) by simp
  note react = react_at [OF assms(1) inv]
  have "rs_done (session_react en rs e) \<or> turn_inv en game gstep index heap g0 bs (session_react en rs e)"
  proof (cases e)
    case Session_prepared
    then show ?thesis using react [of Prepared_event] by simp
  next
    case (Session_key action)
    then show ?thesis using react [of "Key_event action Between_frames"] by simp
  next
    case Session_cancelled
    then show ?thesis using react [of Cancel_event] by simp
  next
    case (Session_interrupted cause)
    then show ?thesis using react [of "Interrupted_event cause"] inv by simp
  next
    case Session_recovered
    then show ?thesis using react [of Recovered_event] by simp
  next
    case (Session_turn due late late_back)
    have "rs_done (turn en due late late_back rs) \<or> turn_inv en game gstep index heap g0 bs (turn en due late late_back rs)"
      using react [of Slot_event] inv frame_turn_at [OF assms(1) inv] recovery_turn_at [OF assms(1) inv]
      by (cases "phase (rs_controller rs)") (auto simp: turn_def take_end_pending_def)
    with Session_turn show ?thesis by simp
  qed
  with False show ?thesis by (simp add: session_step_def)
qed

interpretation session_machine: machine "session_step en"
    "\<lambda>rs. \<not> faithful_engine en game gstep index heap \<or> rs_done rs \<or> turn_inv en game gstep index heap g0 bs rs"
    for en :: "'s replay_engine" and game gstep index heap g0 bs
  by unfold_locales (metis session_step_at)

abbreviation take_buttons :: "input_source \<Rightarrow> u16 list" where
  "take_buttons inputs \<equiv> map fi_buttons (recorded_inputs inputs 0 (unat (src_frame_count inputs)))"

lemma make_replay_session_at:
  assumes "faithful_engine en game gstep index heap"
    and "make_replay_session en s publication inputs progress inspectable close_at_end is_last interval budget_bytes = (rs, ok)"
    and "src_cursor inputs = 0" and "src_frame_count inputs \<noteq> 0"
    and "\<forall>p. progress = Some p \<longrightarrow> progress_at (src_frame_count inputs) 0 p"
  shows "turn_inv en game gstep index heap (game s) (take_buttons inputs) rs"
proof -
  let ?bs = "take_buttons inputs" and ?n = "src_frame_count inputs"
  let ?L = "linear_game gstep (game s) ?bs"
  let ?empty = "make_store interval budget_bytes"
  obtain st c where st: "(if inspectable then capture (re_states en) ?empty s initial_checkpoint_frame else (?empty, True)) = (st, c)"
    by fastforce
  have len: "length ?bs = unat ?n" by (simp add: recorded_inputs_def)
  have empty: "store_wf ?empty" "pool_stable (st_pool ?empty) heap"
    "captured_by (re_states en) (\<lambda>f s'. game s' = ?L f \<and> f < int (length ?bs)) ?empty"
    "dom (st_checkpoints ?empty) = {}"
    by (simp_all add: store_wf_make) (simp_all add: make_store_def pool_stable_def captured_by_def)
  have store: "store_of_take (re_states en) game ?L heap (length ?bs) st \<and> (\<forall>c \<in> dom (st_checkpoints st). c < 0)"
  proof (cases inspectable)
    case True
    then have run: "capture (re_states en) ?empty s (- 1) = (st, c)"
      using st by (simp add: initial_checkpoint_frame_def)
    have "store_wf st"
      using store_wf_capture [OF empty(1), of "- 1" "re_states en" s] run by simp
    moreover have "captured_by (re_states en) (\<lambda>f s'. game s' = ?L f \<and> f < int (length ?bs)) st \<and>
        pool_stable (st_pool st) heap"
      using empty by (intro capture_keeps_captured [OF run faithful_engineD(1) [OF assms(1)]]) auto
    moreover have "captured_by (re_states en) (\<lambda>f s'. f < 0) st \<and> pool_stable (st_pool st) heap"
      using empty by (intro capture_keeps_captured [OF run faithful_engineD(1) [OF assms(1)]])
        (auto simp: captured_by_def)
    ultimately show ?thesis
      by (auto simp: store_of_take_def captured_by_def)
  next
    case False
    with st empty show ?thesis by (auto simp: store_of_take_def)
  qed
  have small: "unat (of_nat k :: u32) = k" if "k < unat ?n" for k
    using order.strict_trans [OF that unsigned_less [of ?n]] by (simp add: unat_of_nat_small)
  have buttons: "map fi_buttons (drain_inputs (Suc (unat ?n)) inputs) = ?bs"
    using assms(3) by (subst drain_inputs_from)
      (simp_all add: recorded_inputs_def recorded_input_def small)
  have rs: "rs = \<lparr>rs_session = Some s, rs_view = None, rs_loop = make_loop publication inputs progress,
      rs_recorded_buttons = ?bs, rs_store = st, rs_inspectable = inspectable, rs_close_at_end = close_at_end, rs_engine_base = None,
      rs_session_frame = None, rs_audible = True, rs_controller = make_controller ?n is_last,
      rs_confirmed_linear = False, rs_post_end_runs = 0, rs_done = False, rs_failed = False\<rparr>"
    using assms(2) st buttons by (auto simp: make_replay_session_def)
  have loop: "loop_of_take ?bs (make_loop publication inputs progress)"
    using assms(3,5) len unsigned_less [of ?n, where ?'a = nat]
    by (auto simp: loop_of_take_def loop_wf_def make_loop_def recorded_inputs_def recorded_input_def pred_option_def
        unat_of_nat_small)
  have "0 < ?n" using assms(4) by (simp add: word_neq_0_conv)
  then have "controller_wf (make_controller ?n is_last)" by (rule controller_wf_make)
  then show ?thesis
    using loop store len
    by (simp add: rs turn_inv_def session_inv_def coherent_def session_at_def)
       (simp add: make_controller_def session_at_def)
qed

subsection \<open>Claims\<close>


text \<open>An Engine for examples: its game is the list of the buttons it was stepped with.\<close>

definition example_replay_engine :: "(bytes \<times> u16) replay_engine" where
  "example_replay_engine =
     \<lparr>re_states =
        \<lparr>se_serialize = \<lambda>(g, b). Some (1 # g),
         se_export_visual = \<lambda>s. Some \<lparr>vs_identity = ''id'', vs_emulation_frame = 0, vs_payload = []\<rparr>,
         se_identity = \<lambda>s. Some ''id'',
         se_detector = \<lambda>s. Some \<lparr>dw_detector = [], dw_windows = []\<rparr>,
         se_voices = \<lambda>s. Some (\<lparr>vo_voices = [], vo_pcm_assets = []\<rparr>, []),
         se_requests = \<lambda>s. Some \<lparr>rq_requests = [], rq_fired_requests = [], rq_main_pcm = [],
           rq_main_batches = [], rq_original_batches = [], rq_frame_mute_hashes = [], rq_user_mute_hashes = []\<rparr>,
         se_unserialize = \<lambda>(g, b) bs. ((tl bs, b), Some True),
         se_restore_visual = \<lambda>s v identity frame. (s, Some (vs_identity v = identity)),
         se_restore_detector = \<lambda>s header identity d. (s, Some True),
         se_restore_voices = \<lambda>s header identity w. (s, Some True),
         se_restore_requests = \<lambda>s header identity q. (s, Some True)\<rparr>,
      re_set_input = \<lambda>(g, _) b. (g, b),
      re_step = \<lambda>(g, b). ((g @ [ucast b], b), Some (of_nat (length g) + 1)),
      re_audio = \<lambda>s call. s,
      re_rearm = (Some ([], 0), True)\<rparr>"

lemma example_engine_faithful:
  "faithful_engine example_replay_engine fst (\<lambda>g b. g @ [ucast b]) (\<lambda>g. of_nat (length g)) (\<lambda>_. [])"
  by (auto simp: faithful_engine_def example_replay_engine_def buffers_stable_def)

definition example_inputs :: input_source where
  "example_inputs = \<lparr>src_bytes = [5, 0, 6, 0, 7, 0, 8, 0], src_frame_count = 4, src_cursor = 0\<rparr>"

definition example_session :: "(bytes \<times> u16) replay_session" where
  "example_session =
     fst (make_replay_session example_replay_engine ([], 0) acknowledged example_inputs None True False True 2 1000)"

definition on_time :: session_event where
  "on_time = Session_turn True (\<lambda>_. False) (\<lambda>_. False)"

definition example_run :: "(bytes \<times> u16) replay_session" where
  "example_run = exec (session_step example_replay_engine) example_session
     [Session_prepared, on_time, on_time, on_time, Session_key Action_toggle, Session_key Action_left, on_time]"



end
