(* ===== verification/Silent_Gate.thy ===== *)
theory Silent_Gate
  imports Prelude Complex_Main
begin

text \<open>
  The gate between the Engine and the evidence: \<open>SilentProductionGate\<close> and \<open>AudioTimingTap\<close> of
  \<^verbatim>\<open>src/audio_qa_inspection.{h,cpp}\<close>.

  While a recovery produces silently, the gate keeps its facts and its PCM from the observer and
  remembers, for each of 64 producers, the first and the last sequence it kept. What the gate hands
  to the observer is the list each operation returns; the clock is an argument. The atomics are
  plain fields: a producer writes only its own slot, and the session reads the slots when every
  producer is quiescent.
\<close>

section \<open>State\<close>

datatype field_value = Field_uint u64 | Field_bool bool | Field_other

record engine_fact =
  ef_kind :: string
  ef_emulation_frame :: u64
  ef_producer :: u32
  ef_sequence :: u64
  ef_fields :: "(string \<times> field_value) list"

record pcm_view =
  pv_capture_point :: string
  pv_begin :: u64
  pv_end :: u64
  pv_sample_rate :: u32

record tap_boundary =
  tb_at_ms :: real
  tb_emulation_frame :: u64
  tb_output_position :: u64
  tb_sample_rate :: u32
  tb_valid :: bool

record tap_block =
  tk_at_ms :: real
  tk_begin :: u64
  tk_end :: u64
  tk_sample_rate :: u32

definition tap_capacity :: nat where "tap_capacity = 65536"

record timing_tap =
  tap_boundaries :: "tap_boundary list"
  tap_blocks :: "tap_block list"
  tap_boundary_count :: nat
  tap_block_count :: nat

definition make_tap :: timing_tap where
  "make_tap =
     \<lparr>tap_boundaries = replicate tap_capacity
        \<lparr>tb_at_ms = 0, tb_emulation_frame = 0, tb_output_position = 0, tb_sample_rate = 0, tb_valid = False\<rparr>,
      tap_blocks = replicate tap_capacity \<lparr>tk_at_ms = 0, tk_begin = 0, tk_end = 0, tk_sample_rate = 0\<rparr>,
      tap_boundary_count = 0, tap_block_count = 0\<rparr>"

definition producer_slots :: nat where "producer_slots = 64"

record excluded_interval =
  ei_producer :: u32
  ei_first :: u64
  ei_last :: u64

record silent_gate =
  sg_observes_pcm :: bool
  sg_tap :: "timing_tap option"
  sg_silent :: bool
  sg_excluded_facts :: u64
  sg_excluded_pcm :: u64
  sg_forwarded_pcm :: u64
  sg_excluded_first :: "u64 list"
  sg_excluded_last :: "u64 list"
  sg_excluded_unordered :: "bool list"

definition make_gate :: "bool \<Rightarrow> silent_gate" where
  "make_gate observes_pcm =
     \<lparr>sg_observes_pcm = observes_pcm, sg_tap = None, sg_silent = False, sg_excluded_facts = 0,
      sg_excluded_pcm = 0, sg_forwarded_pcm = 0, sg_excluded_first = replicate producer_slots 0,
      sg_excluded_last = replicate producer_slots 0,
      sg_excluded_unordered = replicate producer_slots False\<rparr>"

section \<open>Operations\<close>

definition set_silent :: "silent_gate \<Rightarrow> bool \<Rightarrow> silent_gate" where
  "set_silent g silent = g\<lparr>sg_silent := silent\<rparr>"

definition set_timing_tap :: "silent_gate \<Rightarrow> timing_tap option \<Rightarrow> silent_gate" where
  "set_timing_tap g tap = g\<lparr>sg_tap := tap\<rparr>"

fun read_boundary_field :: "tap_boundary \<Rightarrow> string \<times> field_value \<Rightarrow> tap_boundary" where
  "read_boundary_field b (name, Field_uint v) =
     (let b1 = (if name = ''output_position'' then b\<lparr>tb_output_position := v\<rparr> else b)
      in if name = ''sample_rate'' then b1\<lparr>tb_sample_rate := ucast v\<rparr> else b1)"
| "read_boundary_field b (name, Field_bool v) = (if name = ''valid'' then b\<lparr>tb_valid := v\<rparr> else b)"
| "read_boundary_field b (name, Field_other) = b"

definition tap_fact :: "real \<Rightarrow> engine_fact \<Rightarrow> timing_tap \<Rightarrow> timing_tap" where
  "tap_fact now seen t =
     (if ef_kind seen \<noteq> ''audio_frame_output_boundary'' then t
      else
        (let b = foldl read_boundary_field
               \<lparr>tb_at_ms = now, tb_emulation_frame = ef_emulation_frame seen, tb_output_position = 0,
                tb_sample_rate = 0, tb_valid = False\<rparr> (ef_fields seen);
             index = tap_boundary_count t
         in t\<lparr>tap_boundary_count := index + 1,
              tap_boundaries := (if index < tap_capacity then (tap_boundaries t)[index := b]
                                 else tap_boundaries t)\<rparr>))"

definition tap_pcm :: "real \<Rightarrow> pcm_view \<Rightarrow> timing_tap \<Rightarrow> timing_tap" where
  "tap_pcm now pcm t =
     (if pv_capture_point pcm \<noteq> ''sdl_logical_device_postmix'' then t
      else
        (let b = \<lparr>tk_at_ms = now, tk_begin = pv_begin pcm, tk_end = pv_end pcm,
                  tk_sample_rate = pv_sample_rate pcm\<rparr>;
             index = tap_block_count t
         in t\<lparr>tap_block_count := index + 1,
              tap_blocks := (if index < tap_capacity then (tap_blocks t)[index := b] else tap_blocks t)\<rparr>))"

definition exclude_sequence :: "silent_gate \<Rightarrow> nat \<Rightarrow> u64 \<Rightarrow> silent_gate" where
  "exclude_sequence g slot sequence =
     (let last = sg_excluded_last g ! slot;
          g1 = (if last = 0 then g\<lparr>sg_excluded_first := (sg_excluded_first g)[slot := sequence]\<rparr>
                else if sequence \<le> last
                then g\<lparr>sg_excluded_unordered := (sg_excluded_unordered g)[slot := True]\<rparr>
                else g)
      in g1\<lparr>sg_excluded_last := (sg_excluded_last g1)[slot := sequence]\<rparr>)"

definition receive_fact :: "real \<Rightarrow> silent_gate \<Rightarrow> engine_fact \<Rightarrow> silent_gate \<times> engine_fact list" where
  "receive_fact now g seen =
     (let g1 = g\<lparr>sg_tap := map_option (tap_fact now seen) (sg_tap g)\<rparr>
      in if sg_silent g1
         then
           (let g2 = g1\<lparr>sg_excluded_facts := sg_excluded_facts g1 + 1\<rparr>;
                producer = ef_producer seen
            in (if producer \<noteq> 0 \<and> unat producer \<le> producer_slots
                then exclude_sequence g2 (unat producer - 1) (ef_sequence seen) else g2, []))
         else (g1, [seen]))"

definition receive_pcm :: "real \<Rightarrow> silent_gate \<Rightarrow> pcm_view \<Rightarrow> silent_gate \<times> pcm_view list" where
  "receive_pcm now g pcm =
     (let g1 = g\<lparr>sg_tap := map_option (tap_pcm now pcm) (sg_tap g)\<rparr>
      in if sg_silent g1 then (g1\<lparr>sg_excluded_pcm := sg_excluded_pcm g1 + 1\<rparr>, [])
         else (g1\<lparr>sg_forwarded_pcm := sg_forwarded_pcm g1 + 1\<rparr>, [pcm]))"

definition slot_exclusion :: "silent_gate \<Rightarrow> nat \<Rightarrow> excluded_interval option" where
  "slot_exclusion g slot =
     (let last = sg_excluded_last g ! slot; first = sg_excluded_first g ! slot
      in if last = 0 \<or> sg_excluded_unordered g ! slot \<or> first = 0 \<or> last < first then None
         else Some \<lparr>ei_producer = of_nat (slot + 1), ei_first = first, ei_last = last\<rparr>)"

definition take_exclusions :: "silent_gate \<Rightarrow> silent_gate \<times> excluded_interval list" where
  "take_exclusions g =
     (g\<lparr>sg_excluded_first := replicate producer_slots 0, sg_excluded_last := replicate producer_slots 0,
        sg_excluded_unordered := replicate producer_slots False\<rparr>,
      List.map_filter (slot_exclusion g) [0..<producer_slots])"

section \<open>Properties\<close>

text \<open>A recovery: facts received in a silent gate whose slots are empty.\<close>

definition receive_facts :: "silent_gate \<Rightarrow> (real \<times> engine_fact) list \<Rightarrow> silent_gate" where
  "receive_facts g fs = exec (\<lambda>g (now, f). fst (receive_fact now g f)) g fs"

definition sequences_of :: "nat \<Rightarrow> (real \<times> engine_fact) list \<Rightarrow> u64 list" where
  "sequences_of slot fs =
     map (ef_sequence \<circ> snd) (filter (\<lambda>(now, f). ef_producer f = of_nat (slot + 1)) fs)"

text \<open>The slot of a producer after its sequences \<open>ss\<close>.\<close>

definition slot_describes :: "silent_gate \<Rightarrow> nat \<Rightarrow> u64 list \<Rightarrow> bool" where
  "slot_describes g slot ss \<longleftrightarrow>
     (ss = [] \<longrightarrow> sg_excluded_last g ! slot = 0 \<and> sg_excluded_first g ! slot = 0 \<and> \<not> sg_excluded_unordered g ! slot) \<and>
     (ss \<noteq> [] \<longrightarrow> sg_excluded_last g ! slot = last ss \<and> sg_excluded_first g ! slot = hd ss) \<and>
     (sg_excluded_unordered g ! slot \<longleftrightarrow> \<not> sorted_wrt (<) ss)"

definition gate_shape :: "silent_gate \<Rightarrow> bool" where
  "gate_shape g \<longleftrightarrow>
     length (sg_excluded_first g) = producer_slots \<and> length (sg_excluded_last g) = producer_slots \<and>
     length (sg_excluded_unordered g) = producer_slots"

lemma sorted_wrt_snoc:
  fixes ss :: "'a::linorder list"
  shows "sorted_wrt (<) (ss @ [x]) \<longleftrightarrow> sorted_wrt (<) ss \<and> (ss \<noteq> [] \<longrightarrow> last ss < x)"
proof (cases "ss = []")
  case False
  then have "last ss \<in> set ss" by simp
  moreover have "y \<le> last ss" if "sorted_wrt (<) ss" "y \<in> set ss" for y
    using that by (induction ss) (force simp: le_less)+
  ultimately show ?thesis
    using False by (fastforce simp: sorted_wrt_append)
qed simp

lemma producer_slot:
  assumes "slot < producer_slots"
  shows "(p :: u32) = of_nat (slot + 1) \<longleftrightarrow> p \<noteq> 0 \<and> unat p \<le> producer_slots \<and> unat p - 1 = slot"
proof -
  have "unat (of_nat (slot + 1) :: u32) = slot + 1"
    using assms by (intro unat_of_nat_small) (simp add: producer_slots_def)
  then show ?thesis
    using assms by (auto simp: word_unat_eq_iff producer_slots_def)
qed

lemma gate_shape_receive: "gate_shape g \<Longrightarrow> gate_shape (fst (receive_fact now g f))"
  by (auto simp: receive_fact_def exclude_sequence_def gate_shape_def Let_def)

lemma silent_receive: "sg_silent g \<Longrightarrow> sg_silent (fst (receive_fact now g f)) \<and> snd (receive_fact now g f) = []"
  by (auto simp: receive_fact_def exclude_sequence_def Let_def)

lemma slot_receive:
  assumes "gate_shape g" and "sg_silent g" and "slot < producer_slots" and "slot_describes g slot ss"
    and nonzero: "0 \<notin> set ss"
  shows "slot_describes (fst (receive_fact now g f)) slot
    (ss @ (if ef_producer f = of_nat (slot + 1) then [ef_sequence f] else []))"
proof (cases "ef_producer f = of_nat (slot + 1)")
  case True
  have "ss \<noteq> [] \<Longrightarrow> last ss \<noteq> 0"
    using nonzero by (metis last_in_set)
  then show ?thesis
    using True assms producer_slot [OF assms(3), of "ef_producer f"]
    by (cases "ss = []")
       (auto simp: receive_fact_def exclude_sequence_def gate_shape_def slot_describes_def Let_def
        sorted_wrt_snoc not_less simp del: sorted_wrt_append)
next
  case False
  then show ?thesis
    using assms producer_slot [OF assms(3), of "ef_producer f"]
    by (auto simp: receive_fact_def exclude_sequence_def gate_shape_def slot_describes_def Let_def)
qed

lemma receive_facts_silent:
  assumes "gate_shape g" and "sg_silent g"
  shows "gate_shape (receive_facts g fs) \<and> sg_silent (receive_facts g fs)"
  using assms unfolding receive_facts_def
  by (induction fs arbitrary: g) (auto simp: gate_shape_receive silent_receive split: prod.splits)

lemma sequences_of_snoc:
  "sequences_of slot (fs @ [(now, f)]) =
     sequences_of slot fs @ (if ef_producer f = of_nat (slot + 1) then [ef_sequence f] else [])"
  by (simp add: sequences_of_def)

lemma receive_facts_snoc:
  "receive_facts g (fs @ [(now, f)]) = fst (receive_fact now (receive_facts g fs) f)"
  by (simp add: receive_facts_def exec_append)

lemma receive_facts_slot:
  assumes "gate_shape g" and "sg_silent g" and "slot < producer_slots" and "slot_describes g slot []"
    and "\<forall>(now, f) \<in> set fs. ef_sequence f \<noteq> 0"
  shows "slot_describes (receive_facts g fs) slot (sequences_of slot fs)"
  using assms(5)
proof (induction fs rule: rev_induct)
  case Nil
  then show ?case using assms(4) by (simp add: receive_facts_def sequences_of_def)
next
  case (snoc x fs)
  obtain now f where x: "x = (now, f)" by fastforce
  have "0 \<notin> set (sequences_of slot fs)"
    using snoc.prems by (auto simp: sequences_of_def)
  then show ?case
    using slot_receive [OF _ _ assms(3), of "receive_facts g fs"] receive_facts_silent [OF assms(1,2)]
      snoc by (simp add: x receive_facts_snoc sequences_of_snoc del: append_assoc)
qed

lemma map_filter_cong:
  "(\<And>x. x \<in> set xs \<Longrightarrow> f x = h x) \<Longrightarrow> List.map_filter f xs = List.map_filter h xs"
  by (induction xs) (auto simp: map_filter_simps split: option.split)

definition exclusion_of :: "nat \<Rightarrow> u64 list \<Rightarrow> excluded_interval option" where
  "exclusion_of slot ss =
     (if ss = [] \<or> \<not> sorted_wrt (<) ss then None
      else Some \<lparr>ei_producer = of_nat (slot + 1), ei_first = hd ss, ei_last = last ss\<rparr>)"

lemma sorted_hd_last:
  fixes ss :: "'a::linorder list"
  shows "sorted_wrt (<) ss \<Longrightarrow> x \<in> set ss \<Longrightarrow> hd ss \<le> x \<and> x \<le> last ss"
  by (induction ss) (force simp: le_less)+

lemma slot_exclusion_of:
  assumes "slot_describes g slot ss" and "0 \<notin> set ss"
  shows "slot_exclusion g slot = exclusion_of slot ss"
proof (cases "ss = [] \<or> \<not> sorted_wrt (<) ss")
  case True
  with assms show ?thesis by (auto simp: slot_describes_def slot_exclusion_def exclusion_of_def)
next
  case False
  then have "hd ss \<noteq> 0" "last ss \<noteq> 0"
    using assms(2) by (metis hd_in_set, metis last_in_set)
  moreover have "hd ss \<le> last ss"
    using False sorted_hd_last [of ss "last ss"] by simp
  ultimately show ?thesis
    using False assms(1)
    by (auto simp: slot_describes_def slot_exclusion_def exclusion_of_def Let_def not_less)
qed

text \<open>
  What a silent recovery excludes is declared exactly. When facts with non-zero sequences arrive
  at a silent gate with empty slots, none reaches the observer, and the intervals the gate then
  declares are, for the 64 producers in order, the first and the last sequence the producer sent,
  for each producer that sent any in strictly increasing order and for no other; afterwards the
  slots are empty again.
\<close>

theorem silent_exclusions_exact:
  assumes "g = set_silent (fst (take_exclusions g0)) True" and "\<forall>(now, f) \<in> set fs. ef_sequence f \<noteq> 0"
    and "take_exclusions (receive_facts g fs) = (g', intervals)"
  shows "intervals = List.map_filter (\<lambda>slot. exclusion_of slot (sequences_of slot fs)) [0..<producer_slots] \<and>
    (\<forall>slot < producer_slots. slot_describes g' slot []) \<and>
    snd (receive_fact now (receive_facts g fs) f) = []"
proof -
  have shape: "gate_shape g" "sg_silent g"
    by (simp_all add: assms(1) set_silent_def take_exclusions_def gate_shape_def)
  have empty: "slot_describes g slot []" if "slot < producer_slots" for slot
    using that by (simp add: assms(1) set_silent_def take_exclusions_def slot_describes_def)
  have "slot_exclusion (receive_facts g fs) slot = exclusion_of slot (sequences_of slot fs)"
    if "slot < producer_slots" for slot
    using assms(2) that
    by (intro slot_exclusion_of receive_facts_slot [OF shape that empty]) (auto simp: sequences_of_def)
  then have "List.map_filter (slot_exclusion (receive_facts g fs)) [0..<producer_slots] =
      List.map_filter (\<lambda>slot. exclusion_of slot (sequences_of slot fs)) [0..<producer_slots]"
    by (intro map_filter_cong) auto
  moreover have "snd (receive_fact now (receive_facts g fs) f) = []"
    using receive_facts_silent [OF shape] silent_receive by blast
  ultimately show ?thesis
    using assms(3) by (auto simp: take_exclusions_def slot_describes_def)
qed

definition engine_fact_of :: "u32 \<Rightarrow> u64 \<Rightarrow> real \<times> engine_fact" where
  "engine_fact_of producer sequence =
     (0, \<lparr>ef_kind = ''voice'', ef_emulation_frame = 0, ef_producer = producer, ef_sequence = sequence,
          ef_fields = []\<rparr>)"

theorem silent_exclusions_exact_witness:
  "snd (take_exclusions (receive_facts (set_silent (fst (take_exclusions (make_gate True))) True)
     [engine_fact_of 2 5, engine_fact_of 1 9, engine_fact_of 2 6, engine_fact_of 1 8, engine_fact_of 2 8])) =
   [\<lparr>ei_producer = 2, ei_first = 5, ei_last = 8\<rparr>]"
proof -
  let ?g = "set_silent (fst (take_exclusions (make_gate True))) True"
  let ?fs = "[engine_fact_of 2 5, engine_fact_of 1 9, engine_fact_of 2 6, engine_fact_of 1 8, engine_fact_of 2 8]"
  obtain g' intervals where take: "take_exclusions (receive_facts ?g ?fs) = (g', intervals)" by fastforce
  have "\<forall>(now, f) \<in> set ?fs. ef_sequence f \<noteq> 0" by (simp add: engine_fact_of_def)
  from silent_exclusions_exact [OF refl this take]
  have "intervals = List.map_filter (\<lambda>slot. exclusion_of slot (sequences_of slot ?fs)) [0..<producer_slots]"
    by blast
  also have "\<dots> = [\<lparr>ei_producer = 2, ei_first = 5, ei_last = 8\<rparr>]"
    by code_simp
  finally show ?thesis using take by simp
qed

end
