(* ===== verification/Qa_Model.thy ===== *)
theory Qa_Model
  imports Prelude Text_Scan
begin

text \<open>
  The data of the audio QA program and how a request ends: \<^verbatim>\<open>tools/audio_qa/model.h\<close>,
  \<^verbatim>\<open>model_limits.h\<close>, \<^verbatim>\<open>request_outcome.{h,cpp}\<close>, \<^verbatim>\<open>evidence_completeness.{h,cpp}\<close> and
  \<^verbatim>\<open>take_plan.{h,cpp}\<close>.

  Playback, traversal and evidence are separate results. The takes and the pad timelines of a request
  are slots of one plan, and each slot has a run of its own.
\<close>

section \<open>Requests and runs\<close>

datatype admission = Admission_pending | Admission_accepted | Admission_rejected

datatype run_phase = Run_preparing | Run_ready | Run_playing | Run_closing | Run_closed

datatype playback_result =
  Playback_not_started | Playback_in_progress | Playback_natural_end | Playback_cancelled | Playback_error

datatype evidence_result =
  Evidence_pending | Evidence_in_progress | Evidence_complete | Evidence_incomplete

datatype equivalence_result = Equivalence_unknown | Equivalence_verified | Equivalence_incomplete

record request =
  request_id :: string
  session_id :: string
  conditions_id :: string
  take_ids :: "string list"
  admission :: admission
  language :: "string option"
  material_kind :: "string option"

record run =
  run_id :: string
  run_request_id :: string
  take_id :: string
  run_phase :: run_phase
  playback_result :: playback_result
  evidence_result :: evidence_result
  equivalence_result :: equivalence_result
  last_executed_frame :: "u64 option"
  last_durable_sample :: "u64 option"
  cessation_confirmed :: bool

definition make_run :: "string \<Rightarrow> string \<Rightarrow> string \<Rightarrow> run" where
  "make_run own request material =
     \<lparr>run_id = own, run_request_id = request, take_id = material, run_phase = Run_preparing,
      playback_result = Playback_not_started, evidence_result = Evidence_pending,
      equivalence_result = Equivalence_unknown, last_executed_frame = None, last_durable_sample = None,
      cessation_confirmed = False\<rparr>"

definition same_run :: "run \<Rightarrow> run \<Rightarrow> bool" where
  "same_run a b \<longleftrightarrow> run_id a = run_id b \<and> run_request_id a = run_request_id b \<and> take_id a = take_id b"

definition max_identity_bytes :: nat where
  "max_identity_bytes = 256"

definition max_reference_materials :: nat where
  "max_reference_materials = 4096"

section \<open>Outcomes\<close>

datatype playback_kind = Natural_end | Kind_cancelled | Kind_failed | Kind_interrupted

datatype material = Material_take | Material_timeline

datatype traversal_kind = Traversal_linear | Traversal_inspection | Traversal_post_end_inspection

datatype request_phase =
  Request_validating | Request_admitted | Request_preparing | Request_running | Request_closing | Request_closed

record playback_outcome =
  po_kind :: playback_kind
  po_diagnostic :: string

record evidence_outcome =
  eo_complete :: bool
  eo_reasons :: "string list"

record take_outcome =
  to_position :: nat
  to_take :: string
  to_run_id :: string
  to_playback :: playback_outcome
  to_traversal :: "traversal_kind option"
  to_evidence :: evidence_outcome
  to_linear_completed :: bool
  to_kind :: material

record not_started_take =
  ns_position :: nat
  ns_take :: string
  ns_reason :: string
  ns_kind :: material

datatype slot_outcome = Slot_ended take_outcome | Slot_not_started not_started_take

fun playback_kind_code :: "playback_kind \<Rightarrow> string" where
  "playback_kind_code Natural_end = ''natural_end''"
| "playback_kind_code Kind_cancelled = ''cancelled''"
| "playback_kind_code Kind_failed = ''failed''"
| "playback_kind_code Kind_interrupted = ''interrupted''"

fun material_kind_code :: "material \<Rightarrow> string" where
  "material_kind_code Material_take = ''take''"
| "material_kind_code Material_timeline = ''timeline''"

fun traversal_kind_code :: "traversal_kind \<Rightarrow> string" where
  "traversal_kind_code Traversal_linear = ''linear''"
| "traversal_kind_code Traversal_inspection = ''inspection''"
| "traversal_kind_code Traversal_post_end_inspection = ''post_end_inspection''"

fun request_phase_code :: "request_phase \<Rightarrow> string" where
  "request_phase_code Request_validating = ''validating''"
| "request_phase_code Request_admitted = ''admitted''"
| "request_phase_code Request_preparing = ''preparing''"
| "request_phase_code Request_running = ''running''"
| "request_phase_code Request_closing = ''closing''"
| "request_phase_code Request_closed = ''closed''"

definition parse_playback_kind :: "string \<Rightarrow> playback_kind option" where
  "parse_playback_kind code =
     List.find (\<lambda>kind. playback_kind_code kind = code) [Natural_end, Kind_cancelled, Kind_failed, Kind_interrupted]"

definition parse_material_kind :: "string \<Rightarrow> material option" where
  "parse_material_kind code =
     List.find (\<lambda>kind. material_kind_code kind = code) [Material_take, Material_timeline]"

definition parse_traversal_kind :: "string \<Rightarrow> traversal_kind option" where
  "parse_traversal_kind code =
     List.find (\<lambda>kind. traversal_kind_code kind = code)
       [Traversal_linear, Traversal_inspection, Traversal_post_end_inspection]"

fun slot_complete :: "slot_outcome \<Rightarrow> bool" where
  "slot_complete (Slot_ended t) \<longleftrightarrow>
     to_traversal t = Some Traversal_linear \<and> po_kind (to_playback t) = Natural_end \<and>
     eo_complete (to_evidence t) \<and> to_linear_completed t"
| "slot_complete (Slot_not_started t) \<longleftrightarrow> False"

definition linear_complete :: "slot_outcome list \<Rightarrow> bool" where
  "linear_complete per_take \<longleftrightarrow> per_take \<noteq> [] \<and> list_all slot_complete per_take"

section \<open>Completeness of the evidence\<close>

record evidence_parts =
  ep_identification :: bool
  ep_conditions :: bool
  ep_positions :: bool
  ep_controls :: bool
  ep_result :: bool
  ep_data_without_losses :: bool
  ep_fragments_flushed :: bool
  ep_within_limits :: bool

definition evidence_checks :: "evidence_parts \<Rightarrow> (bool \<times> string) list" where
  "evidence_checks p =
     [(ep_identification p, ''identification_missing''), (ep_conditions p, ''conditions_missing''),
      (ep_positions p, ''positions_missing''), (ep_controls p, ''controls_missing''),
      (ep_result p, ''result_missing''), (ep_data_without_losses p, ''data_lost''),
      (ep_fragments_flushed p, ''fragments_not_flushed''), (ep_within_limits p, ''limit'')]"

definition evaluate_evidence :: "evidence_parts \<Rightarrow> evidence_outcome" where
  "evaluate_evidence p =
     (let reasons = map snd (filter (\<lambda>(kept, reason). \<not> kept) (evidence_checks p))
      in \<lparr>eo_complete = (reasons = []), eo_reasons = reasons\<rparr>)"

definition credits_full_take :: "evidence_outcome \<Rightarrow> playback_kind \<Rightarrow> traversal_kind \<Rightarrow> bool" where
  "credits_full_take evidence playback traversal \<longleftrightarrow>
     eo_complete evidence \<and> playback = Natural_end \<and> traversal = Traversal_linear"

section \<open>The plan of a request\<close>

record take_slot =
  slot_position :: nat
  slot_path :: string
  slot_kind :: material
  slot_index :: nat

definition plan_takes :: "string list \<Rightarrow> take_slot list" where
  "plan_takes paths =
     map (\<lambda>(position, path).
        \<lparr>slot_position = position, slot_path = path, slot_kind = Material_take, slot_index = 0\<rparr>)
       (enumerate 0 paths)"

definition plan_materials :: "string list \<Rightarrow> string list \<Rightarrow> take_slot list" where
  "plan_materials takes timelines =
     plan_takes takes @
     map (\<lambda>(i, path). \<lparr>slot_position = length takes + i, slot_path = path,
                       slot_kind = Material_timeline, slot_index = i\<rparr>)
       (enumerate 0 timelines)"

definition run_id_for_position :: "string \<Rightarrow> nat \<Rightarrow> string" where
  "run_id_for_position base p = (if p \<noteq> 0 then base @ ''-take-'' @ to_string (p + 1) else base)"

definition run_id_for_slot :: "string \<Rightarrow> take_slot \<Rightarrow> string" where
  "run_id_for_slot base slot =
     (if slot_kind slot = Material_take then run_id_for_position base (slot_position slot)
      else if slot_position slot \<noteq> 0 then base @ ''-timeline-'' @ to_string (slot_position slot + 1)
      else base)"

section \<open>Properties\<close>

lemma to_string_inject [simp]: "to_string m = to_string n \<longleftrightarrow> m = n"
  by (metis digits_value_to_string)

lemma plan_positions:
  "map slot_position (plan_materials takes timelines) = [0..<length takes + length timelines]"
  by (intro nth_equalityI) (auto simp: plan_materials_def plan_takes_def nth_append nth_enumerate_eq)

lemma to_string_first: "\<exists>c cs. to_string n = c # cs \<and> is_digit c"
  using to_string_digits [of _ n] by (cases "to_string n") auto

lemma run_id_for_slot_inject:
  assumes "run_id_for_slot base a = run_id_for_slot base b"
  shows "slot_position a = slot_position b"
proof -
  have "''-take-'' @ to_string m \<noteq> ''-timeline-'' @ to_string n" for m n
    by simp
  with assms show ?thesis
    by (cases "slot_kind a"; cases "slot_kind b")
       (auto simp: run_id_for_slot_def run_id_for_position_def split: if_splits)
qed

text \<open>
  Every slot of a request has a run of its own. The slots of a plan are the takes in their order and
  then the timelines in theirs, their positions are 0, 1, 2 and so on without a gap, and the run
  identities are pairwise distinct, also when the same path is given twice.
\<close>

theorem plan_runs_distinct:
  "map slot_path (plan_materials takes timelines) = takes @ timelines \<and>
   map slot_position (plan_materials takes timelines) = [0..<length takes + length timelines] \<and>
   distinct (map (run_id_for_slot base) (plan_materials takes timelines))"
proof (intro conjI)
  show "map slot_path (plan_materials takes timelines) = takes @ timelines"
    by (intro nth_equalityI) (auto simp: plan_materials_def plan_takes_def nth_append nth_enumerate_eq)
  show positions: "map slot_position (plan_materials takes timelines) = [0..<length takes + length timelines]"
    by (rule plan_positions)
  have "distinct (map slot_position (plan_materials takes timelines))"
    by (simp add: positions)
  then show "distinct (map (run_id_for_slot base) (plan_materials takes timelines))"
    by (auto simp: distinct_map inj_on_def dest: run_id_for_slot_inject)
qed

text \<open>
  The codes of the results are unambiguous: reading a code gives the kind that prints it, and
  nothing else is read, for the kinds of playback, of material and of traversal.
\<close>

theorem outcome_codes_roundtrip:
  "(parse_playback_kind code = Some k \<longleftrightarrow> playback_kind_code k = code) \<and>
   (parse_material_kind code = Some m \<longleftrightarrow> material_kind_code m = code) \<and>
   (parse_traversal_kind code = Some t \<longleftrightarrow> traversal_kind_code t = code)"
  by (cases k; cases m; cases t)
     (auto simp: parse_playback_kind_def parse_material_kind_def parse_traversal_kind_def)

text \<open>
  A request counts as reproduced in full only when every one of its takes was: a slot that did not
  start, was inspected, cancelled or failed, whose traversal is unknown or whose evidence misses a
  part prevents it, and evidence is complete exactly when no part is missing, with one reason for
  each missing part.
\<close>

theorem linear_complete_needs_every_part:
  "(linear_complete per_take \<longleftrightarrow>
     per_take \<noteq> [] \<and> set per_take \<subseteq>
       {Slot_ended t | t. to_linear_completed t \<and>
          (\<exists>traversal. to_traversal t = Some traversal \<and>
             credits_full_take (to_evidence t) (po_kind (to_playback t)) traversal)}) \<and>
   (eo_complete (evaluate_evidence p) \<longleftrightarrow>
     p = \<lparr>ep_identification = True, ep_conditions = True, ep_positions = True, ep_controls = True,
          ep_result = True, ep_data_without_losses = True, ep_fragments_flushed = True,
          ep_within_limits = True\<rparr>) \<and>
   distinct (eo_reasons (evaluate_evidence p)) \<and>
   length (eo_reasons (evaluate_evidence p)) = length (filter (Not \<circ> fst) (evidence_checks p))"
proof -
  have "slot_complete s \<longleftrightarrow> s \<in> {Slot_ended t | t. to_linear_completed t \<and>
      (\<exists>traversal. to_traversal t = Some traversal \<and>
         credits_full_take (to_evidence t) (po_kind (to_playback t)) traversal)}" for s
    by (cases s) (auto simp: credits_full_take_def)
  then have "linear_complete per_take \<longleftrightarrow> per_take \<noteq> [] \<and> set per_take \<subseteq>
      {Slot_ended t | t. to_linear_completed t \<and>
         (\<exists>traversal. to_traversal t = Some traversal \<and>
            credits_full_take (to_evidence t) (po_kind (to_playback t)) traversal)}"
    by (simp add: linear_complete_def list_all_iff subset_eq)
  moreover have "eo_complete (evaluate_evidence p) \<longleftrightarrow> list_all fst (evidence_checks p)"
    by (simp add: evaluate_evidence_def Let_def filter_empty_conv case_prod_beta list_all_iff)
  moreover have "list_all fst (evidence_checks p) \<longleftrightarrow>
      p = \<lparr>ep_identification = True, ep_conditions = True, ep_positions = True, ep_controls = True,
        ep_result = True, ep_data_without_losses = True, ep_fragments_flushed = True, ep_within_limits = True\<rparr>"
    by (cases p) (auto simp: evidence_checks_def)
  moreover have "distinct (map snd (evidence_checks p))"
    by (simp add: evidence_checks_def)
  then have "distinct (eo_reasons (evaluate_evidence p))"
    by (simp add: evaluate_evidence_def Let_def distinct_map_filter)
  moreover have "length (eo_reasons (evaluate_evidence p)) = length (filter (Not \<circ> fst) (evidence_checks p))"
    by (simp add: evaluate_evidence_def Let_def case_prod_unfold comp_def)
  ultimately show ?thesis by blast
qed

end
