(* ===== verification/Run_Lifecycle.thy ===== *)
theory Run_Lifecycle
  imports Qa_Model
begin

text \<open>
  The life of one run and the components that end it: \<^verbatim>\<open>tools/audio_qa/run_lifecycle.{h,cpp}\<close>,
  \<^verbatim>\<open>replay_terminal_arbiter.{h,cpp}\<close>, \<^verbatim>\<open>replay_control_gate.{h,cpp}\<close>,
  \<^verbatim>\<open>replay_cancellation.{h,cpp}\<close> and \<^verbatim>\<open>evidence_close.{h,cpp}\<close>.

  The arbiter of terminals, the cancellation and the close of the evidence all change one lifecycle
  that they are passed by reference. Each operation returns its own state, the lifecycle and the value
  of the method; \<open>run_control\<close> puts the five together and \<open>control_step\<close> runs one call on it.
\<close>

section \<open>The lifecycle\<close>

datatype transition_error =
  Transition_none | Invalid_initial_state | Invalid_transition | Invalid_terminal_result | Invalid_evidence_result

record lifecycle =
  lc_run :: run
  lc_error :: transition_error

definition make_lifecycle :: "run \<Rightarrow> lifecycle" where
  "make_lifecycle r =
     \<lparr>lc_run = r,
      lc_error =
        (if run_id r = [] \<or> run_request_id r = [] \<or> take_id r = [] \<or> run_phase r \<noteq> Run_preparing \<or>
            playback_result r \<noteq> Playback_not_started \<or> evidence_result r \<noteq> Evidence_pending
         then Invalid_initial_state else Transition_none)\<rparr>"

definition mark_ready :: "lifecycle \<Rightarrow> lifecycle \<times> transition_error" where
  "mark_ready l =
     (if lc_error l \<noteq> Transition_none \<or> run_phase (lc_run l) \<noteq> Run_preparing then (l, Invalid_transition)
      else (l\<lparr>lc_run := (lc_run l)\<lparr>run_phase := Run_ready\<rparr>\<rparr>, Transition_none))"

definition start_playback :: "lifecycle \<Rightarrow> lifecycle \<times> transition_error" where
  "start_playback l =
     (if lc_error l \<noteq> Transition_none \<or> run_phase (lc_run l) \<noteq> Run_ready then (l, Invalid_transition)
      else (l\<lparr>lc_run := (lc_run l)\<lparr>run_phase := Run_playing, playback_result := Playback_in_progress\<rparr>\<rparr>,
            Transition_none))"

definition begin_closing :: "lifecycle \<Rightarrow> playback_result \<Rightarrow> lifecycle \<times> transition_error" where
  "begin_closing l result =
     (if lc_error l \<noteq> Transition_none \<or> run_phase (lc_run l) \<noteq> Run_playing then (l, Invalid_transition)
      else if result = Playback_not_started \<or> result = Playback_in_progress then (l, Invalid_terminal_result)
      else (l\<lparr>lc_run := (lc_run l)\<lparr>run_phase := Run_closing, playback_result := result\<rparr>\<rparr>, Transition_none))"

definition finish_closing :: "lifecycle \<Rightarrow> evidence_result \<Rightarrow> lifecycle \<times> transition_error" where
  "finish_closing l result =
     (if lc_error l \<noteq> Transition_none \<or> run_phase (lc_run l) \<noteq> Run_closing then (l, Invalid_transition)
      else if result = Evidence_pending \<or> result = Evidence_in_progress then (l, Invalid_evidence_result)
      else (l\<lparr>lc_run := (lc_run l)\<lparr>run_phase := Run_closed, evidence_result := result\<rparr>\<rparr>, Transition_none))"

section \<open>The terminal of the playback\<close>

record terminal_event =
  te_result :: playback_result
  te_frames_completed :: u32
  te_last_recording_frame :: "u32 option"
  te_last_engine_frame :: "u64 option"

datatype terminal_decision = Terminal_accepted | Terminal_already_resolved | Terminal_invalid

definition valid_terminal :: "terminal_event \<Rightarrow> bool" where
  "valid_terminal e \<longleftrightarrow>
     te_result e \<noteq> Playback_not_started \<and> te_result e \<noteq> Playback_in_progress \<and>
     (if te_frames_completed e = 0
      then te_last_recording_frame e = None \<and> te_last_engine_frame e = None
      else te_last_recording_frame e = Some (te_frames_completed e - 1) \<and> te_last_engine_frame e \<noteq> None)"

definition resolve ::
    "terminal_event option \<Rightarrow> terminal_event \<Rightarrow> lifecycle \<Rightarrow>
     terminal_event option \<times> lifecycle \<times> terminal_decision" where
  "resolve terminal e l =
     (if \<not> valid_terminal e then (terminal, l, Terminal_invalid)
      else if terminal \<noteq> None then (terminal, l, Terminal_already_resolved)
      else
        (case begin_closing l (te_result e) of
           (l', err) \<Rightarrow>
             if err \<noteq> Transition_none then (terminal, l', Terminal_invalid)
             else (Some e, l', Terminal_accepted)))"

section \<open>External controls and cancellation\<close>

datatype external_control = Game_keyboard | Rewind | Fast_forward | External_cancel

datatype control_disposition = Control_ignored | Cancel_requested

definition handle_control ::
    "bool \<Rightarrow> external_control \<Rightarrow> u16 \<Rightarrow> bool \<times> control_disposition \<times> string" where
  "handle_control requested control buttons =
     (case control of
        Game_keyboard \<Rightarrow> (requested, Control_ignored, ''game_input_ignored'')
      | Rewind \<Rightarrow> (requested, Control_ignored, ''rewind_ignored'')
      | Fast_forward \<Rightarrow> (requested, Control_ignored, ''fast_forward_ignored'')
      | External_cancel \<Rightarrow> (True, Cancel_requested, ''cancel_requested''))"

record cancellation_record =
  cr_requested :: bool
  cr_applied :: bool
  cr_requested_after :: u32
  cr_applied_after :: u32
  cr_last_recording_frame :: "u32 option"
  cr_last_engine_frame :: "u64 option"

definition make_cancellation :: cancellation_record where
  "make_cancellation =
     \<lparr>cr_requested = False, cr_applied = False, cr_requested_after = 0, cr_applied_after = 0,
      cr_last_recording_frame = None, cr_last_engine_frame = None\<rparr>"

definition valid_position :: "u32 \<Rightarrow> u64 option \<Rightarrow> bool" where
  "valid_position frames_completed engine_frame \<longleftrightarrow>
     (if frames_completed = 0 then engine_frame = None else engine_frame \<noteq> None)"

definition capture_request ::
    "cancellation_record \<Rightarrow> bool \<Rightarrow> u32 \<Rightarrow> u64 option \<Rightarrow> cancellation_record \<times> bool" where
  "capture_request c requested frames_completed engine_frame =
     (if \<not> requested \<or> cr_requested c \<or> \<not> valid_position frames_completed engine_frame then (c, False)
      else (c\<lparr>cr_requested := True, cr_requested_after := frames_completed\<rparr>, True))"

definition apply_at_frame_boundary ::
    "cancellation_record \<Rightarrow> u32 \<Rightarrow> u64 option \<Rightarrow> lifecycle \<Rightarrow> cancellation_record \<times> lifecycle \<times> bool" where
  "apply_at_frame_boundary c frames_completed engine_frame l =
     (if \<not> cr_requested c \<or> cr_applied c \<or> frames_completed < cr_requested_after c \<or>
         \<not> valid_position frames_completed engine_frame
      then (c, l, False)
      else
        (case begin_closing l Playback_cancelled of
           (l', err) \<Rightarrow>
             if err \<noteq> Transition_none then (c, l', False)
             else
               (c\<lparr>cr_applied := True, cr_applied_after := frames_completed,
                  cr_last_recording_frame :=
                    (if frames_completed \<noteq> 0 then Some (frames_completed - 1) else cr_last_recording_frame c),
                  cr_last_engine_frame := engine_frame\<rparr>, l', True)))"

section \<open>The close of the evidence\<close>

datatype close_failure = Close_none | Fact_drain_failed | Pcm_drain_failed | Durable_write_failed

record close_report =
  cl_failure :: close_failure
  cl_last_durable_sample :: "u64 option"

definition finish_evidence ::
    "close_report option \<Rightarrow> close_report \<Rightarrow> lifecycle \<Rightarrow> close_report option \<times> lifecycle \<times> bool" where
  "finish_evidence stored report l =
     (if stored \<noteq> None then (stored, l, False)
      else
        (case finish_closing l (if cl_failure report = Close_none then Evidence_complete else Evidence_incomplete) of
           (l', err) \<Rightarrow>
             if err \<noteq> Transition_none then (stored, l', False) else (Some report, l', True)))"

section \<open>The five together\<close>

record run_control =
  rc_lifecycle :: lifecycle
  rc_cancel_requested :: bool
  rc_cancellation :: cancellation_record
  rc_terminal :: "terminal_event option"
  rc_close :: "close_report option"

definition make_run_control :: "run \<Rightarrow> run_control" where
  "make_run_control r =
     \<lparr>rc_lifecycle = make_lifecycle r, rc_cancel_requested = False, rc_cancellation = make_cancellation,
      rc_terminal = None, rc_close = None\<rparr>"

datatype run_event =
  Ready_event
| Playback_event
| Control_event external_control u16
| Capture_event u32 "u64 option"
| Boundary_event u32 "u64 option"
| Terminal_event terminal_event
| Close_event close_report

fun control_step :: "run_control \<Rightarrow> run_event \<Rightarrow> run_control" where
  "control_step rc Ready_event = rc\<lparr>rc_lifecycle := fst (mark_ready (rc_lifecycle rc))\<rparr>"
| "control_step rc Playback_event = rc\<lparr>rc_lifecycle := fst (start_playback (rc_lifecycle rc))\<rparr>"
| "control_step rc (Control_event control buttons) =
     rc\<lparr>rc_cancel_requested := fst (handle_control (rc_cancel_requested rc) control buttons)\<rparr>"
| "control_step rc (Capture_event frames_completed engine_frame) =
     rc\<lparr>rc_cancellation :=
          fst (capture_request (rc_cancellation rc) (rc_cancel_requested rc) frames_completed engine_frame)\<rparr>"
| "control_step rc (Boundary_event frames_completed engine_frame) =
     (case apply_at_frame_boundary (rc_cancellation rc) frames_completed engine_frame (rc_lifecycle rc) of
        (c, l, ok) \<Rightarrow> rc\<lparr>rc_cancellation := c, rc_lifecycle := l\<rparr>)"
| "control_step rc (Terminal_event e) =
     (case resolve (rc_terminal rc) e (rc_lifecycle rc) of
        (t, l, d) \<Rightarrow> rc\<lparr>rc_terminal := t, rc_lifecycle := l\<rparr>)"
| "control_step rc (Close_event report) =
     (case finish_evidence (rc_close rc) report (rc_lifecycle rc) of
        (c, l, ok) \<Rightarrow> rc\<lparr>rc_close := c, rc_lifecycle := l\<rparr>)"

lemmas lifecycle_ops = mark_ready_def start_playback_def begin_closing_def finish_closing_def
lemmas control_ops = lifecycle_ops resolve_def handle_control_def capture_request_def
  apply_at_frame_boundary_def finish_evidence_def

section \<open>Invariant\<close>

abbreviation the_run :: "run_control \<Rightarrow> run" where
  "the_run rc \<equiv> lc_run (rc_lifecycle rc)"

text \<open>How the run ended: by the terminal that was accepted or by the cancellation that was applied.\<close>

definition ended_by :: "run_control \<Rightarrow> bool" where
  "ended_by rc \<longleftrightarrow>
     (case rc_terminal rc of
        Some e \<Rightarrow> valid_terminal e \<and> playback_result (the_run rc) = te_result e \<and>
          \<not> cr_applied (rc_cancellation rc)
      | None \<Rightarrow> cr_applied (rc_cancellation rc) \<and> playback_result (the_run rc) = Playback_cancelled)"

definition cancellation_wf :: "bool \<Rightarrow> cancellation_record \<Rightarrow> bool" where
  "cancellation_wf requested c \<longleftrightarrow>
     (cr_requested c \<longrightarrow> requested) \<and>
     (if cr_applied c
      then cr_requested c \<and> cr_requested_after c \<le> cr_applied_after c \<and>
        (cr_last_engine_frame c = None \<longleftrightarrow> cr_applied_after c = 0) \<and>
        cr_last_recording_frame c = (if cr_applied_after c = 0 then None else Some (cr_applied_after c - 1))
      else cr_last_recording_frame c = None)"

definition control_wf :: "run_control \<Rightarrow> bool" where
  "control_wf rc \<longleftrightarrow>
     cancellation_wf (rc_cancel_requested rc) (rc_cancellation rc) \<and> lc_error (rc_lifecycle rc) = Transition_none \<and>
     (case run_phase (the_run rc) of
        Run_preparing \<Rightarrow> playback_result (the_run rc) = Playback_not_started
      | Run_ready \<Rightarrow> playback_result (the_run rc) = Playback_not_started
      | Run_playing \<Rightarrow> playback_result (the_run rc) = Playback_in_progress
      | _ \<Rightarrow> ended_by rc) \<and>
     (run_phase (the_run rc) \<notin> {Run_closing, Run_closed} \<longrightarrow>
        rc_terminal rc = None \<and> \<not> cr_applied (rc_cancellation rc)) \<and>
     (case rc_close rc of
        Some report \<Rightarrow> run_phase (the_run rc) = Run_closed \<and>
          evidence_result (the_run rc) =
            (if cl_failure report = Close_none then Evidence_complete else Evidence_incomplete)
      | None \<Rightarrow> run_phase (the_run rc) \<noteq> Run_closed \<and> evidence_result (the_run rc) = Evidence_pending)"

lemma control_wf_make:
  "lc_error (make_lifecycle r) = Transition_none \<Longrightarrow> control_wf (make_run_control r)"
  by (auto simp: control_wf_def make_run_control_def make_lifecycle_def cancellation_wf_def
      make_cancellation_def split: if_splits)

lemma control_wf_step: "control_wf rc \<Longrightarrow> control_wf (control_step rc e)"
proof (cases e)
  case (Boundary_event n f)
  assume "control_wf rc"
  with Boundary_event show ?thesis
    by (cases "run_phase (the_run rc)")
       (auto simp: control_wf_def control_ops cancellation_wf_def ended_by_def valid_position_def word_greater_zero_iff
          split: option.splits if_splits)
qed (auto simp: control_wf_def control_ops cancellation_wf_def ended_by_def
      split: option.splits run_phase.splits external_control.splits if_splits)

fun phase_rank :: "run_phase \<Rightarrow> nat" where
  "phase_rank Run_preparing = 0"
| "phase_rank Run_ready = 1"
| "phase_rank Run_playing = 2"
| "phase_rank Run_closing = 3"
| "phase_rank Run_closed = 4"

interpretation run_control_machine: monotone_machine control_step control_wf
    "\<lambda>rc. phase_rank (run_phase (the_run rc))"
proof unfold_locales
  show "control_wf rc \<Longrightarrow> True \<Longrightarrow> control_wf (control_step rc e)" for rc e
    by (rule control_wf_step)
  show "phase_rank (run_phase (the_run rc)) \<le> phase_rank (run_phase (the_run (control_step rc e)))" for rc e
    by (cases e) (auto simp: control_ops split: option.splits external_control.splits)
qed

lemma ended_result_stays:
  assumes "control_wf rc" and "run_phase (the_run rc) \<in> {Run_closing, Run_closed}"
  shows "playback_result (the_run (control_step rc e)) = playback_result (the_run rc) \<and>
    rc_terminal (control_step rc e) = rc_terminal rc \<and>
    cr_applied (rc_cancellation (control_step rc e)) = cr_applied (rc_cancellation rc)"
  using assms by (cases e) (auto simp: control_wf_def control_ops split: option.splits external_control.splits if_splits)

interpretation ended_machine: absorbing_machine control_step
    "\<lambda>rc. control_wf rc \<and> run_phase (the_run rc) \<in> {Run_closing, Run_closed} \<and>
       playback_result (the_run rc) = r \<and> rc_terminal rc = t" for r t
proof
  fix rc e
  assume rc: "control_wf rc \<and> run_phase (the_run rc) \<in> {Run_closing, Run_closed} \<and>
    playback_result (the_run rc) = r \<and> rc_terminal rc = t"
  then have "run_phase (the_run (control_step rc e)) \<in> {Run_closing, Run_closed}"
    by (cases e) (auto simp: control_ops split: option.splits external_control.splits)
  with rc ended_result_stays [of rc e] control_wf_step [of rc e]
  show "control_wf (control_step rc e) \<and> run_phase (the_run (control_step rc e)) \<in> {Run_closing, Run_closed} \<and>
      playback_result (the_run (control_step rc e)) = r \<and> rc_terminal (control_step rc e) = t"
    by auto
qed

section \<open>Properties\<close>

text \<open>
  C6: A run ends once, by one cause. Over every sequence of calls on a new run, with the terminals and
  the cancellation in any order, the playback has ended exactly when the run closes or is closed; it
  was then ended either by the one terminal that was accepted, whose result it has, or by the
  cancellation, at a frame boundary not before the request, and never by both; its evidence is decided
  exactly by the close report; and whatever is called afterwards neither the result nor its cause
  changes.
\<close>

theorem run_ends_once:
  assumes "lc_error (make_lifecycle r) = Transition_none"
    and "rc = exec control_step (make_run_control r) es" and "later = exec control_step rc es'"
  shows "(playback_result (the_run rc) \<in> {Playback_natural_end, Playback_cancelled, Playback_error} \<longleftrightarrow>
       run_phase (the_run rc) \<in> {Run_closing, Run_closed}) \<and>
    (run_phase (the_run rc) \<in> {Run_closing, Run_closed} \<longrightarrow>
       (case rc_terminal rc of
          Some e \<Rightarrow> valid_terminal e \<and> playback_result (the_run rc) = te_result e \<and>
            \<not> cr_applied (rc_cancellation rc)
        | None \<Rightarrow> playback_result (the_run rc) = Playback_cancelled \<and> cr_applied (rc_cancellation rc) \<and>
            rc_cancel_requested rc \<and>
            cr_requested_after (rc_cancellation rc) \<le> cr_applied_after (rc_cancellation rc)) \<and>
       playback_result (the_run later) = playback_result (the_run rc) \<and> rc_terminal later = rc_terminal rc) \<and>
    (evidence_result (the_run rc) =
       (case rc_close rc of
          None \<Rightarrow> Evidence_pending
        | Some report \<Rightarrow> if cl_failure report = Close_none then Evidence_complete else Evidence_incomplete))"
proof -
  have wf: "control_wf rc"
    unfolding assms(2) by (rule run_control_machine.invar_run [OF control_wf_make [OF assms(1)]])
  have ended: "ended_by rc" if "run_phase (the_run rc) \<in> {Run_closing, Run_closed}"
    using wf that by (auto simp: control_wf_def)
  have "playback_result (the_run later) = playback_result (the_run rc) \<and> rc_terminal later = rc_terminal rc"
    if "run_phase (the_run rc) \<in> {Run_closing, Run_closed}"
    unfolding assms(3)
    using ended_machine.absorbing_run [of rc "playback_result (the_run rc)" "rc_terminal rc" es'] wf that by simp
  moreover have "playback_result (the_run rc) \<in> {Playback_natural_end, Playback_cancelled, Playback_error} \<longleftrightarrow>
      run_phase (the_run rc) \<in> {Run_closing, Run_closed}"
    using wf ended
    by (cases "run_phase (the_run rc)"; cases "playback_result (the_run rc)")
       (auto simp: control_wf_def ended_by_def valid_terminal_def split: option.splits)
  moreover have "evidence_result (the_run rc) =
       (case rc_close rc of
          None \<Rightarrow> Evidence_pending
        | Some report \<Rightarrow> if cl_failure report = Close_none then Evidence_complete else Evidence_incomplete)"
    using wf by (auto simp: control_wf_def split: option.splits)
  ultimately show ?thesis
    using ended wf
    by (auto simp: ended_by_def control_wf_def cancellation_wf_def split: option.splits if_splits)
qed

definition example_qa_run :: run where
  "example_qa_run = make_run ''run'' ''request'' ''take''"

definition cancelled_calls :: "run_event list" where
  "cancelled_calls =
     [Ready_event, Playback_event, Control_event External_cancel 0, Capture_event 2 (Some 12),
      Boundary_event 3 (Some 13),
      Terminal_event \<lparr>te_result = Playback_natural_end, te_frames_completed = 3,
        te_last_recording_frame = Some 2, te_last_engine_frame = Some 13\<rparr>]"

theorem run_ends_once_witness:
  "playback_result (the_run (exec control_step (make_run_control example_qa_run) cancelled_calls)) = Playback_cancelled \<and>
   rc_terminal (exec control_step (make_run_control example_qa_run) cancelled_calls) = None"
proof -
  let ?rc = "exec control_step (make_run_control example_qa_run) cancelled_calls"
  have "lc_error (make_lifecycle example_qa_run) = Transition_none"
    by (simp add: make_lifecycle_def example_qa_run_def make_run_def)
  moreover have "run_phase (the_run ?rc) = Run_closing \<and> rc_terminal ?rc = None"
    by code_simp
  ultimately show ?thesis
    using run_ends_once [OF _ refl refl, of example_qa_run cancelled_calls "[]"] by simp
qed

end
