(* ===== verification/Run_Sequences.thy ===== *)
theory Run_Sequences
  imports Qa_Model
begin

text \<open>
  The runs of a request and the process of each one: \<^verbatim>\<open>tools/audio_qa/take_run_sequence.{h,cpp}\<close>,
  \<^verbatim>\<open>take_process_sequence.{h,cpp}\<close>, \<^verbatim>\<open>request_registry.{h,cpp}\<close>,
  \<^verbatim>\<open>session_occupancy.{h,cpp}\<close> and \<^verbatim>\<open>process_cessation.{h,cpp}\<close>.

  Each class is a record of its fields and one function per method. The registry refines a map from
  request identities; the others are state machines with an invariant.
\<close>

section \<open>The runs of a request\<close>

datatype run_sequence_error =
  Sequence_none | Sequence_invalid_request | Run_count_mismatch | Duplicate_take | Duplicate_run

record run_sequence =
  rq_error :: run_sequence_error
  rq_runs :: "run list"

fun has_empty_or_duplicate :: "string list \<Rightarrow> bool" where
  "has_empty_or_duplicate [] = False"
| "has_empty_or_duplicate (x # xs) = (x = [] \<or> x \<in> set xs \<or> has_empty_or_duplicate xs)"

definition make_run_sequence :: "request \<Rightarrow> string list \<Rightarrow> run_sequence" where
  "make_run_sequence q ids =
     (if request_id q = [] \<or> session_id q = [] \<or> conditions_id q = [] \<or> take_ids q = []
      then \<lparr>rq_error = Sequence_invalid_request, rq_runs = []\<rparr>
      else if length (take_ids q) \<noteq> length ids then \<lparr>rq_error = Run_count_mismatch, rq_runs = []\<rparr>
      else if has_empty_or_duplicate (take_ids q) then \<lparr>rq_error = Duplicate_take, rq_runs = []\<rparr>
      else if has_empty_or_duplicate ids then \<lparr>rq_error = Duplicate_run, rq_runs = []\<rparr>
      else \<lparr>rq_error = Sequence_none,
            rq_runs = map (\<lambda>(run, material). make_run run (request_id q) material) (zip ids (take_ids q))\<rparr>)"

fun replace_first :: "('a \<Rightarrow> bool) \<Rightarrow> 'a \<Rightarrow> 'a list \<Rightarrow> 'a list option" where
  "replace_first P y [] = None"
| "replace_first P y (x # xs) = (if P x then Some (y # xs) else map_option ((#) x) (replace_first P y xs))"

definition update_sequence :: "run_sequence \<Rightarrow> run \<Rightarrow> run_sequence \<times> bool" where
  "update_sequence s r =
     (case replace_first (same_run r) r (rq_runs s) of
        None \<Rightarrow> (s, False)
      | Some runs \<Rightarrow> (s\<lparr>rq_runs := runs\<rparr>, True))"

section \<open>One process per run\<close>

record process_start =
  ps_take_index :: nat
  ps_run :: run
  ps_process :: string

record process_sequence =
  pq_runs :: "run list"
  pq_processes :: "string list"
  pq_current :: nat
  pq_active :: "string option"

definition make_process_sequence :: "run list \<Rightarrow> process_sequence" where
  "make_process_sequence runs = \<lparr>pq_runs = runs, pq_processes = [], pq_current = 0, pq_active = None\<rparr>"

definition start_next :: "process_sequence \<Rightarrow> string \<Rightarrow> process_sequence \<times> process_start option" where
  "start_next s process =
     (if pq_active s \<noteq> None \<or> length (pq_runs s) \<le> pq_current s \<or> process = [] \<or>
         process \<in> set (pq_processes s)
      then (s, None)
      else (s\<lparr>pq_processes := pq_processes s @ [process], pq_active := Some process\<rparr>,
            Some \<lparr>ps_take_index = pq_current s, ps_run = pq_runs s ! pq_current s, ps_process = process\<rparr>))"

definition finish_current :: "process_sequence \<Rightarrow> run \<Rightarrow> process_sequence \<times> bool" where
  "finish_current s r =
     (if pq_active s = None \<or> length (pq_runs s) \<le> pq_current s then (s, False)
      else if \<not> same_run r (pq_runs s ! pq_current s) \<or> run_phase r \<noteq> Run_closed \<or> \<not> cessation_confirmed r
      then (s, False)
      else (s\<lparr>pq_runs := (pq_runs s)[pq_current s := r], pq_current := pq_current s + 1, pq_active := None\<rparr>, True))"

datatype process_event = Process_starts string | Process_finishes run

fun process_step :: "process_sequence \<Rightarrow> process_event \<Rightarrow> process_sequence" where
  "process_step s (Process_starts process) = fst (start_next s process)"
| "process_step s (Process_finishes r) = fst (finish_current s r)"

section \<open>The registry of requests\<close>

type_synonym registry = "(request \<times> run) list"

datatype registration_decision =
  Registration_accepted | Registration_known | Identity_conflict | Registration_invalid | Capacity_exceeded

definition max_registered_requests :: nat where
  "max_registered_requests = 1024"

definition same_content :: "request \<Rightarrow> request \<Rightarrow> bool" where
  "same_content a b \<longleftrightarrow>
     request_id a = request_id b \<and> session_id a = session_id b \<and> conditions_id a = conditions_id b \<and>
     take_ids a = take_ids b \<and> material_kind a = material_kind b"

definition valid_registration :: "request \<Rightarrow> run \<Rightarrow> bool" where
  "valid_registration q r \<longleftrightarrow>
     request_id q \<noteq> [] \<and> session_id q \<noteq> [] \<and> conditions_id q \<noteq> [] \<and> take_ids q \<noteq> [] \<and> run_id r \<noteq> [] \<and>
     run_request_id r = request_id q \<and> take_id r \<noteq> []"

text \<open>The run of the result, \<open>None\<close> where the code returns an empty one.\<close>

definition register_request ::
    "registry \<Rightarrow> request \<Rightarrow> run \<Rightarrow> registry \<times> registration_decision \<times> run option" where
  "register_request es q r =
     (if \<not> valid_registration q r then (es, Registration_invalid, None)
      else
        (case List.find (\<lambda>(q', r'). request_id q' = request_id q) es of
           Some (q', r') \<Rightarrow>
             (es, if same_content q' q then Registration_known else Identity_conflict, Some r')
         | None \<Rightarrow>
             if max_registered_requests \<le> length es then (es, Capacity_exceeded, None)
             else (es @ [(q\<lparr>admission := Admission_accepted\<rparr>, r)], Registration_accepted, Some r)))"

fun update_entry :: "registry \<Rightarrow> run \<Rightarrow> registry option" where
  "update_entry [] r = None"
| "update_entry ((q, r') # es) r =
     (if run_id r' = run_id r \<and> request_id q = run_request_id r then Some ((q, r) # es)
      else map_option ((#) (q, r')) (update_entry es r))"

definition update_run :: "registry \<Rightarrow> run \<Rightarrow> registry \<times> bool" where
  "update_run es r = (case update_entry es r of None \<Rightarrow> (es, False) | Some es' \<Rightarrow> (es', True))"

datatype registry_event = Registers request run | Updates run

fun registry_step :: "registry \<Rightarrow> registry_event \<Rightarrow> registry" where
  "registry_step es (Registers q r) = fst (register_request es q r)"
| "registry_step es (Updates r) = fst (update_run es r)"

section \<open>One session at a time\<close>

datatype session_decision = Session_accepted | Session_busy | Session_invalid_request

record occupancy =
  oc_request_id :: string
  oc_run_id :: string

definition empty_occupancy :: occupancy where
  "empty_occupancy = \<lparr>oc_request_id = [], oc_run_id = []\<rparr>"

definition occupied :: "occupancy \<Rightarrow> bool" where
  "occupied s \<longleftrightarrow> oc_run_id s \<noteq> []"

definition admit :: "occupancy \<Rightarrow> string \<Rightarrow> string \<Rightarrow> occupancy \<times> session_decision" where
  "admit s request run =
     (if request = [] \<or> run = [] then (s, Session_invalid_request)
      else if occupied s then (s, Session_busy)
      else (\<lparr>oc_request_id = request, oc_run_id = run\<rparr>, Session_accepted))"

definition observe_session :: "occupancy \<Rightarrow> run \<Rightarrow> occupancy \<times> bool" where
  "observe_session s r =
     (if \<not> occupied s \<or> run_request_id r \<noteq> oc_request_id s \<or> run_id r \<noteq> oc_run_id s then (s, False)
      else if run_phase r = Run_closed \<and> cessation_confirmed r then (empty_occupancy, True)
      else (s, True))"

datatype session_call = Admits string string | Observes run

fun occupancy_step :: "occupancy \<Rightarrow> session_call \<Rightarrow> occupancy" where
  "occupancy_step s (Admits request run) = fst (admit s request run)"
| "occupancy_step s (Observes r) = fst (observe_session s r)"

section \<open>The end of a process\<close>

datatype cessation_state =
  Cessation_connected | Cessation_disconnected | Cessation_stop_requested | Cessation_unconfirmed |
  Cessation_confirmed

record cessation =
  ce_state :: cessation_state
  ce_last_known_run :: run
  ce_exit_code :: "32 word option"

definition make_cessation :: "run \<Rightarrow> cessation" where
  "make_cessation r = \<lparr>ce_state = Cessation_connected, ce_last_known_run = r, ce_exit_code = None\<rparr>"

definition observe_run :: "cessation \<Rightarrow> run \<Rightarrow> cessation \<times> bool" where
  "observe_run c r =
     (if ce_state c \<noteq> Cessation_connected \<or> \<not> same_run r (ce_last_known_run c) then (c, False)
      else (c\<lparr>ce_last_known_run := r\<rparr>, True))"

definition observe_disconnect :: "cessation \<Rightarrow> cessation \<times> bool" where
  "observe_disconnect c =
     (if ce_state c \<noteq> Cessation_connected then (c, False) else (c\<lparr>ce_state := Cessation_disconnected\<rparr>, True))"

definition request_stop :: "cessation \<Rightarrow> cessation \<times> bool" where
  "request_stop c =
     (if ce_state c \<noteq> Cessation_disconnected then (c, False) else (c\<lparr>ce_state := Cessation_stop_requested\<rparr>, True))"

definition mark_unconfirmed :: "cessation \<Rightarrow> cessation \<times> bool" where
  "mark_unconfirmed c =
     (if ce_state c \<noteq> Cessation_stop_requested then (c, False) else (c\<lparr>ce_state := Cessation_unconfirmed\<rparr>, True))"

definition confirm_exit :: "cessation \<Rightarrow> 32 word \<Rightarrow> cessation \<times> bool" where
  "confirm_exit c exit_code =
     (if ce_state c = Cessation_confirmed then (c, False)
      else (c\<lparr>ce_state := Cessation_confirmed, ce_exit_code := Some exit_code,
              ce_last_known_run := (ce_last_known_run c)\<lparr>cessation_confirmed := True\<rparr>\<rparr>, True))"

datatype cessation_event =
  Run_observed run | Disconnected | Stop_requested | Marked_unconfirmed | Exited "32 word"

fun cessation_step :: "cessation \<Rightarrow> cessation_event \<Rightarrow> cessation" where
  "cessation_step c (Run_observed r) = fst (observe_run c r)"
| "cessation_step c Disconnected = fst (observe_disconnect c)"
| "cessation_step c Stop_requested = fst (request_stop c)"
| "cessation_step c Marked_unconfirmed = fst (mark_unconfirmed c)"
| "cessation_step c (Exited exit_code) = fst (confirm_exit c exit_code)"

lemmas cessation_ops =
  observe_run_def observe_disconnect_def request_stop_def mark_unconfirmed_def confirm_exit_def

section \<open>Properties\<close>

subsection \<open>Processes\<close>

definition process_wf :: "run list \<Rightarrow> process_sequence \<Rightarrow> bool" where
  "process_wf runs s \<longleftrightarrow>
     length (pq_runs s) = length runs \<and> pq_current s \<le> length runs \<and>
     (\<forall>i < pq_current s. same_run (pq_runs s ! i) (runs ! i) \<and> run_phase (pq_runs s ! i) = Run_closed \<and>
        cessation_confirmed (pq_runs s ! i)) \<and>
     (\<forall>i < length runs. pq_current s \<le> i \<longrightarrow> pq_runs s ! i = runs ! i) \<and>
     distinct (pq_processes s) \<and> [] \<notin> set (pq_processes s) \<and>
     length (pq_processes s) = pq_current s + (case pq_active s of None \<Rightarrow> 0 | Some _ \<Rightarrow> 1) \<and>
     (\<forall>p. pq_active s = Some p \<longrightarrow> pq_processes s \<noteq> [] \<and> last (pq_processes s) = p \<and> pq_current s < length runs)"

interpretation process_machine: machine process_step "process_wf runs" for runs
proof unfold_locales
  fix s e
  assume wf: "process_wf runs s"
  show "process_wf runs (process_step s e)"
  proof (cases e)
    case (Process_starts p)
    with wf show ?thesis
      by (auto simp: process_wf_def start_next_def split: option.splits)
  next
    case (Process_finishes r)
    with wf show ?thesis
      by (auto simp: process_wf_def finish_current_def nth_list_update less_Suc_eq split: option.splits)
  qed
qed

text \<open>
  C24: The takes of a request run one at a time, in order, each in a process of its own. Over every
  sequence of starts and ends, also of wrong or repeated ones, the first runs have closed with their
  process confirmed dead, the later ones are untouched, at most the next one has a process, and no
  process serves two runs.
\<close>

theorem processes_one_at_a_time:
  assumes "s = exec process_step (make_process_sequence runs) es"
  shows "(\<forall>i < length runs.
       (i < pq_current s \<longrightarrow> same_run (pq_runs s ! i) (runs ! i) \<and> run_phase (pq_runs s ! i) = Run_closed \<and>
          cessation_confirmed (pq_runs s ! i)) \<and>
       (pq_current s \<le> i \<longrightarrow> pq_runs s ! i = runs ! i)) \<and>
    distinct (pq_processes s) \<and>
    (case snd (start_next s p) of
       None \<Rightarrow> True
     | Some start \<Rightarrow> ps_take_index start = pq_current s \<and> ps_run start = runs ! pq_current s \<and>
         pq_active s = None \<and> length (pq_processes s) = pq_current s \<and> p \<notin> set (pq_processes s))"
proof -
  have "process_wf runs (make_process_sequence runs)"
    by (simp add: process_wf_def make_process_sequence_def)
  then have "process_wf runs s"
    unfolding assms by (rule process_machine.invar_run)
  then show ?thesis
    by (auto simp: process_wf_def start_next_def split: option.splits)
qed

theorem processes_one_at_a_time_witness:
  "(let r = make_run ''a'' ''q'' ''t''; s = exec process_step (make_process_sequence [r, make_run ''b'' ''q'' ''u''])
       [Process_starts ''p1'', Process_starts ''p2'', Process_finishes (r\<lparr>run_phase := Run_closed\<rparr>)]
    in pq_current s = 0 \<and> pq_runs s ! 1 = make_run ''b'' ''q'' ''u'' \<and> snd (start_next s ''p3'') = None)"
proof -
  let ?r = "make_run ''a'' ''q'' ''t''" and ?u = "make_run ''b'' ''q'' ''u''"
  let ?s = "exec process_step (make_process_sequence [?r, ?u])
       [Process_starts ''p1'', Process_starts ''p2'', Process_finishes (?r\<lparr>run_phase := Run_closed\<rparr>)]"
  have "pq_current ?s = 0 \<and> snd (start_next ?s ''p3'') = None" by code_simp
  moreover have "pq_runs ?s ! 1 = ?u"
    using processes_one_at_a_time [OF refl, of "[?r, ?u]"
        "[Process_starts ''p1'', Process_starts ''p2'', Process_finishes (?r\<lparr>run_phase := Run_closed\<rparr>)]" "''p3''"]
      calculation by auto
  ultimately show ?thesis by (simp only: Let_def)
qed

subsection \<open>Registry\<close>

definition registry_map :: "registry \<Rightarrow> string \<rightharpoonup> request \<times> run" where
  "registry_map es = map_of (map (\<lambda>(q, r). (request_id q, (q, r))) es)"

definition registry_wf :: "registry \<Rightarrow> bool" where
  "registry_wf es \<longleftrightarrow>
     distinct (map (request_id \<circ> fst) es) \<and> length es \<le> max_registered_requests \<and>
     (\<forall>(q, r) \<in> set es. admission q = Admission_accepted \<and> run_request_id r = request_id q)"

text \<open>The specification: a partial map with the first content of each request and its latest run.\<close>

fun spec_registry_step :: "(string \<rightharpoonup> request \<times> run) \<Rightarrow> registry_event \<Rightarrow> string \<rightharpoonup> request \<times> run" where
  "spec_registry_step m (Registers q r) =
     (if valid_registration q r \<and> m (request_id q) = None \<and> card (dom m) < max_registered_requests
      then m(request_id q \<mapsto> (q\<lparr>admission := Admission_accepted\<rparr>, r)) else m)"
| "spec_registry_step m (Updates r) =
     (case m (run_request_id r) of
        Some (q, r') \<Rightarrow> if run_id r' = run_id r then m(run_request_id r \<mapsto> (q, r)) else m
      | None \<Rightarrow> m)"

lemma registry_map_Nil [simp]: "registry_map [] = Map.empty"
  by (simp add: registry_map_def)

lemma registry_map_Cons [simp]: "registry_map ((q, r) # es) = (registry_map es)(request_id q \<mapsto> (q, r))"
  by (simp add: registry_map_def)

lemma registry_find:
  "List.find (\<lambda>(q, r). request_id q = k) es = registry_map es k"
  by (induction es) auto

lemma registry_map_snoc:
  "registry_map es (request_id q) = None \<Longrightarrow>
     registry_map (es @ [(q, r)]) = (registry_map es)(request_id q \<mapsto> (q, r))"
  by (induction es) (auto simp: fun_upd_twist split: if_splits)

lemma registry_dom: "dom (registry_map es) = set (map (request_id \<circ> fst) es)"
  unfolding registry_map_def by (simp add: dom_map_of_conv_image_fst image_image case_prod_beta comp_def)

lemma registry_card: "registry_wf es \<Longrightarrow> card (dom (registry_map es)) = length es"
  by (simp add: registry_dom registry_wf_def distinct_card del: set_map)

lemma update_entry_shape:
  "update_entry es r = Some es' \<Longrightarrow> map (request_id \<circ> fst) es' = map (request_id \<circ> fst) es \<and>
     fst ` set es' = fst ` set es \<and>
     (\<forall>(q, r') \<in> set es'. (q, r') \<in> set es \<or> (r' = r \<and> request_id q = run_request_id r))"
proof (induction es arbitrary: es')
  case (Cons e es)
  obtain q r' where e: "e = (q, r')" by fastforce
  show ?case
  proof (cases "run_id r' = run_id r \<and> request_id q = run_request_id r")
    case True
    with Cons.prems e show ?thesis by auto
  next
    case False
    then obtain es1 where "update_entry es r = Some es1" "es' = (q, r') # es1"
      using Cons.prems e by (auto split: if_splits)
    with Cons.IH [of es1] e show ?thesis by auto
  qed
qed simp

lemma update_entry_map:
  assumes "distinct (map (request_id \<circ> fst) es)"
  shows "registry_map (case update_entry es r of None \<Rightarrow> es | Some es' \<Rightarrow> es') =
    spec_registry_step (registry_map es) (Updates r)"
  using assms
proof (induction es r rule: update_entry.induct)
  case (2 q r' es r)
  have fresh: "registry_map es (request_id q) = None"
    using 2(2) registry_dom [of es] by (auto simp: domIff)
  show ?case
  proof (cases "run_id r' = run_id r \<and> request_id q = run_request_id r")
    case True
    then show ?thesis by (simp add: fun_upd_def fun_eq_iff)
  next
    case False
    define es' where "es' = (case update_entry es r of None \<Rightarrow> es | Some es1 \<Rightarrow> es1)"
    have A: "registry_map es' = spec_registry_step (registry_map es) (Updates r)"
      unfolding es'_def using 2(1) [OF False] 2(2) by simp
    have B: "(case update_entry ((q, r') # es) r of None \<Rightarrow> (q, r') # es | Some es1 \<Rightarrow> es1) = (q, r') # es'"
      using False by (auto simp: es'_def split: option.split)
    have C: "(spec_registry_step (registry_map es) (Updates r))(request_id q \<mapsto> (q, r')) =
        spec_registry_step ((registry_map es)(request_id q \<mapsto> (q, r'))) (Updates r)"
    proof (cases "run_request_id r = request_id q")
      case True
      with False fresh show ?thesis by auto
    next
      case other: False
      then show ?thesis
        by (cases "registry_map es (run_request_id r)") (auto simp: fun_upd_twist)
    qed
    show ?thesis by (simp only: B registry_map_Cons A C)
  qed
qed simp

lemma registry_wf_step: "registry_wf es \<Longrightarrow> registry_wf (registry_step es e)"
proof (cases e)
  case (Registers q r)
  assume wf: "registry_wf es"
  show ?thesis
  proof (cases "registry_map es (request_id q)")
    case None
    then have "request_id q \<notin> set (map (request_id \<circ> fst) es)"
      unfolding registry_dom [symmetric] by (simp add: domIff)
    with wf Registers None show ?thesis
      by (auto simp: registry_wf_def register_request_def registry_find valid_registration_def)
  next
    case (Some x)
    with wf Registers show ?thesis
      by (cases x) (simp add: register_request_def registry_find)
  qed
next
  case (Updates r)
  assume wf: "registry_wf es"
  show ?thesis
  proof (cases "update_entry es r")
    case None
    with wf Updates show ?thesis by (simp add: update_run_def)
  next
    case (Some es')
    note shape = update_entry_shape [OF this]
    have "admission q = Admission_accepted \<and> run_request_id r' = request_id q" if "(q, r') \<in> set es'" for q r'
    proof -
      have "q \<in> fst ` set es" using shape that by force
      then have "admission q = Admission_accepted" using wf by (auto simp: registry_wf_def)
      with shape that wf show ?thesis by (auto simp: registry_wf_def)
    qed
    moreover have "length es' = length es"
      using shape by (metis length_map)
    ultimately show ?thesis
      using wf Updates Some shape by (auto simp: registry_wf_def update_run_def)
  qed
qed

interpretation registry_machine: simulation registry_step registry_wf registry_map spec_registry_step
proof unfold_locales
  fix es e
  show "registry_wf es \<Longrightarrow> True \<Longrightarrow> registry_wf (registry_step es e)"
    by (rule registry_wf_step)
  assume wf: "registry_wf es"
  show "registry_map (registry_step es e) = spec_registry_step (registry_map es) e"
  proof (cases e)
    case (Registers q r)
    show ?thesis
    proof (cases "registry_map es (request_id q)")
      case None
      with Registers registry_card [OF wf] show ?thesis
        by (simp add: register_request_def registry_find registry_map_snoc)
    next
      case (Some x)
      with Registers show ?thesis
        by (cases x) (simp add: register_request_def registry_find)
    qed
  next
    case (Updates r)
    have "distinct (map (request_id \<circ> fst) es)" using wf by (simp add: registry_wf_def)
    from update_entry_map [OF this, of r] Updates show ?thesis
      by (cases "update_entry es r") (simp_all add: update_run_def)
  qed
qed

text \<open>
  C10: The registry is a map from request identities. Over every sequence of registrations and updates
  it holds, for each identity, the content it was first accepted with and the latest run reported for
  it, exactly as the map of the specification: a repeated registration changes nothing, a different
  request under a known identity is refused, and the 1025th request is not taken.
\<close>

theorem registry_refines_map:
  "registry_map (exec registry_step [] es) = exec spec_registry_step Map.empty es \<and>
   card (dom (exec spec_registry_step Map.empty es)) = length (exec registry_step [] es) \<and>
   length (exec registry_step [] es) \<le> max_registered_requests \<and>
   (fst (snd (register_request (exec registry_step [] es) q r)) =
     (if \<not> valid_registration q r then Registration_invalid
      else case exec spec_registry_step Map.empty es (request_id q) of
        Some (q', r') \<Rightarrow> if same_content q' q then Registration_known else Identity_conflict
      | None \<Rightarrow> if max_registered_requests \<le> card (dom (exec spec_registry_step Map.empty es))
          then Capacity_exceeded else Registration_accepted))"
proof -
  have start: "registry_wf []" by (simp add: registry_wf_def)
  have wf: "registry_wf (exec registry_step [] es)"
    by (rule registry_machine.invar_run [OF start])
  have map: "registry_map (exec registry_step [] es) = exec spec_registry_step Map.empty es"
    using registry_machine.abs_run [OF start] by simp
  show ?thesis
    using wf registry_card [OF wf]
    by (auto simp: register_request_def registry_find registry_wf_def simp flip: map split: option.splits)
qed

subsection \<open>Occupancy and cessation\<close>

text \<open>The end of the run that occupies the session: closed, and its process confirmed dead.\<close>

definition frees_session :: "occupancy \<Rightarrow> run \<Rightarrow> bool" where
  "frees_session s r \<longleftrightarrow>
     run_request_id r = oc_request_id s \<and> run_id r = oc_run_id s \<and> run_phase r = Run_closed \<and> cessation_confirmed r"

text \<open>
  A session has one run at a time. Once a run is admitted, and until that very run is observed
  closed with its process confirmed dead, the session stays with it: every other admission is answered
  busy, and observing any other run, or this one in any other state, changes nothing.
\<close>

theorem session_has_one_run:
  assumes "snd (admit s0 request run) = Session_accepted" and "s = exec occupancy_step (fst (admit s0 request run)) es"
    and "\<forall>r. Observes r \<in> set es \<longrightarrow>
      \<not> frees_session \<lparr>oc_request_id = request, oc_run_id = run\<rparr> r"
  shows "\<not> occupied s0 \<and> s = \<lparr>oc_request_id = request, oc_run_id = run\<rparr> \<and>
    (other_request \<noteq> [] \<and> other_run \<noteq> [] \<longrightarrow> admit s other_request other_run = (s, Session_busy)) \<and>
    (frees_session s r \<longrightarrow> observe_session s r = (empty_occupancy, True))"
proof -
  let ?s = "\<lparr>oc_request_id = request, oc_run_id = run\<rparr>"
  have start: "fst (admit s0 request run) = ?s" "run \<noteq> []" "\<not> occupied s0"
    using assms(1) by (auto simp: admit_def split: if_splits)
  have "exec occupancy_step ?s es = ?s"
    using assms(3)
  proof (induction es)
    case (Cons e es)
    have "occupancy_step ?s e = ?s"
    proof (cases e)
      case (Admits q r)
      with start(2) show ?thesis by (simp add: admit_def occupied_def)
    next
      case (Observes r)
      then have "\<not> frees_session ?s r"
        using Cons.prems by (meson list.set_intros(1))
      with Observes start(2) show ?thesis
        by (auto simp: observe_session_def occupied_def frees_session_def)
    qed
    moreover have "exec occupancy_step ?s es = ?s"
      by (rule Cons.IH) (use Cons.prems in \<open>meson list.set_intros(2)\<close>)
    ultimately show ?case by (simp only: exec_Cons)
  qed (simp only: exec_Nil)
  with assms(2) start(1) have s: "s = ?s" by simp
  have "other_request \<noteq> [] \<and> other_run \<noteq> [] \<longrightarrow> admit ?s other_request other_run = (?s, Session_busy)"
    using start(2) by (simp add: admit_def occupied_def)
  moreover have "frees_session ?s r \<longrightarrow> observe_session ?s r = (empty_occupancy, True)"
    using start(2) by (simp add: observe_session_def occupied_def frees_session_def)
  ultimately show ?thesis
    unfolding s using start(3) by blast
qed

theorem session_has_one_run_witness:
  "admit (exec occupancy_step (fst (admit empty_occupancy ''q'' ''a''))
      [Observes (make_run ''a'' ''q'' ''t''), Admits ''q2'' ''b'']) ''q2'' ''b'' =
    (\<lparr>oc_request_id = ''q'', oc_run_id = ''a''\<rparr>, Session_busy)"
proof -
  have "snd (admit empty_occupancy ''q'' ''a'') = Session_accepted"
    by (simp add: admit_def empty_occupancy_def occupied_def)
  moreover have "\<forall>r. Observes r \<in> set [Observes (make_run ''a'' ''q'' ''t''), Admits ''q2'' ''b''] \<longrightarrow>
      \<not> frees_session \<lparr>oc_request_id = ''q'', oc_run_id = ''a''\<rparr> r"
    by (simp add: frees_session_def make_run_def)
  ultimately have "exec occupancy_step (fst (admit empty_occupancy ''q'' ''a''))
      [Observes (make_run ''a'' ''q'' ''t''), Admits ''q2'' ''b''] = \<lparr>oc_request_id = ''q'', oc_run_id = ''a''\<rparr>"
    by (rule session_has_one_run [OF _ refl, THEN conjunct2, THEN conjunct1])
  moreover have "admit \<lparr>oc_request_id = ''q'', oc_run_id = ''a''\<rparr> ''q2'' ''b'' =
      (\<lparr>oc_request_id = ''q'', oc_run_id = ''a''\<rparr>, Session_busy)"
    by (simp add: admit_def occupied_def)
  ultimately show ?thesis by (simp only:)
qed

fun cessation_rank :: "cessation_state \<Rightarrow> nat" where
  "cessation_rank Cessation_connected = 0"
| "cessation_rank Cessation_disconnected = 1"
| "cessation_rank Cessation_stop_requested = 2"
| "cessation_rank Cessation_unconfirmed = 3"
| "cessation_rank Cessation_confirmed = 4"

definition cessation_wf :: "run \<Rightarrow> cessation \<Rightarrow> bool" where
  "cessation_wf r c \<longleftrightarrow>
     same_run r (ce_last_known_run c) \<and> (ce_exit_code c \<noteq> None \<longleftrightarrow> ce_state c = Cessation_confirmed) \<and>
     (ce_state c = Cessation_confirmed \<longrightarrow> cessation_confirmed (ce_last_known_run c))"

interpretation cessation_machine: monotone_machine cessation_step "cessation_wf r"
    "\<lambda>c. cessation_rank (ce_state c)" for r
proof unfold_locales
  fix c e
  show "cessation_wf r c \<Longrightarrow> True \<Longrightarrow> cessation_wf r (cessation_step c e)"
    by (cases e) (auto simp: cessation_ops cessation_wf_def same_run_def)
  show "cessation_rank (ce_state c) \<le> cessation_rank (ce_state (cessation_step c e))"
    by (cases e; cases "ce_state c") (auto simp: cessation_ops)
qed

interpretation ceased_machine: absorbing_machine cessation_step "\<lambda>c. c = d \<and> ce_state d = Cessation_confirmed" for d
proof
  fix c e
  show "c = d \<and> ce_state d = Cessation_confirmed \<Longrightarrow> cessation_step c e = d \<and> ce_state d = Cessation_confirmed"
    by (cases e) (auto simp: cessation_ops)
qed

text \<open>
  A process counts as dead only by its exit. Over every sequence of reports the end is confirmed
  exactly when an exit code was received, it is then final with that code, the run reported stays the
  one the process was started for, and a connection that was lost is not taken up again.
\<close>

theorem cessation_needs_exit:
  "(let c = exec cessation_step (make_cessation r) es; later = exec cessation_step c es'
    in same_run r (ce_last_known_run c) \<and>
       (if \<exists>x. Exited x \<in> set es
        then ce_state c = Cessation_confirmed \<and> ce_exit_code c \<noteq> None \<and>
          cessation_confirmed (ce_last_known_run c) \<and> later = c
        else ce_state c \<noteq> Cessation_confirmed \<and> ce_exit_code c = None) \<and>
       cessation_rank (ce_state c) \<le> cessation_rank (ce_state later))"
proof -
  let ?c = "exec cessation_step (make_cessation r) es"
  have "cessation_wf r (make_cessation r)"
    by (simp add: cessation_wf_def make_cessation_def same_run_def)
  then have wf: "cessation_wf r ?c" by (rule cessation_machine.invar_run)
  have exits: "ce_state (exec cessation_step d es) = Cessation_confirmed \<longleftrightarrow>
      ce_state d = Cessation_confirmed \<or> (\<exists>x. Exited x \<in> set es)" for d
  proof (induction es arbitrary: d)
    case (Cons e es)
    have "ce_state (cessation_step d e) = Cessation_confirmed \<longleftrightarrow>
        ce_state d = Cessation_confirmed \<or> (\<exists>x. e = Exited x)"
      by (cases e) (auto simp: cessation_ops)
    with Cons.IH show ?case by auto
  qed simp
  have confirmed: "ce_state ?c = Cessation_confirmed \<longleftrightarrow> (\<exists>x. Exited x \<in> set es)"
    using exits [of "make_cessation r"] by (simp add: make_cessation_def)
  have "cessation_rank (ce_state ?c) \<le> cessation_rank (ce_state (exec cessation_step ?c es'))"
    by (rule cessation_machine.rank_run [OF wf])
  moreover have "exec cessation_step ?c es' = ?c" if "ce_state ?c = Cessation_confirmed"
    using ceased_machine.absorbing_run [of ?c ?c es'] that by blast
  ultimately show ?thesis
    using wf confirmed unfolding Let_def cessation_wf_def by auto
qed

end
