(* ===== verification/Content_Hash.thy ===== *)
theory Content_Hash
  imports Prelude "HOL-Library.Code_Target_Nat"
begin

text \<open>
  The identity of a content, its size and SHA-256: \<^verbatim>\<open>tools/audio_qa/content_hash.{h,cpp}\<close>.

  The hasher takes its content in pieces of any size. Its buffer of 64 bytes with the number of bytes in
  use is the list of the bytes in use. The reference is the padded message of the standard, cut into
  blocks of 64 bytes.
\<close>

unbundle bit_operations_syntax

section \<open>The compression function\<close>

text \<open>The table, in the rows in which the code has it.\<close>

definition sha256_constants :: "u32 list" where
  "sha256_constants =
     concat [[0x428a2f98, 0x71374491, 0xb5c0fbcf, 0xe9b5dba5, 0x3956c25b, 0x59f111f1, 0x923f82a4],
       [0xab1c5ed5, 0xd807aa98, 0x12835b01, 0x243185be, 0x550c7dc3, 0x72be5d74, 0x80deb1fe],
       [0x9bdc06a7, 0xc19bf174, 0xe49b69c1, 0xefbe4786, 0x0fc19dc6, 0x240ca1cc, 0x2de92c6f],
       [0x4a7484aa, 0x5cb0a9dc, 0x76f988da, 0x983e5152, 0xa831c66d, 0xb00327c8, 0xbf597fc7],
       [0xc6e00bf3, 0xd5a79147, 0x06ca6351, 0x14292967, 0x27b70a85, 0x2e1b2138, 0x4d2c6dfc],
       [0x53380d13, 0x650a7354, 0x766a0abb, 0x81c2c92e, 0x92722c85, 0xa2bfe8a1, 0xa81a664b],
       [0xc24b8b70, 0xc76c51a3, 0xd192e819, 0xd6990624, 0xf40e3585, 0x106aa070, 0x19a4c116],
       [0x1e376c08, 0x2748774c, 0x34b0bcb5, 0x391c0cb3, 0x4ed8aa4a, 0x5b9cca4f, 0x682e6ff3],
       [0x748f82ee, 0x78a5636f, 0x84c87814, 0x8cc70208, 0x90befffa, 0xa4506ceb, 0xbef9a3f7],
       [0xc67178f2]]"

definition sha256_initial :: "u32 list" where
  "sha256_initial =
     [0x6a09e667, 0xbb67ae85, 0x3c6ef372, 0xa54ff53a, 0x510e527f, 0x9b05688c, 0x1f83d9ab, 0x5be0cd19]"

definition rotr :: "u32 \<Rightarrow> nat \<Rightarrow> u32" where
  "rotr x n = (drop_bit n x) OR (push_bit (32 - n) x)"

definition message_word :: "bytes \<Rightarrow> nat \<Rightarrow> u32" where
  "message_word block i =
     push_bit 24 (ucast (block ! (4 * i))) OR push_bit 16 (ucast (block ! (4 * i + 1))) OR
     push_bit 8 (ucast (block ! (4 * i + 2))) OR ucast (block ! (4 * i + 3))"

text \<open>The schedule, extended by one word until it has 64.\<close>

definition next_word :: "u32 list \<Rightarrow> u32" where
  "next_word ws =
     (let n = length ws;
          s0 = rotr (ws ! (n - 15)) 7 XOR rotr (ws ! (n - 15)) 18 XOR drop_bit 3 (ws ! (n - 15));
          s1 = rotr (ws ! (n - 2)) 17 XOR rotr (ws ! (n - 2)) 19 XOR drop_bit 10 (ws ! (n - 2))
      in ws ! (n - 16) + s0 + ws ! (n - 7) + s1)"

fun extend_schedule :: "nat \<Rightarrow> u32 list \<Rightarrow> u32 list" where
  "extend_schedule 0 ws = ws"
| "extend_schedule (Suc n) ws = extend_schedule n (ws @ [next_word ws])"

definition schedule :: "bytes \<Rightarrow> u32 list" where
  "schedule block = extend_schedule 48 (map (message_word block) [0..<16])"

type_synonym working = "u32 \<times> u32 \<times> u32 \<times> u32 \<times> u32 \<times> u32 \<times> u32 \<times> u32"

fun sha256_round :: "working \<Rightarrow> u32 \<times> u32 \<Rightarrow> working" where
  "sha256_round (a, b, c, d, e, f, g, h) (k, w) =
     (let upper = rotr e 6 XOR rotr e 11 XOR rotr e 25;
          choice = (e AND f) XOR (NOT e AND g);
          first = h + upper + choice + k + w;
          lower = rotr a 2 XOR rotr a 13 XOR rotr a 22;
          majority = (a AND b) XOR (a AND c) XOR (b AND c);
          second = lower + majority
      in (first + second, a, b, c, d + first, e, f, g))"

definition sha256_block :: "u32 list \<Rightarrow> bytes \<Rightarrow> u32 list" where
  "sha256_block state block =
     (case foldl sha256_round
             (state ! 0, state ! 1, state ! 2, state ! 3, state ! 4, state ! 5, state ! 6, state ! 7)
             (zip sha256_constants (schedule block)) of
        (a, b, c, d, e, f, g, h) \<Rightarrow>
          [state ! 0 + a, state ! 1 + b, state ! 2 + c, state ! 3 + d, state ! 4 + e, state ! 5 + f,
           state ! 6 + g, state ! 7 + h])"

section \<open>The hasher\<close>

record content_hasher =
  ch_state :: "u32 list"
  ch_pending :: bytes
  ch_byte_size :: u64

record content_identity =
  ci_byte_size :: u64
  ci_sha256 :: bytes

definition make_hasher :: content_hasher where
  "make_hasher = \<lparr>ch_state = sha256_initial, ch_pending = [], ch_byte_size = 0\<rparr>"

text \<open>All complete blocks of a content; the bytes after the last one are left over.\<close>

function absorb :: "u32 list \<Rightarrow> bytes \<Rightarrow> u32 list \<times> bytes" where
  "absorb state bs =
     (if 64 \<le> length bs then absorb (sha256_block state (take 64 bs)) (drop 64 bs) else (state, bs))"
  by pat_completeness auto
termination by (relation "measure (\<lambda>(state, bs). length bs)") auto

declare absorb.simps [simp del]

definition hasher_update :: "content_hasher \<Rightarrow> bytes \<Rightarrow> content_hasher" where
  "hasher_update h bs =
     (let size_bytes = ch_byte_size h + of_nat (length bs);
          copied = (if ch_pending h = [] then 0 else min (64 - length (ch_pending h)) (length bs));
          buffer = ch_pending h @ take copied bs;
          full = ch_pending h \<noteq> [] \<and> length buffer = 64;
          state = (if full then sha256_block (ch_state h) buffer else ch_state h);
          pending = (if full then [] else buffer)
      in case absorb state (drop copied bs) of
           (state', rest) \<Rightarrow>
             \<lparr>ch_state = state', ch_pending = pending @ rest, ch_byte_size = size_bytes\<rparr>)"

definition big_endian_64 :: "u64 \<Rightarrow> bytes" where
  "big_endian_64 x = map (\<lambda>i. ucast (drop_bit (8 * i) x)) (rev [0..<8])"

definition big_endian_32 :: "u32 \<Rightarrow> bytes" where
  "big_endian_32 x = [ucast (drop_bit 24 x), ucast (drop_bit 16 x), ucast (drop_bit 8 x), ucast x]"

definition hasher_tail :: "bytes \<Rightarrow> u64 \<Rightarrow> bytes" where
  "hasher_tail pending byte_size =
     (let padded = (if length pending < 56 then 64 else 128)
      in pending @ [0x80] @ replicate (padded - 9 - length pending) 0 @ big_endian_64 (byte_size * 8))"

definition hasher_finish :: "content_hasher \<Rightarrow> content_identity" where
  "hasher_finish h =
     \<lparr>ci_byte_size = ch_byte_size h,
      ci_sha256 =
        concat (map big_endian_32 (fst (absorb (ch_state h) (hasher_tail (ch_pending h) (ch_byte_size h)))))\<rparr>"

definition identify_content :: "bytes \<Rightarrow> content_identity" where
  "identify_content bs = hasher_finish (hasher_update make_hasher bs)"

section \<open>The reference\<close>

text \<open>
  The message of the standard: the content, a set bit, zeros up to eight bytes before a multiple of 64,
  and the length in bits; its digest is the state after all its blocks.
\<close>

definition sha256_message :: "bytes \<Rightarrow> bytes" where
  "sha256_message bs =
     bs @ [0x80] @ replicate (nat ((55 - int (length bs)) mod 64)) 0 @
     big_endian_64 (of_nat (8 * length bs))"

definition sha256 :: "bytes \<Rightarrow> bytes" where
  "sha256 bs = concat (map big_endian_32 (fst (absorb sha256_initial (sha256_message bs))))"

section \<open>Properties\<close>

lemma absorb_rest: "length (snd (absorb state bs)) < 64"
  by (induction state bs rule: absorb.induct) (subst absorb.simps, simp add: absorb.simps)

lemma absorb_short: "length bs < 64 \<Longrightarrow> absorb state bs = (state, bs)"
  by (simp add: absorb.simps)

lemma absorb_append:
  "absorb state (xs @ ys) = (case absorb state xs of (state', rest) \<Rightarrow> absorb state' (rest @ ys))"
proof (induction state xs rule: absorb.induct)
  case (1 state xs)
  show ?case
  proof (cases "64 \<le> length xs")
    case True
    then have "absorb state (xs @ ys) = absorb (sha256_block state (take 64 xs)) (drop 64 xs @ ys)"
      by (subst absorb.simps) simp
    also have "\<dots> = (case absorb state xs of (state', rest) \<Rightarrow> absorb state' (rest @ ys))"
      using 1 [OF True] True by (subst (2) absorb.simps) simp
    finally show ?thesis .
  next
    case False
    then show ?thesis by (simp add: absorb_short)
  qed
qed

lemma absorb_block:
  "length block = 64 \<Longrightarrow> absorb state (block @ ys) = absorb (sha256_block state block) ys"
  by (subst absorb.simps) simp

lemma absorb_count: "length (snd (absorb state bs)) = length bs mod 64"
proof (induction state bs rule: absorb.induct)
  case (1 state bs)
  then show ?case
    by (cases "64 \<le> length bs") (simp_all add: absorb.simps [of state bs] le_mod_geq)
qed

definition hasher_holds :: "bytes \<Rightarrow> content_hasher \<Rightarrow> bool" where
  "hasher_holds content h \<longleftrightarrow>
     absorb sha256_initial content = (ch_state h, ch_pending h) \<and> ch_byte_size h = of_nat (length content)"

lemma hasher_holds_make: "hasher_holds [] make_hasher"
  by (simp add: hasher_holds_def make_hasher_def absorb_short)

lemma hasher_holds_update:
  assumes "hasher_holds content h"
  shows "hasher_holds (content @ bs) (hasher_update h bs)"
proof -
  have holds: "absorb sha256_initial content = (ch_state h, ch_pending h)"
    using assms by (simp add: hasher_holds_def)
  then have short: "length (ch_pending h) < 64"
    using absorb_rest [of sha256_initial content] by simp
  define copied where "copied = (if ch_pending h = [] then 0 else min (64 - length (ch_pending h)) (length bs))"
  define buffer where "buffer = ch_pending h @ take copied bs"
  have split: "ch_pending h @ bs = buffer @ drop copied bs"
    by (simp add: buffer_def)
  have "absorb sha256_initial (content @ bs) = absorb (ch_state h) (buffer @ drop copied bs)"
    using holds absorb_append [of sha256_initial content bs] split by simp
  also have "\<dots> = (ch_state (hasher_update h bs), ch_pending (hasher_update h bs))"
  proof -
    let ?full = "ch_pending h \<noteq> [] \<and> length buffer = 64"
    have update: "hasher_update h bs =
        (case absorb (if ?full then sha256_block (ch_state h) buffer else ch_state h) (drop copied bs) of
           (state', rest) \<Rightarrow>
             \<lparr>ch_state = state', ch_pending = (if ?full then [] else buffer) @ rest,
              ch_byte_size = ch_byte_size h + of_nat (length bs)\<rparr>)"
      unfolding hasher_update_def Let_def copied_def buffer_def by (rule refl)
    show ?thesis
    proof (cases ?full)
      case True
      then show ?thesis by (simp add: update absorb_block split: prod.split)
    next
      case False
      have "buffer = [] \<or> drop copied bs = [] \<and> length buffer < 64"
        using False short by (auto simp: buffer_def copied_def min_def split: if_splits)
      with False show ?thesis by (auto simp: update absorb_short split: prod.split)
    qed
  qed
  finally show ?thesis
    using assms by (simp add: hasher_holds_def hasher_update_def Let_def split: prod.split)
qed

lemma hasher_holds_run:
  "hasher_holds content h \<Longrightarrow> hasher_holds (content @ concat chunks) (foldl hasher_update h chunks)"
proof (induction chunks arbitrary: content h)
  case (Cons bs chunks)
  then show ?case
    using Cons.IH [OF hasher_holds_update [OF Cons.prems, of bs]] by simp
qed simp

lemma hasher_tail_message:
  assumes "absorb sha256_initial content = (state, rest)"
  shows "absorb state (hasher_tail rest (of_nat (length content))) = absorb sha256_initial (sha256_message content)"
proof -
  have rest: "length rest = length content mod 64" "length rest < 64"
    using absorb_count [of sha256_initial content] absorb_rest [of sha256_initial content] assms by simp_all
  have "(55 - int (length content)) mod 64 = (55 - int (length rest)) mod 64"
    by (simp add: rest(1) zmod_int mod_diff_right_eq)
  also have "\<dots> = (if length rest < 56 then 55 - int (length rest) else 119 - int (length rest))"
  proof (cases "length rest < 56")
    case True
    then show ?thesis by (simp add: mod_pos_pos_trivial)
  next
    case False
    have "(55 - int (length rest)) mod 64 = (119 - int (length rest)) mod 64"
      using mod_add_self2 [of "55 - int (length rest)" 64] by (simp add: algebra_simps)
    with False rest(2) show ?thesis by (simp add: mod_pos_pos_trivial)
  qed
  finally have zeros: "nat ((55 - int (length content)) mod 64) =
      (if length rest < 56 then 64 else 128) - 9 - length rest"
    by auto
  have "sha256_message content = content @ drop (length rest) (hasher_tail rest (of_nat (length content)))"
    by (simp add: sha256_message_def hasher_tail_def zeros Let_def mult.commute)
  moreover have "hasher_tail rest n = rest @ drop (length rest) (hasher_tail rest n)" for n
    by (simp add: hasher_tail_def Let_def)
  ultimately show ?thesis
    using assms absorb_append [of sha256_initial content] by simp
qed

lemma identify_content_exact: "identify_content bs = \<lparr>ci_byte_size = of_nat (length bs), ci_sha256 = sha256 bs\<rparr>"
proof -
  have "hasher_holds bs (hasher_update make_hasher bs)"
    using hasher_holds_update [OF hasher_holds_make, of bs] by simp
  then show ?thesis
    using hasher_tail_message [of bs "ch_state (hasher_update make_hasher bs)" "ch_pending (hasher_update make_hasher bs)"]
    by (simp add: identify_content_def hasher_finish_def hasher_holds_def sha256_def)
qed

lemma length_absorb_state: "length state = 8 \<Longrightarrow> length (fst (absorb state bs)) = 8"
proof (induction state bs rule: absorb.induct)
  case (1 state bs)
  then show ?case
    by (cases "64 \<le> length bs") (simp_all add: absorb.simps [of state bs] sha256_block_def split: prod.split)
qed

lemma length_digest [simp]: "length (ci_sha256 (identify_content bs)) = 32"
proof -
  have "length (concat (map big_endian_32 ws)) = 4 * length ws" for ws
    by (induction ws) (simp_all add: big_endian_32_def)
  then show ?thesis
    by (simp add: identify_content_exact sha256_def length_absorb_state sha256_initial_def)
qed


end
