(* ===== verification/Watchdogs.thy ===== *)
theory Watchdogs
  imports Qa_Model
begin

text \<open>
  The clocks of the supervisor: \<^verbatim>\<open>tools/audio_qa/cancellation_window.{h,cpp}\<close>,
  \<^verbatim>\<open>progress_watchdog.{h,cpp}\<close> and \<^verbatim>\<open>checkpoint_threshold.{h,cpp}\<close>.

  Times are the milliseconds the caller passes, words of 64 bits. A method that refuses its call
  returns the state unchanged and \<open>False\<close>.
\<close>

section \<open>Cancellation window\<close>

definition cancellation_response_deadline_ms :: u64 where
  "cancellation_response_deadline_ms = 2000"

definition cancellation_wait_deadline_ms :: u64 where
  "cancellation_wait_deadline_ms = 5000"

datatype cancellation_trigger = Channel_lost | Trigger_no_progress | Controlled_interrupt

datatype deadline_reason = Response_timeout | Wait_timeout

record deadline_diagnostic =
  dd_trigger :: cancellation_trigger
  dd_reason :: deadline_reason
  dd_evidence_result :: evidence_result
  dd_cancellation_attempted :: bool
  dd_request_delivered :: bool
  dd_response_received :: bool
  dd_cessation_confirmed :: bool
  dd_detected_ms :: u64
  dd_requested_ms :: u64
  dd_elapsed_since_request_ms :: u64

record cancellation_window =
  cw_trigger :: cancellation_trigger
  cw_detected_ms :: u64
  cw_requested_ms :: "u64 option"
  cw_response_ms :: "u64 option"
  cw_cessation_ms :: "u64 option"
  cw_request_delivered :: bool

definition make_window :: "cancellation_trigger \<Rightarrow> u64 \<Rightarrow> cancellation_window" where
  "make_window trigger detected =
     \<lparr>cw_trigger = trigger, cw_detected_ms = detected, cw_requested_ms = None, cw_response_ms = None,
      cw_cessation_ms = None, cw_request_delivered = False\<rparr>"

definition attempt_cancel :: "cancellation_window \<Rightarrow> u64 \<Rightarrow> bool \<Rightarrow> cancellation_window \<times> bool" where
  "attempt_cancel w now delivered =
     (if cw_requested_ms w \<noteq> None \<or> now < cw_detected_ms w then (w, False)
      else (w\<lparr>cw_requested_ms := Some now, cw_request_delivered := delivered\<rparr>, True))"

definition observe_response :: "cancellation_window \<Rightarrow> u64 \<Rightarrow> cancellation_window \<times> bool" where
  "observe_response w now =
     (case cw_requested_ms w of
        None \<Rightarrow> (w, False)
      | Some requested \<Rightarrow>
          if cw_response_ms w \<noteq> None \<or> now < requested then (w, False)
          else (w\<lparr>cw_response_ms := Some now\<rparr>, True))"

definition confirm_cessation :: "cancellation_window \<Rightarrow> u64 \<Rightarrow> cancellation_window \<times> bool" where
  "confirm_cessation w now =
     (case cw_requested_ms w of
        None \<Rightarrow> (w, False)
      | Some requested \<Rightarrow>
          if cw_cessation_ms w \<noteq> None \<or> now < requested then (w, False)
          else (w\<lparr>cw_cessation_ms := Some now\<rparr>, True))"

definition check_window :: "cancellation_window \<Rightarrow> u64 \<Rightarrow> deadline_diagnostic option" where
  "check_window w now =
     (case cw_requested_ms w of
        None \<Rightarrow> None
      | Some requested \<Rightarrow>
          if now < requested \<or> cw_cessation_ms w \<noteq> None then None
          else
            (let elapsed = now - requested;
                 timely = (case cw_response_ms w of
                    None \<Rightarrow> False
                  | Some response \<Rightarrow> response - requested \<le> cancellation_response_deadline_ms);
                 reason =
                   (if cancellation_wait_deadline_ms \<le> elapsed then Some Wait_timeout
                    else if \<not> timely \<and> cancellation_response_deadline_ms \<le> elapsed then Some Response_timeout
                    else None)
             in map_option (\<lambda>reason.
                  \<lparr>dd_trigger = cw_trigger w, dd_reason = reason, dd_evidence_result = Evidence_incomplete,
                   dd_cancellation_attempted = True, dd_request_delivered = cw_request_delivered w,
                   dd_response_received = (cw_response_ms w \<noteq> None), dd_cessation_confirmed = False,
                   dd_detected_ms = cw_detected_ms w, dd_requested_ms = requested,
                   dd_elapsed_since_request_ms = elapsed\<rparr>) reason))"

datatype window_event = Cancel_attempted u64 bool | Response_observed u64 | Cessation_confirmed_at u64

fun window_step :: "cancellation_window \<Rightarrow> window_event \<Rightarrow> cancellation_window" where
  "window_step w (Cancel_attempted now delivered) = fst (attempt_cancel w now delivered)"
| "window_step w (Response_observed now) = fst (observe_response w now)"
| "window_step w (Cessation_confirmed_at now) = fst (confirm_cessation w now)"

lemmas window_ops = attempt_cancel_def observe_response_def confirm_cessation_def

section \<open>Progress watchdog\<close>

datatype watchdog_phase = Watch_preparation | Watch_playback | Watch_closing

datatype timeout_reason = Timeout_no_progress | Timeout_total_time

record watchdog_policy =
  wp_no_progress_ms :: u64
  wp_total_ms :: u64

fun watchdog_policy_of :: "watchdog_phase \<Rightarrow> watchdog_policy" where
  "watchdog_policy_of Watch_preparation = \<lparr>wp_no_progress_ms = 120000, wp_total_ms = 300000\<rparr>"
| "watchdog_policy_of Watch_playback = \<lparr>wp_no_progress_ms = 5000, wp_total_ms = 0\<rparr>"
| "watchdog_policy_of Watch_closing = \<lparr>wp_no_progress_ms = 10000, wp_total_ms = 0\<rparr>"

record watchdog_timeout =
  wt_phase :: watchdog_phase
  wt_reason :: timeout_reason
  wt_evidence_result :: evidence_result
  wt_last_stage :: string
  wt_last_frame :: "u32 option"
  wt_bytes_received :: u64
  wt_bytes_durable :: u64
  wt_last_progress_ms :: u64
  wt_elapsed_total_ms :: u64

record watchdog =
  wd_phase :: watchdog_phase
  wd_started_ms :: u64
  wd_last_observed_ms :: u64
  wd_last_progress_ms :: u64
  wd_last_stage :: string
  wd_last_frame :: "u32 option"
  wd_bytes_received :: u64
  wd_bytes_durable :: u64

definition make_watchdog :: "watchdog_phase \<Rightarrow> u64 \<Rightarrow> watchdog" where
  "make_watchdog p started =
     \<lparr>wd_phase = p, wd_started_ms = started, wd_last_observed_ms = started, wd_last_progress_ms = started,
      wd_last_stage = [], wd_last_frame = None, wd_bytes_received = 0, wd_bytes_durable = 0\<rparr>"

definition valid_time :: "watchdog \<Rightarrow> u64 \<Rightarrow> bool" where
  "valid_time w now \<longleftrightarrow> wd_started_ms w \<le> now \<and> wd_last_observed_ms w \<le> now"

definition observe_heartbeat :: "watchdog \<Rightarrow> u64 \<Rightarrow> watchdog \<times> bool" where
  "observe_heartbeat w now =
     (if \<not> valid_time w now then (w, False) else (w\<lparr>wd_last_observed_ms := now\<rparr>, True))"

definition observe_preparation_stage :: "watchdog \<Rightarrow> string \<Rightarrow> u64 \<Rightarrow> watchdog \<times> bool" where
  "observe_preparation_stage w stage now =
     (if wd_phase w \<noteq> Watch_preparation \<or> stage = [] \<or> \<not> valid_time w now then (w, False)
      else if stage = wd_last_stage w then (w\<lparr>wd_last_observed_ms := now\<rparr>, True)
      else (w\<lparr>wd_last_observed_ms := now, wd_last_stage := stage, wd_last_progress_ms := now\<rparr>, True))"

definition observe_completed_frame :: "watchdog \<Rightarrow> u32 \<Rightarrow> u64 \<Rightarrow> watchdog \<times> bool" where
  "observe_completed_frame w frame now =
     (if wd_phase w \<noteq> Watch_playback \<or> \<not> valid_time w now then (w, False)
      else
        (case wd_last_frame w of
           None \<Rightarrow> (w\<lparr>wd_last_observed_ms := now, wd_last_frame := Some frame, wd_last_progress_ms := now\<rparr>, True)
         | Some f \<Rightarrow>
             if f < frame
             then (w\<lparr>wd_last_observed_ms := now, wd_last_frame := Some frame, wd_last_progress_ms := now\<rparr>, True)
             else (w\<lparr>wd_last_observed_ms := now\<rparr>, True)))"

definition observe_bytes_received :: "watchdog \<Rightarrow> u64 \<Rightarrow> u64 \<Rightarrow> watchdog \<times> bool" where
  "observe_bytes_received w n now =
     (if wd_phase w \<noteq> Watch_closing \<or> \<not> valid_time w now \<or> n < wd_bytes_received w then (w, False)
      else (w\<lparr>wd_last_observed_ms := now, wd_bytes_received := n\<rparr>, True))"

definition observe_bytes_durable :: "watchdog \<Rightarrow> u64 \<Rightarrow> u64 \<Rightarrow> watchdog \<times> bool" where
  "observe_bytes_durable w n now =
     (if wd_phase w \<noteq> Watch_closing \<or> \<not> valid_time w now \<or> n < wd_bytes_durable w \<or> wd_bytes_received w < n
      then (w, False)
      else if wd_bytes_durable w < n
      then (w\<lparr>wd_last_observed_ms := now, wd_bytes_durable := n, wd_last_progress_ms := now\<rparr>, True)
      else (w\<lparr>wd_last_observed_ms := now\<rparr>, True))"

definition check_watchdog :: "watchdog \<Rightarrow> u64 \<Rightarrow> watchdog_timeout option" where
  "check_watchdog w now =
     (if \<not> valid_time w now then None
      else
        (let policy = watchdog_policy_of (wd_phase w);
             total_elapsed = now - wd_started_ms w;
             reason =
               (if wp_total_ms policy \<noteq> 0 \<and> wp_total_ms policy \<le> total_elapsed then Some Timeout_total_time
                else if wp_no_progress_ms policy \<le> now - wd_last_progress_ms w then Some Timeout_no_progress
                else None)
         in map_option (\<lambda>reason.
              \<lparr>wt_phase = wd_phase w, wt_reason = reason, wt_evidence_result = Evidence_incomplete,
               wt_last_stage = wd_last_stage w, wt_last_frame = wd_last_frame w,
               wt_bytes_received = wd_bytes_received w, wt_bytes_durable = wd_bytes_durable w,
               wt_last_progress_ms = wd_last_progress_ms w, wt_elapsed_total_ms = total_elapsed\<rparr>) reason))"

datatype watch_event =
  Heartbeat u64 | Stage_observed string u64 | Frame_observed u32 u64 | Received_observed u64 u64 |
  Durable_observed u64 u64

fun watch_react :: "watchdog \<Rightarrow> watch_event \<Rightarrow> watchdog \<times> bool" where
  "watch_react w (Heartbeat now) = observe_heartbeat w now"
| "watch_react w (Stage_observed stage now) = observe_preparation_stage w stage now"
| "watch_react w (Frame_observed frame now) = observe_completed_frame w frame now"
| "watch_react w (Received_observed n now) = observe_bytes_received w n now"
| "watch_react w (Durable_observed n now) = observe_bytes_durable w n now"

definition watch_step :: "watchdog \<Rightarrow> watch_event \<Rightarrow> watchdog" where
  "watch_step w e = fst (watch_react w e)"

lemmas watch_ops = observe_heartbeat_def observe_preparation_stage_def observe_completed_frame_def
  observe_bytes_received_def observe_bytes_durable_def

text \<open>The progress of a position that may move back: the sum of its moves.\<close>

record monotonic_progress =
  mp_last :: "u64 option"
  mp_total :: u64

definition make_monotonic :: monotonic_progress where
  "make_monotonic = \<lparr>mp_last = None, mp_total = 0\<rparr>"

definition observe_position :: "monotonic_progress \<Rightarrow> u64 \<Rightarrow> monotonic_progress \<times> u64" where
  "observe_position m position =
     (let total = mp_total m + (case mp_last m of
            None \<Rightarrow> 0
          | Some l \<Rightarrow> if l \<le> position then position - l else l - position)
      in (\<lparr>mp_last = Some position, mp_total = total\<rparr>, total))"

section \<open>Checkpoint threshold\<close>

definition checkpoint_interval_ms :: u64 where
  "checkpoint_interval_ms = 1000"

definition checkpoint_pending_byte_limit :: u64 where
  "checkpoint_pending_byte_limit = 2 ^ 20"

datatype publication_action = Action_none | Action_publish | Action_saturated

record publication_request =
  pr_action :: publication_action
  pr_publication_bytes :: u64
  pr_pending_bytes :: u64
  pr_time_threshold :: bool
  pr_byte_threshold :: bool

definition no_request :: publication_request where
  "no_request = \<lparr>pr_action = Action_none, pr_publication_bytes = 0, pr_pending_bytes = 0,
     pr_time_threshold = False, pr_byte_threshold = False\<rparr>"

record checkpoint_threshold =
  ct_received :: u64
  ct_durable :: u64
  ct_last_sequence :: u64
  ct_last_observed :: u64
  ct_pending_since :: "u64 option"
  ct_publication :: "u64 option"
  ct_post_request_since :: "u64 option"

definition make_threshold :: "u64 \<Rightarrow> checkpoint_threshold" where
  "make_threshold started =
     \<lparr>ct_received = 0, ct_durable = 0, ct_last_sequence = 0, ct_last_observed = started,
      ct_pending_since = None, ct_publication = None, ct_post_request_since = None\<rparr>"

definition interval_reached :: "u64 \<Rightarrow> u64 \<Rightarrow> bool" where
  "interval_reached now since \<longleftrightarrow> since \<le> now \<and> checkpoint_interval_ms \<le> now - since"

definition record_received :: "checkpoint_threshold \<Rightarrow> u64 \<Rightarrow> u64 \<Rightarrow> checkpoint_threshold \<times> bool" where
  "record_received t total_bytes now =
     (if total_bytes < ct_received t \<or> now < ct_last_observed t then (t, False)
      else
        (let t1 =
           (if ct_received t < total_bytes then
              (let t2 = (if ct_received t = ct_durable t then t\<lparr>ct_pending_since := Some now\<rparr> else t);
                   t3 = (case ct_publication t2 of
                       Some p \<Rightarrow>
                         if ct_received t2 \<le> p \<and> p < total_bytes \<and> ct_post_request_since t2 = None
                         then t2\<lparr>ct_post_request_since := Some now\<rparr> else t2
                     | None \<Rightarrow> t2)
               in t3\<lparr>ct_received := total_bytes\<rparr>)
            else t)
         in (t1\<lparr>ct_last_observed := now\<rparr>, True)))"

definition request_publication :: "checkpoint_threshold \<Rightarrow> u64 \<Rightarrow> checkpoint_threshold \<times> publication_request" where
  "request_publication t now =
     (if now < ct_last_observed t then (t, no_request)
      else
        (let t1 = t\<lparr>ct_last_observed := now\<rparr> in
         case ct_publication t1 of
           Some p \<Rightarrow>
             (let waiting = ct_received t1 - p;
                  time = (case ct_post_request_since t1 of None \<Rightarrow> False | Some since \<Rightarrow> interval_reached now since);
                  full = (checkpoint_pending_byte_limit \<le> waiting)
              in (t1, \<lparr>pr_action = (if time \<or> full then Action_saturated else Action_none),
                       pr_publication_bytes = p, pr_pending_bytes = waiting, pr_time_threshold = time,
                       pr_byte_threshold = full\<rparr>))
         | None \<Rightarrow>
             (let pending = ct_received t1 - ct_durable t1 in
              case ct_pending_since t1 of
                None \<Rightarrow> (t1, no_request)
              | Some since \<Rightarrow>
                  if pending = 0 then (t1, no_request)
                  else
                    (let time = interval_reached now since; full = (checkpoint_pending_byte_limit \<le> pending) in
                     if \<not> time \<and> \<not> full then (t1, no_request\<lparr>pr_pending_bytes := pending\<rparr>)
                     else (t1\<lparr>ct_publication := Some (ct_received t1), ct_post_request_since := None\<rparr>,
                           \<lparr>pr_action = Action_publish, pr_publication_bytes = ct_received t1,
                            pr_pending_bytes = pending, pr_time_threshold = time, pr_byte_threshold = full\<rparr>)))))"

text \<open>The stored checkpoint enters by its sequence number.\<close>

definition confirm_publication :: "checkpoint_threshold \<Rightarrow> u64 \<Rightarrow> u64 \<Rightarrow> checkpoint_threshold \<times> bool" where
  "confirm_publication t sequence now =
     (case ct_publication t of
        None \<Rightarrow> (t, False)
      | Some p \<Rightarrow>
          if now < ct_last_observed t \<or> sequence \<le> ct_last_sequence t then (t, False)
          else
            (t\<lparr>ct_durable := p, ct_last_sequence := sequence, ct_publication := None, ct_last_observed := now,
               ct_pending_since :=
                 (if ct_received t = p then None
                  else Some (case ct_post_request_since t of Some since \<Rightarrow> since | None \<Rightarrow> now)),
               ct_post_request_since := None\<rparr>, True))"

datatype threshold_event = Receives u64 u64 | Requests u64 | Confirms u64 u64

fun threshold_step :: "checkpoint_threshold \<Rightarrow> threshold_event \<Rightarrow> checkpoint_threshold" where
  "threshold_step t (Receives total_bytes now) = fst (record_received t total_bytes now)"
| "threshold_step t (Requests now) = fst (request_publication t now)"
| "threshold_step t (Confirms sequence now) = fst (confirm_publication t sequence now)"

lemmas threshold_ops = record_received_def request_publication_def confirm_publication_def Let_def

section \<open>Properties\<close>

subsection \<open>A deadline, once missed\<close>

definition late_response :: "u64 \<Rightarrow> window_event \<Rightarrow> bool" where
  "late_response requested e \<longleftrightarrow>
     (case e of
        Response_observed now \<Rightarrow> now < requested \<or> cancellation_response_deadline_ms < now - requested
      | Cessation_confirmed_at now \<Rightarrow> False
      | Cancel_attempted now delivered \<Rightarrow> True)"

definition missed :: "u64 \<Rightarrow> cancellation_window \<Rightarrow> bool" where
  "missed requested w \<longleftrightarrow>
     cw_requested_ms w = Some requested \<and> cw_cessation_ms w = None \<and>
     (case cw_response_ms w of None \<Rightarrow> True | Some r \<Rightarrow> cancellation_response_deadline_ms < r - requested)"

lemma missed_step: "missed requested w \<Longrightarrow> late_response requested e \<Longrightarrow> missed requested (window_step w e)"
  by (cases e) (auto simp: missed_def late_response_def window_ops)

interpretation window_machine: guarded_machine window_step "\<lambda>w. late_response requested" "missed requested" for requested
  by unfold_locales (rule missed_step)

lemma elapsed_mono:
  "(requested :: u64) \<le> now \<Longrightarrow> now \<le> later \<Longrightarrow> now - requested \<le> later - requested"
  by (simp add: word_le_nat_alt unat_minus_le)

text \<open>
  A missed response deadline stays missed. Once the cancellation was not answered within its two
  seconds, no later call takes the diagnostic back except the confirmed end of the process or an answer
  that still counts as in time: any sequence of repeated cancellations and late answers leaves it, with
  the same request and a time that only grows, and after five seconds the reason is the longer wait
  whatever was answered.
\<close>

theorem missed_deadline_stays:
  assumes "check_window w now = Some d" and "dd_reason d = Response_timeout" and "now \<le> later"
    and "\<forall>e \<in> set es. late_response (dd_requested_ms d) e"
  shows "\<exists>d'. check_window (exec window_step w es) later = Some d' \<and> dd_requested_ms d' = dd_requested_ms d \<and>
    dd_elapsed_since_request_ms d \<le> dd_elapsed_since_request_ms d' \<and>
    dd_reason d' = (if cancellation_wait_deadline_ms \<le> dd_elapsed_since_request_ms d' then Wait_timeout
                    else Response_timeout)"
proof -
  obtain requested where w: "cw_requested_ms w = Some requested" "requested \<le> now" "dd_requested_ms d = requested"
    "dd_elapsed_since_request_ms d = now - requested" "missed requested w"
    "cancellation_response_deadline_ms \<le> now - requested"
    using assms(1,2)
    by (auto simp: check_window_def missed_def Let_def not_less not_le split: option.splits if_splits)
  have "admissible_run window_step (\<lambda>w. late_response requested) w es"
    using assms(4) w(3) by (induction es arbitrary: w) (auto simp: admissible_run.simps)
  then have "missed requested (exec window_step w es)"
    using window_machine.invar_exec w(5) by blast
  moreover have "now - requested \<le> later - requested" "requested \<le> later"
    using elapsed_mono [OF w(2) assms(3)] w(2) assms(3) by auto
  ultimately show ?thesis
    using w(3,4,6) by (auto simp: check_window_def missed_def Let_def split: option.splits)
qed

theorem missed_deadline_stays_witness:
  "\<exists>d. check_window (exec window_step (fst (attempt_cancel (make_window Channel_lost 100) 200 True))
      [Cancel_attempted 2300 True, Response_observed 2400]) 2500 = Some d \<and> dd_reason d = Response_timeout"
proof -
  let ?w = "fst (attempt_cancel (make_window Channel_lost 100) 200 True)"
  obtain d where d: "check_window ?w 2250 = Some d" "dd_reason d = Response_timeout" "dd_requested_ms d = 200"
    by (simp add: check_window_def attempt_cancel_def make_window_def Let_def
        cancellation_wait_deadline_ms_def cancellation_response_deadline_ms_def)
  have "\<forall>e \<in> set [Cancel_attempted 2300 True, Response_observed 2400]. late_response (dd_requested_ms d) e"
    by (simp add: d(3) late_response_def cancellation_response_deadline_ms_def)
  from missed_deadline_stays [OF d(1,2) _ this, of 2500]
  obtain d' where d': "check_window (exec window_step ?w [Cancel_attempted 2300 True, Response_observed 2400]) 2500 = Some d'"
    by auto
  have "map_option dd_reason (check_window (exec window_step ?w [Cancel_attempted 2300 True, Response_observed 2400]) 2500)
      = Some Response_timeout"
    by code_simp
  with d' show ?thesis by auto
qed

subsection \<open>What counts as progress\<close>

fun event_time :: "watch_event \<Rightarrow> u64" where
  "event_time (Heartbeat now) = now"
| "event_time (Stage_observed stage now) = now"
| "event_time (Frame_observed frame now) = now"
| "event_time (Received_observed n now) = now"
| "event_time (Durable_observed n now) = now"

text \<open>
  The specification works on the log of the reports that were accepted, newest first: a report is
  progress when it names another stage than the last one, a frame above all earlier ones, or more
  durable bytes than ever before.
\<close>

fun latest_stage :: "watch_event list \<Rightarrow> string" where
  "latest_stage [] = []"
| "latest_stage (Stage_observed stage now # h) = stage"
| "latest_stage (_ # h) = latest_stage h"

definition frames_of :: "watch_event list \<Rightarrow> u32 list" where
  "frames_of h = List.map_filter (\<lambda>e. case e of Frame_observed f now \<Rightarrow> Some f | _ \<Rightarrow> None) h"

definition durables_of :: "watch_event list \<Rightarrow> u64 list" where
  "durables_of h = List.map_filter (\<lambda>e. case e of Durable_observed n now \<Rightarrow> Some n | _ \<Rightarrow> None) h"

fun is_progress :: "watch_event list \<Rightarrow> watch_event \<Rightarrow> bool" where
  "is_progress h (Heartbeat now) = False"
| "is_progress h (Stage_observed stage now) = (stage \<noteq> latest_stage h)"
| "is_progress h (Frame_observed frame now) = list_all (\<lambda>f. f < frame) (frames_of h)"
| "is_progress h (Received_observed n now) = False"
| "is_progress h (Durable_observed n now) = (0 < n \<and> list_all (\<lambda>m. m < n) (durables_of h))"

fun progress_time :: "u64 \<Rightarrow> watch_event list \<Rightarrow> u64" where
  "progress_time start [] = start"
| "progress_time start (e # h) = (if is_progress h e then event_time e else progress_time start h)"

definition last_time :: "u64 \<Rightarrow> watch_event list \<Rightarrow> u64" where
  "last_time start h = (case h of [] \<Rightarrow> start | e # _ \<Rightarrow> event_time e)"

fun watch_log :: "watchdog \<Rightarrow> watch_event list \<Rightarrow> watch_event list \<Rightarrow> watch_event list" where
  "watch_log w h [] = h"
| "watch_log w h (e # es) = watch_log (watch_step w e) (if snd (watch_react w e) then e # h else h) es"

definition log_describes :: "watchdog_phase \<Rightarrow> u64 \<Rightarrow> watch_event list \<Rightarrow> watchdog \<Rightarrow> bool" where
  "log_describes p start h w \<longleftrightarrow>
     wd_phase w = p \<and> wd_started_ms w = start \<and> wd_last_observed_ms w = last_time start h \<and>
     wd_last_progress_ms w = progress_time start h \<and> wd_last_stage w = latest_stage h \<and>
     start \<le> last_time start h \<and> progress_time start h \<le> last_time start h \<and>
     (case wd_last_frame w of
        None \<Rightarrow> frames_of h = []
      | Some f \<Rightarrow> f \<in> set (frames_of h) \<and> list_all (\<lambda>x. x \<le> f) (frames_of h)) \<and>
     (wd_bytes_durable w = 0 \<or> wd_bytes_durable w \<in> set (durables_of h)) \<and>
     list_all (\<lambda>x. x \<le> wd_bytes_durable w) (durables_of h) \<and> wd_bytes_durable w \<le> wd_bytes_received w"

lemma log_lists [simp]:
  "frames_of [] = []" "durables_of [] = []"
  "frames_of (e # h) = (case e of Frame_observed f now \<Rightarrow> f # frames_of h | _ \<Rightarrow> frames_of h)"
  "durables_of (e # h) = (case e of Durable_observed n now \<Rightarrow> n # durables_of h | _ \<Rightarrow> durables_of h)"
  by (simp_all add: frames_of_def durables_of_def List.map_filter_simps split: watch_event.split)

lemma last_time_Cons [simp]: "last_time start (e # h) = event_time e"
  by (simp add: last_time_def)

lemma log_describes_step:
  assumes "log_describes p start h w"
  shows "log_describes p start (if snd (watch_react w e) then e # h else h) (watch_step w e)"
proof (cases e)
  case (Frame_observed f now)
  show ?thesis
  proof (cases "wd_last_frame w")
    case None
    with assms Frame_observed show ?thesis
      by (auto simp: log_describes_def watch_step_def watch_ops valid_time_def)
  next
    case (Some g)
    with assms Frame_observed show ?thesis
      by (auto simp: log_describes_def watch_step_def watch_ops valid_time_def list_all_iff
          intro: order_le_less_trans dest: order_trans less_imp_le)
  qed
next
  case (Durable_observed n now)
  with assms show ?thesis
    by (auto simp: log_describes_def watch_step_def watch_ops valid_time_def list_all_iff word_greater_zero_iff
        intro: order_le_less_trans dest: order_trans less_imp_le split: option.splits)
qed (use assms in \<open>auto simp: log_describes_def watch_step_def watch_ops valid_time_def
       split: option.splits\<close>)

lemma log_describes_run:
  "log_describes p start h w \<Longrightarrow> log_describes p start (watch_log w h es) (exec watch_step w es)"
proof (induction es arbitrary: w h)
  case (Cons e es)
  show ?case
    using Cons.IH [OF log_describes_step [OF Cons.prems, of e]] by simp
qed simp

text \<open>
  C27: The watchdog measures progress, not activity. Over every sequence of reports, with any order of
  times, a check at a time that is not in the past reports a timeout exactly when the last progress of
  the accepted reports (another stage, a frame above all earlier ones, more durable bytes than before)
  is as old as the limit of the phase, or its total time has passed; heartbeats, received bytes and
  repeated frames never postpone it, and the diagnostic carries the time of that progress.
\<close>

theorem watchdog_fires_without_progress:
  "(let w = exec watch_step (make_watchdog p start) es; h = watch_log (make_watchdog p start) [] es;
        policy = watchdog_policy_of p
    in (case check_watchdog w now of
          None \<Rightarrow> now < last_time start h \<or>
            (now - progress_time start h < wp_no_progress_ms policy \<and>
             (wp_total_ms policy = 0 \<or> now - start < wp_total_ms policy))
        | Some t \<Rightarrow> last_time start h \<le> now \<and> wt_last_progress_ms t = progress_time start h \<and>
            (if wp_total_ms policy \<noteq> 0 \<and> wp_total_ms policy \<le> now - start
             then wt_reason t = Timeout_total_time
             else wt_reason t = Timeout_no_progress \<and> wp_no_progress_ms policy \<le> now - progress_time start h)) \<and>
       progress_time start h \<le> last_time start h \<and> wd_bytes_durable w \<le> wd_bytes_received w)"
proof -
  have "log_describes p start [] (make_watchdog p start)"
    by (simp add: log_describes_def make_watchdog_def last_time_def)
  from log_describes_run [OF this, of es] show ?thesis
    by (auto simp: Let_def log_describes_def check_watchdog_def valid_time_def not_le split: option.splits
        intro: order_trans)
qed

subsection \<open>Checkpoints of the evidence\<close>

definition threshold_wf :: "checkpoint_threshold \<Rightarrow> bool" where
  "threshold_wf t \<longleftrightarrow>
     ct_durable t \<le> ct_received t \<and> (ct_pending_since t \<noteq> None \<longleftrightarrow> ct_durable t < ct_received t) \<and>
     (\<forall>since. ct_pending_since t = Some since \<longrightarrow> since \<le> ct_last_observed t) \<and>
     (\<forall>since. ct_post_request_since t = Some since \<longrightarrow> since \<le> ct_last_observed t) \<and>
     (case ct_publication t of
        None \<Rightarrow> ct_post_request_since t = None
      | Some p \<Rightarrow> ct_durable t < p \<and> p \<le> ct_received t \<and> (ct_post_request_since t \<noteq> None \<longleftrightarrow> p < ct_received t))"

lemma threshold_wf_make: "threshold_wf (make_threshold started)"
  by (simp add: threshold_wf_def make_threshold_def)

lemma threshold_later:
  assumes "threshold_wf t" and "ct_last_observed t \<le> now"
  shows "threshold_wf (t\<lparr>ct_last_observed := now\<rparr>)"
  using assms order_trans [OF _ assms(2)]
  by (cases "ct_publication t") (simp_all add: threshold_wf_def)

lemma threshold_wf_receive:
  assumes wf: "threshold_wf t"
  shows "threshold_wf (fst (record_received t total_bytes now))"
proof (cases "total_bytes < ct_received t \<or> now < ct_last_observed t")
  case True
  with wf show ?thesis by (simp add: record_received_def)
next
  case False
  then have later: "ct_last_observed t \<le> now" and le: "ct_received t \<le> total_bytes"
    by (simp_all add: not_less)
  show ?thesis
  proof (cases "ct_received t < total_bytes")
    case True
    have "ct_durable t < total_bytes" "since \<le> ct_last_observed t \<Longrightarrow> since \<le> now"
      "p \<le> ct_received t \<Longrightarrow> p < total_bytes" for since p
      using wf True later by (auto simp: threshold_wf_def intro: order_trans order_le_less_trans)
    note facts = this
    show ?thesis
    proof (cases "ct_publication t")
      case None
      with wf True later False facts show ?thesis
        by (auto simp: threshold_wf_def record_received_def Let_def)
    next
      case (Some p)
      with wf True later False facts show ?thesis
        by (auto simp: threshold_wf_def record_received_def Let_def)
    qed
  next
    case False
    with wf later le show ?thesis
      by (auto simp: record_received_def Let_def intro: threshold_later)
  qed
qed

lemma threshold_wf_request:
  assumes wf: "threshold_wf t"
  shows "threshold_wf (fst (request_publication t now))"
proof (cases "now < ct_last_observed t")
  case True
  with wf show ?thesis by (simp add: request_publication_def)
next
  case False
  then have "threshold_wf (t\<lparr>ct_last_observed := now\<rparr>)"
    using wf by (intro threshold_later) (simp_all add: not_less)
  with False show ?thesis
    by (auto simp: request_publication_def Let_def threshold_wf_def split: option.splits)
qed

lemma threshold_wf_confirm:
  assumes wf: "threshold_wf t"
  shows "threshold_wf (fst (confirm_publication t sequence now))"
proof (cases "now < ct_last_observed t \<or> sequence \<le> ct_last_sequence t \<or> ct_publication t = None")
  case True
  with wf show ?thesis by (auto simp: confirm_publication_def split: option.splits)
next
  case False
  then obtain p where p: "ct_publication t = Some p" by blast
  have "since \<le> ct_last_observed t \<Longrightarrow> since \<le> now" for since
    using False by (auto simp: not_less intro: order_trans)
  with False wf p show ?thesis
    by (cases "ct_post_request_since t") (auto simp: confirm_publication_def threshold_wf_def)
qed

interpretation threshold_machine: monotone_machine threshold_step threshold_wf "\<lambda>t. ct_durable t"
proof unfold_locales
  fix t e
  show "threshold_wf t \<Longrightarrow> True \<Longrightarrow> threshold_wf (threshold_step t e)"
    by (cases e) (simp_all add: threshold_wf_receive threshold_wf_request threshold_wf_confirm)
  show "threshold_wf t \<Longrightarrow> ct_durable t \<le> ct_durable (threshold_step t e)"
    by (cases e) (auto simp: threshold_wf_def threshold_ops split: option.splits)
qed

text \<open>
  What is durable never runs ahead of what was received. Over every sequence of receptions,
  requests and confirmations, durable bytes never decrease and never exceed the received ones; a
  publication in flight lies strictly after the durable bytes and within the received ones, and
  confirming it makes exactly those bytes durable; and a request publishes exactly when none is in
  flight and bytes are pending for a second or a mebibyte of them is.
\<close>

theorem durable_never_ahead:
  "(let t = exec threshold_step (make_threshold started) es; later = exec threshold_step t es';
        (t1, request) = request_publication t now
    in ct_durable t \<le> ct_received t \<and> ct_durable t \<le> ct_durable later \<and>
       (case ct_publication t of
          None \<Rightarrow> True
        | Some p \<Rightarrow> ct_durable t < p \<and> p \<le> ct_received t \<and>
            (snd (confirm_publication t sequence now) \<longrightarrow> ct_durable (fst (confirm_publication t sequence now)) = p)) \<and>
       (pr_action request = Action_publish \<longleftrightarrow>
          ct_last_observed t \<le> now \<and> ct_publication t = None \<and>
          (\<exists>since. ct_pending_since t = Some since \<and> ct_durable t < ct_received t \<and>
             (checkpoint_interval_ms \<le> now - since \<or>
              checkpoint_pending_byte_limit \<le> ct_received t - ct_durable t))))"
proof -
  let ?t = "exec threshold_step (make_threshold started) es"
  obtain t1 request where request: "request_publication ?t now = (t1, request)" by fastforce
  have wf: "threshold_wf ?t"
    by (rule threshold_machine.invar_run [OF threshold_wf_make])
  have mono: "ct_durable ?t \<le> ct_durable (exec threshold_step ?t es')"
    by (rule threshold_machine.rank_run [OF wf])
  have "pr_action (snd (request_publication t now)) = Action_publish \<longleftrightarrow>
      ct_last_observed t \<le> now \<and> ct_publication t = None \<and>
      (\<exists>since. ct_pending_since t = Some since \<and> ct_durable t < ct_received t \<and>
         (checkpoint_interval_ms \<le> now - since \<or> checkpoint_pending_byte_limit \<le> ct_received t - ct_durable t))"
    if "threshold_wf t" for t
    using that
    by (cases "ct_publication t"; cases "ct_pending_since t")
       (auto simp: request_publication_def threshold_wf_def Let_def no_request_def interval_reached_def not_less
          intro: order_trans)
  from this [OF wf] have publishes: "pr_action request = Action_publish \<longleftrightarrow>
      ct_last_observed ?t \<le> now \<and> ct_publication ?t = None \<and>
      (\<exists>since. ct_pending_since ?t = Some since \<and> ct_durable ?t < ct_received ?t \<and>
         (checkpoint_interval_ms \<le> now - since \<or> checkpoint_pending_byte_limit \<le> ct_received ?t - ct_durable ?t))"
    by (simp add: request)
  have "(case ct_publication ?t of
          None \<Rightarrow> True
        | Some p \<Rightarrow> ct_durable ?t < p \<and> p \<le> ct_received ?t \<and>
            (snd (confirm_publication ?t sequence now) \<longrightarrow> ct_durable (fst (confirm_publication ?t sequence now)) = p))"
    using wf by (auto simp: threshold_wf_def confirm_publication_def split: option.splits)
  with wf mono publishes request show ?thesis
    unfolding Let_def by (simp add: threshold_wf_def)
qed

theorem durable_never_ahead_witness:
  "pr_action (snd (request_publication (exec threshold_step (make_threshold 0) [Receives 10 5, Receives 20 600]) 1005)) =
     Action_publish"
proof -
  let ?t = "exec threshold_step (make_threshold 0) [Receives 10 5, Receives 20 600]"
  have "ct_last_observed ?t \<le> 1005 \<and> ct_publication ?t = None \<and> ct_pending_since ?t = Some 5 \<and>
      ct_durable ?t < ct_received ?t \<and> checkpoint_interval_ms \<le> 1005 - 5"
    by code_simp
  then show ?thesis
    using durable_never_ahead [of 0 "[Receives 10 5, Receives 20 600]" "[]" 1005 1]
    unfolding Let_def case_prod_beta by blast
qed

text \<open>
  The progress of a position that moves back and forth is the distance it has gone, as long as that
  fits: it never decreases and grows exactly when the position moves.
\<close>

fun distance :: "u64 list \<Rightarrow> nat" where
  "distance (x # y # xs) = nat \<bar>uint x - uint y\<bar> + distance (y # xs)"
| "distance _ = 0"

lemma distance_snoc:
  "xs \<noteq> [] \<Longrightarrow> distance (xs @ [y]) = distance xs + nat \<bar>uint (last xs) - uint y\<bar>"
  by (induction xs rule: distance.induct) auto

lemma monotonic_progress_distance:
  "foldl (\<lambda>m x. fst (observe_position m x)) make_monotonic xs =
     \<lparr>mp_last = (if xs = [] then None else Some (last xs)), mp_total = of_nat (distance xs)\<rparr>"
proof (induction xs rule: rev_induct)
  case Nil
  show ?case by (simp add: make_monotonic_def)
next
  case (snoc y xs)
  have "(if (l :: u64) \<le> y then y - l else l - y) = of_nat (nat \<bar>uint l - uint y\<bar>)" for l
    by (simp add: word_le_def of_nat_nat)
  with snoc show ?case
    by (cases "xs = []") (simp_all add: observe_position_def make_monotonic_def distance_snoc Let_def)
qed

end
