(* ===== verification/Request_Arbiter.thy ===== *)
theory Request_Arbiter
  imports Qa_Model
begin

text \<open>
  How the takes of a request end when events coincide: \<^verbatim>\<open>tools/audio_qa/request_terminal_arbiter.{h,cpp}\<close>.
  One function per method of the arbiter; the specification reads the result of a take off the list
  of events that reached it.
\<close>

section \<open>The arbiter\<close>

datatype stop_reason = Stop_none | Stop_cancellation | Stop_failure

record terminal_arbiter =
  ra_take_active :: bool
  ra_confirmed :: bool
  ra_cancelled :: bool
  ra_ended_naturally :: bool
  ra_failure :: "playback_outcome option"
  ra_confirmed_result :: "playback_outcome option"
  ra_pending_controls :: nat
  ra_discarded_controls :: nat
  ra_stop :: stop_reason

definition make_arbiter :: terminal_arbiter where
  "make_arbiter =
     \<lparr>ra_take_active = False, ra_confirmed = False, ra_cancelled = False, ra_ended_naturally = False,
      ra_failure = None, ra_confirmed_result = None, ra_pending_controls = 0, ra_discarded_controls = 0,
      ra_stop = Stop_none\<rparr>"

definition begin_take :: "terminal_arbiter \<Rightarrow> nat \<Rightarrow> terminal_arbiter" where
  "begin_take a position =
     a\<lparr>ra_take_active := True, ra_confirmed := False, ra_cancelled := False, ra_ended_naturally := False,
       ra_failure := None, ra_confirmed_result := None, ra_pending_controls := 0,
       ra_discarded_controls := 0\<rparr>"

definition stop_request :: "terminal_arbiter \<Rightarrow> stop_reason \<Rightarrow> terminal_arbiter" where
  "stop_request a reason = (if ra_stop a = Stop_none then a\<lparr>ra_stop := reason\<rparr> else a)"

definition discard_pending :: "terminal_arbiter \<Rightarrow> terminal_arbiter" where
  "discard_pending a =
     a\<lparr>ra_discarded_controls := ra_discarded_controls a + ra_pending_controls a, ra_pending_controls := 0\<rparr>"

definition cancel_take :: "terminal_arbiter \<Rightarrow> terminal_arbiter \<times> bool" where
  "cancel_take a =
     (let decides = ra_take_active a \<and> \<not> ra_confirmed a \<and> \<not> ra_cancelled a \<and> ra_failure a = None;
          a' = (if decides then discard_pending (a\<lparr>ra_cancelled := True\<rparr>) else a)
      in (stop_request a' Stop_cancellation, decides))"

definition fail_take :: "terminal_arbiter \<Rightarrow> string \<Rightarrow> bool \<Rightarrow> terminal_arbiter \<times> bool" where
  "fail_take a diagnostic interrupted =
     (if \<not> ra_take_active a \<or> ra_confirmed a \<or> ra_cancelled a \<or> ra_failure a \<noteq> None then (a, False)
      else
        (stop_request
           (discard_pending
              (a\<lparr>ra_failure := Some \<lparr>po_kind = (if interrupted then Kind_interrupted else Kind_failed),
                                   po_diagnostic = diagnostic\<rparr>\<rparr>))
           Stop_failure, True))"

definition natural_end :: "terminal_arbiter \<Rightarrow> terminal_arbiter \<times> bool" where
  "natural_end a =
     (if \<not> ra_take_active a \<or> ra_confirmed a \<or> ra_cancelled a \<or> ra_failure a \<noteq> None \<or> ra_ended_naturally a
      then (a, False) else (a\<lparr>ra_ended_naturally := True\<rparr>, True))"

definition queue_control :: "terminal_arbiter \<Rightarrow> terminal_arbiter \<times> bool" where
  "queue_control a =
     (if \<not> ra_take_active a \<or> ra_cancelled a \<or> ra_failure a \<noteq> None
      then (a\<lparr>ra_discarded_controls := ra_discarded_controls a + 1\<rparr>, False)
      else (a\<lparr>ra_pending_controls := ra_pending_controls a + 1\<rparr>, True))"

definition control_sent :: "terminal_arbiter \<Rightarrow> terminal_arbiter" where
  "control_sent a =
     (if 0 < ra_pending_controls a then a\<lparr>ra_pending_controls := ra_pending_controls a - 1\<rparr> else a)"

definition playback :: "terminal_arbiter \<Rightarrow> playback_outcome option" where
  "playback a =
     (if ra_confirmed a then ra_confirmed_result a
      else if ra_cancelled a then Some \<lparr>po_kind = Kind_cancelled, po_diagnostic = []\<rparr>
      else if ra_failure a \<noteq> None then ra_failure a
      else if ra_ended_naturally a then Some \<lparr>po_kind = Natural_end, po_diagnostic = []\<rparr>
      else None)"

definition confirm :: "terminal_arbiter \<Rightarrow> terminal_arbiter \<times> playback_outcome option" where
  "confirm a =
     (if ra_confirmed a then (a, ra_confirmed_result a)
      else
        (let result = playback a
         in (if result \<noteq> None then a\<lparr>ra_confirmed := True, ra_confirmed_result := result\<rparr> else a, result)))"

definition not_started_reason :: "terminal_arbiter \<Rightarrow> string" where
  "not_started_reason a =
     (case ra_stop a of
        Stop_none \<Rightarrow> []
      | Stop_cancellation \<Rightarrow> ''not_started_after_cancellation''
      | Stop_failure \<Rightarrow> ''not_started_after_failure'')"

section \<open>Events\<close>

datatype take_event =
  Take_cancelled | Take_failed string bool | Take_ended | Control_queued | Control_sent | Take_confirmed

fun arbiter_step :: "terminal_arbiter \<Rightarrow> take_event \<Rightarrow> terminal_arbiter" where
  "arbiter_step a Take_cancelled = fst (cancel_take a)"
| "arbiter_step a (Take_failed diagnostic interrupted) = fst (fail_take a diagnostic interrupted)"
| "arbiter_step a Take_ended = fst (natural_end a)"
| "arbiter_step a Control_queued = fst (queue_control a)"
| "arbiter_step a Control_sent = control_sent a"
| "arbiter_step a Take_confirmed = fst (confirm a)"

text \<open>A request is a list of takes, each with the events that reach it.\<close>

definition run_take :: "terminal_arbiter \<Rightarrow> take_event list \<Rightarrow> terminal_arbiter" where
  "run_take a es = exec arbiter_step (begin_take a 0) es"

definition run_request :: "take_event list list \<Rightarrow> terminal_arbiter" where
  "run_request takes = foldl run_take make_arbiter takes"

lemmas arbiter_ops =
  cancel_take_def fail_take_def natural_end_def queue_control_def control_sent_def confirm_def
  stop_request_def discard_pending_def begin_take_def

section \<open>The specification\<close>

text \<open>
  What ends a take is the first cancellation or failure; without either it is the natural end. The
  events that count are the ones before the first confirmation of something decided.
\<close>

fun ending :: "take_event list \<Rightarrow> playback_outcome option" where
  "ending (Take_cancelled # es) = Some \<lparr>po_kind = Kind_cancelled, po_diagnostic = []\<rparr>"
| "ending (Take_failed diagnostic interrupted # es) =
     Some \<lparr>po_kind = (if interrupted then Kind_interrupted else Kind_failed), po_diagnostic = diagnostic\<rparr>"
| "ending (_ # es) = ending es"
| "ending [] = None"

definition decided :: "take_event list \<Rightarrow> playback_outcome option" where
  "decided es =
     (case ending es of
        Some r \<Rightarrow> Some r
      | None \<Rightarrow> if Take_ended \<in> set es then Some \<lparr>po_kind = Natural_end, po_diagnostic = []\<rparr> else None)"

fun before_confirmation :: "take_event list \<Rightarrow> take_event list \<Rightarrow> take_event list" where
  "before_confirmation seen [] = seen"
| "before_confirmation seen (e # es) =
     (if e = Take_confirmed \<and> decided seen \<noteq> None then seen
      else before_confirmation (seen @ [e]) es)"

definition take_result :: "take_event list \<Rightarrow> playback_outcome option" where
  "take_result es = decided (before_confirmation [] es)"

text \<open>
  The reason of a stop: a cancellation at any time, or a failure that decides its take.
\<close>

definition stop_given :: "playback_outcome option \<Rightarrow> take_event list \<Rightarrow> stop_reason" where
  "stop_given r es =
     (case r of
        Some r \<Rightarrow> if po_kind r = Kind_cancelled then Stop_cancellation else Stop_failure
      | None \<Rightarrow> if Take_cancelled \<in> set es then Stop_cancellation else Stop_none)"

definition stop_of :: "take_event list \<Rightarrow> stop_reason" where
  "stop_of es = stop_given (ending (before_confirmation [] es)) es"

fun first_stop :: "stop_reason list \<Rightarrow> stop_reason" where
  "first_stop [] = Stop_none"
| "first_stop (r # rs) = (if r = Stop_none then first_stop rs else r)"

lemma ending_append: "ending (es @ fs) = (case ending es of Some r \<Rightarrow> Some r | None \<Rightarrow> ending fs)"
  by (induction es rule: ending.induct) auto

lemma decided_None: "decided es = None \<longleftrightarrow> ending es = None \<and> Take_ended \<notin> set es"
  by (auto simp: decided_def split: option.splits)

section \<open>Refinement\<close>

text \<open>
  The state after the events \<open>seen\<close> that count, with the confirmation.
\<close>

definition tracks :: "take_event list \<Rightarrow> bool \<Rightarrow> terminal_arbiter \<Rightarrow> bool" where
  "tracks seen frozen a \<longleftrightarrow>
     ra_take_active a \<and> ra_confirmed a = frozen \<and>
     ra_confirmed_result a = (if frozen then decided seen else None) \<and>
     (frozen \<longrightarrow> decided seen \<noteq> None) \<and>
     (case ending seen of
        None \<Rightarrow> \<not> ra_cancelled a \<and> ra_failure a = None \<and> ra_ended_naturally a = (Take_ended \<in> set seen)
      | Some r \<Rightarrow> ra_cancelled a = (po_kind r = Kind_cancelled) \<and>
          ra_failure a = (if po_kind r = Kind_cancelled then None else Some r) \<and>
          (po_kind r = Kind_cancelled \<longrightarrow> po_diagnostic r = []) \<and> po_kind r \<noteq> Natural_end \<and>
          ra_pending_controls a = 0)"

lemma tracks_begin: "tracks [] False (begin_take a p)"
  by (simp add: tracks_def begin_take_def)

lemma tracks_playback: "tracks seen frozen a \<Longrightarrow> playback a = decided seen"
  by (auto simp: tracks_def playback_def decided_def split: option.splits if_splits)

lemma tracks_step:
  assumes "tracks seen False a" and "\<not> (e = Take_confirmed \<and> decided seen \<noteq> None)"
  shows "tracks (seen @ [e]) False (arbiter_step a e)"
  using assms
  by (cases e; cases "ending seen")
     (auto simp: tracks_def arbiter_ops ending_append decided_None Let_def playback_def)

lemma tracks_confirm:
  assumes "tracks seen False a" and "decided seen \<noteq> None"
  shows "tracks seen True (arbiter_step a Take_confirmed)"
  using assms tracks_playback [OF assms(1)]
  by (cases "ending seen") (auto simp: tracks_def confirm_def Let_def)

lemma tracks_frozen:
  assumes "tracks seen True a"
  shows "tracks seen True (arbiter_step a e)"
  using assms by (cases e; cases "ending seen") (auto simp: tracks_def arbiter_ops Let_def)

interpretation frozen_take: absorbing_machine arbiter_step "tracks seen True" for seen
  by unfold_locales (rule tracks_frozen)

lemma tracks_run:
  assumes "tracks seen False a"
  shows "\<exists>frozen. tracks (before_confirmation seen es) frozen (exec arbiter_step a es)"
  using assms
proof (induction es arbitrary: seen a)
  case Nil
  then show ?case by auto
next
  case (Cons e es)
  show ?case
  proof (cases "e = Take_confirmed \<and> decided seen \<noteq> None")
    case True
    with tracks_confirm [OF Cons.prems] have "tracks seen True (arbiter_step a e)" by simp
    then have "tracks seen True (exec arbiter_step (arbiter_step a e) es)"
      by (rule frozen_take.absorbing_run)
    with True show ?thesis by auto
  next
    case False
    with Cons.IH [OF tracks_step [OF Cons.prems False]] show ?thesis by auto
  qed
qed

lemma run_take_tracks: "\<exists>frozen. tracks (before_confirmation [] es) frozen (run_take a es)"
  unfolding run_take_def by (rule tracks_run [OF tracks_begin])

lemma run_take_append: "run_take a (es @ es') = exec arbiter_step (run_take a es) es'"
  by (simp add: run_take_def exec_append)

lemma playback_run_take: "playback (run_take a es) = take_result es"
  unfolding take_result_def using run_take_tracks [of es a] by (auto intro: tracks_playback)

lemma confirmed_stays:
  assumes "ra_confirmed (run_take a es)"
  shows "playback (run_take a (es @ es')) = playback (run_take a es)"
proof -
  obtain frozen where "tracks (before_confirmation [] es) frozen (run_take a es)"
    using run_take_tracks by blast
  with assms have t: "tracks (before_confirmation [] es) True (run_take a es)"
    by (simp add: tracks_def)
  then have "tracks (before_confirmation [] es) True (run_take a (es @ es'))"
    unfolding run_take_append by (rule frozen_take.absorbing_run)
  with t show ?thesis by (simp add: tracks_playback)
qed

text \<open>The reason of the stop, over the takes of a request.\<close>

lemma stop_latched: "ra_stop a \<noteq> Stop_none \<Longrightarrow> ra_stop (arbiter_step a e) = ra_stop a"
  by (cases e) (auto simp: arbiter_ops Let_def)

interpretation latched_stop: absorbing_machine arbiter_step "\<lambda>a. ra_stop a = r \<and> r \<noteq> Stop_none" for r
  by unfold_locales (simp add: stop_latched)

lemma latched_run: "ra_stop a = r \<Longrightarrow> r \<noteq> Stop_none \<Longrightarrow> ra_stop (exec arbiter_step a es) = r"
  using latched_stop.absorbing_run by blast

lemma ending_before: "ending seen = Some r \<Longrightarrow> ending (before_confirmation seen es) = Some r"
  by (induction es arbitrary: seen) (auto simp: ending_append)

lemma stop_frozen:
  assumes "tracks seen True a" and "ra_stop a = Stop_none"
  shows "ra_stop (exec arbiter_step a es) = (if Take_cancelled \<in> set es then Stop_cancellation else Stop_none)"
  using assms
proof (induction es arbitrary: a)
  case (Cons e es)
  note frozen = tracks_frozen [OF Cons.prems(1), of e]
  show ?case
  proof (cases "e = Take_cancelled")
    case True
    with Cons.prems have "ra_stop (arbiter_step a e) = Stop_cancellation"
      by (simp add: arbiter_ops Let_def tracks_def)
    then have "ra_stop (exec arbiter_step (arbiter_step a e) es) = Stop_cancellation"
      by (rule latched_run) simp
    with True show ?thesis by simp
  next
    case False
    with Cons.prems have "ra_stop (arbiter_step a e) = Stop_none"
      by (cases e) (auto simp: arbiter_ops Let_def tracks_def)
    with Cons.IH [OF frozen] False show ?thesis by auto
  qed
qed simp

lemma stop_run:
  assumes "tracks seen False a" and "ending seen = None" and "ra_stop a = Stop_none"
  shows "ra_stop (exec arbiter_step a es) = stop_given (ending (before_confirmation seen es)) es"
  using assms
proof (induction es arbitrary: seen a)
  case Nil
  then show ?case by (simp add: stop_given_def)
next
  case (Cons e es)
  show ?case
  proof (cases "e = Take_confirmed \<and> decided seen \<noteq> None")
    case True
    with tracks_confirm [OF Cons.prems(1)] have "tracks seen True (arbiter_step a e)" by simp
    moreover from True Cons.prems have "ra_stop (arbiter_step a e) = Stop_none"
      by (simp add: confirm_def Let_def)
    ultimately have "ra_stop (exec arbiter_step (arbiter_step a e) es) =
        (if Take_cancelled \<in> set es then Stop_cancellation else Stop_none)"
      by (rule stop_frozen)
    with True Cons.prems show ?thesis
      by (simp del: arbiter_step.simps add: stop_given_def)
  next
    case False
    note t = tracks_step [OF Cons.prems(1) False]
    show ?thesis
    proof (cases "ending (seen @ [e])")
      case None
      then have "ra_stop (arbiter_step a e) = Stop_none" "e \<noteq> Take_cancelled"
        using Cons.prems by (cases e; auto simp: arbiter_ops Let_def ending_append)+
      with Cons.IH [OF t None] False show ?thesis by (auto simp: stop_given_def split: option.split)
    next
      case (Some r)
      then have "ra_stop (arbiter_step a e) = stop_given (Some r) (e # es)"
        using Cons.prems
        by (cases e) (auto simp: arbiter_ops Let_def ending_append stop_given_def tracks_def split: if_splits)
      then have "ra_stop (exec arbiter_step (arbiter_step a e) es) = stop_given (Some r) (e # es)"
        by (rule latched_run) (simp add: stop_given_def)
      moreover have "before_confirmation seen (e # es) = before_confirmation (seen @ [e]) es"
        using False by auto
      ultimately show ?thesis by (simp add: ending_before [OF Some] del: before_confirmation.simps)
    qed
  qed
qed

lemma stop_run_take:
  "ra_stop (run_take a es) = (if ra_stop a = Stop_none then stop_of es else ra_stop a)"
proof (cases "ra_stop a = Stop_none")
  case True
  then show ?thesis
    unfolding run_take_def stop_of_def
    by (subst stop_run [OF tracks_begin]) (simp_all add: begin_take_def)
next
  case False
  then show ?thesis
    unfolding run_take_def by (subst latched_run [of _ "ra_stop a"]) (simp_all add: begin_take_def)
qed

lemma stop_run_takes:
  "ra_stop (foldl run_take a takes) = first_stop (ra_stop a # map stop_of takes)"
  by (induction takes arbitrary: a) (auto simp: stop_run_take)

text \<open>
  C20: Coinciding events end a take by one rule. Over every list of events of a take, whatever happened
  in the takes before it, its result is the one of the first cancellation or failure, the natural end
  only without either, counting the events before the first confirmation of a decided result; a
  confirmed result never changes; a cancelled or failed take has no control pending; and the reason
  given to the takes that never start is the first cancellation, at any time, or the first failure
  that decided a take.
\<close>

theorem take_ends_by_one_rule:
  "playback (run_take (run_request earlier) es) = take_result es \<and>
   playback (run_take (run_request earlier) (es @ es')) =
     (if ra_confirmed (run_take (run_request earlier) es) then take_result es
      else take_result (es @ es')) \<and>
   (case ending (before_confirmation [] es) of
      None \<Rightarrow> True
    | Some _ \<Rightarrow> ra_pending_controls (run_take (run_request earlier) es) = 0) \<and>
   ra_stop (run_take (run_request earlier) es) = first_stop (map stop_of (earlier @ [es]))"
proof -
  let ?a = "run_request earlier"
  obtain frozen where "tracks (before_confirmation [] es) frozen (run_take ?a es)"
    using run_take_tracks by blast
  then have "case ending (before_confirmation [] es) of
      None \<Rightarrow> True | Some _ \<Rightarrow> ra_pending_controls (run_take ?a es) = 0"
    by (auto simp: tracks_def split: option.splits)
  moreover have "ra_stop (run_take ?a es) = first_stop (map stop_of (earlier @ [es]))"
    using stop_run_takes [of make_arbiter "earlier @ [es]"] by (simp add: run_request_def make_arbiter_def)
  ultimately show ?thesis
    using confirmed_stays [of ?a es es'] by (simp add: playback_run_take)
qed

end
