(* ===== verification/Evidence_Model.thy ===== *)
theory Evidence_Model
  imports Prelude Qa_Model
begin

text \<open>
  The data of the evidence of a run and what makes it well formed: facts
  (\<^verbatim>\<open>tools/audio_qa/fact_model.{h,cpp}\<close>), ranges and mixes (\<^verbatim>\<open>mix_model.{h,cpp}\<close>) and blocks of PCM
  (\<^verbatim>\<open>audio_chunk.{h,cpp}\<close>). A double or float is its bit pattern, as far as only its finiteness
  matters; the checks that an enumeration has one of its values hold of every datatype.
\<close>

unbundle bit_operations_syntax

section \<open>Limits\<close>

definition max_fact_causes :: nat where "max_fact_causes = 256"
definition max_fact_state_orders :: nat where "max_fact_state_orders = 256"
definition max_fact_fields :: nat where "max_fact_fields = 128"
definition max_fact_field_text_bytes :: nat where "max_fact_field_text_bytes = 4096"
definition max_mix_participants :: nat where "max_mix_participants = 256"
definition max_audio_payload_bytes :: u64 where "max_audio_payload_bytes = 256 * 1024"
definition max_audio_discontinuities :: nat where "max_audio_discontinuities = 256"

lemmas limit_defs =
  max_fact_causes_def max_fact_state_orders_def max_fact_fields_def max_fact_field_text_bytes_def
  max_mix_participants_def max_audio_payload_bytes_def max_audio_discontinuities_def
  max_identity_bytes_def

section \<open>Facts\<close>

datatype availability = Known | Not_applicable | Unknown

record 'a field =
  fd_availability :: availability
  fd_value :: "'a option"
  fd_reason :: string

text \<open>A field that was never assigned, and the two ways in which the code assigns one.\<close>

definition unset_field :: "'a field" where
  "unset_field = \<lparr>fd_availability = Unknown, fd_value = None, fd_reason = []\<rparr>"

definition known_field :: "'a \<Rightarrow> 'a field" where
  "known_field x = \<lparr>fd_availability = Known, fd_value = Some x, fd_reason = []\<rparr>"

definition unknown_field :: "string \<Rightarrow> 'a field" where
  "unknown_field reason = \<lparr>fd_availability = Unknown, fd_value = None, fd_reason = reason\<rparr>"

definition consistent_availability :: "'a field \<Rightarrow> bool" where
  "consistent_availability f \<longleftrightarrow>
     length (fd_reason f) \<le> max_identity_bytes \<and>
     (case fd_availability f of
        Known \<Rightarrow> fd_value f \<noteq> None
      | Not_applicable \<Rightarrow> fd_value f = None
      | Unknown \<Rightarrow> fd_value f = None)"

record fact_id =
  id_run :: string
  id_producer :: string
  id_sequence :: u64

datatype cause = Cause_fact fact_id | Cause_preexisting string

record state_order =
  so_state :: string
  so_sequence :: u64

datatype field_unit =
  Unit_none | Unit_emulation_frame | Unit_sample_frame | Unit_bytes | Unit_count | Unit_linear_gain
  | Unit_frames_per_second | Unit_nanoseconds

datatype field_content =
  Content_none | Content_bool bool | Content_unsigned u64 | Content_signed u64 | Content_double u64
  | Content_text string | Content_fact fact_id

record fact_field =
  ff_name :: string
  ff_availability :: availability
  ff_unit :: field_unit
  ff_value :: field_content
  ff_reason :: string

record qa_fact =
  ft_id :: fact_id
  ft_kind :: string
  ft_frame_index :: "u64 field"
  ft_causes :: "cause list"
  ft_decision :: "string field"
  ft_assignment :: "string field"
  ft_occurrence :: "string field"
  ft_reason :: "string field"
  ft_order :: "state_order list field"
  ft_fields :: "fact_field list"

definition is_identifier :: "string \<Rightarrow> bool" where
  "is_identifier s \<longleftrightarrow> s \<noteq> [] \<and> length s \<le> max_identity_bytes"

definition valid_text_field :: "string field \<Rightarrow> bool" where
  "valid_text_field f \<longleftrightarrow>
     consistent_availability f \<and> (case fd_value f of None \<Rightarrow> True | Some s \<Rightarrow> is_identifier s)"

definition valid_fact_id :: "fact_id \<Rightarrow> bool" where
  "valid_fact_id i \<longleftrightarrow> is_identifier (id_run i) \<and> is_identifier (id_producer i) \<and> id_sequence i \<noteq> 0"

text \<open>A double is finite when its exponent is not all ones.\<close>

definition finite_double :: "u64 \<Rightarrow> bool" where
  "finite_double bits \<longleftrightarrow> drop_bit 52 bits AND 0x7FF \<noteq> 0x7FF"

definition valid_fact_field :: "string \<Rightarrow> fact_field \<Rightarrow> bool" where
  "valid_fact_field run f \<longleftrightarrow>
     is_identifier (ff_name f) \<and> length (ff_reason f) \<le> max_fact_field_text_bytes \<and>
     (ff_availability f = Known) = (ff_value f \<noteq> Content_none) \<and>
     (ff_availability f = Known) = (ff_reason f = []) \<and>
     (case ff_value f of
        Content_text s \<Rightarrow> length s \<le> max_fact_field_text_bytes
      | Content_double bits \<Rightarrow> finite_double bits
      | Content_fact i \<Rightarrow> valid_fact_id i \<and> id_run i = run
      | _ \<Rightarrow> True)"

fun valid_cause :: "fact_id \<Rightarrow> cause \<Rightarrow> bool" where
  "valid_cause i (Cause_fact j) = (valid_fact_id j \<and> id_run j = id_run i \<and> j \<noteq> i)"
| "valid_cause i (Cause_preexisting context_id) = is_identifier context_id"

definition valid_order :: "state_order list \<Rightarrow> bool" where
  "valid_order orders \<longleftrightarrow>
     orders \<noteq> [] \<and> length orders \<le> max_fact_state_orders \<and>
     list_all (\<lambda>p. is_identifier (so_state p) \<and> so_sequence p \<noteq> 0) orders \<and> distinct (map so_state orders)"

definition well_formed_fact :: "qa_fact \<Rightarrow> bool" where
  "well_formed_fact f \<longleftrightarrow>
     valid_fact_id (ft_id f) \<and> is_identifier (ft_kind f) \<and> consistent_availability (ft_frame_index f) \<and>
     valid_text_field (ft_decision f) \<and> valid_text_field (ft_assignment f) \<and>
     valid_text_field (ft_occurrence f) \<and> valid_text_field (ft_reason f) \<and>
     consistent_availability (ft_order f) \<and> length (ft_causes f) \<le> max_fact_causes \<and>
     length (ft_fields f) \<le> max_fact_fields \<and>
     list_all (valid_fact_field (id_run (ft_id f))) (ft_fields f) \<and> distinct (map ff_name (ft_fields f)) \<and>
     list_all (valid_cause (ft_id f)) (ft_causes f) \<and> distinct (ft_causes f) \<and>
     (case fd_value (ft_order f) of None \<Rightarrow> True | Some orders \<Rightarrow> valid_order orders)"

section \<open>Ranges and mixes\<close>

record sample_range =
  sr_timeline :: string
  sr_rate :: u32
  sr_begin :: u64
  sr_end :: u64

record track_position =
  tp_frame :: u64
  tp_rate :: u32

record occurrence_id =
  oi_run :: string
  oi_sequence :: u64

record mix_participant =
  mp_occurrence :: occurrence_id
  mp_range :: sample_range
  mp_position_begin :: "track_position field"
  mp_position_end :: "track_position field"
  mp_gain_begin :: "u32 field"
  mp_gain_end :: "u32 field"
  mp_muted :: "bool field"

datatype original_audio = Original_unknown | Original_present | Original_suppressed | Original_absent

record mix_span =
  ms_run :: string
  ms_id :: string
  ms_range :: sample_range
  ms_output :: "sample_range field"
  ms_original :: original_audio
  ms_participants :: "mix_participant list"
  ms_facts :: "fact_id list"

record occurrence =
  oc_id :: occurrence_id
  oc_business_key :: u64
  oc_track :: "string field"
  oc_assignment :: "string field"
  oc_causes :: "cause list"
  oc_position :: "track_position field"
  oc_loop :: "sample_range field"
  oc_gain :: "u32 field"
  oc_muted :: "bool field"
  oc_final_reason :: "string field"

definition well_formed_range :: "sample_range \<Rightarrow> bool" where
  "well_formed_range r \<longleftrightarrow> is_identifier (sr_timeline r) \<and> 0 < sr_rate r \<and> sr_begin r \<le> sr_end r"

definition overlaps :: "sample_range \<Rightarrow> sample_range \<Rightarrow> bool option" where
  "overlaps l r =
     (if \<not> well_formed_range l \<or> \<not> well_formed_range r \<or> sr_timeline l \<noteq> sr_timeline r \<or> sr_rate l \<noteq> sr_rate r
      then None
      else Some (sr_begin l < sr_end l \<and> sr_begin r < sr_end r \<and> sr_begin l < sr_end r \<and> sr_begin r < sr_end l))"

definition valid_occurrence_id :: "occurrence_id \<Rightarrow> bool" where
  "valid_occurrence_id i \<longleftrightarrow> is_identifier (oi_run i) \<and> oi_sequence i \<noteq> 0"

definition valid_position_field :: "track_position field \<Rightarrow> bool" where
  "valid_position_field f \<longleftrightarrow>
     consistent_availability f \<and> (case fd_value f of None \<Rightarrow> True | Some p \<Rightarrow> 0 < tp_rate p)"

definition valid_range_field :: "sample_range field \<Rightarrow> bool" where
  "valid_range_field f \<longleftrightarrow>
     consistent_availability f \<and> (case fd_value f of None \<Rightarrow> True | Some r \<Rightarrow> well_formed_range r)"

definition finite_float :: "u32 \<Rightarrow> bool" where
  "finite_float bits \<longleftrightarrow> drop_bit 23 bits AND 0xFF \<noteq> 0xFF"

definition valid_gain_field :: "u32 field \<Rightarrow> bool" where
  "valid_gain_field f \<longleftrightarrow>
     consistent_availability f \<and> (case fd_value f of None \<Rightarrow> True | Some g \<Rightarrow> finite_float g)"

definition fact_of_run :: "string \<Rightarrow> fact_id \<Rightarrow> bool" where
  "fact_of_run run i \<longleftrightarrow> id_run i = run \<and> is_identifier (id_producer i) \<and> id_sequence i \<noteq> 0"

definition well_formed_occurrence :: "occurrence \<Rightarrow> bool" where
  "well_formed_occurrence c \<longleftrightarrow>
     valid_occurrence_id (oc_id c) \<and> valid_text_field (oc_track c) \<and> valid_text_field (oc_assignment c) \<and>
     valid_position_field (oc_position c) \<and> valid_range_field (oc_loop c) \<and> valid_gain_field (oc_gain c) \<and>
     consistent_availability (oc_muted c) \<and> valid_text_field (oc_final_reason c) \<and>
     length (oc_causes c) \<le> max_fact_causes \<and>
     list_all (\<lambda>x. case x of Cause_fact i \<Rightarrow> fact_of_run (oi_run (oc_id c)) i
                          | Cause_preexisting context_id \<Rightarrow> is_identifier context_id) (oc_causes c)"

definition valid_participant :: "mix_span \<Rightarrow> mix_participant \<Rightarrow> bool" where
  "valid_participant s p \<longleftrightarrow>
     valid_occurrence_id (mp_occurrence p) \<and> oi_run (mp_occurrence p) = ms_run s \<and>
     well_formed_range (mp_range p) \<and> sr_begin (mp_range p) \<noteq> sr_end (mp_range p) \<and>
     sr_timeline (mp_range p) = sr_timeline (ms_range s) \<and> sr_rate (mp_range p) = sr_rate (ms_range s) \<and>
     sr_begin (ms_range s) \<le> sr_begin (mp_range p) \<and> sr_end (mp_range p) \<le> sr_end (ms_range s) \<and>
     valid_position_field (mp_position_begin p) \<and> valid_position_field (mp_position_end p) \<and>
     valid_gain_field (mp_gain_begin p) \<and> valid_gain_field (mp_gain_end p) \<and>
     consistent_availability (mp_muted p)"

definition well_formed_span :: "mix_span \<Rightarrow> bool" where
  "well_formed_span s \<longleftrightarrow>
     is_identifier (ms_run s) \<and> is_identifier (ms_id s) \<and> well_formed_range (ms_range s) \<and>
     sr_begin (ms_range s) \<noteq> sr_end (ms_range s) \<and> valid_range_field (ms_output s) \<and>
     length (ms_participants s) \<le> max_mix_participants \<and> length (ms_facts s) \<le> max_fact_causes \<and>
     list_all (valid_participant s) (ms_participants s) \<and> distinct (map mp_occurrence (ms_participants s)) \<and>
     list_all (fact_of_run (ms_run s)) (ms_facts s)"

section \<open>Blocks of PCM\<close>

datatype pcm_format = Pcm_s16le | Pcm_s24le | Pcm_s32le | Pcm_f32le

record audio_format =
  af_pcm :: pcm_format
  af_rate :: u32
  af_channels :: u8

datatype durability = Durability_pending | Durability_confirmed

datatype discontinuity_kind = Inserted_silence | Discarded_audio

record discontinuity =
  di_kind :: discontinuity_kind
  di_affected :: sample_range
  di_output :: "sample_range field"
  di_causes :: "fact_id list"

record audio_chunk =
  ac_run :: string
  ac_capture_point :: string
  ac_sequence :: u64
  ac_format :: audio_format
  ac_range :: sample_range
  ac_bytes :: bytes
  ac_sha256 :: "bytes field"
  ac_durability :: durability
  ac_checkpoint :: "string field"
  ac_causes :: "fact_id list"
  ac_discontinuities :: "discontinuity list"
  ac_segment :: u64

fun sample_width :: "pcm_format \<Rightarrow> u64" where
  "sample_width Pcm_s16le = 2"
| "sample_width Pcm_s24le = 3"
| "sample_width Pcm_s32le = 4"
| "sample_width Pcm_f32le = 4"

definition expected_payload_bytes :: "audio_format \<Rightarrow> u64 \<Rightarrow> u64 option" where
  "expected_payload_bytes f sample_frames =
     (if af_rate f = 0 \<or> 192000 < af_rate f \<or> af_channels f = 0 \<or> 8 < af_channels f then None
      else
        (let frame_bytes = sample_width (af_pcm f) * ucast (af_channels f)
         in if max_audio_payload_bytes div frame_bytes < sample_frames then None
            else Some (sample_frames * frame_bytes)))"

definition valid_discontinuity :: "string \<Rightarrow> discontinuity \<Rightarrow> bool" where
  "valid_discontinuity run d \<longleftrightarrow>
     well_formed_range (di_affected d) \<and> valid_range_field (di_output d) \<and>
     length (di_causes d) \<le> max_fact_causes \<and> list_all (fact_of_run run) (di_causes d)"

definition well_formed_chunk :: "audio_chunk \<Rightarrow> bool" where
  "well_formed_chunk c \<longleftrightarrow>
     is_identifier (ac_run c) \<and> is_identifier (ac_capture_point c) \<and> ac_sequence c \<noteq> 0 \<and>
     well_formed_range (ac_range c) \<and> sr_rate (ac_range c) = af_rate (ac_format c) \<and>
     consistent_availability (ac_sha256 c) \<and> consistent_availability (ac_checkpoint c) \<and>
     length (ac_causes c) \<le> max_fact_causes \<and> length (ac_discontinuities c) \<le> max_audio_discontinuities \<and>
     (case expected_payload_bytes (ac_format c) (sr_end (ac_range c) - sr_begin (ac_range c)) of
        None \<Rightarrow> False
      | Some n \<Rightarrow> unat n = length (ac_bytes c)) \<and>
     (case fd_value (ac_checkpoint c) of None \<Rightarrow> True | Some s \<Rightarrow> is_identifier s) \<and>
     (ac_durability c = Durability_confirmed \<longrightarrow> fd_value (ac_sha256 c) \<noteq> None \<and> fd_value (ac_checkpoint c) \<noteq> None) \<and>
     list_all (fact_of_run (ac_run c)) (ac_causes c) \<and> distinct (ac_causes c) \<and>
     list_all (valid_discontinuity (ac_run c)) (ac_discontinuities c)"

section \<open>Correctness\<close>

lemma chunk_width_cases: "sample_width p \<in> {2, 3, 4}"
  by (cases p) simp_all

lemma frame_bytes_exact:
  assumes "af_channels f \<le> 8"
  shows "unat (sample_width (af_pcm f) * ucast (af_channels f) :: u64) =
    unat (sample_width (af_pcm f)) * unat (af_channels f)"
proof -
  have channels: "unat (af_channels f) \<le> 8"
    using assms by (simp add: word_le_nat_alt)
  have "unat (sample_width (af_pcm f)) \<le> 4"
    by (cases "af_pcm f") simp_all
  with channels have "unat (sample_width (af_pcm f)) * unat (af_channels f) \<le> 4 * 8"
    by (intro mult_le_mono)
  moreover have "unat (ucast (af_channels f) :: u64) = unat (af_channels f)"
    using channels by (simp add: unsigned_ucast_eq take_bit_nat_eq_self)
  ultimately show ?thesis
    by (simp add: unat_word_ariths)
qed

lemma payload_limit:
  assumes "0 < af_channels f" and "af_channels f \<le> 8"
  defines "m \<equiv> unat (sample_width (af_pcm f)) * unat (af_channels f)"
  shows "max_audio_payload_bytes div (sample_width (af_pcm f) * ucast (af_channels f)) < n \<longleftrightarrow>
    262144 < unat n * m"
proof -
  have "0 < unat (sample_width (af_pcm f))" "0 < unat (af_channels f)"
    using assms(1) chunk_width_cases [of "af_pcm f"] by (auto simp: word_less_nat_alt)
  then have "0 < m" by (simp add: m_def)
  have "max_audio_payload_bytes div (sample_width (af_pcm f) * ucast (af_channels f)) < n \<longleftrightarrow>
      262144 div m < unat n"
    by (simp add: word_less_nat_alt unat_div frame_bytes_exact [OF assms(2)] m_def max_audio_payload_bytes_def)
  also have "\<dots> \<longleftrightarrow> 262144 < unat n * m"
    using less_eq_div_iff_mult_less_eq [OF \<open>0 < m\<close>, of "unat n" 262144] by (simp add: not_le [symmetric])
  finally show ?thesis .
qed

lemma payload_product:
  assumes "af_channels f \<le> 8"
    and "unat n * (unat (sample_width (af_pcm f)) * unat (af_channels f)) \<le> 262144"
  shows "unat (n * (sample_width (af_pcm f) * ucast (af_channels f)) :: u64) =
    unat n * (unat (sample_width (af_pcm f)) * unat (af_channels f))"
  using assms by (simp add: unat_word_ariths(2) [of n] frame_bytes_exact)

lemma expected_payload_exact:
  "case expected_payload_bytes f n of
      None \<Rightarrow> \<not> (0 < af_rate f \<and> af_rate f \<le> 192000 \<and> 0 < af_channels f \<and> af_channels f \<le> 8 \<and>
        unat n * (unat (sample_width (af_pcm f)) * unat (af_channels f)) \<le> 262144)
    | Some b \<Rightarrow> 0 < af_rate f \<and> af_rate f \<le> 192000 \<and> 0 < af_channels f \<and> af_channels f \<le> 8 \<and>
        unat b = unat n * (unat (sample_width (af_pcm f)) * unat (af_channels f)) \<and> unat b \<le> 262144"
proof (cases "0 < af_rate f \<and> af_rate f \<le> 192000 \<and> 0 < af_channels f \<and> af_channels f \<le> 8")
  case True
  then show ?thesis
    by (cases "262144 < unat n * (unat (sample_width (af_pcm f)) * unat (af_channels f))")
       (simp_all add: expected_payload_bytes_def payload_limit payload_product not_less word_neq_0_conv)
next
  case False
  then show ?thesis
    by (auto simp: expected_payload_bytes_def word_neq_0_conv not_less)
qed

text \<open>
  The size of a payload is exact and bounded. For every format and number of frames, at 64 bits,
  the expected size exists exactly for a rate up to 192000, one to eight channels and a payload up to
  256 KiB, and is then the product of frames, channels and sample width without any wrap; two ranges
  are compared exactly when both are well formed and on one timeline, and overlap exactly when they
  have a sample in common.
\<close>

theorem payload_size_exact:
  "(case expected_payload_bytes f n of
      None \<Rightarrow> \<not> (0 < af_rate f \<and> af_rate f \<le> 192000 \<and> 0 < af_channels f \<and> af_channels f \<le> 8 \<and>
        unat n * (unat (sample_width (af_pcm f)) * unat (af_channels f)) \<le> 262144)
    | Some b \<Rightarrow> 0 < af_rate f \<and> af_rate f \<le> 192000 \<and> 0 < af_channels f \<and> af_channels f \<le> 8 \<and>
        unat b = unat n * (unat (sample_width (af_pcm f)) * unat (af_channels f)) \<and> unat b \<le> 262144) \<and>
   overlaps l r =
     (if well_formed_range l \<and> well_formed_range r \<and> sr_timeline l = sr_timeline r \<and> sr_rate l = sr_rate r
      then Some ({sr_begin l..<sr_end l} \<inter> {sr_begin r..<sr_end r} \<noteq> {}) else None)"
  using expected_payload_exact [of f n] by (auto simp: overlaps_def not_less)

end
