(* ===== verification/Audio_Integrity.thy ===== *)
theory Audio_Integrity
  imports Evidence_Model
begin

text \<open>
  The audit of the PCM of a run: \<^verbatim>\<open>tools/audio_qa/audio_integrity.{h,cpp}\<close>. Reading a block back from
  its file (\<^verbatim>\<open>read_pcm_block\<close>) is an answer of the store, given with the path: a block or an error.
\<close>

section \<open>The audit\<close>

datatype pcm_store_error =
  Pcm_invalid_sequence | Pcm_invalid_chunk | Pcm_document_too_large | Pcm_already_exists | Pcm_io_error
  | Pcm_malformed_header | Pcm_incompatible_version | Pcm_length_mismatch | Pcm_sequence_mismatch
  | Pcm_hash_mismatch | Pcm_pcm_length_mismatch | Pcm_invalid_content

record stored_block =
  sb_sequence :: u64
  sb_chunk :: audio_chunk

datatype audio_issue_kind =
  Empty_capture | Too_many_blocks | Block_unreadable | Block_sequence_discontinuity
  | Capture_identity_changed | Format_changed | Timeline_changed | Sample_gap | Sample_overlap_or_reorder
  | Ambiguous_effect_boundary | Effect_outside_block | Segment_out_of_order

record audio_issue =
  ai_kind :: audio_issue_kind
  ai_block :: string
  ai_range :: "sample_range option"
  ai_expected :: u64
  ai_observed :: u64
  ai_error :: "pcm_store_error option"

datatype continuity = Single_interval | Per_segment

datatype pcm_join = Join_continues | Join_starts_segment | Join_gap | Join_overlap | Join_out_of_order

record segment_interval =
  si_segment :: u64
  si_samples :: sample_range
  si_blocks :: nat

record audio_audit =
  aa_result :: evidence_result
  aa_blocks :: nat
  aa_effects :: nat
  aa_last_sample :: "u64 option"
  aa_issue :: "audio_issue option"
  aa_segments :: "segment_interval list"

definition max_checkpoint_artifacts :: nat where "max_checkpoint_artifacts = 65536"

definition same_format :: "audio_format \<Rightarrow> audio_format \<Rightarrow> bool" where
  "same_format l r \<longleftrightarrow> af_pcm l = af_pcm r \<and> af_rate l = af_rate r \<and> af_channels l = af_channels r"

definition fail_audit :: "audio_audit \<Rightarrow> audio_issue \<Rightarrow> audio_audit" where
  "fail_audit a issue =
     a\<lparr>aa_result := Evidence_incomplete,
       aa_issue := (if aa_issue a = None then Some issue else aa_issue a)\<rparr>"

definition issue_of :: "audio_issue_kind \<Rightarrow> string \<Rightarrow> sample_range option \<Rightarrow> audio_issue" where
  "issue_of k path affected =
     \<lparr>ai_kind = k, ai_block = path, ai_range = affected, ai_expected = 0, ai_observed = 0, ai_error = None\<rparr>"

definition join_pcm :: "audio_chunk \<Rightarrow> audio_chunk \<Rightarrow> continuity \<Rightarrow> pcm_join" where
  "join_pcm previous c continuity =
     (if continuity = Per_segment \<and> ac_segment c < ac_segment previous then Join_out_of_order
      else if continuity = Per_segment \<and> ac_segment previous < ac_segment c then Join_starts_segment
      else if sr_end (ac_range previous) < sr_begin (ac_range c) then Join_gap
      else if sr_begin (ac_range c) < sr_end (ac_range previous) then Join_overlap
      else if ac_segment c = ac_segment previous then Join_continues else Join_starts_segment)"

text \<open>The sequence that follows; after the largest number there is none.\<close>

definition sequence_issue :: "u64 option \<Rightarrow> string \<Rightarrow> stored_block \<Rightarrow> audio_issue option" where
  "sequence_issue previous path b =
     (case previous of
        None \<Rightarrow> None
      | Some p \<Rightarrow>
          (let expected = (if p = - 1 then 0 else p + 1)
           in if expected = 0 \<or> sb_sequence b \<noteq> expected
              then Some ((issue_of Block_sequence_discontinuity path (Some (ac_range (sb_chunk b))))
                           \<lparr>ai_expected := expected, ai_observed := sb_sequence b\<rparr>)
              else None))"

definition chunk_issue :: "audio_chunk option \<Rightarrow> string \<Rightarrow> continuity \<Rightarrow> audio_chunk \<Rightarrow> audio_issue option" where
  "chunk_issue previous path continuity c =
     (case previous of
        None \<Rightarrow> None
      | Some p \<Rightarrow>
          if ac_run c \<noteq> ac_run p \<or> ac_capture_point c \<noteq> ac_capture_point p
          then Some (issue_of Capture_identity_changed path (Some (ac_range c)))
          else if \<not> same_format (ac_format c) (ac_format p)
          then Some (issue_of Format_changed path (Some (ac_range c)))
          else if sr_timeline (ac_range c) \<noteq> sr_timeline (ac_range p) \<or> sr_rate (ac_range c) \<noteq> sr_rate (ac_range p)
          then Some (issue_of Timeline_changed path (Some (ac_range c)))
          else
            (case join_pcm p c continuity of
               Join_continues \<Rightarrow> None
             | Join_starts_segment \<Rightarrow> None
             | Join_gap \<Rightarrow>
                 Some (issue_of Sample_gap path
                   (Some ((ac_range p)\<lparr>sr_begin := sr_end (ac_range p), sr_end := sr_begin (ac_range c)\<rparr>)))
             | Join_overlap \<Rightarrow>
                 Some (issue_of Sample_overlap_or_reorder path
                   (Some ((ac_range p)\<lparr>sr_begin := sr_begin (ac_range c), sr_end := sr_end (ac_range p)\<rparr>)))
             | Join_out_of_order \<Rightarrow>
                 Some ((issue_of Segment_out_of_order path (Some (ac_range c)))
                         \<lparr>ai_expected := ac_segment p, ai_observed := ac_segment c\<rparr>)))"

definition effect_issue :: "string \<Rightarrow> audio_chunk \<Rightarrow> discontinuity \<Rightarrow> audio_issue option" where
  "effect_issue path c d =
     (if fd_availability (di_output d) = Unknown \<or>
         di_kind d = Inserted_silence \<and> fd_availability (di_output d) = Not_applicable
      then Some (issue_of Ambiguous_effect_boundary path (Some (di_affected d)))
      else
        (case fd_value (di_output d) of
           None \<Rightarrow> None
         | Some r \<Rightarrow>
             if sr_timeline r \<noteq> sr_timeline (ac_range c) \<or> sr_rate r \<noteq> sr_rate (ac_range c) \<or>
                sr_begin r < sr_begin (ac_range c) \<or> sr_end (ac_range c) < sr_end r
             then Some (issue_of Effect_outside_block path (Some r)) else None))"

fun audit_effects :: "string \<Rightarrow> audio_chunk \<Rightarrow> audio_audit \<Rightarrow> discontinuity list \<Rightarrow> audio_audit \<times> bool" where
  "audit_effects path c a [] = (a, True)"
| "audit_effects path c a (d # ds) =
     (case effect_issue path c d of
        Some issue \<Rightarrow> (fail_audit a issue, False)
      | None \<Rightarrow>
          audit_effects path c
            (if fd_value (di_output d) = None then a else a\<lparr>aa_effects := aa_effects a + 1\<rparr>) ds)"

definition add_to_segments :: "segment_interval list \<Rightarrow> audio_chunk \<Rightarrow> segment_interval list" where
  "add_to_segments segments c =
     (let ss = (if segments = [] \<or> si_segment (last segments) \<noteq> ac_segment c
                then segments @ [\<lparr>si_segment = ac_segment c, si_samples = ac_range c, si_blocks = 0\<rparr>]
                else segments);
          s = last ss
      in butlast ss @
           [s\<lparr>si_samples := (si_samples s)\<lparr>sr_end := sr_end (ac_range c)\<rparr>, si_blocks := si_blocks s + 1\<rparr>])"

fun audit_blocks ::
    "continuity \<Rightarrow> audio_audit \<Rightarrow> stored_block option \<Rightarrow> (string \<times> (pcm_store_error + stored_block)) list \<Rightarrow>
     audio_audit" where
  "audit_blocks continuity a previous [] = a\<lparr>aa_result := Evidence_complete\<rparr>"
| "audit_blocks continuity a previous ((path, Inl e) # rest) =
     fail_audit a ((issue_of Block_unreadable path None)\<lparr>ai_error := Some e\<rparr>)"
| "audit_blocks continuity a previous ((path, Inr b) # rest) =
     (case sequence_issue (map_option sb_sequence previous) path b of
        Some issue \<Rightarrow> fail_audit a issue
      | None \<Rightarrow>
          (case chunk_issue (map_option sb_chunk previous) path continuity (sb_chunk b) of
             Some issue \<Rightarrow> fail_audit a issue
           | None \<Rightarrow>
               (case audit_effects path (sb_chunk b) a (ac_discontinuities (sb_chunk b)) of
                  (a', False) \<Rightarrow> a'
                | (a', True) \<Rightarrow>
                    audit_blocks continuity
                      (a'\<lparr>aa_segments := add_to_segments (aa_segments a') (sb_chunk b),
                          aa_last_sample := Some (sr_end (ac_range (sb_chunk b))),
                          aa_blocks := aa_blocks a' + 1\<rparr>)
                      (Some b) rest)))"

definition empty_audit :: audio_audit where
  "empty_audit =
     \<lparr>aa_result = Evidence_incomplete, aa_blocks = 0, aa_effects = 0, aa_last_sample = None, aa_issue = None,
      aa_segments = []\<rparr>"

definition audit_audio_integrity ::
    "(string \<times> (pcm_store_error + stored_block)) list \<Rightarrow> continuity \<Rightarrow> audio_audit" where
  "audit_audio_integrity blocks continuity =
     (if blocks = [] then fail_audit empty_audit (issue_of Empty_capture [] None)
      else if max_checkpoint_artifacts < length blocks
      then fail_audit empty_audit (issue_of Too_many_blocks [] None)
      else audit_blocks continuity empty_audit None blocks)"

section \<open>What a complete audit means\<close>

definition contiguous :: "audio_chunk \<Rightarrow> audio_chunk \<Rightarrow> bool" where
  "contiguous p c \<longleftrightarrow> sr_begin (ac_range c) = sr_end (ac_range p)"

definition follows :: "continuity \<Rightarrow> stored_block \<Rightarrow> stored_block \<Rightarrow> bool" where
  "follows continuity b b' \<longleftrightarrow>
     sb_sequence b \<noteq> - 1 \<and> sb_sequence b' = sb_sequence b + 1 \<and>
     (let p = sb_chunk b; c = sb_chunk b' in
      ac_run c = ac_run p \<and> ac_capture_point c = ac_capture_point p \<and> same_format (ac_format c) (ac_format p) \<and>
      sr_timeline (ac_range c) = sr_timeline (ac_range p) \<and> sr_rate (ac_range c) = sr_rate (ac_range p) \<and>
      (contiguous p c \<and> (continuity = Single_interval \<or> ac_segment p = ac_segment c) \<or>
       continuity = Per_segment \<and> ac_segment p < ac_segment c))"

definition clear_effect :: "audio_chunk \<Rightarrow> discontinuity \<Rightarrow> bool" where
  "clear_effect c d \<longleftrightarrow> effect_issue [] c d = None"

lemma effect_issue_path: "effect_issue path c d = None \<longleftrightarrow> clear_effect c d"
  by (simp add: clear_effect_def effect_issue_def split: option.splits)

lemma audit_effects_result:
  "snd (audit_effects path c a ds) \<longleftrightarrow> list_all (clear_effect c) ds"
  "\<not> snd (audit_effects path c a ds) \<Longrightarrow> aa_result (fst (audit_effects path c a ds)) = Evidence_incomplete"
  "aa_segments (fst (audit_effects path c a ds)) = aa_segments a"
  by (induction ds arbitrary: a)
     (auto simp: fail_audit_def effect_issue_path [of path c, symmetric] split: option.splits)

lemma join_follows:
  "join_pcm p c continuity = Join_continues \<or> join_pcm p c continuity = Join_starts_segment \<longleftrightarrow>
     contiguous p c \<and> (continuity = Single_interval \<or> ac_segment p = ac_segment c) \<or>
     continuity = Per_segment \<and> ac_segment p < ac_segment c"
  by (cases continuity) (auto simp: join_pcm_def contiguous_def)

lemma next_sequence: "(if p = - 1 then 0 else p + 1) = (p + 1 :: u64)"
  by simp

lemma issues_follow:
  "sequence_issue (Some (sb_sequence b)) path b' = None \<and>
   chunk_issue (Some (sb_chunk b)) path' continuity (sb_chunk b') = None \<longleftrightarrow> follows continuity b b'"
proof -
  have "sequence_issue (Some (sb_sequence b)) path b' = None \<longleftrightarrow>
      sb_sequence b \<noteq> - 1 \<and> sb_sequence b' = sb_sequence b + 1"
    by (simp add: sequence_issue_def Let_def next_sequence eq_neg_iff_add_eq_0)
  moreover have "chunk_issue (Some (sb_chunk b)) path' continuity (sb_chunk b') = None \<longleftrightarrow>
      ac_run (sb_chunk b') = ac_run (sb_chunk b) \<and> ac_capture_point (sb_chunk b') = ac_capture_point (sb_chunk b) \<and>
      same_format (ac_format (sb_chunk b')) (ac_format (sb_chunk b)) \<and>
      sr_timeline (ac_range (sb_chunk b')) = sr_timeline (ac_range (sb_chunk b)) \<and>
      sr_rate (ac_range (sb_chunk b')) = sr_rate (ac_range (sb_chunk b)) \<and>
      (join_pcm (sb_chunk b) (sb_chunk b') continuity = Join_continues \<or>
       join_pcm (sb_chunk b) (sb_chunk b') continuity = Join_starts_segment)"
    by (auto simp: chunk_issue_def split: pcm_join.splits)
  ultimately show ?thesis
    unfolding follows_def Let_def join_follows by (simp only: conj_assoc)
qed

fun linked :: "continuity \<Rightarrow> stored_block option \<Rightarrow> stored_block list \<Rightarrow> bool" where
  "linked continuity None bs = successively (follows continuity) bs"
| "linked continuity (Some p) bs = successively (follows continuity) (p # bs)"

definition effects_clear :: "stored_block \<Rightarrow> bool" where
  "effects_clear b \<longleftrightarrow> list_all (clear_effect (sb_chunk b)) (ac_discontinuities (sb_chunk b))"

lemma linked_Cons:
  "linked continuity previous (b # bs) \<longleftrightarrow>
     sequence_issue (map_option sb_sequence previous) path b = None \<and>
     chunk_issue (map_option sb_chunk previous) path continuity (sb_chunk b) = None \<and>
     linked continuity (Some b) bs"
proof (cases previous)
  case None
  then show ?thesis by (simp add: sequence_issue_def chunk_issue_def)
next
  case (Some p)
  then show ?thesis
    unfolding Some option.map linked.simps successively.simps
    by (simp only: issues_follow conj_assoc [symmetric])
qed

lemma audit_blocks_complete:
  "aa_result (audit_blocks continuity a previous blocks) = Evidence_complete \<longleftrightarrow>
     (\<exists>bs. map snd blocks = map Inr bs \<and> linked continuity previous bs \<and> list_all effects_clear bs)"
proof (induction continuity a previous blocks rule: audit_blocks.induct)
  case (1 continuity a previous)
  then show ?case by (cases previous) simp_all
next
  case (2 continuity a previous path e rest)
  then show ?case by (auto simp: fail_audit_def)
next
  case (3 continuity a previous path b rest)
  show ?case
  proof (cases "sequence_issue (map_option sb_sequence previous) path b = None \<and>
      chunk_issue (map_option sb_chunk previous) path continuity (sb_chunk b) = None \<and> effects_clear b")
    case True
    then obtain a' where "audit_effects path (sb_chunk b) a (ac_discontinuities (sb_chunk b)) = (a', True)"
      by (cases "audit_effects path (sb_chunk b) a (ac_discontinuities (sb_chunk b))")
         (use audit_effects_result(1) [of path "sb_chunk b" a "ac_discontinuities (sb_chunk b)"]
            in \<open>simp add: effects_clear_def\<close>)
    with 3 True show ?thesis
      by (auto simp: linked_Cons [of _ _ _ _ path] map_eq_Cons_conv Cons_eq_map_conv)
  next
    case False
    then show ?thesis
      using audit_effects_result(1,2) [of path "sb_chunk b" a "ac_discontinuities (sb_chunk b)"]
      by (auto simp: linked_Cons [of _ _ _ _ path] fail_audit_def effects_clear_def Cons_eq_map_conv
          split: option.splits prod.splits bool.splits)
  qed
qed

lemma audit_blocks_segments:
  assumes "aa_result (audit_blocks continuity a previous blocks) = Evidence_complete"
    and "map snd blocks = map Inr bs"
  shows "aa_segments (audit_blocks continuity a previous blocks) =
    foldl add_to_segments (aa_segments a) (map sb_chunk bs)"
  using assms
proof (induction continuity a previous blocks arbitrary: bs rule: audit_blocks.induct)
  case (3 continuity a previous path b rest)
  then show ?case
    using audit_effects_result(2,3) [of path "sb_chunk b" a "ac_discontinuities (sb_chunk b)"]
    by (auto simp: fail_audit_def Cons_eq_map_conv split: option.splits prod.splits bool.splits)
qed (auto simp: fail_audit_def)

section \<open>The intervals of the segments\<close>

text \<open>The interval of the blocks of one segment: from the begin of the first to the end of the last.\<close>

definition interval_of :: "audio_chunk list \<Rightarrow> segment_interval" where
  "interval_of g =
     \<lparr>si_segment = ac_segment (hd g),
      si_samples = (ac_range (hd g))\<lparr>sr_end := sr_end (ac_range (last g))\<rparr>, si_blocks = length g\<rparr>"

definition one_segment :: "audio_chunk list \<Rightarrow> bool" where
  "one_segment g \<longleftrightarrow> g \<noteq> [] \<and> ac_segment ` set g = {ac_segment (hd g)}"

lemma one_segmentD: "one_segment g \<Longrightarrow> p \<in> set g \<Longrightarrow> c \<in> set g \<Longrightarrow> ac_segment p = ac_segment c"
  unfolding one_segment_def by (metis imageI singletonD)

lemma one_segment_single: "one_segment [c]"
  by (simp add: one_segment_def)

lemma one_segment_snoc: "one_segment g \<Longrightarrow> ac_segment (hd g) = ac_segment c \<Longrightarrow> one_segment (g @ [c])"
  by (simp add: one_segment_def)

lemma interval_of_snoc:
  assumes "g \<noteq> []"
  shows "interval_of (g @ [c]) =
    (interval_of g)\<lparr>si_samples := (si_samples (interval_of g))\<lparr>sr_end := sr_end (ac_range c)\<rparr>,
                   si_blocks := si_blocks (interval_of g) + 1\<rparr>"
  using assms by (simp add: interval_of_def)

lemma segment_interval_of [simp]: "si_segment (interval_of g) = ac_segment (hd g)"
  by (simp add: interval_of_def)

text \<open>The blocks fall into groups of adjacent blocks of one segment, one interval each.\<close>

definition grouped :: "audio_chunk list \<Rightarrow> audio_chunk list list \<Rightarrow> bool" where
  "grouped cs gs \<longleftrightarrow>
     concat gs = cs \<and> (\<forall>g \<in> set gs. one_segment g) \<and>
     successively (\<lambda>g h. ac_segment (hd g) \<noteq> ac_segment (hd h)) gs"

lemma grouped_segments:
  "\<exists>gs. grouped cs gs \<and> foldl add_to_segments [] cs = map interval_of gs"
proof (induction cs rule: rev_induct)
  case Nil
  show ?case by (rule exI [of _ "[]"]) (simp add: grouped_def)
next
  case (snoc c cs)
  from snoc.IH obtain gs where gs: "grouped cs gs" and ss: "foldl add_to_segments [] cs = map interval_of gs"
    by (elim exE conjE)
  show ?case
  proof (cases "gs = [] \<or> ac_segment (hd (last gs)) \<noteq> ac_segment c")
    case True
    then have "add_to_segments (map interval_of gs) c = map interval_of (gs @ [[c]])"
      by (auto simp: add_to_segments_def interval_of_def last_map Let_def)
    moreover have "grouped (cs @ [c]) (gs @ [[c]])"
      using gs True by (auto simp: grouped_def one_segment_single successively_append_iff)
    ultimately show ?thesis using ss by (intro exI [of _ "gs @ [[c]]"]) simp
  next
    case False
    then obtain hs g where hs: "gs = hs @ [g]" by (cases gs rule: rev_cases) auto
    with gs have g: "g \<noteq> []" "one_segment g" by (auto simp: grouped_def one_segment_def)
    from False hs have "ac_segment (hd g) = ac_segment c" by simp
    then have "add_to_segments (map interval_of gs) c = map interval_of (hs @ [g @ [c]])"
      using interval_of_snoc [OF g(1), of c]
      by (simp add: hs add_to_segments_def Let_def segment_interval_of)
    moreover have "grouped (cs @ [c]) (hs @ [g @ [c]])"
      using gs g \<open>ac_segment (hd g) = ac_segment c\<close>
      by (auto simp: hs grouped_def one_segment_snoc successively_append_iff)
    ultimately show ?thesis using ss by (intro exI [of _ "hs @ [g @ [c]]"]) simp
  qed
qed

lemma one_segment_contiguous:
  assumes "one_segment g" and "successively (\<lambda>p c. ac_segment p = ac_segment c \<longrightarrow> contiguous p c) g"
  shows "successively contiguous g"
proof -
  have "successively (\<lambda>p c. ac_segment p = ac_segment c \<longrightarrow> contiguous p c) g = successively contiguous g"
  proof (rule successively_cong)
    show "(ac_segment p = ac_segment c \<longrightarrow> contiguous p c) = contiguous p c" if "p \<in> set g" "c \<in> set g" for p c
      using one_segmentD [OF assms(1) that] by simp
  qed simp
  with assms(2) show ?thesis by simp
qed

lemma successively_concat:
  "successively P (concat gs) \<Longrightarrow> g \<in> set gs \<Longrightarrow> successively P g"
  by (auto simp: successively_append_iff dest!: split_list)


end
