(* ===== verification/Fact_Integrity.thy ===== *)
theory Fact_Integrity
  imports Audio_Integrity
begin

text \<open>
  The audit of the facts of a run: \<^verbatim>\<open>tools/audio_qa/fact_integrity.{h,cpp}\<close>. Reading a fragment back from
  its file (\<^verbatim>\<open>read_fact_fragment\<close>) is an answer of the store, given with the path. The hash tables are
  maps; the order in which the code walks the table of shared states is not specified by the language
  and is an argument.
\<close>

unbundle bit_operations_syntax

section \<open>Equality of facts\<close>

text \<open>Facts are compared member by member, doubles as numbers: the two zeros are equal.\<close>

definition is_nan :: "u64 \<Rightarrow> bool" where
  "is_nan bits \<longleftrightarrow> \<not> finite_double bits \<and> bits AND 0xFFFFFFFFFFFFF \<noteq> 0"

definition double_equal :: "u64 \<Rightarrow> u64 \<Rightarrow> bool" where
  "double_equal a b \<longleftrightarrow>
     \<not> is_nan a \<and> \<not> is_nan b \<and> (a = b \<or> push_bit 1 a = 0 \<and> push_bit 1 b = 0)"

fun content_equal :: "field_content \<Rightarrow> field_content \<Rightarrow> bool" where
  "content_equal (Content_double a) (Content_double b) = double_equal a b"
| "content_equal a b = (a = b)"

definition field_equal :: "fact_field \<Rightarrow> fact_field \<Rightarrow> bool" where
  "field_equal a b \<longleftrightarrow>
     a\<lparr>ff_value := Content_none\<rparr> = b\<lparr>ff_value := Content_none\<rparr> \<and> content_equal (ff_value a) (ff_value b)"

definition fact_equal :: "qa_fact \<Rightarrow> qa_fact \<Rightarrow> bool" where
  "fact_equal f g \<longleftrightarrow>
     f\<lparr>ft_fields := []\<rparr> = g\<lparr>ft_fields := []\<rparr> \<and> list_all2 field_equal (ft_fields f) (ft_fields g)"

section \<open>The audit\<close>

datatype fragment_store_error =
  Fragment_invalid_sequence | Fragment_invalid_facts | Fragment_document_too_large | Fragment_already_exists
  | Fragment_io_error | Fragment_malformed_header | Fragment_incompatible_version | Fragment_length_mismatch
  | Fragment_sequence_mismatch | Fragment_hash_mismatch | Fragment_count_mismatch | Fragment_invalid_content

record stored_fragment =
  sf_sequence :: u64
  sf_facts :: "qa_fact list"

datatype fact_issue_kind =
  Empty_segment | Too_many_fragments | Fragment_unreadable | Fragment_sequence_discontinuity
  | Producer_sequence_discontinuity | Conflicting_fact_id | Unresolved_internal_cause
  | Shared_state_order_discontinuity

record fact_issue =
  fi_kind :: fact_issue_kind
  fi_fragment :: string
  fi_fact :: "fact_id option"
  fi_related :: "fact_id option"
  fi_expected :: u64
  fi_observed :: u64
  fi_error :: "fragment_store_error option"
  fi_state :: string

record fact_audit =
  fa_result :: evidence_result
  fa_fragments :: nat
  fa_unique :: nat
  fa_duplicates :: nat
  fa_resolved :: nat
  fa_unresolved :: nat
  fa_independent :: nat
  fa_orders :: nat
  fa_issue :: "fact_issue option"

definition fact_issue_of :: "fact_issue_kind \<Rightarrow> string \<Rightarrow> fact_issue" where
  "fact_issue_of k path =
     \<lparr>fi_kind = k, fi_fragment = path, fi_fact = None, fi_related = None, fi_expected = 0, fi_observed = 0,
      fi_error = None, fi_state = []\<rparr>"

definition fail_facts :: "fact_audit \<Rightarrow> fact_issue \<Rightarrow> fact_audit" where
  "fail_facts a issue =
     a\<lparr>fa_result := Evidence_incomplete,
       fa_issue := (if fa_issue a = None then Some issue else fa_issue a)\<rparr>"

definition empty_fact_audit :: fact_audit where
  "empty_fact_audit =
     \<lparr>fa_result = Evidence_incomplete, fa_fragments = 0, fa_unique = 0, fa_duplicates = 0, fa_resolved = 0,
      fa_unresolved = 0, fa_independent = 0, fa_orders = 0, fa_issue = None\<rparr>"

text \<open>The number expected after another; 0 says that there is none.\<close>

definition expected_next :: "u64 \<Rightarrow> u64" where
  "expected_next n = (if n = - 1 then 0 else n + 1)"

definition producer_of :: "fact_id \<Rightarrow> string \<times> string" where
  "producer_of i = (id_run i, id_producer i)"

record reopened =
  ro_audit :: fact_audit
  ro_facts :: "qa_fact list"
  ro_producers :: "string \<times> string \<rightharpoonup> u64"

definition find_fact :: "qa_fact list \<Rightarrow> fact_id \<Rightarrow> qa_fact option" where
  "find_fact fs i = List.find (\<lambda>f. ft_id f = i) fs"

definition record_fact :: "string \<Rightarrow> reopened \<Rightarrow> qa_fact \<Rightarrow> reopened" where
  "record_fact path r f =
     (let a = ro_audit r; expected = map_option expected_next (ro_producers r (producer_of (ft_id f)));
          a' = (case expected of
                  None \<Rightarrow> a
                | Some n \<Rightarrow>
                    if n = 0 \<or> id_sequence (ft_id f) \<noteq> n
                    then fail_facts a
                           ((fact_issue_of Producer_sequence_discontinuity path)
                              \<lparr>fi_fact := Some (ft_id f), fi_expected := n, fi_observed := id_sequence (ft_id f)\<rparr>)
                    else a)
      in \<lparr>ro_audit = a'\<lparr>fa_unique := fa_unique a' + 1\<rparr>, ro_facts = ro_facts r @ [f],
          ro_producers = (ro_producers r)(producer_of (ft_id f) \<mapsto> id_sequence (ft_id f))\<rparr>)"

fun audit_fragment_facts :: "string \<Rightarrow> reopened \<Rightarrow> qa_fact list \<Rightarrow> reopened \<times> bool" where
  "audit_fragment_facts path r [] = (r, True)"
| "audit_fragment_facts path r (f # fs) =
     (case find_fact (ro_facts r) (ft_id f) of
        None \<Rightarrow> audit_fragment_facts path (record_fact path r f) fs
      | Some g \<Rightarrow>
          if fact_equal g f
          then audit_fragment_facts path
                 (r\<lparr>ro_audit := (ro_audit r)\<lparr>fa_duplicates := fa_duplicates (ro_audit r) + 1\<rparr>\<rparr>) fs
          else (r\<lparr>ro_audit := fail_facts (ro_audit r)
                   ((fact_issue_of Conflicting_fact_id path)
                      \<lparr>fi_fact := Some (ft_id f), fi_expected := id_sequence (ft_id f),
                       fi_observed := id_sequence (ft_id f)\<rparr>)\<rparr>, False))"

fun audit_fragments ::
    "reopened \<Rightarrow> u64 option \<Rightarrow> (string \<times> (fragment_store_error + stored_fragment)) list \<Rightarrow> reopened \<times> bool" where
  "audit_fragments r previous [] = (r, True)"
| "audit_fragments r previous ((path, Inl e) # rest) =
     (r\<lparr>ro_audit := fail_facts (ro_audit r) ((fact_issue_of Fragment_unreadable path)\<lparr>fi_error := Some e\<rparr>)\<rparr>, False)"
| "audit_fragments r previous ((path, Inr fragment) # rest) =
     (let expected = map_option expected_next previous in
      if expected \<noteq> None \<and> (expected = Some 0 \<or> expected \<noteq> Some (sf_sequence fragment))
      then (r\<lparr>ro_audit := fail_facts (ro_audit r)
               ((fact_issue_of Fragment_sequence_discontinuity path)
                  \<lparr>fi_expected := the expected, fi_observed := sf_sequence fragment\<rparr>)\<rparr>, False)
      else
        (case audit_fragment_facts path r (sf_facts fragment) of
           (r', False) \<Rightarrow> (r', False)
         | (r', True) \<Rightarrow>
             audit_fragments
               (r'\<lparr>ro_audit := (ro_audit r')\<lparr>fa_fragments := fa_fragments (ro_audit r') + 1\<rparr>\<rparr>)
               (Some (sf_sequence fragment)) rest))"

definition audit_cause :: "qa_fact list \<Rightarrow> qa_fact \<Rightarrow> fact_audit \<Rightarrow> cause \<Rightarrow> fact_audit" where
  "audit_cause fs f a c =
     (case c of
        Cause_preexisting _ \<Rightarrow> a
      | Cause_fact i \<Rightarrow>
          if find_fact fs i \<noteq> None then a\<lparr>fa_resolved := fa_resolved a + 1\<rparr>
          else fail_facts (a\<lparr>fa_unresolved := fa_unresolved a + 1\<rparr>)
                 ((fact_issue_of Unresolved_internal_cause [])\<lparr>fi_fact := Some (ft_id f), fi_related := Some i\<rparr>))"

definition audit_causes :: "qa_fact list \<Rightarrow> fact_audit \<Rightarrow> fact_audit" where
  "audit_causes fs a = foldl (\<lambda>a f. foldl (audit_cause fs f) a (ft_causes f)) a fs"

text \<open>The orders of a shared state, in the order of the facts.\<close>

definition collect_orders ::
    "fact_audit \<times> (string \<times> string \<rightharpoonup> u64 list) \<Rightarrow> qa_fact \<Rightarrow> fact_audit \<times> (string \<times> string \<rightharpoonup> u64 list)" where
  "collect_orders s f =
     (case s of
        (a, orders) \<Rightarrow>
          if fd_availability (ft_order f) = Not_applicable
          then (a\<lparr>fa_independent := fa_independent a + 1\<rparr>, orders)
          else
            (case fd_value (ft_order f) of
               None \<Rightarrow> (a, orders)
             | Some ps \<Rightarrow>
                 foldl (\<lambda>(a, orders) p.
                          (a\<lparr>fa_orders := fa_orders a + 1\<rparr>,
                           orders((id_run (ft_id f), so_state p) \<mapsto>
                             (case orders (id_run (ft_id f), so_state p) of None \<Rightarrow> [] | Some qs \<Rightarrow> qs) @
                             [so_sequence p])))
                   (a, orders) ps))"

fun order_gap :: "u64 list \<Rightarrow> (u64 \<times> u64) option" where
  "order_gap (p # q # qs) =
     (if expected_next p = 0 \<or> q \<noteq> expected_next p then Some (expected_next p, q) else order_gap (q # qs))"
| "order_gap _ = None"

fun audit_orders ::
    "fact_audit \<Rightarrow> (string \<times> string \<rightharpoonup> u64 list) \<Rightarrow> (string \<times> string) list \<Rightarrow> fact_audit \<times> bool" where
  "audit_orders a orders [] = (a, True)"
| "audit_orders a orders (k # ks) =
     (case order_gap (remdups (sort (the (orders k)))) of
        None \<Rightarrow> audit_orders a orders ks
      | Some (expected, q) \<Rightarrow>
          (fail_facts a
             ((fact_issue_of Shared_state_order_discontinuity [])
                \<lparr>fi_expected := expected, fi_observed := q, fi_state := snd k\<rparr>), False))"

text \<open>The states that occur, each once, in the order of the facts.\<close>

definition state_keys :: "qa_fact list \<Rightarrow> (string \<times> string) list" where
  "state_keys fs =
     remdups (concat (map (\<lambda>f.
       if fd_availability (ft_order f) = Not_applicable then []
       else case fd_value (ft_order f) of
         None \<Rightarrow> []
       | Some ps \<Rightarrow> map (\<lambda>p. (id_run (ft_id f), so_state p)) ps) fs))"

definition audit_fact_integrity ::
    "((string \<times> string) list \<Rightarrow> (string \<times> string) list) \<Rightarrow>
     (string \<times> (fragment_store_error + stored_fragment)) list \<Rightarrow> fact_audit \<times> qa_fact list" where
  "audit_fact_integrity walk fragments =
     (if fragments = [] then (fail_facts empty_fact_audit (fact_issue_of Empty_segment []), [])
      else if max_checkpoint_artifacts < length fragments
      then (fail_facts empty_fact_audit (fact_issue_of Too_many_fragments []), [])
      else
        (case audit_fragments \<lparr>ro_audit = empty_fact_audit, ro_facts = [], ro_producers = Map.empty\<rparr> None fragments of
           (r, False) \<Rightarrow> (ro_audit r, [])
         | (r, True) \<Rightarrow>
             (let a = audit_causes (ro_facts r) (ro_audit r) in
              if fa_unresolved a \<noteq> 0 then (a, ro_facts r)
              else
                (case foldl collect_orders (a, Map.empty) (ro_facts r) of
                   (a', orders) \<Rightarrow>
                     (case audit_orders a' orders (walk (state_keys (ro_facts r))) of
                        (a'', False) \<Rightarrow> (a'', ro_facts r)
                      | (a'', True) \<Rightarrow>
                          (if fa_issue a'' = None then a''\<lparr>fa_result := Evidence_complete\<rparr> else a'',
                           ro_facts r))))))"

section \<open>What a complete audit means\<close>

text \<open>The first fact of each identity.\<close>

function first_facts :: "qa_fact list \<Rightarrow> qa_fact list" where
  "first_facts [] = []"
| "first_facts (f # fs) = f # first_facts (filter (\<lambda>g. ft_id g \<noteq> ft_id f) fs)"
  by pat_completeness auto
termination by (relation "measure length") (auto simp: le_imp_less_Suc)

definition agree :: "qa_fact \<Rightarrow> qa_fact \<Rightarrow> bool" where
  "agree f g \<longleftrightarrow> (ft_id f = ft_id g \<longrightarrow> fact_equal f g)"

definition consecutive :: "u64 list \<Rightarrow> bool" where
  "consecutive ns \<longleftrightarrow> successively (\<lambda>n m. n \<noteq> - 1 \<and> m = n + 1) ns"

definition producer_sequence :: "qa_fact list \<Rightarrow> string \<times> string \<Rightarrow> u64 list" where
  "producer_sequence fs k = map (\<lambda>f. id_sequence (ft_id f)) (filter (\<lambda>f. producer_of (ft_id f) = k) fs)"

definition causes_resolved :: "qa_fact list \<Rightarrow> bool" where
  "causes_resolved fs \<longleftrightarrow> (\<forall>f \<in> set fs. \<forall>i. Cause_fact i \<in> set (ft_causes f) \<longrightarrow> i \<in> ft_id ` set fs)"

definition fact_orders :: "qa_fact \<Rightarrow> ((string \<times> string) \<times> u64) list" where
  "fact_orders f =
     (if fd_availability (ft_order f) = Not_applicable then []
      else case fd_value (ft_order f) of
        None \<Rightarrow> []
      | Some ps \<Rightarrow> map (\<lambda>p. ((id_run (ft_id f), so_state p), so_sequence p)) ps)"

definition order_numbers :: "qa_fact list \<Rightarrow> string \<times> string \<Rightarrow> u64 list" where
  "order_numbers fs k = map snd (filter (\<lambda>x. fst x = k) (concat (map fact_orders fs)))"

definition gapless :: "u64 set \<Rightarrow> bool" where
  "gapless ns \<longleftrightarrow> (\<forall>a \<in> ns. \<forall>b \<in> ns. {a..b} \<subseteq> ns)"

definition evidence_intact :: "qa_fact list \<Rightarrow> bool" where
  "evidence_intact received \<longleftrightarrow>
     sorted_wrt agree received \<and>
     (let fs = first_facts received in
      (\<forall>k. consecutive (producer_sequence fs k)) \<and> causes_resolved fs \<and>
      (\<forall>k. gapless (set (order_numbers fs k))))"

subsection \<open>Equality is a partial equivalence\<close>

lemma double_equal_sym: "double_equal a b \<Longrightarrow> double_equal b a"
  by (auto simp: double_equal_def)

lemma double_equal_trans: "double_equal a b \<Longrightarrow> double_equal b c \<Longrightarrow> double_equal a c"
  by (auto simp: double_equal_def)

lemma content_equal_sym: "content_equal a b \<Longrightarrow> content_equal b a"
  by (induction a b rule: content_equal.induct) (auto intro: double_equal_sym)

lemma content_equal_double: "content_equal (Content_double x) b \<Longrightarrow> \<exists>y. b = Content_double y \<and> double_equal x y"
  by (cases b) auto

lemma content_equal_trans: "content_equal a b \<Longrightarrow> content_equal b c \<Longrightarrow> content_equal a c"
  by (cases a; cases b; cases c) (auto intro: double_equal_trans)

lemma field_equal_sym: "field_equal a b \<Longrightarrow> field_equal b a"
  by (simp add: field_equal_def content_equal_sym)

lemma field_equal_trans: "field_equal a b \<Longrightarrow> field_equal b c \<Longrightarrow> field_equal a c"
  unfolding field_equal_def by (metis content_equal_trans)

lemma fact_equal_sym: "fact_equal f g \<Longrightarrow> fact_equal g f"
  by (auto simp: fact_equal_def list_all2_conv_all_nth intro: field_equal_sym)

lemma fact_equal_trans: "fact_equal f g \<Longrightarrow> fact_equal g h \<Longrightarrow> fact_equal f h"
  by (auto simp: fact_equal_def list_all2_conv_all_nth) (metis field_equal_trans)

lemma agree_anywhere:
  assumes "sorted_wrt agree fs" and "g \<in> set fs" and "h \<in> set fs" and "g \<noteq> h"
  shows "agree g h"
  using assms
proof (induction fs)
  case (Cons f fs)
  then show ?case by (auto simp: agree_def intro: fact_equal_sym)
qed simp

subsection \<open>First facts\<close>

lemma first_facts_ids: "ft_id ` set (first_facts fs) = ft_id ` set fs"
proof (induction fs rule: first_facts.induct)
  case (2 f fs)
  then show ?case by auto
qed simp

lemma first_facts_subset: "set (first_facts fs) \<subseteq> set fs"
  by (induction fs rule: first_facts.induct) auto

lemma first_facts_snoc:
  "first_facts (fs @ [f]) = first_facts fs @ (if ft_id f \<in> ft_id ` set fs then [] else [f])"
  by (induction fs rule: first_facts.induct) auto

lemma find_fact_None: "find_fact fs i = None \<longleftrightarrow> i \<notin> ft_id ` set fs"
  by (auto simp: find_fact_def find_None_iff)

lemma find_fact_Some: "find_fact fs i = Some g \<Longrightarrow> g \<in> set fs \<and> ft_id g = i"
  by (auto simp: find_fact_def dest: find_SomeD)

lemma expected_next_iff: "expected_next n = 0 \<or> m \<noteq> expected_next n \<longleftrightarrow> \<not> (n \<noteq> - 1 \<and> m = n + 1)"
  by (simp add: expected_next_def eq_neg_iff_add_eq_0)

lemma consecutive_snoc:
  "consecutive (ns @ [m]) \<longleftrightarrow> consecutive ns \<and> (ns = [] \<or> last ns \<noteq> - 1 \<and> m = last ns + 1)"
  by (auto simp: consecutive_def successively_append_iff)

subsection \<open>Reading the fragments\<close>

text \<open>What the audit knows after the facts \<open>received\<close>.\<close>

definition knows :: "qa_fact list \<Rightarrow> reopened \<Rightarrow> bool" where
  "knows received r \<longleftrightarrow>
     sorted_wrt agree received \<and> ro_facts r = first_facts received \<and>
     (\<forall>k. ro_producers r k =
        (let ns = producer_sequence (first_facts received) k in if ns = [] then None else Some (last ns))) \<and>
     fa_result (ro_audit r) = Evidence_incomplete \<and> fa_unresolved (ro_audit r) = 0 \<and>
     (fa_issue (ro_audit r) = None \<longleftrightarrow> (\<forall>k. consecutive (producer_sequence (first_facts received) k)))"

lemma knows_producers:
  "knows received r \<Longrightarrow> ro_producers r k =
    (let ns = producer_sequence (first_facts received) k in if ns = [] then None else Some (last ns))"
  by (simp only: knows_def)

lemma producer_sequence_snoc:
  "producer_sequence (fs @ [f]) k =
    producer_sequence fs k @ (if producer_of (ft_id f) = k then [id_sequence (ft_id f)] else [])"
  by (simp add: producer_sequence_def)

lemma knows_new:
  assumes "knows received r" and "ft_id f \<notin> ft_id ` set received"
  shows "knows (received @ [f]) (record_fact path r f)"
proof -
  let ?k = "producer_of (ft_id f)" and ?ns = "producer_sequence (first_facts received)"
  have firsts: "first_facts (received @ [f]) = first_facts received @ [f]"
    using assms(2) by (simp add: first_facts_snoc)
  have "\<forall>x \<in> set received. agree x f"
    using assms(2) unfolding agree_def by (metis imageI)
  with assms(1) have agrees: "sorted_wrt agree (received @ [f])"
    by (simp add: knows_def sorted_wrt_append)
  have next_ok: "(\<forall>k. consecutive (producer_sequence (first_facts received @ [f]) k)) \<longleftrightarrow>
      (\<forall>k. consecutive (?ns k)) \<and>
      (?ns ?k = [] \<or> last (?ns ?k) \<noteq> - 1 \<and> id_sequence (ft_id f) = last (?ns ?k) + 1)"
  proof -
    have "consecutive (producer_sequence (first_facts received @ [f]) k) \<longleftrightarrow>
        consecutive (?ns k) \<and> (?k = k \<longrightarrow> ?ns k = [] \<or> last (?ns k) \<noteq> - 1 \<and> id_sequence (ft_id f) = last (?ns k) + 1)"
      for k
      by (simp add: producer_sequence_snoc consecutive_snoc)
    then show ?thesis by blast
  qed
  have issue: "fa_issue (ro_audit (record_fact path r f)) = None \<longleftrightarrow>
      fa_issue (ro_audit r) = None \<and>
      (?ns ?k = [] \<or> last (?ns ?k) \<noteq> - 1 \<and> id_sequence (ft_id f) = last (?ns ?k) + 1)"
  proof -
    have producers: "ro_producers r ?k = (if ?ns ?k = [] then None else Some (last (?ns ?k)))"
      by (simp add: knows_producers [OF assms(1)] Let_def)
    show ?thesis
    proof (cases "?ns ?k = []")
      case True
      with producers show ?thesis by (simp add: record_fact_def Let_def)
    next
      case False
      with producers have recorded: "ro_audit (record_fact path r f) =
          (let a' = (if expected_next (last (?ns ?k)) = 0 \<or> id_sequence (ft_id f) \<noteq> expected_next (last (?ns ?k))
                     then fail_facts (ro_audit r)
                       ((fact_issue_of Producer_sequence_discontinuity path)
                          \<lparr>fi_fact := Some (ft_id f), fi_expected := expected_next (last (?ns ?k)),
                           fi_observed := id_sequence (ft_id f)\<rparr>)
                     else ro_audit r)
           in a'\<lparr>fa_unique := fa_unique a' + 1\<rparr>)"
        by (simp add: record_fact_def Let_def)
      from False show ?thesis
        unfolding recorded expected_next_iff by (simp add: Let_def fail_facts_def)
    qed
  qed
  have "fa_result (ro_audit (record_fact path r f)) = Evidence_incomplete \<and>
      fa_unresolved (ro_audit (record_fact path r f)) = 0"
    using assms(1) by (auto simp: knows_def record_fact_def Let_def fail_facts_def split: option.split)
  moreover have "ro_facts (record_fact path r f) = first_facts received @ [f]"
    using assms(1) by (simp add: knows_def record_fact_def Let_def)
  moreover have "ro_producers (record_fact path r f) k =
      (let ns = producer_sequence (first_facts received @ [f]) k in if ns = [] then None else Some (last ns))" for k
    by (simp add: record_fact_def Let_def producer_sequence_snoc knows_producers [OF assms(1)])
  moreover have "fa_issue (ro_audit r) = None \<longleftrightarrow> (\<forall>k. consecutive (?ns k))"
    using assms(1) by (simp add: knows_def)
  ultimately show ?thesis
    unfolding knows_def firsts next_ok issue using agrees by blast
qed

lemma knows_duplicate:
  assumes "knows received r" and "g \<in> set received" and "ft_id g = ft_id f" and "fact_equal g f"
  shows "knows (received @ [f])
    (r\<lparr>ro_audit := (ro_audit r)\<lparr>fa_duplicates := fa_duplicates (ro_audit r) + 1\<rparr>\<rparr>)"
proof -
  have "agree h f" if h: "h \<in> set received" for h
  proof (cases "h = g")
    case False
    with assms h have "agree h g" by (auto simp: knows_def intro: agree_anywhere)
    with assms(3,4) show ?thesis by (auto simp: agree_def intro: fact_equal_trans)
  qed (use assms in \<open>simp add: agree_def\<close>)
  moreover have "ft_id f \<in> ft_id ` set received" using assms(2,3) by (metis imageI)
  ultimately show ?thesis
    using assms(1) by (auto simp: knows_def sorted_wrt_append first_facts_snoc)
qed

lemma audit_fragment_facts_knows:
  assumes "knows received r" and "audit_fragment_facts path r fs = (r', ok)"
  shows "(ok \<longleftrightarrow> sorted_wrt agree (received @ fs)) \<and> (ok \<longrightarrow> knows (received @ fs) r') \<and>
    fa_result (ro_audit r') = Evidence_incomplete"
  using assms
proof (induction fs arbitrary: received r)
  case Nil
  then show ?case by (auto simp: knows_def)
next
  case (Cons f fs)
  have firsts: "ro_facts r = first_facts received" using Cons.prems(1) by (simp add: knows_def)
  show ?case
  proof (cases "find_fact (ro_facts r) (ft_id f)")
    case None
    then have "ft_id f \<notin> ft_id ` set received"
      by (simp add: firsts find_fact_None first_facts_ids)
    from Cons.IH [OF knows_new [OF Cons.prems(1) this, of path]] Cons.prems(2) None show ?thesis by simp
  next
    case (Some g)
    then have g: "g \<in> set received" "ft_id g = ft_id f"
      using find_fact_Some first_facts_subset firsts by fastforce+
    show ?thesis
    proof (cases "fact_equal g f")
      case True
      from Cons.IH [OF knows_duplicate [OF Cons.prems(1) g True]] Cons.prems(2) Some True show ?thesis by simp
    next
      case False
      with g have "\<not> sorted_wrt agree (received @ f # fs)"
        by (auto simp: sorted_wrt_append agree_def)
      with Cons.prems(2) Some False show ?thesis by (auto simp: fail_facts_def)
    qed
  qed
qed

lemma expected_some:
  "(expected_next n = 0 \<or> Some (expected_next n) \<noteq> Some m) \<longleftrightarrow> \<not> (n \<noteq> - 1 \<and> m = n + 1)"
  using expected_next_iff [of n m] by auto

definition fragments_linked :: "u64 option \<Rightarrow> stored_fragment list \<Rightarrow> bool" where
  "fragments_linked previous fs =
     consecutive ((case previous of None \<Rightarrow> [] | Some n \<Rightarrow> [n]) @ map sf_sequence fs)"

lemma fragments_linked_Cons:
  "fragments_linked previous (f # fs) \<longleftrightarrow>
     (case previous of None \<Rightarrow> True | Some n \<Rightarrow> n \<noteq> - 1 \<and> sf_sequence f = n + 1) \<and>
     fragments_linked (Some (sf_sequence f)) fs"
  by (cases previous) (auto simp: fragments_linked_def consecutive_def)

lemma audit_fragments_knows:
  assumes "knows received r" and "audit_fragments r previous fragments = (r', ok)"
  shows "(ok \<longleftrightarrow> (\<exists>fs. map snd fragments = map Inr fs \<and> fragments_linked previous fs \<and>
      sorted_wrt agree (received @ concat (map sf_facts fs)))) \<and>
    (\<forall>fs. ok \<longrightarrow> map snd fragments = map Inr fs \<longrightarrow> knows (received @ concat (map sf_facts fs)) r') \<and>
    fa_result (ro_audit r') = Evidence_incomplete"
  using assms
proof (induction r previous fragments arbitrary: received rule: audit_fragments.induct)
  case (1 r previous)
  then show ?case
    by (cases previous) (auto simp: fragments_linked_def consecutive_def knows_def)
next
  case (2 r previous path e rest)
  then show ?case by (auto simp: fail_facts_def)
next
  case (3 r previous path fragment rest)
  have split: "(\<exists>fs. map snd ((path, Inr fragment) # rest) = map Inr fs \<and> P fs) \<longleftrightarrow>
      (\<exists>fs. map snd rest = map Inr fs \<and> P (fragment # fs))" for P
    by (auto simp: Cons_eq_map_conv)
  show ?case
  proof (cases "case previous of None \<Rightarrow> True | Some n \<Rightarrow> n \<noteq> - 1 \<and> sf_sequence fragment = n + 1")
    case False
    then obtain n where "previous = Some n" "\<not> (n \<noteq> - 1 \<and> sf_sequence fragment = n + 1)"
      by (auto split: option.splits)
    then have "r' = r\<lparr>ro_audit := fail_facts (ro_audit r)
          ((fact_issue_of Fragment_sequence_discontinuity path)
             \<lparr>fi_expected := expected_next n, fi_observed := sf_sequence fragment\<rparr>)\<rparr> \<and> \<not> ok"
      using 3(3) expected_some [of n "sf_sequence fragment"] by (simp add: Let_def split: if_splits)
    with False show ?thesis
      unfolding split by (simp add: fragments_linked_Cons fail_facts_def)
  next
    case linked: True
    then have linked': "\<not> (map_option expected_next previous \<noteq> None \<and>
        (map_option expected_next previous = Some 0 \<or>
         map_option expected_next previous \<noteq> Some (sf_sequence fragment)))"
      using expected_some by (auto split: option.splits)
    then have unfolded: "audit_fragments r previous ((path, Inr fragment) # rest) =
        (case audit_fragment_facts path r (sf_facts fragment) of
           (r', False) \<Rightarrow> (r', False)
         | (r', True) \<Rightarrow>
             audit_fragments
               (r'\<lparr>ro_audit := (ro_audit r')\<lparr>fa_fragments := fa_fragments (ro_audit r') + 1\<rparr>\<rparr>)
               (Some (sf_sequence fragment)) rest)"
      by (simp only: audit_fragments.simps Let_def if_False)
    obtain r1 ok1 where r1: "audit_fragment_facts path r (sf_facts fragment) = (r1, ok1)" by fastforce
    note one = audit_fragment_facts_knows [OF 3(2) r1]
    show ?thesis
    proof (cases ok1)
      case False
      then have "r' = r1 \<and> \<not> ok" using 3(3) r1 unfolding unfolded by simp
      with one False show ?thesis
        unfolding split by (auto simp: sorted_wrt_append)
    next
      case True
      then have ok1: "ok1 = True" by simp
      let ?r2 = "r1\<lparr>ro_audit := (ro_audit r1)\<lparr>fa_fragments := fa_fragments (ro_audit r1) + 1\<rparr>\<rparr>"
      have known: "knows (received @ sf_facts fragment) ?r2"
        using one True by (simp add: knows_def)
      have rest: "audit_fragments ?r2 (Some (sf_sequence fragment)) rest = (r', ok)"
        using 3(3) r1 True unfolding unfolded by simp
      have IH: "(ok \<longleftrightarrow> (\<exists>fs. map snd rest = map Inr fs \<and>
            fragments_linked (Some (sf_sequence fragment)) fs \<and>
            sorted_wrt agree ((received @ sf_facts fragment) @ concat (map sf_facts fs)))) \<and>
          (\<forall>fs. ok \<longrightarrow> map snd rest = map Inr fs \<longrightarrow>
            knows ((received @ sf_facts fragment) @ concat (map sf_facts fs)) r') \<and>
          fa_result (ro_audit r') = Evidence_incomplete"
        by (rule 3(1) [OF refl linked' r1 [symmetric] ok1 known rest])
      with linked show ?thesis
        unfolding split by (auto simp: fragments_linked_Cons Cons_eq_map_conv)
    qed
  qed
qed

subsection \<open>Causes\<close>

definition resolved :: "qa_fact list \<Rightarrow> cause \<Rightarrow> bool" where
  "resolved fs c \<longleftrightarrow> (\<forall>i. c = Cause_fact i \<longrightarrow> i \<in> ft_id ` set fs)"

lemma audit_cause_simps:
  "resolved fs c \<Longrightarrow> fa_issue (audit_cause fs f a c) = fa_issue a \<and>
    fa_result (audit_cause fs f a c) = fa_result a \<and> fa_unresolved (audit_cause fs f a c) = fa_unresolved a"
  "\<not> resolved fs c \<Longrightarrow> fa_unresolved (audit_cause fs f a c) = fa_unresolved a + 1 \<and>
    fa_result (audit_cause fs f a c) = Evidence_incomplete"
  by (auto simp: audit_cause_def resolved_def fail_facts_def find_fact_None split: cause.split)

lemma audit_causes_of_fact:
  "fa_unresolved (foldl (audit_cause fs f) a cs) = fa_unresolved a + length (filter (\<lambda>c. \<not> resolved fs c) cs) \<and>
   (fa_result a = Evidence_incomplete \<longrightarrow> fa_result (foldl (audit_cause fs f) a cs) = Evidence_incomplete) \<and>
   (list_all (resolved fs) cs \<longrightarrow> fa_issue (foldl (audit_cause fs f) a cs) = fa_issue a)"
proof (induction cs arbitrary: a)
  case (Cons c cs)
  from Cons.IH [of "audit_cause fs f a c"] show ?case
    using audit_cause_simps [of fs c f a] by (cases "resolved fs c") auto
qed simp

lemma audit_causes_of_facts:
  "fa_unresolved (foldl (\<lambda>a f. foldl (audit_cause fs f) a (ft_causes f)) a gs) =
     fa_unresolved a + length (filter (\<lambda>c. \<not> resolved fs c) (concat (map ft_causes gs))) \<and>
   (fa_result a = Evidence_incomplete \<longrightarrow>
     fa_result (foldl (\<lambda>a f. foldl (audit_cause fs f) a (ft_causes f)) a gs) = Evidence_incomplete) \<and>
   (list_all (resolved fs) (concat (map ft_causes gs)) \<longrightarrow>
     fa_issue (foldl (\<lambda>a f. foldl (audit_cause fs f) a (ft_causes f)) a gs) = fa_issue a)"
proof (induction gs arbitrary: a)
  case (Cons g gs)
  from Cons.IH [of "foldl (audit_cause fs g) a (ft_causes g)"] show ?case
    using audit_causes_of_fact [of fs g a "ft_causes g"] by auto
qed simp

lemma causes_resolved_iff: "causes_resolved fs \<longleftrightarrow> list_all (resolved fs) (concat (map ft_causes fs))"
  by (auto simp: causes_resolved_def resolved_def list_all_iff)

lemma audit_causes_exact:
  assumes "fa_unresolved a = 0" and "fa_result a = Evidence_incomplete"
  shows "(fa_unresolved (audit_causes fs a) = 0 \<longleftrightarrow> causes_resolved fs) \<and>
    fa_result (audit_causes fs a) = Evidence_incomplete \<and>
    (causes_resolved fs \<longrightarrow> fa_issue (audit_causes fs a) = fa_issue a)"
  using assms audit_causes_of_facts [of fs a fs] unfolding audit_causes_def causes_resolved_iff
  by (simp add: list_all_iff filter_empty_conv)

subsection \<open>Orders of the shared states\<close>

lemma order_numbers_Cons:
  "order_numbers (f # fs) k = map snd (filter (\<lambda>x. fst x = k) (fact_orders f)) @ order_numbers fs k"
  by (simp add: order_numbers_def)

definition orders_after ::
    "(string \<times> string \<rightharpoonup> u64 list) \<Rightarrow> ((string \<times> string) \<times> u64) list \<Rightarrow> string \<times> string \<Rightarrow> u64 list option" where
  "orders_after orders xs k =
     (let new = map snd (filter (\<lambda>x. fst x = k) xs) in
      if new = [] then orders k else Some ((case orders k of None \<Rightarrow> [] | Some qs \<Rightarrow> qs) @ new))"

lemma orders_after_Nil: "orders_after orders [] = orders"
  by (simp add: orders_after_def fun_eq_iff)

lemma orders_after_Cons:
  "orders_after orders (x # xs) =
    orders_after (orders(fst x \<mapsto> (case orders (fst x) of None \<Rightarrow> [] | Some qs \<Rightarrow> qs) @ [snd x])) xs"
  by (auto simp: orders_after_def fun_eq_iff Let_def split: option.splits)

lemma orders_after_append: "orders_after (orders_after orders xs) ys = orders_after orders (xs @ ys)"
  by (induction xs arbitrary: orders) (simp_all add: orders_after_Nil orders_after_Cons)

lemma collect_orders_one:
  "\<exists>a'. collect_orders (a, orders) f = (a', orders_after orders (fact_orders f)) \<and>
     fa_issue a' = fa_issue a \<and> fa_result a' = fa_result a"
proof -
  have "\<exists>a'. foldl (\<lambda>(a, orders) p.
            (a\<lparr>fa_orders := fa_orders a + 1\<rparr>,
             orders((id_run (ft_id f), so_state p) \<mapsto>
               (case orders (id_run (ft_id f), so_state p) of None \<Rightarrow> [] | Some qs \<Rightarrow> qs) @ [so_sequence p])))
          (a, orders) ps =
        (a', orders_after orders (map (\<lambda>p. ((id_run (ft_id f), so_state p), so_sequence p)) ps)) \<and>
      fa_issue a' = fa_issue a \<and> fa_result a' = fa_result a" for ps
  proof (induction ps arbitrary: a orders)
    case (Cons p ps)
    show ?case
      using Cons.IH [of "a\<lparr>fa_orders := fa_orders a + 1\<rparr>"
          "orders((id_run (ft_id f), so_state p) \<mapsto>
             (case orders (id_run (ft_id f), so_state p) of None \<Rightarrow> [] | Some qs \<Rightarrow> qs) @ [so_sequence p])"]
      by (simp add: orders_after_Cons del: fun_upd_apply)
  qed (simp add: orders_after_Nil)
  then show ?thesis
    by (auto simp: collect_orders_def fact_orders_def orders_after_Nil split: option.split)
qed

lemma collect_orders_all:
  "\<exists>a'. foldl collect_orders (a, orders) fs = (a', orders_after orders (concat (map fact_orders fs))) \<and>
     fa_issue a' = fa_issue a \<and> fa_result a' = fa_result a"
proof (induction fs arbitrary: a orders)
  case (Cons f fs)
  obtain a1 where a1: "collect_orders (a, orders) f = (a1, orders_after orders (fact_orders f))"
      "fa_issue a1 = fa_issue a" "fa_result a1 = fa_result a"
    using collect_orders_one by blast
  from Cons.IH [of a1 "orders_after orders (fact_orders f)"] show ?case
    by (simp add: a1 orders_after_append)
qed (simp add: orders_after_Nil)

lemma order_numbers_Nil: "order_numbers fs k = [] \<longleftrightarrow> k \<notin> fst ` set (concat (map fact_orders fs))"
  unfolding order_numbers_def by (auto simp: filter_empty_conv simp del: set_concat)

lemma state_keys_exact: "set (state_keys fs) = {k. order_numbers fs k \<noteq> []}"
proof -
  have "state_keys fs = remdups (map fst (concat (map fact_orders fs)))"
    by (auto simp: state_keys_def fact_orders_def comp_def map_concat
        intro!: arg_cong [where f = remdups] arg_cong [where f = concat] split: option.split)
  then show ?thesis
    unfolding order_numbers_Nil by (simp del: set_concat)
qed

lemma order_gap_None: "order_gap ns = None \<longleftrightarrow> consecutive ns"
  by (induction ns rule: order_gap.induct)
    (simp_all only: order_gap.simps consecutive_def successively.simps expected_next_iff if_split option.simps, auto)

lemma gapless_Cons:
  assumes "\<And>n. n \<in> insert q ns \<Longrightarrow> (p::u64) < n" and "\<And>n. n \<in> ns \<Longrightarrow> q \<le> n"
  shows "gapless (insert p (insert q ns)) \<longleftrightarrow> p \<noteq> - 1 \<and> q = p + 1 \<and> gapless (insert q ns)"
proof
  assume gapless: "gapless (insert p (insert q ns))"
  have "p < q" by (rule assms(1)) simp
  then have "p \<noteq> - 1" using word_n1_ge [of q] by (auto simp: not_less [symmetric])
  then have "p < p + 1" using inc_le [of p q] \<open>p < q\<close> unat_Suc_of_less [of p q] by (simp add: word_less_nat_alt)
  have "p + 1 \<le> q" by (rule inc_le) (rule \<open>p < q\<close>)
  with \<open>p < p + 1\<close> have "p + 1 \<in> {p..q}" by simp
  with gapless have "p + 1 \<in> insert p (insert q ns)" unfolding gapless_def by blast
  with \<open>p < p + 1\<close> assms(2) have "q \<le> p + 1" by auto
  with \<open>p + 1 \<le> q\<close> have "q = p + 1" by simp
  moreover have "gapless (insert q ns)"
    unfolding gapless_def
  proof (intro ballI subsetI)
    fix a b x
    assume ab: "a \<in> insert q ns" "b \<in> insert q ns" "x \<in> {a..b}"
    with gapless have "x \<in> insert p (insert q ns)" unfolding gapless_def by blast
    moreover have "p < x" using assms(1) [OF ab(1)] ab(3) by (auto intro: less_le_trans)
    ultimately show "x \<in> insert q ns" by auto
  qed
  ultimately show "p \<noteq> - 1 \<and> q = p + 1 \<and> gapless (insert q ns)" using \<open>p \<noteq> - 1\<close> by blast
next
  assume next_one: "p \<noteq> - 1 \<and> q = p + 1 \<and> gapless (insert q ns)"
  show "gapless (insert p (insert q ns))"
    unfolding gapless_def
  proof (intro ballI subsetI)
    fix a b x
    assume ab: "a \<in> insert p (insert q ns)" "b \<in> insert p (insert q ns)" "x \<in> {a..b}"
    show "x \<in> insert p (insert q ns)"
    proof (cases "x = p")
      case False
      have "p \<le> a" using ab(1) assms(1) by (auto intro: less_imp_le)
      with ab(3) have "p \<le> x" by (auto intro: order_trans)
      with False have "p < x" by simp
      then have "q \<le> x" using next_one inc_le by blast
      moreover from \<open>p < x\<close> ab(2,3) have "b \<in> insert q ns" by auto
      moreover have "x \<le> b" using ab(3) by simp
      ultimately show ?thesis using next_one unfolding gapless_def by force
    qed simp
  qed
qed

lemma consecutive_gapless:
  assumes "sorted_wrt (<) ns"
  shows "consecutive ns \<longleftrightarrow> gapless (set ns)"
  using assms
proof (induction ns rule: induct_list012)
  case (3 p q qs)
  have "gapless (insert p (insert q (set qs))) \<longleftrightarrow> p \<noteq> - 1 \<and> q = p + 1 \<and> gapless (insert q (set qs))"
    by (rule gapless_Cons) (use 3(3) in \<open>auto intro: less_imp_le\<close>)
  moreover have "consecutive (q # qs) \<longleftrightarrow> gapless (insert q (set qs))" using 3 by simp
  ultimately show ?case by (simp add: consecutive_def)
qed (auto simp: consecutive_def gapless_def)

lemma order_gap_sorted: "order_gap (remdups (sort ns)) = None \<longleftrightarrow> gapless (set ns)"
  by (simp add: order_gap_None consecutive_gapless strict_sorted_iff)

lemma audit_orders_exact:
  "(snd (audit_orders a orders ks) \<longleftrightarrow> (\<forall>k \<in> set ks. gapless (set (the (orders k))))) \<and>
   (snd (audit_orders a orders ks) \<longrightarrow> fst (audit_orders a orders ks) = a) \<and>
   (fa_result a = Evidence_incomplete \<longrightarrow> fa_result (fst (audit_orders a orders ks)) = Evidence_incomplete)"
proof (induction ks)
  case (Cons k ks)
  then show ?case
    by (cases "order_gap (remdups (sort (the (orders k))))")
      (auto simp: order_gap_sorted [symmetric] fail_facts_def)
qed simp

lemma collected_orders:
  "orders_after Map.empty (concat (map fact_orders fs)) k =
    (if order_numbers fs k = [] then None else Some (order_numbers fs k))"
  by (simp add: orders_after_def order_numbers_def Let_def)

subsection \<open>The result\<close>

lemma fact_orders_audited:
  assumes "set (walk (state_keys fs)) = set (state_keys fs)" and "fa_result a = Evidence_incomplete"
    and "foldl collect_orders (a, Map.empty) fs = (a', orders)"
  shows "(snd (audit_orders a' orders (walk (state_keys fs))) \<longleftrightarrow> (\<forall>k. gapless (set (order_numbers fs k)))) \<and>
    (snd (audit_orders a' orders (walk (state_keys fs))) \<longrightarrow>
      fa_issue (fst (audit_orders a' orders (walk (state_keys fs)))) = fa_issue a) \<and>
    fa_result (fst (audit_orders a' orders (walk (state_keys fs)))) = Evidence_incomplete"
proof -
  from collect_orders_all [of a Map.empty fs] assms(3)
  have orders: "orders = orders_after Map.empty (concat (map fact_orders fs))"
    and a': "fa_issue a' = fa_issue a" "fa_result a' = fa_result a"
    by auto
  have "(\<forall>k \<in> set (walk (state_keys fs)). gapless (set (the (orders k)))) \<longleftrightarrow>
      (\<forall>k. gapless (set (order_numbers fs k)))"
  proof -
    have "gapless (set (the (orders k))) \<longleftrightarrow> gapless (set (order_numbers fs k))" if "order_numbers fs k \<noteq> []" for k
      using that by (simp add: orders collected_orders)
    moreover have "gapless (set (order_numbers fs k))" if "order_numbers fs k = []" for k
      using that by (simp add: gapless_def)
    ultimately show ?thesis
      unfolding assms(1) state_keys_exact by blast
  qed
  with audit_orders_exact [of a' orders "walk (state_keys fs)"] a' assms(2) show ?thesis by simp
qed

lemma audit_knowing:
  assumes "\<And>ks. set (walk ks) = set ks" and "knows received r"
    and "audit_fragments \<lparr>ro_audit = empty_fact_audit, ro_facts = [], ro_producers = Map.empty\<rparr> None fragments = (r, True)"
    and "fragments \<noteq> []" and "length fragments \<le> max_checkpoint_artifacts"
  shows "fa_result (fst (audit_fact_integrity walk fragments)) = Evidence_complete \<longleftrightarrow> evidence_intact received"
proof -
  let ?fs = "ro_facts r" and ?a = "audit_causes (ro_facts r) (ro_audit r)"
  have known: "sorted_wrt agree received" "?fs = first_facts received"
      "fa_result (ro_audit r) = Evidence_incomplete" "fa_unresolved (ro_audit r) = 0"
      "fa_issue (ro_audit r) = None \<longleftrightarrow> (\<forall>k. consecutive (producer_sequence ?fs k))"
    using assms(2) by (simp_all only: knows_def)
  note causes = audit_causes_exact [OF known(4,3), of ?fs]
  obtain a' orders where collected: "foldl collect_orders (?a, Map.empty) ?fs = (a', orders)" by fastforce
  note audited = fact_orders_audited [where walk = walk and fs = ?fs,
      OF assms(1) conjunct1 [OF conjunct2 [OF causes]] collected]
  obtain a'' ok where a'': "audit_orders a' orders (walk (state_keys ?fs)) = (a'', ok)" by fastforce
  have intact: "evidence_intact received \<longleftrightarrow>
      fa_issue (ro_audit r) = None \<and> causes_resolved ?fs \<and> (\<forall>k. gapless (set (order_numbers ?fs k)))"
    using known(1,5) unfolding evidence_intact_def known(2) [symmetric] Let_def by blast
  show ?thesis
  proof (cases "causes_resolved ?fs")
    case False
    with causes intact assms(3-5) show ?thesis
      by (simp add: audit_fact_integrity_def Let_def)
  next
    case True
    with causes assms(3-5) collected a''
    have "fst (audit_fact_integrity walk fragments) =
        (if ok \<and> fa_issue a'' = None then a''\<lparr>fa_result := Evidence_complete\<rparr> else a'')"
      by (cases ok) (simp_all add: audit_fact_integrity_def Let_def)
    with audited causes True intact show ?thesis
      unfolding a'' by auto
  qed
qed

text \<open>A fact of one producer, about one shared state.\<close>

definition audited_fact :: "u64 \<Rightarrow> cause list \<Rightarrow> qa_fact" where
  "audited_fact n causes =
     \<lparr>ft_id = \<lparr>id_run = ''run'', id_producer = ''engine'', id_sequence = n\<rparr>, ft_kind = ''note'',
      ft_frame_index = \<lparr>fd_availability = Not_applicable, fd_value = None, fd_reason = []\<rparr>, ft_causes = causes,
      ft_decision = \<lparr>fd_availability = Not_applicable, fd_value = None, fd_reason = []\<rparr>,
      ft_assignment = \<lparr>fd_availability = Not_applicable, fd_value = None, fd_reason = []\<rparr>,
      ft_occurrence = \<lparr>fd_availability = Not_applicable, fd_value = None, fd_reason = []\<rparr>,
      ft_reason = \<lparr>fd_availability = Not_applicable, fd_value = None, fd_reason = []\<rparr>,
      ft_order = \<lparr>fd_availability = Known, fd_value = Some [\<lparr>so_state = ''voices'', so_sequence = n\<rparr>],
        fd_reason = []\<rparr>,
      ft_fields = []\<rparr>"

text \<open>C12: The evidence of a run is complete exactly when every fragment can be read, the fragments are
  numbered without a gap, no identity stands for two different facts, every producer numbers its facts
  without a gap, every cause inside the run is among the facts and the orders of every shared state have
  no hole.\<close>

theorem fact_audit_exact:
  assumes "\<And>ks. set (walk ks) = set ks"
  shows "fa_result (fst (audit_fact_integrity walk fragments)) = Evidence_complete \<longleftrightarrow>
    (\<exists>fs. map snd fragments = map Inr fs \<and> fs \<noteq> [] \<and> length fs \<le> max_checkpoint_artifacts \<and>
       consecutive (map sf_sequence fs) \<and> evidence_intact (concat (map sf_facts fs)))"
proof (cases "fragments \<noteq> [] \<and> length fragments \<le> max_checkpoint_artifacts")
  case False
  then have "fa_result (fst (audit_fact_integrity walk fragments)) = Evidence_incomplete"
    by (auto simp: audit_fact_integrity_def fail_facts_def)
  moreover have "\<not> (fs \<noteq> [] \<and> length fs \<le> max_checkpoint_artifacts)" if "map snd fragments = map Inr fs" for fs
    using False map_eq_imp_length_eq [OF that] by auto
  ultimately show ?thesis by fastforce
next
  case True
  let ?r0 = "\<lparr>ro_audit = empty_fact_audit, ro_facts = [], ro_producers = Map.empty\<rparr>"
  have start: "knows [] ?r0"
    by (simp add: knows_def empty_fact_audit_def producer_sequence_def consecutive_def)
  obtain r ok where r: "audit_fragments ?r0 None fragments = (r, ok)" by fastforce
  note read = audit_fragments_knows [OF start r]
  have linked: "fragments_linked None fs \<longleftrightarrow> consecutive (map sf_sequence fs)" for fs
    by (simp add: fragments_linked_def)
  have sized: "fs \<noteq> [] \<and> length fs \<le> max_checkpoint_artifacts" if "map snd fragments = map Inr fs" for fs
    using True map_eq_imp_length_eq [OF that] by auto
  show ?thesis
  proof (cases ok)
    case False
    with True r have "fst (audit_fact_integrity walk fragments) = ro_audit r"
      by (simp add: audit_fact_integrity_def)
    with read have "fa_result (fst (audit_fact_integrity walk fragments)) = Evidence_incomplete" by simp
    moreover have "\<not> (map snd fragments = map Inr fs \<and> consecutive (map sf_sequence fs) \<and>
        evidence_intact (concat (map sf_facts fs)))" for fs
      using read False unfolding linked evidence_intact_def append_Nil by blast
    ultimately show ?thesis by fastforce
  next
    case ok: True
    with read obtain fs where fs: "map snd fragments = map Inr fs" "consecutive (map sf_sequence fs)"
        "knows (concat (map sf_facts fs)) r"
      unfolding linked append_Nil by blast
    have "fa_result (fst (audit_fact_integrity walk fragments)) = Evidence_complete \<longleftrightarrow>
        evidence_intact (concat (map sf_facts fs))"
      using True ok r by (intro audit_knowing [OF assms fs(3)]) auto
    moreover have "gs = fs" if "map snd fragments = map Inr gs" for gs
      using that fs(1) by (simp add: inj_map_eq_map)
    ultimately show ?thesis using fs(1,2) sized by blast
  qed
qed

theorem fact_audit_exact_witness:
  "let f = audited_fact 1 []; g = audited_fact 2 [Cause_fact (ft_id f)]
   in fa_result (fst (audit_fact_integrity (\<lambda>ks. ks)
        [(''facts-7'', Inr \<lparr>sf_sequence = 7, sf_facts = [f]\<rparr>),
         (''facts-8'', Inr \<lparr>sf_sequence = 8, sf_facts = [f, g]\<rparr>)])) = Evidence_complete"
proof -
  let ?f = "audited_fact 1 []"
  let ?g = "audited_fact 2 [Cause_fact (ft_id ?f)]"
  let ?fs = "[\<lparr>sf_sequence = 7, sf_facts = [?f]\<rparr>, \<lparr>sf_sequence = 8, sf_facts = [?f, ?g]\<rparr>]"
  have "first_facts [?f, ?f, ?g] = [?f, ?g]" by (simp add: audited_fact_def)
  moreover have "sorted_wrt agree [?f, ?f, ?g]" by (simp add: audited_fact_def agree_def fact_equal_def)
  moreover have "consecutive (producer_sequence [?f, ?g] k)" for k
    by (simp add: audited_fact_def producer_sequence_def consecutive_def)
  moreover have "causes_resolved [?f, ?g]" by (auto simp: audited_fact_def causes_resolved_def)
  moreover have "gapless (set (order_numbers [?f, ?g] k))" for k
  proof -
    have "{1..2::u64} = {1, 2}" by (auto simp: set_eq_iff word_le_nat_alt word_unat_eq_iff)
    then show ?thesis
      by (simp add: audited_fact_def order_numbers_def fact_orders_def gapless_def)
  qed
  ultimately have "evidence_intact (concat (map sf_facts ?fs))"
    by (simp add: evidence_intact_def Let_def)
  then show ?thesis
    unfolding Let_def by (subst fact_audit_exact) (auto intro!: exI [of _ ?fs] simp: consecutive_def max_checkpoint_artifacts_def)
qed

end
