(* ===== verification/Coverage_Model.thy ===== *)
theory Coverage_Model
  imports Evidence_Model
begin

text \<open>
  The coverage of the assignments of a pack and the diagnostics of a run:
  \<^verbatim>\<open>tools/audio_qa/coverage_model.{h,cpp}\<close>. Loops that look up what was seen before are recursions that
  carry it.
\<close>

section \<open>Data\<close>

definition max_reference_materials :: nat where "max_reference_materials = 4096"
definition max_reference_value_bytes :: nat where "max_reference_value_bytes = 4096"

record assignment_id =
  an_pack :: string
  an_ordinal :: u64

datatype load_state = Load_unknown | Load_pending | Load_loaded | Load_rejected

record assignment =
  as_id :: assignment_id
  as_authored :: "string field"
  as_expected :: "bool field"
  as_load_state :: load_state
  as_load_reason :: "string field"
  as_load_fact :: "fact_id field"

datatype extent = Extent_not_observed | Extent_partial | Extent_complete

record stage_observation =
  st_extent :: extent
  st_count :: "u64 field"
  st_fact :: "fact_id field"

record coverage =
  cv_run :: string
  cv_assignment :: assignment_id
  cv_load :: stage_observation
  cv_candidates :: stage_observation
  cv_selections :: stage_observation
  cv_starts :: stage_observation
  cv_advances :: stage_observation
  cv_ends :: stage_observation
  cv_preexisting :: stage_observation

datatype selection_coverage = Selection_unknown | Selection_pending | Selection_selected

datatype stage_coverage = Stage_unknown | Stage_observed_zero | Stage_observed

record stage_summary =
  sy_assignment :: assignment_id
  sy_candidates :: stage_coverage
  sy_selections :: stage_coverage
  sy_starts :: stage_coverage
  sy_advances :: stage_coverage
  sy_ends :: stage_coverage

record report_request =
  rq_run :: string
  rq_extent :: extent
  rq_evidence :: evidence_result

datatype report_status =
  Report_summarized | Report_invalid_request | Report_invalid_inventory | Report_invalid_coverage
  | Report_duplicate_coverage | Report_capacity_exceeded

record coverage_report =
  rp_status :: report_status
  rp_run :: string
  rp_extent :: extent
  rp_evidence :: evidence_result
  rp_observed :: u64
  rp_detected :: "u64 field"
  rp_pending :: "assignment_id list"
  rp_partial :: bool

record provenanced =
  pv_run :: string
  pv_observation :: stage_observation

record aggregated =
  ag_assignment :: assignment_id
  ag_load :: "provenanced list"
  ag_candidates :: "provenanced list"
  ag_selections :: "provenanced list"
  ag_starts :: "provenanced list"
  ag_advances :: "provenanced list"
  ag_ends :: "provenanced list"
  ag_preexisting :: "provenanced list"

datatype aggregation_status =
  Aggregated | Aggregation_invalid_coverage | Aggregation_duplicate | Aggregation_capacity_exceeded

datatype count_source = Fixed_reference | Observed_inventory

record inventory_reference =
  ir_pack :: string
  ir_source :: count_source
  ir_fixed :: "u64 option"
  ir_extent :: extent

datatype inventory_status =
  Inventory_summarized | Inventory_invalid_reference | Inventory_invalid_assignment | Inventory_pack_mismatch
  | Inventory_capacity_exceeded | Inventory_conflicting_duplicate

record inventory_summary =
  iv_status :: inventory_status
  iv_pack :: string
  iv_source :: count_source
  iv_extent :: extent
  iv_observed :: u64
  iv_duplicates :: u64
  iv_count :: "u64 field"
  iv_expected :: "u64 field"
  iv_unknown :: "u64 field"
  iv_pending :: "u64 field"
  iv_loaded :: "u64 field"
  iv_rejected :: "u64 field"
  iv_matches :: "bool field"
  iv_first_problem :: "assignment_id field"

datatype diagnostic_scope =
  Scope_request | Scope_run | Scope_material | Scope_trace | Scope_audio | Scope_storage | Scope_compatibility

datatype diagnostic_severity = Severity_info | Severity_warning | Severity_error

record diagnostic =
  dg_code :: string
  dg_scope :: diagnostic_scope
  dg_severity :: diagnostic_severity
  dg_subject :: string
  dg_stage :: string
  dg_source_fact :: "fact_id field"
  dg_samples :: "sample_range field"
  dg_last_frame :: "u64 field"
  dg_lost_facts :: "u64 field"
  dg_detail :: string

section \<open>Well-formedness\<close>

definition valid_fact_field_ref :: "fact_id field \<Rightarrow> bool" where
  "valid_fact_field_ref f \<longleftrightarrow>
     consistent_availability f \<and> (case fd_value f of None \<Rightarrow> True | Some i \<Rightarrow> valid_fact_id i)"

definition valid_stage :: "stage_observation \<Rightarrow> string \<Rightarrow> bool" where
  "valid_stage s run \<longleftrightarrow>
     consistent_availability (st_count s) \<and> valid_fact_field_ref (st_fact s) \<and>
     (case fd_value (st_fact s) of None \<Rightarrow> True | Some i \<Rightarrow> id_run i = run) \<and>
     (case st_extent s of
        Extent_not_observed \<Rightarrow> fd_value (st_count s) = None
      | Extent_partial \<Rightarrow> True
      | Extent_complete \<Rightarrow> fd_value (st_count s) \<noteq> None \<and> fd_value (st_fact s) \<noteq> None)"

definition well_formed_assignment :: "assignment \<Rightarrow> bool" where
  "well_formed_assignment a \<longleftrightarrow>
     is_identifier (an_pack (as_id a)) \<and> valid_text_field (as_authored a) \<and>
     consistent_availability (as_expected a) \<and> valid_text_field (as_load_reason a) \<and>
     valid_fact_field_ref (as_load_fact a) \<and>
     (as_load_state a \<noteq> Load_rejected \<or> fd_value (as_load_reason a) \<noteq> None)"

definition well_formed_coverage :: "coverage \<Rightarrow> bool" where
  "well_formed_coverage c \<longleftrightarrow>
     is_identifier (cv_run c) \<and> is_identifier (an_pack (cv_assignment c)) \<and>
     valid_stage (cv_load c) (cv_run c) \<and> valid_stage (cv_candidates c) (cv_run c) \<and>
     valid_stage (cv_selections c) (cv_run c) \<and> valid_stage (cv_starts c) (cv_run c) \<and>
     valid_stage (cv_advances c) (cv_run c) \<and> valid_stage (cv_ends c) (cv_run c) \<and>
     valid_stage (cv_preexisting c) (cv_run c)"

definition well_formed_diagnostic :: "diagnostic \<Rightarrow> bool" where
  "well_formed_diagnostic d \<longleftrightarrow>
     is_identifier (dg_code d) \<and> is_identifier (dg_subject d) \<and> is_identifier (dg_stage d) \<and>
     valid_fact_field_ref (dg_source_fact d) \<and> consistent_availability (dg_samples d) \<and>
     (case fd_value (dg_samples d) of None \<Rightarrow> True | Some r \<Rightarrow> well_formed_range r) \<and>
     consistent_availability (dg_last_frame d) \<and> consistent_availability (dg_lost_facts d) \<and>
     length (dg_detail d) \<le> max_reference_value_bytes"

section \<open>The stages of one assignment\<close>

definition observed_some :: "stage_observation \<Rightarrow> bool" where
  "observed_some s \<longleftrightarrow> (case fd_value (st_count s) of None \<Rightarrow> False | Some n \<Rightarrow> 0 < n)"

definition classify :: "stage_observation \<Rightarrow> stage_coverage" where
  "classify s =
     (if observed_some s then Stage_observed
      else if st_extent s = Extent_complete \<and> fd_value (st_count s) \<noteq> None then Stage_observed_zero
      else Stage_unknown)"

definition selection_of :: "coverage \<Rightarrow> selection_coverage" where
  "selection_of c =
     (if \<not> well_formed_coverage c then Selection_unknown
      else if observed_some (cv_selections c) then Selection_selected
      else if st_extent (cv_selections c) = Extent_complete then Selection_pending
      else Selection_unknown)"

definition summarize_stages :: "coverage \<Rightarrow> stage_summary option" where
  "summarize_stages c =
     (if \<not> well_formed_coverage c then None
      else Some \<lparr>sy_assignment = cv_assignment c, sy_candidates = classify (cv_candidates c),
                 sy_selections = classify (cv_selections c), sy_starts = classify (cv_starts c),
                 sy_advances = classify (cv_advances c), sy_ends = classify (cv_ends c)\<rparr>)"

definition detected :: "stage_summary \<Rightarrow> bool" where
  "detected s \<longleftrightarrow>
     sy_candidates s = Stage_observed \<or> sy_selections s = Stage_observed \<or> sy_starts s = Stage_observed \<or>
     sy_advances s = Stage_observed \<or> sy_ends s = Stage_observed"

section \<open>The report of a run\<close>

text \<open>The identities of the inventory, each once; nothing when an assignment is not well formed.\<close>

fun collect_assignments :: "assignment_id list \<Rightarrow> assignment list \<Rightarrow> assignment_id list option" where
  "collect_assignments ids [] = Some ids"
| "collect_assignments ids (a # as) =
     (if \<not> well_formed_assignment a then None
      else collect_assignments (if as_id a \<in> set ids then ids else ids @ [as_id a]) as)"

text \<open>The rows seen and the detected ones among them, or the status that ends the report.\<close>

fun collect_coverage ::
    "string \<Rightarrow> assignment_id list \<Rightarrow> assignment_id list \<Rightarrow> assignment_id list \<Rightarrow> coverage list \<Rightarrow>
     report_status + assignment_id list" where
  "collect_coverage run ids seen covered [] = Inr covered"
| "collect_coverage run ids seen covered (c # cs) =
     (if \<not> well_formed_coverage c \<or> cv_run c \<noteq> run \<or> cv_assignment c \<notin> set ids then Inl Report_invalid_coverage
      else if cv_assignment c \<in> set seen then Inl Report_duplicate_coverage
      else
        (case summarize_stages c of
           None \<Rightarrow> Inl Report_invalid_coverage
         | Some s \<Rightarrow>
             collect_coverage run ids (seen @ [cv_assignment c])
               (if detected s then covered @ [cv_assignment c] else covered) cs))"

definition empty_report :: "report_request \<Rightarrow> coverage_report" where
  "empty_report q =
     \<lparr>rp_status = Report_invalid_request, rp_run = rq_run q, rp_extent = rq_extent q,
      rp_evidence = rq_evidence q, rp_observed = 0, rp_detected = unset_field, rp_pending = [],
      rp_partial = False\<rparr>"

definition summarize_coverage ::
    "report_request \<Rightarrow> assignment list \<Rightarrow> coverage list \<Rightarrow> coverage_report" where
  "summarize_coverage q inventory rows =
     (let report = empty_report q in
      if \<not> is_identifier (rq_run q) \<or> rq_extent q = Extent_not_observed \<and> rows \<noteq> [] then report
      else if max_reference_materials < length inventory \<or> max_reference_materials < length rows
      then report\<lparr>rp_status := Report_capacity_exceeded\<rparr>
      else
        (case collect_assignments [] inventory of
           None \<Rightarrow> report\<lparr>rp_status := Report_invalid_inventory\<rparr>
         | Some ids \<Rightarrow>
             (case collect_coverage (rq_run q) ids [] [] rows of
                Inl status \<Rightarrow> report\<lparr>rp_status := status\<rparr>
              | Inr covered \<Rightarrow>
                  (let observed = of_nat (length covered);
                       pending = filter (\<lambda>i. i \<notin> set covered) ids
                   in report
                        \<lparr>rp_status := Report_summarized, rp_observed := observed,
                         rp_detected :=
                           (if rq_extent q = Extent_complete then known_field observed
                            else unknown_field
                              (if rq_extent q = Extent_partial then ''partial_detection_source''
                               else ''detection_source_not_observed'')),
                         rp_pending := pending, rp_partial := (pending \<noteq> [])\<rparr>))))"

section \<open>Aggregation over runs\<close>

definition empty_aggregated :: "assignment_id \<Rightarrow> aggregated" where
  "empty_aggregated i =
     \<lparr>ag_assignment = i, ag_load = [], ag_candidates = [], ag_selections = [], ag_starts = [],
      ag_advances = [], ag_ends = [], ag_preexisting = []\<rparr>"

definition append_row :: "coverage \<Rightarrow> aggregated \<Rightarrow> aggregated" where
  "append_row c g =
     (let p = (\<lambda>s. [\<lparr>pv_run = cv_run c, pv_observation = s\<rparr>])
      in g\<lparr>ag_load := ag_load g @ p (cv_load c), ag_candidates := ag_candidates g @ p (cv_candidates c),
           ag_selections := ag_selections g @ p (cv_selections c), ag_starts := ag_starts g @ p (cv_starts c),
           ag_advances := ag_advances g @ p (cv_advances c), ag_ends := ag_ends g @ p (cv_ends c),
           ag_preexisting := ag_preexisting g @ p (cv_preexisting c)\<rparr>)"

text \<open>The row is added to the first entry of its assignment, or to a new one at the end.\<close>

fun add_row :: "coverage \<Rightarrow> aggregated list \<Rightarrow> aggregated list" where
  "add_row c [] = [append_row c (empty_aggregated (cv_assignment c))]"
| "add_row c (g # gs) =
     (if ag_assignment g = cv_assignment c then append_row c g # gs else g # add_row c gs)"

fun aggregate_rows ::
    "(string \<times> assignment_id) list \<Rightarrow> aggregated list \<Rightarrow> coverage list \<Rightarrow> aggregation_status \<times> aggregated list" where
  "aggregate_rows seen gs [] = (Aggregated, gs)"
| "aggregate_rows seen gs (c # cs) =
     (if \<not> well_formed_coverage c then (Aggregation_invalid_coverage, [])
      else if (cv_run c, cv_assignment c) \<in> set seen then (Aggregation_duplicate, [])
      else aggregate_rows (seen @ [(cv_run c, cv_assignment c)]) (add_row c gs) cs)"

definition aggregate_coverage :: "coverage list \<Rightarrow> aggregation_status \<times> aggregated list" where
  "aggregate_coverage rows =
     (if max_reference_materials < length rows then (Aggregation_capacity_exceeded, [])
      else aggregate_rows [] [] rows)"

section \<open>The inventory of assignments\<close>

definition empty_summary :: "inventory_reference \<Rightarrow> inventory_summary" where
  "empty_summary ref =
     \<lparr>iv_status = Inventory_invalid_reference, iv_pack = ir_pack ref, iv_source = ir_source ref,
      iv_extent = ir_extent ref, iv_observed = 0, iv_duplicates = 0, iv_count = unset_field,
      iv_expected = unset_field, iv_unknown = unset_field, iv_pending = unset_field, iv_loaded = unset_field,
      iv_rejected = unset_field, iv_matches = unset_field, iv_first_problem = unset_field\<rparr>"

text \<open>The first observation of every assignment, and whether the loop ran to its end.\<close>

fun collect_observations ::
    "string \<Rightarrow> inventory_summary \<Rightarrow> assignment list \<Rightarrow> assignment list \<Rightarrow> inventory_summary \<times> assignment list \<times> bool"
where
  "collect_observations pack summary firsts [] = (summary, firsts, True)"
| "collect_observations pack summary firsts (a # as) =
     (if \<not> well_formed_assignment a
      then (summary\<lparr>iv_status := Inventory_invalid_assignment, iv_first_problem := known_field (as_id a)\<rparr>,
            firsts, False)
      else if an_pack (as_id a) \<noteq> pack
      then (summary\<lparr>iv_status := Inventory_pack_mismatch, iv_first_problem := known_field (as_id a)\<rparr>,
            firsts, False)
      else
        (case List.find (\<lambda>b. as_id b = as_id a) firsts of
           None \<Rightarrow> collect_observations pack summary (firsts @ [a]) as
         | Some b \<Rightarrow>
             (let counted = summary\<lparr>iv_duplicates := iv_duplicates summary + 1\<rparr>
              in collect_observations pack
                   (if b \<noteq> a \<and> iv_status counted \<noteq> Inventory_conflicting_duplicate
                    then counted\<lparr>iv_status := Inventory_conflicting_duplicate,
                                 iv_first_problem := known_field (as_id a)\<rparr>
                    else counted)
                   firsts as)))"

definition count_loads :: "load_state \<Rightarrow> assignment list \<Rightarrow> u64" where
  "count_loads s as = foldl (\<lambda>n a. if as_load_state a = s then n + 1 else n) 0 as"

definition finish_inventory :: "inventory_reference \<Rightarrow> inventory_summary \<Rightarrow> assignment list \<Rightarrow> inventory_summary" where
  "finish_inventory ref summary firsts =
     (let observed = of_nat (length firsts);
          count =
            (if ir_extent ref = Extent_complete then known_field observed
             else unknown_field
               (if ir_extent ref = Extent_partial then ''partial_inventory'' else ''inventory_not_observed''));
          expected =
            (case ir_fixed ref of
               Some n \<Rightarrow> known_field n
             | None \<Rightarrow>
                 (case fd_value count of
                    Some n \<Rightarrow> known_field n
                  | None \<Rightarrow> unknown_field (fd_reason count)));
          conflict = (iv_status summary = Inventory_conflicting_duplicate);
          loads = (\<lambda>s. if conflict then unknown_field ''conflicting_duplicate''
                       else known_field (count_loads s firsts))
      in summary
           \<lparr>iv_status := (if conflict then Inventory_conflicting_duplicate else Inventory_summarized),
            iv_observed := observed, iv_count := count, iv_expected := expected,
            iv_unknown := loads Load_unknown, iv_pending := loads Load_pending,
            iv_loaded := loads Load_loaded, iv_rejected := loads Load_rejected,
            iv_matches :=
              (case (fd_value count, fd_value expected) of
                 (Some n, Some m) \<Rightarrow> known_field (n = m)
               | _ \<Rightarrow> unknown_field ''inventory_or_expectation_unknown'')\<rparr>)"

definition summarize_inventory :: "inventory_reference \<Rightarrow> assignment list \<Rightarrow> inventory_summary" where
  "summarize_inventory ref observations =
     (if \<not> is_identifier (ir_pack ref) \<or> (ir_source ref = Fixed_reference) \<noteq> (ir_fixed ref \<noteq> None) \<or>
         (case ir_fixed ref of None \<Rightarrow> False | Some n \<Rightarrow> of_nat max_reference_materials < n) \<or>
         ir_extent ref = Extent_not_observed \<and> observations \<noteq> []
      then empty_summary ref
      else if max_reference_materials < length observations
      then (empty_summary ref)\<lparr>iv_status := Inventory_capacity_exceeded\<rparr>
      else
        (case collect_observations (ir_pack ref) (empty_summary ref) [] observations of
           (summary, firsts, ended) \<Rightarrow> if ended then finish_inventory ref summary firsts else summary))"

section \<open>What the summaries say\<close>

text \<open>The elements of a list, each at its first place.\<close>

definition first_of :: "'a list \<Rightarrow> 'a list" where
  "first_of xs = rev (remdups (rev xs))"

lemma remdups_append_filter: "remdups (xs @ ys) = filter (\<lambda>x. x \<notin> set ys) (remdups xs) @ remdups ys"
  by (induction xs) auto

lemma first_of_Nil [simp]: "first_of [] = []"
  by (simp add: first_of_def)

lemma first_of_Cons: "first_of (x # xs) = x # filter (\<lambda>y. y \<noteq> x) (first_of xs)"
  by (simp add: first_of_def remdups_append_filter rev_filter)

lemma set_first_of [simp]: "set (first_of xs) = set xs"
  by (simp add: first_of_def)

lemma distinct_first_of [simp]: "distinct (first_of xs)"
  by (simp add: first_of_def)

lemma length_first_of: "length (first_of xs) = card (set xs)"
  by (simp add: distinct_card [symmetric])

lemma first_of_snoc: "first_of (xs @ [x]) = (if x \<in> set xs then first_of xs else first_of xs @ [x])"
  by (simp add: first_of_def)

lemma filter_first_of_Cons:
  "filter (\<lambda>y. y \<notin> A) (first_of (x # xs)) =
    (if x \<in> A then filter (\<lambda>y. y \<notin> A) (first_of xs) else x # filter (\<lambda>y. y \<notin> insert x A) (first_of xs))"
  by (auto simp: first_of_Cons intro!: filter_cong)

subsection \<open>The report\<close>

lemma collect_assignments_exact:
  "collect_assignments ids as =
    (if list_all well_formed_assignment as
     then Some (ids @ filter (\<lambda>i. i \<notin> set ids) (first_of (map as_id as))) else None)"
proof (induction as arbitrary: ids)
  case (Cons a as)
  then show ?case by (simp add: filter_first_of_Cons insert_commute)
qed simp

definition row_detected :: "coverage \<Rightarrow> bool" where
  "row_detected c \<longleftrightarrow>
     list_ex observed_some [cv_candidates c, cv_selections c, cv_starts c, cv_advances c, cv_ends c]"

lemma classify_observed [simp]: "classify s = Stage_observed \<longleftrightarrow> observed_some s"
  by (simp add: classify_def)

definition valid_row :: "string \<Rightarrow> assignment_id set \<Rightarrow> coverage \<Rightarrow> bool" where
  "valid_row run ids c \<longleftrightarrow> well_formed_coverage c \<and> cv_run c = run \<and> cv_assignment c \<in> ids"

lemma collect_coverage_Cons:
  "valid_row run (set ids) c \<Longrightarrow> cv_assignment c \<notin> set seen \<Longrightarrow>
    collect_coverage run ids seen covered (c # rows) =
      collect_coverage run ids (seen @ [cv_assignment c])
        (covered @ map cv_assignment (filter row_detected [c])) rows"
  by (simp add: valid_row_def summarize_stages_def detected_def row_detected_def)

lemma collect_coverage_exact:
  "collect_coverage run ids seen covered rows = Inr found \<longleftrightarrow>
    list_all (valid_row run (set ids)) rows \<and> distinct (map cv_assignment rows) \<and>
    set seen \<inter> cv_assignment ` set rows = {} \<and> found = covered @ map cv_assignment (filter row_detected rows)"
proof (induction rows arbitrary: seen covered)
  case (Cons c rows)
  show ?case
  proof (cases "valid_row run (set ids) c \<and> cv_assignment c \<notin> set seen")
    case True
    then show ?thesis
      unfolding collect_coverage_Cons [OF conjunct1 [OF True] conjunct2 [OF True]] Cons.IH
      by auto
  next
    case False
    then show ?thesis by (auto simp: valid_row_def)
  qed
qed auto

lemma collect_coverage_not_summarized:
  "collect_coverage run ids seen covered rows = Inl status \<Longrightarrow> status \<noteq> Report_summarized"
  by (induction rows arbitrary: seen covered) (auto split: if_splits option.splits)

definition reportable :: "report_request \<Rightarrow> assignment list \<Rightarrow> coverage list \<Rightarrow> bool" where
  "reportable q inventory rows \<longleftrightarrow>
     is_identifier (rq_run q) \<and> (rq_extent q = Extent_not_observed \<longrightarrow> rows = []) \<and>
     length inventory \<le> max_reference_materials \<and> length rows \<le> max_reference_materials \<and>
     list_all well_formed_assignment inventory \<and>
     list_all (valid_row (rq_run q) (as_id ` set inventory)) rows \<and> distinct (map cv_assignment rows)"

lemma detected_and_pending:
  assumes "finite A" and "distinct xs" and "set xs \<subseteq> A" and "distinct ys" and "set ys = A - set xs"
  shows "length xs + length ys = card A"
  using assms by (simp add: distinct_card [symmetric] card_Diff_subset card_mono)

lemma collected_assignments:
  "collect_assignments [] as = (if list_all well_formed_assignment as then Some (first_of (map as_id as)) else None)"
  by (simp add: collect_assignments_exact)

lemma reportable_collects:
  "reportable q inventory rows \<longleftrightarrow>
    is_identifier (rq_run q) \<and> \<not> (rq_extent q = Extent_not_observed \<and> rows \<noteq> []) \<and>
    \<not> (max_reference_materials < length inventory \<or> max_reference_materials < length rows) \<and>
    (\<exists>ids. collect_assignments [] inventory = Some ids \<and>
      collect_coverage (rq_run q) ids [] [] rows = Inr (map cv_assignment (filter row_detected rows)))"
  unfolding reportable_def collected_assignments collect_coverage_exact by auto

text \<open>
  C19: The coverage report counts every assignment once. For every request, inventory and rows, a report
  is summarized exactly when the run is named, the sizes are within the limits, every assignment and
  row is well formed, and the rows are of the run, about assignments of the inventory and about
  different ones; then the detected and the pending assignments are the two parts of the distinct
  assignments of the inventory, the coverage is partial exactly when something is pending, and the
  detected number is given as known only when the source was observed completely. Any other report
  names no pending assignment and no number.
\<close>

theorem coverage_report_exact:
  "(let r = summarize_coverage q inventory rows; found = cv_assignment ` set (filter row_detected rows) in
    if reportable q inventory rows
    then rp_status r = Report_summarized \<and> distinct (rp_pending r) \<and>
      set (rp_pending r) = as_id ` set inventory - found \<and> unat (rp_observed r) = card found \<and>
      card found + length (rp_pending r) = card (as_id ` set inventory) \<and>
      (rp_partial r \<longleftrightarrow> found \<noteq> as_id ` set inventory) \<and>
      fd_value (rp_detected r) = (if rq_extent q = Extent_complete then Some (rp_observed r) else None)
    else rp_status r \<noteq> Report_summarized \<and> rp_pending r = [] \<and> fd_value (rp_detected r) = None)"
proof (cases "reportable q inventory rows")
  case True
  let ?covered = "map cv_assignment (filter row_detected rows)" and ?ids = "first_of (map as_id inventory)"
  have "collect_assignments [] inventory = Some ?ids" and
    "collect_coverage (rq_run q) ?ids [] [] rows = Inr ?covered"
    using True by (simp_all add: reportable_def collected_assignments collect_coverage_exact)
  then have r: "summarize_coverage q inventory rows = (empty_report q)
      \<lparr>rp_status := Report_summarized, rp_observed := of_nat (length ?covered),
       rp_detected := (if rq_extent q = Extent_complete then known_field (of_nat (length ?covered))
         else unknown_field (if rq_extent q = Extent_partial then ''partial_detection_source''
           else ''detection_source_not_observed'')),
       rp_pending := filter (\<lambda>i. i \<notin> set ?covered) ?ids,
       rp_partial := (filter (\<lambda>i. i \<notin> set ?covered) ?ids \<noteq> [])\<rparr>"
    using True by (auto simp: summarize_coverage_def reportable_collects Let_def)
  have rows: "distinct (map cv_assignment rows)" "length rows \<le> max_reference_materials"
      "set ?covered \<subseteq> as_id ` set inventory"
    using True by (auto simp: reportable_def list_all_iff valid_row_def)
  have covered: "distinct ?covered" using rows(1) by (rule distinct_map_filter)
  then have card: "card (set ?covered) = length ?covered" by (rule distinct_card)
  have "length ?covered \<le> 4096"
    using order_trans [OF length_filter_le rows(2)] unfolding max_reference_materials_def by simp
  then have "length ?covered < 2 ^ 64" by simp
  then have observed: "unat (of_nat (length ?covered) :: u64) = card (set ?covered)"
    unfolding card by (intro unat_of_nat_small) simp
  have pending: "distinct (filter (\<lambda>i. i \<notin> set ?covered) ?ids)"
      "set (filter (\<lambda>i. i \<notin> set ?covered) ?ids) = as_id ` set inventory - set ?covered"
    by auto
  have sizes: "card (set ?covered) + length (filter (\<lambda>i. i \<notin> set ?covered) ?ids) = card (as_id ` set inventory)"
    unfolding card using covered rows(3) pending by (intro detected_and_pending) auto
  have partial: "filter (\<lambda>i. i \<notin> set ?covered) ?ids \<noteq> [] \<longleftrightarrow> set ?covered \<noteq> as_id ` set inventory"
    using pending(2) rows(3) by (metis Diff_eq_empty_iff set_empty subset_antisym order_refl)
  have found: "cv_assignment ` set (filter row_detected rows) = set ?covered" by simp
  show ?thesis
    unfolding Let_def found r using True observed pending sizes partial
    by (simp add: known_field_def unknown_field_def del: filter_empty_conv set_map)
next
  case False
  then have "rp_status (summarize_coverage q inventory rows) \<noteq> Report_summarized \<and>
      rp_pending (summarize_coverage q inventory rows) = [] \<and>
      fd_value (rp_detected (summarize_coverage q inventory rows)) = None"
    unfolding reportable_collects
    by (auto simp: summarize_coverage_def empty_report_def unset_field_def Let_def collect_coverage_exact
        dest: collect_coverage_not_summarized split: option.split sum.split)
  with False show ?thesis by (simp add: Let_def)
qed

subsection \<open>The aggregation\<close>

definition gathered :: "coverage list \<Rightarrow> assignment_id \<Rightarrow> aggregated" where
  "gathered rows i =
     foldl (\<lambda>g c. append_row c g) (empty_aggregated i) (filter (\<lambda>c. cv_assignment c = i) rows)"

definition aggregation :: "coverage list \<Rightarrow> aggregated list" where
  "aggregation rows = map (gathered rows) (first_of (map cv_assignment rows))"

lemma gathered_snoc:
  "gathered (rows @ [c]) i = (if cv_assignment c = i then append_row c (gathered rows i) else gathered rows i)"
  by (simp add: gathered_def)

lemma gathered_new: "i \<notin> cv_assignment ` set rows \<Longrightarrow> gathered rows i = empty_aggregated i"
proof -
  assume "i \<notin> cv_assignment ` set rows"
  then have "filter (\<lambda>c. cv_assignment c = i) rows = []" by (auto simp: filter_empty_conv)
  then show ?thesis by (simp add: gathered_def)
qed

lemma ag_assignment_append [simp]: "ag_assignment (append_row c g) = ag_assignment g"
  by (simp add: append_row_def Let_def)

lemma ag_assignment_gathered [simp]: "ag_assignment (gathered rows i) = i"
proof -
  have "ag_assignment (foldl (\<lambda>g c. append_row c g) g cs) = ag_assignment g" for g cs
    by (induction cs arbitrary: g) simp_all
  then show ?thesis by (simp add: gathered_def empty_aggregated_def)
qed

lemma add_row_map:
  "distinct is \<Longrightarrow> (\<And>i. ag_assignment (g i) = i) \<Longrightarrow>
    add_row c (map g is) =
      (if cv_assignment c \<in> set is
       then map (\<lambda>i. if i = cv_assignment c then append_row c (g i) else g i) is
       else map g is @ [append_row c (empty_aggregated (cv_assignment c))])"
proof (induction "is")
  case (Cons i "is")
  then show ?case by (auto intro!: map_cong)
qed simp

lemma add_row_aggregation: "add_row c (aggregation rows) = aggregation (rows @ [c])"
proof (cases "cv_assignment c \<in> cv_assignment ` set rows")
  case True
  then show ?thesis
    by (simp add: aggregation_def add_row_map first_of_snoc gathered_snoc eq_commute
        cong: map_cong)
next
  case False
  have "map (gathered (rows @ [c])) (first_of (map cv_assignment rows)) =
      map (gathered rows) (first_of (map cv_assignment rows))"
    using False by (auto simp: gathered_snoc intro!: map_cong)
  with False show ?thesis
    by (simp add: aggregation_def add_row_map first_of_snoc gathered_snoc gathered_new)
qed

definition row_key :: "coverage \<Rightarrow> string \<times> assignment_id" where
  "row_key c = (cv_run c, cv_assignment c)"

lemma aggregate_rows_exact:
  "distinct (map row_key seen) \<Longrightarrow>
    (if list_all well_formed_coverage rows \<and> distinct (map row_key (seen @ rows))
     then aggregate_rows (map row_key seen) (aggregation seen) rows = (Aggregated, aggregation (seen @ rows))
     else fst (aggregate_rows (map row_key seen) (aggregation seen) rows) \<noteq> Aggregated \<and>
       snd (aggregate_rows (map row_key seen) (aggregation seen) rows) = [])"
proof (induction rows arbitrary: seen)
  case (Cons c rows)
  show ?case
  proof (cases "well_formed_coverage c \<and> row_key c \<notin> row_key ` set seen")
    case True
    have step: "aggregate_rows (map row_key seen) (aggregation seen) (c # rows) =
        aggregate_rows (map row_key (seen @ [c])) (aggregation (seen @ [c])) rows"
      using True by (simp add: add_row_aggregation row_key_def [symmetric])
    from True Cons.prems have "distinct (map row_key (seen @ [c]))" by simp
    note IH = Cons.IH [OF this, unfolded append_assoc append_Cons append_Nil]
    have "list_all well_formed_coverage (c # rows) \<longleftrightarrow> list_all well_formed_coverage rows"
      using True by simp
    with IH show ?thesis unfolding step by simp
  next
    case False
    then have "fst (aggregate_rows (map row_key seen) (aggregation seen) (c # rows)) \<noteq> Aggregated \<and>
        snd (aggregate_rows (map row_key seen) (aggregation seen) (c # rows)) = []"
      by (auto simp: row_key_def [symmetric])
    moreover have invalid: "\<not> (list_all well_formed_coverage (c # rows) \<and> distinct (map row_key (seen @ c # rows)))"
      using False by auto
    ultimately show ?thesis unfolding if_not_P [OF invalid] by blast
  qed
qed simp

text \<open>
  Aggregating the rows of several runs loses and mixes nothing. Within the limit, with well-formed
  rows and no two of the same run and assignment, there is one entry for each assignment, in the order
  in which they first appear, and each of its lists holds, for every row of that assignment and in the
  order of the rows, the observation with the run it comes from. Otherwise there is no entry at all.
\<close>

theorem aggregation_exact:
  "if length rows \<le> max_reference_materials \<and> list_all well_formed_coverage rows \<and> distinct (map row_key rows)
   then aggregate_coverage rows = (Aggregated, aggregation rows)
   else fst (aggregate_coverage rows) \<noteq> Aggregated \<and> snd (aggregate_coverage rows) = []"
  using aggregate_rows_exact [of "[]" rows]
  by (auto simp: aggregate_coverage_def aggregation_def)

subsection \<open>The inventory\<close>

definition conflicting :: "assignment set \<Rightarrow> bool" where
  "conflicting as \<longleftrightarrow> (\<exists>a \<in> as. \<exists>b \<in> as. as_id a = as_id b \<and> a \<noteq> b)"

lemma conflicting_insert:
  assumes "b \<in> as" and "as_id b = as_id a"
  shows "conflicting (insert a as) \<longleftrightarrow> conflicting as \<or> b \<noteq> a"
  using assms unfolding conflicting_def by (metis insert_iff)

lemma conflicting_insert_new: "as_id a \<notin> as_id ` as \<Longrightarrow> conflicting (insert a as) \<longleftrightarrow> conflicting as"
  by (auto simp: conflicting_def image_iff)

definition collected :: "assignment list \<Rightarrow> inventory_summary \<Rightarrow> assignment list \<Rightarrow> bool" where
  "collected seen summary firsts \<longleftrightarrow>
     as_id ` set firsts = as_id ` set seen \<and> set firsts \<subseteq> set seen \<and> distinct (map as_id firsts) \<and>
     length firsts \<le> length seen \<and> iv_duplicates summary = of_nat (length seen - length firsts) \<and>
     iv_status summary =
       (if conflicting (set seen) then Inventory_conflicting_duplicate else Inventory_invalid_reference)"

definition valid_observation :: "string \<Rightarrow> assignment \<Rightarrow> bool" where
  "valid_observation pack a \<longleftrightarrow> well_formed_assignment a \<and> an_pack (as_id a) = pack"

lemma collect_observations_exact:
  assumes "collected seen summary firsts" and "collect_observations pack summary firsts as = (summary', firsts', ok)"
  shows "(ok \<longleftrightarrow> list_all (valid_observation pack) as) \<and> (ok \<longrightarrow> collected (seen @ as) summary' firsts') \<and>
    (\<not> ok \<longrightarrow> iv_status summary' \<in> {Inventory_invalid_assignment, Inventory_pack_mismatch})"
  using assms
proof (induction as arbitrary: seen summary firsts)
  case (Cons a as)
  show ?case
  proof (cases "valid_observation pack a")
    case False
    with Cons.prems(2) show ?thesis by (auto simp: valid_observation_def split: if_splits)
  next
    case valid: True
    show ?thesis
    proof (cases "List.find (\<lambda>b. as_id b = as_id a) firsts")
      case None
      then have "as_id a \<notin> as_id ` set firsts" by (auto simp: find_None_iff)
      then have new: "as_id a \<notin> as_id ` set seen"
        using Cons.prems(1) by (simp add: collected_def)
      have "collected (seen @ [a]) summary (firsts @ [a])"
        using Cons.prems(1) new conflicting_insert_new [OF new] by (auto simp: collected_def)
      from Cons.IH [OF this] Cons.prems(2) None valid show ?thesis by (simp add: valid_observation_def)
    next
      case (Some b)
      then have b: "b \<in> set seen" "as_id b = as_id a"
        using Cons.prems(1) find_SomeD [OF Some] by (auto simp: collected_def)
      let ?counted = "summary\<lparr>iv_duplicates := iv_duplicates summary + 1\<rparr>"
      let ?next = "if b \<noteq> a \<and> iv_status ?counted \<noteq> Inventory_conflicting_duplicate
          then ?counted\<lparr>iv_status := Inventory_conflicting_duplicate, iv_first_problem := known_field (as_id a)\<rparr>
          else ?counted"
      have "iv_duplicates ?next = of_nat (Suc (length seen) - length firsts)"
        using Cons.prems(1) by (simp add: collected_def Suc_diff_le)
      moreover have "iv_status ?next = (if conflicting (set seen) \<or> b \<noteq> a
          then Inventory_conflicting_duplicate else Inventory_invalid_reference)"
        using Cons.prems(1) by (auto simp: collected_def)
      moreover have "as_id a \<in> as_id ` set seen" using b by (metis imageI)
      ultimately have "collected (seen @ [a]) ?next firsts"
        using Cons.prems(1) b conflicting_insert [OF b] by (auto simp: collected_def simp del: of_nat_diff)
      from Cons.IH [OF this] Cons.prems(2) Some valid show ?thesis
        by (simp add: valid_observation_def Let_def)
    qed
  qed
qed simp

lemma count_loads_exact: "count_loads s as = of_nat (length (filter (\<lambda>a. as_load_state a = s) as))"
proof -
  have "foldl (\<lambda>n a. if as_load_state a = s then n + 1 else n) n as =
      n + of_nat (length (filter (\<lambda>a. as_load_state a = s) as))" for n :: u64
    by (induction as arbitrary: n) simp_all
  then show ?thesis by (simp add: count_loads_def)
qed

lemma no_conflict_firsts:
  assumes "collected seen summary firsts" and "\<not> conflicting (set seen)"
  shows "set firsts = set seen" and "distinct firsts"
proof -
  have "a \<in> set firsts" if "a \<in> set seen" for a
  proof -
    from that assms(1) obtain b where b: "b \<in> set firsts" "as_id b = as_id a"
      unfolding collected_def by (metis imageE imageI)
    then have "b \<in> set seen" using assms(1) by (auto simp: collected_def)
    with that b(2) assms(2) have "b = a" unfolding conflicting_def by blast
    with b(1) show ?thesis by simp
  qed
  then show "set firsts = set seen" using assms(1) by (auto simp: collected_def)
  show "distinct firsts" using assms(1) by (simp add: collected_def distinct_map)
qed

definition summarizable :: "inventory_reference \<Rightarrow> assignment list \<Rightarrow> bool" where
  "summarizable ref observations \<longleftrightarrow>
     is_identifier (ir_pack ref) \<and> (ir_source ref = Fixed_reference \<longleftrightarrow> ir_fixed ref \<noteq> None) \<and>
     (case ir_fixed ref of None \<Rightarrow> True | Some n \<Rightarrow> n \<le> of_nat max_reference_materials) \<and>
     (ir_extent ref = Extent_not_observed \<longrightarrow> observations = []) \<and>
     length observations \<le> max_reference_materials \<and>
     list_all (valid_observation (ir_pack ref)) observations"

definition summarizable_reference :: "inventory_reference \<Rightarrow> assignment list \<Rightarrow> bool" where
  "summarizable_reference ref observations \<longleftrightarrow>
     \<not> (\<not> is_identifier (ir_pack ref) \<or> (ir_source ref = Fixed_reference) \<noteq> (ir_fixed ref \<noteq> None) \<or>
        (case ir_fixed ref of None \<Rightarrow> False | Some n \<Rightarrow> of_nat max_reference_materials < n) \<or>
        ir_extent ref = Extent_not_observed \<and> observations \<noteq> [])"

definition in_state :: "load_state \<Rightarrow> assignment list \<Rightarrow> u64" where
  "in_state s as = of_nat (card {a \<in> set as. as_load_state a = s})"

text \<open>
  The summary of an inventory counts what was observed. A summary is given exactly when the
  reference is consistent, the sizes are within the limits and every observation is well formed and of
  the pack; the distinct assignments and the repeated observations then add up to the observations, the
  numbers per load state are those of the distinct assignments, and they are withheld exactly when two
  observations of one assignment differ.
\<close>

theorem inventory_summary_exact:
  "(let r = summarize_inventory ref observations; conflict = conflicting (set observations);
        loads = (\<lambda>s. if conflict then None else Some (in_state s observations)) in
    if summarizable ref observations
    then iv_status r = (if conflict then Inventory_conflicting_duplicate else Inventory_summarized) \<and>
      unat (iv_observed r) = card (as_id ` set observations) \<and>
      unat (iv_observed r) + unat (iv_duplicates r) = length observations \<and>
      fd_value (iv_unknown r) = loads Load_unknown \<and> fd_value (iv_pending r) = loads Load_pending \<and>
      fd_value (iv_loaded r) = loads Load_loaded \<and> fd_value (iv_rejected r) = loads Load_rejected \<and>
      fd_value (iv_count r) = (if ir_extent ref = Extent_complete then Some (iv_observed r) else None) \<and>
      fd_value (iv_expected r) = (if ir_fixed ref \<noteq> None then ir_fixed ref else fd_value (iv_count r))
    else iv_status r \<notin> {Inventory_summarized, Inventory_conflicting_duplicate})"
proof -
  obtain summary firsts ok where run:
      "collect_observations (ir_pack ref) (empty_summary ref) [] observations = (summary, firsts, ok)"
    by (metis prod_cases3)
  have "collected [] (empty_summary ref) []"
    by (simp add: collected_def empty_summary_def conflicting_def)
  note exact = collect_observations_exact [OF this run]
  have guards: "summarizable ref observations \<longleftrightarrow>
      summarizable_reference ref observations \<and> \<not> max_reference_materials < length observations \<and> ok"
    using exact by (auto simp: summarizable_def summarizable_reference_def split: option.split)
  show ?thesis
  proof (cases "summarizable ref observations")
    case False
    have result: "summarize_inventory ref observations =
        (if max_reference_materials < length observations \<and> summarizable_reference ref observations
         then (empty_summary ref)\<lparr>iv_status := Inventory_capacity_exceeded\<rparr>
         else if summarizable_reference ref observations then summary else empty_summary ref)"
      using False run unfolding guards summarize_inventory_def summarizable_reference_def by auto
    have "iv_status (summarize_inventory ref observations) \<notin> {Inventory_summarized, Inventory_conflicting_duplicate}"
      using False exact unfolding guards result summarizable_reference_def [symmetric]
      by (auto simp: empty_summary_def)
    with False show ?thesis by (simp add: Let_def)
  next
    case True
    then have result: "summarize_inventory ref observations = finish_inventory ref summary firsts" and ok
      using run unfolding guards summarize_inventory_def summarizable_reference_def by auto
    with exact have c: "collected observations summary firsts" by simp
    have small: "length observations < 2 ^ 64" "length firsts < 2 ^ 64"
      using True c by (simp_all add: summarizable_def collected_def max_reference_materials_def)
    have firsts: "length firsts = card (as_id ` set observations)"
      using c distinct_card [of "map as_id firsts"] by (simp add: collected_def)
    have loads: "count_loads s firsts = in_state s observations" if "\<not> conflicting (set observations)" for s
      using no_conflict_firsts [OF c that] distinct_card [of "filter (\<lambda>a. as_load_state a = s) firsts"]
      by (simp add: count_loads_exact in_state_def)
    have "unat (of_nat (length firsts) :: u64) = length firsts"
      using small(2) by (intro unat_of_nat_small) simp
    moreover have "unat (of_nat (length observations - length firsts) :: u64) = length observations - length firsts"
      using small(1) by (intro unat_of_nat_small) simp
    moreover have "length firsts \<le> length observations" "iv_duplicates summary = of_nat (length observations - length firsts)"
        "iv_status summary = (if conflicting (set observations) then Inventory_conflicting_duplicate
           else Inventory_invalid_reference)"
      using c by (simp_all only: collected_def)
    ultimately show ?thesis
      unfolding Let_def if_P [OF True] result using loads firsts
      by (simp add: finish_inventory_def Let_def known_field_def unknown_field_def del: of_nat_diff split: option.split)
  qed
qed

end
