(* ===== verification/Evidence_Budget.thy ===== *)
theory Evidence_Budget
  imports Coverage_Model
begin

text \<open>
  The storage budgets of a run: the quota of its evidence (\<^verbatim>\<open>tools/audio_qa/evidence_quota.{h,cpp}\<close>) and
  the staging of its private materials (\<^verbatim>\<open>material_staging_budget.{h,cpp}\<close>). The free space is what the
  file system reports.
\<close>

section \<open>Sums that do not wrap\<close>

definition checked_add :: "u64 \<Rightarrow> u64 \<Rightarrow> u64 option" where
  "checked_add l r = (if - 1 - l < r then None else Some (l + r))"

lemma checked_add_iff: "checked_add l r = Some s \<longleftrightarrow> unat l + unat r < 2 ^ 64 \<and> s = l + r"
proof -
  have "unat (- 1 - l :: u64) = 2 ^ 64 - 1 - unat l"
    by (simp add: unat_minus_le unsigned_minus_1_eq_mask mask_eq_exp_minus_1)
  then have "\<not> (- 1 - l < r) \<longleftrightarrow> unat l + unat r < 2 ^ 64"
    using unat_u64_bound [of l] unfolding word_less_nat_alt by auto
  then show ?thesis by (auto simp: checked_add_def)
qed

lemma checked_add_exact: "checked_add l r = Some s \<longleftrightarrow> unat s = unat l + unat r"
proof -
  have "s = l + r" if "unat s = unat l + unat r"
    using that unat_u64_bound [of s] unat_plus_no_wrap [of l r] by (simp add: word_unat_eq_iff)
  then show ?thesis
    using unat_u64_bound [of s] by (auto simp: checked_add_iff unat_plus_no_wrap)
qed

lemma checked_add_None: "checked_add l r = None \<longleftrightarrow> 2 ^ 64 \<le> unat l + unat r"
  using checked_add_iff [of l r "l + r"] by (cases "checked_add l r") (auto simp: checked_add_iff)

lemma word_of_size: "k < 2 ^ 64 \<Longrightarrow> \<exists>w :: u64. unat w = k"
  by (rule exI [of _ "of_nat k"]) (rule unat_of_nat_small, simp)

section \<open>The quota of the evidence\<close>

definition max_evidence_bytes :: u64 where "max_evidence_bytes = push_bit 30 8"
definition evidence_terminal_reserve_bytes :: u64 where "evidence_terminal_reserve_bytes = push_bit 20 1"
definition minimum_initial_free_bytes :: u64 where "minimum_initial_free_bytes = push_bit 30 10"

record byte_usage =
  bu_durable :: u64
  bu_temporary :: u64
  bu_in_flight :: u64

record quota_usage =
  qu_regular :: byte_usage
  qu_terminal :: byte_usage
  qu_checkpoint :: "u64 option"

datatype write_class = Write_regular | Write_terminal

datatype quota_reason =
  Initial_reserve_unavailable | Evidence_limit_reached | Terminal_reserve_exhausted | Storage_unavailable

datatype quota_error = Quota_invalid_run | Quota_invalid_request | Quota_invalid_usage

record quota_permit =
  qp_accounted :: u64
  qp_remaining_regular :: u64
  qp_remaining_terminal :: u64

record quota_failure =
  qf_reason :: quota_reason
  qf_evidence :: evidence_result
  qf_diagnostic :: diagnostic
  qf_checkpoint :: "u64 option"
  qf_accounted :: u64
  qf_remaining_regular :: u64
  qf_remaining_terminal :: u64

datatype quota_result = Quota_permit quota_permit | Quota_failure quota_failure | Quota_error quota_error

record accounted =
  ac_regular :: u64
  ac_terminal :: u64
  ac_total :: u64

definition usage_sum :: "byte_usage \<Rightarrow> u64 option" where
  "usage_sum u =
     Option.bind (checked_add (bu_durable u) (bu_temporary u)) (\<lambda>partial. checked_add partial (bu_in_flight u))"

definition account :: "quota_usage \<Rightarrow> accounted option" where
  "account u =
     (case (usage_sum (qu_regular u), usage_sum (qu_terminal u)) of
        (Some regular, Some terminal) \<Rightarrow>
          (case checked_add regular terminal of
             None \<Rightarrow> None
           | Some in_all \<Rightarrow>
               if max_evidence_bytes - evidence_terminal_reserve_bytes < regular \<or>
                  evidence_terminal_reserve_bytes < terminal \<or> max_evidence_bytes < in_all \<or>
                  qu_checkpoint u = Some 0
               then None
               else Some \<lparr>ac_regular = regular, ac_terminal = terminal, ac_total = in_all\<rparr>)
      | _ \<Rightarrow> None)"

definition permit :: "accounted \<Rightarrow> quota_permit" where
  "permit a =
     \<lparr>qp_accounted = ac_total a,
      qp_remaining_regular = max_evidence_bytes - evidence_terminal_reserve_bytes - ac_regular a,
      qp_remaining_terminal = evidence_terminal_reserve_bytes - ac_terminal a\<rparr>"

fun quota_failure_code :: "quota_reason \<Rightarrow> string" where
  "quota_failure_code Initial_reserve_unavailable = ''evidence_initial_reserve_unavailable''"
| "quota_failure_code Evidence_limit_reached = ''evidence_quota_reached''"
| "quota_failure_code Terminal_reserve_exhausted = ''evidence_terminal_reserve_exhausted''"
| "quota_failure_code Storage_unavailable = ''evidence_storage_unavailable''"

definition quota_failure_of :: "string \<Rightarrow> quota_reason \<Rightarrow> accounted \<Rightarrow> quota_usage \<Rightarrow> string \<Rightarrow> quota_failure" where
  "quota_failure_of run reason a u detail =
     \<lparr>qf_reason = reason, qf_evidence = Evidence_incomplete,
      qf_diagnostic =
        \<lparr>dg_code = quota_failure_code reason, dg_scope = Scope_storage, dg_severity = Severity_error,
         dg_subject = run,
         dg_stage = (if reason = Initial_reserve_unavailable then ''evidence_admission'' else ''evidence_capture''),
         dg_source_fact = unset_field, dg_samples = unknown_field ''storage_limit_has_no_sample_boundary'',
         dg_last_frame = unknown_field ''last_frame_is_preserved_by_the_run_checkpoint'',
         dg_lost_facts = unknown_field ''capture_stopped_before_unaccounted_data_was_accepted'',
         dg_detail = detail\<rparr>,
      qf_checkpoint = qu_checkpoint u, qf_accounted = ac_total a,
      qf_remaining_regular = max_evidence_bytes - evidence_terminal_reserve_bytes - ac_regular a,
      qf_remaining_terminal = evidence_terminal_reserve_bytes - ac_terminal a\<rparr>"

definition no_usage :: quota_usage where
  "no_usage =
     (let none = \<lparr>bu_durable = 0, bu_temporary = 0, bu_in_flight = 0\<rparr>
      in \<lparr>qu_regular = none, qu_terminal = none, qu_checkpoint = None\<rparr>)"

definition check_initial_reserve :: "string \<Rightarrow> u64 \<Rightarrow> quota_result" where
  "check_initial_reserve run available =
     (let nothing = \<lparr>ac_regular = 0, ac_terminal = 0, ac_total = 0\<rparr> in
      if \<not> is_identifier run then Quota_error Quota_invalid_run
      else if available < minimum_initial_free_bytes
      then Quota_failure (quota_failure_of run Initial_reserve_unavailable nothing no_usage
             ''initial free space is below the 10 GiB evidence reserve; capture was not admitted'')
      else Quota_permit (permit nothing))"

definition check_evidence_write :: "string \<Rightarrow> quota_usage \<Rightarrow> write_class \<Rightarrow> u64 \<Rightarrow> u64 \<Rightarrow> quota_result" where
  "check_evidence_write run u c requested available =
     (if \<not> is_identifier run then Quota_error Quota_invalid_run
      else if requested = 0 then Quota_error Quota_invalid_request
      else
        (case account u of
           None \<Rightarrow> Quota_error Quota_invalid_usage
         | Some a \<Rightarrow>
             (case checked_add (if c = Write_regular then ac_regular a else ac_terminal a) requested of
                None \<Rightarrow> Quota_error Quota_invalid_request
              | Some class_after \<Rightarrow>
                  (let regular_after = (if c = Write_regular then class_after else ac_regular a);
                       terminal_after = (if c = Write_regular then ac_terminal a else class_after)
                   in case checked_add regular_after terminal_after of
                        None \<Rightarrow> Quota_error Quota_invalid_request
                      | Some total_after \<Rightarrow>
                          if c = Write_regular \<and> max_evidence_bytes - evidence_terminal_reserve_bytes < regular_after
                          then Quota_failure (quota_failure_of run Evidence_limit_reached a u
                                 ''regular evidence reached its limit; the terminal 1 MiB remains reserved for the diagnostic and final checkpoint'')
                          else if evidence_terminal_reserve_bytes < terminal_after
                          then Quota_failure (quota_failure_of run Terminal_reserve_exhausted a u
                                 ''the requested terminal evidence exceeds the reserved 1 MiB'')
                          else if max_evidence_bytes < total_after
                          then Quota_failure (quota_failure_of run Evidence_limit_reached a u
                                 ''the requested write would exceed the 8 GiB evidence limit'')
                          else if available < requested
                          then Quota_failure (quota_failure_of run Storage_unavailable a u
                                 ''available storage cannot hold the requested evidence write; capture stopped before accepting it'')
                          else Quota_permit (permit \<lparr>ac_regular = regular_after, ac_terminal = terminal_after,
                                 ac_total = total_after\<rparr>)))))"

section \<open>The staging of materials\<close>

definition max_private_material_bytes :: u64 where "max_private_material_bytes = push_bit 30 8"
definition staging_margin_bytes :: u64 where "staging_margin_bytes = push_bit 30 2"
definition evidence_reserve_bytes :: u64 where "evidence_reserve_bytes = push_bit 30 10"

record staging_item =
  sg_material :: string
  sg_size :: u64
  sg_selected :: bool
  sg_staged :: bool

datatype staging_reason = Private_limit_exceeded | Storage_reserve_unavailable

datatype staging_error =
  Staging_invalid_run | Staging_invalid_inventory | Staging_duplicate_material | Staging_capacity_exceeded

record staging_permit =
  sp_selected :: u64
  sp_staged :: u64
  sp_to_allocate :: u64
  sp_required :: u64

record staging_rejection =
  sj_reason :: staging_reason
  sj_evidence :: evidence_result
  sj_diagnostic :: diagnostic
  sj_selected :: u64
  sj_to_allocate :: u64
  sj_required :: u64

datatype staging_result =
  Staging_permit staging_permit | Staging_rejection staging_rejection | Staging_error staging_error

fun staging_rejection_code :: "staging_reason \<Rightarrow> string" where
  "staging_rejection_code Private_limit_exceeded = ''private_material_limit_exceeded''"
| "staging_rejection_code Storage_reserve_unavailable = ''material_storage_reserve_unavailable''"

definition not_applicable_field :: "string \<Rightarrow> 'a field" where
  "not_applicable_field reason = \<lparr>fd_availability = Not_applicable, fd_value = None, fd_reason = reason\<rparr>"

definition staging_rejection_of ::
    "string \<Rightarrow> staging_reason \<Rightarrow> u64 \<Rightarrow> u64 \<Rightarrow> u64 \<Rightarrow> staging_rejection" where
  "staging_rejection_of run reason selected to_allocate required =
     \<lparr>sj_reason = reason, sj_evidence = Evidence_incomplete,
      sj_diagnostic =
        \<lparr>dg_code = staging_rejection_code reason, dg_scope = Scope_storage, dg_severity = Severity_error,
         dg_subject = run, dg_stage = ''material_staging'', dg_source_fact = unset_field,
         dg_samples = not_applicable_field ''replay_not_started'',
         dg_last_frame = not_applicable_field ''replay_not_started'',
         dg_lost_facts = not_applicable_field ''capture_not_started'',
         dg_detail =
           (if reason = Private_limit_exceeded
            then ''selected private materials exceed the 8 GiB request limit; no additional material was staged''
            else ''free storage is below the selected bytes still to allocate plus the 2 GiB staging margin and 10 GiB evidence reserve'')\<rparr>,
      sj_selected = selected, sj_to_allocate = to_allocate, sj_required = required\<rparr>"

text \<open>The sums of the selected items: in all, already staged and to allocate.\<close>

fun staging_sums ::
    "string set \<Rightarrow> u64 \<Rightarrow> u64 \<Rightarrow> u64 \<Rightarrow> staging_item list \<Rightarrow> staging_error + u64 \<times> u64 \<times> u64" where
  "staging_sums identities selected staged to_allocate [] = Inr (selected, staged, to_allocate)"
| "staging_sums identities selected staged to_allocate (x # xs) =
     (if \<not> is_identifier (sg_material x) \<or> sg_size x = 0 \<or> \<not> sg_selected x \<and> sg_staged x
      then Inl Staging_invalid_inventory
      else if sg_material x \<in> identities then Inl Staging_duplicate_material
      else if \<not> sg_selected x
      then staging_sums (insert (sg_material x) identities) selected staged to_allocate xs
      else
        (case checked_add selected (sg_size x) of
           None \<Rightarrow> Inl Staging_invalid_inventory
         | Some selected' \<Rightarrow>
             (case checked_add (if sg_staged x then staged else to_allocate) (sg_size x) of
                None \<Rightarrow> Inl Staging_invalid_inventory
              | Some n \<Rightarrow>
                  staging_sums (insert (sg_material x) identities) selected'
                    (if sg_staged x then n else staged) (if sg_staged x then to_allocate else n) xs)))"

definition check_staging_budget :: "string \<Rightarrow> staging_item list \<Rightarrow> u64 \<Rightarrow> staging_result" where
  "check_staging_budget run inventory available =
     (if \<not> is_identifier run then Staging_error Staging_invalid_run
      else if inventory = [] then Staging_error Staging_invalid_inventory
      else if max_reference_materials < length inventory then Staging_error Staging_capacity_exceeded
      else
        (case staging_sums {} 0 0 0 inventory of
           Inl e \<Rightarrow> Staging_error e
         | Inr (selected, staged, to_allocate) \<Rightarrow>
             if selected = 0 then Staging_error Staging_invalid_inventory
             else
               (case checked_add to_allocate (staging_margin_bytes + evidence_reserve_bytes) of
                  None \<Rightarrow> Staging_error Staging_invalid_inventory
                | Some required \<Rightarrow>
                    if max_private_material_bytes < selected
                    then Staging_rejection
                           (staging_rejection_of run Private_limit_exceeded selected to_allocate required)
                    else if available < required
                    then Staging_rejection
                           (staging_rejection_of run Storage_reserve_unavailable selected to_allocate required)
                    else Staging_permit
                           \<lparr>sp_selected = selected, sp_staged = staged, sp_to_allocate = to_allocate,
                            sp_required = required\<rparr>)))"

section \<open>What is granted\<close>

definition usage_bytes :: "byte_usage \<Rightarrow> nat" where
  "usage_bytes u = unat (bu_durable u) + unat (bu_temporary u) + unat (bu_in_flight u)"

definition class_bytes :: "write_class \<Rightarrow> quota_usage \<Rightarrow> nat" where
  "class_bytes c u = usage_bytes (if c = Write_regular then qu_regular u else qu_terminal u)"

definition class_limit :: "write_class \<Rightarrow> nat" where
  "class_limit c = (if c = Write_regular then 8 * 2 ^ 30 - 2 ^ 20 else 2 ^ 20)"

definition within_quota :: "quota_usage \<Rightarrow> bool" where
  "within_quota u \<longleftrightarrow>
     class_bytes Write_regular u \<le> class_limit Write_regular \<and>
     class_bytes Write_terminal u \<le> class_limit Write_terminal \<and> qu_checkpoint u \<noteq> Some 0"

lemma quota_limits [simp]:
  "unat evidence_terminal_reserve_bytes = 1048576" "unat max_evidence_bytes = 8589934592"
  "unat (max_evidence_bytes - evidence_terminal_reserve_bytes) = 8588886016"
  by (simp_all add: evidence_terminal_reserve_bytes_def max_evidence_bytes_def)

lemma usage_sum_iff: "usage_sum u = Some n \<longleftrightarrow> unat n = usage_bytes u"
proof -
  have "\<exists>partial :: u64. unat partial = unat (bu_durable u) + unat (bu_temporary u)" if "unat n = usage_bytes u"
    using that unat_u64_bound [of n] by (intro word_of_size) (simp add: usage_bytes_def)
  then show ?thesis
    unfolding usage_sum_def bind_eq_Some_conv checked_add_exact usage_bytes_def by metis
qed

lemma account_iff:
  "account u = Some a \<longleftrightarrow>
    within_quota u \<and> unat (ac_regular a) = class_bytes Write_regular u \<and>
    unat (ac_terminal a) = class_bytes Write_terminal u \<and>
    unat (ac_total a) = class_bytes Write_regular u + class_bytes Write_terminal u"
  (is "_ \<longleftrightarrow> ?exact")
proof
  assume "account u = Some a"
  then obtain regular terminal in_all where sums:
      "usage_sum (qu_regular u) = Some regular" "usage_sum (qu_terminal u) = Some terminal"
      "checked_add regular terminal = Some in_all"
      "a = \<lparr>ac_regular = regular, ac_terminal = terminal, ac_total = in_all\<rparr>"
      "\<not> max_evidence_bytes - evidence_terminal_reserve_bytes < regular"
      "\<not> evidence_terminal_reserve_bytes < terminal" "qu_checkpoint u \<noteq> Some 0"
    by (auto simp: account_def split: option.splits if_splits)
  then show ?exact
    by (simp add: usage_sum_iff checked_add_exact within_quota_def class_bytes_def class_limit_def
        word_less_nat_alt not_less)
next
  assume exact: ?exact
  then have "usage_sum (qu_regular u) = Some (ac_regular a)" "usage_sum (qu_terminal u) = Some (ac_terminal a)"
      "checked_add (ac_regular a) (ac_terminal a) = Some (ac_total a)"
    by (simp_all add: usage_sum_iff checked_add_exact class_bytes_def)
  with exact show "account u = Some a"
    by (simp add: account_def within_quota_def class_bytes_def class_limit_def word_less_nat_alt)
qed

lemma account_within: "within_quota u \<Longrightarrow> \<exists>a. account u = Some a"
proof -
  assume within: "within_quota u"
  then have small: "class_bytes Write_regular u < 2 ^ 64" "class_bytes Write_terminal u < 2 ^ 64"
      "class_bytes Write_regular u + class_bytes Write_terminal u < 2 ^ 64"
    by (simp_all add: within_quota_def class_limit_def)
  then obtain r t s :: u64 where "unat r = class_bytes Write_regular u" "unat t = class_bytes Write_terminal u"
      "unat s = class_bytes Write_regular u + class_bytes Write_terminal u"
    using word_of_size by meson
  with within have "account u = Some \<lparr>ac_regular = r, ac_terminal = t, ac_total = s\<rparr>"
    by (simp add: account_iff)
  then show ?thesis ..
qed

definition may_write :: "string \<Rightarrow> quota_usage \<Rightarrow> write_class \<Rightarrow> u64 \<Rightarrow> u64 \<Rightarrow> bool" where
  "may_write run u c n available \<longleftrightarrow>
     is_identifier run \<and> n \<noteq> 0 \<and> within_quota u \<and> class_bytes c u + unat n \<le> class_limit c \<and> n \<le> available"

fun permits :: "quota_result \<Rightarrow> bool" where
  "permits (Quota_permit _) = True"
| "permits _ = False"

lemma write_permitted:
  assumes "within_quota u" and "is_identifier run" and "n \<noteq> 0"
  shows "permits (check_evidence_write run u c n available) \<longleftrightarrow>
    class_bytes c u + unat n \<le> class_limit c \<and> n \<le> available"
proof -
  obtain a where a: "account u = Some a" using account_within [OF assms(1)] by blast
  then have sizes: "unat (ac_regular a) = class_bytes Write_regular u" "unat (ac_terminal a) = class_bytes Write_terminal u"
      "unat (ac_regular a) \<le> 8588886016" "unat (ac_terminal a) \<le> 1048576"
    by (auto simp: account_iff within_quota_def class_limit_def)
  let ?old = "if c = Write_regular then ac_regular a else ac_terminal a"
  have old: "unat ?old = class_bytes c u" using sizes by (cases c) auto
  show ?thesis
  proof (cases "checked_add ?old n")
    case None
    then have "2 ^ 64 \<le> class_bytes c u + unat n" unfolding checked_add_None old .
    then have "\<not> class_bytes c u + unat n \<le> class_limit c" by (cases c) (simp_all add: class_limit_def)
    with None a assms show ?thesis by (simp add: check_evidence_write_def)
  next
    case (Some after)
    then have after: "unat after = class_bytes c u + unat n" unfolding checked_add_exact old .
    let ?r = "if c = Write_regular then after else ac_regular a"
    let ?t = "if c = Write_regular then ac_terminal a else after"
    show ?thesis
    proof (cases "checked_add ?r ?t")
      case None
      then have "2 ^ 64 \<le> unat ?r + unat ?t" unfolding checked_add_None .
      then have "\<not> class_bytes c u + unat n \<le> class_limit c"
        using sizes after by (cases c) (auto simp: class_limit_def)
      with None Some a assms show ?thesis by (simp add: check_evidence_write_def Let_def)
    next
      case all: (Some in_all)
      then have in_all: "unat in_all = unat ?r + unat ?t" unfolding checked_add_exact .
      show ?thesis
        using assms a Some all in_all sizes after
        by (cases c) (auto simp: check_evidence_write_def Let_def class_limit_def word_less_nat_alt word_le_nat_alt)
    qed
  qed
qed

lemma permitted_writes:
  "permits (check_evidence_write run u c n available) \<longleftrightarrow> may_write run u c n available"
proof (cases "is_identifier run \<and> n \<noteq> 0 \<and> within_quota u")
  case True
  then show ?thesis using write_permitted by (simp add: may_write_def)
next
  case False
  then have "is_identifier run \<Longrightarrow> n \<noteq> 0 \<Longrightarrow> account u = None"
    by (cases "account u") (auto simp: account_iff)
  with False show ?thesis
    by (auto simp: may_write_def check_evidence_write_def)
qed

text \<open>The usage a run reports after a write it was permitted: the bytes are durable.\<close>

definition add_durable :: "byte_usage \<Rightarrow> u64 \<Rightarrow> byte_usage" where
  "add_durable u n = u\<lparr>bu_durable := bu_durable u + n\<rparr>"

definition grant :: "string \<Rightarrow> quota_usage \<Rightarrow> write_class \<times> u64 \<times> u64 \<Rightarrow> quota_usage" where
  "grant run u w =
     (case w of
        (c, n, available) \<Rightarrow>
          if \<not> permits (check_evidence_write run u c n available) then u
          else if c = Write_regular then u\<lparr>qu_regular := add_durable (qu_regular u) n\<rparr>
          else u\<lparr>qu_terminal := add_durable (qu_terminal u) n\<rparr>)"

lemma usage_add_durable:
  assumes "usage_bytes u + unat n < 2 ^ 64"
  shows "usage_bytes (add_durable u n) = usage_bytes u + unat n"
proof -
  have "unat (bu_durable u) + unat n < 2 ^ 64" using assms by (simp add: usage_bytes_def)
  then show ?thesis by (simp add: usage_bytes_def add_durable_def unat_plus_no_wrap)
qed

lemma grant_within: "within_quota u \<Longrightarrow> within_quota (grant run u w)"
proof -
  assume within: "within_quota u"
  obtain c n available where w: "w = (c, n, available)" by (cases w)
  show ?thesis
  proof (cases "may_write run u c n available")
    case True
    then have granted: "class_bytes c u + unat n \<le> class_limit c" by (simp add: may_write_def)
    then have "usage_bytes (if c = Write_regular then qu_regular u else qu_terminal u) + unat n < 2 ^ 64"
      by (cases c) (simp_all add: class_bytes_def class_limit_def)
    from usage_add_durable [OF this] granted within True show ?thesis
      by (cases c) (simp_all add: w grant_def permitted_writes within_quota_def class_bytes_def)
  next
    case False
    with within show ?thesis by (simp add: w grant_def permitted_writes)
  qed
qed

lemma granted_within: "within_quota (foldl (grant run) no_usage ws)"
proof -
  have "within_quota u \<Longrightarrow> within_quota (foldl (grant run) u ws)" for u
    by (induction ws arbitrary: u) (simp_all add: grant_within)
  moreover have "within_quota no_usage"
    by (simp add: within_quota_def no_usage_def class_bytes_def usage_bytes_def class_limit_def Let_def)
  ultimately show ?thesis by blast
qed

lemma quota_diagnostic_well_formed:
  "is_identifier run \<Longrightarrow> length detail \<le> max_reference_value_bytes \<Longrightarrow>
    well_formed_diagnostic (qf_diagnostic (quota_failure_of run reason a u detail))"
  by (cases reason)
    (simp_all add: quota_failure_of_def well_formed_diagnostic_def is_identifier_def valid_fact_field_ref_def
      consistent_availability_def unset_field_def unknown_field_def max_identity_bytes_def)

text \<open>What an answer to a write within the quota says.\<close>

lemma answer_within_quota:
  assumes "within_quota u"
  shows "case check_evidence_write run u c n available of
        Quota_permit p \<Rightarrow> unat (qp_accounted p) = class_bytes Write_regular u + class_bytes Write_terminal u + unat n
      | Quota_failure f \<Rightarrow>
          qf_checkpoint f = qu_checkpoint u \<and> qf_evidence f = Evidence_incomplete \<and>
          well_formed_diagnostic (qf_diagnostic f) \<and>
          unat (qf_accounted f) = class_bytes Write_regular u + class_bytes Write_terminal u
      | Quota_error e \<Rightarrow> \<not> (is_identifier run \<and> n \<noteq> 0 \<and> unat n \<le> class_limit c)"
proof -
  obtain a where a: "account u = Some a" using account_within [OF assms] by blast
  have sizes: "unat (ac_regular a) = class_bytes Write_regular u" "unat (ac_terminal a) = class_bytes Write_terminal u"
      "unat (ac_total a) = class_bytes Write_regular u + class_bytes Write_terminal u"
    using a by (simp_all add: account_iff)
  have limits: "class_bytes Write_regular u \<le> 8588886016" "class_bytes Write_terminal u \<le> 1048576"
    using assms by (simp_all add: within_quota_def class_limit_def)
  show ?thesis
  proof (cases "is_identifier run \<and> n \<noteq> 0")
    case True
    let ?old = "if c = Write_regular then ac_regular a else ac_terminal a"
    have old: "unat ?old = class_bytes c u" "class_bytes c u \<le> class_limit c"
      using sizes limits by (cases c; simp add: class_limit_def)+
    have wraps: "class_limit c < unat n" if "2 ^ 64 \<le> k + unat n" "k \<le> 2 ^ 34" for k
      using that by (cases c) (simp_all add: class_limit_def)
    show ?thesis
    proof (cases "checked_add ?old n")
      case None
      then have "2 ^ 64 \<le> class_bytes c u + unat n" unfolding checked_add_None old .
      moreover have "class_bytes c u \<le> 2 ^ 34" using limits by (cases c) simp_all
      ultimately have "class_limit c < unat n" by (rule wraps)
      with None True a show ?thesis by (simp add: check_evidence_write_def)
    next
      case (Some after)
      then have after: "unat after = class_bytes c u + unat n" unfolding checked_add_exact old .
      let ?r = "if c = Write_regular then after else ac_regular a"
      let ?t = "if c = Write_regular then ac_terminal a else after"
      have both: "unat ?r + unat ?t = class_bytes Write_regular u + class_bytes Write_terminal u + unat n"
        using sizes after by (cases c) auto
      show ?thesis
      proof (cases "checked_add ?r ?t")
        case None
        then have "2 ^ 64 \<le> class_bytes Write_regular u + class_bytes Write_terminal u + unat n"
          unfolding checked_add_None both .
        moreover have "class_bytes Write_regular u + class_bytes Write_terminal u \<le> 2 ^ 34"
          using limits by simp
        ultimately have "class_limit c < unat n" by (rule wraps)
        with None Some True a show ?thesis by (simp add: check_evidence_write_def Let_def)
      next
        case all: (Some in_all)
        then have "unat in_all = class_bytes Write_regular u + class_bytes Write_terminal u + unat n"
          unfolding checked_add_exact both .
        moreover have "qf_checkpoint (quota_failure_of run reason a u detail) = qu_checkpoint u"
            "qf_evidence (quota_failure_of run reason a u detail) = Evidence_incomplete"
            "qf_accounted (quota_failure_of run reason a u detail) = ac_total a" for reason detail
          by (simp_all add: quota_failure_of_def)
        ultimately show ?thesis
          using True a Some all sizes(3)
          by (simp add: check_evidence_write_def Let_def permit_def quota_diagnostic_well_formed
              max_reference_value_bytes_def)
      qed
    qed
  qed (auto simp: check_evidence_write_def)
qed

text \<open>
  C18: The quota of the evidence is kept and nothing within it is refused. After any sequence of write
  requests of a run, each permitted one becoming durable, the evidence takes at most 8 GiB and its
  terminal part at most the reserved 1 MiB; and a next write is permitted exactly when it is not empty,
  fits in what is left for its class and in the free space. In particular regular evidence never takes
  the terminal reserve. A refusal keeps the checkpoint of the usage, declares the evidence incomplete
  and carries a well-formed diagnostic.
\<close>

theorem evidence_quota_kept:
  "let u = foldl (grant run) no_usage ws in
     class_bytes Write_regular u + class_bytes Write_terminal u \<le> 8 * 2 ^ 30 \<and>
     class_bytes Write_terminal u \<le> 2 ^ 20 \<and>
     (permits (check_evidence_write run u c n available) \<longleftrightarrow>
        is_identifier run \<and> n \<noteq> 0 \<and> class_bytes c u + unat n \<le> class_limit c \<and> n \<le> available) \<and>
     (case check_evidence_write run u c n available of
        Quota_permit p \<Rightarrow> unat (qp_accounted p) = class_bytes Write_regular u + class_bytes Write_terminal u + unat n
      | Quota_failure f \<Rightarrow>
          qf_checkpoint f = qu_checkpoint u \<and> qf_evidence f = Evidence_incomplete \<and>
          well_formed_diagnostic (qf_diagnostic f) \<and>
          unat (qf_accounted f) = class_bytes Write_regular u + class_bytes Write_terminal u
      | Quota_error e \<Rightarrow> \<not> (is_identifier run \<and> n \<noteq> 0 \<and> unat n \<le> class_limit c))"
proof -
  let ?u = "foldl (grant run) no_usage ws"
  note within = granted_within [of run ws]
  have limits: "class_bytes Write_regular ?u \<le> 8588886016" "class_bytes Write_terminal ?u \<le> 1048576"
    using within by (simp_all add: within_quota_def class_limit_def)
  then show ?thesis
    using answer_within_quota [OF within] within unfolding Let_def permitted_writes may_write_def by simp
qed

subsection \<open>Materials\<close>

definition item_bytes :: "(staging_item \<Rightarrow> bool) \<Rightarrow> staging_item list \<Rightarrow> nat" where
  "item_bytes P xs = sum_list (map (\<lambda>x. unat (sg_size x)) (filter P xs))"

definition staged_item :: "staging_item \<Rightarrow> bool" where
  "staged_item x \<longleftrightarrow> sg_selected x \<and> sg_staged x"

definition new_item :: "staging_item \<Rightarrow> bool" where
  "new_item x \<longleftrightarrow> sg_selected x \<and> \<not> sg_staged x"

definition valid_item :: "staging_item \<Rightarrow> bool" where
  "valid_item x \<longleftrightarrow> is_identifier (sg_material x) \<and> sg_size x \<noteq> 0 \<and> (sg_staged x \<longrightarrow> sg_selected x)"

lemma item_bytes_simps [simp]:
  "item_bytes P [] = 0"
  "item_bytes P (x # xs) = (if P x then unat (sg_size x) else 0) + item_bytes P xs"
  by (simp_all add: item_bytes_def)

lemma item_bytes_split: "item_bytes sg_selected xs = item_bytes staged_item xs + item_bytes new_item xs"
  by (induction xs) (auto simp: staged_item_def new_item_def)

lemma staging_sums_exact:
  "unat selected = unat staged + unat to_allocate \<Longrightarrow>
    staging_sums ids selected staged to_allocate xs = Inr (s, t, n) \<longleftrightarrow>
      list_all valid_item xs \<and> distinct (map sg_material xs) \<and> ids \<inter> sg_material ` set xs = {} \<and>
      unat s = unat selected + item_bytes sg_selected xs \<and> unat t = unat staged + item_bytes staged_item xs \<and>
      unat n = unat to_allocate + item_bytes new_item xs"
proof (induction xs arbitrary: ids selected staged to_allocate)
  case Nil
  then show ?case by (auto simp: word_unat_eq_iff)
next
  case (Cons x xs)
  show ?case
  proof (cases "valid_item x \<and> sg_material x \<notin> ids")
    case False
    then show ?thesis by (auto simp: valid_item_def)
  next
    case valid: True
    show ?thesis
    proof (cases "sg_selected x")
      case False
      then have "\<not> staged_item x" "\<not> new_item x" by (simp_all add: staged_item_def new_item_def)
      moreover have "staging_sums ids selected staged to_allocate (x # xs) =
          staging_sums (insert (sg_material x) ids) selected staged to_allocate xs"
        using valid False by (simp add: valid_item_def)
      ultimately show ?thesis
        using valid False Cons.IH [OF Cons.prems, of "insert (sg_material x) ids"] by auto
    next
      case selected: True
      let ?old = "if sg_staged x then staged else to_allocate"
      show ?thesis
      proof (cases "checked_add selected (sg_size x)")
        case None
        then have "2 ^ 64 \<le> unat selected + unat (sg_size x)" unfolding checked_add_None .
        then have "unat s \<noteq> unat selected + item_bytes sg_selected (x # xs)"
          using unat_u64_bound [of s] selected by simp
        with None valid selected show ?thesis by (auto simp: valid_item_def)
      next
        case (Some selected')
        then have s': "unat selected' = unat selected + unat (sg_size x)" unfolding checked_add_exact .
        obtain m where m: "checked_add ?old (sg_size x) = Some m"
          using Cons.prems s' unat_u64_bound [of selected'] checked_add_None [of ?old "sg_size x"]
          by (cases "checked_add ?old (sg_size x)") (auto split: if_splits)
        then have m': "unat m = unat ?old + unat (sg_size x)" unfolding checked_add_exact .
        have kept: "unat selected' = unat (if sg_staged x then m else staged) + unat (if sg_staged x then to_allocate else m)"
          using Cons.prems s' m' by (simp split: if_splits)
        have step: "staging_sums ids selected staged to_allocate (x # xs) =
            staging_sums (insert (sg_material x) ids) selected' (if sg_staged x then m else staged)
              (if sg_staged x then to_allocate else m) xs"
          using valid selected Some m by (simp add: valid_item_def)
        have sums: "unat (if sg_staged x then m else staged) = unat staged + (if sg_staged x then unat (sg_size x) else 0)"
            "unat (if sg_staged x then to_allocate else m) = unat to_allocate + (if sg_staged x then 0 else unat (sg_size x))"
          using m' by (simp_all split: if_splits)
        have items: "staged_item x \<longleftrightarrow> sg_staged x" "new_item x \<longleftrightarrow> \<not> sg_staged x"
          using selected by (simp_all add: staged_item_def new_item_def)
        show ?thesis
          unfolding step Cons.IH [OF kept] sums s' using valid selected
          by (auto simp: items)
      qed
    qed
  qed
qed

definition may_stage :: "string \<Rightarrow> staging_item list \<Rightarrow> u64 \<Rightarrow> bool" where
  "may_stage run inventory available \<longleftrightarrow>
     is_identifier run \<and> length inventory \<le> max_reference_materials \<and> list_all valid_item inventory \<and>
     distinct (map sg_material inventory) \<and> 0 < item_bytes sg_selected inventory \<and>
     item_bytes sg_selected inventory \<le> 8 * 2 ^ 30 \<and>
     item_bytes new_item inventory + 12 * 2 ^ 30 \<le> unat available"

lemma staging_limits [simp]:
  "unat (staging_margin_bytes + evidence_reserve_bytes) = 12884901888" "unat max_private_material_bytes = 8589934592"
  by (simp_all add: staging_margin_bytes_def evidence_reserve_bytes_def max_private_material_bytes_def)

text \<open>
  Materials are staged exactly when they fit. For every inventory the staging is permitted exactly
  when the run is named, the items are valid, different and within the limit, at least one byte is
  selected and at most 8 GiB, and the free space holds what is still to allocate besides 12 GiB of
  margin and reserve, all as sums that do not wrap; the permit reports these sums. A rejection has a
  well-formed diagnostic, and it is given only for an inventory whose items are valid.
\<close>

theorem staging_budget_exact:
  "case check_staging_budget run inventory available of
     Staging_permit p \<Rightarrow>
       may_stage run inventory available \<and> unat (sp_selected p) = item_bytes sg_selected inventory \<and>
       unat (sp_staged p) = item_bytes staged_item inventory \<and>
       unat (sp_to_allocate p) = item_bytes new_item inventory \<and>
       unat (sp_required p) = item_bytes new_item inventory + 12 * 2 ^ 30
   | Staging_rejection r \<Rightarrow>
       \<not> may_stage run inventory available \<and> well_formed_diagnostic (sj_diagnostic r) \<and>
       list_all valid_item inventory \<and> distinct (map sg_material inventory) \<and>
       (sj_reason r = Private_limit_exceeded \<longleftrightarrow> 8 * 2 ^ 30 < item_bytes sg_selected inventory)
   | Staging_error _ \<Rightarrow> \<not> may_stage run inventory available"
proof (cases "staging_sums {} 0 0 0 inventory")
  case (Inl e)
  have "\<not> may_stage run inventory available"
  proof
    assume may: "may_stage run inventory available"
    then have small: "item_bytes sg_selected inventory < 2 ^ 64" "item_bytes staged_item inventory < 2 ^ 64"
        "item_bytes new_item inventory < 2 ^ 64"
      using item_bytes_split [of inventory] by (simp_all add: may_stage_def)
    then obtain s t n :: u64 where "unat s = item_bytes sg_selected inventory"
        "unat t = item_bytes staged_item inventory" "unat n = item_bytes new_item inventory"
      using word_of_size by meson
    with may have "staging_sums {} 0 0 0 inventory = Inr (s, t, n)"
      by (subst staging_sums_exact) (simp_all add: may_stage_def)
    with Inl show False by simp
  qed
  moreover have "inventory \<noteq> []" using Inl by auto
  ultimately show ?thesis using Inl by (simp add: check_staging_budget_def)
next
  case (Inr r)
  obtain s t n where r: "r = (s, t, n)" by (metis prod_cases3)
  from Inr have sums: "list_all valid_item inventory" "distinct (map sg_material inventory)"
      "unat s = item_bytes sg_selected inventory" "unat t = item_bytes staged_item inventory"
      "unat n = item_bytes new_item inventory"
    unfolding r by (subst (asm) staging_sums_exact; simp)+
  have selected: "s = 0 \<longleftrightarrow> item_bytes sg_selected inventory = 0" by (simp add: sums(3) [symmetric] unat_eq_0)
  show ?thesis
  proof (cases "is_identifier run \<and> inventory \<noteq> [] \<and> length inventory \<le> max_reference_materials \<and> s \<noteq> 0")
    case False
    then have "\<not> may_stage run inventory available"
      using selected by (auto simp: may_stage_def)
    with False Inr show ?thesis by (auto simp: check_staging_budget_def r not_le)
  next
    case True
    show ?thesis
    proof (cases "checked_add n (staging_margin_bytes + evidence_reserve_bytes)")
      case None
      then have "2 ^ 64 \<le> item_bytes new_item inventory + 12884901888"
        unfolding checked_add_None staging_limits sums .
      then have "\<not> may_stage run inventory available"
        using unat_u64_bound [of available] by (simp add: may_stage_def)
      with None True Inr show ?thesis by (simp add: check_staging_budget_def r)
    next
      case (Some required)
      then have required: "unat required = item_bytes new_item inventory + 12884901888"
        unfolding checked_add_exact staging_limits sums .
      have "well_formed_diagnostic (sj_diagnostic (staging_rejection_of run reason s n required))"
          "sj_reason (staging_rejection_of run reason s n required) = reason" for reason
        using True
        by (cases reason, simp_all add: staging_rejection_of_def well_formed_diagnostic_def is_identifier_def
            valid_fact_field_ref_def consistent_availability_def unset_field_def not_applicable_field_def
            max_identity_bytes_def max_reference_value_bytes_def)
      then show ?thesis
        using True Inr Some sums required selected
        by (auto simp: check_staging_budget_def r may_stage_def word_less_nat_alt)
    qed
  qed
qed

end
