(* ===== verification/Fact_Binary.thy ===== *)
theory Fact_Binary
  imports Evidence_Model Byte_Codec "HOL-Library.Monad_Syntax"
begin

text \<open>
  The binary form of a fact: the writer and the reader of \<^verbatim>\<open>tools/audio_qa/fact_batch.cpp\<close>
  (\<^verbatim>\<open>BinaryFactWriter\<close>, \<^verbatim>\<open>BinaryFactReader\<close>, \<^verbatim>\<open>encode_binary_fact\<close>, \<^verbatim>\<open>decode_binary_fact\<close>). A reader
  takes the bytes from the cursor on and returns the value and the bytes after it, or nothing where
  the code throws \<^verbatim>\<open>malformed_fact\<close>. The interface \<open>stream_format\<close> is the contract of a writer and a
  reader; every part of a fact provides it, and the round trip of a fact is composed from them.
\<close>

section \<open>Contract\<close>

locale stream_format =
  fixes put :: "'a \<Rightarrow> bytes" and get :: "bytes \<Rightarrow> ('a \<times> bytes) option" and writable :: "'a \<Rightarrow> bool"
  assumes get_put: "writable x \<Longrightarrow> get (put x @ rest) = Some (x, rest)"
    and put_get: "get bs = Some (x, rest) \<Longrightarrow> bs = put x @ rest \<and> writable x"
begin

lemma get_iff: "get bs = Some (x, rest) \<longleftrightarrow> bs = put x @ rest \<and> writable x"
proof
  show "get bs = Some (x, rest) \<Longrightarrow> bs = put x @ rest \<and> writable x" by (rule put_get)
  show "bs = put x @ rest \<and> writable x \<Longrightarrow> get bs = Some (x, rest)" by (auto intro: get_put)
qed

end

section \<open>Numbers and texts\<close>

fun read_byte :: "bytes \<Rightarrow> (u8 \<times> bytes) option" where
  "read_byte [] = None"
| "read_byte (b # bs) = Some (b, bs)"

definition read_u16 :: "bytes \<Rightarrow> (u16 \<times> bytes) option" where
  "read_u16 bs = (if length bs < 2 then None else Some (get_u16 bs 0, drop 2 bs))"

definition read_u32 :: "bytes \<Rightarrow> (u32 \<times> bytes) option" where
  "read_u32 bs = (if length bs < 4 then None else Some (get_u32 bs 0, drop 4 bs))"

definition read_u64 :: "bytes \<Rightarrow> (u64 \<times> bytes) option" where
  "read_u64 bs = (if length bs < 8 then None else Some (get_u64 bs 0, drop 8 bs))"

definition char_byte :: "char \<Rightarrow> u8" where "char_byte c = of_nat (of_char c)"

definition byte_char :: "u8 \<Rightarrow> char" where "byte_char b = char_of (unat b)"

definition write_text :: "string \<Rightarrow> bytes" where
  "write_text s = put_u32 (of_nat (length s)) @ map char_byte s"

definition read_text :: "bytes \<Rightarrow> (string \<times> bytes) option" where
  "read_text bs = do {
     (n, bs) \<leftarrow> read_u32 bs;
     if length bs < unat n then None else Some (map byte_char (take (unat n) bs), drop (unat n) bs)
   }"

lemma byte_char_byte [simp]: "byte_char (char_byte c) = c"
  by (simp add: char_byte_def byte_char_def unat_of_nat)

lemma char_byte_char [simp]: "char_byte (byte_char b) = b"
proof -
  have "unat b < 256" using unat_bounded [of b] by simp
  then show ?thesis by (simp add: char_byte_def byte_char_def)
qed

interpretation byte_format: stream_format "\<lambda>b. [b]" read_byte "\<lambda>_. True"
proof unfold_locales
  show "read_byte bs = Some (x, rest) \<Longrightarrow> bs = [x] @ rest \<and> True" for bs x rest
    by (cases bs) auto
qed simp

sublocale fixed_codec \<subseteq> stream: stream_format put
  "\<lambda>bs. if length bs < width then None else Some (get bs 0, drop width bs)" "\<lambda>_. True"
proof unfold_locales
  show "(if length bs < width then None else Some (get bs 0, drop width bs)) = Some (x, rest) \<Longrightarrow>
      bs = put x @ rest \<and> True" for bs x rest
    using put_get [of 0 bs] by (auto split: if_splits)
qed (simp add: get_first put_width)

interpretation u16_format: stream_format put_u16 read_u16 "\<lambda>_. True"
  unfolding read_u16_def [abs_def] by (rule le16.stream.stream_format_axioms)

interpretation u32_format: stream_format put_u32 read_u32 "\<lambda>_. True"
  unfolding read_u32_def [abs_def] by (rule le32.stream.stream_format_axioms)

interpretation u64_format: stream_format put_u64 read_u64 "\<lambda>_. True"
  unfolding read_u64_def [abs_def] by (rule le64.stream.stream_format_axioms)

text \<open>A text whose length fits its 32-bit count; the writer refuses any other.\<close>

definition short :: "string \<Rightarrow> bool" where "short s \<longleftrightarrow> length s < 2 ^ 32"

interpretation text_format: stream_format write_text read_text short
proof unfold_locales
  show "short x \<Longrightarrow> read_text (write_text x @ rest) = Some (x, rest)" for x rest
    by (simp add: short_def read_text_def write_text_def u32_format.get_put unat_of_nat_small comp_def)
  show "bs = write_text x @ rest \<and> short x" if "read_text bs = Some (x, rest)" for bs x rest
  proof -
    from that obtain n bs' where n: "read_u32 bs = Some (n, bs')" and le: "unat n \<le> length bs'"
      and x: "x = map byte_char (take (unat n) bs')" "rest = drop (unat n) bs'"
      by (auto simp: read_text_def bind_eq_Some_conv not_less split: if_splits)
    then have "length x = unat n" by simp
    moreover from this have "of_nat (length x) = n" by simp
    ultimately show ?thesis
      using n x unat_u32_bound [of n] by (auto simp: short_def u32_format.get_iff write_text_def comp_def)
  qed
qed

section \<open>Counted lists\<close>

fun read_many :: "nat \<Rightarrow> (bytes \<Rightarrow> ('a \<times> bytes) option) \<Rightarrow> bytes \<Rightarrow> ('a list \<times> bytes) option" where
  "read_many 0 get bs = Some ([], bs)"
| "read_many (Suc n) get bs = do {
     (x, bs) \<leftarrow> get bs;
     (xs, bs) \<leftarrow> read_many n get bs;
     Some (x # xs, bs)
   }"

definition write_counted :: "('a \<Rightarrow> bytes) \<Rightarrow> 'a list \<Rightarrow> bytes" where
  "write_counted put xs = put_u32 (of_nat (length xs)) @ concat (map put xs)"

definition read_counted :: "nat \<Rightarrow> (bytes \<Rightarrow> ('a \<times> bytes) option) \<Rightarrow> bytes \<Rightarrow> ('a list \<times> bytes) option" where
  "read_counted limit get bs = do {
     (n, bs) \<leftarrow> read_u32 bs;
     if limit < unat n then None else read_many (unat n) get bs
   }"

locale counted_format = stream_format put get writable
  for put :: "'a \<Rightarrow> bytes" and get :: "bytes \<Rightarrow> ('a \<times> bytes) option" and writable :: "'a \<Rightarrow> bool" +
  fixes limit :: nat
  assumes limit_fits: "limit < 2 ^ 32"
begin

lemma read_many_write:
  "list_all writable xs \<Longrightarrow> read_many (length xs) get (concat (map put xs) @ rest) = Some (xs, rest)"
  by (induction xs) (simp_all add: get_put)

lemma read_manyD:
  "read_many n get bs = Some (xs, rest) \<Longrightarrow>
    length xs = n \<and> bs = concat (map put xs) @ rest \<and> list_all writable xs"
proof (induction n arbitrary: bs xs)
  case (Suc n)
  then show ?case by (auto simp: bind_eq_Some_conv get_iff)
qed simp

end

sublocale counted_format \<subseteq> counted: stream_format "write_counted put" "read_counted limit get"
  "\<lambda>xs. length xs \<le> limit \<and> list_all writable xs"
proof unfold_locales
  show "length xs \<le> limit \<and> list_all writable xs \<Longrightarrow>
      read_counted limit get (write_counted put xs @ rest) = Some (xs, rest)" for xs rest
    using limit_fits
    by (simp add: read_counted_def write_counted_def u32_format.get_put unat_of_nat_small read_many_write)
  show "bs = write_counted put xs @ rest \<and> length xs \<le> limit \<and> list_all writable xs"
    if "read_counted limit get bs = Some (xs, rest)" for bs xs rest
  proof -
    from that obtain n bs' where n: "read_u32 bs = Some (n, bs')" and le: "unat n \<le> limit"
      and many: "read_many (unat n) get bs' = Some (xs, rest)"
      by (auto simp: read_counted_def bind_eq_Some_conv not_less split: if_splits)
    from read_manyD [OF many] have "length xs = unat n" by blast
    moreover from this have "of_nat (length xs) = n" by simp
    ultimately show ?thesis
      using n le read_manyD [OF many] by (auto simp: u32_format.get_iff write_counted_def)
  qed
qed

section \<open>The parts of a fact\<close>

fun availability_code :: "availability \<Rightarrow> u8" where
  "availability_code Known = 0"
| "availability_code Not_applicable = 1"
| "availability_code Unknown = 2"

definition write_availability :: "availability \<Rightarrow> bytes" where
  "write_availability a = [availability_code a]"

definition read_availability :: "bytes \<Rightarrow> (availability \<times> bytes) option" where
  "read_availability bs = do {
     (v, bs) \<leftarrow> read_byte bs;
     if 3 \<le> v then None
     else Some (if v = 0 then Known else if v = 1 then Not_applicable else Unknown, bs)
   }"

definition write_fact_id :: "fact_id \<Rightarrow> bytes" where
  "write_fact_id i = write_text (id_run i) @ write_text (id_producer i) @ put_u64 (id_sequence i)"

definition read_fact_id :: "bytes \<Rightarrow> (fact_id \<times> bytes) option" where
  "read_fact_id bs = do {
     (run, bs) \<leftarrow> read_text bs;
     (producer, bs) \<leftarrow> read_text bs;
     (sequence, bs) \<leftarrow> read_u64 bs;
     Some (\<lparr>id_run = run, id_producer = producer, id_sequence = sequence\<rparr>, bs)
   }"

text \<open>A value follows the availability and the reason only when it is known.\<close>

definition write_field :: "('a \<Rightarrow> bytes) \<Rightarrow> 'a field \<Rightarrow> bytes" where
  "write_field put f =
     write_availability (fd_availability f) @ write_text (fd_reason f) @
     (case fd_value f of None \<Rightarrow> [] | Some x \<Rightarrow> put x)"

definition read_field :: "(bytes \<Rightarrow> ('a \<times> bytes) option) \<Rightarrow> bytes \<Rightarrow> ('a field \<times> bytes) option" where
  "read_field get bs = do {
     (a, bs) \<leftarrow> read_availability bs;
     (reason, bs) \<leftarrow> read_text bs;
     if a = Known
     then do {
       (x, bs) \<leftarrow> get bs;
       Some (\<lparr>fd_availability = a, fd_value = Some x, fd_reason = reason\<rparr>, bs)
     }
     else Some (\<lparr>fd_availability = a, fd_value = None, fd_reason = reason\<rparr>, bs)
   }"

fun write_cause :: "cause \<Rightarrow> bytes" where
  "write_cause (Cause_fact i) = 0 # write_fact_id i"
| "write_cause (Cause_preexisting context_id) = 1 # write_text context_id"

definition read_cause :: "bytes \<Rightarrow> (cause \<times> bytes) option" where
  "read_cause bs = do {
     (type, bs) \<leftarrow> read_byte bs;
     if type = 0 then do { (i, bs) \<leftarrow> read_fact_id bs; Some (Cause_fact i, bs) }
     else if type = 1 then do { (context_id, bs) \<leftarrow> read_text bs; Some (Cause_preexisting context_id, bs) }
     else None
   }"

definition write_order :: "state_order \<Rightarrow> bytes" where
  "write_order p = write_text (so_state p) @ put_u64 (so_sequence p)"

definition read_order :: "bytes \<Rightarrow> (state_order \<times> bytes) option" where
  "read_order bs = do {
     (state, bs) \<leftarrow> read_text bs;
     (sequence, bs) \<leftarrow> read_u64 bs;
     Some (\<lparr>so_state = state, so_sequence = sequence\<rparr>, bs)
   }"

fun unit_code :: "field_unit \<Rightarrow> u8" where
  "unit_code Unit_none = 0"
| "unit_code Unit_emulation_frame = 1"
| "unit_code Unit_sample_frame = 2"
| "unit_code Unit_bytes = 3"
| "unit_code Unit_count = 4"
| "unit_code Unit_linear_gain = 5"
| "unit_code Unit_frames_per_second = 6"
| "unit_code Unit_nanoseconds = 7"

definition field_units :: "field_unit list" where
  "field_units =
     [Unit_none, Unit_emulation_frame, Unit_sample_frame, Unit_bytes, Unit_count, Unit_linear_gain,
      Unit_frames_per_second, Unit_nanoseconds]"

definition read_unit :: "bytes \<Rightarrow> (field_unit \<times> bytes) option" where
  "read_unit bs = do {
     (v, bs) \<leftarrow> read_byte bs;
     if 8 \<le> v then None else Some (field_units ! unat v, bs)
   }"

fun content_index :: "field_content \<Rightarrow> u8" where
  "content_index Content_none = 0"
| "content_index (Content_bool b) = 1"
| "content_index (Content_unsigned n) = 2"
| "content_index (Content_signed n) = 3"
| "content_index (Content_double n) = 4"
| "content_index (Content_text s) = 5"
| "content_index (Content_fact i) = 6"

fun write_content :: "field_content \<Rightarrow> bytes" where
  "write_content Content_none = []"
| "write_content (Content_bool b) = [if b then 1 else 0]"
| "write_content (Content_unsigned n) = put_u64 n"
| "write_content (Content_signed n) = put_u64 n"
| "write_content (Content_double n) = put_u64 n"
| "write_content (Content_text s) = write_text s"
| "write_content (Content_fact i) = write_fact_id i"

definition read_content :: "u8 \<Rightarrow> bytes \<Rightarrow> (field_content \<times> bytes) option" where
  "read_content type bs =
     (if type = 0 then Some (Content_none, bs)
      else if type = 1 then do { (v, bs) \<leftarrow> read_byte bs; if 1 < v then None else Some (Content_bool (v \<noteq> 0), bs) }
      else if type = 2 then do { (n, bs) \<leftarrow> read_u64 bs; Some (Content_unsigned n, bs) }
      else if type = 3 then do { (n, bs) \<leftarrow> read_u64 bs; Some (Content_signed n, bs) }
      else if type = 4 then do { (n, bs) \<leftarrow> read_u64 bs; Some (Content_double n, bs) }
      else if type = 5 then do { (s, bs) \<leftarrow> read_text bs; Some (Content_text s, bs) }
      else if type = 6 then do { (i, bs) \<leftarrow> read_fact_id bs; Some (Content_fact i, bs) }
      else None)"

definition write_binary_field :: "fact_field \<Rightarrow> bytes" where
  "write_binary_field f =
     write_text (ff_name f) @ write_availability (ff_availability f) @ [unit_code (ff_unit f)] @
     [content_index (ff_value f)] @ write_text (ff_reason f) @ write_content (ff_value f)"

definition read_binary_field :: "bytes \<Rightarrow> (fact_field \<times> bytes) option" where
  "read_binary_field bs = do {
     (name, bs) \<leftarrow> read_text bs;
     (a, bs) \<leftarrow> read_availability bs;
     (unit, bs) \<leftarrow> read_unit bs;
     (type, bs) \<leftarrow> read_byte bs;
     (reason, bs) \<leftarrow> read_text bs;
     (v, bs) \<leftarrow> read_content type bs;
     Some (\<lparr>ff_name = name, ff_availability = a, ff_unit = unit, ff_value = v, ff_reason = reason\<rparr>, bs)
   }"

section \<open>A fact\<close>

definition binary_fact_magic :: bytes where "binary_fact_magic = map char_byte ''AQF4''"

definition fact_preamble :: bytes where
  "fact_preamble = binary_fact_magic @ [1, 4] @ put_u16 0"

definition write_fact :: "qa_fact \<Rightarrow> bytes" where
  "write_fact f =
     write_fact_id (ft_id f) @ write_text (ft_kind f) @ write_field put_u64 (ft_frame_index f) @
     write_counted write_cause (ft_causes f) @
     write_field write_text (ft_decision f) @ write_field write_text (ft_assignment f) @
     write_field write_text (ft_occurrence f) @ write_field write_text (ft_reason f) @
     write_field (write_counted write_order) (ft_order f) @
     write_counted write_binary_field (ft_fields f)"

definition read_fact :: "bytes \<Rightarrow> (qa_fact \<times> bytes) option" where
  "read_fact bs = do {
     (i, bs) \<leftarrow> read_fact_id bs;
     (kind, bs) \<leftarrow> read_text bs;
     (frame, bs) \<leftarrow> read_field read_u64 bs;
     (causes, bs) \<leftarrow> read_counted max_fact_causes read_cause bs;
     (decision, bs) \<leftarrow> read_field read_text bs;
     (assignment, bs) \<leftarrow> read_field read_text bs;
     (occurrence, bs) \<leftarrow> read_field read_text bs;
     (reason, bs) \<leftarrow> read_field read_text bs;
     (order, bs) \<leftarrow> read_field (read_counted max_fact_state_orders read_order) bs;
     (fields, bs) \<leftarrow> read_counted max_fact_fields read_binary_field bs;
     Some (\<lparr>ft_id = i, ft_kind = kind, ft_frame_index = frame, ft_causes = causes, ft_decision = decision,
            ft_assignment = assignment, ft_occurrence = occurrence, ft_reason = reason, ft_order = order,
            ft_fields = fields\<rparr>, bs)
   }"

datatype fact_batch_error =
  Batch_invalid_fact | Batch_invalid_count | Batch_fact_too_large | Batch_too_large | Batch_header_rejected
  | Batch_wrong_type | Batch_sequence_mismatch | Batch_truncated | Batch_length_mismatch | Batch_malformed_fact

definition encode_binary_fact :: "qa_fact \<Rightarrow> fact_batch_error + bytes" where
  "encode_binary_fact f =
     (if \<not> well_formed_fact f then Inl Batch_invalid_fact else Inr (fact_preamble @ write_fact f))"

definition decode_binary_fact :: "bytes \<Rightarrow> fact_batch_error + qa_fact" where
  "decode_binary_fact bs =
     (if take 8 bs \<noteq> fact_preamble then Inl Batch_malformed_fact
      else case read_fact (drop 8 bs) of
        None \<Rightarrow> Inl Batch_malformed_fact
      | Some (f, rest) \<Rightarrow> if rest \<noteq> [] \<or> \<not> well_formed_fact f then Inl Batch_malformed_fact else Inr f)"

definition is_binary_fact :: "bytes \<Rightarrow> bool" where
  "is_binary_fact bs \<longleftrightarrow> take 4 bs = binary_fact_magic"

section \<open>The parts provide the contract\<close>

definition writable_id :: "fact_id \<Rightarrow> bool" where
  "writable_id i \<longleftrightarrow> short (id_run i) \<and> short (id_producer i)"

definition writable_field :: "('a \<Rightarrow> bool) \<Rightarrow> 'a field \<Rightarrow> bool" where
  "writable_field writable f \<longleftrightarrow>
     short (fd_reason f) \<and>
     (case fd_value f of None \<Rightarrow> fd_availability f \<noteq> Known | Some x \<Rightarrow> fd_availability f = Known \<and> writable x)"

fun writable_cause :: "cause \<Rightarrow> bool" where
  "writable_cause (Cause_fact i) = writable_id i"
| "writable_cause (Cause_preexisting s) = short s"

fun writable_content :: "field_content \<Rightarrow> bool" where
  "writable_content (Content_text s) = short s"
| "writable_content (Content_fact i) = writable_id i"
| "writable_content _ = True"

definition writable_fact_field :: "fact_field \<Rightarrow> bool" where
  "writable_fact_field f \<longleftrightarrow> short (ff_name f) \<and> short (ff_reason f) \<and> writable_content (ff_value f)"

lemmas bind_iff = bind_eq_Some_conv split_paired_Ex

lemma small_word: "unat (v :: u8) < n \<Longrightarrow> \<exists>k < n. v = of_nat k"
  by (rule exI [of _ "unat v"]) simp

interpretation availability_format: stream_format write_availability read_availability "\<lambda>_. True"
proof unfold_locales
  show "read_availability (write_availability x @ rest) = Some (x, rest)" for x rest
    by (cases x) (simp_all add: read_availability_def write_availability_def word_le_nat_alt)
  show "bs = write_availability x @ rest \<and> True" if "read_availability bs = Some (x, rest)" for bs x rest
  proof -
    from that obtain v where "bs = v # rest" "\<not> 3 \<le> v"
      and x: "x = (if v = 0 then Known else if v = 1 then Not_applicable else Unknown)"
      by (auto simp: read_availability_def bind_iff byte_format.get_iff split: if_splits)
    moreover from \<open>\<not> 3 \<le> v\<close> have "unat v < 3" by (simp add: word_le_nat_alt)
    then have "v = of_nat 0 \<or> v = of_nat 1 \<or> v = of_nat 2"
      using small_word [of v 3] by (auto simp: less_Suc_eq numeral_3_eq_3)
    ultimately show ?thesis by (auto simp: write_availability_def)
  qed
qed

interpretation id_format: stream_format write_fact_id read_fact_id writable_id
proof unfold_locales
  show "writable_id x \<Longrightarrow> read_fact_id (write_fact_id x @ rest) = Some (x, rest)" for x rest
    by (simp add: read_fact_id_def write_fact_id_def writable_id_def text_format.get_put u64_format.get_put)
  show "read_fact_id bs = Some (x, rest) \<Longrightarrow> bs = write_fact_id x @ rest \<and> writable_id x" for bs x rest
    by (auto simp: read_fact_id_def write_fact_id_def writable_id_def bind_iff text_format.get_iff
        u64_format.get_iff)
qed

interpretation cause_format: stream_format write_cause read_cause writable_cause
proof unfold_locales
  show "writable_cause x \<Longrightarrow> read_cause (write_cause x @ rest) = Some (x, rest)" for x rest
    by (cases x) (simp_all add: read_cause_def text_format.get_put id_format.get_put)
  show "read_cause bs = Some (x, rest) \<Longrightarrow> bs = write_cause x @ rest \<and> writable_cause x" for bs x rest
    by (auto simp: read_cause_def bind_iff byte_format.get_iff text_format.get_iff id_format.get_iff
        split: if_splits)
qed

interpretation order_format: stream_format write_order read_order "\<lambda>p. short (so_state p)"
proof unfold_locales
  show "short (so_state x) \<Longrightarrow> read_order (write_order x @ rest) = Some (x, rest)" for x rest
    by (simp add: read_order_def write_order_def text_format.get_put u64_format.get_put)
  show "read_order bs = Some (x, rest) \<Longrightarrow> bs = write_order x @ rest \<and> short (so_state x)" for bs x rest
    by (auto simp: read_order_def write_order_def bind_iff text_format.get_iff u64_format.get_iff)
qed

interpretation unit_format: stream_format "\<lambda>u. [unit_code u]" read_unit "\<lambda>_. True"
proof unfold_locales
  show "read_unit ([unit_code x] @ rest) = Some (x, rest)" for x rest
    by (cases x) (simp_all add: read_unit_def field_units_def word_le_nat_alt)
  show "bs = [unit_code x] @ rest \<and> True" if "read_unit bs = Some (x, rest)" for bs x rest
  proof -
    from that obtain v where v: "bs = v # rest" "\<not> 8 \<le> v" "x = field_units ! unat v"
      by (auto simp: read_unit_def bind_iff byte_format.get_iff split: if_splits)
    then have "unat v < 8" by (simp add: word_le_nat_alt)
    then have "unat v \<in> {0, 1, 2, 3, 4, 5, 6, 7}" by auto
    then have "unat (unit_code x) = unat v" using v(3) by (auto simp: field_units_def)
    then have "unit_code x = v" by (rule unsigned_word_eqI)
    with v show ?thesis by simp
  qed
qed

lemma read_content_write:
  "writable_content c \<Longrightarrow> read_content (content_index c) (write_content c @ rest) = Some (c, rest)"
  by (cases c) (simp_all add: read_content_def u64_format.get_put text_format.get_put id_format.get_put)

lemma bool_byte: "\<not> 1 < (v :: u8) \<Longrightarrow> v = (if v \<noteq> 0 then 1 else 0)"
proof -
  assume "\<not> 1 < v"
  then have "unat v < 2" by (simp add: word_less_nat_alt)
  from small_word [OF this] obtain k where "k < 2" "v = of_nat k" by blast
  then show ?thesis by (auto dest: less_2_cases)
qed

lemma read_contentD:
  assumes "read_content t bs = Some (c, rest)"
  shows "t = content_index c \<and> bs = write_content c @ rest \<and> writable_content c"
  using assms bool_byte
  by (auto simp: read_content_def bind_iff byte_format.get_iff u64_format.get_iff text_format.get_iff
      id_format.get_iff split: if_splits)

interpretation fact_field_format: stream_format write_binary_field read_binary_field writable_fact_field
proof unfold_locales
  show "writable_fact_field x \<Longrightarrow> read_binary_field (write_binary_field x @ rest) = Some (x, rest)" for x rest
    using read_content_write [of "ff_value x" rest] unit_format.get_put [of "ff_unit x"]
    by (simp add: read_binary_field_def write_binary_field_def writable_fact_field_def text_format.get_put
        availability_format.get_put)
  show "read_binary_field bs = Some (x, rest) \<Longrightarrow> bs = write_binary_field x @ rest \<and> writable_fact_field x"
    for bs x rest
    by (auto simp: read_binary_field_def write_binary_field_def writable_fact_field_def bind_iff
        text_format.get_iff availability_format.get_iff unit_format.get_iff byte_format.get_iff
        dest!: read_contentD)
qed

locale field_format = stream_format

sublocale field_format \<subseteq> field: stream_format "write_field put" "read_field get" "writable_field writable"
proof unfold_locales
  show "writable_field writable f \<Longrightarrow> read_field get (write_field put f @ rest) = Some (f, rest)" for f rest
    by (cases f; cases "fd_value f")
       (auto simp: read_field_def write_field_def writable_field_def availability_format.get_put
         text_format.get_put get_put)
  show "read_field get bs = Some (f, rest) \<Longrightarrow> bs = write_field put f @ rest \<and> writable_field writable f"
    for bs f rest
    by (auto simp: read_field_def write_field_def writable_field_def bind_iff availability_format.get_iff
        text_format.get_iff get_iff split: if_splits)
qed

interpretation causes_format: counted_format write_cause read_cause writable_cause max_fact_causes
  by unfold_locales (simp add: max_fact_causes_def)

interpretation orders_format: counted_format write_order read_order "\<lambda>p. short (so_state p)" max_fact_state_orders
  by unfold_locales (simp add: max_fact_state_orders_def)

interpretation fields_format: counted_format write_binary_field read_binary_field writable_fact_field max_fact_fields
  by unfold_locales (simp add: max_fact_fields_def)

interpretation frame_format: field_format put_u64 read_u64 "\<lambda>_. True"
  by (rule field_format.intro) (rule u64_format.stream_format_axioms)

interpretation text_field_format: field_format write_text read_text short
  by (rule field_format.intro) (rule text_format.stream_format_axioms)

interpretation order_field_format: field_format "write_counted write_order"
    "read_counted max_fact_state_orders read_order"
    "\<lambda>xs. length xs \<le> max_fact_state_orders \<and> list_all (\<lambda>p. short (so_state p)) xs"
  by (rule field_format.intro) (rule orders_format.counted.stream_format_axioms)

section \<open>The round trip\<close>

definition writable_fact :: "qa_fact \<Rightarrow> bool" where
  "writable_fact f \<longleftrightarrow>
     writable_id (ft_id f) \<and> short (ft_kind f) \<and> writable_field (\<lambda>_. True) (ft_frame_index f) \<and>
     length (ft_causes f) \<le> max_fact_causes \<and> list_all writable_cause (ft_causes f) \<and>
     writable_field short (ft_decision f) \<and> writable_field short (ft_assignment f) \<and>
     writable_field short (ft_occurrence f) \<and> writable_field short (ft_reason f) \<and>
     writable_field (\<lambda>xs. length xs \<le> max_fact_state_orders \<and> list_all (\<lambda>p. short (so_state p)) xs) (ft_order f) \<and>
     length (ft_fields f) \<le> max_fact_fields \<and> list_all writable_fact_field (ft_fields f)"

lemmas part_get_put =
  id_format.get_put text_format.get_put frame_format.field.get_put causes_format.counted.get_put
  text_field_format.field.get_put order_field_format.field.get_put fields_format.counted.get_put

lemmas part_get_iff =
  id_format.get_iff text_format.get_iff frame_format.field.get_iff causes_format.counted.get_iff
  text_field_format.field.get_iff order_field_format.field.get_iff fields_format.counted.get_iff

interpretation fact_format: stream_format write_fact read_fact writable_fact
proof unfold_locales
  show "writable_fact x \<Longrightarrow> read_fact (write_fact x @ rest) = Some (x, rest)" for x rest
    by (simp add: read_fact_def write_fact_def writable_fact_def part_get_put)
  show "read_fact bs = Some (x, rest) \<Longrightarrow> bs = write_fact x @ rest \<and> writable_fact x" for bs x rest
    by (auto simp: read_fact_def write_fact_def writable_fact_def bind_iff part_get_iff)
qed

text \<open>Every well-formed fact can be written: its texts and lists are bounded.\<close>

lemma identifier_short: "is_identifier s \<Longrightarrow> short s"
  by (simp add: short_def is_identifier_def max_identity_bytes_def)

lemma limited_short: "length s \<le> max_fact_field_text_bytes \<Longrightarrow> short s"
  by (simp add: short_def max_fact_field_text_bytes_def)

lemma consistent_writable:
  "consistent_availability f \<Longrightarrow> (case fd_value f of None \<Rightarrow> True | Some x \<Rightarrow> writable x) \<Longrightarrow>
    writable_field writable f"
  by (auto simp: short_def consistent_availability_def writable_field_def max_identity_bytes_def
      split: option.splits availability.splits)

lemma text_field_writable: "valid_text_field f \<Longrightarrow> writable_field short f"
  by (auto simp: valid_text_field_def intro!: consistent_writable identifier_short split: option.splits)

lemma id_writable: "valid_fact_id i \<Longrightarrow> writable_id i"
  by (simp add: valid_fact_id_def writable_id_def identifier_short)

lemma cause_writable: "valid_cause i c \<Longrightarrow> writable_cause c"
  by (cases c) (simp_all add: id_writable identifier_short)

lemma fact_field_writable: "valid_fact_field run f \<Longrightarrow> writable_fact_field f"
  by (cases "ff_value f")
     (simp_all add: valid_fact_field_def writable_fact_field_def identifier_short id_writable limited_short)

lemma order_writable:
  "valid_order xs \<Longrightarrow> length xs \<le> max_fact_state_orders \<and> list_all (\<lambda>p. short (so_state p)) xs"
  by (auto simp: valid_order_def list_all_iff identifier_short)

lemma well_formed_writable:
  assumes "well_formed_fact f"
  shows "writable_fact f"
proof -
  have "writable_field (\<lambda>xs. length xs \<le> max_fact_state_orders \<and> list_all (\<lambda>p. short (so_state p)) xs) (ft_order f)"
    using assms by (intro consistent_writable) (auto simp: well_formed_fact_def order_writable split: option.splits)
  moreover have "writable_field (\<lambda>_. True) (ft_frame_index f)"
    using assms by (intro consistent_writable) (auto simp: well_formed_fact_def split: option.splits)
  ultimately show ?thesis
    using assms
    by (auto simp: well_formed_fact_def writable_fact_def id_writable identifier_short text_field_writable
        list_all_iff intro: cause_writable fact_field_writable)
qed

lemma binary_fact_exact:
  "decode_binary_fact bs = Inr f \<longleftrightarrow> encode_binary_fact f = Inr bs"
proof -
  have "length fact_preamble = 8"
    by (simp add: fact_preamble_def binary_fact_magic_def)
  then have split: "take 8 bs = fact_preamble \<and> drop 8 bs = w \<longleftrightarrow> fact_preamble @ w = bs" for w
    by (auto simp: append_eq_conv_conj)
  have "decode_binary_fact bs = Inr f \<longleftrightarrow>
      take 8 bs = fact_preamble \<and> read_fact (drop 8 bs) = Some (f, []) \<and> well_formed_fact f"
    by (auto simp: decode_binary_fact_def split: option.splits)
  also have "\<dots> \<longleftrightarrow> take 8 bs = fact_preamble \<and> drop 8 bs = write_fact f \<and> well_formed_fact f"
    using well_formed_writable [of f] by (auto simp: fact_format.get_iff)
  also have "\<dots> \<longleftrightarrow> bs = fact_preamble @ write_fact f \<and> well_formed_fact f"
    unfolding conj_assoc [symmetric] split by (simp only: eq_commute)
  finally show ?thesis
    by (auto simp: encode_binary_fact_def)
qed

text \<open>
  The binary form of a fact is exact. For every fact and every buffer, decoding the buffer gives
  the fact exactly when encoding the fact gives the buffer: every well-formed fact is read back as it
  was, whatever its identities, causes, orders and fields hold, and a buffer that is not byte for byte
  the encoding of a well-formed fact is rejected.
\<close>

theorem binary_fact_roundtrip:
  "decode_binary_fact bs = Inr f \<longleftrightarrow> encode_binary_fact f = Inr bs"
  by (rule binary_fact_exact)

end
