(* ===== verification/Fact_Document.thy ===== *)
theory Fact_Document
  imports Fact_Binary Text_Scan
begin

text \<open>
  The text form of a fact, a TOML document, and the batches in which facts are sent:
  \<^verbatim>\<open>tools/audio_qa/fact_batch.{h,cpp}\<close>. The TOML library prints and parses documents and converts
  nodes; it is the record \<open>toml_library\<close>, an argument of the functions that use it, as are the
  conversions of the C++ library between doubles and texts. A table is a map from keys to nodes. The
  functions return nothing where the code throws \<^verbatim>\<open>malformed_fact\<close>.
\<close>

section \<open>Documents\<close>

datatype toml =
  Toml_text string | Toml_integer int | Toml_boolean bool | Toml_float u64 | Toml_list "toml list"
  | Toml_map "string \<Rightarrow> toml option" | Toml_date

type_synonym toml_doc = "string \<Rightarrow> toml option"

record toml_library =
  tl_print :: "toml_doc \<Rightarrow> string"
  tl_parse :: "string \<Rightarrow> toml_doc option"
  tl_integer :: "toml \<Rightarrow> int option"
  tl_boolean :: "toml \<Rightarrow> bool option"
  tl_double :: "toml \<Rightarrow> u64 option"
  tl_double_text :: "u64 \<Rightarrow> string"
  tl_double_value :: "string \<Rightarrow> u64 option"

fun text_of :: "toml option \<Rightarrow> string option" where
  "text_of (Some (Toml_text s)) = Some s"
| "text_of _ = None"

fun map_of_node :: "toml option \<Rightarrow> toml_doc option" where
  "map_of_node (Some (Toml_map t)) = Some t"
| "map_of_node _ = None"

fun list_of_node :: "toml option \<Rightarrow> toml list option" where
  "list_of_node (Some (Toml_list xs)) = Some xs"
| "list_of_node _ = None"

definition integer_of :: "toml_library \<Rightarrow> toml option \<Rightarrow> int option" where
  "integer_of L n = Option.bind n (tl_integer L)"

fun availability_name :: "availability \<Rightarrow> string" where
  "availability_name Known = ''known''"
| "availability_name Not_applicable = ''not_applicable''"
| "availability_name Unknown = ''unknown''"

definition availability_named :: "string \<Rightarrow> availability option" where
  "availability_named s = List.find (\<lambda>a. s = availability_name a) [Known, Not_applicable, Unknown]"

definition availability_value :: "toml_doc \<Rightarrow> availability option" where
  "availability_value t = Option.bind (text_of (t ''availability'')) availability_named"

fun unit_name :: "field_unit \<Rightarrow> string" where
  "unit_name Unit_none = ''none''"
| "unit_name Unit_emulation_frame = ''emulation_frame''"
| "unit_name Unit_sample_frame = ''sample_frame''"
| "unit_name Unit_bytes = ''bytes''"
| "unit_name Unit_count = ''count''"
| "unit_name Unit_linear_gain = ''linear_gain''"
| "unit_name Unit_frames_per_second = ''frames_per_second''"
| "unit_name Unit_nanoseconds = ''nanoseconds''"

definition unit_named :: "string \<Rightarrow> field_unit option" where
  "unit_named s = List.find (\<lambda>u. s = unit_name u) field_units"

text \<open>Decimal texts: a sign is never written in front of an unsigned number.\<close>

definition decimal_text :: "string \<Rightarrow> u64 option" where
  "decimal_text s =
     (if s = [] \<or> hd s = CHR ''+'' \<or> hd s = CHR ''-'' then None
      else map_option of_nat (parse_number (2 ^ 64) s))"

definition decimal :: "toml option \<Rightarrow> u64 option" where
  "decimal n = Option.bind (text_of n) decimal_text"

definition signed_decimal_text :: "string \<Rightarrow> u64 option" where
  "signed_decimal_text s =
     (if s = [] \<or> hd s = CHR ''+'' then None
      else if hd s = CHR ''-'' then map_option (\<lambda>n. - of_nat n) (parse_number (2 ^ 63 + 1) (tl s))
      else map_option of_nat (parse_number (2 ^ 63) s))"

definition signed_decimal :: "toml option \<Rightarrow> u64 option" where
  "signed_decimal n = Option.bind (text_of n) signed_decimal_text"

definition unsigned_text :: "u64 \<Rightarrow> string" where
  "unsigned_text n = to_string (unat n)"

definition signed_text :: "u64 \<Rightarrow> string" where
  "signed_text n = (if sint n < 0 then CHR ''-'' # to_string (nat (- sint n)) else to_string (nat (sint n)))"

section \<open>The parts of a fact\<close>

definition reason_text :: "toml_doc \<Rightarrow> string" where
  "reason_text t = (case text_of (t ''reason_code'') of None \<Rightarrow> [] | Some s \<Rightarrow> s)"

definition field_doc :: "('a \<Rightarrow> toml) \<Rightarrow> 'a field \<Rightarrow> toml_doc" where
  "field_doc node f =
     (let t = [''availability'' \<mapsto> Toml_text (availability_name (fd_availability f)),
               ''reason_code'' \<mapsto> Toml_text (fd_reason f)]
      in case fd_value f of None \<Rightarrow> t | Some x \<Rightarrow> t(''value'' \<mapsto> node x))"

definition parse_string_field :: "toml option \<Rightarrow> string field option" where
  "parse_string_field n = do {
     t \<leftarrow> map_of_node n;
     a \<leftarrow> availability_value t;
     Some \<lparr>fd_availability = a, fd_value = text_of (t ''value''), fd_reason = reason_text t\<rparr>
   }"

definition parse_frame :: "toml option \<Rightarrow> u64 field option" where
  "parse_frame n = do {
     t \<leftarrow> map_of_node n;
     a \<leftarrow> availability_value t;
     v \<leftarrow> (if t ''value'' = None then Some None else map_option Some (decimal (t ''value'')));
     Some \<lparr>fd_availability = a, fd_value = v, fd_reason = reason_text t\<rparr>
   }"

definition id_doc :: "fact_id \<Rightarrow> toml_doc" where
  "id_doc i =
     [''run_id'' \<mapsto> Toml_text (id_run i), ''producer_id'' \<mapsto> Toml_text (id_producer i),
      ''producer_sequence'' \<mapsto> Toml_text (unsigned_text (id_sequence i))]"

definition parse_id :: "toml_doc \<Rightarrow> fact_id option" where
  "parse_id t = do {
     run \<leftarrow> text_of (t ''run_id'');
     producer \<leftarrow> text_of (t ''producer_id'');
     sequence \<leftarrow> decimal (t ''producer_sequence'');
     Some \<lparr>id_run = run, id_producer = producer, id_sequence = sequence\<rparr>
   }"

fun cause_node :: "cause \<Rightarrow> toml" where
  "cause_node (Cause_fact i) = Toml_map ((id_doc i)(''type'' \<mapsto> Toml_text ''fact''))"
| "cause_node (Cause_preexisting s) =
     Toml_map [''type'' \<mapsto> Toml_text ''preexisting'', ''context_id'' \<mapsto> Toml_text s]"

definition parse_cause :: "toml \<Rightarrow> cause option" where
  "parse_cause n = do {
     t \<leftarrow> map_of_node (Some n);
     if text_of (t ''type'') = Some ''fact'' then map_option Cause_fact (parse_id t)
     else if text_of (t ''type'') = Some ''preexisting''
     then map_option Cause_preexisting (text_of (t ''context_id''))
     else None
   }"

definition order_node :: "state_order \<Rightarrow> toml" where
  "order_node p =
     Toml_map [''state_id'' \<mapsto> Toml_text (so_state p), ''sequence'' \<mapsto> Toml_text (unsigned_text (so_sequence p))]"

definition parse_order_item :: "toml \<Rightarrow> state_order option" where
  "parse_order_item n = do {
     t \<leftarrow> map_of_node (Some n);
     state \<leftarrow> text_of (t ''state_id'');
     sequence \<leftarrow> decimal (t ''sequence'');
     Some \<lparr>so_state = state, so_sequence = sequence\<rparr>
   }"

text \<open>Every element must be read.\<close>

fun parse_all :: "('a \<Rightarrow> 'b option) \<Rightarrow> 'a list \<Rightarrow> 'b list option" where
  "parse_all f [] = Some []"
| "parse_all f (x # xs) = do { y \<leftarrow> f x; ys \<leftarrow> parse_all f xs; Some (y # ys) }"

definition parse_order :: "toml_doc \<Rightarrow> state_order list field option" where
  "parse_order t = do {
     a \<leftarrow> availability_value t;
     v \<leftarrow> (case list_of_node (t ''value'') of
             None \<Rightarrow> Some None
           | Some items \<Rightarrow> map_option Some (parse_all parse_order_item items));
     Some \<lparr>fd_availability = a, fd_value = v, fd_reason = reason_text t\<rparr>
   }"

section \<open>Observation fields\<close>

text \<open>A field is written as nine texts; two forms are read, the nine texts and a table.\<close>

fun content_texts :: "toml_library \<Rightarrow> field_content \<Rightarrow> string \<times> string \<times> string \<times> string \<times> string" where
  "content_texts L Content_none = (''none'', [], [], [], [])"
| "content_texts L (Content_bool b) = (''bool'', if b then ''true'' else ''false'', [], [], [])"
| "content_texts L (Content_unsigned n) = (''uint64'', unsigned_text n, [], [], [])"
| "content_texts L (Content_signed n) = (''int64'', signed_text n, [], [], [])"
| "content_texts L (Content_double n) = (''double'', tl_double_text L n, [], [], [])"
| "content_texts L (Content_text s) = (''string'', s, [], [], [])"
| "content_texts L (Content_fact i) =
     (''fact_id'', [], id_run i, id_producer i, unsigned_text (id_sequence i))"

definition compact_observation_field :: "toml_library \<Rightarrow> fact_field \<Rightarrow> toml" where
  "compact_observation_field L f =
     (case content_texts L (ff_value f) of
        (type, v, run, producer, sequence) \<Rightarrow>
          Toml_list (map Toml_text
            [ff_name f, availability_name (ff_availability f), unit_name (ff_unit f), type, v, ff_reason f,
             run, producer, sequence]))"

definition parse_compact_content :: "toml_library \<Rightarrow> string list \<Rightarrow> field_content option" where
  "parse_compact_content L vs =
     (let type = vs ! 3; v = vs ! 4 in
      if type = ''none'' then Some Content_none
      else if type = ''bool'' then
        (if v \<noteq> ''true'' \<and> v \<noteq> ''false'' then None else Some (Content_bool (v = ''true'')))
      else if type = ''uint64'' then map_option Content_unsigned (decimal_text v)
      else if type = ''int64'' then map_option Content_signed (signed_decimal_text v)
      else if type = ''double'' then map_option Content_double (tl_double_value L v)
      else if type = ''string'' then Some (Content_text v)
      else if type = ''fact_id'' then
        map_option (\<lambda>n. Content_fact \<lparr>id_run = vs ! 6, id_producer = vs ! 7, id_sequence = n\<rparr>)
          (decimal_text (vs ! 8))
      else None)"

definition parse_compact_observation_field :: "toml_library \<Rightarrow> toml \<Rightarrow> fact_field option" where
  "parse_compact_observation_field L n = do {
     entry \<leftarrow> list_of_node (Some n);
     vs \<leftarrow> (if length entry \<noteq> 9 then None else parse_all (\<lambda>x. text_of (Some x)) entry);
     a \<leftarrow> availability_named (vs ! 1);
     unit \<leftarrow> unit_named (vs ! 2);
     v \<leftarrow> parse_compact_content L vs;
     Some \<lparr>ff_name = vs ! 0, ff_availability = a, ff_unit = unit, ff_value = v, ff_reason = vs ! 5\<rparr>
   }"

definition parse_content :: "toml_library \<Rightarrow> string \<Rightarrow> toml option \<Rightarrow> field_content option" where
  "parse_content L type n =
     (if type = ''none'' then Some Content_none
      else if type = ''bool'' then map_option Content_bool (Option.bind n (tl_boolean L))
      else if type = ''uint64'' then map_option Content_unsigned (decimal n)
      else if type = ''int64'' then map_option Content_signed (signed_decimal n)
      else if type = ''double'' then map_option Content_double (Option.bind n (tl_double L))
      else if type = ''string'' then map_option Content_text (text_of n)
      else if type = ''fact_id'' then map_option Content_fact (Option.bind (map_of_node n) parse_id)
      else None)"

definition parse_observation_field :: "toml_library \<Rightarrow> toml \<Rightarrow> fact_field option" where
  "parse_observation_field L n = do {
     t \<leftarrow> map_of_node (Some n);
     name \<leftarrow> text_of (t ''name'');
     reason \<leftarrow> text_of (t ''unavailable_reason'');
     type \<leftarrow> text_of (t ''value_type'');
     a \<leftarrow> availability_value t;
     unit \<leftarrow> Option.bind (text_of (t ''unit'')) unit_named;
     v \<leftarrow> parse_content L type (t ''value'');
     Some \<lparr>ff_name = name, ff_availability = a, ff_unit = unit, ff_value = v, ff_reason = reason\<rparr>
   }"

section \<open>A fact\<close>

definition compact_default_field :: "'a field" where
  "compact_default_field = \<lparr>fd_availability = Not_applicable, fd_value = None, fd_reason = ''compact_default''\<rparr>"

definition compact_default :: "'a field \<Rightarrow> bool" where
  "compact_default f \<longleftrightarrow>
     fd_availability f = Not_applicable \<and> fd_value f = None \<and> fd_reason f = ''compact_default''"

definition compactable :: "qa_fact \<Rightarrow> bool" where
  "compactable f \<longleftrightarrow>
     ft_fields f = [] \<and> ft_causes f = [] \<and> compact_default (ft_decision f) \<and>
     compact_default (ft_assignment f) \<and> compact_default (ft_occurrence f) \<and> compact_default (ft_reason f) \<and>
     compact_default (ft_order f)"

definition frame_node :: "u64 \<Rightarrow> toml" where "frame_node n = Toml_text (unsigned_text n)"

definition orders_node :: "state_order list \<Rightarrow> toml" where "orders_node ps = Toml_list (map order_node ps)"

definition compact_doc :: "qa_fact \<Rightarrow> toml_doc" where
  "compact_doc f =
     (id_doc (ft_id f))
       (''schema_version'' \<mapsto> Toml_integer 1, ''schema_minor'' \<mapsto> Toml_integer 1,
        ''kind'' \<mapsto> Toml_text (ft_kind f),
        ''frame_index'' \<mapsto> Toml_map (field_doc frame_node (ft_frame_index f)))"

definition full_doc :: "toml_library \<Rightarrow> qa_fact \<Rightarrow> toml_doc" where
  "full_doc L f =
     (let t = (compact_doc f)
            (''schema_minor'' \<mapsto> Toml_integer (if ft_fields f = [] then 0 else 3),
             ''causes'' \<mapsto> Toml_list (map cause_node (ft_causes f)),
             ''decision_id'' \<mapsto> Toml_map (field_doc Toml_text (ft_decision f)),
             ''assignment_id'' \<mapsto> Toml_map (field_doc Toml_text (ft_assignment f)),
             ''occurrence_id'' \<mapsto> Toml_map (field_doc Toml_text (ft_occurrence f)),
             ''reason'' \<mapsto> Toml_map (field_doc Toml_text (ft_reason f)),
             ''shared_state_order'' \<mapsto> Toml_map (field_doc orders_node (ft_order f)))
      in if ft_fields f = [] then t
         else t(''fields'' \<mapsto> Toml_list (map (compact_observation_field L) (ft_fields f))))"

definition fact_doc :: "toml_library \<Rightarrow> qa_fact \<Rightarrow> toml_doc" where
  "fact_doc L f = (if compactable f then compact_doc f else full_doc L f)"

definition encode_fact :: "toml_library \<Rightarrow> qa_fact \<Rightarrow> fact_batch_error + string" where
  "encode_fact L f =
     (if \<not> well_formed_fact f then Inl Batch_invalid_fact else Inr (tl_print L (fact_doc L f)))"

definition parse_optional :: "bool \<Rightarrow> toml option \<Rightarrow> string field option" where
  "parse_optional compact n =
     (if n \<noteq> None then parse_string_field n
      else if compact then Some compact_default_field else None)"

definition parse_fields :: "toml_library \<Rightarrow> int \<Rightarrow> toml list option \<Rightarrow> fact_field list option" where
  "parse_fields L schema_minor nodes =
     (case nodes of
        None \<Rightarrow> if schema_minor = 2 \<or> schema_minor = 3 then None else Some []
      | Some ns \<Rightarrow>
          if schema_minor \<noteq> 2 \<and> schema_minor \<noteq> 3 \<or> max_fact_fields < length ns then None
          else parse_all (if schema_minor = 3 then parse_compact_observation_field L
                          else parse_observation_field L) ns)"

definition fact_of_doc :: "toml_library \<Rightarrow> toml_doc \<Rightarrow> qa_fact option" where
  "fact_of_doc L t = do {
     schema_minor \<leftarrow> integer_of L (t ''schema_minor'');
     compact \<leftarrow> (if integer_of L (t ''schema_version'') \<noteq> Some 1 \<or> schema_minor \<notin> {0, 1, 2, 3} then None
                 else Some (schema_minor = 1));
     kind \<leftarrow> text_of (t ''kind'');
     i \<leftarrow> parse_id t;
     frame \<leftarrow> parse_frame (t ''frame_index'');
     causes \<leftarrow> (case list_of_node (t ''causes'') of
                  None \<Rightarrow> if compact then Some [] else None
                | Some ns \<Rightarrow> parse_all parse_cause ns);
     decision \<leftarrow> parse_optional compact (t ''decision_id'');
     assignment \<leftarrow> parse_optional compact (t ''assignment_id'');
     occurrence \<leftarrow> parse_optional compact (t ''occurrence_id'');
     reason \<leftarrow> parse_optional compact (t ''reason'');
     order \<leftarrow> (case map_of_node (t ''shared_state_order'') of
                 None \<Rightarrow> if compact then Some compact_default_field else None
               | Some o' \<Rightarrow> parse_order o');
     fields \<leftarrow> parse_fields L schema_minor (list_of_node (t ''fields''));
     let f = \<lparr>ft_id = i, ft_kind = kind, ft_frame_index = frame, ft_causes = causes, ft_decision = decision,
              ft_assignment = assignment, ft_occurrence = occurrence, ft_reason = reason, ft_order = order,
              ft_fields = fields\<rparr>
     in if well_formed_fact f then Some f else None
   }"

definition decode_fact :: "toml_library \<Rightarrow> string \<Rightarrow> qa_fact option" where
  "decode_fact L s = Option.bind (tl_parse L s) (fact_of_doc L)"

section \<open>The text form is read back\<close>

lemma availability_named_name [simp]: "availability_named (availability_name a) = Some a"
  by (cases a) (simp_all add: availability_named_def)

lemma unit_named_name [simp]: "unit_named (unit_name u) = Some u"
  by (cases u) (simp_all add: unit_named_def field_units_def)

lemma digit_not_sign: "is_digit c \<Longrightarrow> c \<noteq> CHR ''+'' \<and> c \<noteq> CHR ''-''"
  by (auto simp: is_digit_def)

lemma hd_to_string: "is_digit (hd (to_string n))"
  by (rule to_string_digits) (rule hd_in_set, simp)

lemma decimal_unsigned_text [simp]: "decimal_text (unsigned_text n) = Some n"
  using digit_not_sign [OF hd_to_string [of "unat n"]] unat_bounded [of n]
  by (simp add: decimal_text_def unsigned_text_def)

lemma parse_id_doc:
  "parse_id t = Some i" if "t ''run_id'' = Some (Toml_text (id_run i))"
    "t ''producer_id'' = Some (Toml_text (id_producer i))"
    "t ''producer_sequence'' = Some (Toml_text (unsigned_text (id_sequence i)))"
  using that by (simp add: parse_id_def decimal_def)

lemma parse_cause_node [simp]: "parse_cause (cause_node c) = Some c"
  by (cases c) (simp_all add: parse_cause_def id_doc_def parse_id_def decimal_def)

lemma parse_order_item_node [simp]: "parse_order_item (order_node p) = Some p"
  by (simp add: parse_order_item_def order_node_def decimal_def)

lemma parse_all_map: "(\<And>x. x \<in> set xs \<Longrightarrow> g (f x) = Some x) \<Longrightarrow> parse_all g (map f xs) = Some xs"
  by (induction xs) auto

lemma availability_field_doc [simp]: "availability_value (field_doc node f) = Some (fd_availability f)"
  by (simp add: availability_value_def field_doc_def Let_def split: option.split)

lemma reason_field_doc [simp]: "reason_text (field_doc node f) = fd_reason f"
  by (simp add: reason_text_def field_doc_def Let_def split: option.split)

lemma value_field_doc [simp]: "field_doc node f ''value'' = map_option node (fd_value f)"
  by (simp add: field_doc_def Let_def split: option.split)

lemma parse_string_field_doc [simp]: "parse_string_field (Some (Toml_map (field_doc Toml_text f))) = Some f"
  by (cases "fd_value f") (simp_all add: parse_string_field_def)

lemma parse_frame_doc [simp]: "parse_frame (Some (Toml_map (field_doc frame_node f))) = Some f"
  by (cases "fd_value f") (simp_all add: parse_frame_def frame_node_def decimal_def)

lemma parse_order_doc [simp]: "parse_order (field_doc orders_node f) = Some f"
  by (cases "fd_value f") (simp_all add: parse_order_def orders_node_def parse_all_map)

lemma compact_default_iff: "compact_default f \<longleftrightarrow> f = compact_default_field"
  by (cases f) (simp add: compact_default_def compact_default_field_def)

definition reads_integers :: "toml_library \<Rightarrow> bool" where
  "reads_integers L \<longleftrightarrow> (\<forall>i. tl_integer L (Toml_integer i) = Some i)"

lemma fact_of_fact_doc:
  assumes "reads_integers L" and "well_formed_fact f" and "ft_fields f = []"
  shows "fact_of_doc L (fact_doc L f) = Some f"
proof (cases "compactable f")
  case True
  with assms have "f = \<lparr>ft_id = ft_id f, ft_kind = ft_kind f, ft_frame_index = ft_frame_index f, ft_causes = [],
      ft_decision = compact_default_field, ft_assignment = compact_default_field,
      ft_occurrence = compact_default_field, ft_reason = compact_default_field,
      ft_order = compact_default_field, ft_fields = []\<rparr>"
    by (cases f) (simp add: compactable_def compact_default_iff)
  with True assms show ?thesis
    by (simp add: fact_doc_def fact_of_doc_def compact_doc_def id_doc_def integer_of_def reads_integers_def
        parse_id_doc parse_optional_def parse_fields_def)
next
  case False
  have rebuilt: "\<lparr>ft_id = ft_id f, ft_kind = ft_kind f, ft_frame_index = ft_frame_index f, ft_causes = ft_causes f,
      ft_decision = ft_decision f, ft_assignment = ft_assignment f, ft_occurrence = ft_occurrence f,
      ft_reason = ft_reason f, ft_order = ft_order f, ft_fields = []\<rparr> = f"
    using assms(3) by (cases f) simp
  from assms False show ?thesis
    by (simp add: rebuilt Let_def fact_doc_def fact_of_doc_def full_doc_def compact_doc_def id_doc_def integer_of_def
        reads_integers_def parse_id_doc parse_optional_def parse_fields_def parse_all_map)
qed

end
