(* ===== verification/Protocol_Header.thy ===== *)
theory Protocol_Header
  imports Byte_Codec
begin

text \<open>
  The fixed header of every message between the audio QA program and the Runtime:
  \<^verbatim>\<open>tools/audio_qa/protocol_header.{h,cpp}\<close>.
\<close>

definition protocol_header_bytes :: nat where "protocol_header_bytes = 40"

definition max_protocol_payload_bytes :: u32 where "max_protocol_payload_bytes = 256 * 1024 - 40"

datatype message_type =
  Message_capabilities | Message_request | Message_cancel | Message_session_status | Message_fact_batch
  | Message_audio_chunk | Message_terminal | Message_diagnostic | Message_acknowledgement

record protocol_header =
  ph_type :: message_type
  ph_payload_bytes :: u32
  ph_channel :: u32
  ph_sequence :: u64

datatype header_error =
  Header_incomplete | Header_invalid_magic | Header_incompatible_version | Header_invalid_size
  | Header_unknown_type | Header_unsupported_flags | Header_invalid_payload_length
  | Header_invalid_channel | Header_invalid_sequence | Header_nonzero_reserved

fun type_code :: "message_type \<Rightarrow> u16" where
  "type_code Message_capabilities = 1"
| "type_code Message_request = 2"
| "type_code Message_cancel = 3"
| "type_code Message_session_status = 4"
| "type_code Message_fact_batch = 5"
| "type_code Message_audio_chunk = 6"
| "type_code Message_terminal = 7"
| "type_code Message_diagnostic = 8"
| "type_code Message_acknowledgement = 9"

definition message_types :: "message_type list" where
  "message_types =
     [Message_capabilities, Message_request, Message_cancel, Message_session_status, Message_fact_batch,
      Message_audio_chunk, Message_terminal, Message_diagnostic, Message_acknowledgement]"

definition known_type :: "u16 \<Rightarrow> bool" where
  "known_type t \<longleftrightarrow> type_code Message_capabilities \<le> t \<and> t \<le> type_code Message_acknowledgement"

text \<open>The conversion of a known code to the enumeration.\<close>

definition type_of_code :: "u16 \<Rightarrow> message_type" where
  "type_of_code t = message_types ! (unat t - 1)"

definition channel_for :: "message_type \<Rightarrow> u32" where
  "channel_for t =
     (if t = Message_request \<or> t = Message_cancel \<or> t = Message_acknowledgement then 1 else 2)"

definition header_magic :: bytes where "header_magic = [0x41, 0x59, 0x51, 0x41]"

definition decode_protocol_header :: "bytes \<Rightarrow> u32 \<Rightarrow> header_error + protocol_header" where
  "decode_protocol_header bs expected_channel =
     (if length bs < protocol_header_bytes then Inl Header_incomplete
      else if take 4 bs \<noteq> header_magic then Inl Header_invalid_magic
      else if get_u16 bs 4 \<noteq> 1 \<or> get_u16 bs 6 \<noteq> 0 then Inl Header_incompatible_version
      else if get_u16 bs 8 \<noteq> of_nat protocol_header_bytes then Inl Header_invalid_size
      else if \<not> known_type (get_u16 bs 10) then Inl Header_unknown_type
      else if get_u32 bs 12 \<noteq> 0 then Inl Header_unsupported_flags
      else if get_u32 bs 16 = 0 \<or> max_protocol_payload_bytes < get_u32 bs 16
      then Inl Header_invalid_payload_length
      else if expected_channel \<noteq> 1 \<and> expected_channel \<noteq> 2 \<or> get_u32 bs 20 \<noteq> expected_channel \<or>
        get_u32 bs 20 \<noteq> channel_for (type_of_code (get_u16 bs 10)) then Inl Header_invalid_channel
      else if get_u64 bs 24 = 0 then Inl Header_invalid_sequence
      else if get_u64 bs 32 \<noteq> 0 then Inl Header_nonzero_reserved
      else Inr \<lparr>ph_type = type_of_code (get_u16 bs 10), ph_payload_bytes = get_u32 bs 16,
                ph_channel = get_u32 bs 20, ph_sequence = get_u64 bs 24\<rparr>)"

definition encode_protocol_header :: "protocol_header \<Rightarrow> bytes" where
  "encode_protocol_header h =
     header_magic @ put_u16 1 @ put_u16 0 @ put_u16 (of_nat protocol_header_bytes) @
     put_u16 (type_code (ph_type h)) @ put_u32 0 @ put_u32 (ph_payload_bytes h) @ put_u32 (ph_channel h) @
     put_u64 (ph_sequence h) @ put_u64 0"

section \<open>Correctness\<close>

text \<open>What a header may say.\<close>

definition valid_header :: "protocol_header \<Rightarrow> bool" where
  "valid_header h \<longleftrightarrow>
     0 < ph_payload_bytes h \<and> ph_payload_bytes h \<le> max_protocol_payload_bytes \<and>
     ph_channel h = channel_for (ph_type h) \<and> ph_sequence h \<noteq> 0"

lemma type_of_code_inverse [simp]: "type_of_code (type_code t) = t"
  by (cases t) (simp_all add: type_of_code_def message_types_def)

lemma known_type_code [simp]: "known_type (type_code t)"
  by (cases t) (simp_all add: known_type_def)

lemma type_code_inverse:
  assumes "known_type t"
  shows "type_code (type_of_code t) = t"
proof -
  from assms have "1 \<le> unat t" "unat t \<le> 9"
    by (simp_all add: known_type_def word_le_nat_alt)
  then have "unat t \<in> {1, 2, 3, 4, 5, 6, 7, 8, 9}" by auto
  then have "unat (type_code (type_of_code t)) = unat t"
    by (auto simp: type_of_code_def message_types_def)
  then show ?thesis by (rule unsigned_word_eqI)
qed

lemma channel_for_cases: "channel_for t = 1 \<or> channel_for t = 2"
  by (simp add: channel_for_def)

lemma length_encode_header [simp]: "length (encode_protocol_header h) = 40"
  by (simp add: encode_protocol_header_def header_magic_def)

text \<open>A buffer starts with the parts of a header exactly when each read gives its part.\<close>

lemma header_reads:
  assumes "40 \<le> length bs"
  shows "take 40 bs = encode_protocol_header h \<longleftrightarrow>
    take 4 bs = header_magic \<and> get_u16 bs 4 = 1 \<and> get_u16 bs 6 = 0 \<and> get_u16 bs 8 = of_nat protocol_header_bytes \<and>
    get_u16 bs 10 = type_code (ph_type h) \<and> get_u32 bs 12 = 0 \<and> get_u32 bs 16 = ph_payload_bytes h \<and>
    get_u32 bs 20 = ph_channel h \<and> get_u64 bs 24 = ph_sequence h \<and> get_u64 bs 32 = 0"
proof -
  have "take 40 bs = take 4 bs @ take 2 (drop 4 bs) @ take 2 (drop 6 bs) @ take 2 (drop 8 bs) @
      take 2 (drop 10 bs) @ take 4 (drop 12 bs) @ take 4 (drop 16 bs) @ take 4 (drop 20 bs) @
      take 8 (drop 24 bs) @ take 8 (drop 32 bs)"
    using take_add [of 4 36 bs] take_add [of 2 34 "drop 4 bs"] take_add [of 2 32 "drop 6 bs"]
      take_add [of 2 30 "drop 8 bs"] take_add [of 2 28 "drop 10 bs"] take_add [of 4 24 "drop 12 bs"]
      take_add [of 4 20 "drop 16 bs"] take_add [of 4 16 "drop 20 bs"] take_add [of 8 8 "drop 24 bs"]
    by simp
  moreover have "length header_magic = 4" by (simp add: header_magic_def)
  ultimately show ?thesis
    using assms by (simp add: encode_protocol_header_def le16.get_eq_iff le32.get_eq_iff le64.get_eq_iff)
qed

lemma decode_accepts:
  "decode_protocol_header bs c = Inr h \<longleftrightarrow>
     40 \<le> length bs \<and> take 4 bs = header_magic \<and> get_u16 bs 4 = 1 \<and> get_u16 bs 6 = 0 \<and>
     get_u16 bs 8 = of_nat protocol_header_bytes \<and> known_type (get_u16 bs 10) \<and> get_u32 bs 12 = 0 \<and>
     get_u32 bs 16 \<noteq> 0 \<and> get_u32 bs 16 \<le> max_protocol_payload_bytes \<and> get_u32 bs 20 = c \<and>
     c = channel_for (type_of_code (get_u16 bs 10)) \<and> get_u64 bs 24 \<noteq> 0 \<and> get_u64 bs 32 = 0 \<and>
     h = \<lparr>ph_type = type_of_code (get_u16 bs 10), ph_payload_bytes = get_u32 bs 16,
          ph_channel = get_u32 bs 20, ph_sequence = get_u64 bs 24\<rparr>"
  using channel_for_cases [of "type_of_code (get_u16 bs 10)"]
  unfolding decode_protocol_header_def if_Inl_eq_Inr not_less
  by (auto simp: protocol_header_bytes_def)

lemma header_exact:
  "decode_protocol_header bs c = Inr h \<longleftrightarrow>
     valid_header h \<and> ph_channel h = c \<and> 40 \<le> length bs \<and> take 40 bs = encode_protocol_header h"
proof (cases "40 \<le> length bs")
  case True
  have "decode_protocol_header bs c = Inr h \<longleftrightarrow>
      valid_header h \<and> ph_channel h = c \<and> take 40 bs = encode_protocol_header h"
    unfolding header_reads [OF True] decode_accepts valid_header_def
    using True by (cases h) (auto simp: type_code_inverse word_neq_0_conv)
  with True show ?thesis by blast
next
  case False
  then show ?thesis by (simp add: decode_accepts)
qed

text \<open>The header of a payload on the channel of its type is accepted, with its length.\<close>

lemma own_header_accepted:
  fixes t :: message_type
  assumes "length payload \<le> unat max_protocol_payload_bytes" and "payload \<noteq> []" and "sequence \<noteq> 0"
  defines "h \<equiv> \<lparr>ph_type = t, ph_payload_bytes = of_nat (length payload), ph_channel = channel_for t,
    ph_sequence = sequence\<rparr>"
  shows "decode_protocol_header (encode_protocol_header h) (channel_for t) = Inr h \<and>
    unat (ph_payload_bytes h) = length payload"
proof -
  have size_fits: "unat (of_nat (length payload) :: u32) = length payload"
    using assms(1) by (intro unat_of_nat_small) (simp add: max_protocol_payload_bytes_def)
  with assms have "valid_header h"
    by (simp add: valid_header_def h_def word_less_nat_alt word_le_nat_alt)
  then show ?thesis
    by (simp add: header_exact size_fits h_def)
qed

text \<open>
  A header is accepted exactly when it is the encoding of what it is decoded to. For every buffer
  and channel, decoding gives a header exactly when the buffer starts with the forty bytes that encode
  it, its payload is not empty and within the limit, its sequence is not zero and its channel is both
  the expected one and the one of its type; no other buffer is accepted, and no other header can be
  read from it.
\<close>

theorem header_roundtrip:
  "decode_protocol_header bs c = Inr h \<longleftrightarrow>
     valid_header h \<and> ph_channel h = c \<and> 40 \<le> length bs \<and> take 40 bs = encode_protocol_header h"
  by (rule header_exact)

end
