(* ===== verification/Fact_Batch.thy ===== *)
theory Fact_Batch
  imports Fact_Document Protocol_Header
begin

text \<open>
  Batches of facts: \<^verbatim>\<open>encode_fact_batch\<close> and \<^verbatim>\<open>decode_fact_batch\<close> of
  \<^verbatim>\<open>tools/audio_qa/fact_batch.cpp\<close>, a protocol header and the records of the facts, each with its
  length. A fact with observation fields travels in its binary form, any other as a document.
\<close>

definition max_fact_batch_records :: nat where "max_fact_batch_records = 1024"

definition max_encoded_fact_bytes :: nat where "max_encoded_fact_bytes = 64 * 1024"

definition encode_record :: "toml_library \<Rightarrow> qa_fact \<Rightarrow> fact_batch_error + bytes" where
  "encode_record L f =
     (if ft_fields f = []
      then (case encode_fact L f of Inl e \<Rightarrow> Inl e | Inr s \<Rightarrow> Inr (map char_byte s))
      else encode_binary_fact f)"

fun append_records :: "toml_library \<Rightarrow> bytes \<Rightarrow> qa_fact list \<Rightarrow> fact_batch_error + bytes" where
  "append_records L payload [] = Inr payload"
| "append_records L payload (f # fs) =
     (case encode_record L f of
        Inl e \<Rightarrow> Inl e
      | Inr rec \<Rightarrow>
          if rec = [] \<or> max_encoded_fact_bytes < length rec + 4 then Inl Batch_fact_too_large
          else if unat max_protocol_payload_bytes - 4 - length rec < length payload then Inl Batch_too_large
          else append_records L (payload @ put_u32 (of_nat (length rec)) @ rec) fs)"

definition encode_fact_batch :: "toml_library \<Rightarrow> qa_fact list \<Rightarrow> u64 \<Rightarrow> fact_batch_error + bytes" where
  "encode_fact_batch L fs sequence =
     (if fs = [] \<or> max_fact_batch_records < length fs \<or> sequence = 0 then Inl Batch_invalid_count
      else
        (case append_records L (put_u32 (of_nat (length fs))) fs of
           Inl e \<Rightarrow> Inl e
         | Inr payload \<Rightarrow>
             Inr (encode_protocol_header
                    \<lparr>ph_type = Message_fact_batch, ph_payload_bytes = of_nat (length payload), ph_channel = 2,
                     ph_sequence = sequence\<rparr> @ payload)))"

definition decode_record :: "toml_library \<Rightarrow> bytes \<Rightarrow> fact_batch_error + qa_fact" where
  "decode_record L rec =
     (if is_binary_fact rec then decode_binary_fact rec
      else (case decode_fact L (map byte_char rec) of
              None \<Rightarrow> Inl Batch_malformed_fact
            | Some f \<Rightarrow> Inr f))"

text \<open>The records from the cursor on, and the bytes after the last one.\<close>

fun read_records :: "toml_library \<Rightarrow> nat \<Rightarrow> bytes \<Rightarrow> fact_batch_error + qa_fact list \<times> bytes" where
  "read_records L 0 bs = Inr ([], bs)"
| "read_records L (Suc n) bs =
     (if length bs < 4 then Inl Batch_truncated
      else
        (let len = unat (get_u32 bs 0); rest = drop 4 bs in
         if len = 0 \<or> max_encoded_fact_bytes < len + 4 then Inl Batch_fact_too_large
         else if length rest < len then Inl Batch_truncated
         else
           (case decode_record L (take len rest) of
              Inl e \<Rightarrow> Inl e
            | Inr f \<Rightarrow>
                (case read_records L n (drop len rest) of
                   Inl e \<Rightarrow> Inl e
                 | Inr (fs, rest') \<Rightarrow> Inr (f # fs, rest')))))"

definition decode_fact_batch :: "toml_library \<Rightarrow> bytes \<Rightarrow> u64 \<Rightarrow> fact_batch_error + qa_fact list" where
  "decode_fact_batch L message expected_sequence =
     (if length message < protocol_header_bytes then Inl Batch_header_rejected
      else
        (case decode_protocol_header (take protocol_header_bytes message) 2 of
           Inl e \<Rightarrow> Inl Batch_header_rejected
         | Inr h \<Rightarrow>
             if ph_type h \<noteq> Message_fact_batch then Inl Batch_wrong_type
             else if ph_sequence h \<noteq> expected_sequence then Inl Batch_sequence_mismatch
             else if unat (ph_payload_bytes h) \<noteq> length message - protocol_header_bytes
             then Inl Batch_length_mismatch
             else
               (let payload = drop protocol_header_bytes message in
                if length payload < 4 then Inl Batch_truncated
                else
                  (let count = unat (get_u32 payload 0) in
                   if count = 0 \<or> max_fact_batch_records < count then Inl Batch_invalid_count
                   else
                     (case read_records L count (drop 4 payload) of
                        Inl e \<Rightarrow> Inl e
                      | Inr (fs, rest) \<Rightarrow> if rest \<noteq> [] then Inl Batch_length_mismatch else Inr fs)))))"

section \<open>The batch is read back\<close>

text \<open>
  What is asked of the TOML library: the document it prints is not empty, is not taken for a binary
  fact and is parsed back, and an integer node holds its integer.
\<close>

definition library_reads_back :: "toml_library \<Rightarrow> qa_fact \<Rightarrow> bool" where
  "library_reads_back L f \<longleftrightarrow>
     reads_integers L \<and> tl_parse L (tl_print L (fact_doc L f)) = Some (fact_doc L f) \<and>
     \<not> is_binary_fact (map char_byte (tl_print L (fact_doc L f)))"

lemma decode_encoded_record:
  assumes "encode_record L f = Inr rec" and "ft_fields f = [] \<Longrightarrow> library_reads_back L f"
  shows "decode_record L rec = Inr f"
proof (cases "ft_fields f = []")
  case True
  with assms have wf: "well_formed_fact f" and rec: "rec = map char_byte (tl_print L (fact_doc L f))"
    by (auto simp: encode_record_def encode_fact_def split: if_splits)
  from assms(2) [OF True] show ?thesis
    by (simp add: rec library_reads_back_def decode_record_def decode_fact_def comp_def fact_of_fact_doc wf True)
next
  case False
  with assms(1) have enc: "encode_binary_fact f = Inr rec"
    by (simp add: encode_record_def)
  then have "is_binary_fact rec"
    by (auto simp: encode_binary_fact_def is_binary_fact_def fact_preamble_def binary_fact_magic_def
        split: if_splits)
  with enc show ?thesis
    by (simp add: decode_record_def binary_fact_exact)
qed

lemma append_recordsD:
  assumes "append_records L payload fs = Inr bs"
    and "\<And>f. f \<in> set fs \<Longrightarrow> ft_fields f = [] \<Longrightarrow> library_reads_back L f"
    and "length payload \<le> unat max_protocol_payload_bytes"
  shows "\<exists>rs. bs = payload @ rs \<and> length bs \<le> unat max_protocol_payload_bytes \<and>
    (\<forall>rest. read_records L (length fs) (rs @ rest) = Inr (fs, rest))"
  using assms
proof (induction fs arbitrary: payload)
  case Nil
  then show ?case by auto
next
  case (Cons f fs)
  from Cons.prems(1) obtain rec where rec: "encode_record L f = Inr rec" and ne: "rec \<noteq> []"
    and small: "length rec + 4 \<le> max_encoded_fact_bytes"
    and fits: "length payload \<le> unat max_protocol_payload_bytes - 4 - length rec"
    and more: "append_records L (payload @ put_u32 (of_nat (length rec)) @ rec) fs = Inr bs"
    by (auto split: sum.splits if_splits)
  have "4 + length rec \<le> unat max_protocol_payload_bytes"
    using small by (simp add: max_encoded_fact_bytes_def max_protocol_payload_bytes_def)
  with fits have "length (payload @ put_u32 (of_nat (length rec)) @ rec) \<le> unat max_protocol_payload_bytes"
    by simp
  from Cons.IH [OF more Cons.prems(2) this] obtain rs where
    rs: "bs = (payload @ put_u32 (of_nat (length rec)) @ rec) @ rs"
      "length bs \<le> unat max_protocol_payload_bytes"
      "\<And>rest. read_records L (length fs) (rs @ rest) = Inr (fs, rest)"
    by auto
  have "unat (of_nat (length rec) :: u32) = length rec"
    using small by (intro unat_of_nat_small) (simp add: max_encoded_fact_bytes_def)
  moreover have "decode_record L rec = Inr f"
    using rec Cons.prems(2) by (intro decode_encoded_record) auto
  ultimately have "read_records L (length (f # fs)) ((put_u32 (of_nat (length rec)) @ rec @ rs) @ rest) =
      Inr (f # fs, rest)" for rest
    using ne small rs(3) [of rest] by (simp add: le32.get_first Let_def)
  with rs(1,2) show ?case by (intro exI [of _ "put_u32 (of_nat (length rec)) @ rec @ rs"]) simp
qed

lemmas encoded_header_accepted =
  own_header_accepted [where t = Message_fact_batch, unfolded channel_for_def, simplified]

lemma decode_encoded_batch:
  assumes enc: "encode_fact_batch L fs sequence = Inr message"
    and lib: "\<And>f. f \<in> set fs \<Longrightarrow> ft_fields f = [] \<Longrightarrow> library_reads_back L f"
  shows "decode_fact_batch L message sequence' =
      (if sequence' = sequence then Inr fs else Inl Batch_sequence_mismatch) \<and>
    length message \<le> 256 * 1024"
proof -
  from enc obtain payload where count: "fs \<noteq> []" "length fs \<le> max_fact_batch_records" "sequence \<noteq> 0"
    and payload: "append_records L (put_u32 (of_nat (length fs))) fs = Inr payload"
    and message: "message = encode_protocol_header
      \<lparr>ph_type = Message_fact_batch, ph_payload_bytes = of_nat (length payload), ph_channel = 2,
       ph_sequence = sequence\<rparr> @ payload"
    by (auto simp: encode_fact_batch_def split: sum.splits if_splits)
  have "length (put_u32 (of_nat (length fs))) \<le> unat max_protocol_payload_bytes"
    by (simp add: max_protocol_payload_bytes_def)
  from append_recordsD [OF payload lib this] obtain rs where
    rs: "payload = put_u32 (of_nat (length fs)) @ rs" "length payload \<le> unat max_protocol_payload_bytes"
      "\<And>rest. read_records L (length fs) (rs @ rest) = Inr (fs, rest)"
    by blast
  have "unat (of_nat (length fs) :: u32) = length fs"
    using count by (intro unat_of_nat_small) (simp add: max_fact_batch_records_def)
  with count rs have "unat (get_u32 payload 0) = length fs" "drop 4 payload = rs" "4 \<le> length payload"
    by (auto simp: le32.get_first)
  moreover from this have "payload \<noteq> []" by auto
  ultimately show ?thesis
    using rs(2) rs(3) [of "[]"] count encoded_header_accepted [OF rs(2) _ \<open>sequence \<noteq> 0\<close>]
    by (simp add: decode_fact_batch_def message protocol_header_bytes_def max_protocol_payload_bytes_def)
qed

text \<open>
  C11: Facts survive their transport. Whatever facts are put in a batch that is accepted for sending,
  with or without observation fields, decoding the message under its sequence gives the same facts in
  the same order, provided the TOML library reads back the documents it printed for the facts without
  fields; under any other sequence the message is refused as such, and a message never exceeds
  256 KiB.
\<close>

theorem fact_batch_roundtrip:
  assumes "encode_fact_batch L fs sequence = Inr message"
    and "\<forall>f \<in> set fs. ft_fields f = [] \<longrightarrow> library_reads_back L f"
  shows "decode_fact_batch L message sequence = Inr fs \<and>
    (sequence' \<noteq> sequence \<longrightarrow> decode_fact_batch L message sequence' = Inl Batch_sequence_mismatch) \<and>
    length message \<le> 256 * 1024"
  using assms decode_encoded_batch [of L fs sequence message] by simp

lemma decode_record_well_formed: "decode_record L rec = Inr f \<Longrightarrow> well_formed_fact f"
  by (auto simp: decode_record_def decode_binary_fact_def decode_fact_def fact_of_doc_def Let_def
      bind_eq_Some_conv split: if_splits option.splits)

lemma read_records_well_formed:
  "read_records L n bs = Inr (fs, rest) \<Longrightarrow> length fs = n \<and> list_all well_formed_fact fs"
proof (induction n arbitrary: bs fs)
  case (Suc n)
  then obtain f gs where "fs = f # gs" "decode_record L (take (unat (get_u32 bs 0)) (drop 4 bs)) = Inr f"
    "read_records L n (drop (unat (get_u32 bs 0)) (drop 4 bs)) = Inr (gs, rest)"
    by (auto simp: Let_def split: if_splits sum.splits)
  with Suc.IH show ?case by (auto intro: decode_record_well_formed)
qed simp

lemma decoded_batch_sound:
  "case decode_fact_batch L message sequence of
     Inl _ \<Rightarrow> True
   | Inr fs \<Rightarrow> fs \<noteq> [] \<and> length fs \<le> max_fact_batch_records \<and> list_all well_formed_fact fs \<and>
       length message \<le> 256 * 1024"
proof (cases "decode_fact_batch L message sequence")
  case (Inr fs)
  then obtain h rest where h: "decode_protocol_header (take protocol_header_bytes message) 2 = Inr h"
    and size_eq: "unat (ph_payload_bytes h) = length message - protocol_header_bytes"
    and count: "unat (get_u32 (drop protocol_header_bytes message) 0) \<noteq> 0"
      "unat (get_u32 (drop protocol_header_bytes message) 0) \<le> max_fact_batch_records"
    and fs: "read_records L (unat (get_u32 (drop protocol_header_bytes message) 0))
      (drop 4 (drop protocol_header_bytes message)) = Inr (fs, rest)"
    by (auto simp: decode_fact_batch_def Let_def split: if_splits sum.splits)
  from h have "unat (ph_payload_bytes h) \<le> unat max_protocol_payload_bytes"
    by (simp add: header_exact valid_header_def word_le_nat_alt)
  with size_eq have "length message \<le> 256 * 1024"
    by (simp add: protocol_header_bytes_def max_protocol_payload_bytes_def)
  with Inr count read_records_well_formed [OF fs] show ?thesis by auto
qed simp

text \<open>
  Only facts come out of a batch. Whatever bytes arrive, of whatever length, decoding either
  reports an error or gives one to 1024 facts, each well formed: with non-empty bounded identities,
  causes of its own run that are not itself and not repeated, fields with distinct names and a value
  exactly when known; and the message was at most 256 KiB long.
\<close>

theorem decoded_batch_well_formed:
  "case decode_fact_batch L message sequence of
     Inl _ \<Rightarrow> True
   | Inr fs \<Rightarrow> fs \<noteq> [] \<and> length fs \<le> max_fact_batch_records \<and> list_all well_formed_fact fs \<and>
       length message \<le> 256 * 1024"
  by (rule decoded_batch_sound)

definition example_text_field :: "string field" where
  "example_text_field = \<lparr>fd_availability = Unknown, fd_value = None, fd_reason = ''none''\<rparr>"

definition example_fact :: "fact_field list \<Rightarrow> u64 \<Rightarrow> qa_fact" where
  "example_fact xs sequence =
     \<lparr>ft_id = \<lparr>id_run = ''run'', id_producer = ''engine'', id_sequence = sequence\<rparr>, ft_kind = ''frame'',
      ft_frame_index = \<lparr>fd_availability = Known, fd_value = Some 7, fd_reason = []\<rparr>,
      ft_causes = [Cause_preexisting ''boot''], ft_decision = example_text_field,
      ft_assignment = example_text_field, ft_occurrence = example_text_field, ft_reason = example_text_field,
      ft_order = \<lparr>fd_availability = Known, fd_value = Some [\<lparr>so_state = ''mixer'', so_sequence = 1\<rparr>],
        fd_reason = []\<rparr>,
      ft_fields = xs\<rparr>"

definition example_fact_field :: fact_field where
  "example_fact_field =
     \<lparr>ff_name = ''gain'', ff_availability = Known, ff_unit = Unit_linear_gain, ff_value = Content_double 0,
      ff_reason = []\<rparr>"

definition silent_library :: toml_library where
  "silent_library =
     \<lparr>tl_print = (\<lambda>_. ''x''), tl_parse = (\<lambda>_. None),
      tl_integer = (\<lambda>n. case n of Toml_integer i \<Rightarrow> Some i | _ \<Rightarrow> None), tl_boolean = (\<lambda>_. None),
      tl_double = (\<lambda>_. None), tl_double_text = (\<lambda>_. []), tl_double_value = (\<lambda>_. None)\<rparr>"

text \<open>A library that prints every document as one text and parses it to the document of one fact.\<close>

definition example_library :: "qa_fact \<Rightarrow> toml_library" where
  "example_library f = silent_library\<lparr>tl_parse := (\<lambda>_. Some (fact_doc silent_library f))\<rparr>"

lemma example_library_reads_back:
  assumes "ft_fields f = []"
  shows "library_reads_back (example_library f) f"
  using assms
  by (simp add: library_reads_back_def reads_integers_def example_library_def silent_library_def fact_doc_def
      full_doc_def is_binary_fact_def binary_fact_magic_def)

lemma example_facts_well_formed:
  "well_formed_fact (example_fact [] 1)" "well_formed_fact (example_fact [example_fact_field] 2)"
  by (simp_all add: example_fact_def example_fact_field_def example_text_field_def well_formed_fact_def
      valid_fact_id_def valid_text_field_def valid_fact_field_def is_identifier_def
      consistent_availability_def valid_order_def finite_double_def limit_defs)

lemma example_text_record:
  "encode_record (example_library f) (example_fact [] 1) = Inr [char_byte CHR ''x'']"
  using example_facts_well_formed(1)
  by (simp add: encode_record_def encode_fact_def example_library_def silent_library_def)
     (simp add: example_fact_def)

lemma example_binary_record:
  "\<exists>rec. encode_record L (example_fact [example_fact_field] 2) = Inr rec \<and> rec \<noteq> [] \<and> length rec < 1000"
  using example_facts_well_formed(2)
  by (simp add: encode_record_def encode_binary_fact_def)
     (simp add: example_fact_def example_fact_field_def example_text_field_def fact_preamble_def
       binary_fact_magic_def write_fact_def write_fact_id_def write_text_def write_field_def
       write_availability_def write_counted_def write_order_def write_binary_field_def)

definition example_batch :: "qa_fact list" where
  "example_batch = [example_fact [] 1, example_fact [example_fact_field] 2]"

lemma example_batch_encodes:
  "\<exists>message. encode_fact_batch (example_library (example_fact [] 1)) example_batch 5 = Inr message"
proof -
  obtain rec where "encode_record (example_library (example_fact [] 1)) (example_fact [example_fact_field] 2) = Inr rec"
      "rec \<noteq> []" "length rec < 1000"
    using example_binary_record by blast
  then show ?thesis
    by (simp add: example_batch_def encode_fact_batch_def example_text_record max_fact_batch_records_def
        max_encoded_fact_bytes_def max_protocol_payload_bytes_def)
qed

lemma example_batch_reads_back:
  "\<forall>f \<in> set example_batch. ft_fields f = [] \<longrightarrow> library_reads_back (example_library (example_fact [] 1)) f"
  using example_library_reads_back [of "example_fact [] 1"] by (simp add: example_batch_def example_fact_def)

theorem fact_batch_roundtrip_witness:
  "\<exists>L message. decode_fact_batch L message 5 = Inr [example_fact [] 1, example_fact [example_fact_field] 2]"
proof -
  obtain message where "encode_fact_batch (example_library (example_fact [] 1)) example_batch 5 = Inr message"
    using example_batch_encodes by blast
  from fact_batch_roundtrip [OF this example_batch_reads_back, of 6] show ?thesis
    unfolding example_batch_def by blast
qed

end
