(* ===== verification/Pcm_Message.thy ===== *)
theory Pcm_Message
  imports Fact_Batch Content_Hash
begin

text \<open>
  A block of PCM as a message: \<^verbatim>\<open>tools/audio_qa/pcm_message.{h,cpp}\<close>. The metadata is a TOML document
  (the library is the argument of \<open>Fact_Document\<close>), the samples follow it, and their SHA-256 is checked
  in both directions.
\<close>

unbundle bit_operations_syntax

section \<open>Digests as text\<close>

definition hex_digit :: "u8 \<Rightarrow> char" where
  "hex_digit n = ''0123456789abcdef'' ! unat n"

definition hex_text :: "bytes \<Rightarrow> string" where
  "hex_text bs = concat (map (\<lambda>b. [hex_digit (drop_bit 4 b), hex_digit (b AND 15)]) bs)"

text \<open>The digits that \<^verbatim>\<open>from_chars\<close> reads in base 16, in either case.\<close>

definition hex_value :: "char \<Rightarrow> u8 option" where
  "hex_value c =
     (let n = of_char c :: nat in
      if 48 \<le> n \<and> n \<le> 57 then Some (of_nat (n - 48))
      else if 97 \<le> n \<and> n \<le> 102 then Some (of_nat (n - 87))
      else if 65 \<le> n \<and> n \<le> 70 then Some (of_nat (n - 55))
      else None)"

fun parse_pairs :: "string \<Rightarrow> bytes option" where
  "parse_pairs [] = Some []"
| "parse_pairs [_] = None"
| "parse_pairs (a # b # s) =
     do { x \<leftarrow> hex_value a; y \<leftarrow> hex_value b; r \<leftarrow> parse_pairs s; Some ((16 * x + y) # r) }"

definition parse_hex :: "string \<Rightarrow> bytes option" where
  "parse_hex s = (if length s \<noteq> 64 then None else parse_pairs s)"

section \<open>The metadata\<close>

datatype chunk_error =
  Chunk_invalid | Chunk_metadata_too_large | Chunk_message_too_large | Chunk_header_rejected | Chunk_wrong_type
  | Chunk_sequence_mismatch | Chunk_truncated | Chunk_length_mismatch | Chunk_malformed_metadata
  | Chunk_pcm_length_mismatch | Chunk_hash_required | Chunk_hash_mismatch

fun pcm_name :: "pcm_format \<Rightarrow> string" where
  "pcm_name Pcm_s16le = ''s16le''"
| "pcm_name Pcm_s24le = ''s24le''"
| "pcm_name Pcm_s32le = ''s32le''"
| "pcm_name Pcm_f32le = ''f32le''"

definition pcm_named :: "string \<Rightarrow> pcm_format option" where
  "pcm_named s = List.find (\<lambda>f. s = pcm_name f) [Pcm_s16le, Pcm_s24le, Pcm_s32le, Pcm_f32le]"

fun discontinuity_name :: "discontinuity_kind \<Rightarrow> string" where
  "discontinuity_name Inserted_silence = ''inserted_silence''"
| "discontinuity_name Discarded_audio = ''discarded_audio''"

definition discontinuity_named :: "string \<Rightarrow> discontinuity_kind option" where
  "discontinuity_named s = List.find (\<lambda>k. s = discontinuity_name k) [Inserted_silence, Discarded_audio]"

definition range_doc :: "sample_range \<Rightarrow> toml_doc" where
  "range_doc r =
     [''timeline'' \<mapsto> Toml_text (sr_timeline r), ''sample_rate'' \<mapsto> Toml_integer (uint (sr_rate r)),
      ''begin'' \<mapsto> Toml_text (unsigned_text (sr_begin r)), ''end'' \<mapsto> Toml_text (unsigned_text (sr_end r))]"

definition parse_range :: "toml_library \<Rightarrow> toml option \<Rightarrow> sample_range option" where
  "parse_range L n = do {
     t \<leftarrow> map_of_node n;
     timeline \<leftarrow> text_of (t ''timeline'');
     rate \<leftarrow> integer_of L (t ''sample_rate'');
     first \<leftarrow> (if rate < 0 \<or> 4294967295 < rate then None else decimal (t ''begin''));
     final \<leftarrow> decimal (t ''end'');
     Some \<lparr>sr_timeline = timeline, sr_rate = of_int rate, sr_begin = first, sr_end = final\<rparr>
   }"

definition range_node :: "sample_range \<Rightarrow> toml" where "range_node r = Toml_map (range_doc r)"

definition parse_range_field :: "toml_library \<Rightarrow> toml option \<Rightarrow> sample_range field option" where
  "parse_range_field L n = do {
     t \<leftarrow> map_of_node n;
     a \<leftarrow> availability_value t;
     v \<leftarrow> (if t ''value'' = None then Some None else map_option Some (parse_range L (t ''value'')));
     Some \<lparr>fd_availability = a, fd_value = v, fd_reason = reason_text t\<rparr>
   }"

definition causes_node :: "fact_id list \<Rightarrow> toml" where
  "causes_node is = Toml_list (map (\<lambda>i. Toml_map (id_doc i)) is)"

definition parse_cause_ids :: "toml list \<Rightarrow> fact_id list option" where
  "parse_cause_ids ns =
     (if max_fact_causes < length ns then None
      else parse_all (\<lambda>n. Option.bind (map_of_node (Some n)) parse_id) ns)"

definition discontinuity_node :: "discontinuity \<Rightarrow> toml" where
  "discontinuity_node d =
     Toml_map
       [''kind'' \<mapsto> Toml_text (discontinuity_name (di_kind d)), ''affected_range'' \<mapsto> range_node (di_affected d),
        ''output_range'' \<mapsto> Toml_map (field_doc range_node (di_output d)), ''cause_ids'' \<mapsto> causes_node (di_causes d)]"

definition parse_discontinuity :: "toml_library \<Rightarrow> toml \<Rightarrow> discontinuity option" where
  "parse_discontinuity L n = do {
     t \<leftarrow> map_of_node (Some n);
     kind \<leftarrow> Option.bind (text_of (t ''kind'')) discontinuity_named;
     ns \<leftarrow> list_of_node (t ''cause_ids'');
     affected \<leftarrow> parse_range L (t ''affected_range'');
     output \<leftarrow> parse_range_field L (t ''output_range'');
     causes \<leftarrow> parse_cause_ids ns;
     Some \<lparr>di_kind = kind, di_affected = affected, di_output = output, di_causes = causes\<rparr>
   }"

definition parse_discontinuities :: "toml_library \<Rightarrow> toml option \<Rightarrow> discontinuity list option" where
  "parse_discontinuities L n = do {
     ns \<leftarrow> list_of_node n;
     if max_audio_discontinuities < length ns then None else parse_all (parse_discontinuity L) ns
   }"

definition chunk_minor :: "audio_chunk \<Rightarrow> int" where
  "chunk_minor c = (if ac_segment c \<noteq> 0 then 2 else if ac_causes c = [] then 0 else 1)"

definition metadata_doc :: "audio_chunk \<Rightarrow> toml_doc" where
  "metadata_doc c =
     (let t =
        [''schema_version'' \<mapsto> Toml_integer 1, ''schema_minor'' \<mapsto> Toml_integer (chunk_minor c),
         ''run_id'' \<mapsto> Toml_text (ac_run c), ''capture_point'' \<mapsto> Toml_text (ac_capture_point c),
         ''producer_sequence'' \<mapsto> Toml_text (unsigned_text (ac_sequence c)),
         ''pcm_format'' \<mapsto> Toml_text (pcm_name (af_pcm (ac_format c))),
         ''sample_rate'' \<mapsto> Toml_integer (uint (af_rate (ac_format c))),
         ''channels'' \<mapsto> Toml_integer (uint (af_channels (ac_format c))),
         ''timeline'' \<mapsto> Toml_text (sr_timeline (ac_range c)),
         ''sample_begin'' \<mapsto> Toml_text (unsigned_text (sr_begin (ac_range c))),
         ''sample_count'' \<mapsto> Toml_text (unsigned_text (sr_end (ac_range c) - sr_begin (ac_range c))),
         ''sha256'' \<mapsto> Toml_text (hex_text (the (fd_value (ac_sha256 c)))),
         ''durability'' \<mapsto>
           Toml_text (if ac_durability c = Durability_confirmed then ''confirmed'' else ''pending''),
         ''checkpoint'' \<mapsto> Toml_map (field_doc Toml_text (ac_checkpoint c)),
         ''causes'' \<mapsto> causes_node (ac_causes c),
         ''discontinuities'' \<mapsto> Toml_list (map discontinuity_node (ac_discontinuities c))]
      in if ac_segment c \<noteq> 0 then t(''segment'' \<mapsto> Toml_text (unsigned_text (ac_segment c))) else t)"

text \<open>What is read before the digest: the chunk without it, its samples and the fields after it.\<close>

definition parse_chunk_head :: "toml_library \<Rightarrow> toml_doc \<Rightarrow> (int \<times> audio_chunk) option" where
  "parse_chunk_head L t = do {
     schema_minor \<leftarrow> integer_of L (t ''schema_minor'');
     run \<leftarrow> (if integer_of L (t ''schema_version'') \<noteq> Some 1 \<or> schema_minor < 0 \<or> 2 < schema_minor then None
             else text_of (t ''run_id''));
     capture \<leftarrow> text_of (t ''capture_point'');
     format \<leftarrow> text_of (t ''pcm_format'');
     rate \<leftarrow> integer_of L (t ''sample_rate'');
     channels \<leftarrow> integer_of L (t ''channels'');
     timeline \<leftarrow> text_of (t ''timeline'');
     sequence \<leftarrow> (if rate < 0 \<or> 4294967295 < rate \<or> channels < 0 \<or> 255 < channels then None
                  else decimal (t ''producer_sequence''));
     pcm \<leftarrow> pcm_named format;
     first \<leftarrow> decimal (t ''sample_begin'');
     count \<leftarrow> decimal (t ''sample_count'');
     if count = 0 \<or> - 1 - count < first then None
     else Some (schema_minor,
       \<lparr>ac_run = run, ac_capture_point = capture, ac_sequence = sequence,
        ac_format = \<lparr>af_pcm = pcm, af_rate = of_int rate, af_channels = of_int channels\<rparr>,
        ac_range = \<lparr>sr_timeline = timeline, sr_rate = of_int rate, sr_begin = first, sr_end = first + count\<rparr>,
        ac_bytes = [], ac_sha256 = \<lparr>fd_availability = Unknown, fd_value = None, fd_reason = []\<rparr>,
        ac_durability = Durability_pending,
        ac_checkpoint = \<lparr>fd_availability = Unknown, fd_value = None, fd_reason = []\<rparr>, ac_causes = [],
        ac_discontinuities = [], ac_segment = 0\<rparr>)
   }"

definition parse_segment :: "int \<Rightarrow> toml option \<Rightarrow> u64 option" where
  "parse_segment schema_minor n =
     (if schema_minor = 2
      then (case decimal n of None \<Rightarrow> None | Some s \<Rightarrow> if s = 0 then None else Some s)
      else if n \<noteq> None then None else Some 0)"

definition parse_chunk_rest :: "toml_library \<Rightarrow> toml_doc \<Rightarrow> int \<Rightarrow> audio_chunk \<Rightarrow> audio_chunk option" where
  "parse_chunk_rest L t schema_minor c = do {
     digest \<leftarrow> Option.bind (text_of (t ''sha256'')) parse_hex;
     checkpoint \<leftarrow> parse_string_field (t ''checkpoint'');
     durability \<leftarrow> text_of (t ''durability'');
     confirmed \<leftarrow> (if durability = ''pending'' then Some Durability_pending
                   else if durability = ''confirmed'' then Some Durability_confirmed else None);
     discontinuities \<leftarrow> parse_discontinuities L (t ''discontinuities'');
     causes \<leftarrow> (case list_of_node (t ''causes'') of
                  None \<Rightarrow> if 1 \<le> schema_minor then None else Some []
                | Some ns \<Rightarrow> parse_cause_ids ns);
     segment \<leftarrow> parse_segment schema_minor (t ''segment'');
     Some (c\<lparr>ac_sha256 := \<lparr>fd_availability = Known, fd_value = Some digest, fd_reason = []\<rparr>,
             ac_durability := confirmed, ac_checkpoint := checkpoint, ac_causes := causes,
             ac_discontinuities := discontinuities, ac_segment := segment\<rparr>)
   }"

definition parse_metadata :: "toml_library \<Rightarrow> string \<Rightarrow> chunk_error + audio_chunk" where
  "parse_metadata L s =
     (case tl_parse L s of
        None \<Rightarrow> Inl Chunk_malformed_metadata
      | Some t \<Rightarrow>
          (case parse_chunk_head L t of
             None \<Rightarrow> Inl Chunk_malformed_metadata
           | Some (schema_minor, c) \<Rightarrow>
               if text_of (t ''sha256'') = None then Inl Chunk_hash_required
               else
                 (case parse_chunk_rest L t schema_minor c of
                    None \<Rightarrow> Inl Chunk_malformed_metadata
                  | Some c' \<Rightarrow> Inr c')))"

section \<open>The message\<close>

definition pcm_sha256 :: "bytes \<Rightarrow> bytes" where
  "pcm_sha256 bs = ci_sha256 (identify_content bs)"

definition encode_pcm_message :: "toml_library \<Rightarrow> audio_chunk \<Rightarrow> u64 \<Rightarrow> chunk_error + bytes" where
  "encode_pcm_message L c sequence =
     (if \<not> well_formed_chunk c \<or> sequence = 0 \<or> sr_begin (ac_range c) = sr_end (ac_range c) then Inl Chunk_invalid
      else if fd_availability (ac_sha256 c) \<noteq> Known \<or> fd_value (ac_sha256 c) = None then Inl Chunk_hash_required
      else if the (fd_value (ac_sha256 c)) \<noteq> pcm_sha256 (ac_bytes c) then Inl Chunk_hash_mismatch
      else
        (let text = tl_print L (metadata_doc c) in
         if text = [] \<or> unat max_protocol_payload_bytes < length text then Inl Chunk_metadata_too_large
         else if unat max_protocol_payload_bytes < 8 + length text + length (ac_bytes c)
         then Inl Chunk_message_too_large
         else
           (let payload = put_u32 (of_nat (length text)) @ put_u32 (of_nat (length (ac_bytes c))) @
                          map char_byte text @ ac_bytes c
            in Inr (encode_protocol_header
                      \<lparr>ph_type = Message_audio_chunk, ph_payload_bytes = of_nat (length payload), ph_channel = 2,
                       ph_sequence = sequence\<rparr> @ payload))))"

definition decode_pcm_payload :: "toml_library \<Rightarrow> bytes \<Rightarrow> chunk_error + audio_chunk" where
  "decode_pcm_payload L payload =
     (if length payload < 8 then Inl Chunk_truncated
      else
        (let metadata_bytes = unat (get_u32 payload 0); pcm_bytes = unat (get_u32 payload 4) in
         if metadata_bytes = 0 \<or> pcm_bytes = 0 \<or> length payload - 8 < metadata_bytes \<or>
            pcm_bytes \<noteq> length payload - 8 - metadata_bytes
         then Inl Chunk_length_mismatch
         else
           (case parse_metadata L (map byte_char (take metadata_bytes (drop 8 payload))) of
              Inl e \<Rightarrow> Inl e
            | Inr c \<Rightarrow>
                (case expected_payload_bytes (ac_format c) (sr_end (ac_range c) - sr_begin (ac_range c)) of
                   None \<Rightarrow> Inl Chunk_pcm_length_mismatch
                 | Some expected \<Rightarrow>
                     if unat expected \<noteq> pcm_bytes then Inl Chunk_pcm_length_mismatch
                     else
                       (let c' = c\<lparr>ac_bytes := take pcm_bytes (drop (8 + metadata_bytes) payload)\<rparr> in
                        if fd_availability (ac_sha256 c') \<noteq> Known \<or> fd_value (ac_sha256 c') = None
                        then Inl Chunk_hash_required
                        else if the (fd_value (ac_sha256 c')) \<noteq> pcm_sha256 (ac_bytes c')
                        then Inl Chunk_hash_mismatch
                        else if \<not> well_formed_chunk c' then Inl Chunk_malformed_metadata
                        else Inr c')))))"

definition decode_pcm_message :: "toml_library \<Rightarrow> bytes \<Rightarrow> u64 \<Rightarrow> chunk_error + audio_chunk" where
  "decode_pcm_message L message expected_sequence =
     (if length message < protocol_header_bytes then Inl Chunk_header_rejected
      else
        (case decode_protocol_header (take protocol_header_bytes message) 2 of
           Inl e \<Rightarrow> Inl Chunk_header_rejected
         | Inr h \<Rightarrow>
             if ph_type h \<noteq> Message_audio_chunk then Inl Chunk_wrong_type
             else if ph_sequence h \<noteq> expected_sequence then Inl Chunk_sequence_mismatch
             else if unat (ph_payload_bytes h) \<noteq> length message - protocol_header_bytes
             then Inl Chunk_length_mismatch
             else decode_pcm_payload L (drop protocol_header_bytes message)))"

section \<open>The message is read back\<close>

lemma hex_value_digits: "\<forall>k \<in> set [0..<16]. hex_value (''0123456789abcdef'' ! k) = Some (of_nat k)"
  by code_simp

lemma hex_value_digit: "n < 16 \<Longrightarrow> hex_value (hex_digit n) = Some n"
  using hex_value_digits by (auto simp: hex_digit_def word_less_nat_alt)

lemma byte_nibbles: "16 * drop_bit 4 b + (b AND 15) = (b :: u8)"
proof -
  have "push_bit 4 (drop_bit 4 b) = 16 * drop_bit 4 b" by (simp add: push_bit_eq_mult)
  moreover have "b AND 15 = take_bit 4 b" by (simp add: take_bit_eq_mask mask_eq_exp_minus_1)
  ultimately show ?thesis using bits_ident [of 4 b] by simp
qed

lemma nibbles_small: "drop_bit 4 (b :: u8) < 16" "(b :: u8) AND 15 < 16"
proof -
  show "drop_bit 4 b < 16"
    using unat_bounded [of b] by (simp add: word_less_nat_alt unat_drop_bit_eq drop_bit_eq_div [where ?'a = nat])
  have "b AND 15 = take_bit 4 b" by (simp add: take_bit_eq_mask mask_eq_exp_minus_1)
  then show "b AND 15 < 16" by (simp add: word_less_nat_alt unsigned_take_bit_eq take_bit_nat_less_exp [of 4, simplified])
qed

lemma parse_pairs_hex: "parse_pairs (hex_text bs) = Some bs"
  by (induction bs) (simp_all add: hex_text_def hex_value_digit nibbles_small byte_nibbles)

lemma length_hex_text: "length (hex_text bs) = 2 * length bs"
  by (induction bs) (simp_all add: hex_text_def)

lemma parse_hex_text: "length bs = 32 \<Longrightarrow> parse_hex (hex_text bs) = Some bs"
  by (simp add: parse_hex_def length_hex_text parse_pairs_hex)

lemma pcm_named_name [simp]: "pcm_named (pcm_name f) = Some f"
  by (cases f) (simp_all add: pcm_named_def)

lemma discontinuity_named_name [simp]: "discontinuity_named (discontinuity_name k) = Some k"
  by (cases k) (simp_all add: discontinuity_named_def)

lemma decimal_node [simp]: "decimal (Some (Toml_text (unsigned_text n))) = Some n"
  by (simp add: decimal_def)

lemma integer_node: "reads_integers L \<Longrightarrow> integer_of L (Some (Toml_integer i)) = Some i"
  by (simp add: integer_of_def reads_integers_def)

lemma parse_range_node: "reads_integers L \<Longrightarrow> parse_range L (Some (range_node r)) = Some r"
  using uint_u32_bound [of "sr_rate r"]
  by (simp add: parse_range_def range_node_def range_doc_def integer_node)

lemma parse_range_field_doc:
  "reads_integers L \<Longrightarrow> parse_range_field L (Some (Toml_map (field_doc range_node f))) = Some f"
  by (cases "fd_value f") (simp_all add: parse_range_field_def parse_range_node)

lemma parse_cause_ids_node: "length is \<le> max_fact_causes \<Longrightarrow> parse_cause_ids (map (\<lambda>i. Toml_map (id_doc i)) is) = Some is"
  by (simp add: parse_cause_ids_def parse_all_map parse_id_doc id_doc_def)

lemma parse_discontinuity_node:
  "reads_integers L \<Longrightarrow> length (di_causes d) \<le> max_fact_causes \<Longrightarrow>
    parse_discontinuity L (discontinuity_node d) = Some d"
  by (simp add: parse_discontinuity_def discontinuity_node_def parse_range_node parse_range_field_doc
      causes_node_def parse_cause_ids_node)

lemma parse_discontinuities_node:
  assumes "reads_integers L" and "well_formed_chunk c"
  shows "parse_discontinuities L (Some (Toml_list (map discontinuity_node (ac_discontinuities c)))) =
    Some (ac_discontinuities c)"
proof -
  have "length (di_causes d) \<le> max_fact_causes" if "d \<in> set (ac_discontinuities c)" for d
    using assms(2) that by (auto simp: well_formed_chunk_def valid_discontinuity_def list_all_iff)
  with assms show ?thesis
    by (simp add: parse_discontinuities_def well_formed_chunk_def parse_all_map parse_discontinuity_node)
qed

text \<open>The digest is known; its reason is not sent.\<close>

definition sent_chunk :: "audio_chunk \<Rightarrow> audio_chunk" where
  "sent_chunk c = c\<lparr>ac_sha256 := (ac_sha256 c)\<lparr>fd_reason := []\<rparr>\<rparr>"

lemma sample_count_fits: "b \<le> e \<Longrightarrow> \<not> (- 1 - (e - b) < (b :: u64))"
proof -
  assume "b \<le> e"
  then have "unat (- 1 - (e - b)) = 2 ^ 64 - 1 - (unat e - unat b)"
    by (simp add: unat_minus_le unsigned_minus_1_eq_mask mask_eq_exp_minus_1)
  then show ?thesis
    using \<open>b \<le> e\<close> unat_u64_bound [of e] by (simp add: word_less_nat_alt word_le_nat_alt)
qed

lemma parse_metadata_head:
  assumes "reads_integers L" and "well_formed_chunk c" and "sr_begin (ac_range c) \<noteq> sr_end (ac_range c)"
  shows "parse_chunk_head L (metadata_doc c) = Some (chunk_minor c,
    \<lparr>ac_run = ac_run c, ac_capture_point = ac_capture_point c, ac_sequence = ac_sequence c,
     ac_format = ac_format c, ac_range = ac_range c, ac_bytes = [],
     ac_sha256 = \<lparr>fd_availability = Unknown, fd_value = None, fd_reason = []\<rparr>,
     ac_durability = Durability_pending,
     ac_checkpoint = \<lparr>fd_availability = Unknown, fd_value = None, fd_reason = []\<rparr>, ac_causes = [],
     ac_discontinuities = [], ac_segment = 0\<rparr>)"
proof -
  have samples: "sr_begin (ac_range c) \<le> sr_end (ac_range c)" "sr_rate (ac_range c) = af_rate (ac_format c)"
    using assms(2) by (simp_all add: well_formed_chunk_def well_formed_range_def)
  have "uint (af_channels (ac_format c)) < 256" using uint_lt2p [of "af_channels (ac_format c)"] by simp
  with assms samples sample_count_fits [OF samples(1)] uint_u32_bound [of "af_rate (ac_format c)"]
  show ?thesis
    by (simp add: parse_chunk_head_def metadata_doc_def Let_def integer_node chunk_minor_def)
qed

lemma parse_metadata_rest:
  assumes "reads_integers L" and "well_formed_chunk c" and "fd_value (ac_sha256 c) = Some digest"
    and "length digest = 32"
  shows "parse_chunk_rest L (metadata_doc c) (chunk_minor c) c' = Some
    (c'\<lparr>ac_sha256 := \<lparr>fd_availability = Known, fd_value = Some digest, fd_reason = []\<rparr>,
        ac_durability := ac_durability c, ac_checkpoint := ac_checkpoint c, ac_causes := ac_causes c,
        ac_discontinuities := ac_discontinuities c, ac_segment := ac_segment c\<rparr>)"
proof -
  have "length (ac_causes c) \<le> max_fact_causes" using assms(2) by (simp add: well_formed_chunk_def)
  moreover have "ac_durability c = Durability_confirmed \<or> ac_durability c = Durability_pending"
    by (cases "ac_durability c") simp_all
  ultimately show ?thesis
    using assms
    by (auto simp: parse_chunk_rest_def metadata_doc_def Let_def parse_hex_text parse_discontinuities_node
        causes_node_def parse_cause_ids_node parse_segment_def chunk_minor_def)
qed

lemma parse_metadata_doc:
  assumes "reads_integers L" and "well_formed_chunk c" and "sr_begin (ac_range c) \<noteq> sr_end (ac_range c)"
    and "fd_availability (ac_sha256 c) = Known" and "fd_value (ac_sha256 c) = Some digest" and "length digest = 32"
    and "tl_parse L s = Some (metadata_doc c)"
  shows "parse_metadata L s = Inr ((sent_chunk c)\<lparr>ac_bytes := []\<rparr>)"
proof -
  have "text_of (metadata_doc c ''sha256'') \<noteq> None" by (simp add: metadata_doc_def Let_def)
  moreover have "ac_sha256 (sent_chunk c) = \<lparr>fd_availability = Known, fd_value = Some digest, fd_reason = []\<rparr>"
    using assms(4,5) by (cases "ac_sha256 c") (simp add: sent_chunk_def)
  ultimately show ?thesis
    using assms
    by (simp add: parse_metadata_def parse_metadata_head parse_metadata_rest sent_chunk_def)
qed

lemma chunk_has_bytes:
  assumes "well_formed_chunk c" and "sr_begin (ac_range c) \<noteq> sr_end (ac_range c)"
  shows "\<exists>n. expected_payload_bytes (ac_format c) (sr_end (ac_range c) - sr_begin (ac_range c)) = Some n \<and>
    unat n = length (ac_bytes c) \<and> ac_bytes c \<noteq> []"
proof -
  let ?n = "sr_end (ac_range c) - sr_begin (ac_range c)"
  obtain n where n: "expected_payload_bytes (ac_format c) ?n = Some n" "unat n = length (ac_bytes c)"
    using assms(1) by (auto simp: well_formed_chunk_def split: option.splits)
  have "0 < unat ?n" using assms(2) by (simp add: unat_gt_0)
  moreover have "0 < unat (af_channels (ac_format c))" "0 < unat (sample_width (af_pcm (ac_format c)))"
    using expected_payload_exact [of "ac_format c" ?n] n(1) chunk_width_cases [of "af_pcm (ac_format c)"]
    by (auto simp: word_less_nat_alt)
  ultimately have "0 < unat n"
    using expected_payload_exact [of "ac_format c" ?n] n(1) by simp
  with n show ?thesis by auto
qed

lemma well_formed_sent: "well_formed_chunk c \<Longrightarrow> well_formed_chunk (sent_chunk c)"
proof -
  assume wf: "well_formed_chunk c"
  then have "consistent_availability ((ac_sha256 c)\<lparr>fd_reason := []\<rparr>)"
    by (cases "fd_availability (ac_sha256 c)") (simp_all add: well_formed_chunk_def consistent_availability_def)
  with wf show ?thesis
    by (cases "expected_payload_bytes (ac_format c) (sr_end (ac_range c) - sr_begin (ac_range c))")
      (simp_all add: well_formed_chunk_def sent_chunk_def)
qed

lemma decode_encoded_payload:
  assumes wf: "well_formed_chunk c" and ranged: "sr_begin (ac_range c) \<noteq> sr_end (ac_range c)"
    and digest: "fd_availability (ac_sha256 c) = Known" "fd_value (ac_sha256 c) = Some (pcm_sha256 (ac_bytes c))"
    and lib: "reads_integers L" "tl_parse L text = Some (metadata_doc c)" and "text \<noteq> []"
    and small: "8 + length text + length (ac_bytes c) \<le> unat max_protocol_payload_bytes"
  shows "decode_pcm_payload L (put_u32 (of_nat (length text)) @ put_u32 (of_nat (length (ac_bytes c))) @
      map char_byte text @ ac_bytes c) = Inr (sent_chunk c)"
proof -
  let ?payload = "put_u32 (of_nat (length text)) @ put_u32 (of_nat (length (ac_bytes c))) @ map char_byte text @ ac_bytes c"
  have max: "unat max_protocol_payload_bytes = 262104" by (simp add: max_protocol_payload_bytes_def)
  have "unat (of_nat (length text) :: u32) = length text"
    using small by (intro unat_of_nat_small) (simp add: max)
  then have first: "unat (get_u32 ?payload 0) = length text" by (simp add: le32.get_first)
  have "unat (of_nat (length (ac_bytes c)) :: u32) = length (ac_bytes c)"
    using small by (intro unat_of_nat_small) (simp add: max)
  then have second: "unat (get_u32 ?payload 4) = length (ac_bytes c)"
    using le32.get_after [of "put_u32 (of_nat (length text))"] by simp
  obtain n where n: "expected_payload_bytes (ac_format c) (sr_end (ac_range c) - sr_begin (ac_range c)) = Some n"
      "unat n = length (ac_bytes c)" "ac_bytes c \<noteq> []"
    using chunk_has_bytes [OF wf ranged] by blast
  have meta: "parse_metadata L text = Inr ((sent_chunk c)\<lparr>ac_bytes := []\<rparr>)"
    by (rule parse_metadata_doc [OF lib(1) wf ranged digest _ lib(2)]) (simp add: pcm_sha256_def)
  have "well_formed_chunk (sent_chunk c)" by (rule well_formed_sent [OF wf])
  moreover have "map byte_char (map char_byte text) = text" by (simp add: comp_def)
  ultimately show ?thesis
    unfolding decode_pcm_payload_def first second Let_def
    using n digest \<open>text \<noteq> []\<close> meta by (simp add: sent_chunk_def comp_def)
qed

lemma decode_encoded_chunk:
  assumes "encode_pcm_message L c sequence = Inr message" and "reads_integers L"
    and "tl_parse L (tl_print L (metadata_doc c)) = Some (metadata_doc c)"
  shows "decode_pcm_message L message sequence' =
      (if sequence' = sequence then Inr (sent_chunk c) else Inl Chunk_sequence_mismatch) \<and>
    length message \<le> 256 * 1024"
proof -
  let ?text = "tl_print L (metadata_doc c)"
  let ?payload = "put_u32 (of_nat (length ?text)) @ put_u32 (of_nat (length (ac_bytes c))) @ map char_byte ?text @ ac_bytes c"
  let ?h = "\<lparr>ph_type = Message_audio_chunk, ph_payload_bytes = of_nat (length ?payload), ph_channel = 2,
    ph_sequence = sequence\<rparr>"
  from assms(1) have c: "well_formed_chunk c" "sequence \<noteq> 0" "sr_begin (ac_range c) \<noteq> sr_end (ac_range c)"
      "fd_availability (ac_sha256 c) = Known" "fd_value (ac_sha256 c) = Some (pcm_sha256 (ac_bytes c))"
      "?text \<noteq> []" "8 + length ?text + length (ac_bytes c) \<le> unat max_protocol_payload_bytes"
      "message = encode_protocol_header ?h @ ?payload"
    by (auto simp: encode_pcm_message_def Let_def split: if_splits)
  have size_ok: "length ?payload \<le> unat max_protocol_payload_bytes" using c(7) by simp
  have "?payload \<noteq> []" by (metis append_is_Nil_conv length_0_conv length_put_le zero_neq_numeral)
  from own_header_accepted [where t = Message_audio_chunk, unfolded channel_for_def, simplified, OF size_ok this c(2)]
  have header: "decode_protocol_header (encode_protocol_header ?h) 2 = Inr ?h" "unat (ph_payload_bytes ?h) = length ?payload"
    by simp_all
  have payload: "decode_pcm_payload L ?payload = Inr (sent_chunk c)"
    by (rule decode_encoded_payload [OF c(1,3,4,5) assms(2,3) c(6,7)])
  have "take protocol_header_bytes message = encode_protocol_header ?h" "drop protocol_header_bytes message = ?payload"
      "length message = protocol_header_bytes + length ?payload"
    by (simp_all add: c(8) protocol_header_bytes_def)
  moreover have "length ?payload + protocol_header_bytes \<le> 256 * 1024"
    using size_ok by (simp add: protocol_header_bytes_def max_protocol_payload_bytes_def)
  ultimately show ?thesis
    using header payload by (simp add: decode_pcm_message_def)
qed

text \<open>
  C17: PCM survives its transport, and only PCM with its digest comes out. Whatever chunk is put in a
  message, decoding it under its sequence gives the chunk, all its fields but the reason of the known
  digest, provided the TOML library reads back the document it printed; under any other sequence the
  message is refused as such, and a message never exceeds 256 KiB.
\<close>

theorem pcm_message_roundtrip:
  assumes "encode_pcm_message L c sequence = Inr message"
    and "reads_integers L" and "tl_parse L (tl_print L (metadata_doc c)) = Some (metadata_doc c)"
  shows "decode_pcm_message L message sequence = Inr (c\<lparr>ac_sha256 := (ac_sha256 c)\<lparr>fd_reason := []\<rparr>\<rparr>) \<and>
    (sequence' \<noteq> sequence \<longrightarrow> decode_pcm_message L message sequence' = Inl Chunk_sequence_mismatch) \<and>
    length message \<le> 256 * 1024"
  using decode_encoded_chunk [OF assms] by (simp add: sent_chunk_def)

lemma decoded_chunk_sound:
  "case decode_pcm_message L message sequence of
     Inl _ \<Rightarrow> True
   | Inr c \<Rightarrow>
       well_formed_chunk c \<and> ac_bytes c \<noteq> [] \<and> fd_value (ac_sha256 c) = Some (pcm_sha256 (ac_bytes c)) \<and>
       (\<exists>head. message = head @ ac_bytes c) \<and> length message \<le> 256 * 1024"
proof (cases "decode_pcm_message L message sequence")
  case (Inr c)
  then obtain h where h: "decode_protocol_header (take protocol_header_bytes message) 2 = Inr h"
      "unat (ph_payload_bytes h) = length message - protocol_header_bytes"
    and payload: "decode_pcm_payload L (drop protocol_header_bytes message) = Inr c"
    by (auto simp: decode_pcm_message_def split: if_splits sum.splits)
  let ?payload = "drop protocol_header_bytes message"
  let ?m = "unat (get_u32 ?payload 0)" and ?p = "unat (get_u32 ?payload 4)"
  from payload have p: "8 \<le> length ?payload" "?p \<noteq> 0" "?p = length ?payload - 8 - ?m" "?m \<le> length ?payload - 8"
    and c: "well_formed_chunk c" "fd_value (ac_sha256 c) = Some (pcm_sha256 (ac_bytes c))"
      "ac_bytes c = take ?p (drop (8 + ?m) ?payload)"
    by (auto simp: decode_pcm_payload_def Let_def split: if_splits sum.splits option.splits)
  have "take ?p (drop (8 + ?m) ?payload) = drop (8 + ?m) ?payload" using p(3) by simp
  with c(3) have bytes: "ac_bytes c = drop (protocol_header_bytes + (8 + ?m)) message" by (simp add: add.commute)
  have "length (ac_bytes c) = ?p" using c(3) p by simp
  with p(2) have "ac_bytes c \<noteq> []" by auto
  moreover have "\<exists>head. message = head @ ac_bytes c" unfolding bytes by (metis append_take_drop_id)
  moreover have "unat (ph_payload_bytes h) \<le> unat max_protocol_payload_bytes"
    using h(1) by (simp add: header_exact valid_header_def word_le_nat_alt)
  then have "length message \<le> 256 * 1024"
    using h(2) p(1) by (simp add: max_protocol_payload_bytes_def protocol_header_bytes_def)
  ultimately show ?thesis using Inr c(1,2) by simp
qed simp

text \<open>
  What comes out of any bytes is a well-formed chunk whose samples are at the end of the message and
  have the digest it names.
\<close>

theorem decoded_chunk_verified:
  "case decode_pcm_message L message sequence of
     Inl _ \<Rightarrow> True
   | Inr c \<Rightarrow>
       well_formed_chunk c \<and> ac_bytes c \<noteq> [] \<and> fd_value (ac_sha256 c) = Some (pcm_sha256 (ac_bytes c)) \<and>
       (\<exists>head. message = head @ ac_bytes c) \<and> length message \<le> 256 * 1024"
  by (rule decoded_chunk_sound)

definition example_chunk :: audio_chunk where
  "example_chunk =
     \<lparr>ac_run = ''run'', ac_capture_point = ''output'', ac_sequence = 1,
      ac_format = \<lparr>af_pcm = Pcm_s16le, af_rate = 44100, af_channels = 1\<rparr>,
      ac_range = \<lparr>sr_timeline = ''mix'', sr_rate = 44100, sr_begin = 10, sr_end = 11\<rparr>, ac_bytes = [1, 2],
      ac_sha256 = \<lparr>fd_availability = Known, fd_value = Some (pcm_sha256 [1, 2]), fd_reason = ''measured''\<rparr>,
      ac_durability = Durability_pending,
      ac_checkpoint = \<lparr>fd_availability = Unknown, fd_value = None, fd_reason = []\<rparr>,
      ac_causes = [\<lparr>id_run = ''run'', id_producer = ''mixer'', id_sequence = 4\<rparr>],
      ac_discontinuities = [], ac_segment = 2\<rparr>"

definition chunk_library :: "audio_chunk \<Rightarrow> toml_library" where
  "chunk_library c = silent_library
     \<lparr>tl_print := \<lambda>_. ''x'', tl_parse := \<lambda>_. Some (metadata_doc c),
      tl_integer := \<lambda>n. case n of Toml_integer i \<Rightarrow> Some i | _ \<Rightarrow> None\<rparr>"

lemma example_chunk_encodes: "\<exists>message. encode_pcm_message (chunk_library example_chunk) example_chunk 5 = Inr message"
proof -
  have "well_formed_chunk example_chunk"
    by (simp add: example_chunk_def well_formed_chunk_def is_identifier_def well_formed_range_def
        consistent_availability_def expected_payload_bytes_def fact_of_run_def limit_defs)
  then show ?thesis
    by (simp add: encode_pcm_message_def example_chunk_def chunk_library_def Let_def max_protocol_payload_bytes_def)
qed

lemma example_chunk_reads_back:
  "reads_integers (chunk_library c)"
  "tl_parse (chunk_library c) (tl_print (chunk_library c) (metadata_doc c)) = Some (metadata_doc c)"
  by (simp_all add: reads_integers_def chunk_library_def)

theorem pcm_message_roundtrip_witness:
  "\<exists>message. decode_pcm_message (chunk_library example_chunk) message 5 =
      Inr (example_chunk\<lparr>ac_sha256 := (ac_sha256 example_chunk)\<lparr>fd_reason := []\<rparr>\<rparr>) \<and>
    decode_pcm_message (chunk_library example_chunk) message 6 = Inl Chunk_sequence_mismatch"
proof -
  obtain message where m: "encode_pcm_message (chunk_library example_chunk) example_chunk 5 = Inr message"
    using example_chunk_encodes by blast
  from pcm_message_roundtrip [OF m example_chunk_reads_back, of 6] show ?thesis by auto
qed

end
