(* ===== verification/Evidence_Stores.thy ===== *)
theory Evidence_Stores
  imports Fact_Batch Fact_Integrity Pcm_Message
begin

text \<open>
  The files of the evidence: \<^verbatim>\<open>tools/audio_qa/exclusive_file\<close> (a file that is never overwritten),
  \<^verbatim>\<open>fact_fragment_store\<close> (a batch of facts under a sealed header) and \<^verbatim>\<open>pcm_block_store\<close> (a PCM message
  under the same header). The file system is a map from paths to contents; what the operating system
  answers to each call is an argument. On POSIX, the platform modelled, \<^verbatim>\<open>long_path\<close> is the identity.
\<close>

section \<open>Exclusive files\<close>

type_synonym file_map = "string \<rightharpoonup> bytes"

datatype exclusive_result = Exclusive_written | Exclusive_already_exists | Exclusive_io_error

text \<open>
  The answers of the operating system: whether \<^verbatim>\<open>open\<close> fails for another reason than an existing file,
  the count the \<open>i\<close>-th \<^verbatim>\<open>write\<close> returns, and whether \<^verbatim>\<open>close\<close> and the removal fail.
\<close>

record exclusive_io =
  xi_open_fails :: bool
  xi_count :: "nat \<Rightarrow> int"
  xi_close_fails :: bool
  xi_remove_fails :: bool

function write_pieces :: "(nat \<Rightarrow> int) \<Rightarrow> nat \<Rightarrow> bytes \<Rightarrow> bytes \<Rightarrow> bytes \<times> bool" where
  "write_pieces count i written rest =
     (if rest = [] then (written, True)
      else if count i \<le> 0 then (written, False)
      else write_pieces count (Suc i) (written @ take (nat (count i)) rest) (drop (nat (count i)) rest))"
  by pat_completeness auto
termination
  by (relation "measure (\<lambda>(_, _, _, rest). length rest)") auto

declare write_pieces.simps [simp del]

definition write_exclusive_file ::
    "'a exclusive_io_scheme \<Rightarrow> file_map \<Rightarrow> string \<Rightarrow> bytes \<Rightarrow> file_map \<times> exclusive_result" where
  "write_exclusive_file io fs path bs =
     (if xi_open_fails io then (fs, Exclusive_io_error)
      else if fs path \<noteq> None then (fs, Exclusive_already_exists)
      else
        (let (written, complete) = write_pieces (xi_count io) 0 [] bs;
             opened = fs(path \<mapsto> written)
         in if \<not> complete \<or> xi_close_fails io
            then (if xi_remove_fails io then opened else opened(path := None), Exclusive_io_error)
            else (opened, Exclusive_written)))"

lemma write_pieces_all: "write_pieces count i written [] = (written, True)"
  by (simp add: write_pieces.simps [of count i written "[]"])

lemma write_pieces_failed: "rest \<noteq> [] \<Longrightarrow> count i \<le> 0 \<Longrightarrow> write_pieces count i written rest = (written, False)"
  by (simp add: write_pieces.simps [of count i written rest])

lemma write_pieces_more:
  "rest \<noteq> [] \<Longrightarrow> \<not> count i \<le> 0 \<Longrightarrow> write_pieces count i written rest =
     write_pieces count (Suc i) (written @ take (nat (count i)) rest) (drop (nat (count i)) rest)"
  by (simp add: write_pieces.simps [of count i written rest])

lemma write_pieces_complete:
  "write_pieces count i written rest = (bs, True) \<Longrightarrow> bs = written @ rest"
proof (induction count i written rest rule: write_pieces.induct)
  case (1 count i written rest)
  consider "rest = []" | "rest \<noteq> []" "count i \<le> 0" | "rest \<noteq> []" "\<not> count i \<le> 0" by blast
  then show ?case using 1 by cases (simp_all add: write_pieces_all write_pieces_failed write_pieces_more)
qed

lemma write_pieces_prefix:
  "\<exists>k. fst (write_pieces count i written rest) = written @ take k rest"
proof (induction count i written rest rule: write_pieces.induct)
  case (1 count i written rest)
  consider "rest = []" | "rest \<noteq> []" "count i \<le> 0" | "rest \<noteq> []" "\<not> count i \<le> 0" by blast
  then show ?case
  proof cases
    case 3
    then obtain k where k: "fst (write_pieces count (Suc i) (written @ take (nat (count i)) rest)
        (drop (nat (count i)) rest)) = (written @ take (nat (count i)) rest) @ take k (drop (nat (count i)) rest)"
      using 1 by blast
    have "fst (write_pieces count i written rest) = written @ take (nat (count i) + k) rest"
      using k 3 by (simp add: take_add write_pieces_more)
    then show ?thesis by blast
  qed (auto simp: write_pieces_all write_pieces_failed intro: exI [of _ 0])
qed

text \<open>
  What a call leaves behind: the whole file under a free name; or nothing but, when even the removal
  fails, a truncated file under a name that was free.
\<close>

definition written_whole :: "file_map \<Rightarrow> string \<Rightarrow> bytes \<Rightarrow> file_map \<Rightarrow> bool" where
  "written_whole fs path bs fs' \<longleftrightarrow> fs path = None \<and> fs' = fs(path \<mapsto> bs)"

definition left_behind :: "bool \<Rightarrow> file_map \<Rightarrow> string \<Rightarrow> bytes \<Rightarrow> file_map \<Rightarrow> bool" where
  "left_behind remove_fails fs path bs fs' \<longleftrightarrow>
     fs' = fs \<or> remove_fails \<and> fs path = None \<and> (\<exists>k. fs' = fs(path \<mapsto> take k bs))"

lemma exclusive_write:
  assumes "write_exclusive_file io fs path bs = (fs', r)"
  shows "if r = Exclusive_written then written_whole fs path bs fs'
    else left_behind (xi_remove_fails io) fs path bs fs' \<and> (r = Exclusive_already_exists \<longrightarrow> fs path \<noteq> None)"
proof (cases "xi_open_fails io \<or> fs path \<noteq> None")
  case True
  with assms show ?thesis
    by (auto simp: write_exclusive_file_def left_behind_def split: if_splits)
next
  case False
  obtain written complete where w: "write_pieces (xi_count io) 0 [] bs = (written, complete)" by fastforce
  obtain k where "written = take k bs" using write_pieces_prefix [of "xi_count io" 0 "[]" bs] w by auto
  moreover have "complete \<Longrightarrow> written = bs" using w write_pieces_complete by fastforce
  moreover have "\<exists>k. fs(path \<mapsto> bs) = fs(path \<mapsto> take k bs)" by (rule exI [of _ "length bs"]) simp
  moreover have "fs(path := None) = fs" using False by (simp add: fun_upd_idem)
  ultimately show ?thesis
    using assms False w
    by (cases complete; cases "xi_close_fails io"; cases "xi_remove_fails io")
       (auto simp: write_exclusive_file_def written_whole_def left_behind_def)
qed

text \<open>With an operating system that writes what it is given, a free name is written.\<close>

definition healthy_io :: "'a exclusive_io_scheme \<Rightarrow> bool" where
  "healthy_io io \<longleftrightarrow> \<not> xi_open_fails io \<and> \<not> xi_close_fails io \<and> (\<forall>i. 0 < xi_count io i)"

lemma write_pieces_healthy:
  assumes "\<And>i. 0 < count i"
  shows "write_pieces count i written rest = (written @ rest, True)"
  using assms
proof (induction count i written rest rule: write_pieces.induct)
  case (1 count i written rest)
  have "\<not> count i \<le> 0" using "1.prems" [of i] by simp
  then show ?case using 1 by (cases "rest = []") (simp_all add: write_pieces_all write_pieces_more)
qed

lemma healthy_write:
  assumes "healthy_io io"
  shows "write_exclusive_file io fs path bs =
    (if fs path \<noteq> None then (fs, Exclusive_already_exists) else (fs(path \<mapsto> bs), Exclusive_written))"
  using assms by (simp add: healthy_io_def write_exclusive_file_def write_pieces_healthy)

section \<open>The sealed header\<close>

text \<open>
  Both stores write a header of 64 bytes before their payload: a magic of eight bytes, the version
  1.0, the size of the header, the sequence, two sizes and the SHA-256 of the payload.
\<close>

definition sealed_header_bytes :: nat where "sealed_header_bytes = 64"

definition seal_header :: "bytes \<Rightarrow> u64 \<Rightarrow> u32 \<Rightarrow> u32 \<Rightarrow> bytes \<Rightarrow> bytes" where
  "seal_header magic sequence a b digest =
     magic @ put_u16 1 @ put_u16 0 @ put_u32 (of_nat sealed_header_bytes) @ put_u64 sequence @ put_u32 a @
     put_u32 b @ digest"

lemma sealed_reads:
  assumes "64 \<le> length bs" and "length magic = 8" and "length digest = 32"
  shows "take 64 bs = seal_header magic sequence a b digest \<longleftrightarrow>
    take 8 bs = magic \<and> get_u16 bs 8 = 1 \<and> get_u16 bs 10 = 0 \<and> get_u32 bs 12 = of_nat sealed_header_bytes \<and>
    get_u64 bs 16 = sequence \<and> get_u32 bs 24 = a \<and> get_u32 bs 28 = b \<and> take 32 (drop 32 bs) = digest"
proof -
  have "take 64 bs = take 8 bs @ take 2 (drop 8 bs) @ take 2 (drop 10 bs) @ take 4 (drop 12 bs) @
      take 8 (drop 16 bs) @ take 4 (drop 24 bs) @ take 4 (drop 28 bs) @ take 32 (drop 32 bs)"
    using take_add [of 8 56 bs] take_add [of 2 54 "drop 8 bs"] take_add [of 2 52 "drop 10 bs"]
      take_add [of 4 48 "drop 12 bs"] take_add [of 8 40 "drop 16 bs"] take_add [of 4 36 "drop 24 bs"]
      take_add [of 4 32 "drop 28 bs"]
    by simp
  then show ?thesis
    using assms by (simp add: seal_header_def le16.get_eq_iff le32.get_eq_iff le64.get_eq_iff)
qed

lemma length_seal_header:
  "length magic = 8 \<Longrightarrow> length digest = 32 \<Longrightarrow> length (seal_header magic sequence a b digest) = 64"
  by (simp add: seal_header_def)

definition sealed :: "bytes \<Rightarrow> u64 \<Rightarrow> u32 \<Rightarrow> u32 \<Rightarrow> bytes \<Rightarrow> bytes" where
  "sealed magic sequence a b payload =
     seal_header magic sequence a b (ci_sha256 (identify_content payload)) @ payload"

lemma sealed_parts:
  assumes "length magic = 8"
  shows "length (sealed magic sequence a b payload) = 64 + length payload" and
    "drop 64 (sealed magic sequence a b payload) = payload" and
    "take 64 (sealed magic sequence a b payload) =
      seal_header magic sequence a b (ci_sha256 (identify_content payload))"
  using assms by (simp_all add: sealed_def length_seal_header)

section \<open>Documents and their files\<close>

text \<open>
  The directory of the documents: what \<^verbatim>\<open>symlink_status\<close> says of it, and whether it can be created.
\<close>

datatype entry_status = Entry_error | Entry_missing | Entry_directory | Entry_symlink | Entry_other

record store_io = exclusive_io +
  si_status :: entry_status
  si_created :: bool

definition ensure_directory :: "entry_status \<Rightarrow> bool \<Rightarrow> bool" where
  "ensure_directory status created =
     (if status \<noteq> Entry_error \<and> status \<noteq> Entry_missing then status = Entry_directory else created)"

text \<open>The end of a write: the directory, then the file. The two errors are those of the store.\<close>

definition publish_document ::
    "'e \<Rightarrow> 'e \<Rightarrow> store_io \<Rightarrow> file_map \<Rightarrow> string \<Rightarrow> bytes \<Rightarrow> file_map \<times> 'e option" where
  "publish_document already_exists io_error io fs path document =
     (if \<not> ensure_directory (si_status io) (si_created io) then (fs, Some io_error)
      else
        (case write_exclusive_file io fs path document of
           (fs', Exclusive_already_exists) \<Rightarrow> (fs', Some already_exists)
         | (fs', Exclusive_io_error) \<Rightarrow> (fs', Some io_error)
         | (fs', Exclusive_written) \<Rightarrow> (fs', None)))"

text \<open>
  The reading of a file: whether its size can be asked, and what the stream delivers of its content
  until its end, or that it does not open.
\<close>

record file_reading =
  fr_size_fails :: bool
  fr_delivered :: "bytes \<Rightarrow> bytes option"

definition read_document ::
    "'e \<Rightarrow> 'e \<Rightarrow> 'e \<Rightarrow> nat \<Rightarrow> file_reading \<Rightarrow> file_map \<Rightarrow> string \<Rightarrow> 'e + bytes" where
  "read_document io_error too_large malformed limit io fs path =
     (case if fr_size_fails io then None else fs path of
        None \<Rightarrow> Inl io_error
      | Some content \<Rightarrow>
          if limit < length content then Inl too_large
          else if length content < sealed_header_bytes then Inl malformed
          else
            (case fr_delivered io content of
               None \<Rightarrow> Inl io_error
             | Some document \<Rightarrow> if length document \<noteq> length content then Inl io_error else Inr document))"

definition reading :: file_reading where
  "reading = \<lparr>fr_size_fails = False, fr_delivered = Some\<rparr>"

definition header_fault :: "'e \<Rightarrow> 'e \<Rightarrow> bytes \<Rightarrow> bytes \<Rightarrow> 'e option" where
  "header_fault malformed incompatible magic document =
     (if take 8 document \<noteq> magic then Some malformed
      else if get_u16 document 8 \<noteq> 1 \<or> get_u16 document 10 \<noteq> 0 then Some incompatible
      else if get_u32 document 12 \<noteq> of_nat sealed_header_bytes then Some malformed
      else None)"

definition zero_padded :: "u64 \<Rightarrow> string" where
  "zero_padded n = replicate (20 - length (unsigned_text n)) (CHR ''0'') @ unsigned_text n"

lemma publish_document:
  assumes "publish_document already_exists io_error io fs path document = (fs', r)"
  shows "if r = None then written_whole fs path document fs'
    else left_behind (xi_remove_fails io) fs path document fs' \<and>
      (r = Some already_exists \<longrightarrow> already_exists \<noteq> io_error \<longrightarrow> fs path \<noteq> None)"
proof (cases "ensure_directory (si_status io) (si_created io)")
  case False
  with assms show ?thesis by (auto simp: publish_document_def left_behind_def)
next
  case True
  obtain fs1 w where w: "write_exclusive_file io fs path document = (fs1, w)" by fastforce
  with assms True exclusive_write [OF w] show ?thesis
    by (cases w) (auto simp: publish_document_def)
qed

lemma healthy_publish:
  assumes "healthy_io io" and "ensure_directory (si_status io) (si_created io)"
  shows "publish_document already_exists io_error io fs path document =
    (if fs path \<noteq> None then (fs, Some already_exists) else (fs(path \<mapsto> document), None))"
  using assms by (simp add: publish_document_def healthy_write)

lemma read_document_exact:
  "read_document io_error too_large malformed limit reading fs path = Inr document \<longleftrightarrow>
     fs path = Some document \<and> 64 \<le> length document \<and> length document \<le> limit"
  by (auto simp: read_document_def reading_def sealed_header_bytes_def split: option.splits)

lemma sealed_document_reads:
  assumes "length magic = 8"
  shows "header_fault malformed incompatible magic (sealed magic s a b payload) = None" and
    "get_u64 (sealed magic s a b payload) 16 = s" and "get_u32 (sealed magic s a b payload) 24 = a" and
    "get_u32 (sealed magic s a b payload) 28 = b" and
    "take 32 (drop 32 (sealed magic s a b payload)) = ci_sha256 (identify_content payload)"
proof -
  let ?d = "sealed magic s a b payload"
  have "take 8 ?d = magic \<and> get_u16 ?d 8 = 1 \<and> get_u16 ?d 10 = 0 \<and>
      get_u32 ?d 12 = of_nat sealed_header_bytes \<and> get_u64 ?d 16 = s \<and> get_u32 ?d 24 = a \<and>
      get_u32 ?d 28 = b \<and> take 32 (drop 32 ?d) = ci_sha256 (identify_content payload)"
    using sealed_parts [OF assms, of s a b payload] assms
    by (subst sealed_reads [symmetric]) simp_all
  then show "header_fault malformed incompatible magic ?d = None" "get_u64 ?d 16 = s" "get_u32 ?d 24 = a"
    "get_u32 ?d 28 = b" "take 32 (drop 32 ?d) = ci_sha256 (identify_content payload)"
    by (simp_all add: header_fault_def)
qed

lemma opened_sealed:
  assumes "header_fault malformed incompatible magic document = None" and "64 \<le> length document"
    and "length magic = 8" and "take 32 (drop 32 document) = ci_sha256 (identify_content (drop 64 document))"
  shows "document = sealed magic (get_u64 document 16) (get_u32 document 24) (get_u32 document 28) (drop 64 document)"
proof -
  have "take 64 document = seal_header magic (get_u64 document 16) (get_u32 document 24) (get_u32 document 28)
      (ci_sha256 (identify_content (drop 64 document)))"
    using assms by (subst sealed_reads) (auto simp: header_fault_def split: if_splits)
  then show ?thesis unfolding sealed_def by (metis append_take_drop_id)
qed

text \<open>The number in a name determines the name, and the name the number.\<close>

lemma digits_value_zeros: "digits_value (replicate k (CHR ''0'') @ ds) = digits_value ds"
proof (induction ds rule: rev_induct)
  case Nil
  then show ?case
    by (induction k) (simp_all add: replicate_append_same [symmetric] digit_value_def)
next
  case (snoc d ds)
  then show ?case
    using digits_value_snoc [of "replicate k (CHR ''0'') @ ds" d] by simp
qed

lemma zero_padded_value: "digits_value (zero_padded n) = unat n"
  by (simp add: zero_padded_def digits_value_zeros unsigned_text_def)

lemma zero_padded_inject [simp]: "zero_padded m = zero_padded n \<longleftrightarrow> m = n"
  by (metis zero_padded_value word_unat_eq_iff)

section \<open>Fragments of facts\<close>

definition fragment_magic :: bytes where
  "fragment_magic = map char_byte ''AYTFACT1''"

definition max_fact_fragment_bytes :: nat where
  "max_fact_fragment_bytes = sealed_header_bytes + protocol_header_bytes + unat max_protocol_payload_bytes"

record fragment_file = stored_fragment +
  ff_path :: string
  ff_count :: u32
  ff_payload :: content_identity
  ff_document :: content_identity

definition fragment_path :: "string \<Rightarrow> u64 \<Rightarrow> string" where
  "fragment_path directory sequence = directory @ ''/fragments/facts-'' @ zero_padded sequence @ ''.aqf''"

fun map_batch_error :: "fact_batch_error \<Rightarrow> fragment_store_error" where
  "map_batch_error Batch_sequence_mismatch = Fragment_sequence_mismatch"
| "map_batch_error Batch_invalid_count = Fragment_count_mismatch"
| "map_batch_error Batch_too_large = Fragment_document_too_large"
| "map_batch_error e = Fragment_invalid_content"

definition fragment_document :: "u64 \<Rightarrow> nat \<Rightarrow> bytes \<Rightarrow> bytes" where
  "fragment_document sequence records payload =
     sealed fragment_magic sequence (of_nat records) (of_nat (length payload)) payload"

definition write_fact_fragment ::
    "toml_library \<Rightarrow> store_io \<Rightarrow> file_map \<Rightarrow> string \<Rightarrow> u64 \<Rightarrow> qa_fact list \<Rightarrow>
     file_map \<times> (fragment_store_error + fragment_file)" where
  "write_fact_fragment L io fs directory sequence facts =
     (if sequence = 0 then (fs, Inl Fragment_invalid_sequence)
      else
        (case encode_fact_batch L facts sequence of
           Inl e \<Rightarrow> (fs, Inl (if e = Batch_too_large then Fragment_document_too_large else Fragment_invalid_facts))
         | Inr payload \<Rightarrow>
             if max_fact_fragment_bytes - sealed_header_bytes < length payload
             then (fs, Inl Fragment_document_too_large)
             else
               (let document = fragment_document sequence (length facts) payload;
                    path = fragment_path directory sequence;
                    (fs', failure) =
                      publish_document Fragment_already_exists Fragment_io_error io fs path document
                in (fs', case failure of
                      Some e \<Rightarrow> Inl e
                    | None \<Rightarrow>
                        Inr \<lparr>sf_sequence = sequence, sf_facts = facts, ff_path = path,
                             ff_count = of_nat (length facts), ff_payload = identify_content payload,
                             ff_document = identify_content document\<rparr>))))"

definition open_fragment ::
    "toml_library \<Rightarrow> string \<Rightarrow> bytes \<Rightarrow> fragment_store_error + fragment_file" where
  "open_fragment L path document =
     (case header_fault Fragment_malformed_header Fragment_incompatible_version fragment_magic document of
        Some e \<Rightarrow> Inl e
      | None \<Rightarrow>
          (let sequence = get_u64 document 16; records = get_u32 document 24; size = get_u32 document 28;
               payload = drop sealed_header_bytes document
           in if sequence = 0 then Inl Fragment_invalid_sequence
              else if records = 0 \<or> max_fact_batch_records < unat records then Inl Fragment_count_mismatch
              else if unat size \<noteq> length document - sealed_header_bytes then Inl Fragment_length_mismatch
              else if take 32 (drop 32 document) \<noteq> ci_sha256 (identify_content payload)
              then Inl Fragment_hash_mismatch
              else
                (case decode_fact_batch L payload sequence of
                   Inl e \<Rightarrow> Inl (map_batch_error e)
                 | Inr facts \<Rightarrow>
                     if length facts \<noteq> unat records then Inl Fragment_count_mismatch
                     else Inr \<lparr>sf_sequence = sequence, sf_facts = facts, ff_path = path,
                               ff_count = records, ff_payload = identify_content payload,
                               ff_document = identify_content document\<rparr>)))"

definition read_fact_fragment ::
    "toml_library \<Rightarrow> file_reading \<Rightarrow> file_map \<Rightarrow> string \<Rightarrow> fragment_store_error + fragment_file" where
  "read_fact_fragment L io fs path =
     (case read_document Fragment_io_error Fragment_document_too_large Fragment_malformed_header
             max_fact_fragment_bytes io fs path of
        Inl e \<Rightarrow> Inl e
      | Inr document \<Rightarrow> open_fragment L path document)"

text \<open>A fragment is accepted exactly when it is the sealed document of the facts that are read from it.\<close>

lemma length_fragment_magic [simp]: "length fragment_magic = 8"
  by (simp add: fragment_magic_def)

definition fragment_of :: "string \<Rightarrow> u64 \<Rightarrow> qa_fact list \<Rightarrow> bytes \<Rightarrow> fragment_file" where
  "fragment_of path sequence facts payload =
     \<lparr>sf_sequence = sequence, sf_facts = facts, ff_path = path, ff_count = of_nat (length facts),
      ff_payload = identify_content payload,
      ff_document = identify_content (fragment_document sequence (length facts) payload)\<rparr>"

lemma open_fragment_document:
  assumes "length payload < 2 ^ 32" and "s \<noteq> 0" and "decode_fact_batch L payload s = Inr facts"
  shows "open_fragment L path (fragment_document s (length facts) payload) = Inr (fragment_of path s facts payload)"
proof -
  have facts: "facts \<noteq> []" "length facts \<le> max_fact_batch_records"
    using decoded_batch_sound [where L = L and message = payload and sequence = s] assms(3) by simp_all
  then have "unat (of_nat (length facts) :: u32) = length facts"
    by (intro unat_of_nat_small) (simp add: max_fact_batch_records_def)
  moreover from this facts(1) have "(of_nat (length facts) :: u32) \<noteq> 0" by auto
  ultimately show ?thesis
    using assms facts
    by (simp add: open_fragment_def fragment_document_def sealed_document_reads sealed_parts fragment_of_def Let_def
        sealed_header_bytes_def unat_of_nat_small)
qed

lemma opened_fragment_sealed:
  assumes "open_fragment L path document = Inr f" and "64 \<le> length document"
  shows "\<exists>payload. document = fragment_document (sf_sequence f) (length (sf_facts f)) payload \<and>
    sf_sequence f \<noteq> 0 \<and> decode_fact_batch L payload (sf_sequence f) = Inr (sf_facts f) \<and>
    f = fragment_of path (sf_sequence f) (sf_facts f) payload"
proof -
  let ?payload = "drop 64 document" and ?s = "get_u64 document 16"
  from assms obtain facts where
    none: "header_fault Fragment_malformed_header Fragment_incompatible_version fragment_magic document = None"
    and reads: "?s \<noteq> 0" "length facts = unat (get_u32 document 24)" "unat (get_u32 document 28) = length ?payload"
      "take 32 (drop 32 document) = ci_sha256 (identify_content ?payload)"
      "decode_fact_batch L ?payload ?s = Inr facts"
    and f: "f = \<lparr>sf_sequence = ?s, sf_facts = facts, ff_path = path, ff_count = get_u32 document 24,
        ff_payload = identify_content ?payload, ff_document = identify_content document\<rparr>"
    by (simp add: open_fragment_def Let_def sealed_header_bytes_def split: option.splits sum.splits if_splits)
  have counts: "(of_nat (length facts) :: u32) = get_u32 document 24" "(of_nat (length ?payload) :: u32) = get_u32 document 28"
    using arg_cong [OF reads(3) [symmetric], where f = "of_nat :: nat \<Rightarrow> u32"] by (simp_all add: reads(2))
  have "document = fragment_document ?s (length facts) ?payload"
    unfolding fragment_document_def counts by (rule opened_sealed [OF none assms(2) _ reads(4)]) simp
  with reads counts(1) show ?thesis
    unfolding f by (intro exI [of _ ?payload]) (simp add: fragment_of_def)
qed

lemma read_fragment_exact:
  "read_fact_fragment L reading fs path = Inr f \<longleftrightarrow>
     (\<exists>payload. fs path = Some (fragment_document (sf_sequence f) (length (sf_facts f)) payload) \<and>
        sf_sequence f \<noteq> 0 \<and> decode_fact_batch L payload (sf_sequence f) = Inr (sf_facts f) \<and>
        f = fragment_of path (sf_sequence f) (sf_facts f) payload)"
proof
  assume "read_fact_fragment L reading fs path = Inr f"
  then obtain document where d: "read_document Fragment_io_error Fragment_document_too_large
      Fragment_malformed_header max_fact_fragment_bytes reading fs path = Inr document"
      "open_fragment L path document = Inr f"
    by (auto simp: read_fact_fragment_def split: sum.splits)
  then show "\<exists>payload. fs path = Some (fragment_document (sf_sequence f) (length (sf_facts f)) payload) \<and>
      sf_sequence f \<noteq> 0 \<and> decode_fact_batch L payload (sf_sequence f) = Inr (sf_facts f) \<and>
      f = fragment_of path (sf_sequence f) (sf_facts f) payload"
    using opened_fragment_sealed [of L path document f] by (simp add: read_document_exact)
next
  assume "\<exists>payload. fs path = Some (fragment_document (sf_sequence f) (length (sf_facts f)) payload) \<and>
      sf_sequence f \<noteq> 0 \<and> decode_fact_batch L payload (sf_sequence f) = Inr (sf_facts f) \<and>
      f = fragment_of path (sf_sequence f) (sf_facts f) payload"
  then obtain payload where p: "fs path = Some (fragment_document (sf_sequence f) (length (sf_facts f)) payload)"
      "sf_sequence f \<noteq> 0" "decode_fact_batch L payload (sf_sequence f) = Inr (sf_facts f)"
      "f = fragment_of path (sf_sequence f) (sf_facts f) payload" by blast
  have small: "length payload \<le> 256 * 1024"
    using decoded_batch_sound [where L = L and message = payload and sequence = "sf_sequence f"] p(3) by simp
  then have "read_document Fragment_io_error Fragment_document_too_large Fragment_malformed_header
      max_fact_fragment_bytes reading fs path =
      Inr (fragment_document (sf_sequence f) (length (sf_facts f)) payload)"
    using p(1) by (simp add: read_document_exact max_fact_fragment_bytes_def sealed_header_bytes_def
        protocol_header_bytes_def max_protocol_payload_bytes_def fragment_document_def sealed_parts)
  moreover have "open_fragment L path (fragment_document (sf_sequence f) (length (sf_facts f)) payload) = Inr f"
    using open_fragment_document [of payload "sf_sequence f" L "sf_facts f" path] small p by simp
  ultimately show "read_fact_fragment L reading fs path = Inr f" by (simp add: read_fact_fragment_def)
qed

definition all_read_back :: "toml_library \<Rightarrow> qa_fact list \<Rightarrow> bool" where
  "all_read_back L facts \<longleftrightarrow> (\<forall>f \<in> set facts. ft_fields f = [] \<longrightarrow> library_reads_back L f)"

lemma fragment_written:
  assumes "write_fact_fragment L io fs directory sequence facts = (fs', Inr f)"
  shows "\<exists>payload. sequence \<noteq> 0 \<and> encode_fact_batch L facts sequence = Inr payload \<and>
    written_whole fs (fragment_path directory sequence) (fragment_document sequence (length facts) payload) fs' \<and>
    f = fragment_of (fragment_path directory sequence) sequence facts payload"
proof -
  from assms obtain payload where e: "sequence \<noteq> 0" "encode_fact_batch L facts sequence = Inr payload"
      "publish_document Fragment_already_exists Fragment_io_error io fs (fragment_path directory sequence)
        (fragment_document sequence (length facts) payload) = (fs', None)"
      "f = fragment_of (fragment_path directory sequence) sequence facts payload"
    by (auto simp: write_fact_fragment_def fragment_of_def Let_def split: if_splits sum.splits prod.splits option.splits)
  with publish_document [OF e(3)] show ?thesis by simp
qed

lemma fragment_refused:
  assumes "write_fact_fragment L io fs directory sequence facts = (fs', Inl e)"
  shows "\<exists>document. left_behind (xi_remove_fails io) fs (fragment_path directory sequence) document fs'"
proof (cases "sequence = 0 \<or> (\<forall>payload. encode_fact_batch L facts sequence = Inr payload \<longrightarrow>
    max_fact_fragment_bytes - sealed_header_bytes < length payload)")
  case True
  with assms show ?thesis
    by (auto simp: write_fact_fragment_def left_behind_def split: sum.splits if_splits)
next
  case False
  then obtain payload where "encode_fact_batch L facts sequence = Inr payload" by blast
  with assms False obtain e' where "publish_document Fragment_already_exists Fragment_io_error io fs
      (fragment_path directory sequence) (fragment_document sequence (length facts) payload) = (fs', Some e')"
    by (auto simp: write_fact_fragment_def Let_def split: prod.splits option.splits)
  from publish_document [OF this] show ?thesis by auto
qed

lemma written_fragment_reads:
  assumes "write_fact_fragment L io fs directory sequence facts = (fs', Inr f)" and "all_read_back L facts"
    and "fs2 (fragment_path directory sequence) = fs' (fragment_path directory sequence)"
  shows "read_fact_fragment L reading fs2 (fragment_path directory sequence) = Inr f"
proof -
  obtain payload where p: "sequence \<noteq> 0" "encode_fact_batch L facts sequence = Inr payload"
      "fs' (fragment_path directory sequence) = Some (fragment_document sequence (length facts) payload)"
      "f = fragment_of (fragment_path directory sequence) sequence facts payload"
    using fragment_written [OF assms(1)] by (auto simp: written_whole_def)
  have "decode_fact_batch L payload sequence = Inr facts"
    using decode_encoded_batch [OF p(2), of sequence] assms(2) by (simp add: all_read_back_def)
  with p assms(3) show ?thesis
    unfolding read_fragment_exact by (intro exI [of _ payload]) (simp add: fragment_of_def)
qed

section \<open>Blocks of PCM\<close>

definition block_magic :: bytes where
  "block_magic = map char_byte ''AYTPCM01''"

definition max_pcm_block_bytes :: nat where
  "max_pcm_block_bytes = sealed_header_bytes + protocol_header_bytes + unat max_protocol_payload_bytes"

record block_file = stored_block +
  bf_path :: string
  bf_message :: content_identity
  bf_document :: content_identity

definition block_path :: "string \<Rightarrow> u64 \<Rightarrow> string" where
  "block_path directory sequence = directory @ ''/audio/pcm-'' @ zero_padded sequence @ ''.aqp''"

fun map_message_error :: "chunk_error \<Rightarrow> pcm_store_error" where
  "map_message_error Chunk_sequence_mismatch = Pcm_sequence_mismatch"
| "map_message_error Chunk_hash_mismatch = Pcm_hash_mismatch"
| "map_message_error Chunk_pcm_length_mismatch = Pcm_pcm_length_mismatch"
| "map_message_error Chunk_message_too_large = Pcm_document_too_large"
| "map_message_error Chunk_metadata_too_large = Pcm_document_too_large"
| "map_message_error e = Pcm_invalid_content"

definition block_document :: "u64 \<Rightarrow> nat \<Rightarrow> bytes \<Rightarrow> bytes" where
  "block_document sequence pcm_size message =
     sealed block_magic sequence (of_nat (length message)) (of_nat pcm_size) message"

definition write_pcm_block ::
    "toml_library \<Rightarrow> store_io \<Rightarrow> file_map \<Rightarrow> string \<Rightarrow> u64 \<Rightarrow> audio_chunk \<Rightarrow>
     file_map \<times> (pcm_store_error + block_file)" where
  "write_pcm_block L io fs directory sequence c =
     (if sequence = 0 then (fs, Inl Pcm_invalid_sequence)
      else
        (case encode_pcm_message L c sequence of
           Inl e \<Rightarrow>
             (fs, Inl (if e = Chunk_message_too_large \<or> e = Chunk_metadata_too_large
                       then Pcm_document_too_large else Pcm_invalid_chunk))
         | Inr message \<Rightarrow>
             if max_pcm_block_bytes - sealed_header_bytes < length message \<or> 2 ^ 32 - 1 < length (ac_bytes c)
             then (fs, Inl Pcm_document_too_large)
             else
               (let document = block_document sequence (length (ac_bytes c)) message;
                    path = block_path directory sequence;
                    (fs', failure) = publish_document Pcm_already_exists Pcm_io_error io fs path document
                in (fs', case failure of
                      Some e \<Rightarrow> Inl e
                    | None \<Rightarrow>
                        Inr \<lparr>sb_sequence = sequence, sb_chunk = c, bf_path = path,
                             bf_message = identify_content message,
                             bf_document = identify_content document\<rparr>))))"

definition open_block :: "toml_library \<Rightarrow> string \<Rightarrow> bytes \<Rightarrow> pcm_store_error + block_file" where
  "open_block L path document =
     (case header_fault Pcm_malformed_header Pcm_incompatible_version block_magic document of
        Some e \<Rightarrow> Inl e
      | None \<Rightarrow>
          (let sequence = get_u64 document 16; message_size = get_u32 document 24;
               pcm_size = get_u32 document 28; message = drop sealed_header_bytes document
           in if sequence = 0 then Inl Pcm_invalid_sequence
              else if unat message_size \<noteq> length document - sealed_header_bytes then Inl Pcm_length_mismatch
              else if take 32 (drop 32 document) \<noteq> ci_sha256 (identify_content message)
              then Inl Pcm_hash_mismatch
              else
                (case decode_pcm_message L message sequence of
                   Inl e \<Rightarrow> Inl (map_message_error e)
                 | Inr c \<Rightarrow>
                     if length (ac_bytes c) \<noteq> unat pcm_size then Inl Pcm_pcm_length_mismatch
                     else Inr \<lparr>sb_sequence = sequence, sb_chunk = c, bf_path = path,
                               bf_message = identify_content message,
                               bf_document = identify_content document\<rparr>)))"

definition read_pcm_block ::
    "toml_library \<Rightarrow> file_reading \<Rightarrow> file_map \<Rightarrow> string \<Rightarrow> pcm_store_error + block_file" where
  "read_pcm_block L io fs path =
     (case read_document Pcm_io_error Pcm_document_too_large Pcm_malformed_header max_pcm_block_bytes io fs path of
        Inl e \<Rightarrow> Inl e
      | Inr document \<Rightarrow> open_block L path document)"

definition block_of :: "string \<Rightarrow> u64 \<Rightarrow> audio_chunk \<Rightarrow> bytes \<Rightarrow> block_file" where
  "block_of path sequence c message =
     \<lparr>sb_sequence = sequence, sb_chunk = c, bf_path = path, bf_message = identify_content message,
      bf_document = identify_content (block_document sequence (length (ac_bytes c)) message)\<rparr>"

lemma length_block_magic [simp]: "length block_magic = 8"
  by (simp add: block_magic_def)

lemma chunk_within_message:
  assumes "decode_pcm_message L message s = Inr c"
  shows "length message \<le> 256 * 1024" and "length (ac_bytes c) \<le> 256 * 1024"
  using decoded_chunk_sound [where L = L and message = message and sequence = s] assms by auto

lemma open_block_document:
  assumes "s \<noteq> 0" and "decode_pcm_message L message s = Inr c"
  shows "open_block L path (block_document s (length (ac_bytes c)) message) = Inr (block_of path s c message)"
  using assms chunk_within_message [OF assms(2)]
  by (simp add: open_block_def block_document_def sealed_document_reads sealed_parts block_of_def Let_def
      sealed_header_bytes_def unat_of_nat_small)

lemma opened_block_sealed:
  assumes "open_block L path document = Inr b" and "64 \<le> length document"
  shows "\<exists>message. document = block_document (sb_sequence b) (length (ac_bytes (sb_chunk b))) message \<and>
    sb_sequence b \<noteq> 0 \<and> decode_pcm_message L message (sb_sequence b) = Inr (sb_chunk b) \<and>
    b = block_of path (sb_sequence b) (sb_chunk b) message"
proof -
  let ?message = "drop 64 document" and ?s = "get_u64 document 16"
  from assms obtain c where
    none: "header_fault Pcm_malformed_header Pcm_incompatible_version block_magic document = None"
    and reads: "?s \<noteq> 0" "unat (get_u32 document 24) = length ?message"
      "take 32 (drop 32 document) = ci_sha256 (identify_content ?message)"
      "decode_pcm_message L ?message ?s = Inr c" "length (ac_bytes c) = unat (get_u32 document 28)"
    and b: "b = \<lparr>sb_sequence = ?s, sb_chunk = c, bf_path = path, bf_message = identify_content ?message,
        bf_document = identify_content document\<rparr>"
    by (simp add: open_block_def Let_def sealed_header_bytes_def split: option.splits sum.splits if_splits)
  have counts: "(of_nat (length ?message) :: u32) = get_u32 document 24" "(of_nat (length (ac_bytes c)) :: u32) = get_u32 document 28"
    using arg_cong [OF reads(2) [symmetric], where f = "of_nat :: nat \<Rightarrow> u32"] by (simp_all add: reads(5))
  have "document = block_document ?s (length (ac_bytes c)) ?message"
    unfolding block_document_def counts by (rule opened_sealed [OF none assms(2) _ reads(3)]) simp
  with reads show ?thesis
    unfolding b by (intro exI [of _ ?message]) (simp add: block_of_def)
qed

lemma read_block_exact:
  "read_pcm_block L reading fs path = Inr b \<longleftrightarrow>
     (\<exists>message. fs path = Some (block_document (sb_sequence b) (length (ac_bytes (sb_chunk b))) message) \<and>
        sb_sequence b \<noteq> 0 \<and> decode_pcm_message L message (sb_sequence b) = Inr (sb_chunk b) \<and>
        b = block_of path (sb_sequence b) (sb_chunk b) message)"
  (is "_ \<longleftrightarrow> (\<exists>message. ?sealed message)")
proof
  assume "read_pcm_block L reading fs path = Inr b"
  then obtain document where "read_document Pcm_io_error Pcm_document_too_large
      Pcm_malformed_header max_pcm_block_bytes reading fs path = Inr document" "open_block L path document = Inr b"
    by (auto simp: read_pcm_block_def split: sum.splits)
  then show "\<exists>message. ?sealed message"
    using opened_block_sealed [of L path document b] by (simp add: read_document_exact)
next
  assume "\<exists>message. ?sealed message"
  then obtain message where m: "?sealed message" ..
  then have "read_document Pcm_io_error Pcm_document_too_large Pcm_malformed_header max_pcm_block_bytes reading fs path =
      Inr (block_document (sb_sequence b) (length (ac_bytes (sb_chunk b))) message)"
    using chunk_within_message [of L message "sb_sequence b" "sb_chunk b"]
    by (simp add: read_document_exact max_pcm_block_bytes_def sealed_header_bytes_def
        protocol_header_bytes_def max_protocol_payload_bytes_def block_document_def sealed_parts)
  then show "read_pcm_block L reading fs path = Inr b"
    using open_block_document [of "sb_sequence b" L message "sb_chunk b" path] m by (simp add: read_pcm_block_def)
qed

lemma block_written:
  assumes "write_pcm_block L io fs directory sequence c = (fs', Inr b)"
  shows "\<exists>message. sequence \<noteq> 0 \<and> encode_pcm_message L c sequence = Inr message \<and>
    written_whole fs (block_path directory sequence) (block_document sequence (length (ac_bytes c)) message) fs' \<and>
    b = block_of (block_path directory sequence) sequence c message"
proof -
  from assms obtain message where e: "sequence \<noteq> 0" "encode_pcm_message L c sequence = Inr message"
      "publish_document Pcm_already_exists Pcm_io_error io fs (block_path directory sequence)
        (block_document sequence (length (ac_bytes c)) message) = (fs', None)"
      "b = block_of (block_path directory sequence) sequence c message"
    by (auto simp: write_pcm_block_def block_of_def Let_def split: if_splits sum.splits prod.splits option.splits)
  with publish_document [OF e(3)] show ?thesis by simp
qed

lemma block_refused:
  assumes "write_pcm_block L io fs directory sequence c = (fs', Inl e)"
  shows "\<exists>document. left_behind (xi_remove_fails io) fs (block_path directory sequence) document fs'"
proof (cases "\<exists>message. sequence \<noteq> 0 \<and> encode_pcm_message L c sequence = Inr message \<and>
    \<not> (max_pcm_block_bytes - sealed_header_bytes < length message \<or> 2 ^ 32 - 1 < length (ac_bytes c))")
  case False
  with assms have "fs' = fs"
    by (cases "sequence = 0"; cases "encode_pcm_message L c sequence") (auto simp: write_pcm_block_def)
  then show ?thesis by (simp add: left_behind_def)
next
  case True
  then obtain message where m: "sequence \<noteq> 0" "encode_pcm_message L c sequence = Inr message"
      "\<not> (max_pcm_block_bytes - sealed_header_bytes < length message \<or> 2 ^ 32 - 1 < length (ac_bytes c))" by blast
  with assms obtain e' where "publish_document Pcm_already_exists Pcm_io_error io fs
      (block_path directory sequence) (block_document sequence (length (ac_bytes c)) message) = (fs', Some e')"
    by (auto simp: write_pcm_block_def Let_def split: prod.splits option.splits)
  from publish_document [OF this] show ?thesis by auto
qed

text \<open>A written block reads as the chunk that was given, without the reason of its known digest.\<close>

definition chunk_read_back :: "toml_library \<Rightarrow> audio_chunk \<Rightarrow> bool" where
  "chunk_read_back L c \<longleftrightarrow>
     reads_integers L \<and> tl_parse L (tl_print L (metadata_doc c)) = Some (metadata_doc c)"

lemma written_block_reads:
  assumes "write_pcm_block L io fs directory sequence c = (fs', Inr b)" and "chunk_read_back L c"
    and "fs2 (block_path directory sequence) = fs' (block_path directory sequence)"
  shows "read_pcm_block L reading fs2 (block_path directory sequence) = Inr (b\<lparr>sb_chunk := sent_chunk c\<rparr>)"
proof -
  obtain message where p: "sequence \<noteq> 0" "encode_pcm_message L c sequence = Inr message"
      "fs' (block_path directory sequence) = Some (block_document sequence (length (ac_bytes c)) message)"
      "b = block_of (block_path directory sequence) sequence c message"
    using block_written [OF assms(1)] by (auto simp: written_whole_def)
  have "decode_pcm_message L message sequence = Inr (sent_chunk c)"
    using decode_encoded_chunk [OF p(2), of sequence] assms(2) by (simp add: chunk_read_back_def)
  moreover have "ac_bytes (sent_chunk c) = ac_bytes c" by (simp add: sent_chunk_def)
  ultimately show ?thesis
    using p assms(3) unfolding read_block_exact by (intro exI [of _ message]) (simp add: block_of_def)
qed

text \<open>With a healthy file system a new fragment or block that can be encoded is stored.\<close>

definition healthy_store :: "store_io \<Rightarrow> bool" where
  "healthy_store io \<longleftrightarrow> healthy_io io \<and> ensure_directory (si_status io) (si_created io)"

lemma healthy_fragment:
  assumes "healthy_store io" and "all_read_back L facts" and "encode_fact_batch L facts sequence = Inr payload"
    and "fs (fragment_path directory sequence) = None"
  shows "write_fact_fragment L io fs directory sequence facts =
    (fs(fragment_path directory sequence \<mapsto> fragment_document sequence (length facts) payload),
     Inr (fragment_of (fragment_path directory sequence) sequence facts payload))"
proof -
  have "sequence \<noteq> 0" using assms(3) by (auto simp: encode_fact_batch_def split: if_splits)
  moreover have "length payload \<le> 256 * 1024"
    using decode_encoded_batch [OF assms(3), of sequence] assms(2) by (simp add: all_read_back_def)
  ultimately show ?thesis
    using assms by (simp add: write_fact_fragment_def healthy_store_def healthy_publish fragment_of_def Let_def
        max_fact_fragment_bytes_def sealed_header_bytes_def protocol_header_bytes_def max_protocol_payload_bytes_def)
qed

lemma healthy_block:
  assumes "healthy_store io" and "chunk_read_back L c" and "encode_pcm_message L c sequence = Inr message"
    and "fs (block_path directory sequence) = None"
  shows "write_pcm_block L io fs directory sequence c =
    (fs(block_path directory sequence \<mapsto> block_document sequence (length (ac_bytes c)) message),
     Inr (block_of (block_path directory sequence) sequence c message))"
proof -
  have "sequence \<noteq> 0" using assms(3) by (auto simp: encode_pcm_message_def split: if_splits)
  moreover have decoded: "decode_pcm_message L message sequence = Inr (sent_chunk c)" "length message \<le> 256 * 1024"
    using decode_encoded_chunk [OF assms(3), of sequence] assms(2) by (simp_all add: chunk_read_back_def)
  moreover have "length (ac_bytes c) \<le> 256 * 1024"
    using chunk_within_message(2) [OF decoded(1)] by (simp add: sent_chunk_def)
  ultimately show ?thesis
    using assms by (simp add: write_pcm_block_def healthy_store_def healthy_publish block_of_def Let_def
        max_pcm_block_bytes_def sealed_header_bytes_def protocol_header_bytes_def max_protocol_payload_bytes_def)
qed

section \<open>What the stores promise\<close>

text \<open>
  C15: A fragment of facts is written once and read as written. A write that succeeds took a free
  name, left every other file alone, and from then on, whatever other files come, reading the name
  gives the sequence, the facts and the digests that were returned. A write that fails changes nothing,
  unless its own truncated file cannot be removed, under a name that was free: what was there before
  is never lost.
\<close>

theorem fragment_store_roundtrip:
  assumes "all_read_back L facts"
  shows "case write_fact_fragment L io fs directory sequence facts of
      (fs', Inr f) \<Rightarrow>
        fs (fragment_path directory sequence) = None \<and> fs \<subseteq>\<^sub>m fs' \<and>
        dom fs' = insert (fragment_path directory sequence) (dom fs) \<and>
        sf_sequence f = sequence \<and> sf_facts f = facts \<and>
        (\<forall>fs2. fs' \<subseteq>\<^sub>m fs2 \<longrightarrow> read_fact_fragment L reading fs2 (fragment_path directory sequence) = Inr f)
    | (fs', Inl e) \<Rightarrow>
        fs \<subseteq>\<^sub>m fs' \<and> (fs' \<noteq> fs \<longrightarrow> xi_remove_fails io \<and> dom fs' = insert (fragment_path directory sequence) (dom fs))"
proof (cases "write_fact_fragment L io fs directory sequence facts")
  case (Pair fs' r)
  show ?thesis
  proof (cases r)
    case (Inl e)
    with fragment_refused [of L io fs directory sequence facts fs' e] Pair show ?thesis
      by (auto simp: left_behind_def map_le_def)
  next
    case (Inr f)
    note w = Pair [unfolded Inr]
    obtain payload where p: "fs (fragment_path directory sequence) = None"
        "fs' = fs(fragment_path directory sequence \<mapsto> fragment_document sequence (length facts) payload)"
        "f = fragment_of (fragment_path directory sequence) sequence facts payload"
      using fragment_written [OF w] by (auto simp: written_whole_def)
    have "read_fact_fragment L reading fs2 (fragment_path directory sequence) = Inr f" if "fs' \<subseteq>\<^sub>m fs2" for fs2
      using that p(2) by (intro written_fragment_reads [OF w assms]) (auto simp: map_le_def)
    with p Pair Inr show ?thesis by (auto simp: map_le_def fragment_of_def)
  qed
qed

definition working_io :: store_io where
  "working_io =
     \<lparr>xi_open_fails = False, xi_count = (\<lambda>_. 4096), xi_close_fails = False, xi_remove_fails = False,
      si_status = Entry_missing, si_created = True\<rparr>"

lemma working_io_healthy: "healthy_store working_io"
  by (simp add: healthy_store_def healthy_io_def working_io_def ensure_directory_def)

theorem fragment_store_roundtrip_witness:
  "\<exists>L fs f. read_fact_fragment L reading fs (fragment_path ''run'' 5) = Inr f \<and> sf_facts f = example_batch"
proof -
  let ?L = "example_library (example_fact [] 1)"
  have lib: "all_read_back ?L example_batch"
    using example_batch_reads_back by (simp add: all_read_back_def)
  obtain payload where "encode_fact_batch ?L example_batch 5 = Inr payload" using example_batch_encodes by blast
  from healthy_fragment [OF working_io_healthy lib this, where fs = Map.empty and directory = "''run''"]
  obtain fs' f where w: "write_fact_fragment ?L working_io Map.empty ''run'' 5 example_batch = (fs', Inr f)" by simp
  from fragment_store_roundtrip [OF lib, where io = working_io and fs = Map.empty and directory = "''run''"
      and sequence = 5]
  have "read_fact_fragment ?L reading fs' (fragment_path ''run'' 5) = Inr f \<and> sf_facts f = example_batch"
    unfolding w by simp
  then show ?thesis by blast
qed

text \<open>
  A block of PCM is written once, and its samples are read as written. A write that succeeds took a
  free name and left every other file alone; from then on reading the name gives the chunk, but for
  the reason of its digest, and the same digests. A write that fails loses nothing.
\<close>

theorem pcm_store_roundtrip:
  assumes "chunk_read_back L c"
  shows "case write_pcm_block L io fs directory sequence c of
      (fs', Inr b) \<Rightarrow>
        fs (block_path directory sequence) = None \<and> fs \<subseteq>\<^sub>m fs' \<and>
        dom fs' = insert (block_path directory sequence) (dom fs) \<and>
        sb_sequence b = sequence \<and> sb_chunk b = c \<and>
        (\<forall>fs2. fs' \<subseteq>\<^sub>m fs2 \<longrightarrow>
           read_pcm_block L reading fs2 (block_path directory sequence) = Inr (b\<lparr>sb_chunk := sent_chunk c\<rparr>))
    | (fs', Inl e) \<Rightarrow>
        fs \<subseteq>\<^sub>m fs' \<and> (fs' \<noteq> fs \<longrightarrow> xi_remove_fails io \<and> dom fs' = insert (block_path directory sequence) (dom fs))"
proof (cases "write_pcm_block L io fs directory sequence c")
  case (Pair fs' r)
  show ?thesis
  proof (cases r)
    case (Inl e)
    with block_refused [of L io fs directory sequence c fs' e] Pair show ?thesis
      by (auto simp: left_behind_def map_le_def)
  next
    case (Inr b)
    note w = Pair [unfolded Inr]
    obtain message where p: "fs (block_path directory sequence) = None"
        "fs' = fs(block_path directory sequence \<mapsto> block_document sequence (length (ac_bytes c)) message)"
        "b = block_of (block_path directory sequence) sequence c message"
      using block_written [OF w] by (auto simp: written_whole_def)
    have "read_pcm_block L reading fs2 (block_path directory sequence) = Inr (b\<lparr>sb_chunk := sent_chunk c\<rparr>)"
      if "fs' \<subseteq>\<^sub>m fs2" for fs2
      using that p(2) by (intro written_block_reads [OF w assms]) (auto simp: map_le_def)
    with p Pair Inr show ?thesis by (auto simp: map_le_def block_of_def)
  qed
qed

theorem pcm_store_roundtrip_witness:
  "\<exists>L fs b. read_pcm_block L reading fs (block_path ''run'' 5) = Inr b \<and> sb_chunk b = sent_chunk example_chunk"
proof -
  let ?L = "chunk_library example_chunk"
  have lib: "chunk_read_back ?L example_chunk"
    using example_chunk_reads_back by (simp add: chunk_read_back_def)
  obtain message where "encode_pcm_message ?L example_chunk 5 = Inr message" using example_chunk_encodes by blast
  from healthy_block [OF working_io_healthy lib this, where fs = Map.empty and directory = "''run''"]
  obtain fs' b where w: "write_pcm_block ?L working_io Map.empty ''run'' 5 example_chunk = (fs', Inr b)" by simp
  from pcm_store_roundtrip [OF lib, where io = working_io and fs = Map.empty and directory = "''run''"
      and sequence = 5]
  have "read_pcm_block ?L reading fs' (block_path ''run'' 5) = Inr (b\<lparr>sb_chunk := sent_chunk example_chunk\<rparr>)"
    unfolding w by simp
  moreover have "sb_chunk (b\<lparr>sb_chunk := sent_chunk example_chunk\<rparr>) = sent_chunk example_chunk" by simp
  ultimately show ?thesis by blast
qed

text \<open>
  A file with one byte changed, cut or extended is refused: whatever is read under a name is, byte for byte,
  the sealed document of what is returned, whose digest is the one of its payload.
\<close>

theorem fragment_read_exact:
  "read_fact_fragment L reading fs path = Inr f \<longleftrightarrow>
     (\<exists>payload. fs path = Some (fragment_document (sf_sequence f) (length (sf_facts f)) payload) \<and>
        sf_sequence f \<noteq> 0 \<and> decode_fact_batch L payload (sf_sequence f) = Inr (sf_facts f) \<and>
        f = fragment_of path (sf_sequence f) (sf_facts f) payload)"
  by (rule read_fragment_exact)

end
