(* ===== verification/Inspection_Facts.thy ===== *)
theory Inspection_Facts
  imports Evidence_Stores "HOL-Library.Multiset" "HOL-Library.List_Lexorder" "HOL-Library.Char_ord"
begin

text \<open>
  The facts of an inspection: the Runtime builds them
  (\<^verbatim>\<open>tools/audio_qa/inspection_fact_builder.{h,cpp}\<close>) and the supervisor reads them back, one by one
  (\<^verbatim>\<open>read_inspection_event\<close> of \<^verbatim>\<open>runtime_protocol_v11.cpp\<close>) or all those of a run
  (\<^verbatim>\<open>inspection_facts.{h,cpp}\<close>).
\<close>

section \<open>Records\<close>

record inspection_event =
  ie_seq :: u64
  ie_control :: string
  ie_before :: u64
  ie_after :: u64
  ie_visit :: u64
  ie_elapsed :: u64

record render_visit =
  rv_frame :: u64
  rv_visit :: u64
  rv_reason :: string
  rv_occurrences :: u64
  rv_processing :: "u64 option"
  rv_fps :: "u64 option"

record fact_exclusion =
  ex_recovery :: u64
  ex_producer :: string
  ex_from :: u64
  ex_to :: u64
  ex_cause :: string

record timeline_compiled =
  tc_fps :: u64
  tc_frames :: u64
  tc_steps :: u64
  tc_start :: string
  tc_state :: string
  tc_sidecar :: string
  tc_seeded :: bool

definition inspection_producer :: string where "inspection_producer = ''inspection''"
definition silent_recovery_cause :: string where "silent_recovery_cause = ''silent_recovery''"

section \<open>Building facts\<close>

definition empty_fact :: "fact_id \<Rightarrow> string \<Rightarrow> qa_fact" where
  "empty_fact i kind =
     \<lparr>ft_id = i, ft_kind = kind, ft_frame_index = unset_field, ft_causes = [], ft_decision = unset_field,
      ft_assignment = unset_field, ft_occurrence = unset_field, ft_reason = unset_field,
      ft_order = unset_field, ft_fields = []\<rparr>"

definition known_entry :: "string \<Rightarrow> field_content \<Rightarrow> field_unit \<Rightarrow> fact_field" where
  "known_entry name content unit =
     \<lparr>ff_name = name, ff_availability = Known, ff_unit = unit, ff_value = content, ff_reason = []\<rparr>"

definition inspection_id :: "string \<Rightarrow> u64 \<Rightarrow> fact_id" where
  "inspection_id run sequence = \<lparr>id_run = run, id_producer = inspection_producer, id_sequence = sequence\<rparr>"

definition make_inspection_event_fact :: "string \<Rightarrow> u64 \<Rightarrow> inspection_event \<Rightarrow> qa_fact" where
  "make_inspection_event_fact run sequence e =
     (empty_fact (inspection_id run sequence) ''inspection_event'')
       \<lparr>ft_frame_index := known_field (ie_after e),
        ft_fields :=
          [known_entry ''seq'' (Content_unsigned (ie_seq e)) Unit_count,
           known_entry ''control'' (Content_text (ie_control e)) Unit_none,
           known_entry ''frame_before'' (Content_unsigned (ie_before e)) Unit_emulation_frame,
           known_entry ''frame_after'' (Content_unsigned (ie_after e)) Unit_emulation_frame,
           known_entry ''visit'' (Content_unsigned (ie_visit e)) Unit_count,
           known_entry ''elapsed_ms'' (Content_unsigned (ie_elapsed e)) Unit_none]\<rparr>"

definition measure_entry :: "string \<Rightarrow> u64 option \<Rightarrow> fact_field" where
  "measure_entry name m =
     (case m of
        Some bits \<Rightarrow> known_entry name (Content_double bits) Unit_none
      | None \<Rightarrow>
          \<lparr>ff_name = name, ff_availability = Not_applicable, ff_unit = Unit_none, ff_value = Content_none,
           ff_reason = ''not_measured''\<rparr>)"

definition make_render_frame_fact :: "string \<Rightarrow> u64 \<Rightarrow> render_visit \<Rightarrow> qa_fact" where
  "make_render_frame_fact run sequence r =
     (empty_fact (inspection_id run sequence) ''render_frame'')
       \<lparr>ft_frame_index := known_field (rv_frame r),
        ft_fields :=
          [known_entry ''frame'' (Content_unsigned (rv_frame r)) Unit_emulation_frame,
           known_entry ''visit'' (Content_unsigned (rv_visit r)) Unit_count,
           (if rv_reason r = [] then known_entry ''composable'' (Content_bool True) Unit_none
            else known_entry ''composable'' (Content_text (rv_reason r)) Unit_none),
           known_entry ''occurrences'' (Content_unsigned (rv_occurrences r)) Unit_count,
           measure_entry ''processing_ms'' (rv_processing r),
           measure_entry ''fps_instant'' (rv_fps r)]\<rparr>"

definition make_fact_exclusion_fact :: "string \<Rightarrow> u64 \<Rightarrow> fact_exclusion \<Rightarrow> qa_fact" where
  "make_fact_exclusion_fact run sequence x =
     (empty_fact (inspection_id run sequence) ''fact_exclusion'')
       \<lparr>ft_fields :=
          [known_entry ''recovery'' (Content_unsigned (ex_recovery x)) Unit_count,
           known_entry ''producer'' (Content_text (ex_producer x)) Unit_none,
           known_entry ''sequence_from'' (Content_unsigned (ex_from x)) Unit_count,
           known_entry ''sequence_to'' (Content_unsigned (ex_to x)) Unit_count,
           known_entry ''cause'' (Content_text (ex_cause x)) Unit_none]\<rparr>"

definition make_timeline_compiled_fact :: "string \<Rightarrow> u64 \<Rightarrow> timeline_compiled \<Rightarrow> qa_fact" where
  "make_timeline_compiled_fact run sequence t =
     (empty_fact (inspection_id run sequence) ''timeline_compiled'')
       \<lparr>ft_frame_index := known_field 0,
        ft_fields :=
          [known_entry ''fps'' (Content_double (tc_fps t)) Unit_none,
           known_entry ''frames'' (Content_unsigned (tc_frames t)) Unit_emulation_frame,
           known_entry ''steps'' (Content_unsigned (tc_steps t)) Unit_count,
           known_entry ''start'' (Content_text (tc_start t)) Unit_none,
           (if tc_state t = []
            then \<lparr>ff_name = ''state_id'', ff_availability = Not_applicable, ff_unit = Unit_none,
                  ff_value = Content_none, ff_reason = ''power_on''\<rparr>
            else known_entry ''state_id'' (Content_text (tc_state t)) Unit_none),
           known_entry ''fm_sidecar'' (Content_text (tc_sidecar t)) Unit_none,
           known_entry ''fm_seeded'' (Content_bool (tc_seeded t)) Unit_none]\<rparr>"

section \<open>Reading facts\<close>

definition entry_named :: "qa_fact \<Rightarrow> string \<Rightarrow> fact_field option" where
  "entry_named f name = List.find (\<lambda>e. ff_name e = name) (ft_fields f)"

definition known_content :: "qa_fact \<Rightarrow> string \<Rightarrow> field_content option" where
  "known_content f name =
     (case entry_named f name of
        None \<Rightarrow> None
      | Some e \<Rightarrow> if ff_availability e = Known then Some (ff_value e) else None)"

definition known_unsigned :: "qa_fact \<Rightarrow> string \<Rightarrow> u64 option" where
  "known_unsigned f name = (case known_content f name of Some (Content_unsigned n) \<Rightarrow> Some n | _ \<Rightarrow> None)"

definition known_text :: "qa_fact \<Rightarrow> string \<Rightarrow> string option" where
  "known_text f name = (case known_content f name of Some (Content_text s) \<Rightarrow> Some s | _ \<Rightarrow> None)"

definition known_double :: "qa_fact \<Rightarrow> string \<Rightarrow> u64 option" where
  "known_double f name = (case known_content f name of Some (Content_double d) \<Rightarrow> Some d | _ \<Rightarrow> None)"

definition known_bool :: "qa_fact \<Rightarrow> string \<Rightarrow> bool option" where
  "known_bool f name = (case known_content f name of Some (Content_bool b) \<Rightarrow> Some b | _ \<Rightarrow> None)"

definition read_timeline_compiled :: "qa_fact \<Rightarrow> timeline_compiled option" where
  "read_timeline_compiled f =
     (if ft_kind f \<noteq> ''timeline_compiled'' \<or> id_producer (ft_id f) \<noteq> inspection_producer then None
      else
        (case (known_double f ''fps'', known_unsigned f ''frames'', known_unsigned f ''steps'',
               known_text f ''start'', known_text f ''fm_sidecar'', known_bool f ''fm_seeded'') of
           (Some fps, Some frame_count, Some steps, Some start, Some sidecar, Some seeded) \<Rightarrow>
             if frame_count = 0 \<or> start \<noteq> ''power_on'' \<and> start \<noteq> ''state'' \<or>
                (start = ''state'') \<noteq> (known_text f ''state_id'' \<noteq> None)
             then None
             else
               Some \<lparr>tc_fps = fps, tc_frames = frame_count, tc_steps = steps, tc_start = start,
                     tc_state = (case known_text f ''state_id'' of None \<Rightarrow> [] | Some s \<Rightarrow> s),
                     tc_sidecar = sidecar, tc_seeded = seeded\<rparr>
         | _ \<Rightarrow> None))"

definition engine_prefix :: string where "engine_prefix = ''engine-''"

definition read_fact_exclusion :: "qa_fact \<Rightarrow> fact_exclusion option" where
  "read_fact_exclusion f =
     (if ft_kind f \<noteq> ''fact_exclusion'' \<or> id_producer (ft_id f) \<noteq> inspection_producer then None
      else
        (case (known_unsigned f ''recovery'', known_text f ''producer'', known_unsigned f ''sequence_from'',
               known_unsigned f ''sequence_to'', known_text f ''cause'') of
           (Some recovery, Some producer, Some first, Some to, Some why) \<Rightarrow>
             if recovery = 0 \<or> take (length engine_prefix) producer \<noteq> engine_prefix \<or> first = 0 \<or>
                to < first \<or> why \<noteq> silent_recovery_cause
             then None
             else Some \<lparr>ex_recovery = recovery, ex_producer = producer, ex_from = first, ex_to = to,
                        ex_cause = why\<rparr>
         | _ \<Rightarrow> None))"

definition inspection_controls :: "string list" where
  "inspection_controls =
     [''pause'', ''resume'', ''step_forward'', ''step_back'', ''recover_failed'', ''overlay_toggle'',
      ''interrupted'', ''recovered'', ''advance_take'']"

text \<open>The text of an event is the first known text of its name, wherever the first entry of that name is.\<close>

definition first_text :: "qa_fact \<Rightarrow> string \<Rightarrow> string option" where
  "first_text f name =
     (case List.find (\<lambda>e. ff_name e = name \<and> ff_availability e = Known \<and> (\<exists>s. ff_value e = Content_text s))
             (ft_fields f) of
        None \<Rightarrow> None
      | Some e \<Rightarrow> (case ff_value e of Content_text s \<Rightarrow> Some s | _ \<Rightarrow> None))"

definition read_inspection_event :: "qa_fact \<Rightarrow> inspection_event option" where
  "read_inspection_event f =
     (if ft_kind f \<noteq> ''inspection_event'' then None
      else
        (case (known_unsigned f ''seq'', first_text f ''control'', known_unsigned f ''frame_before'',
               known_unsigned f ''frame_after'', known_unsigned f ''visit'', known_unsigned f ''elapsed_ms'') of
           (Some seq, Some control, Some before, Some after, Some visit, Some elapsed) \<Rightarrow>
             if seq = 0 \<or> control \<notin> set inspection_controls then None
             else Some \<lparr>ie_seq = seq, ie_control = control, ie_before = before, ie_after = after,
                        ie_visit = visit, ie_elapsed = elapsed\<rparr>
         | _ \<Rightarrow> None))"

record render_frame_fact =
  rf_frame :: u64
  rf_visit :: u64
  rf_composable :: bool
  rf_reason :: string
  rf_occurrences :: u64
  rf_processing :: "u64 option"
  rf_fps :: "u64 option"

record render_summary_fact =
  rs_frame :: u64
  rs_occurrences :: u64
  rs_replaced :: u64
  rs_unassigned :: u64
  rs_not_applied :: u64
  rs_not_ready :: u64

text \<open>A measure is read when it is known; an absent or unknown one is none; one of another type is an error.\<close>

definition read_measure :: "qa_fact \<Rightarrow> string \<Rightarrow> u64 option option" where
  "read_measure f name =
     (case entry_named f name of
        None \<Rightarrow> Some None
      | Some e \<Rightarrow>
          if ff_availability e \<noteq> Known then Some None
          else (case ff_value e of Content_double d \<Rightarrow> Some (Some d) | _ \<Rightarrow> None))"

text \<open>Whether the frame was composable, or the reason why it was not.\<close>

definition read_composable :: "qa_fact \<Rightarrow> (bool \<times> string) option" where
  "read_composable f =
     (case known_content f ''composable'' of
        Some (Content_bool flag) \<Rightarrow> if flag then Some (True, []) else None
      | Some (Content_text reason) \<Rightarrow> if reason = [] then None else Some (False, reason)
      | _ \<Rightarrow> None)"

definition read_render_frame :: "qa_fact \<Rightarrow> render_frame_fact option" where
  "read_render_frame f =
     (if ft_kind f \<noteq> ''render_frame'' then None
      else
        (case (known_unsigned f ''frame'', known_unsigned f ''visit'', known_unsigned f ''occurrences'') of
           (Some frame, Some visit, Some occurrences) \<Rightarrow>
             (case read_composable f of
                None \<Rightarrow> None
              | Some (composable, reason) \<Rightarrow>
                  (case (read_measure f ''processing_ms'', read_measure f ''fps_instant'') of
                     (Some processing, Some fps) \<Rightarrow>
                       Some \<lparr>rf_frame = frame, rf_visit = visit, rf_composable = composable, rf_reason = reason,
                             rf_occurrences = occurrences, rf_processing = processing, rf_fps = fps\<rparr>
                   | _ \<Rightarrow> None))
         | _ \<Rightarrow> None))"

definition read_render_summary :: "qa_fact \<Rightarrow> render_summary_fact option" where
  "read_render_summary f =
     (if ft_kind f \<noteq> ''render_summary'' then None
      else
        (case (known_unsigned f ''frame'', known_unsigned f ''occurrences'', known_unsigned f ''replaced'',
               known_unsigned f ''original_unassigned'', known_unsigned f ''assigned_not_applied'',
               known_unsigned f ''texture_not_ready'') of
           (Some frame, Some occurrences, Some replaced, Some unassigned, Some not_applied, Some not_ready) \<Rightarrow>
             if occurrences < replaced + unassigned + not_applied \<or> not_applied < not_ready then None
             else Some \<lparr>rs_frame = frame, rs_occurrences = occurrences, rs_replaced = replaced,
                        rs_unassigned = unassigned, rs_not_applied = not_applied, rs_not_ready = not_ready\<rparr>
         | _ \<Rightarrow> None))"

section \<open>The facts of a run\<close>

record run_inspection =
  ri_events :: "inspection_event list"
  ri_frames :: "render_frame_fact list"
  ri_summaries :: "render_summary_fact list"

datatype inspection_error = Unreadable_fragment | Invalid_inspection_fact

definition collect_fact :: "run_inspection \<Rightarrow> qa_fact \<Rightarrow> inspection_error + run_inspection" where
  "collect_fact r f =
     (if ft_kind f = ''inspection_event'' then
        (case read_inspection_event f of
           None \<Rightarrow> Inl Invalid_inspection_fact
         | Some e \<Rightarrow> Inr (r\<lparr>ri_events := ri_events r @ [e]\<rparr>))
      else if ft_kind f = ''render_frame'' then
        (case read_render_frame f of
           None \<Rightarrow> Inl Invalid_inspection_fact
         | Some e \<Rightarrow> Inr (r\<lparr>ri_frames := ri_frames r @ [e]\<rparr>))
      else if ft_kind f = ''render_summary'' then
        (case read_render_summary f of
           None \<Rightarrow> Inl Invalid_inspection_fact
         | Some e \<Rightarrow> Inr (r\<lparr>ri_summaries := ri_summaries r @ [e]\<rparr>))
      else Inr r)"

fun collect_facts :: "run_inspection \<Rightarrow> qa_fact list \<Rightarrow> inspection_error + run_inspection" where
  "collect_facts r [] = Inr r"
| "collect_facts r (f # fs) = (case collect_fact r f of Inl e \<Rightarrow> Inl e | Inr r' \<Rightarrow> collect_facts r' fs)"

fun collect_fragments ::
    "(string \<Rightarrow> fragment_store_error + fragment_file) \<Rightarrow> run_inspection \<Rightarrow> string list \<Rightarrow>
     inspection_error + run_inspection" where
  "collect_fragments read r [] = Inr r"
| "collect_fragments read r (path # paths) =
     (case read path of
        Inl _ \<Rightarrow> Inl Unreadable_fragment
      | Inr fragment \<Rightarrow>
          (case collect_facts r (sf_facts fragment) of
             Inl e \<Rightarrow> Inl e
           | Inr r' \<Rightarrow> collect_fragments read r' paths))"

definition no_inspection :: run_inspection where
  "no_inspection = \<lparr>ri_events = [], ri_frames = [], ri_summaries = []\<rparr>"

text \<open>A file name whose extension is \<open>.aqf\<close>.\<close>

definition is_fragment_name :: "string \<Rightarrow> bool" where
  "is_fragment_name name \<longleftrightarrow> 4 < length name \<and> drop (length name - 4) name = ''.aqf''"

text \<open>
  The directory gives its names in any order, or an error; the fragments are read in the order of
  their names.
\<close>

definition read_run_inspection_facts ::
    "(string \<Rightarrow> fragment_store_error + fragment_file) \<Rightarrow> string \<Rightarrow> string list option \<Rightarrow>
     inspection_error + run_inspection" where
  "read_run_inspection_facts read directory entries =
     (case entries of
        None \<Rightarrow> Inl Unreadable_fragment
      | Some names \<Rightarrow>
          collect_fragments read no_inspection
            (map (\<lambda>name. directory @ ''/fragments/'' @ name) (sort (filter is_fragment_name names))))"

section \<open>Facts are read as they were built\<close>

lemma entry_named_simps [simp]:
  "ff_name (known_entry name content unit) = name" "ff_availability (known_entry name content unit) = Known"
  "ff_value (known_entry name content unit) = content"
  by (simp_all add: known_entry_def)

lemmas reader_defs = known_unsigned_def known_text_def known_double_def known_bool_def known_content_def entry_named_def

lemma inspection_event_read:
  "read_inspection_event (make_inspection_event_fact run n e) =
     (if ie_seq e = 0 \<or> ie_control e \<notin> set inspection_controls then None else Some e)"
  by (simp add: read_inspection_event_def make_inspection_event_fact_def empty_fact_def reader_defs first_text_def)

lemma render_frame_read:
  "read_render_frame (make_render_frame_fact run n r) =
     Some \<lparr>rf_frame = rv_frame r, rf_visit = rv_visit r, rf_composable = (rv_reason r = []),
           rf_reason = rv_reason r, rf_occurrences = rv_occurrences r, rf_processing = rv_processing r,
           rf_fps = rv_fps r\<rparr>"
  by (cases "rv_processing r"; cases "rv_fps r"; cases "rv_reason r = []")
     (simp_all add: read_render_frame_def make_render_frame_fact_def empty_fact_def reader_defs
       read_composable_def read_measure_def measure_entry_def)

definition declared_exclusion :: "fact_exclusion \<Rightarrow> bool" where
  "declared_exclusion x \<longleftrightarrow>
     ex_recovery x \<noteq> 0 \<and> take (length engine_prefix) (ex_producer x) = engine_prefix \<and> ex_from x \<noteq> 0 \<and>
     ex_from x \<le> ex_to x \<and> ex_cause x = silent_recovery_cause"

lemma fact_exclusion_read:
  "read_fact_exclusion (make_fact_exclusion_fact run n x) = (if declared_exclusion x then Some x else None)"
  by (auto simp: read_fact_exclusion_def make_fact_exclusion_fact_def empty_fact_def reader_defs
      inspection_id_def declared_exclusion_def)

definition compiled_record :: "timeline_compiled \<Rightarrow> bool" where
  "compiled_record t \<longleftrightarrow>
     tc_frames t \<noteq> 0 \<and>
     (tc_start t = ''power_on'' \<and> tc_state t = [] \<or> tc_start t = ''state'' \<and> tc_state t \<noteq> [])"

lemma timeline_compiled_read:
  "read_timeline_compiled (make_timeline_compiled_fact run n t) = (if compiled_record t then Some t else None)"
  by (cases "tc_state t = []")
     (auto simp: read_timeline_compiled_def make_timeline_compiled_fact_def empty_fact_def reader_defs
       inspection_id_def compiled_record_def)

text \<open>
  An inspection is read as it was recorded. An event of a known control, the visit of a frame with
  its measures or the reason why it was not composable, the exclusion of a recovery and the record of
  a compiled timeline come out of their facts as they went in; what they may not hold is refused.
\<close>

theorem inspection_facts_roundtrip:
  "read_inspection_event (make_inspection_event_fact run n e) =
     (if ie_seq e \<noteq> 0 \<and> ie_control e \<in> set inspection_controls then Some e else None) \<and>
   read_render_frame (make_render_frame_fact run n r) =
     Some \<lparr>rf_frame = rv_frame r, rf_visit = rv_visit r, rf_composable = (rv_reason r = []),
           rf_reason = rv_reason r, rf_occurrences = rv_occurrences r, rf_processing = rv_processing r,
           rf_fps = rv_fps r\<rparr> \<and>
   read_fact_exclusion (make_fact_exclusion_fact run n x) = (if declared_exclusion x then Some x else None) \<and>
   read_timeline_compiled (make_timeline_compiled_fact run n t) = (if compiled_record t then Some t else None)"
  by (simp add: inspection_event_read render_frame_read fact_exclusion_read timeline_compiled_read)

text \<open>
  The sum of the states of the occurrences wraps: a summary in which the replaced occurrences are far
  more than all of them is accepted, although every occurrence has one state.
\<close>

definition wrapping_summary :: qa_fact where
  "wrapping_summary =
     (empty_fact (inspection_id ''run'' 1) ''render_summary'')
       \<lparr>ft_fields :=
          [known_entry ''frame'' (Content_unsigned 0) Unit_emulation_frame,
           known_entry ''occurrences'' (Content_unsigned 1) Unit_count,
           known_entry ''replaced'' (Content_unsigned 0xFFFFFFFFFFFFFFFF) Unit_count,
           known_entry ''original_unassigned'' (Content_unsigned 1) Unit_count,
           known_entry ''assigned_not_applied'' (Content_unsigned 0) Unit_count,
           known_entry ''texture_not_ready'' (Content_unsigned 0) Unit_count]\<rparr>"

theorem render_summary_sum_wraps:
  "case read_render_summary wrapping_summary of
     None \<Rightarrow> False
   | Some s \<Rightarrow> unat (rs_occurrences s) < unat (rs_replaced s) + unat (rs_unassigned s) + unat (rs_not_applied s)"
  by (simp add: read_render_summary_def wrapping_summary_def empty_fact_def reader_defs word_less_nat_alt)

section \<open>The order of the fragments\<close>

definition fragment_name :: "u64 \<Rightarrow> string" where
  "fragment_name sequence = ''facts-'' @ zero_padded sequence @ ''.aqf''"

lemma path_of_name: "directory @ ''/fragments/'' @ fragment_name s = fragment_path directory s"
  by (simp add: fragment_path_def fragment_name_def)

lemma fragment_name_is: "is_fragment_name (fragment_name s)"
  by (simp add: is_fragment_name_def fragment_name_def)

lemma digits_value_Cons: "digits_value (d # ds) = digit_value d * 10 ^ length ds + digits_value ds"
proof (induction ds rule: rev_induct)
  case (snoc x xs)
  show ?case
    using snoc digits_value_snoc [of "d # xs" x] digits_value_snoc [of xs x] by simp
qed simp

lemma digit_value_le: "is_digit d \<Longrightarrow> digit_value d \<le> 9"
  by (auto simp: is_digit_def digit_value_def)

lemma digits_value_less: "list_all is_digit ds \<Longrightarrow> digits_value ds < 10 ^ length ds"
proof (induction ds)
  case (Cons d ds)
  then have "digit_value d * 10 ^ length ds \<le> 9 * 10 ^ length ds"
    by (intro mult_le_mono1 digit_value_le) simp
  moreover have "digits_value ds < 10 ^ length ds" using Cons by simp
  ultimately have "digit_value d * 10 ^ length ds + digits_value ds < 9 * 10 ^ length ds + 10 ^ length ds"
    by (rule add_le_less_mono)
  then show ?case by (simp add: digits_value_Cons)
qed simp

lemma digit_order: "is_digit c \<Longrightarrow> is_digit d \<Longrightarrow> digit_value c < digit_value d \<Longrightarrow> c < d"
  by (auto simp: is_digit_def digit_value_def less_char_def)

lemma digit_equal: "is_digit c \<Longrightarrow> is_digit d \<Longrightarrow> digit_value c = digit_value d \<Longrightarrow> c = d"
  by (metis (no_types, lifting) digit_value_def eq_diff_iff is_digit_def of_char_eq_iff)

lemma digits_order:
  "length xs = length ys \<Longrightarrow> list_all is_digit xs \<Longrightarrow> list_all is_digit ys \<Longrightarrow>
     digits_value xs < digits_value ys \<Longrightarrow> xs < ys"
proof (induction xs ys rule: list_induct2)
  case (Cons x xs y ys)
  have small: "digits_value xs < 10 ^ length xs" "digits_value ys < 10 ^ length xs"
    using Cons digits_value_less [of xs] digits_value_less [of ys] by simp_all
  consider "digit_value x < digit_value y" | "digit_value x = digit_value y" | "digit_value y < digit_value x"
    by linarith
  then show ?case
  proof cases
    case 1
    then show ?thesis using Cons.prems digit_order by simp
  next
    case 2
    then have "x = y" using Cons.prems digit_equal by simp
    with Cons show ?thesis by (simp add: digits_value_Cons)
  next
    case 3
    then have "Suc (digit_value y) * 10 ^ length xs \<le> digit_value x * 10 ^ length xs" by (intro mult_le_mono1) simp
    then have "digits_value (y # ys) < digits_value (x # xs)"
      using small Cons.hyps by (simp add: digits_value_Cons)
    with Cons.prems show ?thesis by simp
  qed
qed simp

lemma zero_padded_digits: "list_all is_digit (zero_padded n)" "length (zero_padded n) = 20"
proof -
  show "list_all is_digit (zero_padded n)"
    by (auto simp: zero_padded_def list_all_iff unsigned_text_def is_digit_def [of "CHR ''0''"] dest: to_string_digits)
  have "unat n < 10 ^ 20" using unat_u64_bound [of n] by simp
  then have "length (unsigned_text n) \<le> 20" unfolding unsigned_text_def by (rule length_to_string) simp
  then show "length (zero_padded n) = 20" by (simp add: zero_padded_def)
qed

lemma append_less: "length xs = length ys \<Longrightarrow> xs < ys \<Longrightarrow> xs @ zs < ys @ (zs :: 'a::order list)"
  by (induction xs ys rule: list_induct2) auto

lemma fragment_name_order: "m < n \<Longrightarrow> fragment_name m < fragment_name n"
  unfolding fragment_name_def
  using digits_order [of "zero_padded m" "zero_padded n"] zero_padded_digits
  by (simp add: zero_padded_value word_less_nat_alt append_less)

lemma fragment_name_le_iff: "fragment_name m \<le> fragment_name n \<longleftrightarrow> m \<le> n"
  using fragment_name_order [of m n] fragment_name_order [of n m]
  by (metis linorder_not_less order.strict_iff_order nle_le)

lemma sorted_names: "sort (map fragment_name ss) = map fragment_name (sort ss)"
  by (rule properties_for_sort) (simp_all add: sorted_map fragment_name_le_iff)

text \<open>
  An inspection is read in the order in which it was recorded. However the directory lists its files,
  and whatever other files it holds, the facts of a run are collected fragment by fragment in the order
  of their sequences, because a name carries its sequence with twenty digits.
\<close>

lemma collect_facts_append:
  "collect_facts r (fs @ gs) = (case collect_facts r fs of Inl e \<Rightarrow> Inl e | Inr r' \<Rightarrow> collect_facts r' gs)"
  by (induction fs arbitrary: r) (auto split: sum.splits)

lemma collect_fragments_facts:
  assumes "\<And>s. s \<in> set ss \<Longrightarrow> \<exists>f. read (path s) = Inr f \<and> sf_facts f = facts s"
  shows "collect_fragments read r (map path ss) = collect_facts r (concat (map facts ss))"
  using assms
proof (induction ss arbitrary: r)
  case (Cons s ss)
  then obtain f where f: "read (path s) = Inr f" "sf_facts f = facts s" by force
  have "collect_fragments read r' (map path ss) = collect_facts r' (concat (map facts ss))" for r'
    using Cons by simp
  with f show ?case by (simp add: collect_facts_append split: sum.splits)
qed simp

text \<open>
  C33: The facts of the inspection come back in the order they were stored. However the directory lists
  its names, and whatever other files it holds, the events, frames and summaries of a run are those of
  its fragments in the order of their sequences.
\<close>

theorem inspection_read_in_order:
  assumes "\<forall>s \<in> set ss. \<exists>f. read_fact_fragment L reading fs (fragment_path directory s) = Inr f \<and> sf_facts f = facts s"
    and "mset names = mset (map fragment_name ss @ others)" and "\<forall>name \<in> set others. \<not> is_fragment_name name"
  shows "read_run_inspection_facts (read_fact_fragment L reading fs) directory (Some names) =
    collect_facts no_inspection (concat (map facts (sort ss)))"
proof -
  have "mset (filter is_fragment_name names) = mset (map fragment_name ss)"
  proof -
    have "mset (filter is_fragment_name names) = filter_mset is_fragment_name (mset names)" by simp
    also have "\<dots> = mset (filter is_fragment_name (map fragment_name ss @ others))"
      unfolding assms(2) by (simp only: mset_filter)
    also have "filter is_fragment_name (map fragment_name ss @ others) = map fragment_name ss"
      using assms(3) by (simp add: filter_map comp_def fragment_name_is filter_empty_conv)
    finally show ?thesis .
  qed
  then have "sort (filter is_fragment_name names) = map fragment_name (sort ss)"
    by (metis sorted_names properties_for_sort mset_sort sorted_sort)
  then have "read_run_inspection_facts (read_fact_fragment L reading fs) directory (Some names) =
      collect_fragments (read_fact_fragment L reading fs) no_inspection (map (fragment_path directory) (sort ss))"
    unfolding read_run_inspection_facts_def option.case by (simp only: map_map comp_def path_of_name)
  also have "\<dots> = collect_facts no_inspection (concat (map facts (sort ss)))"
    using assms(1) by (intro collect_fragments_facts) simp
  finally show ?thesis .
qed

theorem inspection_read_in_order_witness:
  "\<exists>L fs. read_run_inspection_facts (read_fact_fragment L reading fs) ''run''
      (Some [''pcm.tmp'', fragment_name 5]) = Inr no_inspection"
proof -
  let ?L = "example_library (example_fact [] 1)"
  have lib: "all_read_back ?L example_batch"
    using example_batch_reads_back by (simp add: all_read_back_def)
  obtain payload where enc: "encode_fact_batch ?L example_batch 5 = Inr payload" using example_batch_encodes by blast
  let ?fs = "[fragment_path ''run'' 5 \<mapsto> fragment_document 5 (length example_batch) payload]"
  have "read_fact_fragment ?L reading ?fs (fragment_path ''run'' 5) =
      Inr (fragment_of (fragment_path ''run'' 5) 5 example_batch payload)"
    using enc decode_encoded_batch [OF enc, of 5] lib
    unfolding read_fragment_exact
    by (intro exI [of _ payload]) (simp add: fragment_of_def all_read_back_def)
  then have "\<forall>s \<in> set [5]. \<exists>f. read_fact_fragment ?L reading ?fs (fragment_path ''run'' s) = Inr f \<and> sf_facts f = example_batch"
    by (simp add: fragment_of_def)
  moreover have "mset [''pcm.tmp'', fragment_name 5] = mset (map fragment_name [5] @ [''pcm.tmp''])" by simp
  moreover have "\<forall>name \<in> set [''pcm.tmp'']. \<not> is_fragment_name name" by (simp add: is_fragment_name_def)
  ultimately have "read_run_inspection_facts (read_fact_fragment ?L reading ?fs) ''run'' (Some [''pcm.tmp'', fragment_name 5]) =
      collect_facts no_inspection (concat (map (\<lambda>_. example_batch) (sort [5 :: u64])))"
    by (rule inspection_read_in_order)
  also have "\<dots> = Inr no_inspection"
    by (simp add: example_batch_def example_fact_def collect_fact_def)
  finally show ?thesis by blast
qed

end
