(* ===== verification/Fact_Trace.thy ===== *)
theory Fact_Trace
  imports Inspection_Facts "HOL-Library.AList"
begin

text \<open>
  The trace of the facts of a run: \<^verbatim>\<open>tools/audio_qa/fact_trace_summary.{h,cpp}\<close>. Facts come in any order;
  a fact waits until all its causes are known, then it is linked to the furthest stage among them, so
  that a playback effect and its mix can be followed back to the input that was detected. The three
  reserved values of a token are constructors of a slot; the index of a chain is a number. The order
  in which the table of waiting facts is walked is not specified by the language and is an argument.
\<close>

section \<open>Identities and kinds\<close>

record trace_id =
  ti_producer :: u32
  ti_sequence :: u64

datatype trace_kind =
  Kind_other | Kind_ingress | Kind_candidate | Kind_selection | Kind_request | Kind_decision | Kind_effect
  | Kind_mix | Kind_output_span

datatype trace_stage =
  Stage_none | Stage_ingress | Stage_candidate | Stage_selection | Stage_request | Stage_decision
  | Stage_effect | Stage_mix

fun stage_rank :: "trace_stage \<Rightarrow> nat" where
  "stage_rank Stage_none = 0"
| "stage_rank Stage_ingress = 1"
| "stage_rank Stage_candidate = 2"
| "stage_rank Stage_selection = 3"
| "stage_rank Stage_request = 4"
| "stage_rank Stage_decision = 5"
| "stage_rank Stage_effect = 6"
| "stage_rank Stage_mix = 7"

definition trace_kind_of :: "string \<Rightarrow> trace_kind" where
  "trace_kind_of kind =
     (if kind = ''detector_input'' \<or> kind = ''detector_input_batch'' then Kind_ingress
      else if kind = ''assignment_candidate'' then Kind_candidate
      else if kind = ''assignment_selection'' then Kind_selection
      else if kind = ''hd_playback_request'' then Kind_request
      else if kind = ''hd_playback_decision'' then Kind_decision
      else if kind = ''hd_playback_effect'' then Kind_effect
      else if kind = ''hd_mix_participant'' then Kind_mix
      else if kind = ''main_mix_output_span'' \<or> kind = ''auxiliary_output_span'' then Kind_output_span
      else Kind_other)"

definition producer_slots :: u32 where "producer_slots = 64"

definition producer_number :: "string \<Rightarrow> u32 option" where
  "producer_number s =
     (if take (length engine_prefix) s \<noteq> engine_prefix then None
      else
        (case parse_number (2 ^ 32) (drop (length engine_prefix) s) of
           None \<Rightarrow> None
         | Some n \<Rightarrow> if n = 0 \<or> unat producer_slots < n then None else Some (of_nat n)))"

definition occurrence_of :: "qa_fact \<Rightarrow> u64" where
  "occurrence_of f =
     (case fd_value (ft_occurrence f) of
        None \<Rightarrow> 0
      | Some s \<Rightarrow> (case parse_number (2 ^ 64) s of None \<Rightarrow> 0 | Some n \<Rightarrow> of_nat n))"

section \<open>The accumulator\<close>

record trace_summary =
  sm_observed :: u64
  sm_ingress :: trace_id
  sm_candidate :: trace_id
  sm_selection :: trace_id
  sm_request :: trace_id
  sm_decision :: trace_id
  sm_effect :: trace_id
  sm_mix :: trace_id
  sm_occurrence :: u64
  sm_connected :: bool
  sm_loss_free :: bool

record chain =
  cn_stage :: trace_stage
  cn_id :: trace_id
  cn_parent :: nat
  cn_request :: nat
  cn_occurrence :: u64

record pending_fact =
  pn_id :: trace_id
  pn_kind :: trace_kind
  pn_occurrence :: u64
  pn_causes :: "trace_id list"

datatype slot = Slot_missing | Slot_unresolved | Slot_excluded | Slot_chain nat

text \<open>\<open>at_slots p\<close> is the vector of producer \<open>p\<close>, its first element the slot of sequence 1.\<close>

record fact_trace =
  at_run :: string
  at_timeline :: "timeline_compiled option"
  at_slots :: "u32 \<Rightarrow> slot list"
  at_chains :: "chain list"
  at_unresolved :: "(trace_id \<times> pending_fact) list"
  at_waiting :: "(trace_id \<times> trace_id list) list"
  at_effects :: "nat \<rightharpoonup> nat"
  at_mixes :: "nat \<rightharpoonup> nat"
  at_complete :: trace_summary
  at_count :: u64
  at_valid :: bool

definition no_trace_id :: trace_id where
  "no_trace_id = \<lparr>ti_producer = 0, ti_sequence = 0\<rparr>"

definition empty_summary :: trace_summary where
  "empty_summary =
     \<lparr>sm_observed = 0, sm_ingress = no_trace_id, sm_candidate = no_trace_id, sm_selection = no_trace_id,
      sm_request = no_trace_id, sm_decision = no_trace_id, sm_effect = no_trace_id, sm_mix = no_trace_id,
      sm_occurrence = 0, sm_connected = False, sm_loss_free = False\<rparr>"

definition first_chain :: chain where
  "first_chain =
     \<lparr>cn_stage = Stage_none, cn_id = no_trace_id, cn_parent = 0, cn_request = 0, cn_occurrence = 0\<rparr>"

definition make_trace :: "string \<Rightarrow> fact_trace" where
  "make_trace run =
     \<lparr>at_run = run, at_timeline = None, at_slots = (\<lambda>_. []), at_chains = [first_chain], at_unresolved = [],
      at_waiting = [], at_effects = Map.empty, at_mixes = Map.empty, at_complete = empty_summary,
      at_count = 0, at_valid = (run \<noteq> [] \<and> length run \<le> max_identity_bytes)\<rparr>"

definition slot_at :: "fact_trace \<Rightarrow> trace_id \<Rightarrow> slot" where
  "slot_at t i =
     (let slots = at_slots t (ti_producer i)
      in if unat (ti_sequence i - 1) < length slots then slots ! unat (ti_sequence i - 1) else Slot_missing)"

definition token :: "fact_trace \<Rightarrow> trace_id \<Rightarrow> nat option" where
  "token t i =
     (if ti_producer i = 0 \<or> producer_slots < ti_producer i \<or> ti_sequence i = 0 then None
      else
        (case slot_at t i of
           Slot_missing \<Rightarrow> None
         | Slot_unresolved \<Rightarrow> None
         | Slot_excluded \<Rightarrow> Some 0
         | Slot_chain v \<Rightarrow> Some v))"

text \<open>A vector is grown with missing slots before one of them is set.\<close>

definition grow_slots :: "nat \<Rightarrow> slot list \<Rightarrow> slot list" where
  "grow_slots n slots = slots @ replicate (n - length slots) Slot_missing"

definition set_slot :: "trace_id \<Rightarrow> slot \<Rightarrow> fact_trace \<Rightarrow> fact_trace" where
  "set_slot i s t =
     t\<lparr>at_slots := (at_slots t)(ti_producer i :=
        (grow_slots (unat (ti_sequence i)) (at_slots t (ti_producer i)))[unat (ti_sequence i - 1) := s])\<rparr>"

section \<open>Chains\<close>

text \<open>
  The chains above a token, itself first. A parent is older than its child, so the number of chains is
  fuel enough (\<open>ancestry_step\<close>).
\<close>

fun chain_path :: "chain list \<Rightarrow> nat \<Rightarrow> nat \<Rightarrow> nat list" where
  "chain_path cs 0 v = []"
| "chain_path cs (Suc n) v =
     (if v = 0 \<or> length cs \<le> v then [] else v # chain_path cs n (cn_parent (cs ! v)))"

definition ancestry :: "chain list \<Rightarrow> nat \<Rightarrow> nat list" where
  "ancestry cs v = chain_path cs (length cs) v"

definition request_ancestor :: "chain list \<Rightarrow> nat \<Rightarrow> nat" where
  "request_ancestor cs v =
     (case List.find (\<lambda>w. cn_stage (cs ! w) = Stage_request) (ancestry cs v) of None \<Rightarrow> 0 | Some w \<Rightarrow> w)"

definition occurrence_matches :: "chain list \<Rightarrow> nat \<Rightarrow> u64 \<Rightarrow> bool" where
  "occurrence_matches cs v occurrence \<longleftrightarrow>
     (let request = request_ancestor cs v
      in request \<noteq> 0 \<and> occurrence \<noteq> 0 \<and> cn_occurrence (cs ! request) = occurrence)"

definition max_chains :: nat where "max_chains = 2 ^ 32 - 3"

definition add_chain ::
    "trace_stage \<Rightarrow> trace_id \<Rightarrow> nat \<Rightarrow> u64 \<Rightarrow> chain list \<Rightarrow> (chain list \<times> nat) option" where
  "add_chain stage i parent occurrence cs =
     (if max_chains \<le> length cs then None
      else
        (let index = length cs;
             request = (if stage = Stage_request then index else request_ancestor cs parent)
         in Some (cs @ [\<lparr>cn_stage = stage, cn_id = i, cn_parent = parent, cn_request = request,
                         cn_occurrence = occurrence\<rparr>], index)))"

definition all_causes_resolved :: "fact_trace \<Rightarrow> pending_fact \<Rightarrow> bool" where
  "all_causes_resolved t p \<longleftrightarrow> list_all (\<lambda>c. token t c \<noteq> None) (pn_causes p)"

definition best_cause :: "fact_trace \<Rightarrow> pending_fact \<Rightarrow> nat" where
  "best_cause t p =
     foldl (\<lambda>best c.
              (case token t c of
                 None \<Rightarrow> best
               | Some v \<Rightarrow>
                   if v \<noteq> 0 \<and> stage_rank (cn_stage (at_chains t ! best)) < stage_rank (cn_stage (at_chains t ! v))
                   then v else best))
       0 (pn_causes p)"

text \<open>
  The stage a fact adds, with the occurrence kept with it, given the stage of its best cause; a fact that
  adds none takes the token of that cause.
\<close>

definition stage_of_fact :: "chain list \<Rightarrow> nat \<Rightarrow> pending_fact \<Rightarrow> (trace_stage \<times> nat \<times> u64) option" where
  "stage_of_fact cs best p =
     (let rank = stage_rank (cn_stage (cs ! best)); n = pn_occurrence p
      in case pn_kind p of
           Kind_ingress \<Rightarrow> Some (Stage_ingress, 0, 0)
         | Kind_candidate \<Rightarrow>
             if stage_rank Stage_ingress \<le> rank then Some (Stage_candidate, best, 0) else None
         | Kind_selection \<Rightarrow>
             if stage_rank Stage_candidate \<le> rank then Some (Stage_selection, best, 0) else None
         | Kind_request \<Rightarrow>
             if stage_rank Stage_selection \<le> rank \<and> n \<noteq> 0 then Some (Stage_request, best, n) else None
         | Kind_decision \<Rightarrow>
             if stage_rank Stage_request \<le> rank \<and> occurrence_matches cs best n
             then Some (Stage_decision, best, n) else None
         | Kind_effect \<Rightarrow>
             if stage_rank Stage_decision \<le> rank \<and> occurrence_matches cs best n
             then Some (Stage_effect, best, n) else None
         | Kind_mix \<Rightarrow>
             if stage_rank Stage_request \<le> rank \<and> occurrence_matches cs best n
             then Some (Stage_mix, best, n) else None
         | Kind_output_span \<Rightarrow> None
         | Kind_other \<Rightarrow> None)"

definition resolve_fact :: "fact_trace \<Rightarrow> pending_fact \<Rightarrow> (chain list \<times> nat) option" where
  "resolve_fact t p =
     (let best = best_cause t p
      in case stage_of_fact (at_chains t) best p of
           None \<Rightarrow> Some (at_chains t, best)
         | Some (stage, parent, occurrence) \<Rightarrow> add_chain stage (pn_id p) parent occurrence (at_chains t))"

section \<open>The complete chain\<close>

definition note_chain :: "trace_summary \<Rightarrow> chain \<Rightarrow> trace_summary" where
  "note_chain s c =
     (case cn_stage c of
        Stage_ingress \<Rightarrow> s\<lparr>sm_ingress := cn_id c\<rparr>
      | Stage_candidate \<Rightarrow> s\<lparr>sm_candidate := cn_id c\<rparr>
      | Stage_selection \<Rightarrow> s\<lparr>sm_selection := cn_id c\<rparr>
      | Stage_request \<Rightarrow> s\<lparr>sm_request := cn_id c, sm_occurrence := cn_occurrence c\<rparr>
      | Stage_decision \<Rightarrow> s\<lparr>sm_decision := cn_id c\<rparr>
      | Stage_effect \<Rightarrow> s\<lparr>sm_effect := cn_id c\<rparr>
      | Stage_none \<Rightarrow> s
      | Stage_mix \<Rightarrow> s)"

definition all_stages_noted :: "trace_summary \<Rightarrow> bool" where
  "all_stages_noted s \<longleftrightarrow>
     sm_occurrence s \<noteq> 0 \<and> ti_producer (sm_ingress s) \<noteq> 0 \<and> ti_producer (sm_candidate s) \<noteq> 0 \<and>
     ti_producer (sm_selection s) \<noteq> 0 \<and> ti_producer (sm_request s) \<noteq> 0 \<and>
     ti_producer (sm_decision s) \<noteq> 0 \<and> ti_producer (sm_effect s) \<noteq> 0 \<and> ti_producer (sm_mix s) \<noteq> 0"

definition remember_complete :: "nat \<Rightarrow> fact_trace \<Rightarrow> fact_trace" where
  "remember_complete request t =
     (if sm_connected (at_complete t) then t
      else
        (case (at_effects t request, at_mixes t request) of
           (Some effect, Some mix) \<Rightarrow>
             (let cs = at_chains t;
                  s1 = foldl note_chain (at_complete t) (map (\<lambda>v. cs ! v) (ancestry cs effect));
                  s2 = s1\<lparr>sm_mix := cn_id (cs ! mix)\<rparr>
              in t\<lparr>at_complete := s2\<lparr>sm_connected := all_stages_noted s2\<rparr>\<rparr>)
         | _ \<Rightarrow> t))"

section \<open>Waiting facts\<close>

text \<open>The facts that waited on one that is known are ready again, each once.\<close>

fun wake ::
    "(trace_id \<times> pending_fact) list \<Rightarrow> trace_id list \<Rightarrow> pending_fact list \<Rightarrow>
     (trace_id \<times> pending_fact) list \<times> pending_fact list" where
  "wake unresolved [] ready = (unresolved, ready)"
| "wake unresolved (d # ds) ready =
     (case map_of unresolved d of
        None \<Rightarrow> wake unresolved ds ready
      | Some p \<Rightarrow> wake (AList.delete d unresolved) ds (ready @ [p]))"

definition publish_chain :: "nat \<Rightarrow> fact_trace \<Rightarrow> fact_trace" where
  "publish_chain value t =
     (if value = 0 then t
      else
        (let c = at_chains t ! value; request = cn_request c;
             t1 = (if cn_stage c = Stage_effect \<and> request \<noteq> 0 \<and> at_effects t request = None
                   then t\<lparr>at_effects := (at_effects t)(request \<mapsto> value)\<rparr> else t);
             t2 = (if cn_stage c = Stage_mix \<and> request \<noteq> 0 \<and> at_mixes t request = None
                   then t1\<lparr>at_mixes := (at_mixes t)(request \<mapsto> value)\<rparr> else t1)
         in if request \<noteq> 0 then remember_complete request t2 else t2))"

definition publish_fact :: "pending_fact \<Rightarrow> nat \<Rightarrow> pending_fact list \<Rightarrow> fact_trace \<Rightarrow> fact_trace \<times> pending_fact list" where
  "publish_fact p value ready t =
     (let t1 = publish_chain value (set_slot (pn_id p) (Slot_chain value) t)
      in case map_of (at_waiting t1) (pn_id p) of
           None \<Rightarrow> (t1, ready)
         | Some dependents \<Rightarrow>
             (let (unresolved, ready') = wake (at_unresolved t1) dependents ready
              in (t1\<lparr>at_unresolved := unresolved, at_waiting := AList.delete (pn_id p) (at_waiting t1)\<rparr>,
                  ready')))"

definition add_waiting :: "trace_id \<Rightarrow> (trace_id \<times> trace_id list) list \<Rightarrow> trace_id \<Rightarrow> (trace_id \<times> trace_id list) list" where
  "add_waiting i w c =
     AList.update c ((case map_of w c of None \<Rightarrow> [] | Some ds \<Rightarrow> ds) @ [i]) w"

definition defer_fact :: "pending_fact \<Rightarrow> fact_trace \<Rightarrow> fact_trace" where
  "defer_fact p t =
     (if map_of (at_unresolved t) (pn_id p) \<noteq> None then t\<lparr>at_valid := False\<rparr>
      else
        t\<lparr>at_unresolved := (pn_id p, p) # at_unresolved t,
          at_waiting :=
            foldl (add_waiting (pn_id p)) (at_waiting t) (filter (\<lambda>c. token t c = None) (pn_causes p))\<rparr>)"

lemma length_delete_le: "length (AList.delete k xs) \<le> length xs"
  by (simp add: AList.delete_eq)

lemma length_delete_less: "map_of xs k = Some v \<Longrightarrow> length (AList.delete k xs) < length xs"
  using map_of_SomeD [of xs k v] by (auto simp: AList.delete_eq intro: length_filter_less)

lemma wake_length:
  "wake unresolved ds ready = (unresolved', ready') \<Longrightarrow>
     length unresolved' + length ready' \<le> length unresolved + length ready"
proof (induction unresolved ds ready rule: wake.induct)
  case (2 unresolved d ds ready)
  show ?case
  proof (cases "map_of unresolved d")
    case (Some p)
    then show ?thesis
      using 2 length_delete_less [OF Some] by fastforce
  qed (use 2 in simp)
qed simp

lemma publish_chain_keeps [simp]:
  "at_unresolved (publish_chain v t) = at_unresolved t" "at_waiting (publish_chain v t) = at_waiting t"
  "at_slots (publish_chain v t) = at_slots t" "at_chains (publish_chain v t) = at_chains t"
  "at_valid (publish_chain v t) = at_valid t" "at_run (publish_chain v t) = at_run t"
  "at_count (publish_chain v t) = at_count t" "at_timeline (publish_chain v t) = at_timeline t"
  by (simp_all add: publish_chain_def remember_complete_def Let_def split: option.splits)

lemma set_slot_keeps [simp]:
  "at_unresolved (set_slot i s t) = at_unresolved t" "at_waiting (set_slot i s t) = at_waiting t"
  "at_chains (set_slot i s t) = at_chains t" "at_valid (set_slot i s t) = at_valid t"
  "at_run (set_slot i s t) = at_run t" "at_effects (set_slot i s t) = at_effects t"
  "at_mixes (set_slot i s t) = at_mixes t" "at_complete (set_slot i s t) = at_complete t"
  "at_count (set_slot i s t) = at_count t" "at_timeline (set_slot i s t) = at_timeline t"
  by (simp_all add: set_slot_def)

lemma publish_fact_length:
  "publish_fact p v ready t = (t', ready') \<Longrightarrow>
     length (at_unresolved t') + length ready' \<le> length (at_unresolved t) + length ready"
  by (auto simp: publish_fact_def Let_def split: option.splits prod.splits dest: wake_length)

function process :: "fact_trace \<Rightarrow> pending_fact list \<Rightarrow> fact_trace" where
  "process t [] = t"
| "process t (p # ready) =
     (if \<not> at_valid t then t
      else if \<not> all_causes_resolved t p then process (defer_fact p t) ready
      else
        (case resolve_fact t p of
           None \<Rightarrow> t\<lparr>at_valid := False\<rparr>
         | Some (cs, value) \<Rightarrow>
             (case publish_fact p value ready (t\<lparr>at_chains := cs\<rparr>) of
                (t', ready') \<Rightarrow> process t' ready')))"
  by pat_completeness auto

termination
  by (relation "inv_image ({(x, y). x < y} <*lex*> {(x, y). x < y})
    (\<lambda>(t, ready). (length (at_unresolved t) + length ready, length ready))")
  (auto simp: defer_fact_def intro!: wf_less split: prod.splits dest!: publish_fact_length)

declare process.simps [simp del]

section \<open>Consuming facts\<close>

text \<open>The slots of an excluded interval, from its first sequence; one that is not missing stops it.\<close>

fun exclude_slots :: "slot list \<Rightarrow> nat list \<Rightarrow> slot list \<times> bool" where
  "exclude_slots slots [] = (slots, True)"
| "exclude_slots slots (k # ks) =
     (if slots ! k \<noteq> Slot_missing then (slots, False) else exclude_slots (slots[k := Slot_excluded]) ks)"

definition in_interval :: "u32 \<Rightarrow> fact_exclusion \<Rightarrow> trace_id \<Rightarrow> bool" where
  "in_interval producer x i \<longleftrightarrow> ti_producer i = producer \<and> ex_from x \<le> ti_sequence i \<and> ti_sequence i \<le> ex_to x"

fun wake_excluded ::
    "u32 \<Rightarrow> fact_exclusion \<Rightarrow> (trace_id \<times> trace_id list) list \<Rightarrow>
     (trace_id \<times> pending_fact) list \<times> pending_fact list \<Rightarrow> (trace_id \<times> pending_fact) list \<times> pending_fact list" where
  "wake_excluded producer x [] s = s"
| "wake_excluded producer x ((i, ds) # ws) (unresolved, ready) =
     wake_excluded producer x ws
       (if in_interval producer x i then wake unresolved ds ready else (unresolved, ready))"

definition max_trace_facts :: u64 where "max_trace_facts = 10000000"

type_synonym table_walk = "(trace_id \<times> trace_id list) list \<Rightarrow> (trace_id \<times> trace_id list) list"

definition exclude :: "table_walk \<Rightarrow> fact_exclusion \<Rightarrow> fact_trace \<Rightarrow> fact_trace" where
  "exclude walk x t =
     (case producer_number (ex_producer x) of
        None \<Rightarrow> t\<lparr>at_valid := False\<rparr>
      | Some producer \<Rightarrow>
          if max_trace_facts < ex_to x then t\<lparr>at_valid := False\<rparr>
          else
            (let (slots, free) =
                   exclude_slots (grow_slots (unat (ex_to x)) (at_slots t producer))
                     [unat (ex_from x) - 1..<unat (ex_to x)];
                 t1 = t\<lparr>at_slots := (at_slots t)(producer := slots)\<rparr>
             in if \<not> free then t1\<lparr>at_valid := False\<rparr>
                else
                  (let (unresolved, ready) =
                         wake_excluded producer x (walk (at_waiting t1)) (at_unresolved t1, []);
                       t2 = t1\<lparr>at_unresolved := unresolved,
                              at_waiting := filter (\<lambda>(i, _). \<not> in_interval producer x i) (at_waiting t1)\<rparr>
                   in process t2 ready)))"

text \<open>The causes of a fact that it may wait for; one that is not of an Engine producer of the run is an error.\<close>

definition main_output_pcm_producer :: u32 where "main_output_pcm_producer = 7"

fun compact_causes :: "string \<Rightarrow> trace_kind \<Rightarrow> cause list \<Rightarrow> trace_id list option" where
  "compact_causes run kind [] = Some []"
| "compact_causes run kind (Cause_preexisting _ # cs) = compact_causes run kind cs"
| "compact_causes run kind (Cause_fact i # cs) =
     (case producer_number (id_producer i) of
        None \<Rightarrow> None
      | Some producer \<Rightarrow>
          if id_run i \<noteq> run \<or> id_sequence i = 0 then None
          else if kind = Kind_output_span \<and> producer = main_output_pcm_producer then compact_causes run kind cs
          else map_option (\<lambda>is. \<lparr>ti_producer = producer, ti_sequence = id_sequence i\<rparr> # is) (compact_causes run kind cs))"

definition reject :: "fact_trace \<Rightarrow> fact_trace \<times> bool" where
  "reject t = (t\<lparr>at_valid := False\<rparr>, False)"

definition consume_inspection :: "table_walk \<Rightarrow> qa_fact \<Rightarrow> fact_trace \<Rightarrow> fact_trace \<times> bool" where
  "consume_inspection walk f t =
     (if id_run (ft_id f) \<noteq> at_run t \<or> id_sequence (ft_id f) = 0 then reject t
      else if ft_kind f = ''fact_exclusion'' then
        (case read_fact_exclusion f of
           None \<Rightarrow> reject t
         | Some x \<Rightarrow>
             (let t' = exclude walk x (t\<lparr>at_count := at_count t + 1\<rparr>) in (t', at_valid t')))
      else if ft_kind f = ''timeline_compiled'' then
        (case read_timeline_compiled f of
           None \<Rightarrow> reject t
         | Some r \<Rightarrow> (t\<lparr>at_timeline := Some r, at_count := at_count t + 1\<rparr>, True))
      else if ft_kind f \<noteq> ''inspection_event'' \<and> ft_kind f \<noteq> ''render_frame'' \<and> ft_kind f \<noteq> ''render_summary''
      then reject t
      else (t\<lparr>at_count := at_count t + 1\<rparr>, True))"

definition consume_engine :: "qa_fact \<Rightarrow> fact_trace \<Rightarrow> fact_trace \<times> bool" where
  "consume_engine f t =
     (case producer_number (id_producer (ft_id f)) of
        None \<Rightarrow> reject t
      | Some producer \<Rightarrow>
          if id_run (ft_id f) \<noteq> at_run t \<or> id_sequence (ft_id f) = 0 \<or> max_trace_facts < id_sequence (ft_id f)
          then reject t
          else
            (let i = \<lparr>ti_producer = producer, ti_sequence = id_sequence (ft_id f)\<rparr> in
             if slot_at t i \<noteq> Slot_missing
             then reject (t\<lparr>at_slots := (at_slots t)(producer :=
                            grow_slots (unat (ti_sequence i)) (at_slots t producer))\<rparr>)
             else
               (let t1 = set_slot i Slot_unresolved t; kind = trace_kind_of (ft_kind f)
                in case compact_causes (at_run t) kind (ft_causes f) of
                     None \<Rightarrow> reject t1
                   | Some cs \<Rightarrow>
                       (let t2 = process (t1\<lparr>at_count := at_count t1 + 1\<rparr>)
                              [\<lparr>pn_id = i, pn_kind = kind, pn_occurrence = occurrence_of f, pn_causes = cs\<rparr>]
                        in (t2, at_valid t2)))))"

definition consume :: "table_walk \<Rightarrow> qa_fact \<Rightarrow> fact_trace \<Rightarrow> fact_trace \<times> bool" where
  "consume walk f t =
     (if \<not> at_valid t then (t, False)
      else if id_producer (ft_id f) = inspection_producer then consume_inspection walk f t
      else consume_engine f t)"

definition producers :: "u32 list" where
  "producers = map of_nat [1..<65]"

definition summarize_trace :: "bool \<Rightarrow> fact_trace \<Rightarrow> trace_summary" where
  "summarize_trace transport_loss_free t =
     (let sequences_complete = list_all (\<lambda>p. Slot_missing \<notin> set (at_slots t p)) producers;
          loss_free = transport_loss_free \<and> at_valid t \<and> sequences_complete \<and> at_unresolved t = []
      in (at_complete t)
           \<lparr>sm_observed := at_count t, sm_loss_free := loss_free,
            sm_connected := (loss_free \<and> sm_connected (at_complete t))\<rparr>)"

fun consume_all :: "table_walk \<Rightarrow> qa_fact list \<Rightarrow> fact_trace \<Rightarrow> fact_trace \<times> bool" where
  "consume_all walk [] t = (t, True)"
| "consume_all walk (f # fs) t =
     (case consume walk f t of (t', ok) \<Rightarrow> if ok then consume_all walk fs t' else (t', False))"

definition summarize_replay_facts :: "table_walk \<Rightarrow> qa_fact list \<Rightarrow> bool \<Rightarrow> trace_summary" where
  "summarize_replay_facts walk fs loss_free =
     (case fs of
        [] \<Rightarrow> empty_summary
      | f # _ \<Rightarrow> summarize_trace loss_free (fst (consume_all walk fs (make_trace (id_run (ft_id f))))))"

section \<open>Slots\<close>

definition valid_trace_id :: "trace_id \<Rightarrow> bool" where
  "valid_trace_id i \<longleftrightarrow> ti_producer i \<noteq> 0 \<and> ti_producer i \<le> producer_slots \<and> ti_sequence i \<noteq> 0"

lemma unat_pred: "(s :: u64) \<noteq> 0 \<Longrightarrow> Suc (unat (s - 1)) = unat s"
  by (simp add: unat_minus_one unat_gt_0)

lemma unat_pred_inject: "(r :: u64) \<noteq> 0 \<Longrightarrow> s \<noteq> 0 \<Longrightarrow> unat (r - 1) = unat (s - 1) \<longleftrightarrow> r = s"
  by (metis unat_pred word_unat_eq_iff)

lemma slot_at_grow:
  "(if k < length (grow_slots n xs) then grow_slots n xs ! k else Slot_missing) =
   (if k < length xs then xs ! k else Slot_missing)"
  by (auto simp: grow_slots_def nth_append)

lemma slot_at_set_slot:
  assumes "ti_sequence i \<noteq> 0" and "ti_sequence j \<noteq> 0"
  shows "slot_at (set_slot i s t) j = (if i = j then s else slot_at t j)"
proof (cases "ti_producer i = ti_producer j")
  case True
  let ?xs = "grow_slots (unat (ti_sequence i)) (at_slots t (ti_producer i))"
  have inside: "unat (ti_sequence i - 1) < length ?xs"
    using unat_pred [OF assms(1)] by (simp add: grow_slots_def)
  have "i = j \<longleftrightarrow> unat (ti_sequence i - 1) = unat (ti_sequence j - 1)"
    using True unat_pred_inject [OF assms] by (auto intro: trace_id.equality)
  then show ?thesis
    using True inside slot_at_grow [of "unat (ti_sequence j - 1)" "unat (ti_sequence i)" "at_slots t (ti_producer i)"]
    by (auto simp: slot_at_def set_slot_def Let_def nth_list_update)
qed (auto simp: slot_at_def set_slot_def Let_def)

definition token_of_slot :: "slot \<Rightarrow> nat option" where
  "token_of_slot s =
     (case s of Slot_missing \<Rightarrow> None | Slot_unresolved \<Rightarrow> None | Slot_excluded \<Rightarrow> Some 0 | Slot_chain v \<Rightarrow> Some v)"

lemma token_slot: "token t i = (if valid_trace_id i then token_of_slot (slot_at t i) else None)"
  by (auto simp: token_def valid_trace_id_def token_of_slot_def split: slot.splits)

lemma token_set_slot:
  assumes "valid_trace_id i"
  shows "token (set_slot i s t) j = (if i = j then token_of_slot s else token t j)"
  using assms slot_at_set_slot [of i j s t] by (auto simp: token_slot valid_trace_id_def)

lemma slot_at_cong: "at_slots t = at_slots t' \<Longrightarrow> slot_at t i = slot_at t' i"
  by (simp add: slot_at_def)

lemma token_cong: "at_slots t = at_slots t' \<Longrightarrow> token t i = token t' i"
  by (simp add: token_slot slot_at_def)

section \<open>Which facts are known\<close>

text \<open>
  The declared facts and the excluded identities of a run; a fact is known when all its causes are,
  from the excluded ones on.
\<close>

inductive known :: "(trace_id \<rightharpoonup> pending_fact) \<Rightarrow> trace_id set \<Rightarrow> trace_id \<Rightarrow> bool"
  for P :: "trace_id \<rightharpoonup> pending_fact" and X :: "trace_id set" where
  known_excluded: "i \<in> X \<Longrightarrow> known P X i"
| known_fact: "P i = Some p \<Longrightarrow> (\<And>c. c \<in> set (pn_causes p) \<Longrightarrow> known P X c) \<Longrightarrow> known P X i"

lemma known_mono:
  assumes "known P X i" and "P \<subseteq>\<^sub>m P'" and "X \<subseteq> X'"
  shows "known P' X' i"
  using assms
proof (induction rule: known.induct)
  case (known_fact i p)
  have "P' i = Some p" using known_fact.hyps(1) known_fact.prems(1) by (metis domI map_le_def)
  then show ?case using known_fact by (auto intro: known.known_fact)
qed (auto intro: known.known_excluded)

definition waiting_for :: "fact_trace \<Rightarrow> trace_id \<Rightarrow> trace_id set" where
  "waiting_for t c = (case map_of (at_waiting t) c of None \<Rightarrow> {} | Some ds \<Rightarrow> set ds)"

definition waits_well :: "fact_trace \<Rightarrow> bool" where
  "waits_well t \<longleftrightarrow>
     (\<forall>(i, p) \<in> set (at_unresolved t).
        (\<exists>c \<in> set (pn_causes p). token t c = None) \<and>
        (\<forall>c \<in> set (pn_causes p). token t c = None \<longrightarrow> i \<in> waiting_for t c))"

definition slots_match ::
    "(trace_id \<rightharpoonup> pending_fact) \<Rightarrow> trace_id set \<Rightarrow> trace_id set \<Rightarrow> fact_trace \<Rightarrow> bool" where
  "slots_match P X open_ids t \<longleftrightarrow>
     (\<forall>i. valid_trace_id i \<longrightarrow>
        (slot_at t i = Slot_missing \<longleftrightarrow> i \<notin> dom P \<union> X) \<and> (slot_at t i = Slot_excluded \<longleftrightarrow> i \<in> X) \<and>
        (slot_at t i = Slot_unresolved \<longleftrightarrow> i \<in> open_ids))"

definition declared_well :: "(trace_id \<rightharpoonup> pending_fact) \<Rightarrow> trace_id set \<Rightarrow> bool" where
  "declared_well P X \<longleftrightarrow>
     (\<forall>i \<in> dom P \<union> X. valid_trace_id i) \<and> dom P \<inter> X = {} \<and> (\<forall>i p. P i = Some p \<longrightarrow> pn_id p = i)"

definition trace_inv ::
    "(trace_id \<rightharpoonup> pending_fact) \<Rightarrow> trace_id set \<Rightarrow> pending_fact list \<Rightarrow> fact_trace \<Rightarrow> bool" where
  "trace_inv P X ready t \<longleftrightarrow>
     declared_well P X \<and>
     slots_match P X (fst ` set (at_unresolved t) \<union> pn_id ` set ready) t \<and>
     (\<forall>(i, p) \<in> set (at_unresolved t). P i = Some p) \<and> (\<forall>p \<in> set ready. P (pn_id p) = Some p) \<and>
     distinct (map fst (at_unresolved t) @ map pn_id ready) \<and> waits_well t \<and>
     (\<forall>i. token t i \<noteq> None \<longrightarrow> known P X i)"

lemma trace_invD:
  assumes "trace_inv P X ready t"
  shows "declared_well P X" "slots_match P X (fst ` set (at_unresolved t) \<union> pn_id ` set ready) t"
    "\<And>i p. (i, p) \<in> set (at_unresolved t) \<Longrightarrow> P i = Some p" "\<And>p. p \<in> set ready \<Longrightarrow> P (pn_id p) = Some p"
    "distinct (map fst (at_unresolved t) @ map pn_id ready)" "waits_well t"
    "\<And>i. token t i \<noteq> None \<Longrightarrow> known P X i"
  using assms by (auto simp: trace_inv_def)

lemma trace_inv_cong:
  assumes "at_slots t = at_slots t'" and "at_unresolved t = at_unresolved t'" and "at_waiting t = at_waiting t'"
  shows "trace_inv P X ready t = trace_inv P X ready t'"
  using assms(2,3) token_cong [OF assms(1)] slot_at_cong [OF assms(1)]
  by (simp add: trace_inv_def slots_match_def waits_well_def waiting_for_def)

lemma declared_wellD:
  "declared_well P X \<Longrightarrow> P i = Some p \<Longrightarrow> valid_trace_id i \<and> pn_id p = i \<and> i \<notin> X"
  unfolding declared_well_def by blast

lemma wake_filter:
  assumes "distinct (map fst u)" and "\<forall>(i, p) \<in> set u. pn_id p = i" and "wake u ds ready = (u', ready')"
  shows "u' = filter (\<lambda>(i, _). i \<notin> set ds) u \<and>
    (\<exists>rs. ready' = ready @ rs \<and> distinct (map pn_id rs) \<and> set rs = snd ` {(i, p) \<in> set u. i \<in> set ds})"
  using assms
proof (induction u ds ready rule: wake.induct)
  case (1 u ready)
  then show ?case by auto
next
  case (2 u d ds ready)
  show ?case
  proof (cases "map_of u d")
    case None
    then have "d \<notin> fst ` set u" by (simp add: map_of_eq_None_iff)
    then have "filter (\<lambda>(i, _). i \<notin> set (d # ds)) u = filter (\<lambda>(i, _). i \<notin> set ds) u"
      and "{(i, p) \<in> set u. i \<in> set (d # ds)} = {(i, p) \<in> set u. i \<in> set ds}"
      by (force intro: filter_cong)+
    with 2 None show ?thesis by simp
  next
    case (Some p)
    let ?u = "AList.delete d u"
    have u: "?u = filter (\<lambda>(i, _). i \<noteq> d) u" by (auto simp: AList.delete_eq intro: filter_cong)
    have p: "(d, p) \<in> set u" using Some by (rule map_of_SomeD)
    have unique: "q = p" if "(d, q) \<in> set u" for q using 2(3) that p by (rule eq_key_imp_eq_value)
    have "distinct (map fst ?u)" "\<forall>(i, p) \<in> set ?u. pn_id p = i" "wake ?u ds (ready @ [p]) = (u', ready')"
      using 2 Some by (auto simp: u distinct_map_filter)
    from "2.IH"(2) [OF Some this] obtain rs where
      u': "u' = filter (\<lambda>(i, _). i \<notin> set ds) ?u" and
      rs: "ready' = (ready @ [p]) @ rs" "distinct (map pn_id rs)" "set rs = snd ` {(i, p) \<in> set ?u. i \<in> set ds}"
      by blast
    have own: "pn_id q = i" if "(i, q) \<in> set u" for i q using bspec [OF 2(4) that] by simp
    have "pn_id p \<notin> pn_id ` set rs"
    proof
      assume "pn_id p \<in> pn_id ` set rs"
      then obtain i q where "(i, q) \<in> set u" "i \<noteq> d" "pn_id q = pn_id p" unfolding rs(3) u by auto
      then show False using own [OF p] own [of i q] by simp
    qed
    moreover have "set (p # rs) = snd ` {(i, p) \<in> set u. i \<in> set (d # ds)}"
    proof (intro set_eqI iffI)
      fix q
      assume "q \<in> set (p # rs)"
      then show "q \<in> snd ` {(i, p) \<in> set u. i \<in> set (d # ds)}" using p unfolding set_simps rs(3) u by force
    next
      fix q
      assume "q \<in> snd ` {(i, p) \<in> set u. i \<in> set (d # ds)}"
      then obtain i where "(i, q) \<in> set u" "i \<in> set (d # ds)" by auto
      then show "q \<in> set (p # rs)" using unique [of q] unfolding set_simps rs(3) u by (cases "i = d") force+
    qed
    moreover have "u' = filter (\<lambda>(i, _). i \<notin> set (d # ds)) u"
      unfolding u' u by (auto intro: filter_cong)
    ultimately show ?thesis using rs by (intro conjI exI [of _ "p # rs"]) auto
  qed
qed

section \<open>Each step keeps the invariant\<close>

lemma add_waiting_all:
  "map_of (foldl (add_waiting i) w cs) c =
     (if c \<in> set cs then Some ((case map_of w c of None \<Rightarrow> [] | Some ds \<Rightarrow> ds) @ replicate (count_list cs c) i)
      else map_of w c)"
proof (induction cs arbitrary: w)
  case (Cons a cs)
  have "map_of (add_waiting i w a) = (map_of w)(a \<mapsto> (case map_of w a of None \<Rightarrow> [] | Some ds \<Rightarrow> ds) @ [i])"
    by (simp add: add_waiting_def update_conv')
  then show ?case
    by (auto simp: Cons.IH replicate_app_Cons_same split: option.splits)
qed simp

lemma defer_inv:
  assumes inv: "trace_inv P X (p # ready) t" and open_fact: "\<not> all_causes_resolved t p"
  shows "trace_inv P X ready (defer_fact p t) \<and> at_valid (defer_fact p t) = at_valid t"
proof -
  note D = trace_invD [OF inv]
  have fresh: "map_of (at_unresolved t) (pn_id p) = None"
    using D(5) by (auto simp: map_of_eq_None_iff)
  let ?t = "defer_fact p t"
  have t: "at_unresolved ?t = (pn_id p, p) # at_unresolved t" "at_slots ?t = at_slots t" "at_valid ?t = at_valid t"
    "at_waiting ?t = foldl (add_waiting (pn_id p)) (at_waiting t) (filter (\<lambda>c. token t c = None) (pn_causes p))"
    using fresh by (simp_all add: defer_fact_def)
  have tokens: "token ?t i = token t i" "slot_at ?t i = slot_at t i" for i
    using t(2) by (simp_all add: token_slot slot_at_def)
  have waits: "waiting_for t c \<subseteq> waiting_for ?t c" for c
    by (auto simp: waiting_for_def t(4) add_waiting_all split: option.splits)
  have own: "pn_id p \<in> waiting_for ?t c" if "c \<in> set (pn_causes p)" "token t c = None" for c
    using that by (auto simp: waiting_for_def t(4) add_waiting_all count_list_0_iff)
  have "waits_well ?t"
    using D(6) open_fact own waits unfolding waits_well_def t(1) tokens
    by (fastforce simp: all_causes_resolved_def list_all_iff)
  moreover have "slots_match P X (fst ` set (at_unresolved ?t) \<union> pn_id ` set ready) ?t"
    using D(2) by (simp add: slots_match_def t(1) tokens)
  ultimately show ?thesis
    using D t(3) by (auto simp: trace_inv_def t(1) tokens)
qed

lemma all_known:
  assumes "trace_inv P X (p # ready) t" and "all_causes_resolved t p"
  shows "known P X (pn_id p)"
proof (rule known.known_fact)
  show "P (pn_id p) = Some p" using trace_invD(4) [OF assms(1)] by simp
  show "known P X c" if "c \<in> set (pn_causes p)" for c
    using assms(2) that trace_invD(7) [OF assms(1)] by (auto simp: all_causes_resolved_def list_all_iff)
qed

text \<open>The facts that wait for one that becomes known, and those that do not.\<close>

definition woken_by :: "(trace_id \<times> pending_fact) list \<Rightarrow> trace_id set \<Rightarrow> pending_fact list \<Rightarrow> bool" where
  "woken_by u ds rs \<longleftrightarrow> distinct (map pn_id rs) \<and> set rs = snd ` {(i, p) \<in> set u. i \<in> ds}"

lemma publish_inv:
  assumes inv: "trace_inv P X (p # ready) t" and resolved: "all_causes_resolved t p"
    and publish: "publish_fact p v ready t = (t', ready')"
  shows "trace_inv P X ready' t' \<and> at_valid t' = at_valid t"
proof -
  note D = trace_invD [OF inv]
  let ?i = "pn_id p"
  let ?t1 = "publish_chain v (set_slot ?i (Slot_chain v) t)"
  let ?ds = "waiting_for t ?i"
  have Pp: "P ?i = Some p" using D(4) by simp
  have valid: "valid_trace_id ?i" "?i \<in> dom P" "?i \<notin> X" using declared_wellD [OF D(1) Pp] Pp by (simp_all add: domI)
  have each: "pn_id q = i" if "(i, q) \<in> set (at_unresolved t)" for i q
    using declared_wellD [OF D(1) D(3) [OF that]] by simp
  then have own: "\<forall>(i, q) \<in> set (at_unresolved t). pn_id q = i" by auto
  have keys: "distinct (map fst (at_unresolved t))" using D(5) by simp
  have "at_valid t' = at_valid t \<and> at_slots t' = at_slots ?t1 \<and>
      at_unresolved t' = filter (\<lambda>(i, _). i \<notin> ?ds) (at_unresolved t) \<and>
      (\<exists>rs. ready' = ready @ rs \<and> woken_by (at_unresolved t) ?ds rs) \<and>
      (\<forall>c. c \<noteq> ?i \<longrightarrow> waiting_for t' c = waiting_for t c)"
  proof (cases "map_of (at_waiting t) ?i")
    case None
    then have "t' = ?t1 \<and> ready' = ready" using publish by (simp add: publish_fact_def Let_def)
    with None show ?thesis by (simp add: waiting_for_def woken_by_def filter_id_conv case_prod_beta)
  next
    case (Some ds)
    obtain u' r where w: "wake (at_unresolved t) ds ready = (u', r)" by fastforce
    then have "t' = ?t1\<lparr>at_unresolved := u', at_waiting := AList.delete ?i (at_waiting ?t1)\<rparr> \<and> ready' = r"
      using publish Some by (simp add: publish_fact_def Let_def)
    then have parts: "at_valid t' = at_valid t" "at_slots t' = at_slots ?t1" "at_unresolved t' = u'" "ready' = r"
        "at_waiting t' = AList.delete ?i (at_waiting t)"
      by simp_all
    have "?ds = set ds" using Some by (simp add: waiting_for_def)
    with wake_filter [OF keys own w] have "u' = filter (\<lambda>(i, _). i \<notin> ?ds) (at_unresolved t) \<and>
        (\<exists>rs. r = ready @ rs \<and> woken_by (at_unresolved t) ?ds rs)"
      by (simp add: woken_by_def)
    moreover have "waiting_for t' c = waiting_for t c" if "c \<noteq> ?i" for c
      using that by (simp add: waiting_for_def parts(5) delete_conv')
    ultimately show ?thesis using parts by simp
  qed
  then obtain rs where t': "at_valid t' = at_valid t" "at_slots t' = at_slots ?t1"
      "at_unresolved t' = filter (\<lambda>(i, _). i \<notin> ?ds) (at_unresolved t)" "ready' = ready @ rs"
      "\<And>c. c \<noteq> ?i \<Longrightarrow> waiting_for t' c = waiting_for t c"
    and rs: "distinct (map pn_id rs)" "set rs = snd ` {(i, p) \<in> set (at_unresolved t). i \<in> ?ds}"
    unfolding woken_by_def by blast
  have slots: "slot_at t' j = (if ?i = j then Slot_chain v else slot_at t j)" if "ti_sequence j \<noteq> 0" for j
    using slot_at_set_slot [of ?i j "Slot_chain v" t] valid that
    by (simp add: valid_trace_id_def slot_at_def t'(2))
  have tokens: "token t' j = (if ?i = j then Some v else token t j)" for j
    using token_set_slot [OF valid(1), of "Slot_chain v" t j] token_cong [OF t'(2), of j] token_cong [of ?t1 "set_slot ?i (Slot_chain v) t" j]
    by (simp add: token_of_slot_def)
  have ids: "pn_id ` set rs = {i \<in> fst ` set (at_unresolved t). i \<in> ?ds}"
    using own unfolding rs(2) by (force simp: image_iff)
  have open_ids: "fst ` set (at_unresolved t') \<union> pn_id ` set ready' =
      fst ` set (at_unresolved t) \<union> pn_id ` set ready"
    unfolding t'(3,4) set_append image_Un ids by force
  have "slots_match P X (fst ` set (at_unresolved t') \<union> pn_id ` set ready') t'"
    unfolding open_ids slots_match_def
  proof (intro allI impI)
    fix j assume j: "valid_trace_id j"
    have "?i \<notin> fst ` set (at_unresolved t) \<union> pn_id ` set ready" using D(5) by auto
    with valid(2,3) show "(slot_at t' j = Slot_missing) = (j \<notin> dom P \<union> X) \<and> (slot_at t' j = Slot_excluded) = (j \<in> X) \<and>
        (slot_at t' j = Slot_unresolved) = (j \<in> fst ` set (at_unresolved t) \<union> pn_id ` set ready)"
      using D(2) j slots [of j] unfolding slots_match_def by (auto simp: valid_trace_id_def)
  qed
  moreover have "waits_well t'"
  proof -
    have "(\<exists>c \<in> set (pn_causes q). token t' c = None) \<and>
        (\<forall>c \<in> set (pn_causes q). token t' c = None \<longrightarrow> j \<in> waiting_for t' c)"
      if "(j, q) \<in> set (at_unresolved t')" for j q
    proof -
      have jq: "(j, q) \<in> set (at_unresolved t)" "j \<notin> ?ds" using that by (auto simp: t'(3))
      have "token t ?i = None"
        using D(2) valid by (auto simp: slots_match_def token_slot token_of_slot_def)
      with jq D(6) have other: "?i \<notin> set (pn_causes q)" by (auto simp: waits_well_def)
      then have "token t' c = token t c \<and> waiting_for t' c = waiting_for t c" if "c \<in> set (pn_causes q)" for c
        using that tokens t'(5) by auto
      with jq D(6) show ?thesis by (auto simp: waits_well_def)
    qed
    then show ?thesis unfolding waits_well_def by blast
  qed
  moreover have "distinct (map fst (at_unresolved t') @ map pn_id ready')"
  proof -
    have "distinct (map fst (at_unresolved t'))" using keys by (simp add: t'(3) distinct_map_filter)
    moreover have "fst ` set (at_unresolved t') \<inter> pn_id ` set rs = {}" unfolding ids t'(3) by force
    moreover have "pn_id ` set rs \<subseteq> fst ` set (at_unresolved t)" "fst ` set (at_unresolved t') \<subseteq> fst ` set (at_unresolved t)"
      unfolding ids t'(3) by auto
    moreover have "distinct (map pn_id ready)" "fst ` set (at_unresolved t) \<inter> pn_id ` set ready = {}"
      using D(5) by auto
    moreover from calculation have "fst ` set (at_unresolved t') \<inter> pn_id ` set ready = {}"
        "pn_id ` set ready \<inter> pn_id ` set rs = {}"
      by (simp_all only: disjoint_iff subset_iff) blast+
    ultimately show ?thesis
      using rs(1) unfolding t'(4) map_append distinct_append set_append set_map Int_Un_distrib by simp
  qed
  moreover have "\<forall>(j, q) \<in> set (at_unresolved t'). P j = Some q" using D(3) by (auto simp: t'(3))
  moreover have "\<forall>q \<in> set ready'. P (pn_id q) = Some q"
    using D(3,4) own unfolding t'(4) set_append rs(2) by fastforce
  moreover have "\<forall>j. token t' j \<noteq> None \<longrightarrow> known P X j"
    using D(7) all_known [OF inv resolved] by (auto simp: tokens)
  ultimately show ?thesis using D(1) t'(1) by (simp add: trace_inv_def)
qed

lemma token_updates [simp]:
  "token (t\<lparr>at_chains := cs\<rparr>) i = token t i" "token (t\<lparr>at_complete := s\<rparr>) i = token t i"
  "token (t\<lparr>at_effects := m\<rparr>) i = token t i" "token (t\<lparr>at_mixes := m\<rparr>) i = token t i"
  by (rule token_cong; simp)+

lemma resolve_keeps_unresolved: "trace_inv P X ready (t\<lparr>at_chains := cs\<rparr>) = trace_inv P X ready t"
  by (simp add: trace_inv_def slots_match_def waits_well_def waiting_for_def token_slot slot_at_def)

lemma process_inv:
  "trace_inv P X ready t \<Longrightarrow> at_valid (process t ready) \<Longrightarrow> trace_inv P X [] (process t ready)"
proof (induction t ready rule: process.induct)
  case (1 t)
  then show ?case by (simp add: process.simps)
next
  case (2 t p ready)
  note step = process.simps(2) [of t p ready]
  have valid: "at_valid t" using "2.prems"(2) by (cases "at_valid t") (simp_all add: step)
  show ?case
  proof (cases "all_causes_resolved t p")
    case False
    have "trace_inv P X ready (defer_fact p t)" using defer_inv [OF "2.prems"(1) False] by simp
    then show ?thesis using "2.IH"(1) "2.prems"(2) valid False by (simp add: step)
  next
    case True
    show ?thesis
    proof (cases "resolve_fact t p")
      case None
      then show ?thesis using "2.prems"(2) valid True by (simp add: step)
    next
      case (Some r)
      obtain cs v where r: "r = (cs, v)" by fastforce
      obtain t' ready' where pub: "publish_fact p v ready (t\<lparr>at_chains := cs\<rparr>) = (t', ready')" by fastforce
      have "all_causes_resolved (t\<lparr>at_chains := cs\<rparr>) p"
        using True by (simp add: all_causes_resolved_def)
      with publish_inv [OF _ _ pub] "2.prems"(1) have "trace_inv P X ready' t'"
        by (simp add: resolve_keeps_unresolved)
      then show ?thesis
        using "2.IH"(2) "2.prems"(2) valid True Some r pub by (simp add: step)
    qed
  qed
qed

text \<open>When nothing is ready, exactly the known facts have a token.\<close>

lemma known_iff_token:
  assumes "trace_inv P X [] t"
  shows "known P X i \<longleftrightarrow> token t i \<noteq> None"
proof
  note D = trace_invD [OF assms]
  show "token t i \<noteq> None \<Longrightarrow> known P X i" by (rule D(7))
  show "known P X i \<Longrightarrow> token t i \<noteq> None"
  proof (induction rule: known.induct)
    case (known_excluded i)
    then have "valid_trace_id i" using D(1) by (auto simp: declared_well_def)
    with known_excluded D(2) show ?case by (auto simp: slots_match_def token_slot token_of_slot_def)
  next
    case (known_fact i p)
    have i: "valid_trace_id i" "i \<notin> X" using declared_wellD [OF D(1) known_fact(1)] by auto
    have "i \<notin> fst ` set (at_unresolved t)"
    proof
      assume "i \<in> fst ` set (at_unresolved t)"
      then obtain q where q: "(i, q) \<in> set (at_unresolved t)" by auto
      with D(3) known_fact(1) have "q = p" by fastforce
      with q D(6) obtain c where "c \<in> set (pn_causes p)" "token t c = None" by (auto simp: waits_well_def)
      then show False using known_fact(3) by auto
    qed
    then have "slot_at t i \<noteq> Slot_unresolved" "slot_at t i \<noteq> Slot_missing"
      using D(2) i known_fact(1) by (auto simp: slots_match_def)
    with i show ?case by (cases "slot_at t i") (auto simp: token_slot token_of_slot_def)
  qed
qed

lemma nothing_waits_iff:
  assumes "trace_inv P X [] t"
  shows "at_unresolved t = [] \<longleftrightarrow> (\<forall>i \<in> dom P. known P X i)"
proof
  note D = trace_invD [OF assms]
  assume none: "at_unresolved t = []"
  show "\<forall>i \<in> dom P. known P X i"
  proof
    fix i assume i: "i \<in> dom P"
    then have "valid_trace_id i" using declared_wellD [OF D(1)] by blast
    then have "slot_at t i \<noteq> Slot_unresolved" "slot_at t i \<noteq> Slot_missing"
      using D(2) i none by (auto simp: slots_match_def)
    with \<open>valid_trace_id i\<close> show "known P X i"
      unfolding known_iff_token [OF assms] by (cases "slot_at t i") (auto simp: token_slot token_of_slot_def)
  qed
next
  note D = trace_invD [OF assms]
  assume all: "\<forall>i \<in> dom P. known P X i"
  show "at_unresolved t = []"
  proof (rule ccontr)
    assume "at_unresolved t \<noteq> []"
    then obtain i p where ip: "(i, p) \<in> set (at_unresolved t)" by (cases "at_unresolved t") auto
    then have "P i = Some p" by (rule D(3))
    with all have "token t i \<noteq> None" unfolding known_iff_token [OF assms] by blast
    moreover have "valid_trace_id i" using declared_wellD [OF D(1) \<open>P i = Some p\<close>] by simp
    moreover have "slot_at t i = Slot_unresolved" using D(2) ip calculation(2) by (force simp: slots_match_def)
    ultimately show False by (simp add: token_slot token_of_slot_def)
  qed
qed

section \<open>The vectors of slots\<close>

text \<open>A vector is no longer than the largest sequence allowed, and its last slot is never missing.\<close>

definition slots_tight :: "fact_trace \<Rightarrow> bool" where
  "slots_tight t \<longleftrightarrow>
     (\<forall>p. length (at_slots t p) \<le> unat max_trace_facts \<and>
        (at_slots t p = [] \<or> last (at_slots t p) \<noteq> Slot_missing))"

lemma length_grow_slots: "length (grow_slots n xs) = max (length xs) n"
  by (simp add: grow_slots_def)

lemma tight_update:
  assumes "xs = [] \<or> last xs \<noteq> Slot_missing" and "0 < n" and "s \<noteq> Slot_missing"
  shows "last ((grow_slots n xs)[n - 1 := s]) \<noteq> Slot_missing"
proof -
  let ?ys = "(grow_slots n xs)[n - 1 := s]"
  have size_ys: "length ?ys = max (length xs) n" by (simp add: grow_slots_def)
  then have ne: "?ys \<noteq> []" using assms(2) by (metis length_greater_0_conv max.strict_coboundedI2)
  show ?thesis
  proof (cases "length xs \<le> n")
    case True
    then have "last ?ys = s" using ne size_ys assms(2) by (simp add: last_conv_nth grow_slots_def)
    with assms(3) show ?thesis by simp
  next
    case False
    then have "last ?ys = last xs" using ne size_ys assms(2) by (auto simp: last_conv_nth grow_slots_def nth_list_update)
    with False assms(1) show ?thesis by auto
  qed
qed

lemma tight_set_slot:
  assumes "slots_tight t" and "ti_sequence i \<noteq> 0" and "ti_sequence i \<le> max_trace_facts" and "s \<noteq> Slot_missing"
  shows "slots_tight (set_slot i s t)"
proof -
  have pred: "unat (ti_sequence i - 1) = unat (ti_sequence i) - 1" using unat_pred [OF assms(2)] by simp
  have pos: "0 < unat (ti_sequence i)" using assms(2) by (simp add: unat_gt_0)
  have "last ((grow_slots (unat (ti_sequence i)) (at_slots t p))[unat (ti_sequence i) - 1 := s]) \<noteq> Slot_missing" for p
    using assms(1,4) pos by (intro tight_update) (auto simp: slots_tight_def)
  with assms(1,3) show ?thesis
    by (auto simp: slots_tight_def set_slot_def pred length_grow_slots word_le_nat_alt)
qed

lemma declared_within:
  assumes "slots_match P X open_ids t" and "slots_tight t" and "valid_trace_id i" and "i \<in> dom P \<union> X"
  shows "ti_sequence i \<le> max_trace_facts"
proof -
  have "slot_at t i \<noteq> Slot_missing" using assms(1,3,4) by (auto simp: slots_match_def)
  then have "unat (ti_sequence i - 1) < length (at_slots t (ti_producer i))"
    by (auto simp: slot_at_def Let_def split: if_splits)
  also have "\<dots> \<le> unat max_trace_facts" using assms(2) by (simp add: slots_tight_def)
  finally show ?thesis
    using unat_pred [of "ti_sequence i"] assms(3) by (simp add: valid_trace_id_def word_le_nat_alt)
qed

lemma publish_slots:
  "publish_fact p v ready t = (t', ready') \<Longrightarrow> at_slots t' = at_slots (set_slot (pn_id p) (Slot_chain v) t)"
  by (auto simp: publish_fact_def Let_def split: option.splits prod.splits)

lemma defer_slots [simp]: "at_slots (defer_fact p t) = at_slots t" "at_run (defer_fact p t) = at_run t"
  by (simp_all add: defer_fact_def)

lemma tight_cong: "at_slots t = at_slots t' \<Longrightarrow> slots_tight t = slots_tight t'"
  by (simp add: slots_tight_def)

lemma process_tight:
  "trace_inv P X ready t \<Longrightarrow> at_valid (process t ready) \<Longrightarrow> slots_tight t \<Longrightarrow> slots_tight (process t ready)"
proof (induction t ready rule: process.induct)
  case (1 t)
  then show ?case by (simp add: process.simps)
next
  case (2 t p ready)
  note step = process.simps(2) [of t p ready]
  have valid: "at_valid t" using "2.prems"(2) by (cases "at_valid t") (simp_all add: step)
  show ?case
  proof (cases "all_causes_resolved t p")
    case False
    have "trace_inv P X ready (defer_fact p t)" using defer_inv [OF "2.prems"(1) False] by simp
    moreover have "slots_tight (defer_fact p t)" using "2.prems"(3) by (simp add: slots_tight_def)
    ultimately show ?thesis using "2.IH"(1) "2.prems"(2) valid False by (simp add: step)
  next
    case True
    show ?thesis
    proof (cases "resolve_fact t p")
      case None
      then show ?thesis using "2.prems"(2) valid True by (simp add: step)
    next
      case (Some r)
      obtain cs v where r: "r = (cs, v)" by fastforce
      obtain t' ready' where pub: "publish_fact p v ready (t\<lparr>at_chains := cs\<rparr>) = (t', ready')" by fastforce
      have "all_causes_resolved (t\<lparr>at_chains := cs\<rparr>) p" using True by (simp add: all_causes_resolved_def)
      with publish_inv [OF _ _ pub] "2.prems"(1) have inv: "trace_inv P X ready' t'"
        by (simp add: resolve_keeps_unresolved)
      note D = trace_invD [OF "2.prems"(1)]
      have Pp: "P (pn_id p) = Some p" using D(4) by simp
      have "valid_trace_id (pn_id p)" "pn_id p \<in> dom P"
        using declared_wellD [OF D(1) Pp] Pp by (simp_all add: domI)
      then have "slots_tight (set_slot (pn_id p) (Slot_chain v) t)"
        using "2.prems"(3) declared_within [OF D(2) "2.prems"(3), of "pn_id p"]
        by (intro tight_set_slot) (simp_all add: valid_trace_id_def)
      then have "slots_tight t'"
        using publish_slots [OF pub] by (simp add: slots_tight_def set_slot_def)
      with inv show ?thesis
        using "2.IH"(2) "2.prems"(2) valid True Some r pub by (simp add: step)
    qed
  qed
qed

lemma publish_run: "publish_fact p v ready t = (t', ready') \<Longrightarrow> at_run t' = at_run t"
  by (auto simp: publish_fact_def Let_def split: option.splits prod.splits)

lemma process_run [simp]: "at_run (process t ready) = at_run t"
proof (induction t ready rule: process.induct)
  case (2 t p ready)
  note step = process.simps(2) [of t p ready]
  consider "\<not> at_valid t" | "at_valid t" "\<not> all_causes_resolved t p"
    | "at_valid t" "all_causes_resolved t p" "resolve_fact t p = None"
    | cs v where "at_valid t" "all_causes_resolved t p" "resolve_fact t p = Some (cs, v)"
    by (cases "resolve_fact t p") (blast, metis surj_pair)
  then show ?case
  proof cases
    case 4
    obtain t' ready' where "publish_fact p v ready (t\<lparr>at_chains := cs\<rparr>) = (t', ready')" by fastforce
    with 4 "2.IH"(2) publish_run [OF this] show ?thesis by (simp add: step)
  qed (use "2.IH"(1) in \<open>simp_all add: step\<close>)
qed (simp add: process.simps)

text \<open>No missing slot is left exactly when the declared sequences of every producer have no gap.\<close>

definition gapless_ids :: "trace_id set \<Rightarrow> bool" where
  "gapless_ids D \<longleftrightarrow>
     (\<forall>i \<in> D. \<forall>s. s \<noteq> 0 \<longrightarrow> s \<le> ti_sequence i \<longrightarrow> \<lparr>ti_producer = ti_producer i, ti_sequence = s\<rparr> \<in> D)"

lemma gapless_idsD:
  assumes "gapless_ids D" and "\<lparr>ti_producer = p, ti_sequence = n\<rparr> \<in> D" and "s \<le> n" and "s \<noteq> 0"
  shows "\<lparr>ti_producer = p, ti_sequence = s\<rparr> \<in> D"
  using assms(1) [unfolded gapless_ids_def, THEN bspec, OF assms(2)] assms(3,4) by simp

lemma set_producers: "set producers = {p. p \<noteq> 0 \<and> p \<le> producer_slots}"
proof (intro set_eqI iffI)
  fix p :: u32
  assume "p \<in> set producers"
  then obtain k where "p = of_nat k" "1 \<le> k" "k < 65" by (auto simp: producers_def)
  then show "p \<in> {p. p \<noteq> 0 \<and> p \<le> producer_slots}"
    by (auto simp: producer_slots_def word_le_nat_alt unat_of_nat_small word_unat_eq_iff)
next
  fix p :: u32
  assume "p \<in> {p. p \<noteq> 0 \<and> p \<le> producer_slots}"
  then have "p = of_nat (unat p)" "1 \<le> unat p" "unat p < 65"
    by (auto simp: producer_slots_def word_le_nat_alt unat_gt_0 Suc_le_eq)
  then show "p \<in> set producers" unfolding producers_def by (metis atLeastLessThan_upt atLeastLessThan_iff image_eqI set_map)
qed

lemma no_missing_iff:
  assumes "slots_match P X open_ids t" and "slots_tight t" and valid: "\<forall>i \<in> dom P \<union> X. valid_trace_id i"
  shows "list_all (\<lambda>p. Slot_missing \<notin> set (at_slots t p)) producers \<longleftrightarrow> gapless_ids (dom P \<union> X)"
proof
  assume all: "list_all (\<lambda>p. Slot_missing \<notin> set (at_slots t p)) producers"
  show "gapless_ids (dom P \<union> X)"
    unfolding gapless_ids_def
  proof (intro ballI allI impI)
    fix i s
    assume i: "i \<in> dom P \<union> X" and s: "s \<noteq> 0" "s \<le> ti_sequence i"
    let ?j = "\<lparr>ti_producer = ti_producer i, ti_sequence = s\<rparr>"
    have vi: "valid_trace_id i" using valid i by blast
    then have vj: "valid_trace_id ?j" using s by (simp add: valid_trace_id_def)
    have "unat (s - 1) \<le> unat (ti_sequence i - 1)"
      using s unat_pred [of s] unat_pred [of "ti_sequence i"] vi by (simp add: valid_trace_id_def word_le_nat_alt)
    also have "slot_at t i \<noteq> Slot_missing" using assms(1) vi i by (auto simp: slots_match_def)
    then have "unat (ti_sequence i - 1) < length (at_slots t (ti_producer i))"
      by (auto simp: slot_at_def Let_def split: if_splits)
    finally have "slot_at t ?j \<in> set (at_slots t (ti_producer i))" by (simp add: slot_at_def)
    moreover have "ti_producer i \<in> set producers" using vi by (simp add: set_producers valid_trace_id_def)
    ultimately have "slot_at t ?j \<noteq> Slot_missing" using all by (auto simp: list_all_iff)
    with assms(1) vj show "?j \<in> dom P \<union> X" by (auto simp: slots_match_def)
  qed
next
  assume gapless: "gapless_ids (dom P \<union> X)"
  show "list_all (\<lambda>p. Slot_missing \<notin> set (at_slots t p)) producers"
    unfolding list_all_iff
  proof (intro ballI notI)
    fix p
    assume p: "p \<in> set producers" and "Slot_missing \<in> set (at_slots t p)"
    then obtain k where k: "k < length (at_slots t p)" "at_slots t p ! k = Slot_missing"
      by (auto simp: in_set_conv_nth)
    let ?n = "length (at_slots t p)"
    have small: "?n < 2 ^ 64"
      using assms(2) [unfolded slots_tight_def, THEN spec, of p] by (simp add: max_trace_facts_def)
    define i where "i = \<lparr>ti_producer = p, ti_sequence = of_nat ?n\<rparr>"
    define j where "j = \<lparr>ti_producer = p, ti_sequence = of_nat (Suc k)\<rparr>"
    have n: "unat (of_nat ?n :: u64) = ?n" "unat (of_nat (Suc k) :: u64) = Suc k"
      using small k(1) by (simp_all add: unat_of_nat_small del: of_nat_Suc)
    have nz: "(of_nat ?n :: u64) \<noteq> 0" "(of_nat (Suc k) :: u64) \<noteq> 0"
      using n k(1) unsigned_0 [where ?'a = nat and ?'b = 64] by (auto simp del: of_nat_Suc)
    have pred: "unat ((of_nat ?n :: u64) - 1) = ?n - 1" "unat ((of_nat (Suc k) :: u64) - 1) = k"
      using unat_pred [OF nz(1)] unat_pred [OF nz(2)] n by simp_all
    have v: "valid_trace_id i" "valid_trace_id j" using p nz by (simp_all add: valid_trace_id_def i_def j_def set_producers)
    have "at_slots t p \<noteq> []" using k(1) by auto
    then have "slot_at t i = last (at_slots t p)"
      by (auto simp: slot_at_def Let_def i_def pred last_conv_nth)
    then have "slot_at t i \<noteq> Slot_missing" using assms(2) [unfolded slots_tight_def, THEN spec, of p] k(1) by auto
    then have "i \<in> dom P \<union> X" using assms(1) v(1) by (auto simp: slots_match_def)
    moreover have "ti_sequence j \<le> ti_sequence i" using n k(1) by (simp add: i_def j_def word_le_nat_alt)
    ultimately have "j \<in> dom P \<union> X" using nz(2) gapless_idsD [OF gapless] by (simp add: i_def j_def)
    moreover have "slot_at t j = Slot_missing" using k pred(2) by (simp add: slot_at_def Let_def j_def del: of_nat_Suc)
    ultimately show False using assms(1) v(2) by (auto simp: slots_match_def)
  qed
qed

section \<open>What a run declares\<close>

definition compact_fact :: "string \<Rightarrow> qa_fact \<Rightarrow> pending_fact option" where
  "compact_fact run f =
     (case producer_number (id_producer (ft_id f)) of
        None \<Rightarrow> None
      | Some producer \<Rightarrow>
          map_option (\<lambda>cs. \<lparr>pn_id = \<lparr>ti_producer = producer, ti_sequence = id_sequence (ft_id f)\<rparr>,
                           pn_kind = trace_kind_of (ft_kind f), pn_occurrence = occurrence_of f, pn_causes = cs\<rparr>)
            (compact_causes run (trace_kind_of (ft_kind f)) (ft_causes f)))"

type_synonym declarations = "(trace_id \<rightharpoonup> pending_fact) \<times> trace_id set"

definition declare_fact :: "string \<Rightarrow> declarations \<Rightarrow> qa_fact \<Rightarrow> declarations" where
  "declare_fact run s f =
     (case s of
        (P, X) \<Rightarrow>
          if id_producer (ft_id f) = inspection_producer then
            (if ft_kind f = ''fact_exclusion'' then
               (case read_fact_exclusion f of
                  None \<Rightarrow> s
                | Some x \<Rightarrow>
                    (case producer_number (ex_producer x) of
                       None \<Rightarrow> s
                     | Some p \<Rightarrow> (P, X \<union> {i. in_interval p x i})))
             else s)
          else
            (case compact_fact run f of
               None \<Rightarrow> s
             | Some p \<Rightarrow> (P(pn_id p \<mapsto> p), X)))"

definition declared :: "string \<Rightarrow> qa_fact list \<Rightarrow> declarations" where
  "declared run fs = foldl (declare_fact run) (Map.empty, {}) fs"

definition trace_state :: "declarations \<Rightarrow> fact_trace \<Rightarrow> bool" where
  "trace_state s t \<longleftrightarrow> (case s of (P, X) \<Rightarrow> trace_inv P X [] t \<and> slots_tight t)"

lemma producer_number_valid: "producer_number s = Some p \<Longrightarrow> p \<noteq> 0 \<and> p \<le> producer_slots"
proof -
  assume "producer_number s = Some p"
  then obtain n where n: "n \<noteq> 0" "n \<le> unat producer_slots" "p = of_nat n"
    by (auto simp: producer_number_def split: if_splits option.splits)
  then have "unat p = n" by (simp add: producer_slots_def unat_of_nat_small)
  with n show ?thesis by (auto simp: word_le_nat_alt)
qed

lemma engine_fact_inv:
  assumes "trace_inv P X [] t" and "valid_trace_id (pn_id p)" and "slot_at t (pn_id p) = Slot_missing"
  shows "trace_inv (P(pn_id p \<mapsto> p)) X [p] (set_slot (pn_id p) Slot_unresolved t)"
proof -
  note D = trace_invD [OF assms(1)]
  let ?i = "pn_id p" and ?t = "set_slot (pn_id p) Slot_unresolved t"
  have new: "?i \<notin> dom P \<union> X" using D(2) assms(2,3) by (auto simp: slots_match_def)
  have fresh: "P j = Some q \<Longrightarrow> j \<noteq> ?i" for j q using new by auto
  have slots: "slot_at ?t j = (if ?i = j then Slot_unresolved else slot_at t j)" if "valid_trace_id j" for j
    using slot_at_set_slot [of ?i j Slot_unresolved t] assms(2) that by (simp add: valid_trace_id_def)
  have tokens: "token ?t j = token t j" for j
    using token_set_slot [OF assms(2), of Slot_unresolved t j] assms(2,3)
    by (auto simp: token_of_slot_def token_slot)
  have "declared_well (P(?i \<mapsto> p)) X"
    using D(1) assms(2) new unfolding declared_well_def by auto
  moreover have "slots_match (P(?i \<mapsto> p)) X (fst ` set (at_unresolved ?t) \<union> pn_id ` set [p]) ?t"
    using D(2) new slots by (auto simp: slots_match_def)
  moreover have "\<forall>(j, q) \<in> set (at_unresolved ?t). (P(?i \<mapsto> p)) j = Some q"
    using D(3) fresh by fastforce
  moreover have "distinct (map fst (at_unresolved ?t) @ map pn_id [p])"
    using D(3,5) fresh by fastforce
  moreover have "waits_well ?t" using D(6) by (simp add: waits_well_def waiting_for_def tokens)
  moreover have "P \<subseteq>\<^sub>m P(?i \<mapsto> p)" using new by (auto simp: map_le_def)
  then have "\<forall>j. token ?t j \<noteq> None \<longrightarrow> known (P(?i \<mapsto> p)) X j"
    using D(7) known_mono by (fastforce simp: tokens)
  ultimately show ?thesis by (simp add: trace_inv_def)
qed

lemma consume_engine_state:
  assumes "trace_state (P, X) t" and "consume_engine f t = (t', True)"
  shows "\<exists>p. compact_fact (at_run t) f = Some p \<and> trace_state (P(pn_id p \<mapsto> p), X) t' \<and> at_valid t' \<and> at_run t' = at_run t"
proof -
  from assms(2) obtain producer cs where p: "producer_number (id_producer (ft_id f)) = Some producer"
      "id_sequence (ft_id f) \<noteq> 0" "id_sequence (ft_id f) \<le> max_trace_facts"
      "slot_at t \<lparr>ti_producer = producer, ti_sequence = id_sequence (ft_id f)\<rparr> = Slot_missing"
      "compact_causes (at_run t) (trace_kind_of (ft_kind f)) (ft_causes f) = Some cs"
    by (auto simp: consume_engine_def reject_def Let_def split: option.splits if_splits)
  define i where "i = \<lparr>ti_producer = producer, ti_sequence = id_sequence (ft_id f)\<rparr>"
  define q where "q = \<lparr>pn_id = i, pn_kind = trace_kind_of (ft_kind f), pn_occurrence = occurrence_of f, pn_causes = cs\<rparr>"
  let ?t = "(set_slot i Slot_unresolved t)\<lparr>at_count := at_count t + 1\<rparr>"
  have i: "valid_trace_id (pn_id q)" "slot_at t (pn_id q) = Slot_missing"
    using producer_number_valid [OF p(1)] p(2,4) by (simp_all add: valid_trace_id_def i_def q_def)
  have t': "t' = process ?t [q]" "at_valid t'"
    using assms(2) p by (auto simp: consume_engine_def Let_def i_def q_def reject_def split: if_splits)
  have "trace_inv P X [] t" "slots_tight t" using assms(1) by (simp_all add: trace_state_def)
  have q: "pn_id q = i" by (simp add: q_def)
  have "trace_inv (P(i \<mapsto> q)) X [q] (set_slot i Slot_unresolved t)"
    using engine_fact_inv [OF \<open>trace_inv P X [] t\<close> i] unfolding q .
  then have "trace_inv (P(i \<mapsto> q)) X [q] ?t"
    by (subst trace_inv_cong [where t' = "set_slot i Slot_unresolved t"]) simp_all
  moreover have "slots_tight (set_slot i Slot_unresolved t)"
    using \<open>slots_tight t\<close> p(2,3) by (intro tight_set_slot) (simp_all add: i_def)
  then have "slots_tight ?t" by (simp add: slots_tight_def)
  ultimately have "trace_state (P(i \<mapsto> q), X) t'"
    using process_inv [of _ _ "[q]" ?t] process_tight [of _ _ "[q]" ?t] t' by (auto simp: trace_state_def)
  moreover have "compact_fact (at_run t) f = Some q" using p by (simp add: compact_fact_def q_def i_def)
  moreover have "at_run t' = at_run t" unfolding t'(1) by simp
  ultimately show ?thesis using t'(2) q by auto
qed

section \<open>Exclusions\<close>

lemma exclude_slots_spec:
  assumes "exclude_slots xs ks = (ys, True)" and "distinct ks"
  shows "length ys = length xs \<and> (\<forall>k \<in> set ks. xs ! k = Slot_missing) \<and>
    (\<forall>k < length xs. ys ! k = (if k \<in> set ks then Slot_excluded else xs ! k))"
  using assms
proof (induction xs ks rule: exclude_slots.induct)
  case (2 xs k ks)
  from "2.prems" have "exclude_slots (xs[k := Slot_excluded]) ks = (ys, True)" and k: "xs ! k = Slot_missing" "k \<notin> set ks"
    by (auto split: if_splits)
  with "2.IH" "2.prems" have ih: "length ys = length xs" "\<forall>j \<in> set ks. xs[k := Slot_excluded] ! j = Slot_missing"
      "\<forall>j < length xs. ys ! j = (if j \<in> set ks then Slot_excluded else xs[k := Slot_excluded] ! j)"
    by auto
  have "\<forall>j \<in> set ks. xs ! j = Slot_missing" using ih(2) k(2) by (metis nth_list_update_neq)
  with ih k show ?case by (auto simp: nth_list_update)
qed simp

definition woken_from ::
    "(trace_id \<times> pending_fact) list \<Rightarrow> trace_id set \<Rightarrow> pending_fact list \<Rightarrow>
     (trace_id \<times> pending_fact) list \<times> pending_fact list \<Rightarrow> bool" where
  "woken_from u D ready s \<longleftrightarrow>
     fst s = filter (\<lambda>(i, _). i \<notin> D) u \<and> (\<exists>rs. snd s = ready @ rs \<and> woken_by u D rs)"

lemma woken_from_trans:
  assumes own: "\<forall>(i, p) \<in> set u. pn_id p = i" and first: "woken_from u D ready (u', ready')" and second: "woken_from u' E ready' s"
  shows "woken_from u (D \<union> E) ready s"
proof -
  from first obtain rs where u': "u' = filter (\<lambda>(i, _). i \<notin> D) u" and
    rs: "ready' = ready @ rs" "distinct (map pn_id rs)" "set rs = snd ` {(i, p) \<in> set u. i \<in> D}"
    by (auto simp: woken_from_def woken_by_def)
  from second obtain qs where s: "fst s = filter (\<lambda>(i, _). i \<notin> E) u'" and
    qs: "snd s = ready' @ qs" "distinct (map pn_id qs)" "set qs = snd ` {(i, p) \<in> set u'. i \<in> E}"
    by (auto simp: woken_from_def woken_by_def)
  have each: "pn_id p = i" if "(i, p) \<in> set u" for i p using bspec [OF own that] by simp
  have "pn_id ` set rs \<inter> pn_id ` set qs = {}"
  proof (rule ccontr)
    assume "pn_id ` set rs \<inter> pn_id ` set qs \<noteq> {}"
    then obtain i p j q where "(i, p) \<in> set u" "i \<in> D" "(j, q) \<in> set u" "j \<notin> D" "pn_id p = pn_id q"
      unfolding rs(3) qs(3) u' by auto
    then show False using each [of i p] each [of j q] by simp
  qed
  then have "distinct (map pn_id (rs @ qs))" using rs(2) qs(2) by simp
  moreover have "set (rs @ qs) = snd ` {(i, p) \<in> set u. i \<in> D \<union> E}"
    unfolding set_append rs(3) qs(3) u' by (auto simp: image_iff)
  moreover have "fst s = filter (\<lambda>(i, _). i \<notin> D \<union> E) u"
    unfolding s u' by (auto simp: conj_commute intro: filter_cong)
  ultimately show ?thesis unfolding woken_from_def woken_by_def using rs(1) qs(1) by auto
qed

lemma wake_excluded_spec:
  assumes "distinct (map fst u)" and "\<forall>(i, p) \<in> set u. pn_id p = i"
  shows "woken_from u (\<Union> {set ds | i ds. (i, ds) \<in> set ws \<and> in_interval producer x i}) ready
    (wake_excluded producer x ws (u, ready))"
  using assms
proof (induction ws arbitrary: u ready)
  case Nil
  then show ?case by (simp add: woken_from_def woken_by_def)
next
  case (Cons w ws)
  obtain i ds where w: "w = (i, ds)" by fastforce
  show ?case
  proof (cases "in_interval producer x i")
    case False
    then have "{set es | j es. (j, es) \<in> set (w # ws) \<and> in_interval producer x j} =
        {set es | j es. (j, es) \<in> set ws \<and> in_interval producer x j}" by (auto simp: w)
    with Cons False show ?thesis by (simp add: w)
  next
    case True
    obtain u' r where wk: "wake u ds ready = (u', r)" by fastforce
    have first: "woken_from u (set ds) ready (u', r)"
      using wake_filter [OF Cons.prems wk] by (simp add: woken_from_def woken_by_def)
    then have "distinct (map fst u')" "\<forall>(i, p) \<in> set u'. pn_id p = i"
      using Cons.prems by (auto simp: woken_from_def distinct_map_filter)
    note rest = Cons.IH [OF this, of r]
    have "\<Union> {set es | j es. (j, es) \<in> set (w # ws) \<and> in_interval producer x j} =
        set ds \<union> \<Union> {set es | j es. (j, es) \<in> set ws \<and> in_interval producer x j}"
      using True by (auto simp: w)
    then show ?thesis
      using woken_from_trans [OF Cons.prems(2) first rest] True wk by (simp add: w)
  qed
qed

lemma map_of_filter_keys: "Q c \<Longrightarrow> map_of (filter (\<lambda>(i, _). Q i) w) c = map_of w c"
  by (induction w) auto

lemma interval_index:
  assumes "ex_from x \<noteq> 0" and "ti_sequence i \<noteq> 0" and "ti_producer i = producer"
  shows "in_interval producer x i \<longleftrightarrow> unat (ti_sequence i - 1) \<in> set [unat (ex_from x) - 1..<unat (ex_to x)]"
  using assms unat_pred [OF assms(2)] unat_pred [OF assms(1)]
  by (auto simp: in_interval_def word_le_nat_alt)

text \<open>An exclusion whose sequences were all missing makes them known, and wakes what waited for them.\<close>

lemma exclude_slots_at:
  assumes from_one: "ex_from x \<noteq> 0" and producer: "valid_trace_id \<lparr>ti_producer = producer, ti_sequence = 1\<rparr>"
    and ex: "exclude_slots (grow_slots (unat (ex_to x)) (at_slots t producer)) [unat (ex_from x) - 1..<unat (ex_to x)] = (slots, True)"
    and j: "ti_sequence j \<noteq> 0"
  defines "t1 \<equiv> t\<lparr>at_slots := (at_slots t)(producer := slots)\<rparr>"
  shows "slot_at t1 j = (if in_interval producer x j then Slot_excluded else slot_at t j)"
    and "in_interval producer x j \<Longrightarrow> slot_at t j = Slot_missing"
proof -
  let ?xs = "grow_slots (unat (ex_to x)) (at_slots t producer)" and ?k = "unat (ti_sequence j - 1)"
  note spec = exclude_slots_spec [OF ex distinct_upt]
  have old: "slot_at t j = (if ?k < length ?xs then ?xs ! ?k else Slot_missing)" if "ti_producer j = producer"
    using slot_at_grow [of ?k "unat (ex_to x)" "at_slots t producer"] that by (simp add: slot_at_def Let_def)
  have inside: "?k < length ?xs" "?xs ! ?k = Slot_missing" if "in_interval producer x j"
    using that interval_index [OF from_one j, of producer] spec by (auto simp: in_interval_def length_grow_slots)
  show "slot_at t j = Slot_missing" if "in_interval producer x j"
    using that inside [OF that] old by (simp add: in_interval_def)
  show "slot_at t1 j = (if in_interval producer x j then Slot_excluded else slot_at t j)"
  proof (cases "ti_producer j = producer")
    case True
    then have "slot_at t1 j = (if ?k < length ?xs then slots ! ?k else Slot_missing)"
      using spec by (simp add: slot_at_def t1_def Let_def)
    with True old [OF True] spec interval_index [OF from_one j True] inside show ?thesis by auto
  qed (simp add: slot_at_def t1_def in_interval_def)
qed

definition permutes_table :: "table_walk \<Rightarrow> bool" where
  "permutes_table walk \<longleftrightarrow> (\<forall>ws. set (walk ws) = set ws)"

lemma exclusion_inv:
  assumes inv: "trace_inv P X [] t" and walk: "permutes_table walk" and from_one: "ex_from x \<noteq> 0"
    and producer: "producer_number (ex_producer x) = Some producer"
    and ex: "exclude_slots (grow_slots (unat (ex_to x)) (at_slots t producer)) [unat (ex_from x) - 1..<unat (ex_to x)] = (slots, True)"
    and wake: "wake_excluded producer x (walk (at_waiting t)) (at_unresolved t, []) = (u, ready)"
  defines "I \<equiv> {i. in_interval producer x i}"
  defines "t2 \<equiv> t\<lparr>at_slots := (at_slots t)(producer := slots), at_unresolved := u,
    at_waiting := filter (\<lambda>(i, _). \<not> in_interval producer x i) (at_waiting t)\<rparr>"
  shows "trace_inv P (X \<union> I) ready t2"
proof -
  note D = trace_invD [OF inv]
  have vp: "valid_trace_id \<lparr>ti_producer = producer, ti_sequence = 1\<rparr>"
    using producer_number_valid [OF producer] by (simp add: valid_trace_id_def)
  have vi: "valid_trace_id i" if "i \<in> I" for i
    using that from_one producer_number_valid [OF producer] by (auto simp: I_def in_interval_def valid_trace_id_def)
  note slots_at = exclude_slots_at [OF from_one vp ex]
  have slots: "slot_at t2 j = (if j \<in> I then Slot_excluded else slot_at t j)" if "valid_trace_id j" for j
    using slots_at(1) [of j] that by (simp add: t2_def I_def slot_at_def valid_trace_id_def)
  have free: "slot_at t j = Slot_missing" if "j \<in> I" for j
    using slots_at(2) [of j] vi [OF that] that by (simp add: I_def valid_trace_id_def)
  have tokens: "token t2 j = (if j \<in> I then Some 0 else token t j)" for j
    using slots [of j] vi [of j] by (auto simp: token_slot token_of_slot_def)
  have new: "I \<inter> (dom P \<union> X) = {}" using D(2) free vi by (auto simp: slots_match_def)
  have each: "pn_id q = i" if "(i, q) \<in> set (at_unresolved t)" for i q
    using declared_wellD [OF D(1) D(3) [OF that]] by simp
  then have own: "\<forall>(i, q) \<in> set (at_unresolved t). pn_id q = i" by auto
  have keys: "distinct (map fst (at_unresolved t))" using D(5) by simp
  define W where "W = \<Union> {set ds | i ds. (i, ds) \<in> set (at_waiting t) \<and> in_interval producer x i}"
  have "woken_from (at_unresolved t) W [] (u, ready)"
    using wake_excluded_spec [OF keys own, of "walk (at_waiting t)" producer x "[]"] walk
    by (simp add: wake W_def permutes_table_def)
  then have u: "u = filter (\<lambda>(i, _). i \<notin> W) (at_unresolved t)" and
    rs: "distinct (map pn_id ready)" "set ready = snd ` {(i, p) \<in> set (at_unresolved t). i \<in> W}"
    by (auto simp: woken_from_def woken_by_def)
  have waits: "waiting_for t c \<subseteq> W" if "c \<in> I" for c
    using that by (auto simp: waiting_for_def W_def I_def dest!: map_of_SomeD split: option.splits)
  have others: "waiting_for t2 c = waiting_for t c" if "c \<notin> I" for c
    using that map_of_filter_keys [where Q = "\<lambda>i. \<not> in_interval producer x i" and c = c and w = "at_waiting t"]
    by (simp add: waiting_for_def t2_def I_def)
  have ids: "pn_id ` set ready = {i \<in> fst ` set (at_unresolved t). i \<in> W}"
    using own unfolding rs(2) by (force simp: image_iff)
  have open_ids: "fst ` set (at_unresolved t2) \<union> pn_id ` set ready = fst ` set (at_unresolved t)"
    unfolding ids by (auto simp: t2_def u)
  have "declared_well P (X \<union> I)" using D(1) vi new unfolding declared_well_def by blast
  moreover have "slots_match P (X \<union> I) (fst ` set (at_unresolved t2) \<union> pn_id ` set ready) t2"
    unfolding open_ids slots_match_def
  proof (intro allI impI)
    fix j assume j: "valid_trace_id j"
    have "j \<in> I \<Longrightarrow> j \<notin> fst ` set (at_unresolved t)"
      using D(2) free j by (force simp: slots_match_def)
    then show "(slot_at t2 j = Slot_missing) = (j \<notin> dom P \<union> (X \<union> I)) \<and> (slot_at t2 j = Slot_excluded) = (j \<in> X \<union> I) \<and>
        (slot_at t2 j = Slot_unresolved) = (j \<in> fst ` set (at_unresolved t))"
      using D(2) j slots [OF j] new by (auto simp: slots_match_def)
  qed
  moreover have "\<forall>(j, q) \<in> set (at_unresolved t2). P j = Some q" using D(3) by (auto simp: t2_def u)
  moreover have "\<forall>q \<in> set ready. P (pn_id q) = Some q"
    using D(3) each unfolding rs(2) by auto
  moreover have "distinct (map fst (at_unresolved t2) @ map pn_id ready)"
  proof -
    have "distinct (map fst (at_unresolved t2))" using keys by (simp add: t2_def u distinct_map_filter)
    moreover have "fst ` set (at_unresolved t2) \<inter> pn_id ` set ready = {}" unfolding ids by (auto simp: t2_def u)
    ultimately show ?thesis using rs(1) by simp
  qed
  moreover have "waits_well t2"
  proof -
    have "(\<exists>c \<in> set (pn_causes q). token t2 c = None) \<and>
        (\<forall>c \<in> set (pn_causes q). token t2 c = None \<longrightarrow> j \<in> waiting_for t2 c)"
      if "(j, q) \<in> set (at_unresolved t2)" for j q
    proof -
      have jq: "(j, q) \<in> set (at_unresolved t)" "j \<notin> W" using that by (auto simp: t2_def u)
      have other: "c \<notin> I" if "c \<in> set (pn_causes q)" for c
      proof
        assume c: "c \<in> I"
        then have "token t c = None" using free vi by (simp add: token_slot token_of_slot_def)
        with jq(1) D(6) that have "j \<in> waiting_for t c" by (auto simp: waits_well_def)
        with waits [OF c] jq(2) show False by blast
      qed
      then have "token t2 c = token t c \<and> waiting_for t2 c = waiting_for t c" if "c \<in> set (pn_causes q)" for c
        using that tokens others by auto
      with jq D(6) show ?thesis by (auto simp: waits_well_def)
    qed
    then show ?thesis unfolding waits_well_def by blast
  qed
  moreover have "\<forall>j. token t2 j \<noteq> None \<longrightarrow> known P (X \<union> I) j"
    using D(7) known_mono [of P X _ P "X \<union> I"] by (auto simp: tokens intro: known.known_excluded)
  ultimately show ?thesis by (simp add: trace_inv_def)
qed

lemma read_exclusion_from: "read_fact_exclusion f = Some x \<Longrightarrow> ex_from x \<noteq> 0 \<and> ex_from x \<le> ex_to x"
  by (auto simp: read_fact_exclusion_def split: if_splits option.splits)

lemma tight_exclude:
  assumes "slots_tight t" and "exclude_slots (grow_slots (unat (ex_to x)) (at_slots t producer)) [unat (ex_from x) - 1..<unat (ex_to x)] = (slots, True)"
    and "ex_from x \<noteq> 0" and "ex_from x \<le> ex_to x" and "ex_to x \<le> max_trace_facts"
  shows "slots_tight (t\<lparr>at_slots := (at_slots t)(producer := slots)\<rparr>)"
proof -
  note cells = exclude_slots_spec [OF assms(2) distinct_upt]
  have n: "0 < unat (ex_from x)" "unat (ex_from x) \<le> unat (ex_to x)"
    using assms(3,4) by (simp_all add: unat_gt_0 word_le_nat_alt)
  then have size_s: "length slots = max (length (at_slots t producer)) (unat (ex_to x))" "slots \<noteq> []"
    using cells by (auto simp: length_grow_slots)
  have tight: "length (at_slots t producer) \<le> unat max_trace_facts"
      "at_slots t producer = [] \<or> last (at_slots t producer) \<noteq> Slot_missing"
    using assms(1) [unfolded slots_tight_def, THEN spec, of producer] by auto
  have "last slots \<noteq> Slot_missing"
  proof (cases "length (at_slots t producer) \<le> unat (ex_to x)")
    case True
    then have "last slots = slots ! (unat (ex_to x) - 1)" using size_s by (simp add: last_conv_nth)
    also have "\<dots> = Slot_excluded" using cells n size_s True by (auto simp: length_grow_slots)
    finally show ?thesis by simp
  next
    case False
    then have "last slots = slots ! (length (at_slots t producer) - 1)" using size_s by (simp add: last_conv_nth)
    also have "\<dots> = grow_slots (unat (ex_to x)) (at_slots t producer) ! (length (at_slots t producer) - 1)"
      using cells False by (auto simp: length_grow_slots)
    also have "\<dots> = last (at_slots t producer)"
      using False by (subst last_conv_nth) (auto simp: grow_slots_def nth_append)
    finally show ?thesis using tight(2) False by auto
  qed
  moreover have "length slots \<le> unat max_trace_facts" using size_s(1) tight(1) assms(5) by (simp add: word_le_nat_alt)
  ultimately show ?thesis using assms(1) by (auto simp: slots_tight_def)
qed

lemma exclude_state:
  assumes "trace_state (P, X) t" and "permutes_table walk" and "ex_from x \<noteq> 0" and "ex_from x \<le> ex_to x"
    and "at_valid (exclude walk x t)"
  shows "\<exists>producer. producer_number (ex_producer x) = Some producer \<and>
    trace_state (P, X \<union> {i. in_interval producer x i}) (exclude walk x t) \<and> at_run (exclude walk x t) = at_run t"
proof -
  from assms(5) obtain producer where producer: "producer_number (ex_producer x) = Some producer"
    and small: "ex_to x \<le> max_trace_facts"
    by (auto simp: exclude_def split: option.splits if_splits)
  obtain slots free where ex: "exclude_slots (grow_slots (unat (ex_to x)) (at_slots t producer))
      [unat (ex_from x) - 1..<unat (ex_to x)] = (slots, free)" by fastforce
  have free: "free" using assms(5) producer small ex by (auto simp: exclude_def Let_def split: if_splits)
  note ex = ex [unfolded eq_True [THEN iffD2, OF free]]
  obtain u ready where wk: "wake_excluded producer x (walk (at_waiting t)) (at_unresolved t, []) = (u, ready)"
    by fastforce
  define t2 where "t2 = t\<lparr>at_slots := (at_slots t)(producer := slots), at_unresolved := u,
    at_waiting := filter (\<lambda>(i, _). \<not> in_interval producer x i) (at_waiting t)\<rparr>"
  have run: "exclude walk x t = process t2 ready"
    using producer small ex wk by (simp add: exclude_def Let_def t2_def not_less)
  have "trace_inv P (X \<union> {i. in_interval producer x i}) ready t2"
    unfolding t2_def using assms(1)
    by (intro exclusion_inv [OF _ assms(2,3) producer ex wk]) (simp add: trace_state_def)
  moreover have "slots_tight t2"
    using tight_exclude [OF _ ex assms(3,4) small] assms(1) by (simp add: trace_state_def slots_tight_def t2_def)
  ultimately have "trace_state (P, X \<union> {i. in_interval producer x i}) (process t2 ready)"
    using process_inv [of _ _ ready t2] process_tight [of _ _ ready t2] assms(5)
    by (auto simp: trace_state_def run)
  then show ?thesis using producer by (simp add: run) (simp add: t2_def)
qed

lemma trace_state_cong:
  assumes "at_slots t = at_slots t'" and "at_unresolved t = at_unresolved t'" and "at_waiting t = at_waiting t'"
  shows "trace_state s t = trace_state s t'"
  using trace_inv_cong [OF assms] tight_cong [OF assms(1)] by (simp add: trace_state_def split: prod.splits)

lemma consume_state:
  assumes state: "trace_state s t" and walk: "permutes_table walk" and ok: "consume walk f t = (t', True)"
  shows "trace_state (declare_fact (at_run t) s f) t' \<and> at_valid t' \<and> at_run t' = at_run t"
proof -
  obtain P X where s: "s = (P, X)" by fastforce
  have valid: "at_valid t" using ok by (auto simp: consume_def split: if_splits)
  show ?thesis
  proof (cases "id_producer (ft_id f) = inspection_producer")
    case False
    then have "consume_engine f t = (t', True)" using ok valid by (simp add: consume_def)
    from consume_engine_state [OF state [unfolded s] this] False show ?thesis
      by (auto simp: declare_fact_def s)
  next
    case True
    then have c: "consume_inspection walk f t = (t', True)" using ok valid by (simp add: consume_def)
    show ?thesis
    proof (cases "ft_kind f = ''fact_exclusion''")
      case False
      then have "at_slots t' = at_slots t \<and> at_unresolved t' = at_unresolved t \<and> at_waiting t' = at_waiting t \<and>
          at_valid t' = at_valid t \<and> at_run t' = at_run t"
        using c by (auto simp: consume_inspection_def reject_def split: if_splits option.splits)
      with False True state valid trace_state_cong [of t' t s] show ?thesis
        by (simp add: declare_fact_def s)
    next
      case excl: True
      then obtain x where x: "read_fact_exclusion f = Some x"
          "t' = exclude walk x (t\<lparr>at_count := at_count t + 1\<rparr>)" "at_valid t'"
        using c by (auto simp: consume_inspection_def reject_def Let_def split: if_splits option.splits)
      have "trace_state (P, X) (t\<lparr>at_count := at_count t + 1\<rparr>)"
        using state trace_state_cong [of "t\<lparr>at_count := at_count t + 1\<rparr>" t s] by (simp add: s)
      from exclude_state [OF this walk, of x] read_exclusion_from [OF x(1)] x(2,3) obtain producer where
        "producer_number (ex_producer x) = Some producer"
        "trace_state (P, X \<union> {i. in_interval producer x i}) t'" "at_run t' = at_run t" by auto
      with True excl x show ?thesis by (simp add: declare_fact_def s)
    qed
  qed
qed

lemma consume_all_state:
  "trace_state s t \<Longrightarrow> permutes_table walk \<Longrightarrow> at_valid t \<Longrightarrow> consume_all walk fs t = (t', True) \<Longrightarrow>
     trace_state (foldl (declare_fact (at_run t)) s fs) t' \<and> at_valid t' \<and> at_run t' = at_run t"
proof (induction fs arbitrary: s t)
  case (Cons f fs)
  then obtain t1 where t1: "consume walk f t = (t1, True)" "consume_all walk fs t1 = (t', True)"
    by (auto split: prod.splits if_splits)
  note first = consume_state [OF Cons.prems(1,2) t1(1)]
  then have "trace_state (declare_fact (at_run t) s f) t1" "at_valid t1" "at_run t1 = at_run t" by simp_all
  with Cons.IH [OF this(1) Cons.prems(2) this(2) t1(2)] show ?case by simp
qed simp

lemma empty_trace_state: "trace_state (Map.empty, {}) (make_trace run)"
  by (auto simp: trace_state_def trace_inv_def declared_well_def slots_match_def slots_tight_def waits_well_def
      make_trace_def slot_at_def token_slot token_of_slot_def)

definition evidence_closed :: "string \<Rightarrow> qa_fact list \<Rightarrow> bool" where
  "evidence_closed run fs \<longleftrightarrow>
     (case declared run fs of
        (P, X) \<Rightarrow> gapless_ids (dom P \<union> X) \<and> (\<forall>i \<in> dom P. known P X i))"

text \<open>
  C13: The trace of a run is complete exactly when its evidence is closed. Once every fact was accepted, in
  whatever order they came, the trace is free of loss exactly when the transport was, no
  sequence of a producer is missing between the first and the last one declared or excluded, and
  every fact has a history: its causes are excluded, or facts whose own causes have one. A cause that
  never came, or a circle of causes, is a loss, and nothing else is.
\<close>

theorem trace_loss_free_exact:
  assumes "permutes_table walk" and "consume_all walk fs (make_trace run) = (t, True)" and "fs \<noteq> []"
  shows "sm_loss_free (summarize_trace transport t) \<longleftrightarrow> transport \<and> evidence_closed run fs"
proof -
  have "at_valid (make_trace run)"
    using assms(2,3) by (cases fs) (auto simp: consume_def split: if_splits)
  from consume_all_state [OF empty_trace_state assms(1) this assms(2)]
  have state: "trace_state (declared run fs) t" "at_valid t"
    by (simp_all add: declared_def) (simp add: make_trace_def)
  obtain P X where d: "declared run fs = (P, X)" by fastforce
  have inv: "trace_inv P X [] t" "slots_tight t" using state(1) by (simp_all add: trace_state_def d)
  note D = trace_invD [OF inv(1)]
  have "\<forall>i \<in> dom P \<union> X. valid_trace_id i" using D(1) by (simp add: declared_well_def)
  from no_missing_iff [OF D(2) inv(2) this] nothing_waits_iff [OF inv(1)] state(2) show ?thesis
    by (auto simp: summarize_trace_def Let_def evidence_closed_def d)
qed

section \<open>Paths of chains\<close>

definition parents_down :: "chain list \<Rightarrow> bool" where
  "parents_down cs \<longleftrightarrow> (\<forall>v. 0 < v \<longrightarrow> v < length cs \<longrightarrow> cn_parent (cs ! v) < v)"

lemma chain_path_fuel:
  assumes "parents_down cs"
  shows "v \<le> n \<Longrightarrow> v \<le> m \<Longrightarrow> chain_path cs n v = chain_path cs m v"
proof (induction v arbitrary: n m rule: less_induct)
  case (less v)
  show ?case
  proof (cases "v = 0 \<or> length cs \<le> v")
    case True
    then show ?thesis by (cases n; cases m) auto
  next
    case False
    then obtain n' m' where "n = Suc n'" "m = Suc m'" using less.prems by (cases n; cases m) auto
    moreover have "cn_parent (cs ! v) < v" using assms False by (simp add: parents_down_def)
    ultimately show ?thesis using less False by simp
  qed
qed

lemma ancestry_zero [simp]: "ancestry cs 0 = []"
  by (cases "length cs") (simp_all add: ancestry_def)

lemma ancestry_step:
  assumes "parents_down cs" and "0 < v" and "v < length cs"
  shows "ancestry cs v = v # ancestry cs (cn_parent (cs ! v))"
proof -
  obtain n where n: "length cs = Suc n" using assms(3) by (cases "length cs") auto
  have "cn_parent (cs ! v) < v" using assms by (simp add: parents_down_def)
  then have "chain_path cs n (cn_parent (cs ! v)) = chain_path cs (Suc n) (cn_parent (cs ! v))"
    using assms(3) n by (intro chain_path_fuel [OF assms(1)]) simp_all
  then show ?thesis using assms n by (simp add: ancestry_def)
qed

lemma ancestry_within: "w \<in> set (ancestry cs v) \<Longrightarrow> 0 < w \<and> w < length cs"
proof -
  have "w \<in> set (chain_path cs n v) \<Longrightarrow> 0 < w \<and> w < length cs" for n
    by (induction cs n v rule: chain_path.induct) (auto split: if_splits)
  then show "w \<in> set (ancestry cs v) \<Longrightarrow> 0 < w \<and> w < length cs" by (simp add: ancestry_def)
qed

lemma ancestry_append:
  assumes "parents_down (cs @ [c])" and "v < length cs"
  shows "ancestry (cs @ [c]) v = ancestry cs v"
proof -
  have down: "parents_down cs"
    unfolding parents_down_def
  proof (intro allI impI)
    fix v assume "0 < v" "v < length cs"
    then show "cn_parent (cs ! v) < v"
      using assms(1) [unfolded parents_down_def, rule_format, of v] by (simp add: nth_append)
  qed
  show ?thesis using assms(2)
  proof (induction v rule: less_induct)
    case (less v)
    show ?case
    proof (cases "v = 0")
      case False
      have p: "cn_parent (cs ! v) < v" using down less.prems False by (simp add: parents_down_def)
      have "ancestry (cs @ [c]) v = v # ancestry (cs @ [c]) (cn_parent ((cs @ [c]) ! v))"
        using less.prems False by (intro ancestry_step [OF assms(1)]) simp_all
      also have "\<dots> = v # ancestry cs (cn_parent (cs ! v))" using less p by (simp add: nth_append)
      also have "\<dots> = ancestry cs v" using less.prems False by (simp add: ancestry_step [OF down])
      finally show ?thesis .
    qed simp
  qed
qed

lemma ancestry_suffix:
  assumes "parents_down cs"
  shows "w \<in> set (ancestry cs v) \<Longrightarrow> \<exists>pre. ancestry cs v = pre @ ancestry cs w"
proof (induction v rule: less_induct)
  case (less v)
  have v: "0 < v" "v < length cs"
    using less.prems by (cases v; auto simp: ancestry_def intro: ccontr; cases "length cs"; auto)+
  note step = ancestry_step [OF assms v]
  show ?case
  proof (cases "w = v")
    case True
    then show ?thesis by simp
  next
    case False
    then have "w \<in> set (ancestry cs (cn_parent (cs ! v)))" using less.prems by (simp add: step)
    moreover have "cn_parent (cs ! v) < v" using assms v by (simp add: parents_down_def)
    ultimately obtain pre where "ancestry cs (cn_parent (cs ! v)) = pre @ ancestry cs w" using less.IH by blast
    then show ?thesis unfolding step by (intro exI [of _ "v # pre"]) simp
  qed
qed

lemma ancestry_trans:
  "parents_down cs \<Longrightarrow> w \<in> set (ancestry cs v) \<Longrightarrow> set (ancestry cs w) \<subseteq> set (ancestry cs v)"
  using ancestry_suffix [of cs w v] by auto

lemma request_ancestor_above:
  "request_ancestor cs v \<noteq> 0 \<Longrightarrow>
     request_ancestor cs v \<in> set (ancestry cs v) \<and> cn_stage (cs ! request_ancestor cs v) = Stage_request"
  by (auto simp: request_ancestor_def dest: find_SomeD split: option.splits)

section \<open>Chains and causes\<close>

definition caused_by :: "(trace_id \<rightharpoonup> pending_fact) \<Rightarrow> trace_id \<Rightarrow> trace_id \<Rightarrow> bool" where
  "caused_by P i c \<longleftrightarrow> (\<exists>p. P i = Some p \<and> c \<in> set (pn_causes p))"

definition ancestor_of :: "(trace_id \<rightharpoonup> pending_fact) \<Rightarrow> trace_id \<Rightarrow> trace_id \<Rightarrow> bool" where
  "ancestor_of P c i \<longleftrightarrow> (caused_by P)\<^sup>*\<^sup>* i c"

lemma ancestor_refl [simp]: "ancestor_of P i i"
  by (simp add: ancestor_of_def)

lemma ancestor_trans: "ancestor_of P a b \<Longrightarrow> ancestor_of P b c \<Longrightarrow> ancestor_of P a c"
  unfolding ancestor_of_def by (rule rtranclp_trans)

lemma ancestor_cause: "P i = Some p \<Longrightarrow> c \<in> set (pn_causes p) \<Longrightarrow> ancestor_of P a c \<Longrightarrow> ancestor_of P a i"
  unfolding ancestor_of_def caused_by_def by (rule converse_rtranclp_into_rtranclp) auto

lemma ancestor_mono: "ancestor_of P c i \<Longrightarrow> P \<subseteq>\<^sub>m Q \<Longrightarrow> ancestor_of Q c i"
  unfolding ancestor_of_def
proof (induction rule: rtranclp_induct)
  case (step b c)
  then have "caused_by Q b c" unfolding caused_by_def map_le_def by (metis domI)
  with step show ?case by (auto intro: rtranclp.rtrancl_into_rtrancl)
qed simp

fun stage_of_kind :: "trace_kind \<Rightarrow> trace_stage" where
  "stage_of_kind Kind_ingress = Stage_ingress"
| "stage_of_kind Kind_candidate = Stage_candidate"
| "stage_of_kind Kind_selection = Stage_selection"
| "stage_of_kind Kind_request = Stage_request"
| "stage_of_kind Kind_decision = Stage_decision"
| "stage_of_kind Kind_effect = Stage_effect"
| "stage_of_kind Kind_mix = Stage_mix"
| "stage_of_kind Kind_output_span = Stage_none"
| "stage_of_kind Kind_other = Stage_none"

text \<open>The least stage of the best cause of a fact that adds a stage.\<close>

fun required_rank :: "trace_stage \<Rightarrow> nat" where
  "required_rank Stage_none = 0"
| "required_rank Stage_ingress = 0"
| "required_rank Stage_candidate = 1"
| "required_rank Stage_selection = 2"
| "required_rank Stage_request = 3"
| "required_rank Stage_decision = 4"
| "required_rank Stage_effect = 5"
| "required_rank Stage_mix = 4"

definition chain_well :: "(trace_id \<rightharpoonup> pending_fact) \<Rightarrow> chain list \<Rightarrow> nat \<Rightarrow> bool" where
  "chain_well P cs v \<longleftrightarrow>
     (let c = cs ! v; q = cn_parent c
      in q < v \<and> cn_stage c \<noteq> Stage_none \<and>
         (\<exists>p. P (cn_id c) = Some p \<and> stage_of_kind (pn_kind p) = cn_stage c \<and>
            (cn_stage c = Stage_request \<longrightarrow> cn_occurrence c \<noteq> 0 \<and> pn_occurrence p = cn_occurrence c)) \<and>
         (if cn_stage c = Stage_ingress then q = 0
          else q \<noteq> 0 \<and> required_rank (cn_stage c) \<le> stage_rank (cn_stage (cs ! q)) \<and>
            ancestor_of P (cn_id (cs ! q)) (cn_id c)) \<and>
         (cn_request c \<noteq> 0 \<longrightarrow>
            cn_request c \<in> set (ancestry cs v) \<and> cn_stage (cs ! cn_request c) = Stage_request))"

definition chains_well :: "(trace_id \<rightharpoonup> pending_fact) \<Rightarrow> chain list \<Rightarrow> bool" where
  "chains_well P cs \<longleftrightarrow>
     cs \<noteq> [] \<and> cs ! 0 = first_chain \<and> (\<forall>v. 0 < v \<longrightarrow> v < length cs \<longrightarrow> chain_well P cs v)"

lemma chains_wellD:
  assumes "chains_well P cs" and "0 < v" and "v < length cs"
  shows "chain_well P cs v"
  using assms by (simp add: chains_well_def)

lemma chains_down: "chains_well P cs \<Longrightarrow> parents_down cs"
  by (simp add: chains_well_def parents_down_def chain_well_def Let_def)

lemma chain_well_mono:
  assumes "chain_well P cs v" and le: "P \<subseteq>\<^sub>m Q"
  shows "chain_well Q cs v"
proof -
  let ?c = "cs ! v"
  from assms(1) obtain p where p: "P (cn_id ?c) = Some p" "stage_of_kind (pn_kind p) = cn_stage ?c"
      "cn_stage ?c = Stage_request \<longrightarrow> cn_occurrence ?c \<noteq> 0 \<and> pn_occurrence p = cn_occurrence ?c"
    unfolding chain_well_def Let_def by blast
  have "Q (cn_id ?c) = Some p" using p(1) le by (metis domI map_le_def)
  moreover have "ancestor_of P (cn_id (cs ! cn_parent ?c)) (cn_id ?c) \<Longrightarrow>
      ancestor_of Q (cn_id (cs ! cn_parent ?c)) (cn_id ?c)"
    by (rule ancestor_mono [OF _ le])
  ultimately show ?thesis
    using assms(1) p(2,3) unfolding chain_well_def Let_def by (simp split: if_splits)
qed

lemma chains_well_mono: "chains_well P cs \<Longrightarrow> P \<subseteq>\<^sub>m Q \<Longrightarrow> chains_well Q cs"
  using chain_well_mono [of P cs _ Q] by (simp add: chains_well_def)

lemma ancestry_causes:
  assumes "chains_well P cs"
  shows "w \<in> set (ancestry cs v) \<Longrightarrow> v < length cs \<Longrightarrow> ancestor_of P (cn_id (cs ! w)) (cn_id (cs ! v))"
proof (induction v rule: less_induct)
  case (less v)
  have v: "0 < v" using less.prems by (cases v) auto
  note step = ancestry_step [OF chains_down [OF assms] v less.prems(2)]
  have well: "chain_well P cs v" using assms v less.prems(2) by (rule chains_wellD)
  show ?case
  proof (cases "w = v")
    case False
    let ?q = "cn_parent (cs ! v)"
    have w: "w \<in> set (ancestry cs ?q)" using less.prems False by (simp add: step)
    then have "?q \<noteq> 0" by (intro notI) simp
    with well have "?q < v" "ancestor_of P (cn_id (cs ! ?q)) (cn_id (cs ! v))"
      by (auto simp: chain_well_def Let_def split: if_splits)
    with less.IH [of ?q] w less.prems(2) show ?thesis by (auto intro: ancestor_trans)
  qed simp
qed

section \<open>A connected trace is a chain of causes\<close>

text \<open>The last chain of a stage on a path, towards the root.\<close>

definition of_stage :: "chain list \<Rightarrow> trace_stage \<Rightarrow> nat list \<Rightarrow> nat list" where
  "of_stage cs s vs = filter (\<lambda>v. cn_stage (cs ! v) = s) vs"

definition root_of_stage :: "chain list \<Rightarrow> trace_stage \<Rightarrow> nat \<Rightarrow> nat" where
  "root_of_stage cs s v = last (of_stage cs s (ancestry cs v))"

lemma stage_above:
  assumes "chains_well P cs" and "s \<in> {Stage_ingress, Stage_candidate, Stage_selection, Stage_request}"
  shows "0 < v \<Longrightarrow> v < length cs \<Longrightarrow> stage_rank s \<le> stage_rank (cn_stage (cs ! v)) \<Longrightarrow>
    \<exists>w \<in> set (ancestry cs v). cn_stage (cs ! w) = s"
proof (induction v rule: less_induct)
  case (less v)
  let ?c = "cs ! v" and ?q = "cn_parent (cs ! v)"
  note step = ancestry_step [OF chains_down [OF assms(1)] less.prems(1,2)]
  have well: "chain_well P cs v" using assms(1) less.prems(1,2) by (rule chains_wellD)
  show ?case
  proof (cases "cn_stage ?c = s")
    case True
    then show ?thesis by (simp add: step)
  next
    case False
    have "cn_stage ?c \<noteq> Stage_ingress"
      using False less.prems(3) assms(2) by auto
    with well have q: "0 < ?q" "?q < v" "required_rank (cn_stage ?c) \<le> stage_rank (cn_stage (cs ! ?q))"
      by (auto simp: chain_well_def Let_def)
    have "stage_rank s \<le> required_rank (cn_stage ?c)"
      using False less.prems(3) assms(2) by (cases "cn_stage ?c") auto
    with q less.prems(2) less.IH [of ?q] obtain w where "w \<in> set (ancestry cs ?q)" "cn_stage (cs ! w) = s"
      by auto
    then show ?thesis by (auto simp: step)
  qed
qed

lemma root_above:
  assumes well: "chains_well P cs" and s: "s \<in> {Stage_ingress, Stage_candidate, Stage_selection, Stage_request}"
    and v: "v \<in> set (ancestry cs e)" "stage_rank s \<le> stage_rank (cn_stage (cs ! v))"
  shows "root_of_stage cs s e \<in> set (ancestry cs v) \<and> cn_stage (cs ! root_of_stage cs s e) = s"
proof -
  have inside: "0 < v" "v < length cs" using ancestry_within [OF v(1)] by simp_all
  obtain w where w: "w \<in> set (ancestry cs v)" "cn_stage (cs ! w) = s"
    using stage_above [OF well s inside v(2)] by blast
  obtain pre where "ancestry cs e = pre @ ancestry cs v"
    using ancestry_suffix [OF chains_down [OF well] v(1)] by blast
  moreover have "of_stage cs s (ancestry cs v) \<noteq> []" using w by (auto simp: of_stage_def filter_empty_conv)
  ultimately have "root_of_stage cs s e = last (of_stage cs s (ancestry cs v))"
    by (simp add: root_of_stage_def of_stage_def)
  moreover have "last (of_stage cs s (ancestry cs v)) \<in> set (of_stage cs s (ancestry cs v))"
    using \<open>of_stage cs s (ancestry cs v) \<noteq> []\<close> by (rule last_in_set)
  ultimately show ?thesis by (simp add: of_stage_def)
qed

lemma root_on_path:
  assumes "of_stage cs s (ancestry cs e) \<noteq> []"
  shows "root_of_stage cs s e \<in> set (ancestry cs e) \<and> cn_stage (cs ! root_of_stage cs s e) = s"
  using last_in_set [OF assms] by (simp add: root_of_stage_def of_stage_def)

lemma note_chain_stage:
  "sm_ingress (note_chain t c) = (if cn_stage c = Stage_ingress then cn_id c else sm_ingress t)"
  "sm_candidate (note_chain t c) = (if cn_stage c = Stage_candidate then cn_id c else sm_candidate t)"
  "sm_selection (note_chain t c) = (if cn_stage c = Stage_selection then cn_id c else sm_selection t)"
  "sm_request (note_chain t c) = (if cn_stage c = Stage_request then cn_id c else sm_request t)"
  "sm_decision (note_chain t c) = (if cn_stage c = Stage_decision then cn_id c else sm_decision t)"
  "sm_effect (note_chain t c) = (if cn_stage c = Stage_effect then cn_id c else sm_effect t)"
  "sm_occurrence (note_chain t c) = (if cn_stage c = Stage_request then cn_occurrence c else sm_occurrence t)"
  "sm_connected (note_chain t c) = sm_connected t"
  by (simp_all add: note_chain_def split: trace_stage.split)

lemma last_snoc_case: "(case ys @ [y] of [] \<Rightarrow> old | c # cs' \<Rightarrow> f (last (c # cs'))) = f y"
  by (cases ys) simp_all

lemma noted:
  defines "last_id \<equiv> \<lambda>s old xs. (case filter (\<lambda>c. cn_stage c = s) xs of [] \<Rightarrow> old | c # cs' \<Rightarrow> cn_id (last (c # cs')))"
  shows "sm_ingress (foldl note_chain s xs) = last_id Stage_ingress (sm_ingress s) xs"
    and "sm_candidate (foldl note_chain s xs) = last_id Stage_candidate (sm_candidate s) xs"
    and "sm_selection (foldl note_chain s xs) = last_id Stage_selection (sm_selection s) xs"
    and "sm_request (foldl note_chain s xs) = last_id Stage_request (sm_request s) xs"
    and "sm_decision (foldl note_chain s xs) = last_id Stage_decision (sm_decision s) xs"
    and "sm_effect (foldl note_chain s xs) = last_id Stage_effect (sm_effect s) xs"
    and "sm_occurrence (foldl note_chain s xs) =
      (case filter (\<lambda>c. cn_stage c = Stage_request) xs of [] \<Rightarrow> sm_occurrence s | c # cs' \<Rightarrow> cn_occurrence (last (c # cs')))"
    and "sm_connected (foldl note_chain s xs) = sm_connected s"
  unfolding last_id_def
by (induction xs rule: rev_induct) (simp_all add: note_chain_stage last_snoc_case)

lemma noted_path:
  assumes "of_stage cs s vs \<noteq> []"
  shows "(case filter (\<lambda>c. cn_stage c = s) (map (\<lambda>v. cs ! v) vs) of [] \<Rightarrow> old | c # cs' \<Rightarrow> f (last (c # cs'))) =
    f (cs ! last (of_stage cs s vs))"
proof -
  have "filter (\<lambda>c. cn_stage c = s) (map (\<lambda>v. cs ! v) vs) = map (\<lambda>v. cs ! v) (of_stage cs s vs)"
    by (simp add: of_stage_def filter_map comp_def)
  with assms show ?thesis by (cases "of_stage cs s vs") (simp_all add: last_map split: list.splits)
qed

lemma noted_nothing:
  assumes "of_stage cs s vs = []"
  shows "filter (\<lambda>c. cn_stage c = s) (map (\<lambda>v. cs ! v) vs) = []"
  using assms by (simp add: of_stage_def filter_map comp_def)

definition of_kind :: "(trace_id \<rightharpoonup> pending_fact) \<Rightarrow> trace_kind \<Rightarrow> trace_id \<Rightarrow> bool" where
  "of_kind P k i \<longleftrightarrow> (\<exists>p. P i = Some p \<and> pn_kind p = k)"

definition chain_facts :: "(trace_id \<rightharpoonup> pending_fact) \<Rightarrow> trace_summary \<Rightarrow> bool" where
  "chain_facts P s \<longleftrightarrow>
     of_kind P Kind_ingress (sm_ingress s) \<and> of_kind P Kind_candidate (sm_candidate s) \<and>
     of_kind P Kind_selection (sm_selection s) \<and> of_kind P Kind_request (sm_request s) \<and>
     of_kind P Kind_decision (sm_decision s) \<and> of_kind P Kind_effect (sm_effect s) \<and> of_kind P Kind_mix (sm_mix s) \<and>
     ancestor_of P (sm_ingress s) (sm_candidate s) \<and> ancestor_of P (sm_candidate s) (sm_selection s) \<and>
     ancestor_of P (sm_selection s) (sm_request s) \<and> ancestor_of P (sm_request s) (sm_decision s) \<and>
     ancestor_of P (sm_request s) (sm_effect s) \<and> ancestor_of P (sm_request s) (sm_mix s) \<and>
     sm_occurrence s \<noteq> 0 \<and> (\<exists>p. P (sm_request s) = Some p \<and> pn_occurrence p = sm_occurrence s)"

definition ends_request :: "chain list \<Rightarrow> trace_stage \<Rightarrow> (nat \<rightharpoonup> nat) \<Rightarrow> bool" where
  "ends_request cs s m \<longleftrightarrow>
     (\<forall>r v. m r = Some v \<longrightarrow> r \<noteq> 0 \<and> 0 < v \<and> v < length cs \<and> cn_stage (cs ! v) = s \<and> cn_request (cs ! v) = r)"

definition tokens_well :: "(trace_id \<rightharpoonup> pending_fact) \<Rightarrow> fact_trace \<Rightarrow> bool" where
  "tokens_well P t \<longleftrightarrow>
     (\<forall>i v. token t i = Some v \<longrightarrow> v \<noteq> 0 \<longrightarrow>
        v < length (at_chains t) \<and> ancestor_of P (cn_id (at_chains t ! v)) i)"

definition complete_well :: "(trace_id \<rightharpoonup> pending_fact) \<Rightarrow> trace_summary \<Rightarrow> bool" where
  "complete_well P s \<longleftrightarrow> (if sm_connected s then chain_facts P s else ti_producer (sm_decision s) = 0)"

definition chain_inv :: "(trace_id \<rightharpoonup> pending_fact) \<Rightarrow> fact_trace \<Rightarrow> bool" where
  "chain_inv P t \<longleftrightarrow>
     chains_well P (at_chains t) \<and> tokens_well P t \<and> ends_request (at_chains t) Stage_effect (at_effects t) \<and>
     ends_request (at_chains t) Stage_mix (at_mixes t) \<and> complete_well P (at_complete t)"

lemma chain_of_kind:
  assumes "chains_well P cs" and "0 < v" and "v < length cs"
  shows "\<exists>p. P (cn_id (cs ! v)) = Some p \<and> stage_of_kind (pn_kind p) = cn_stage (cs ! v)"
  using chains_wellD [OF assms] by (auto simp: chain_well_def Let_def)

lemma kind_of_stage: "stage_of_kind k = stage_of_kind k' \<Longrightarrow> stage_of_kind k \<noteq> Stage_none \<Longrightarrow> k = k'"
  by (cases k; cases k') simp_all

lemma chain_kind:
  assumes "chains_well P cs" and "0 < v" and "v < length cs" and "cn_stage (cs ! v) = stage_of_kind k"
    and "stage_of_kind k \<noteq> Stage_none"
  shows "of_kind P k (cn_id (cs ! v))"
  using chain_of_kind [OF assms(1,2,3)] kind_of_stage [of _ k] assms(4,5) by (auto simp: of_kind_def)

text \<open>What is noted on the path of an effect and its mix, when a decision is on the path.\<close>

lemma complete_chain:
  assumes well: "chains_well P cs" and valid: "\<forall>i \<in> dom P. ti_producer i \<noteq> 0"
    and e: "0 < e" "e < length cs" "cn_stage (cs ! e) = Stage_effect" "cn_request (cs ! e) = r"
    and m: "0 < m" "m < length cs" "cn_stage (cs ! m) = Stage_mix" "cn_request (cs ! m) = r" and r: "r \<noteq> 0"
    and old: "ti_producer (sm_decision s) = 0"
  defines "s' \<equiv> (foldl note_chain s (map (\<lambda>v. cs ! v) (ancestry cs e)))\<lparr>sm_mix := cn_id (cs ! m)\<rparr>"
  shows "if all_stages_noted s' then chain_facts P s' else ti_producer (sm_decision s') = 0"
proof -
  let ?path = "ancestry cs e" and ?R = "\<lambda>s. root_of_stage cs s e"
  have own: "e \<in> set ?path" using ancestry_step [OF chains_down [OF well] e(1,2)] by simp
  have roots: "?R s \<in> set (ancestry cs v) \<and> cn_stage (cs ! ?R s) = s"
    if "s \<in> {Stage_ingress, Stage_candidate, Stage_selection, Stage_request}" "v \<in> set ?path"
      "stage_rank s \<le> stage_rank (cn_stage (cs ! v))" for s v
    using root_above [OF well that(1,2,3)] .
  have ne: "of_stage cs s ?path \<noteq> []"
    if "s \<in> {Stage_ingress, Stage_candidate, Stage_selection, Stage_request}" for s
    using roots [OF that own] that e(3) by (auto simp: of_stage_def filter_empty_conv)
  have ne_e: "of_stage cs Stage_effect ?path \<noteq> []" using own e(3) by (auto simp: of_stage_def filter_empty_conv)
  have path: "?R s \<in> set ?path" "cn_stage (cs ! ?R s) = s" "0 < ?R s" "?R s < length cs"
    if "of_stage cs s ?path \<noteq> []" for s
    using root_on_path [OF that] ancestry_within [of "?R s" cs e] by simp_all
  have fields: "sm_ingress s' = cn_id (cs ! ?R Stage_ingress)" "sm_candidate s' = cn_id (cs ! ?R Stage_candidate)"
    "sm_selection s' = cn_id (cs ! ?R Stage_selection)" "sm_request s' = cn_id (cs ! ?R Stage_request)"
    "sm_effect s' = cn_id (cs ! ?R Stage_effect)" "sm_occurrence s' = cn_occurrence (cs ! ?R Stage_request)"
    "sm_mix s' = cn_id (cs ! m)"
    using ne ne_e by (simp_all add: s'_def noted noted_path root_of_stage_def)
  show ?thesis
  proof (cases "of_stage cs Stage_decision ?path = []")
    case True
    then have "sm_decision s' = sm_decision s" by (simp add: s'_def noted noted_nothing)
    with old show ?thesis by (simp add: all_stages_noted_def)
  next
    case False
    then have dec: "sm_decision s' = cn_id (cs ! ?R Stage_decision)"
      by (simp add: s'_def noted noted_path root_of_stage_def)
    have anc: "ancestor_of P (cn_id (cs ! ?R s)) (cn_id (cs ! v))"
      if "s \<in> {Stage_ingress, Stage_candidate, Stage_selection, Stage_request}" "v \<in> set ?path"
        "stage_rank s \<le> stage_rank (cn_stage (cs ! v))" for s v
      using roots [OF that] ancestry_within [OF that(2)] ancestry_causes [OF well] by blast
    have "r \<in> set ?path" "cn_stage (cs ! r) = Stage_request" "r \<in> set (ancestry cs m)"
      using chains_wellD [OF well e(1,2)] chains_wellD [OF well m(1,2)] e(4) m(4) r
      by (auto simp: chain_well_def Let_def)
    then have mix: "ancestor_of P (cn_id (cs ! ?R Stage_request)) (cn_id (cs ! m))"
      using anc [of Stage_request r] ancestry_causes [OF well _ m(2), of r] by (auto intro: ancestor_trans)
    have request: "cn_occurrence (cs ! ?R Stage_request) \<noteq> 0 \<and>
        (\<exists>p. P (cn_id (cs ! ?R Stage_request)) = Some p \<and> pn_occurrence p = cn_occurrence (cs ! ?R Stage_request))"
      using chains_wellD [OF well path(3,4) [OF ne [of Stage_request]]] path(2) [OF ne [of Stage_request]]
      by (auto simp: chain_well_def Let_def)
    have "chain_facts P s'"
      unfolding chain_facts_def fields dec
      using anc [OF _ path(1) [OF ne [of Stage_candidate]], of Stage_ingress]
        anc [OF _ path(1) [OF ne [of Stage_selection]], of Stage_candidate]
        anc [OF _ path(1) [OF ne [of Stage_request]], of Stage_selection]
        anc [OF _ path(1) [OF False], of Stage_request] anc [OF _ path(1) [OF ne_e], of Stage_request]
        mix request path [OF False] path [OF ne_e] path [OF ne [of Stage_ingress]] path [OF ne [of Stage_candidate]]
        path [OF ne [of Stage_selection]] path [OF ne [of Stage_request]] m
      by (simp add: chain_kind [OF well])
    moreover have "of_kind P k i \<Longrightarrow> ti_producer i \<noteq> 0" for k i using valid by (auto simp: of_kind_def)
    ultimately have "all_stages_noted s'"
      by (auto simp: all_stages_noted_def chain_facts_def)
    with \<open>chain_facts P s'\<close> show ?thesis by simp
  qed
qed

lemma remember_complete_inv:
  assumes inv: "chain_inv P t" and valid: "\<forall>i \<in> dom P. ti_producer i \<noteq> 0"
  shows "chain_inv P (remember_complete r t)"
proof (cases "sm_connected (at_complete t) \<or> at_effects t r = None \<or> at_mixes t r = None")
  case True
  then have "remember_complete r t = t" by (auto simp: remember_complete_def split: option.splits)
  with inv show ?thesis by simp
next
  case False
  then obtain e m where em: "at_effects t r = Some e" "at_mixes t r = Some m" by auto
  let ?cs = "at_chains t"
  let ?s = "(foldl note_chain (at_complete t) (map (\<lambda>v. ?cs ! v) (ancestry ?cs e)))\<lparr>sm_mix := cn_id (?cs ! m)\<rparr>"
  have t': "remember_complete r t = t\<lparr>at_complete := ?s\<lparr>sm_connected := all_stages_noted ?s\<rparr>\<rparr>"
    using False em by (simp add: remember_complete_def Let_def)
  have "if all_stages_noted ?s then chain_facts P ?s else ti_producer (sm_decision ?s) = 0"
    using inv em False valid unfolding chain_inv_def complete_well_def ends_request_def
    by (intro complete_chain [where r = r]) auto
  then have "complete_well P (?s\<lparr>sm_connected := all_stages_noted ?s\<rparr>)"
    by (simp add: complete_well_def chain_facts_def split: if_splits)
  with inv show ?thesis
    unfolding t' by (simp add: chain_inv_def tokens_well_def)
qed

lemma ends_request_update:
  "ends_request cs s m \<Longrightarrow> 0 < v \<Longrightarrow> v < length cs \<Longrightarrow> cn_stage (cs ! v) = s \<Longrightarrow> cn_request (cs ! v) \<noteq> 0 \<Longrightarrow>
     ends_request cs s (m(cn_request (cs ! v) \<mapsto> v))"
  by (simp add: ends_request_def)

lemma publish_chain_inv:
  assumes inv: "chain_inv P t" and valid: "\<forall>i \<in> dom P. ti_producer i \<noteq> 0" and v: "v < length (at_chains t)"
  shows "chain_inv P (publish_chain v t)"
proof (cases "v = 0")
  case True
  with inv show ?thesis by (simp add: publish_chain_def)
next
  case False
  let ?c = "at_chains t ! v"
  define t1 where "t1 = (if cn_stage ?c = Stage_effect \<and> cn_request ?c \<noteq> 0 \<and> at_effects t (cn_request ?c) = None
      then t\<lparr>at_effects := (at_effects t)(cn_request ?c \<mapsto> v)\<rparr> else t)"
  define t2 where "t2 = (if cn_stage ?c = Stage_mix \<and> cn_request ?c \<noteq> 0 \<and> at_mixes t (cn_request ?c) = None
      then t1\<lparr>at_mixes := (at_mixes t)(cn_request ?c \<mapsto> v)\<rparr> else t1)"
  have "at_mixes t1 = at_mixes t" "at_chains t1 = at_chains t" by (simp_all add: t1_def)
  have "chain_inv P t1"
    using inv False v ends_request_update [of "at_chains t" Stage_effect "at_effects t" v]
    by (simp add: t1_def chain_inv_def tokens_well_def)
  then have "chain_inv P t2"
    using False v ends_request_update [of "at_chains t" Stage_mix "at_mixes t" v] \<open>at_mixes t1 = at_mixes t\<close>
      \<open>at_chains t1 = at_chains t\<close>
    by (simp add: t2_def chain_inv_def tokens_well_def)
  moreover have "publish_chain v t = (if cn_request ?c \<noteq> 0 then remember_complete (cn_request ?c) t2 else t2)"
    using False by (simp add: publish_chain_def Let_def t2_def t1_def)
  ultimately show ?thesis using remember_complete_inv [OF _ valid] by simp
qed

lemma chain_inv_cong:
  assumes "at_slots t = at_slots t'" and "at_chains t = at_chains t'" and "at_effects t = at_effects t'"
    and "at_mixes t = at_mixes t'" and "at_complete t = at_complete t'"
  shows "chain_inv P t = chain_inv P t'"
  using assms(2-5) token_cong [OF assms(1)] by (simp add: chain_inv_def tokens_well_def)

lemma publish_fact_chain_inv:
  assumes inv: "chain_inv P t" and valid: "\<forall>i \<in> dom P. ti_producer i \<noteq> 0" and i: "valid_trace_id (pn_id p)"
    and v: "v < length (at_chains t)" "v \<noteq> 0 \<Longrightarrow> ancestor_of P (cn_id (at_chains t ! v)) (pn_id p)"
    and pub: "publish_fact p v ready t = (t', ready')"
  shows "chain_inv P t'"
proof -
  let ?t1 = "set_slot (pn_id p) (Slot_chain v) t"
  have "tokens_well P ?t1"
    using inv v by (auto simp: chain_inv_def tokens_well_def token_set_slot [OF i] token_of_slot_def split: if_splits)
  then have "chain_inv P ?t1" using inv by (simp add: chain_inv_def)
  from publish_chain_inv [OF this valid] v(1) have "chain_inv P (publish_chain v ?t1)" by simp
  moreover have "chain_inv P t' = chain_inv P (publish_chain v ?t1)"
    using pub by (intro chain_inv_cong) (auto simp: publish_fact_def Let_def split: option.splits prod.splits)
  ultimately show ?thesis by simp
qed

lemma foldl_chooses:
  assumes "\<And>b c. f b c = b \<or> Q c (f b c)"
  shows "foldl f b cs = b \<or> (\<exists>c \<in> set cs. Q c (foldl f b cs))"
proof (induction cs arbitrary: b)
  case (Cons c cs)
  from Cons.IH [of "f b c"] assms [of b c] show ?case by auto
qed simp

lemma best_cause_of:
  "best_cause t p = 0 \<or> (\<exists>c \<in> set (pn_causes p). token t c = Some (best_cause t p))"
  unfolding best_cause_def by (rule foldl_chooses) (simp split: option.splits)

lemma best_cause_above:
  assumes "chain_inv P t" and "P (pn_id p) = Some p" and "best_cause t p \<noteq> 0"
  shows "best_cause t p < length (at_chains t) \<and> ancestor_of P (cn_id (at_chains t ! best_cause t p)) (pn_id p)"
proof -
  from best_cause_of [of t p] assms(3) obtain c where c: "c \<in> set (pn_causes p)" "token t c = Some (best_cause t p)" by auto
  with assms(1,3) have "best_cause t p < length (at_chains t)" "ancestor_of P (cn_id (at_chains t ! best_cause t p)) c"
    by (auto simp: chain_inv_def tokens_well_def)
  with ancestor_cause [where P = P and i = "pn_id p" and p = p and c = c] assms(2) c(1) show ?thesis by simp
qed

lemma chains_well_append:
  assumes well: "chains_well P cs" and parent: "cn_parent c < length cs"
    and fact: "\<exists>p. P (cn_id c) = Some p \<and> stage_of_kind (pn_kind p) = cn_stage c \<and>
      (cn_stage c = Stage_request \<longrightarrow> cn_occurrence c \<noteq> 0 \<and> pn_occurrence p = cn_occurrence c)"
    and stage: "cn_stage c \<noteq> Stage_none"
    and link: "if cn_stage c = Stage_ingress then cn_parent c = 0
      else cn_parent c \<noteq> 0 \<and> required_rank (cn_stage c) \<le> stage_rank (cn_stage (cs ! cn_parent c)) \<and>
        ancestor_of P (cn_id (cs ! cn_parent c)) (cn_id c)"
    and request: "cn_request c = (if cn_stage c = Stage_request then length cs else request_ancestor cs (cn_parent c))"
  shows "chains_well P (cs @ [c])"
proof -
  have ne: "cs \<noteq> []" using well by (simp add: chains_well_def)
  have down: "parents_down (cs @ [c])"
    using chains_down [OF well] parent by (auto simp: parents_down_def nth_append less_Suc_eq)
  have old: "chain_well P (cs @ [c]) v" if v: "0 < v" "v < length cs" for v
  proof -
    have w: "chain_well P cs v" using well v by (rule chains_wellD)
    have "set (ancestry (cs @ [c]) v) = set (ancestry cs v)" using ancestry_append [OF down v(2)] by simp
    moreover have "cn_parent (cs ! v) < length cs" using w v by (simp add: chain_well_def Let_def)
    moreover have "cn_request (cs ! v) \<noteq> 0 \<longrightarrow> cn_request (cs ! v) < length cs"
      using w ancestry_within [of "cn_request (cs ! v)" cs v] by (auto simp: chain_well_def Let_def)
    ultimately show ?thesis using w v by (simp add: chain_well_def Let_def nth_append split: if_splits)
  qed
  have new: "chain_well P (cs @ [c]) (length cs)"
  proof -
    have path: "ancestry (cs @ [c]) (length cs) = length cs # ancestry cs (cn_parent c)"
      using ancestry_step [OF down, of "length cs"] ancestry_append [OF down parent] ne by simp
    have req: "cn_request c \<in> set (ancestry (cs @ [c]) (length cs)) \<and>
        cn_stage ((cs @ [c]) ! cn_request c) = Stage_request" if nz: "cn_request c \<noteq> 0"
    proof (cases "cn_stage c = Stage_request")
      case True
      then show ?thesis using request by (simp add: path)
    next
      case False
      then have "cn_request c = request_ancestor cs (cn_parent c)" using request by simp
      with nz request_ancestor_above [of cs "cn_parent c"] have
        "cn_request c \<in> set (ancestry cs (cn_parent c))" "cn_stage (cs ! cn_request c) = Stage_request" by simp_all
      with ancestry_within [OF this(1)] show ?thesis by (simp add: path nth_append)
    qed
    show ?thesis
      using parent fact stage link req by (simp add: chain_well_def Let_def nth_append split: if_splits)
  qed
  show ?thesis
    using old new ne well by (auto simp: chains_well_def nth_append less_Suc_eq)
qed

lemma resolve_inv:
  assumes inv: "chain_inv P t" and p: "P (pn_id p) = Some p" and res: "resolve_fact t p = Some (cs, v)"
  shows "chain_inv P (t\<lparr>at_chains := cs\<rparr>) \<and> v < length cs \<and>
    (v \<noteq> 0 \<longrightarrow> ancestor_of P (cn_id (cs ! v)) (pn_id p))"
proof -
  let ?best = "best_cause t p" and ?cs = "at_chains t"
  have well: "chains_well P ?cs" using inv by (simp add: chain_inv_def)
  have ne: "?cs \<noteq> []" and root: "stage_rank (cn_stage (?cs ! 0)) = 0"
    using well by (simp_all add: chains_well_def first_chain_def)
  have best: "?best < length ?cs" "?best \<noteq> 0 \<Longrightarrow> ancestor_of P (cn_id (?cs ! ?best)) (pn_id p)"
    using best_cause_above [OF inv p] ne by (cases "?best = 0"; simp)+
  show ?thesis
  proof (cases "stage_of_fact ?cs ?best p")
    case None
    then have "cs = ?cs" "v = ?best" using res by (simp_all add: resolve_fact_def Let_def)
    with inv best show ?thesis by simp
  next
    case (Some sq)
    obtain s q n where sq: "sq = (s, q, n)" by (cases sq) auto
    define c where "c = \<lparr>cn_stage = s, cn_id = pn_id p, cn_parent = q,
      cn_request = (if s = Stage_request then length ?cs else request_ancestor ?cs q), cn_occurrence = n\<rparr>"
    have cs: "cs = ?cs @ [c]" "v = length ?cs"
      using res Some by (auto simp: resolve_fact_def add_chain_def Let_def sq c_def split: if_splits)
    have kind: "stage_of_kind (pn_kind p) = s" "s \<noteq> Stage_none" "s = Stage_request \<longrightarrow> n \<noteq> 0 \<and> pn_occurrence p = n"
      and link: "if s = Stage_ingress then q = 0 else q = ?best \<and> required_rank s \<le> stage_rank (cn_stage (?cs ! ?best))"
      using Some unfolding sq
      by (cases "pn_kind p"; auto simp: stage_of_fact_def Let_def split: if_splits)+
    have nonroot: "?best \<noteq> 0" if "s \<noteq> Stage_ingress"
    proof
      assume "?best = 0"
      with link that root have "required_rank s = 0" by simp
      with that kind(2) show False by (cases s) auto
    qed
    have "chains_well P (?cs @ [c])"
    proof (rule chains_well_append [OF well])
      show "cn_parent c < length ?cs" using link best(1) ne by (auto simp: c_def split: if_splits)
    qed (use p kind link nonroot best(2) in \<open>auto simp: c_def split: if_splits\<close>)
    moreover have "tokens_well P (t\<lparr>at_chains := ?cs @ [c]\<rparr>)"
      using inv by (auto simp: chain_inv_def tokens_well_def nth_append less_Suc_eq)
    moreover have "ends_request (?cs @ [c]) z m" if "ends_request ?cs z m" for z m
      using that by (auto simp: ends_request_def nth_append less_Suc_eq)
    moreover have "cn_id ((?cs @ [c]) ! length ?cs) = pn_id p" by (simp add: c_def)
    ultimately show ?thesis using inv unfolding cs by (simp add: chain_inv_def)
  qed
qed

lemma defer_chain_inv [simp]: "chain_inv P (defer_fact p t) = chain_inv P t"
  by (rule chain_inv_cong) (simp_all add: defer_fact_def)

lemma process_chain_inv:
  "trace_inv P X ready t \<Longrightarrow> chain_inv P t \<Longrightarrow> at_valid (process t ready) \<Longrightarrow> chain_inv P (process t ready)"
proof (induction t ready rule: process.induct)
  case (1 t)
  then show ?case by (simp add: process.simps)
next
  case (2 t p ready)
  note step = process.simps(2) [of t p ready]
  have valid: "at_valid t" using "2.prems"(3) by (cases "at_valid t") (simp_all add: step)
  show ?case
  proof (cases "all_causes_resolved t p")
    case False
    have "trace_inv P X ready (defer_fact p t)" using defer_inv [OF "2.prems"(1) False] by simp
    then show ?thesis using "2.IH"(1) "2.prems"(2,3) valid False by (simp add: step)
  next
    case True
    show ?thesis
    proof (cases "resolve_fact t p")
      case None
      then show ?thesis using "2.prems"(3) valid True by (simp add: step)
    next
      case (Some r)
      obtain cs v where r: "r = (cs, v)" by fastforce
      obtain t' ready' where pub: "publish_fact p v ready (t\<lparr>at_chains := cs\<rparr>) = (t', ready')" by fastforce
      have "all_causes_resolved (t\<lparr>at_chains := cs\<rparr>) p" using True by (simp add: all_causes_resolved_def)
      with publish_inv [OF _ _ pub] "2.prems"(1) have inv: "trace_inv P X ready' t'"
        by (simp add: resolve_keeps_unresolved)
      note D = trace_invD [OF "2.prems"(1)]
      have Pp: "P (pn_id p) = Some p" using D(4) by simp
      have ids: "valid_trace_id (pn_id p)" using declared_wellD [OF D(1) Pp] by simp
      have "\<forall>i \<in> dom P. ti_producer i \<noteq> 0" using D(1) by (auto simp: declared_well_def valid_trace_id_def)
      moreover note resolve_inv [OF "2.prems"(2) Pp Some [unfolded r]]
      ultimately have "chain_inv P t'"
        by (intro publish_fact_chain_inv [OF _ _ ids _ _ pub]) simp_all
      with inv show ?thesis using "2.IH"(2) "2.prems"(3) valid True Some r pub by (simp add: step)
    qed
  qed
qed

lemma chain_inv_mono:
  assumes "chain_inv P t" and le: "P \<subseteq>\<^sub>m Q"
  shows "chain_inv Q t"
proof -
  have sub: "P i = Some p \<Longrightarrow> Q i = Some p" for i p using le by (metis domI map_le_def)
  have "chain_facts P s \<Longrightarrow> chain_facts Q s" for s
    using ancestor_mono [OF _ le] sub unfolding chain_facts_def of_kind_def by meson
  then have "complete_well P s \<Longrightarrow> complete_well Q s" for s by (auto simp: complete_well_def)
  moreover have "tokens_well P t \<Longrightarrow> tokens_well Q t" using ancestor_mono [OF _ le] by (auto simp: tokens_well_def)
  ultimately show ?thesis using assms(1) chains_well_mono [OF _ le] by (simp add: chain_inv_def)
qed

lemma chain_inv_slots:
  assumes "chain_inv P t" and "\<And>i v. token t' i = Some v \<Longrightarrow> v \<noteq> 0 \<Longrightarrow> token t i = Some v"
    and "at_chains t' = at_chains t" and "at_effects t' = at_effects t" and "at_mixes t' = at_mixes t"
    and "at_complete t' = at_complete t"
  shows "chain_inv P t'"
  using assms by (simp add: chain_inv_def tokens_well_def) blast

lemma process_closes:
  assumes "trace_inv P X ready t" and "chain_inv P t" and "at_valid (process t ready)"
  shows "trace_inv P X [] (process t ready) \<and> chain_inv P (process t ready)"
  using process_inv [OF assms(1,3)] process_chain_inv [OF assms] by simp

lemma consume_engine_chain:
  assumes "trace_state (P, X) t" and chain: "chain_inv P t" and "consume_engine f t = (t', True)"
    and "compact_fact (at_run t) f = Some q"
  shows "chain_inv (P(pn_id q \<mapsto> q)) t'"
proof -
  let ?i = "pn_id q"
  from assms(3) obtain producer cs where p: "producer_number (id_producer (ft_id f)) = Some producer"
      "id_sequence (ft_id f) \<noteq> 0"
      "slot_at t \<lparr>ti_producer = producer, ti_sequence = id_sequence (ft_id f)\<rparr> = Slot_missing"
      "compact_causes (at_run t) (trace_kind_of (ft_kind f)) (ft_causes f) = Some cs"
    by (auto simp: consume_engine_def reject_def Let_def split: option.splits if_splits)
  have q: "q = \<lparr>pn_id = \<lparr>ti_producer = producer, ti_sequence = id_sequence (ft_id f)\<rparr>,
      pn_kind = trace_kind_of (ft_kind f), pn_occurrence = occurrence_of f, pn_causes = cs\<rparr>"
    using assms(4) p by (simp add: compact_fact_def)
  let ?t1 = "set_slot ?i Slot_unresolved t"
  let ?t = "?t1\<lparr>at_count := at_count t + 1\<rparr>"
  have i: "valid_trace_id ?i" "slot_at t ?i = Slot_missing"
    using producer_number_valid [OF p(1)] p(2,3) by (simp_all add: valid_trace_id_def q)
  have t': "t' = process ?t [q]" "at_valid t'"
    using assms(3) p by (auto simp: consume_engine_def Let_def q reject_def split: if_splits)
  have inv: "trace_inv P X [] t" using assms(1) by (simp add: trace_state_def)
  note D = trace_invD [OF inv]
  have "?i \<notin> dom P" using D(2) i by (auto simp: slots_match_def)
  then have le: "P \<subseteq>\<^sub>m P(?i \<mapsto> q)" by (auto simp: map_le_def)
  have tokens: "token ?t j = token ?t1 j" for j by (rule token_cong) simp
  have "chain_inv P ?t"
    by (rule chain_inv_slots [OF chain])
       (auto simp: tokens token_set_slot [OF i(1)] token_of_slot_def split: if_splits)
  then have "chain_inv (P(?i \<mapsto> q)) ?t" using le by (rule chain_inv_mono)
  moreover have "trace_inv (P(?i \<mapsto> q)) X [q] ?t1" by (rule engine_fact_inv [OF inv i])
  then have "trace_inv (P(?i \<mapsto> q)) X [q] ?t" by (subst trace_inv_cong [where t' = ?t1]) simp_all
  ultimately show ?thesis using process_closes [of _ _ "[q]" ?t] t' by simp
qed

lemma exclude_chain:
  assumes "trace_state (P, X) t" and chain: "chain_inv P t" and walk: "permutes_table walk"
    and x: "ex_from x \<noteq> 0" and "at_valid (exclude walk x t)"
  shows "chain_inv P (exclude walk x t)"
proof -
  from assms(5) obtain producer where producer: "producer_number (ex_producer x) = Some producer"
    and small: "ex_to x \<le> max_trace_facts"
    by (auto simp: exclude_def split: option.splits if_splits)
  obtain slots free where ex: "exclude_slots (grow_slots (unat (ex_to x)) (at_slots t producer))
      [unat (ex_from x) - 1..<unat (ex_to x)] = (slots, free)" by fastforce
  have free: "free" using assms(5) producer small ex by (auto simp: exclude_def Let_def split: if_splits)
  note ex = ex [unfolded eq_True [THEN iffD2, OF free]]
  obtain u ready where wk: "wake_excluded producer x (walk (at_waiting t)) (at_unresolved t, []) = (u, ready)"
    by fastforce
  define t2 where "t2 = t\<lparr>at_slots := (at_slots t)(producer := slots), at_unresolved := u,
    at_waiting := filter (\<lambda>(i, _). \<not> in_interval producer x i) (at_waiting t)\<rparr>"
  have run: "exclude walk x t = process t2 ready"
    using producer small ex wk by (simp add: exclude_def Let_def t2_def not_less)
  have vp: "valid_trace_id \<lparr>ti_producer = producer, ti_sequence = 1\<rparr>"
    using producer_number_valid [OF producer] by (simp add: valid_trace_id_def)
  have "token t i = Some v" if "token t2 i = Some v" "v \<noteq> 0" for i v
    using that exclude_slots_at(1) [OF x vp ex, of i]
    by (auto simp: token_slot token_of_slot_def t2_def slot_at_def valid_trace_id_def split: if_splits)
  then have "chain_inv P t2" by (rule chain_inv_slots [OF chain]) (simp_all add: t2_def)
  moreover have "trace_inv P (X \<union> {i. in_interval producer x i}) ready t2"
    unfolding t2_def using assms(1)
    by (intro exclusion_inv [OF _ walk x producer ex wk]) (simp add: trace_state_def)
  ultimately show ?thesis using process_closes [of _ _ ready t2] assms(5) by (simp add: run)
qed

lemma consume_chain:
  assumes state: "trace_state s t" and chain: "chain_inv (fst s) t" and walk: "permutes_table walk"
    and ok: "consume walk f t = (t', True)"
  shows "chain_inv (fst (declare_fact (at_run t) s f)) t'"
proof -
  obtain P X where s: "s = (P, X)" by fastforce
  have valid: "at_valid t" using ok by (auto simp: consume_def split: if_splits)
  show ?thesis
  proof (cases "id_producer (ft_id f) = inspection_producer")
    case False
    then have e: "consume_engine f t = (t', True)" using ok valid by (simp add: consume_def)
    from consume_engine_state [OF state [unfolded s] e] obtain q where q: "compact_fact (at_run t) f = Some q" by blast
    with consume_engine_chain [OF state [unfolded s] _ e q] chain False show ?thesis
      by (simp add: declare_fact_def s)
  next
    case True
    then have c: "consume_inspection walk f t = (t', True)" using ok valid by (simp add: consume_def)
    show ?thesis
    proof (cases "ft_kind f = ''fact_exclusion''")
      case False
      then have "at_slots t' = at_slots t \<and> at_chains t' = at_chains t \<and> at_effects t' = at_effects t \<and>
          at_mixes t' = at_mixes t \<and> at_complete t' = at_complete t"
        using c by (auto simp: consume_inspection_def reject_def split: if_splits option.splits)
      with False True chain chain_inv_cong [of t' t P] show ?thesis by (simp add: declare_fact_def s)
    next
      case excl: True
      then obtain x where x: "read_fact_exclusion f = Some x"
          "t' = exclude walk x (t\<lparr>at_count := at_count t + 1\<rparr>)" "at_valid t'"
        using c by (auto simp: consume_inspection_def reject_def Let_def split: if_splits option.splits)
      let ?t = "t\<lparr>at_count := at_count t + 1\<rparr>"
      have "trace_state (P, X) ?t" using state trace_state_cong [of ?t t s] by (simp add: s)
      moreover have "chain_inv P ?t" using chain chain_inv_cong [of ?t t P] by (simp add: s)
      ultimately have "chain_inv P t'"
        using exclude_chain [OF _ _ walk] read_exclusion_from [OF x(1)] x(2,3) by simp
      with True excl x show ?thesis by (simp add: declare_fact_def s split: option.splits)
    qed
  qed
qed

lemma consume_all_chain:
  "trace_state s t \<Longrightarrow> chain_inv (fst s) t \<Longrightarrow> permutes_table walk \<Longrightarrow> consume_all walk fs t = (t', True) \<Longrightarrow>
     chain_inv (fst (foldl (declare_fact (at_run t)) s fs)) t'"
proof (induction fs arbitrary: s t)
  case (Cons f fs)
  then obtain t1 where t1: "consume walk f t = (t1, True)" "consume_all walk fs t1 = (t', True)"
    by (auto split: prod.splits if_splits)
  from consume_state [OF Cons.prems(1,3) t1(1)]
  have "trace_state (declare_fact (at_run t) s f) t1" "at_run t1 = at_run t" by simp_all
  with Cons.IH [OF this(1) consume_chain [OF Cons.prems(1,2,3) t1(1)] Cons.prems(3) t1(2)] show ?case by simp
qed simp

lemma empty_chain_inv: "chain_inv Map.empty (make_trace run)"
  by (auto simp: chain_inv_def chains_well_def tokens_well_def ends_request_def complete_well_def make_trace_def
      token_slot slot_at_def token_of_slot_def empty_summary_def no_trace_id_def)

text \<open>
  C14: A trace that is reported connected is a chain of causes. When the summary of a run says so, the
  detected input, the candidate, the selection and the playback request it names are facts of these kinds, each an
  ancestor of the next, the request has the reported occurrence, and the decision, the effect
  and the mix it names descend from that request.
\<close>

theorem trace_connected_sound:
  assumes "permutes_table walk" and "consume_all walk fs (make_trace run) = (t, True)"
    and "sm_connected (summarize_trace transport t)"
  shows "chain_facts (fst (declared run fs)) (summarize_trace transport t)"
proof -
  have "chain_inv (fst (declared run fs)) t"
    using consume_all_chain [OF empty_trace_state _ assms(1,2)] empty_chain_inv
    by (simp add: declared_def) (simp add: make_trace_def)
  moreover have "sm_connected (at_complete t)" using assms(3) by (simp add: summarize_trace_def Let_def)
  ultimately have "chain_facts (fst (declared run fs)) (at_complete t)"
    by (simp add: chain_inv_def complete_well_def)
  then show ?thesis by (simp add: summarize_trace_def chain_facts_def Let_def)
qed

section \<open>A run of seven facts\<close>

text \<open>One input followed to its mix, in the order the Engine caused them or backwards.\<close>

definition traced_fact :: "string \<Rightarrow> u64 \<Rightarrow> cause list \<Rightarrow> qa_fact" where
  "traced_fact kind sequence causes =
     (example_fact [] sequence)
       \<lparr>ft_id := \<lparr>id_run = ''run'', id_producer = ''engine-1'', id_sequence = sequence\<rparr>, ft_kind := kind,
        ft_causes := causes,
        ft_occurrence := \<lparr>fd_availability = Known, fd_value = Some ''7'', fd_reason = []\<rparr>\<rparr>"

definition traced_cause :: "u64 \<Rightarrow> cause" where
  "traced_cause sequence = Cause_fact \<lparr>id_run = ''run'', id_producer = ''engine-1'', id_sequence = sequence\<rparr>"

definition traced_facts :: "qa_fact list" where
  "traced_facts =
     [traced_fact ''detector_input'' 1 [],
      traced_fact ''assignment_candidate'' 2 [traced_cause 1],
      traced_fact ''assignment_selection'' 3 [traced_cause 2],
      traced_fact ''hd_playback_request'' 4 [traced_cause 3],
      traced_fact ''hd_playback_decision'' 5 [traced_cause 4],
      traced_fact ''hd_playback_effect'' 6 [traced_cause 5],
      traced_fact ''hd_mix_participant'' 7 [traced_cause 4]]"

text \<open>The states of the run, each with the chains of the facts so far.\<close>

definition traced_chain :: "trace_stage \<Rightarrow> u64 \<Rightarrow> nat \<Rightarrow> nat \<Rightarrow> u64 \<Rightarrow> chain" where
  "traced_chain stage sequence parent request occurrence =
     \<lparr>cn_stage = stage, cn_id = \<lparr>ti_producer = 1, ti_sequence = sequence\<rparr>, cn_parent = parent,
      cn_request = request, cn_occurrence = occurrence\<rparr>"

definition traced_chains :: "nat \<Rightarrow> chain list" where
  "traced_chains n =
     take (Suc n)
       [first_chain, traced_chain Stage_ingress 1 0 0 0, traced_chain Stage_candidate 2 1 0 0,
        traced_chain Stage_selection 3 2 0 0, traced_chain Stage_request 4 3 4 7,
        traced_chain Stage_decision 5 4 4 7, traced_chain Stage_effect 6 5 4 7, traced_chain Stage_mix 7 4 4 7]"

definition traced_state :: "nat \<Rightarrow> fact_trace" where
  "traced_state n =
     (make_trace ''run'')
       \<lparr>at_slots := (\<lambda>_. [])(1 := map Slot_chain [1..<Suc n]), at_chains := traced_chains n,
        at_effects := (if n < 6 then Map.empty else [4 \<mapsto> 6]), at_count := of_nat n\<rparr>"

lemma traced_texts: "producer_number ''engine-1'' = Some 1" "parse_number 18446744073709551616 ''7'' = Some 7"
  by code_simp+

lemma resolve_one:
  assumes "pn_causes p = [c]" and "token t c = Some v" and "v \<noteq> 0"
    and "cn_stage (at_chains t ! 0) = Stage_none" and "cn_stage (at_chains t ! v) \<noteq> Stage_none"
  shows "resolve_fact t p =
     (case stage_of_fact (at_chains t) v p of
        None \<Rightarrow> Some (at_chains t, v)
      | Some (stage, parent, occurrence) \<Rightarrow> add_chain stage (pn_id p) parent occurrence (at_chains t))"
proof -
  have "best_cause t p = v"
    using assms by (cases "cn_stage (at_chains t ! v)") (simp_all add: best_cause_def)
  then show ?thesis by (simp add: resolve_fact_def)
qed

lemma process_link:
  "at_valid t \<Longrightarrow> all_causes_resolved t p \<Longrightarrow> resolve_fact t p = Some (cs, v) \<Longrightarrow> at_waiting t = [] \<Longrightarrow>
     process t [p] = publish_chain v (set_slot (pn_id p) (Slot_chain v) (t\<lparr>at_chains := cs\<rparr>))"
  by (simp add: process.simps publish_fact_def Let_def)

definition traced_pending :: "trace_kind \<Rightarrow> nat \<Rightarrow> nat list \<Rightarrow> pending_fact" where
  "traced_pending kind sequence causes =
     \<lparr>pn_id = \<lparr>ti_producer = 1, ti_sequence = of_nat sequence\<rparr>, pn_kind = kind, pn_occurrence = 7,
      pn_causes = map (\<lambda>c. \<lparr>ti_producer = 1, ti_sequence = of_nat c\<rparr>) causes\<rparr>"

definition traced_resolve :: "nat \<Rightarrow> nat \<Rightarrow> pending_fact \<Rightarrow> (chain list \<times> nat) option" where
  "traced_resolve n v p =
     (case stage_of_fact (traced_chains n) v p of
        None \<Rightarrow> Some (traced_chains n, v)
      | Some (stage, parent, occurrence) \<Rightarrow> add_chain stage (pn_id p) parent occurrence (traced_chains n))"

lemma traced_resolves:
  "traced_resolve 0 0 (traced_pending Kind_ingress 1 []) = Some (traced_chains 1, 1)"
  "traced_resolve 1 1 (traced_pending Kind_candidate 2 [1]) = Some (traced_chains 2, 2)"
  "traced_resolve 2 2 (traced_pending Kind_selection 3 [2]) = Some (traced_chains 3, 3)"
  "traced_resolve 3 3 (traced_pending Kind_request 4 [3]) = Some (traced_chains 4, 4)"
  "traced_resolve 4 4 (traced_pending Kind_decision 5 [4]) = Some (traced_chains 5, 5)"
  "traced_resolve 5 5 (traced_pending Kind_effect 6 [5]) = Some (traced_chains 6, 6)"
  "traced_resolve 6 4 (traced_pending Kind_mix 7 [4]) = Some (traced_chains 7, 7)"
  by code_simp+

lemma traced_chain_stage: "v < 8 \<Longrightarrow> v \<le> n \<Longrightarrow> cn_stage (traced_chains n ! v) = Stage_none \<longleftrightarrow> v = 0"
  by (simp add: traced_chains_def first_chain_def traced_chain_def nth_Cons numeral_eq_Suc split: nat.splits)

text \<open>A fact of the run is linked below the one cause it has, and its slot is filled.\<close>

definition traced_link :: "nat \<Rightarrow> fact_trace" where
  "traced_link n =
     publish_chain (Suc n) ((traced_state (Suc n))\<lparr>at_effects := at_effects (traced_state n)\<rparr>)"

lemma traced_step:
  assumes small: "n < 7" and cs: "cs = [] \<and> v = 0 \<or> cs = [v] \<and> 0 < v \<and> v \<le> n"
    and link: "traced_resolve n v (traced_pending (trace_kind_of k) (Suc n) cs) = Some (traced_chains (Suc n), Suc n)"
  shows "consume w (traced_fact k (of_nat (Suc n)) (map (\<lambda>c. traced_cause (of_nat c)) cs)) (traced_state n) =
    (traced_link n, True)"
proof -
  let ?t = "(traced_state n)\<lparr>at_slots := (\<lambda>_. [])(1 := map Slot_chain [1..<Suc n] @ [Slot_unresolved]),
    at_count := of_nat n + 1\<rparr>"
  let ?p = "traced_pending (trace_kind_of k) (Suc n) cs"
  have unat_small: "unat (word_of_nat m :: u64) = m" if "m < 100" for m
    using that by (simp add: unat_of_nat_small)
  have place: "unat (word_of_nat (Suc n) :: u64) = Suc n" by (rule unat_small) (use small in simp)
  then have nonzero: "word_of_nat (Suc n) \<noteq> (0 :: u64)" by (metis Zero_not_Suc unat_0)
  have index: "unat (word_of_nat (Suc n) - 1 :: u64) = n"
    using unat_pred [OF nonzero] place by simp
  have low: "\<not> (10000000 :: u64) < word_of_nat (Suc n)"
    using small place by (simp add: word_less_nat_alt del: of_nat_Suc)
  have slots: "at_slots (traced_state n) 1 = map Slot_chain [1..<Suc n]"
    "at_slots (traced_state n) = (\<lambda>_. [])(1 := map Slot_chain [1..<Suc n])" by (simp_all add: traced_state_def)
  have missing: "slot_at (traced_state n) \<lparr>ti_producer = 1, ti_sequence = of_nat (Suc n)\<rparr> = Slot_missing"
    by (simp add: slot_at_def slots Let_def index del: of_nat_Suc)
  have set_last: "set_slot \<lparr>ti_producer = 1, ti_sequence = of_nat (Suc n)\<rparr> s t =
      t\<lparr>at_slots := (\<lambda>_. [])(1 := map Slot_chain [1..<Suc n] @ [s])\<rparr>"
    if "at_slots t = (\<lambda>_. [])(1 := map Slot_chain [1..<Suc n] @ rest)" "length rest \<le> 1" for s t rest
    using that by (cases rest) (simp_all add: set_slot_def grow_slots_def place index list_update_append del: of_nat_Suc upt_Suc)
  have causes: "compact_causes ''run'' z (map (\<lambda>c. traced_cause (of_nat c)) cs) =
      Some (map (\<lambda>c. \<lparr>ti_producer = 1, ti_sequence = of_nat c\<rparr>) cs)" if "z \<noteq> Kind_output_span" for z
    using that cs unat_small [of v] small
    by (auto simp: traced_cause_def traced_texts unat_eq_zero simp flip: unat_gt_0)
  have token: "token ?t \<lparr>ti_producer = 1, ti_sequence = of_nat v\<rparr> = Some v" if "0 < v" "v \<le> n"
  proof -
    have v: "unat (word_of_nat v :: u64) = v" by (rule unat_small) (use that small in simp)
    with that have "word_of_nat v \<noteq> (0 :: u64)" by (metis unat_0 less_irrefl)
    moreover from unat_pred [OF this] v have "unat (word_of_nat v - 1 :: u64) = v - 1" by simp
    ultimately show ?thesis using that
      by (simp add: token_def producer_slots_def slot_at_def Let_def nth_append less_Suc_eq_le del: upt_Suc of_nat_Suc)
  qed
  have chains: "at_chains ?t = traced_chains n" by (simp add: traced_state_def)
  have "resolve_fact ?t ?p = traced_resolve n v ?p"
  proof (cases "v = 0")
    case True
    with cs have "best_cause ?t ?p = 0" by (simp add: best_cause_def traced_pending_def del: upt_Suc of_nat_Suc)
    with True show ?thesis by (simp only: resolve_fact_def traced_resolve_def chains Let_def)
  next
    case False
    with cs have v: "cs = [v]" "0 < v" "v \<le> n" by simp_all
    have "resolve_fact ?t ?p =
       (case stage_of_fact (at_chains ?t) v ?p of
          None \<Rightarrow> Some (at_chains ?t, v)
        | Some (stage, parent, occurrence) \<Rightarrow> add_chain stage (pn_id ?p) parent occurrence (at_chains ?t))"
      by (rule resolve_one [OF _ token [OF v(2,3)]])
        (use v small chains traced_chain_stage [of v n] traced_chain_stage [of 0 n] in \<open>simp_all add: traced_pending_def del: upt_Suc of_nat_Suc\<close>)
    then show ?thesis by (simp only: traced_resolve_def chains)
  qed
  with link have resolved: "resolve_fact ?t ?p = Some (traced_chains (Suc n), Suc n)" by simp
  have known: "all_causes_resolved ?t ?p"
    using cs token by (auto simp: all_causes_resolved_def traced_pending_def simp del: upt_Suc of_nat_Suc)
  have "set_slot (pn_id ?p) (Slot_chain (Suc n)) (?t\<lparr>at_chains := traced_chains (Suc n)\<rparr>) =
      (traced_state (Suc n))\<lparr>at_effects := at_effects (traced_state n)\<rparr>"
    by (simp add: traced_pending_def set_last [where rest = "[Slot_unresolved]"] del: upt_Suc of_nat_Suc)
       (simp add: traced_state_def make_trace_def)
  then have "process ?t [?p] = traced_link n"
    using process_link [OF _ known resolved] by (simp add: traced_link_def traced_state_def make_trace_def limit_defs)
  moreover have "at_valid (traced_link n)" "occurrence_of (traced_fact k (of_nat (Suc n)) us) = 7" for us
    by (simp_all add: traced_link_def traced_state_def make_trace_def limit_defs occurrence_of_def traced_fact_def traced_texts)
  moreover have "at_run (traced_state n) = ''run''" "at_valid (traced_state n)" "at_count (traced_state n) = of_nat n"
    by (simp_all add: traced_state_def make_trace_def limit_defs)
  moreover have "set_slot \<lparr>ti_producer = 1, ti_sequence = of_nat (Suc n)\<rparr> Slot_unresolved (traced_state n) =
      (traced_state n)\<lparr>at_slots := (\<lambda>_. [])(1 := map Slot_chain [1..<Suc n] @ [Slot_unresolved])\<rparr>"
    using set_last [of "traced_state n" "[]"] slots(2) by simp
  moreover have "trace_kind_of k \<noteq> Kind_output_span" using link cs
    by (auto simp: traced_resolve_def traced_pending_def stage_of_fact_def Let_def)
  ultimately show ?thesis
    using missing causes [of "trace_kind_of k"] low nonzero
    by (simp add: consume_def consume_engine_def traced_fact_def example_fact_def traced_texts inspection_producer_def
        max_trace_facts_def Let_def traced_pending_def del: of_nat_Suc upt_Suc)
qed

lemma traced_links:
  "n < 5 \<Longrightarrow> traced_link n = traced_state (Suc n)" "traced_link 5 = traced_state 6"
proof -
  show "traced_link n = traced_state (Suc n)" if "n < 5"
  proof -
    from that consider "n = 0" | "n = 1" | "n = 2" | "n = 3" | "n = 4" by linarith
    then show ?thesis
      by cases (simp_all add: traced_link_def publish_chain_def Let_def traced_state_def make_trace_def traced_chains_def
        traced_chain_def remember_complete_def)
  qed
  show "traced_link 5 = traced_state 6"
    by (simp add: traced_link_def publish_chain_def Let_def traced_state_def make_trace_def traced_chains_def
        traced_chain_def remember_complete_def)
qed

lemma traced_end: "sm_connected (summarize_trace True (traced_link 6))"
  by code_simp

lemma traced_run:
  "consume_all w traced_facts (make_trace ''run'') = (traced_link 6, True)"
proof -
  have start: "make_trace ''run'' = traced_state 0"
    by (simp add: traced_state_def make_trace_def traced_chains_def fun_eq_iff)
  note step = traced_step [of _ _ _ _ w] and evaluate = trace_kind_of_def traced_resolves [simplified] traced_links
  have "consume w (traced_fact ''detector_input'' 1 []) (traced_state 0) = (traced_state 1, True)"
    using step [of 0 "[]" 0 "''detector_input''"] by (simp add: evaluate)
  moreover have "consume w (traced_fact ''assignment_candidate'' 2 [traced_cause 1]) (traced_state 1) = (traced_state 2, True)"
    using step [of 1 "[1]" 1 "''assignment_candidate''"] traced_resolves(2) traced_links(1) [of 1]
    by (simp add: trace_kind_of_def numeral_2_eq_2)
  moreover have "consume w (traced_fact ''assignment_selection'' 3 [traced_cause 2]) (traced_state 2) = (traced_state 3, True)"
    using step [of 2 "[2]" 2 "''assignment_selection''"] by (simp add: evaluate)
  moreover have "consume w (traced_fact ''hd_playback_request'' 4 [traced_cause 3]) (traced_state 3) = (traced_state 4, True)"
    using step [of 3 "[3]" 3 "''hd_playback_request''"] by (simp add: evaluate)
  moreover have "consume w (traced_fact ''hd_playback_decision'' 5 [traced_cause 4]) (traced_state 4) = (traced_state 5, True)"
    using step [of 4 "[4]" 4 "''hd_playback_decision''"] by (simp add: evaluate)
  moreover have "consume w (traced_fact ''hd_playback_effect'' 6 [traced_cause 5]) (traced_state 5) = (traced_state 6, True)"
    using step [of 5 "[5]" 5 "''hd_playback_effect''"] by (simp add: evaluate)
  moreover have "consume w (traced_fact ''hd_mix_participant'' 7 [traced_cause 4]) (traced_state 6) = (traced_link 6, True)"
    using step [of 6 "[4]" 4 "''hd_mix_participant''"] by (simp add: evaluate)
  ultimately show ?thesis unfolding traced_facts_def start by simp
qed

theorem trace_connected_sound_witness:
  "chain_facts (fst (declared ''run'' traced_facts)) (summarize_trace True (traced_link 6))"
  by (rule trace_connected_sound [OF _ traced_run traced_end, of "\<lambda>ws. ws"]) (simp add: permutes_table_def)

theorem trace_loss_free_exact_witness: "evidence_closed ''run'' traced_facts"
proof -
  have "sm_loss_free (summarize_trace True (traced_link 6))"
    using traced_end by (simp add: summarize_trace_def Let_def)
  then show ?thesis
    using trace_loss_free_exact [OF _ traced_run, of "\<lambda>ws. ws" True] by (simp add: permutes_table_def traced_facts_def)
qed

end
