(* ===== verification/Spec2Isabelle.thy ===== *)
theory Spec2Isabelle
  imports Recovery_Planner Inspection_State Presentation_Health Input_Script Av_Sync
    Pad_Timeline Save_State Game_Input Music_Backend Music_Bundle Music_Restore
    Replay_Session Silent_Gate Run_Lifecycle Run_Sequences Content_Hash Watchdogs
    Request_Arbiter Audio_Integrity Fact_Integrity Evidence_Budget Pcm_Message
    Evidence_Stores Inspection_Facts Fact_Trace
begin

text \<open>
  Verification of the AYTHER Runtime, the C++20 host of one game session, and of the replay and
  audio QA code that runs in it.

  \<^bold>\<open>The program.\<close> The Runtime drives the AYTHER Engine over a Libretro core, presents its frames and
  owns the player's controls. In a QA run it replays a recorded take, or a pad timeline, through an
  inspectable window: a controller pauses, resumes and steps frame by frame, checkpoints of the
  session are kept in a bounded ring, a planner chooses how a frame is reached again, and a health
  monitor stops the take while the window, the video or the audio device is lost. In a game it maps
  keyboard and pad to the console's buttons, writes save states, and restores music across them.

  \<^bold>\<open>Theories and code.\<close> Paths are below \<^verbatim>\<open>src/\<close> of the repository.
  \<^item> \<open>Prelude\<close>: runs of a machine (\<open>exec\<close>, \<open>admissible_run\<close>) and the interfaces \<open>machine\<close>,
    \<open>guarded_machine\<close>, \<open>monotone_machine\<close>, \<open>absorbing_machine\<close> and \<open>simulation\<close>, whose lemmas on runs
    every component below obtains by interpretation.
  \<^item> \<open>Inspection_State\<close>: \<^verbatim>\<open>src/replay_inspection/inspection_state\<close>, one function per event handler,
    from a controller to a controller and the commands it returns; the playback cadence.
  \<^item> \<open>Checkpoint_Ring\<close>, \<open>Recovery_Planner\<close>: \<^verbatim>\<open>checkpoint_ring\<close>, \<^verbatim>\<open>recovery_planner\<close>. The planner uses
    the ring through the interface \<open>checkpoint_source\<close>; executing its plan gives the state of the
    linear run.
  \<^item> \<open>Key_Router\<close>, \<open>Presentation_Health\<close>, \<open>Take_Clock\<close>, \<open>Frame_Record\<close>, \<open>Debug_View\<close>, \<open>Replay_Messages\<close>,
    \<open>Av_Sync\<close>, \<open>Input_Script\<close>: the other files of \<^verbatim>\<open>src/replay_inspection\<close>.
  \<^item> \<open>Byte_Codec\<close>, \<open>Recording\<close>, \<open>Pad_Timeline\<close>: \<^verbatim>\<open>tools/audio_qa/recording_header\<close>,
    \<^verbatim>\<open>recording_input_source\<close>, \<^verbatim>\<open>pad_timeline\<close>; \<open>Text_Scan\<close> and \<open>Double_Rounding\<close> hold the parts of the C++
    library they use (\<^verbatim>\<open>from_chars\<close>, splitting of texts, rounding of doubles).
  \<^item> \<open>Replay_Progress\<close>, \<open>Replay_Loop\<close>: \<^verbatim>\<open>tools/audio_qa/replay_progress\<close>, \<^verbatim>\<open>recording_replay_loop\<close> and
    \<^verbatim>\<open>initial_state_publication\<close>, the linear production of a take and the events it publishes.
  \<^item> \<open>Session_Checkpoints\<close>, \<open>Silent_Gate\<close>: the checkpoint store over the ring and the silent production
    gate of \<^verbatim>\<open>src/audio_qa_inspection\<close>.
  \<^item> \<open>Replay_Session\<close>: the session loop of \<^verbatim>\<open>src/audio_qa_runtime_session.cpp\<close>, which composes the
    production loop, the checkpoint store, the planner and the controller over an Engine given by its
    operations.
  \<^item> \<open>Qa_Model\<close>, \<open>Run_Lifecycle\<close>, \<open>Run_Sequences\<close>, \<open>Watchdogs\<close>: the data of the audio QA program
    (\<^verbatim>\<open>tools/audio_qa/model.h\<close>, \<^verbatim>\<open>request_outcome\<close>, \<^verbatim>\<open>evidence_completeness\<close>, \<^verbatim>\<open>take_plan\<close>), the life of
    a run and its terminals (\<^verbatim>\<open>run_lifecycle\<close>, \<^verbatim>\<open>replay_terminal_arbiter\<close>, \<^verbatim>\<open>replay_control_gate\<close>,
    \<^verbatim>\<open>replay_cancellation\<close>, \<^verbatim>\<open>evidence_close\<close>), the runs, processes and requests of a session
    (\<^verbatim>\<open>take_run_sequence\<close>, \<^verbatim>\<open>take_process_sequence\<close>, \<^verbatim>\<open>request_registry\<close>, \<^verbatim>\<open>session_occupancy\<close>,
    \<^verbatim>\<open>process_cessation\<close>), and its clocks (\<^verbatim>\<open>cancellation_window\<close>, \<^verbatim>\<open>progress_watchdog\<close>,
    \<^verbatim>\<open>checkpoint_threshold\<close>).
  \<^item> \<open>Content_Hash\<close>: \<^verbatim>\<open>tools/audio_qa/content_hash\<close>, the incremental SHA-256.
  \<^item> \<open>Request_Arbiter\<close>: \<^verbatim>\<open>tools/audio_qa/request_terminal_arbiter\<close>, how coinciding events end a take and
    its request.
  \<^item> \<open>Evidence_Model\<close>, \<open>Protocol_Header\<close>, \<open>Fact_Binary\<close>, \<open>Fact_Document\<close>, \<open>Fact_Batch\<close>: the facts, mixes and
    PCM chunks of the evidence (\<^verbatim>\<open>fact_model\<close>, \<^verbatim>\<open>mix_model\<close>, \<^verbatim>\<open>audio_chunk\<close>), the header of a message
    (\<^verbatim>\<open>protocol_header\<close>), and the batches in which facts travel (\<^verbatim>\<open>fact_batch\<close>): a binary and a text form,
    each read back through the interfaces \<open>stream_format\<close>, \<open>counted_format\<close> and \<open>field_format\<close>.
  \<^item> \<open>Audio_Integrity\<close>, \<open>Fact_Integrity\<close>: \<^verbatim>\<open>audio_integrity\<close> and \<^verbatim>\<open>fact_integrity\<close>, the audits that decide
    whether the evidence of a run is complete; each is shown equal to a declarative description.
  \<^item> \<open>Coverage_Model\<close>, \<open>Evidence_Budget\<close>, \<open>Pcm_Message\<close>: the coverage of assignments and diagnostics
    (\<^verbatim>\<open>coverage_model\<close>), the limits of the storage (\<^verbatim>\<open>evidence_quota\<close>, \<^verbatim>\<open>material_staging_budget\<close>) and
    the PCM chunks as messages (\<^verbatim>\<open>pcm_message\<close>).
  \<^item> \<open>Evidence_Stores\<close>, \<open>Inspection_Facts\<close>, \<open>Fact_Trace\<close>: the files of the evidence (\<^verbatim>\<open>exclusive_file\<close>,
    \<^verbatim>\<open>fact_fragment_store\<close>, \<^verbatim>\<open>pcm_block_store\<close>), the facts the inspection adds to them
    (\<^verbatim>\<open>inspection_fact_builder\<close>, \<^verbatim>\<open>inspection_facts\<close>, \<^verbatim>\<open>read_inspection_event\<close>), and the accumulator that
    follows every fact to its causes in whatever order they arrive (\<^verbatim>\<open>fact_trace_summary\<close>).
  \<^item> \<open>Save_State\<close>, \<open>Input_Map\<close>, \<open>Game_Input\<close>: \<^verbatim>\<open>src/save_state_store\<close>, \<^verbatim>\<open>src/input_map\<close>,
    \<^verbatim>\<open>src/game_input\<close>.
  \<^item> \<open>Music_Backend\<close>, \<open>Music_Bundle\<close>, \<open>Music_Restore\<close>: \<^verbatim>\<open>src/music_pcm_backend.h\<close>,
    \<^verbatim>\<open>music_backend_drain.h\<close>, \<^verbatim>\<open>music_restore_*.h\<close>, \<^verbatim>\<open>music_state_bundle_store.h\<close>.

  \<^bold>\<open>What the lemmas show.\<close> For the state machines: an invariant over every sequence of events the
  adapter may deliver, and the safety statements that follow from it (one confirmation of the linear
  result, one action per key press, a cancellation that wins, a device loss that stays, generations of
  music samples that never mix). For the ring and the planner: the byte budget, and that a way back
  always exists and reaches the exact state. For formats and languages: the round trip of what is
  written in the documented syntax, the shape of what is accepted, and the rejection of what is
  damaged. For the stores: what every failure of the file system leaves behind. For the session loop: a
  refinement of the linear run of the take, for every interleaving of keys, interruptions and
  recoveries, over any Engine whose restored states are the captured ones (\<open>faithful_engine\<close>). For the
  registry and the hasher: the abstract map, and the SHA-256 of the whole content.

  \<^bold>\<open>Modelling choices.\<close> Integers of a fixed width are words and wrap. Doubles are reals under an
  explicit rounding, which the theorems only require to be monotone and exact on small integers, or
  arguments where only their text matters. The Engine, SDL, the TOML parser and the file system are
  not part of the repository: their answers are arguments. Loops are structural recursion; the one
  with fuel, the reading of all inputs of a source, is used with more fuel than the 54000 frames a
  take may have, and the lemmas show that it then reads them all.

  \<^bold>\<open>Not modelled.\<close> The Vulkan backend, the overlay, captures, telemetry and the process protocol call
  external libraries, and so do the start-up and the evidence set-up of the session
  (\<^verbatim>\<open>src/audio_qa_runtime_session.cpp\<close>); the request ledger, the other TOML
  documents and the remaining music headers are next.
\<close>

end
